(* ===== verification/Prelude.thy ===== *)
theory Prelude
  imports Complex_Main "HOL-Library.AList" "HOL-Library.Product_Lexorder"
    "HOL-Library.List_Lexorder" "HOL-Library.Char_ord" "HOL-Library.Multiset"
begin

text \<open>
  What every component of the model shares: Python's numbers, ordered dictionaries and
  sorts, and the errors the code raises. A \<open>float\<close> is an exact rational (rounding is not
  modelled), an \<open>int\<close> is an \<open>int\<close>, a \<open>dict\<close> is an association list in insertion order
  (\<^const>\<open>AList.update\<close> stores in place or at the end, as Python does), and
  \<open>sorted(xs, key=k, reverse=True)\<close> is the stable descending sort \<open>sort_desc k xs\<close>.
\<close>

named_theorems order_facts \<open>order and multiset facts of the sorts\<close>
named_theorems dedup_facts \<open>facts of order-preserving deduplication\<close>

type_synonym pyfloat = rat
type_synonym ('k, 'v) dict = "('k \<times> 'v) list"

datatype py_error =
    ValueError string
  | RuntimeError string
  | KeyError string
  | TypeError string
  | OtherError string

text \<open>The text of an exception, \<open>str(exc)\<close>.\<close>

fun error_text :: "py_error \<Rightarrow> string" where
  "error_text (ValueError m) = m"
| "error_text (RuntimeError m) = m"
| "error_text (KeyError m) = m"
| "error_text (TypeError m) = m"
| "error_text (OtherError m) = m"

text \<open>Code that may raise, run in sequence, and over a list in order up to the first error.\<close>

definition and_then :: "'e + 'a \<Rightarrow> ('a \<Rightarrow> 'e + 'b) \<Rightarrow> 'e + 'b" where
  "and_then r f = (case r of Inl e \<Rightarrow> Inl e | Inr x \<Rightarrow> f x)"

fun map_ok :: "('a \<Rightarrow> 'e + 'b) \<Rightarrow> 'a list \<Rightarrow> 'e + 'b list" where
  "map_ok f [] = Inr []"
| "map_ok f (x # xs) = and_then (f x) (\<lambda>y. and_then (map_ok f xs) (\<lambda>ys. Inr (y # ys)))"

lemma and_then_simps [simp]: "and_then (Inl e) f = Inl e" "and_then (Inr x) f = f x"
  by (simp_all add: and_then_def)

lemma and_then_Inr: "and_then r f = Inr y \<longleftrightarrow> (\<exists>x. r = Inr x \<and> f x = Inr y)"
  by (cases r) simp_all

lemma map_ok_Inr: "map_ok f xs = Inr ys \<longleftrightarrow> list_all2 (\<lambda>x y. f x = Inr y) xs ys"
  by (induction xs arbitrary: ys) (auto simp: and_then_Inr list_all2_Cons1)

lemma map_sum_InrE:
  assumes "map_sum id f r = Inr y"
  obtains x where "r = Inr x" "f x = y"
  using assms by (cases r) auto

subsection \<open>Order-preserving deduplication: \<open>list(dict.fromkeys(xs))\<close>\<close>

fun dedup_from :: "'a list \<Rightarrow> 'a list \<Rightarrow> 'a list" where
  "dedup_from seen [] = []"
| "dedup_from seen (x # xs) =
     (if List.member seen x then dedup_from seen xs else x # dedup_from (x # seen) xs)"

definition dedup :: "'a list \<Rightarrow> 'a list" where
  "dedup xs = dedup_from [] xs"

lemma set_dedup_from: "set (dedup_from seen xs) = set xs - set seen"
  by (induction seen xs rule: dedup_from.induct) auto

lemma distinct_dedup_from: "distinct (dedup_from seen xs)"
  by (induction seen xs rule: dedup_from.induct) (auto simp: set_dedup_from)

lemma length_dedup_from: "length (dedup_from seen xs) \<le> length xs"
  by (induction seen xs rule: dedup_from.induct) auto

lemma dedup_from_id:
  "distinct xs \<Longrightarrow> set xs \<inter> set seen = {} \<Longrightarrow> dedup_from seen xs = xs"
  by (induction seen xs rule: dedup_from.induct) auto

lemma dedup_from_append:
  "dedup_from seen (xs @ ys) = dedup_from seen xs @ dedup_from (rev xs @ seen) ys"
proof (induction seen xs rule: dedup_from.induct)
  case (2 seen x xs)
  have cong: "dedup_from s zs = dedup_from t zs" if "set s = set t" for s t zs
    using that by (induction s zs arbitrary: t rule: dedup_from.induct) auto
  show ?case
  proof (cases "x \<in> set seen")
    case True
    then have "set (rev xs @ seen) = set (rev (x # xs) @ seen)" by auto
    from cong [OF this] show ?thesis using 2(1) True by simp
  next
    case False
    have "set (rev xs @ x # seen) = set (rev (x # xs) @ seen)" by auto
    from cong [OF this] show ?thesis using 2(2) False by simp
  qed
qed simp

lemma set_dedup [simp, dedup_facts]: "set (dedup xs) = set xs"
  by (simp add: dedup_def set_dedup_from)

lemma distinct_dedup [simp, dedup_facts]: "distinct (dedup xs)"
  by (simp add: dedup_def distinct_dedup_from)

lemma length_dedup [dedup_facts]: "length (dedup xs) \<le> length xs"
  by (simp add: dedup_def length_dedup_from)

lemma dedup_distinct [dedup_facts]: "distinct xs \<Longrightarrow> dedup xs = xs"
  by (simp add: dedup_def dedup_from_id)

subsection \<open>Stable sorts\<close>

text \<open>Python sorts are stable, also with \<open>reverse=True\<close>: equal elements keep their order.\<close>

definition sort_desc :: "('a \<Rightarrow> 'k::linorder) \<Rightarrow> 'a list \<Rightarrow> 'a list" where
  "sort_desc k xs = rev (sort_key k (rev xs))"

lemma mset_sort_desc [simp, order_facts]: "mset (sort_desc k xs) = mset xs"
  by (simp add: sort_desc_def)

lemma set_sort_desc [simp, order_facts]: "set (sort_desc k xs) = set xs"
  by (simp add: sort_desc_def)

lemma length_sort_desc [simp, order_facts]: "length (sort_desc k xs) = length xs"
  by (simp add: sort_desc_def)

lemma sort_desc_Nil [simp]: "sort_desc k [] = []"
  by (simp add: sort_desc_def)

lemma distinct_sort_desc [simp]: "distinct (sort_desc k xs) = distinct xs"
  by (simp add: sort_desc_def)

lemma sort_desc_sorted [order_facts]:
  "sorted_wrt (\<lambda>a b. k b \<le> k a) (sort_desc k xs)"
proof -
  have "sorted (map k (sort_key k (rev xs)))" by simp
  then have "sorted_wrt (\<lambda>a b. k a \<le> k b) (sort_key k (rev xs))"
    by (simp add: sorted_map)
  then show ?thesis by (simp add: sort_desc_def sorted_wrt_rev)
qed

lemma sort_desc_stable [order_facts]:
  "filter (\<lambda>x. k x = v) (sort_desc k xs) = filter (\<lambda>x. k x = v) xs"
proof -
  have "filter (\<lambda>x. k x = v) (sort_key k (rev xs)) = filter (\<lambda>x. k x = v) (rev xs)"
    by (simp add: sort_key_stable)
  then show ?thesis by (simp add: sort_desc_def rev_filter [symmetric])
qed

lemma sorted_wrt_take: "sorted_wrt R xs \<Longrightarrow> sorted_wrt R (take n xs)"
  by (metis append_take_drop_id sorted_wrt_append)

subsection \<open>Decimal text of integers: \<open>str(n)\<close>\<close>

definition digit_char :: "nat \<Rightarrow> char" where
  "digit_char d = char_of (48 + d)"

fun show_nat :: "nat \<Rightarrow> string" where
  "show_nat n = (if n < 10 then [digit_char n] else show_nat (n div 10) @ [digit_char (n mod 10)])"

declare show_nat.simps [simp del]

definition show_int :: "int \<Rightarrow> string" where
  "show_int i = (if i < 0 then CHR ''-'' # show_nat (nat (- i)) else show_nat (nat i))"

text \<open>\<open>digit_value\<close> and \<open>read_nat\<close> read decimal text back: \<open>int(s)\<close> on digits.\<close>

definition is_digit :: "char \<Rightarrow> bool" where
  "is_digit c \<longleftrightarrow> 48 \<le> (of_char c :: nat) \<and> (of_char c :: nat) \<le> 57"

definition digit_value :: "char \<Rightarrow> nat" where
  "digit_value c = of_char c - 48"

definition read_nat :: "string \<Rightarrow> nat" where
  "read_nat s = foldl (\<lambda>n c. n * 10 + digit_value c) 0 s"

lemma digit_char_value [simp]: "d < 10 \<Longrightarrow> digit_value (digit_char d) = d"
  by (simp add: digit_value_def digit_char_def)

lemma digit_char_is_digit [simp]: "d < 10 \<Longrightarrow> is_digit (digit_char d)"
  by (simp add: is_digit_def digit_char_def)

lemma read_show_nat [simp]: "read_nat (show_nat n) = n"
proof (induction n rule: show_nat.induct)
  case (1 n)
  then show ?case
    by (cases "n < 10") (auto simp: show_nat.simps [of n] read_nat_def)
qed

lemma show_nat_digits: "c \<in> set (show_nat n) \<Longrightarrow> is_digit c"
proof (induction n rule: show_nat.induct)
  case (1 n)
  then show ?case
    by (cases "n < 10") (auto simp: show_nat.simps [of n])
qed

lemma show_nat_inj: "show_nat m = show_nat n \<Longrightarrow> m = n"
  by (metis read_show_nat)

lemma show_nat_no_minus: "show_nat n \<noteq> CHR ''-'' # s"
proof
  assume "show_nat n = CHR ''-'' # s"
  then have "is_digit (CHR ''-'')"
    by (metis list.set_intros(1) show_nat_digits)
  then show False by (simp add: is_digit_def)
qed

lemma show_int_inj:
  assumes "show_int i = show_int j"
  shows "i = j"
proof (cases "i < 0"; cases "j < 0")
  assume "i < 0" "j < 0"
  with assms have "show_nat (nat (- i)) = show_nat (nat (- j))" by (simp add: show_int_def)
  from show_nat_inj [OF this] \<open>i < 0\<close> \<open>j < 0\<close> show ?thesis by simp
next
  assume "i < 0" "\<not> j < 0"
  with assms have "show_nat (nat j) = CHR ''-'' # show_nat (nat (- i))"
    by (simp add: show_int_def)
  then show ?thesis by (simp add: show_nat_no_minus)
next
  assume "\<not> i < 0" "j < 0"
  with assms have "show_nat (nat i) = CHR ''-'' # show_nat (nat (- j))"
    by (simp add: show_int_def)
  then show ?thesis by (simp add: show_nat_no_minus)
next
  assume "\<not> i < 0" "\<not> j < 0"
  with assms have "show_nat (nat i) = show_nat (nat j)" by (simp add: show_int_def)
  from show_nat_inj [OF this] \<open>\<not> i < 0\<close> \<open>\<not> j < 0\<close> show ?thesis by simp
qed

subsection \<open>Ordered dictionaries: \<open>d.move_to_end(k)\<close>\<close>

definition move_to_end :: "'k \<Rightarrow> 'v \<Rightarrow> ('k, 'v) dict \<Rightarrow> ('k, 'v) dict" where
  "move_to_end k v d = filter (\<lambda>kv. fst kv \<noteq> k) d @ [(k, v)]"

lemma move_to_end_facts:
  "distinct (map fst d) \<Longrightarrow> distinct (map fst (move_to_end k v d))"
  "set (move_to_end k v d) \<subseteq> insert (k, v) (set d)"
  "length (move_to_end k v d) \<le> Suc (length d)"
  "map_of d k \<noteq> None \<Longrightarrow> distinct (map fst d) \<Longrightarrow> length (move_to_end k v d) \<le> length d"
proof -
  show "distinct (map fst d) \<Longrightarrow> distinct (map fst (move_to_end k v d))"
    by (auto simp: move_to_end_def distinct_map_filter)
  assume "map_of d k \<noteq> None" "distinct (map fst d)"
  then obtain w where "(k, w) \<in> set d" by (auto dest: map_of_SomeD)
  then have "length (filter (\<lambda>kv. fst kv \<noteq> k) d) < length d"
    by (intro length_filter_less [of "(k, w)"]) auto
  then show "length (move_to_end k v d) \<le> length d" by (simp add: move_to_end_def)
qed (auto simp: move_to_end_def le_SucI)

lemma map_of_move_to_end [simp]: "map_of (move_to_end k v d) = (map_of d)(k \<mapsto> v)"
proof
  fix k'
  have "map_of (filter (\<lambda>kv. fst kv \<noteq> k) d) k' = (if k' = k then None else map_of d k')"
    by (induction d) auto
  then show "map_of (move_to_end k v d) k' = ((map_of d)(k \<mapsto> v)) k'"
    by (simp add: move_to_end_def map_add_def split: option.splits)
qed

subsection \<open>Searching lists\<close>

lemma find_SomeD: "List.find P xs = Some x \<Longrightarrow> x \<in> set xs \<and> P x"
  by (auto simp: find_Some_iff)

lemma find_NoneD: "List.find P xs = None \<Longrightarrow> x \<in> set xs \<Longrightarrow> \<not> P x"
  by (auto simp: find_None_iff)

lemma in_map_filter: "y \<in> set (List.map_filter f xs) \<longleftrightarrow> (\<exists>x\<in>set xs. f x = Some y)"
  by (force simp: map_filter_def)

end
