(* ===== verification/Request_Limit.thy ===== *)
theory Request_Limit
  imports Prelude
begin

text \<open>
  Admission control: the rolling request window and the weighted token bucket of
  \<open>core/request_limit.py\<close> and the per-tenant token bucket of \<open>core/rate_limit.py\<close>. The clock
  reading and the answer of the Redis coordinator (\<open>None\<close> for no coordinator, \<open>Some None\<close>
  for one that is unreachable) are arguments of each call; the lock makes a call one step.
\<close>

named_theorems limit_facts \<open>facts of the admission limiters\<close>

type_synonym 'a answer = "'a option option"

text \<open>Python's \<open>int(x)\<close> on a float truncates towards zero.\<close>

definition py_trunc :: "pyfloat \<Rightarrow> int" where
  "py_trunc x = (if 0 \<le> x then \<lfloor>x\<rfloor> else \<lceil>x\<rceil>)"

subsection \<open>RequestWindowLimiter\<close>

record window_limiter =
  requests_per_window :: int
  window_seconds :: pyfloat
  window_requests :: "pyfloat list"

definition window_limiter_init ::
    "int \<Rightarrow> pyfloat \<Rightarrow> bool \<Rightarrow> string option \<Rightarrow> py_error + window_limiter" where
  "window_limiter_init n w has_redis scope =
     (if n \<le> 0 \<or> w \<le> 0
      then Inl (ValueError ''request budget and window must be greater than zero'')
      else if has_redis \<and> (scope = None \<or> scope = Some '''')
      then Inl (ValueError ''scope is required when Redis coordination is enabled'')
      else Inr \<lparr>requests_per_window = n, window_seconds = w, window_requests = []\<rparr>)"

definition window_allow_memory ::
    "pyfloat \<Rightarrow> window_limiter \<Rightarrow> (bool \<times> pyfloat) \<times> window_limiter" where
  "window_allow_memory now l =
     (let cutoff = now - window_seconds l;
          live = dropWhile (\<lambda>t. t \<le> cutoff) (window_requests l)
      in if requests_per_window l \<le> int (length live)
         then ((False, max (window_seconds l - (now - hd live)) 0), l\<lparr>window_requests := live\<rparr>)
         else ((True, 0), l\<lparr>window_requests := live @ [now]\<rparr>))"

definition window_allow ::
    "(bool \<times> pyfloat) answer \<Rightarrow> pyfloat \<Rightarrow> window_limiter
      \<Rightarrow> (bool \<times> pyfloat) \<times> window_limiter" where
  "window_allow redis now l =
     (case redis of Some (Some result) \<Rightarrow> (result, l) | _ \<Rightarrow> window_allow_memory now l)"

text \<open>A run of in-process calls: the times of the admitted ones, and the final limiter.\<close>

fun window_run :: "window_limiter \<Rightarrow> pyfloat list \<Rightarrow> pyfloat list \<times> window_limiter" where
  "window_run l [] = ([], l)"
| "window_run l (t # ts) =
     (case window_allow_memory t l of ((ok, retry), l') \<Rightarrow>
        (case window_run l' ts of (admitted, l'') \<Rightarrow>
           (if ok then t # admitted else admitted, l'')))"

subsection \<open>TokenBudgetLimiter\<close>

record token_limiter =
  tokens_per_minute :: int
  token_level :: pyfloat
  token_updated :: pyfloat

definition token_limiter_init ::
    "int \<Rightarrow> bool \<Rightarrow> string option \<Rightarrow> pyfloat \<Rightarrow> py_error + token_limiter" where
  "token_limiter_init n has_redis scope now =
     (if n \<le> 0 then Inl (ValueError ''token budget must be greater than zero'')
      else if has_redis \<and> (scope = None \<or> scope = Some '''')
      then Inl (ValueError ''scope is required when Redis coordination is enabled'')
      else Inr \<lparr>tokens_per_minute = n, token_level = of_int n, token_updated = now\<rparr>)"

definition token_allow_memory ::
    "pyfloat \<Rightarrow> pyfloat \<Rightarrow> token_limiter \<Rightarrow> (bool \<times> pyfloat) \<times> token_limiter" where
  "token_allow_memory estimated now l =
     (let refill = of_int (tokens_per_minute l) / 60;
          elapsed = max (now - token_updated l) 0;
          level = min (of_int (tokens_per_minute l)) (token_level l + elapsed * refill);
          l' = l\<lparr>token_level := level, token_updated := now\<rparr>
      in if level < estimated
         then ((False, max ((estimated - level) / refill) 0), l')
         else ((True, 0), l'\<lparr>token_level := level - estimated\<rparr>))"

definition token_allow ::
    "(bool \<times> pyfloat) answer \<Rightarrow> int \<Rightarrow> pyfloat \<Rightarrow> token_limiter
      \<Rightarrow> py_error + (bool \<times> pyfloat) \<times> token_limiter" where
  "token_allow redis estimated now l =
     (if estimated \<le> 0
      then Inl (ValueError ''estimated token usage must be greater than zero'')
      else if estimated > tokens_per_minute l then Inr ((False, 60), l)
      else (case redis of
          Some (Some result) \<Rightarrow> Inr (result, l)
        | _ \<Rightarrow> Inr (token_allow_memory (of_int estimated) now l)))"

subsection \<open>TenantRateLimiter\<close>

record bucket =
  bucket_tokens :: pyfloat
  bucket_updated :: pyfloat

record rate_policy =
  requests_per_minute :: int
  burst :: int

type_synonym bucket_table = "string \<rightharpoonup> bucket"

definition rate_scope :: "string \<Rightarrow> string \<Rightarrow> string" where
  "rate_scope company_id digest = company_id @ '':'' @ digest"

definition bucket_spend :: "int \<Rightarrow> int \<Rightarrow> pyfloat \<Rightarrow> bucket \<Rightarrow> (bool \<times> int) \<times> bucket" where
  "bucket_spend rpm bst now b =
     (let refill = of_int rpm / 60;
          elapsed = max (now - bucket_updated b) 0;
          level = min (of_int bst) (bucket_tokens b + elapsed * refill)
      in if level < 1
         then ((False, max (py_trunc level) 0), \<lparr>bucket_tokens = level, bucket_updated = now\<rparr>)
         else ((True, max (py_trunc (level - 1)) 0),
               \<lparr>bucket_tokens = level - 1, bucket_updated = now\<rparr>))"

definition rate_allow_memory ::
    "string \<Rightarrow> int \<Rightarrow> int \<Rightarrow> pyfloat \<Rightarrow> bucket_table \<Rightarrow> (bool \<times> int) \<times> bucket_table" where
  "rate_allow_memory scope rpm bst now table =
     (let b = (case table scope of
                 None \<Rightarrow> \<lparr>bucket_tokens = of_int bst, bucket_updated = now\<rparr>
               | Some b \<Rightarrow> b)
      in case bucket_spend rpm bst now b of (result, b') \<Rightarrow> (result, table(scope \<mapsto> b')))"

definition rate_allow ::
    "(bool \<times> int) answer \<Rightarrow> string \<Rightarrow> string \<Rightarrow> rate_policy \<Rightarrow> pyfloat \<Rightarrow> bucket_table
      \<Rightarrow> (bool \<times> int) \<times> bucket_table" where
  "rate_allow redis company_id digest policy now table =
     (case redis of
        Some (Some result) \<Rightarrow> (result, table)
      | _ \<Rightarrow> rate_allow_memory (rate_scope company_id digest) (requests_per_minute policy)
               (burst policy) now table)"

subsection \<open>The rolling window never exceeds its budget\<close>

text \<open>
  What the deque keeps: it is sorted, no entry is later than the last call, it never holds
  more than the budget, and it holds every admitted request that is younger than the window.
\<close>

definition window_ok :: "window_limiter \<Rightarrow> bool" where
  "window_ok l \<longleftrightarrow> 0 < requests_per_window l \<and> 0 < window_seconds l
     \<and> sorted (window_requests l) \<and> int (length (window_requests l)) \<le> requests_per_window l"

lemma window_init_ok: "window_limiter_init n w r s = Inr l \<Longrightarrow> window_ok l"
  by (auto simp: window_limiter_init_def window_ok_def split: if_splits)

lemma sorted_dropWhile_le: "sorted xs \<Longrightarrow> dropWhile (\<lambda>t. t \<le> c) xs = filter (\<lambda>t. c < t) xs"
  for c :: "'a::linorder"
proof (induction xs)
  case (Cons x xs)
  then show ?case
  proof (cases "x \<le> c")
    case False
    then have "\<forall>y \<in> set (x # xs). c < y" using Cons.prems by auto
    with False show ?thesis by (simp add: filter_id_conv)
  qed (use Cons in auto)
qed simp

lemma window_allow_fields [simp]:
  "window_allow_memory now l = (r, l') \<Longrightarrow> requests_per_window l' = requests_per_window l"
  "window_allow_memory now l = (r, l') \<Longrightarrow> window_seconds l' = window_seconds l"
  by (auto simp: window_allow_memory_def Let_def split: if_splits)

lemma window_allow_requests:
  assumes "sorted (window_requests l)" and "window_allow_memory now l = ((ok, retry), l')"
  shows "window_requests l' =
    filter (\<lambda>t. now - window_seconds l < t) (window_requests l) @ (if ok then [now] else [])"
    and "ok \<longleftrightarrow> int (length (filter (\<lambda>t. now - window_seconds l < t) (window_requests l)))
      < requests_per_window l"
proof -
  let ?live = "filter (\<lambda>t. now - window_seconds l < t) (window_requests l)"
  have "dropWhile (\<lambda>t. t \<le> now - window_seconds l) (window_requests l) = ?live"
    by (rule sorted_dropWhile_le [OF assms(1)])
  note eq = assms(2) [unfolded window_allow_memory_def Let_def this]
  show "window_requests l' = ?live @ (if ok then [now] else [])"
  proof (cases "requests_per_window l \<le> int (length ?live)")
    case True
    with eq have "l' = l\<lparr>window_requests := ?live\<rparr>" "\<not> ok" by auto
    then show ?thesis by simp
  next
    case False
    with eq have "l' = l\<lparr>window_requests := ?live @ [now]\<rparr>" "ok" by auto
    then show ?thesis by simp
  qed
  show "ok \<longleftrightarrow> int (length ?live) < requests_per_window l"
    using eq by (cases "requests_per_window l \<le> int (length ?live)") auto
qed

lemma window_allow_ok:
  assumes "window_ok l" and "\<forall>t \<in> set (window_requests l). t \<le> now"
    and "window_allow_memory now l = ((ok, retry), l')"
  shows "window_ok l'" and "\<forall>t \<in> set (window_requests l'). t \<le> now"
proof -
  have srt: "sorted (window_requests l)" using assms(1) by (simp add: window_ok_def)
  note req = window_allow_requests [OF srt assms(3)]
  have len: "length (filter (\<lambda>t. now - window_seconds l < t) (window_requests l))
      \<le> length (window_requests l)" by simp
  show "window_ok l'"
  proof (cases ok)
    case True
    then show ?thesis
      using assms req by (auto simp: window_ok_def sorted_append sorted_wrt_filter)
  next
    case False
    then have "window_requests l' = filter (\<lambda>t. now - window_seconds l < t) (window_requests l)"
      using req by simp
    moreover have "int (length (filter (\<lambda>t. now - window_seconds l < t) (window_requests l)))
        \<le> requests_per_window l"
      using len assms(1) by (simp add: window_ok_def del: length_filter_le)
    ultimately show ?thesis
      using assms(1,3) srt by (simp add: window_ok_def sorted_wrt_filter)
  qed
  show "\<forall>t \<in> set (window_requests l'). t \<le> now" using assms(2) req by auto
qed

text \<open>
  The history of a run, as one list: whatever the deque held at the start, then the admitted
  times. Any window of the configured length contains at most the budget of them.
\<close>

definition in_window :: "pyfloat \<Rightarrow> pyfloat \<Rightarrow> pyfloat \<Rightarrow> bool" where
  "in_window t w a \<longleftrightarrow> t - w < a \<and> a \<le> t"

lemma window_run_budget:
  assumes "window_ok l" and "sorted ts" and "\<forall>t \<in> set ts. \<forall>a \<in> set hist. a \<le> t"
    and "\<forall>t \<in> set ts. filter (\<lambda>a. t - window_seconds l < a) hist
          = filter (\<lambda>a. t - window_seconds l < a) (window_requests l)"
    and "\<forall>t. int (length (filter (in_window t (window_seconds l)) hist)) \<le> requests_per_window l"
    and "\<forall>t \<in> set ts. \<forall>a \<in> set (window_requests l). a \<le> t"
    and "window_run l ts = (admitted, l')"
  shows "int (length (filter (in_window t (window_seconds l)) (hist @ admitted)))
    \<le> requests_per_window l"
  using assms
proof (induction ts arbitrary: l hist admitted)
  case Nil
  then show ?case by simp
next
  case (Cons now ts)
  obtain ok retry l1 where step: "window_allow_memory now l = ((ok, retry), l1)"
    by (metis prod.exhaust)
  obtain adm1 where rest: "window_run l1 ts = (adm1, l')"
    and adm: "admitted = (if ok then now # adm1 else adm1)"
    using Cons.prems(7) step by (auto split: prod.splits)
  let ?w = "window_seconds l" and ?n = "requests_per_window l"
  let ?h = "hist @ (if ok then [now] else [])"
  have srt: "sorted (window_requests l)" using Cons.prems(1) by (simp add: window_ok_def)
  note req = window_allow_requests [OF srt step]
  have old: "\<forall>a \<in> set (window_requests l). a \<le> now" using Cons.prems(6) by simp
  have live: "filter (\<lambda>a. now - ?w < a) hist = filter (\<lambda>a. now - ?w < a) (window_requests l)"
    using Cons.prems(4) by simp
  have later: "now \<le> t" if "t \<in> set ts" for t using Cons.prems(2) that by simp
  have keep: "filter (\<lambda>a. t - ?w < a) ?h = filter (\<lambda>a. t - ?w < a) (window_requests l1)"
    if "t \<in> set ts" for t
  proof -
    have "filter (\<lambda>a. t - ?w < a) (window_requests l)
        = filter (\<lambda>a. t - ?w < a) (filter (\<lambda>a. now - ?w < a) (window_requests l))"
      using later [OF that] by (auto intro!: filter_cong)
    moreover have "filter (\<lambda>a. t - ?w < a) hist = filter (\<lambda>a. t - ?w < a) (window_requests l)"
      using Cons.prems(4) that by simp
    ultimately show ?thesis using req(1) by simp
  qed
  have bound: "int (length (filter (in_window t ?w) ?h)) \<le> ?n" for t
  proof (cases "ok \<and> in_window t ?w now")
    case False
    then show ?thesis using Cons.prems(5) by (auto split: if_splits)
  next
    case True
    have "filter (in_window t ?w) hist = filter (in_window t ?w) (filter (\<lambda>a. now - ?w < a) hist)"
      using True by (auto simp: in_window_def intro!: filter_cong)
    then have "length (filter (in_window t ?w) hist) \<le> length (filter (\<lambda>a. now - ?w < a) hist)"
      by (metis length_filter_le)
    moreover have "int (length (filter (\<lambda>a. now - ?w < a) hist)) < ?n"
      using req(2) True live by simp
    ultimately show ?thesis using True by simp
  qed
  have "int (length (filter (in_window t (window_seconds l1)) (?h @ adm1)))
      \<le> requests_per_window l1"
  proof (rule Cons.IH [OF _ _ _ _ _ _ rest])
    show "window_ok l1" by (rule window_allow_ok(1) [OF Cons.prems(1) old step])
    show "sorted ts" using Cons.prems(2) by simp
    show "\<forall>t \<in> set ts. \<forall>a \<in> set ?h. a \<le> t"
      using Cons.prems(3) later by (auto split: if_splits)
    show "\<forall>t \<in> set ts. filter (\<lambda>a. t - window_seconds l1 < a) ?h
        = filter (\<lambda>a. t - window_seconds l1 < a) (window_requests l1)"
      using keep step by simp
    show "\<forall>t. int (length (filter (in_window t (window_seconds l1)) ?h)) \<le> requests_per_window l1"
      using bound step by simp
    show "\<forall>t \<in> set ts. \<forall>a \<in> set (window_requests l1). a \<le> t"
      using window_allow_ok(2) [OF Cons.prems(1) old step] later by force
  qed
  then show ?case using adm step by (auto split: if_splits)
qed

text \<open>A refused call says when to come back: then, and not before, the call is admitted.\<close>

lemma window_retry_exact:
  assumes ok: "window_ok l" and le: "\<forall>t \<in> set (window_requests l). t \<le> now"
    and step: "window_allow_memory now l = ((False, retry), l')"
    and later: "now \<le> t"
    and again: "window_allow_memory t l' = ((ok', retry'), l'')"
  shows "ok' \<longleftrightarrow> now + retry \<le> t"
proof -
  let ?w = "window_seconds l" and ?live = "window_requests l'"
  have srt: "sorted (window_requests l)" and n: "0 < requests_per_window l"
    using ok by (simp_all add: window_ok_def)
  note req = window_allow_requests [OF srt step]
  have live: "?live = filter (\<lambda>a. now - ?w < a) (window_requests l)" using req(1) by simp
  have full: "\<not> int (length ?live) < requests_per_window l" using req(2) live by simp
  then obtain a as where cons: "?live = a # as" using n by (cases ?live) auto
  have srt': "sorted ?live" using live srt by (simp add: sorted_wrt_filter)
  have a: "now - ?w < a" 
  proof -
    have "a \<in> set ?live" using cons by simp
    then show ?thesis using live by simp
  qed
  have ret: "retry = a + ?w - now"
  proof -
    let ?F = "filter (\<lambda>a. now - ?w < a) (window_requests l)"
    have F: "dropWhile (\<lambda>t. t \<le> now - ?w) (window_requests l) = ?F"
      by (rule sorted_dropWhile_le [OF srt])
    have "requests_per_window l \<le> int (length ?F)" using full live by simp
    with step [unfolded window_allow_memory_def Let_def F]
    have "retry = max (?w - (now - hd ?F)) 0" by auto
    moreover have "hd ?F = a" using live cons by (metis list.sel(1))
    ultimately show ?thesis using a by simp
  qed
  have len: "int (length ?live) \<le> requests_per_window l"
    using window_allow_ok(1) [OF ok le step] step by (simp add: window_ok_def)
  have secs: "window_seconds l' = ?w" "requests_per_window l' = requests_per_window l"
    using step by simp_all
  have "ok' \<longleftrightarrow> int (length (filter (\<lambda>b. t - ?w < b) ?live)) < requests_per_window l"
    using window_allow_requests(2) [OF srt' again] secs by simp
  also have "\<dots> \<longleftrightarrow> a \<le> t - ?w"
  proof (cases "a \<le> t - ?w")
    case True
    then have "length (filter (\<lambda>b. t - ?w < b) ?live) \<le> length as"
      using cons by (simp add: not_less)
    moreover have "length ?live = Suc (length as)" using cons by simp
    ultimately have "int (length (filter (\<lambda>b. t - ?w < b) ?live)) < requests_per_window l"
      using len by linarith
    with True show ?thesis by blast
  next
    case False
    then have "filter (\<lambda>b. t - ?w < b) ?live = ?live"
      using srt' cons by (auto simp: filter_id_conv)
    then show ?thesis using full False by simp
  qed
  also have "\<dots> \<longleftrightarrow> now + retry \<le> t" using ret by auto
  finally show ?thesis .
qed

subsection \<open>What a refilling bucket promises\<close>

text \<open>
  The contract of every token bucket of the program: between calls the level grows at the
  refill rate up to the capacity, a call takes its cost if the level covers it and nothing
  otherwise. \<open>bucket_run\<close> is a sequence of calls (time, cost); its result is what they were
  granted in total.
\<close>

fun bucket_run :: "(pyfloat \<Rightarrow> pyfloat \<Rightarrow> 's \<Rightarrow> bool \<times> 's) \<Rightarrow> 's \<Rightarrow> (pyfloat \<times> pyfloat) list
    \<Rightarrow> pyfloat \<times> 's" where
  "bucket_run spend s [] = (0, s)"
| "bucket_run spend s ((now, cost) # calls) =
     (case spend cost now s of (ok, s') \<Rightarrow>
        (case bucket_run spend s' calls of (granted, s'') \<Rightarrow>
          (if ok then cost + granted else granted, s'')))"

fun calls_from :: "(pyfloat \<Rightarrow> bool) \<Rightarrow> pyfloat \<Rightarrow> (pyfloat \<times> pyfloat) list \<Rightarrow> bool" where
  "calls_from allowed t [] = True"
| "calls_from allowed t ((now, cost) # calls) =
     (t \<le> now \<and> allowed cost \<and> calls_from allowed now calls)"

fun last_time :: "pyfloat \<Rightarrow> (pyfloat \<times> pyfloat) list \<Rightarrow> pyfloat" where
  "last_time t [] = t"
| "last_time t ((now, cost) # calls) = last_time now calls"

locale refilling_bucket =
  fixes level :: "'s \<Rightarrow> pyfloat"
    and stamp :: "'s \<Rightarrow> pyfloat"
    and cap :: pyfloat
    and rate :: pyfloat
    and spend :: "pyfloat \<Rightarrow> pyfloat \<Rightarrow> 's \<Rightarrow> bool \<times> 's"
    and good :: "'s \<Rightarrow> bool"
    and allowed :: "pyfloat \<Rightarrow> bool"
  assumes cost_pos: "allowed c \<Longrightarrow> 0 < c"
    and rate_pos: "good s \<Longrightarrow> 0 < rate"
    and good_level: "good s \<Longrightarrow> 0 \<le> level s \<and> level s \<le> cap"
    and spend_good: "good s \<Longrightarrow> stamp s \<le> now \<Longrightarrow> allowed cost \<Longrightarrow> good (snd (spend cost now s))"
    and spend_stamp: "good s \<Longrightarrow> stamp s \<le> now \<Longrightarrow> allowed cost \<Longrightarrow> stamp (snd (spend cost now s)) = now"
    and spend_ok: "good s \<Longrightarrow> stamp s \<le> now \<Longrightarrow> allowed cost \<Longrightarrow>
      fst (spend cost now s) \<longleftrightarrow> cost \<le> min cap (level s + (now - stamp s) * rate)"
    and spend_level: "good s \<Longrightarrow> stamp s \<le> now \<Longrightarrow> allowed cost \<Longrightarrow>
      level (snd (spend cost now s)) = min cap (level s + (now - stamp s) * rate)
        - (if fst (spend cost now s) then cost else 0)"
begin

text \<open>Nothing is created: what a run grants is covered by the opening level and the refill.\<close>

lemma granted_covered:
  assumes "good s" and "calls_from allowed (stamp s) calls"
    and "bucket_run spend s calls = (granted, s')"
  shows "good s' \<and> granted + level s' \<le> level s + (last_time (stamp s) calls - stamp s) * rate"
  using assms
proof (induction calls arbitrary: s granted)
  case Nil
  then show ?case by simp
next
  case (Cons call calls)
  obtain now cost where call: "call = (now, cost)" by (metis prod.exhaust)
  obtain ok s1 where step: "spend cost now s = (ok, s1)" by (metis prod.exhaust)
  obtain g1 where rest: "bucket_run spend s1 calls = (g1, s')"
    and g: "granted = (if ok then cost + g1 else g1)"
    using Cons.prems(3) call step by (auto split: prod.splits)
  have t: "stamp s \<le> now" "allowed cost" and more: "calls_from allowed now calls"
    using Cons.prems(2) call by auto
  have s1: "good s1" "stamp s1 = now"
    "level s1 = min cap (level s + (now - stamp s) * rate) - (if ok then cost else 0)"
    using spend_good [OF Cons.prems(1) t] spend_stamp [OF Cons.prems(1) t]
      spend_level [OF Cons.prems(1) t] by (simp_all add: step)
  have IH: "good s' \<and> g1 + level s' \<le> level s1 + (last_time now calls - now) * rate"
    using Cons.IH [OF s1(1) _ rest] s1(2) more by simp
  have "level s1 \<le> level s + (now - stamp s) * rate - (if ok then cost else 0)"
    using s1(3) by simp
  moreover have "(last_time now calls - stamp s) * rate
      = (last_time now calls - now) * rate + (now - stamp s) * rate"
    by (simp add: algebra_simps)
  ultimately show ?case using IH g call by (auto simp: algebra_simps split: if_splits)
qed

lemma granted_bound:
  assumes "good s" and "calls_from allowed (stamp s) calls"
    and "bucket_run spend s calls = (granted, s')"
  shows "granted \<le> cap + (last_time (stamp s) calls - stamp s) * rate"
proof -
  have "good s'" "granted + level s' \<le> level s + (last_time (stamp s) calls - stamp s) * rate"
    using granted_covered [OF assms] by auto
  moreover have "0 \<le> level s'" "level s \<le> cap" using good_level assms(1) calculation(1) by auto
  ultimately show ?thesis by linarith
qed

text \<open>A refused call of at most the capacity is admitted once its shortfall has been refilled.\<close>

lemma retry_admitted:
  assumes "good s" and "stamp s \<le> now" and "allowed cost" and "cost \<le> cap"
    and "spend cost now s = (False, s')"
    and "now + (cost - level s') / rate \<le> t"
  shows "fst (spend cost t s')"
proof -
  have s': "good s'" "stamp s' = now" "level s' = min cap (level s + (now - stamp s) * rate)"
    using spend_good [OF assms(1-3)] spend_stamp [OF assms(1-3)] spend_level [OF assms(1-3)]
    by (simp_all add: assms(5))
  have "\<not> cost \<le> min cap (level s + (now - stamp s) * rate)"
    using spend_ok [OF assms(1-3)] assms(5) by (metis fst_conv)
  then have short: "level s' < cost" using s'(3) by linarith
  have "0 < (cost - level s') / rate" using short rate_pos [OF assms(1)] by simp
  with assms(6) have t: "now \<le> t" by linarith
  have "(cost - level s') / rate \<le> t - now" using assms(6) by simp
  then have "cost - level s' \<le> (t - now) * rate" using rate_pos [OF assms(1)] by (simp add: pos_divide_le_eq)
  then show ?thesis using spend_ok [OF s'(1) _ assms(3), of t] s'(2) t assms(4) by simp
qed

end

text \<open>The two in-process buckets keep the contract.\<close>

definition token_ok :: "token_limiter \<Rightarrow> bool" where
  "token_ok l \<longleftrightarrow> 0 < tokens_per_minute l \<and> 0 \<le> token_level l
     \<and> token_level l \<le> of_int (tokens_per_minute l)"

definition token_take :: "pyfloat \<Rightarrow> pyfloat \<Rightarrow> token_limiter \<Rightarrow> bool \<times> token_limiter" where
  "token_take cost now l = (case token_allow_memory cost now l of ((ok, retry), l') \<Rightarrow> (ok, l'))"

lemma token_take_eq:
  assumes "token_updated l \<le> now"
  shows "token_take cost now l =
    (let level = min (of_int (tokens_per_minute l))
           (token_level l + (now - token_updated l) * (of_int (tokens_per_minute l) / 60))
     in (cost \<le> level, l\<lparr>token_level := (if cost \<le> level then level - cost else level),
           token_updated := now\<rparr>))"
  using assms by (auto simp: token_take_def token_allow_memory_def Let_def min_def)

interpretation token: refilling_bucket token_level token_updated "of_int n" "of_int n / 60"
    token_take "\<lambda>l. token_ok l \<and> tokens_per_minute l = n" "\<lambda>c. 0 < c"
  for n
  by unfold_locales (auto simp: token_take_eq token_ok_def Let_def)


definition bucket_ok :: "int \<Rightarrow> int \<Rightarrow> bucket \<Rightarrow> bool" where
  "bucket_ok rpm bst b \<longleftrightarrow> 0 < rpm \<and> 0 \<le> bucket_tokens b \<and> bucket_tokens b \<le> of_int bst"

text \<open>Every call of the tenant bucket costs one request.\<close>

definition bucket_take :: "int \<Rightarrow> int \<Rightarrow> pyfloat \<Rightarrow> pyfloat \<Rightarrow> bucket \<Rightarrow> bool \<times> bucket" where
  "bucket_take rpm bst cost now b =
     (case bucket_spend rpm bst now b of ((ok, left), b') \<Rightarrow> (ok, b'))"

lemma bucket_take_eq:
  assumes "bucket_updated b \<le> now"
  shows "bucket_take rpm bst cost now b =
    (let level = min (of_int bst) (bucket_tokens b + (now - bucket_updated b) * (of_int rpm / 60))
     in (1 \<le> level, \<lparr>bucket_tokens = (if 1 \<le> level then level - 1 else level),
           bucket_updated = now\<rparr>))"
  using assms by (auto simp: bucket_take_def bucket_spend_def Let_def min_def)

interpretation tenant: refilling_bucket bucket_tokens bucket_updated "of_int bst"
    "of_int rpm / 60" "bucket_take rpm bst" "bucket_ok rpm bst" "\<lambda>c. c = 1"
  for rpm bst
  by unfold_locales (auto simp: bucket_take_eq bucket_ok_def Let_def)


subsection \<open>Runs over the table of tenants\<close>

fun rate_run :: "(string \<Rightarrow> rate_policy) \<Rightarrow> bucket_table \<Rightarrow> (string \<times> pyfloat) list
    \<Rightarrow> (string \<times> bool) list \<times> bucket_table" where
  "rate_run pol table [] = ([], table)"
| "rate_run pol table ((scope, now) # calls) =
     (case rate_allow_memory scope (requests_per_minute (pol scope)) (burst (pol scope)) now table
      of ((ok, left), table') \<Rightarrow>
        (case rate_run pol table' calls of (results, table'') \<Rightarrow> ((scope, ok) # results, table'')))"

definition granted_to :: "string \<Rightarrow> (string \<times> bool) list \<Rightarrow> nat" where
  "granted_to scope results = length (filter (\<lambda>(s, ok). s = scope \<and> ok) results)"

lemma rate_allow_other:
  "rate_allow_memory scope rpm bst now table = (r, table') \<Longrightarrow> s \<noteq> scope \<Longrightarrow> table' s = table s"
  by (auto simp: rate_allow_memory_def Let_def split: prod.splits option.splits)

definition scope_calls :: "string \<Rightarrow> (string \<times> pyfloat) list \<Rightarrow> (pyfloat \<times> pyfloat) list" where
  "scope_calls scope calls = map (\<lambda>(s, t). (t, 1)) (filter (\<lambda>(s, t). s = scope) calls)"

text \<open>What a scope sees of an interleaved run is the run of its own bucket.\<close>

lemma rate_run_projects:
  assumes "table scope = Some b" and "rate_run pol table calls = (results, table')"
  shows "\<exists>b'. table' scope = Some b' \<and>
    bucket_run (bucket_take (requests_per_minute (pol scope)) (burst (pol scope))) b
      (scope_calls scope calls) = (of_nat (granted_to scope results), b')"
  using assms
proof (induction calls arbitrary: table b results)
  case Nil
  then show ?case by (simp add: scope_calls_def granted_to_def)
next
  case (Cons call calls)
  let ?rpm = "\<lambda>s. requests_per_minute (pol s)" and ?bst = "\<lambda>s. burst (pol s)"
  obtain s now where call: "call = (s, now)" by (metis prod.exhaust)
  obtain ok left t1 where step:
    "rate_allow_memory s (?rpm s) (?bst s) now table = ((ok, left), t1)"
    by (metis prod.exhaust)
  obtain res1 where rest: "rate_run pol t1 calls = (res1, table')" and res: "results = (s, ok) # res1"
    using Cons.prems(2) call step by (auto split: prod.splits)
  show ?case
  proof (cases "s = scope")
    case False
    then have "t1 scope = Some b" using rate_allow_other [OF step, of scope] Cons.prems(1) by simp
    from Cons.IH [OF this rest] show ?thesis
      using False res call by (simp add: scope_calls_def granted_to_def)
  next
    case True
    obtain ok1 left1 b1 where spend:
      "bucket_spend (?rpm scope) (?bst scope) now b = ((ok1, left1), b1)" by (metis prod.exhaust)
    with step True Cons.prems(1) have "ok1 = ok" and t1: "t1 scope = Some b1"
      by (auto simp: rate_allow_memory_def Let_def)
    then have take: "bucket_take (?rpm scope) (?bst scope) 1 now b = (ok, b1)"
      using spend by (simp add: bucket_take_def)
    from Cons.IH [OF t1 rest] take show ?thesis
      using True res call by (auto simp: scope_calls_def granted_to_def)
  qed
qed

lemma rate_allow_first:
  assumes "rate_allow_memory scope rpm bst now table = ((ok, left), t1)" and "table scope = None"
    and "0 < rpm" and "1 \<le> bst"
  shows "t1 scope = Some \<lparr>bucket_tokens = of_int bst - 1, bucket_updated = now\<rparr>" and "ok"
  using assms by (auto simp: rate_allow_memory_def bucket_spend_def Let_def)

lemma scope_calls_from:
  assumes "sorted (map snd calls)" and "\<forall>(s, t) \<in> set calls. t0 \<le> t \<and> t \<le> t1" and "t0 \<le> t1"
  shows "calls_from (\<lambda>c. c = 1) t0 (scope_calls scope calls)"
    and "last_time t0 (scope_calls scope calls) \<le> t1"
proof -
  have "calls_from (\<lambda>c. c = 1) t0 (scope_calls scope calls)
      \<and> last_time t0 (scope_calls scope calls) \<le> t1"
    using assms
  proof (induction calls arbitrary: t0)
    case Nil
    then show ?case by (simp add: scope_calls_def)
  next
    case (Cons call calls)
    obtain s now where call: "call = (s, now)" by (metis prod.exhaust)
    have bounds: "t0 \<le> now" "now \<le> t1" using Cons.prems(2) call by auto
    have srt: "sorted (map snd calls)" and ge: "\<forall>(s, t) \<in> set calls. now \<le> t \<and> t \<le> t1"
      using Cons.prems(1,2) call by auto
    have ge0: "\<forall>(s, t) \<in> set calls. t0 \<le> t \<and> t \<le> t1" using ge bounds(1) by auto
    show ?case
    proof (cases "s = scope")
      case True
      with Cons.IH [OF srt ge bounds(2)] bounds call show ?thesis by (simp add: scope_calls_def)
    next
      case False
      with Cons.IH [OF srt ge0 Cons.prems(3)] call show ?thesis by (simp add: scope_calls_def)
    qed
  qed
  then show "calls_from (\<lambda>c. c = 1) t0 (scope_calls scope calls)"
    and "last_time t0 (scope_calls scope calls) \<le> t1" by auto
qed

lemma rate_run_bucket_bound:
  assumes "table scope = Some b" and "bucket_ok (requests_per_minute (pol scope)) (burst (pol scope)) b"
    and "rate_run pol table calls = (results, table')"
    and "sorted (map snd calls)" and "\<forall>(s, t) \<in> set calls. bucket_updated b \<le> t \<and> t \<le> t1"
    and "bucket_updated b \<le> t1"
  shows "of_nat (granted_to scope results)
    \<le> bucket_tokens b + (t1 - bucket_updated b) * (of_int (requests_per_minute (pol scope)) / 60)"
proof -
  let ?rpm = "requests_per_minute (pol scope)" and ?bst = "burst (pol scope)"
  obtain b' where run: "bucket_run (bucket_take ?rpm ?bst) b (scope_calls scope calls)
      = (of_nat (granted_to scope results), b')"
    using rate_run_projects [OF assms(1,3)] by blast
  note cf = scope_calls_from [OF assms(4-6), of scope]
  have "bucket_ok ?rpm ?bst b' \<and> of_nat (granted_to scope results) + bucket_tokens b'
      \<le> bucket_tokens b + (last_time (bucket_updated b) (scope_calls scope calls)
          - bucket_updated b) * (of_int ?rpm / 60)"
    by (rule tenant.granted_covered [OF assms(2) cf(1) run])
  moreover have "(last_time (bucket_updated b) (scope_calls scope calls) - bucket_updated b)
      * (of_int ?rpm / 60) \<le> (t1 - bucket_updated b) * (of_int ?rpm / 60)"
    using cf(2) assms(2) by (intro mult_right_mono) (auto simp: bucket_ok_def)
  ultimately show ?thesis unfolding bucket_ok_def by linarith
qed

lemma rate_run_fresh_bound:
  assumes "table scope = None" and "0 < requests_per_minute (pol scope)" and "1 \<le> burst (pol scope)"
    and "rate_run pol table calls = (results, table')" and "sorted (map snd calls)"
    and "\<forall>(s, t) \<in> set calls. t0 \<le> t \<and> t \<le> t1" and "t0 \<le> t1"
  shows "of_nat (granted_to scope results) \<le> of_int (burst (pol scope))
    + (t1 - t0) * (of_int (requests_per_minute (pol scope)) / 60 :: pyfloat)"
  using assms
proof (induction calls arbitrary: table results)
  case Nil
  then have "0 \<le> (t1 - t0) * (of_int (requests_per_minute (pol scope)) / 60)" by simp
  with Nil show ?case by (simp add: granted_to_def)
next
  case (Cons call calls)
  let ?rpm = "requests_per_minute (pol scope)" and ?bst = "burst (pol scope)"
  obtain s now where call: "call = (s, now)" by (metis prod.exhaust)
  obtain ok left tb where step: "rate_allow_memory s (requests_per_minute (pol s))
      (burst (pol s)) now table = ((ok, left), tb)" by (metis prod.exhaust)
  obtain res where rest: "rate_run pol tb calls = (res, table')" and r: "results = (s, ok) # res"
    using Cons.prems(4) call step by (auto split: prod.splits)
  have srt: "sorted (map snd calls)" and now: "t0 \<le> now" "now \<le> t1"
    and rng: "\<forall>(s, t) \<in> set calls. t0 \<le> t \<and> t \<le> t1"
    and ge: "\<forall>(s, t) \<in> set calls. now \<le> t \<and> t \<le> t1"
    using Cons.prems(5,6) call by auto
  show ?case
  proof (cases "s = scope")
    case False
    then have "tb scope = None" using rate_allow_other [OF step, of scope] Cons.prems(1) by simp
    from Cons.IH [OF this Cons.prems(2,3) rest srt rng Cons.prems(7)] show ?thesis
      using False r by (simp add: granted_to_def)
  next
    case True
    let ?b = "\<lparr>bucket_tokens = of_int ?bst - 1, bucket_updated = now\<rparr>"
    note first = rate_allow_first [OF step [unfolded True] Cons.prems(1-3)]
    have ok: "bucket_ok ?rpm ?bst ?b" using Cons.prems(2,3) by (simp add: bucket_ok_def)
    have "of_nat (granted_to scope res)
        \<le> of_int ?bst - 1 + (t1 - now) * (of_int ?rpm / 60)"
      using rate_run_bucket_bound [OF first(1) ok rest srt, of t1] ge now by simp
    moreover have "(t1 - now) * (of_int ?rpm / 60) \<le> (t1 - t0) * (of_int ?rpm / 60)"
      using now Cons.prems(2) by (intro mult_right_mono) auto
    moreover have "granted_to scope results = Suc (granted_to scope res)"
      using True r first(2) by (simp add: granted_to_def)
    then have "(of_nat (granted_to scope results) :: pyfloat) = 1 + of_nat (granted_to scope res)"
      by simp
    ultimately show ?thesis by linarith
  qed
qed

subsection \<open>The promises of the limiters\<close>

theorem window_never_exceeds_budget:
  assumes "window_limiter_init n w has_redis scope = Inr l" and "sorted ts"
    and "window_run l ts = (admitted, l')"
  shows "int (length (filter (in_window t w) admitted)) \<le> n"
proof -
  have l: "window_requests l = []" "requests_per_window l = n" "window_seconds l = w" "0 < n"
    using assms(1) by (auto simp: window_limiter_init_def split: if_splits)
  show ?thesis
    using window_run_budget [of l ts "[]", OF window_init_ok [OF assms(1)] assms(2) _ _ _ _ assms(3)]
      l by simp
qed

theorem window_never_exceeds_budget_witness:
  "window_limiter_init 2 60 False None
      = Inr \<lparr>requests_per_window = 2, window_seconds = 60, window_requests = []\<rparr>
   \<and> int (length (filter (in_window 30 60) [0, 10])) \<le> 2"
proof -
  let ?l = "\<lparr>requests_per_window = 2, window_seconds = 60, window_requests = []\<rparr>"
  have init: "window_limiter_init 2 60 False None = Inr ?l" by (simp add: window_limiter_init_def)
  have run: "window_run ?l [0, 10, 20] = ([0, 10], \<lparr>requests_per_window = 2, window_seconds = 60,
      window_requests = [0, 10]\<rparr>)"
    by code_simp
  have srt: "sorted [0, 10, 20 :: pyfloat]" by simp
  show ?thesis by (rule conjI [OF init window_never_exceeds_budget [OF init srt run]])
qed

theorem window_retry_is_exact:
  assumes "window_ok l" and "\<forall>t \<in> set (window_requests l). t \<le> now"
    and "window_allow_memory now l = ((False, retry), l')"
    and "now \<le> t" and "window_allow_memory t l' = ((ok', retry'), l'')"
  shows "ok' \<longleftrightarrow> now + retry \<le> t"
  using window_retry_exact [OF assms] .

theorem window_retry_is_exact_witness:
  "window_allow_memory 20 \<lparr>requests_per_window = 1, window_seconds = 60, window_requests = [0]\<rparr>
     = ((False, 40), \<lparr>requests_per_window = 1, window_seconds = 60, window_requests = [0]\<rparr>)
   \<and> (True \<longleftrightarrow> 20 + 40 \<le> (60::pyfloat))"
proof -
  let ?l = "\<lparr>requests_per_window = 1, window_seconds = 60, window_requests = [0]\<rparr>"
  have a: "window_allow_memory 20 ?l = ((False, 40), ?l)" by (simp add: window_allow_memory_def)
  have b: "window_allow_memory 60 ?l = ((True, 0), ?l\<lparr>window_requests := [60]\<rparr>)"
    by (simp add: window_allow_memory_def)
  have ok: "window_ok ?l" by (simp add: window_ok_def)
  have old: "\<forall>t \<in> set (window_requests ?l). t \<le> 20" by simp
  have now: "(20::pyfloat) \<le> 60" by simp
  show ?thesis using a window_retry_is_exact [OF ok old a now b] by blast
qed

theorem token_budget_conserved:
  assumes "token_limiter_init n has_redis scope t0 = Inr l" and "calls_from (\<lambda>c. 0 < c) t0 calls"
    and "bucket_run token_take l calls = (granted, l')"
  shows "granted \<le> of_int n + (last_time t0 calls - t0) * (of_int n / 60)"
proof -
  have l: "token_ok l \<and> tokens_per_minute l = n" "token_updated l = t0"
    using assms(1) by (auto simp: token_limiter_init_def token_ok_def split: if_splits)
  show ?thesis using token.granted_bound [OF l(1), of calls granted l'] assms(2,3) l(2) by simp
qed

theorem token_budget_conserved_witness:
  "token_limiter_init 60 False None 0
      = Inr \<lparr>tokens_per_minute = 60, token_level = 60, token_updated = 0\<rparr>
   \<and> (50::pyfloat) + 20 \<le> 60 + (10 - 0) * (60 / 60)"
proof -
  let ?l = "\<lparr>tokens_per_minute = 60, token_level = 60, token_updated = 0\<rparr>"
  have init: "token_limiter_init 60 False None 0 = Inr ?l" by (simp add: token_limiter_init_def)
  have calls: "calls_from (\<lambda>c. 0 < c) 0 [(0, 50), (5, 30), (10, 20)]" by simp
  have run: "bucket_run token_take ?l [(0, 50), (5, 30), (10, 20)]
      = (70, ?l\<lparr>token_level := 0, token_updated := 10\<rparr>)"
    by (simp add: token_take_def token_allow_memory_def Let_def)
  have "(70::pyfloat) \<le> of_int 60 + (last_time 0 [(0, 50), (5, 30), (10, 20)] - 0) * (of_int 60 / 60)"
    by (rule token_budget_conserved [OF init calls run])
  with init show ?thesis by simp
qed



end
