(* ===== verification/Py_Text.thy ===== *)
theory Py_Text
  imports Prelude
begin

text \<open>
  Python's \<open>str\<close>. A text is a list of \<open>char\<close>, read as its code points 0 to 255: the model
  is exact on texts of that range (ASCII and Latin-1), except that U+00B5, whose casefold is
  a Greek letter outside the range, is left as it is. Texts with larger code points are not
  modelled.
\<close>

abbreviation code_of :: "char \<Rightarrow> nat" where
  "code_of c \<equiv> of_char c"

text \<open>\<open>str.isspace\<close> and the class \<open>\s\<close> of \<open>re\<close>.\<close>

definition is_space :: "char \<Rightarrow> bool" where
  "is_space c \<longleftrightarrow> (let n = code_of c in
     (9 \<le> n \<and> n \<le> 13) \<or> (28 \<le> n \<and> n \<le> 32) \<or> n = 133 \<or> n = 160)"

text \<open>\<open>str.isalnum\<close>, the class \<open>[^\W_]\<close>; \<open>\w\<close> adds the underscore.\<close>

definition is_alnum :: "char \<Rightarrow> bool" where
  "is_alnum c \<longleftrightarrow> (let n = code_of c in
     (48 \<le> n \<and> n \<le> 57) \<or> (65 \<le> n \<and> n \<le> 90) \<or> (97 \<le> n \<and> n \<le> 122)
     \<or> n \<in> {170, 178, 179, 181, 185, 186, 188, 189, 190}
     \<or> (192 \<le> n \<and> n \<noteq> 215 \<and> n \<noteq> 247))"

definition is_word :: "char \<Rightarrow> bool" where
  "is_word c \<longleftrightarrow> is_alnum c \<or> code_of c = 95"

definition is_ascii :: "string \<Rightarrow> bool" where
  "is_ascii s = list_all (\<lambda>c. code_of c < 128) s"

text \<open>\<open>str.isdigit\<close>: decimal digits and the superscripts one, two, three; false on the empty text.\<close>

definition is_digit_str :: "string \<Rightarrow> bool" where
  "is_digit_str s \<longleftrightarrow> s \<noteq> [] \<and> list_all (\<lambda>c. is_digit c \<or> code_of c \<in> {178, 179, 185}) s"

text \<open>\<open>str.casefold\<close>\<close>

definition fold_char :: "char \<Rightarrow> string" where
  "fold_char c = (let n = code_of c in
     if 65 \<le> n \<and> n \<le> 90 then [char_of (n + 32)]
     else if 192 \<le> n \<and> n \<le> 222 \<and> n \<noteq> 215 then [char_of (n + 32)]
     else if n = 223 then ''ss'' else [c])"

definition casefold :: "string \<Rightarrow> string" where
  "casefold s = concat (map fold_char s)"

text \<open>\<open>str.split()\<close>, \<open>sep.join(parts)\<close> and \<open>str.strip()\<close>\<close>

fun split_go :: "string \<Rightarrow> string \<Rightarrow> string list" where
  "split_go word [] = (if word = [] then [] else [rev word])"
| "split_go word (c # cs) =
     (if is_space c then (if word = [] then split_go [] cs else rev word # split_go [] cs)
      else split_go (c # word) cs)"

definition split_ws :: "string \<Rightarrow> string list" where
  "split_ws s = split_go [] s"

fun join :: "string \<Rightarrow> string list \<Rightarrow> string" where
  "join sep [] = []"
| "join sep [x] = x"
| "join sep (x # y # ys) = x @ sep @ join sep (y # ys)"

definition strip :: "string \<Rightarrow> string" where
  "strip s = rev (dropWhile is_space (rev (dropWhile is_space s)))"

definition strip_char :: "char \<Rightarrow> string \<Rightarrow> string" where
  "strip_char d s = rev (dropWhile ((=) d) (rev (dropWhile ((=) d) s)))"

definition starts_with :: "string \<Rightarrow> string \<Rightarrow> bool" where
  "starts_with s p \<longleftrightarrow> take (length p) s = p"

definition ends_with :: "string \<Rightarrow> string \<Rightarrow> bool" where
  "ends_with s p \<longleftrightarrow> length p \<le> length s \<and> drop (length s - length p) s = p"

text \<open>\<open>needle in text\<close>\<close>

fun contains_str :: "string \<Rightarrow> string \<Rightarrow> bool" where
  "contains_str [] needle = (needle = [])"
| "contains_str (c # cs) needle = (starts_with (c # cs) needle \<or> contains_str cs needle)"

text \<open>\<open>" ".join(s.casefold().split())\<close>, the normal form of every name comparison.\<close>

definition squash :: "string \<Rightarrow> string" where
  "squash s = join '' '' (split_ws s)"

definition norm_text :: "string \<Rightarrow> string" where
  "norm_text s = squash (casefold s)"

subsection \<open>Facts\<close>

named_theorems text_facts \<open>facts of the text operations\<close>

definition word_ok :: "string \<Rightarrow> bool" where
  "word_ok w \<longleftrightarrow> w \<noteq> [] \<and> (\<forall>c \<in> set w. \<not> is_space c)"

lemma split_go_words:
  "\<forall>c \<in> set word. \<not> is_space c \<Longrightarrow> w \<in> set (split_go word s) \<Longrightarrow> word_ok w"
proof (induction word s rule: split_go.induct)
  case (1 word)
  then show ?case by (simp add: word_ok_def split: if_splits)
next
  case (2 word c cs)
  show ?case
  proof (cases "is_space c \<and> word \<noteq> [] \<and> w = rev word")
    case True
    with 2(4) show ?thesis by (simp add: word_ok_def)
  next
    case False
    with 2 show ?thesis by (auto split: if_splits)
  qed
qed

lemma split_ws_words [text_facts]: "w \<in> set (split_ws s) \<Longrightarrow> word_ok w"
  using split_go_words [of "[]" w s] by (simp add: split_ws_def)

lemma split_go_append_word:
  "\<forall>c \<in> set w. \<not> is_space c \<Longrightarrow> split_go acc (w @ s) = split_go (rev w @ acc) s"
  by (induction w arbitrary: acc) auto

lemma split_go_join:
  "list_all word_ok ws \<Longrightarrow> split_go [] (join '' '' ws) = ws"
proof (induction ws rule: induct_list012)
  case (2 w)
  then show ?case
    using split_go_append_word [of w "[]" "[]"] by (simp add: word_ok_def)
next
  case (3 v w ws)
  have "is_space (CHR '' '')" by (simp add: is_space_def)
  with 3 show ?case
    using split_go_append_word [of v "[]" "'' '' @ join '' '' (w # ws)"]
    by (simp add: word_ok_def)
qed simp

lemma split_join [text_facts]: "list_all word_ok ws \<Longrightarrow> split_ws (join '' '' ws) = ws"
  by (simp add: split_ws_def split_go_join)

lemma squash_idem [simp, text_facts]: "squash (squash s) = squash s"
  by (simp add: squash_def split_join list_all_iff split_ws_words)

lemma fold_char_stable: "casefold (fold_char c) = fold_char c"
proof -
  consider (upper) "65 \<le> code_of c \<and> code_of c \<le> 90"
    | (latin) "192 \<le> code_of c \<and> code_of c \<le> 222 \<and> code_of c \<noteq> 215"
    | (sharp) "code_of c = 223"
    | (other) "\<not> (65 \<le> code_of c \<and> code_of c \<le> 90)"
        "\<not> (192 \<le> code_of c \<and> code_of c \<le> 222 \<and> code_of c \<noteq> 215)" "code_of c \<noteq> 223"
    by blast
  then show ?thesis
  proof cases
    case upper
    then show ?thesis by (simp add: casefold_def fold_char_def Let_def)
  next
    case latin
    then show ?thesis by (simp add: casefold_def fold_char_def Let_def)
  next
    case sharp
    then show ?thesis by (simp add: casefold_def fold_char_def Let_def)
  next
    case other
    then have "fold_char c = [c]" by (simp only: fold_char_def Let_def if_False)
    then show ?thesis by (simp add: casefold_def)
  qed
qed

lemma casefold_append [simp]: "casefold (s @ t) = casefold s @ casefold t"
  by (simp add: casefold_def)

lemma casefold_Nil [simp]: "casefold [] = []"
  by (simp add: casefold_def)

lemma casefold_Cons: "casefold (c # s) = fold_char c @ casefold s"
  by (simp add: casefold_def)

lemma casefold_idem [simp, text_facts]: "casefold (casefold s) = casefold s"
  by (induction s) (auto simp: casefold_Cons fold_char_stable)

text \<open>Folding never makes or removes white space, so it commutes with splitting.\<close>

lemma fold_char_space: "is_space c \<Longrightarrow> fold_char c = [c]"
  by (auto simp: is_space_def fold_char_def Let_def)

lemma fold_char_nonspace: "\<not> is_space c \<Longrightarrow> d \<in> set (fold_char c) \<Longrightarrow> \<not> is_space d"
  by (auto simp: is_space_def fold_char_def Let_def split: if_splits)

lemma fold_char_nonempty [simp]: "fold_char c \<noteq> []"
  by (simp add: fold_char_def Let_def)

lemma casefold_eq_Nil [simp]: "casefold s = [] \<longleftrightarrow> s = []"
  by (cases s) (auto simp: casefold_Cons)

lemma split_go_casefold:
  "split_go (rev (casefold (rev word))) (casefold s) = map casefold (split_go word s)"
proof (induction word s rule: split_go.induct)
  case (1 word)
  then show ?case by simp
next
  case (2 word c cs)
  show ?case
  proof (cases "is_space c")
    case True
    with 2 show ?thesis by (simp add: casefold_Cons fold_char_space)
  next
    case False
    have "split_go (rev (casefold (rev word))) (casefold (c # cs))
        = split_go (rev (fold_char c) @ rev (casefold (rev word))) (casefold cs)"
      using False fold_char_nonspace [of c]
      by (simp add: casefold_Cons split_go_append_word)
    also have "rev (fold_char c) @ rev (casefold (rev word)) = rev (casefold (rev (c # word)))"
      by (simp add: casefold_Cons)
    finally show ?thesis using False 2(3) by simp
  qed
qed

lemma split_casefold [text_facts]: "split_ws (casefold s) = map casefold (split_ws s)"
  using split_go_casefold [of "[]" s] by (simp add: split_ws_def)

lemma casefold_join: "casefold (join sep ws) = join (casefold sep) (map casefold ws)"
  by (induction sep ws rule: join.induct) auto

lemma casefold_blank [simp]: "casefold '' '' = '' ''"
  by (simp add: casefold_def fold_char_def)

lemma casefold_squash: "casefold (squash s) = squash (casefold s)"
  by (simp add: squash_def casefold_join split_casefold)

lemma norm_text_idem [simp, text_facts]: "norm_text (norm_text s) = norm_text s"
  by (simp add: norm_text_def casefold_squash)

lemma norm_text_casefold [simp, text_facts]: "norm_text (casefold s) = norm_text s"
  by (simp add: norm_text_def)

lemma split_norm_text [text_facts]: "split_ws (norm_text s) = map casefold (split_ws s)"
proof -
  have "list_all word_ok (split_ws (casefold s))"
    by (simp add: list_all_iff split_ws_words)
  then show ?thesis by (simp add: norm_text_def squash_def split_join split_casefold)
qed

end
