(* ===== verification/Py_Value.thy ===== *)
theory Py_Value
  imports Py_Text
begin

text \<open>
  Python values as JSON payloads, metadata dictionaries and filters hold them: \<open>pyval\<close>, with
  truth, equality, \<open>str()\<close>, \<open>float()\<close> and \<open>int()\<close> on them. Not modelled: infinities and NaN
  (\<open>float("inf")\<close> is a conversion failure here), and the text of a float with more than 17
  decimals, which is cut there; \<open>str()\<close> of a list or a dictionary, which no modelled code looks at,
  is a fixed text.
\<close>

datatype pyval =
    VNone
  | VBool bool
  | VInt int
  | VFloat pyfloat
  | VStr string
  | VList "pyval list"
  | VDict "(string \<times> pyval) list"

type_synonym pydict = "(string, pyval) dict"

named_theorems value_facts \<open>facts of Python values\<close>

text \<open>\<open>bool(v)\<close>\<close>

fun truthy :: "pyval \<Rightarrow> bool" where
  "truthy VNone = False"
| "truthy (VBool b) = b"
| "truthy (VInt i) = (i \<noteq> 0)"
| "truthy (VFloat q) = (q \<noteq> 0)"
| "truthy (VStr s) = (s \<noteq> [])"
| "truthy (VList xs) = (xs \<noteq> [])"
| "truthy (VDict d) = (d \<noteq> [])"

text \<open>\<open>d.get(k)\<close>, \<open>d.get(k, default)\<close> and \<open>a or b\<close>\<close>

definition dget :: "pydict \<Rightarrow> string \<Rightarrow> pyval" where
  "dget d k = (case map_of d k of None \<Rightarrow> VNone | Some v \<Rightarrow> v)"

definition dget_or :: "pydict \<Rightarrow> string \<Rightarrow> pyval \<Rightarrow> pyval" where
  "dget_or d k v0 = (case map_of d k of None \<Rightarrow> v0 | Some v \<Rightarrow> v)"

definition or_else :: "pyval \<Rightarrow> pyval \<Rightarrow> pyval" where
  "or_else a b = (if truthy a then a else b)"

text \<open>Equality: booleans and numbers compare by value, dictionaries without regard to order.\<close>

fun num_of :: "pyval \<Rightarrow> pyfloat option" where
  "num_of (VBool b) = Some (if b then 1 else 0)"
| "num_of (VInt i) = Some (of_int i)"
| "num_of (VFloat q) = Some q"
| "num_of _ = None"

function py_eq :: "pyval \<Rightarrow> pyval \<Rightarrow> bool"
  and py_eq_list :: "pyval list \<Rightarrow> pyval list \<Rightarrow> bool"
  and py_eq_items :: "(string \<times> pyval) list \<Rightarrow> (string \<times> pyval) list \<Rightarrow> bool" where
  "py_eq a b = (case (num_of a, num_of b) of
       (Some x, Some y) \<Rightarrow> x = y
     | (None, None) \<Rightarrow>
         (case (a, b) of
            (VNone, VNone) \<Rightarrow> True
          | (VStr s, VStr t) \<Rightarrow> s = t
          | (VList xs, VList ys) \<Rightarrow> py_eq_list xs ys
          | (VDict d, VDict e) \<Rightarrow> length d = length e \<and> py_eq_items d e
          | _ \<Rightarrow> False)
     | _ \<Rightarrow> False)"
| "py_eq_list [] ys = (ys = [])"
| "py_eq_list (x # xs) ys = (case ys of [] \<Rightarrow> False | y # ys' \<Rightarrow> py_eq x y \<and> py_eq_list xs ys')"
| "py_eq_items [] e = True"
| "py_eq_items ((k, v) # d) e =
     (case map_of e k of None \<Rightarrow> False | Some w \<Rightarrow> py_eq v w \<and> py_eq_items d e)"
  by pat_completeness auto
termination
  by (relation "measure (case_sum (\<lambda>(a, b). size a) (case_sum (\<lambda>(xs, ys). size_list size xs)
      (\<lambda>(d, e). size_list (size_prod (\<lambda>_. 0) size) d)))") (auto split: option.splits)

declare py_eq.simps [simp del]

definition py_in :: "pyval \<Rightarrow> pyval list \<Rightarrow> bool" where
  "py_in v xs = list_ex (py_eq v) xs"

text \<open>\<open>str(v)\<close> of the values that are not containers\<close>

fun frac_digits :: "nat \<Rightarrow> pyfloat \<Rightarrow> string" where
  "frac_digits 0 r = []"
| "frac_digits (Suc n) r =
     (if r = 0 then [] else digit_char (nat \<lfloor>r * 10\<rfloor>) # frac_digits n (r * 10 - of_int \<lfloor>r * 10\<rfloor>))"

definition float_text :: "pyfloat \<Rightarrow> string" where
  "float_text q = (let a = \<bar>q\<bar>; i = \<lfloor>a\<rfloor>; f = frac_digits 17 (a - of_int i) in
     (if q < 0 then ''-'' else '''') @ show_int i @ ''.'' @ (if f = [] then ''0'' else f))"

fun py_str :: "pyval \<Rightarrow> string" where
  "py_str VNone = ''None''"
| "py_str (VBool b) = (if b then ''True'' else ''False'')"
| "py_str (VInt i) = show_int i"
| "py_str (VFloat q) = float_text q"
| "py_str (VStr s) = s"
| "py_str (VList xs) = ''[...]''"
| "py_str (VDict d) = ''{...}''"

text \<open>Decimal text: \<open>float(s)\<close> and \<open>int(s)\<close> after \<open>strip()\<close>.\<close>

definition split_sign :: "string \<Rightarrow> int \<times> string" where
  "split_sign s = (case s of
     c # cs \<Rightarrow> (if c = CHR ''-'' then (-1, cs) else if c = CHR ''+'' then (1, cs) else (1, s))
   | [] \<Rightarrow> (1, []))"

definition all_digits :: "string \<Rightarrow> bool" where
  "all_digits s \<longleftrightarrow> s \<noteq> [] \<and> list_all is_digit s"

definition parse_int :: "string \<Rightarrow> int option" where
  "parse_int s = (case split_sign (strip s) of (sg, ds) \<Rightarrow>
     if all_digits ds then Some (sg * int (read_nat ds)) else None)"

definition parse_unsigned :: "string \<Rightarrow> pyfloat option" where
  "parse_unsigned s = (let ip = takeWhile is_digit s; rest = dropWhile is_digit s in
     case rest of
       [] \<Rightarrow> if ip = [] then None else Some (of_nat (read_nat ip))
     | c # fp \<Rightarrow>
         if c = CHR ''.'' \<and> list_all is_digit fp \<and> (ip \<noteq> [] \<or> fp \<noteq> [])
         then Some (of_nat (read_nat ip) + of_nat (read_nat fp) / 10 ^ length fp)
         else None)"

definition split_exponent :: "string \<Rightarrow> string \<times> string option" where
  "split_exponent s = (let m = takeWhile (\<lambda>c. c \<noteq> CHR ''e'' \<and> c \<noteq> CHR ''E'') s in
     case drop (length m) s of [] \<Rightarrow> (m, None) | _ # e \<Rightarrow> (m, Some e))"

definition scale10 :: "pyfloat \<Rightarrow> int \<Rightarrow> pyfloat" where
  "scale10 q e = (if 0 \<le> e then q * 10 ^ nat e else q / 10 ^ nat (- e))"

definition parse_float :: "string \<Rightarrow> pyfloat option" where
  "parse_float s = (case split_sign (strip s) of (sg, body) \<Rightarrow>
     (case split_exponent body of
        (m, None) \<Rightarrow> map_option (\<lambda>q. of_int sg * q) (parse_unsigned m)
      | (m, Some e) \<Rightarrow>
          (case (parse_unsigned m, split_sign e) of
             (Some q, (esg, ds)) \<Rightarrow>
               if all_digits ds then Some (of_int sg * scale10 q (esg * int (read_nat ds))) else None
           | _ \<Rightarrow> None)))"

text \<open>\<open>float(v)\<close> and \<open>int(v)\<close>; \<open>None\<close> is a TypeError or a ValueError.\<close>

fun to_float :: "pyval \<Rightarrow> pyfloat option" where
  "to_float (VBool b) = Some (if b then 1 else 0)"
| "to_float (VInt i) = Some (of_int i)"
| "to_float (VFloat q) = Some q"
| "to_float (VStr s) = parse_float s"
| "to_float _ = None"

fun to_int :: "pyval \<Rightarrow> int option" where
  "to_int (VBool b) = Some (if b then 1 else 0)"
| "to_int (VInt i) = Some i"
| "to_int (VFloat q) = Some (if 0 \<le> q then \<lfloor>q\<rfloor> else \<lceil>q\<rceil>)"
| "to_int (VStr s) = parse_int s"
| "to_int _ = None"

text \<open>\<open>f"{x:.1f}"\<close>, rounding half to even\<close>

definition round_half_even :: "pyfloat \<Rightarrow> int" where
  "round_half_even q = (let f = \<lfloor>q\<rfloor>; r = q - of_int f in
     if r < 1 / 2 then f else if 1 / 2 < r then f + 1 else if even f then f else f + 1)"

definition fmt1 :: "pyfloat \<Rightarrow> string" where
  "fmt1 q = (let n = round_half_even (\<bar>q\<bar> * 10) in
     (if q < 0 then ''-'' else '''') @ show_int (n div 10) @ ''.'' @ show_int (n mod 10))"

subsection \<open>Facts\<close>

lemma dget_update [value_facts, simp]:
  "dget (AList.update k v d) k' = (if k' = k then v else dget d k')"
  by (simp add: dget_def update_conv')

lemma py_eq_str [simp]: "py_eq (VStr s) (VStr t) \<longleftrightarrow> s = t"
  by (simp add: py_eq.simps)

lemma py_eq_int [simp]: "py_eq (VInt i) (VInt j) \<longleftrightarrow> i = j"
  by (simp add: py_eq.simps)

lemma py_eq_float [simp]: "py_eq (VFloat i) (VFloat j) \<longleftrightarrow> i = j"
  by (simp add: py_eq.simps)

lemma py_eq_none [simp]: "py_eq VNone v \<longleftrightarrow> v = VNone"
  by (cases v) (simp_all add: py_eq.simps)

lemma show_nat_nonempty [simp]: "show_nat n \<noteq> []"
  by (subst show_nat.simps) simp

lemma digits_no_space: "is_digit c \<Longrightarrow> \<not> is_space c"
  by (auto simp: is_digit_def is_space_def Let_def)

lemma dropWhile_none: "\<forall>c \<in> set s. \<not> p c \<Longrightarrow> dropWhile p s = s"
  by (cases s) auto

lemma strip_none: "\<forall>c \<in> set s. \<not> is_space c \<Longrightarrow> strip s = s"
  by (simp add: strip_def dropWhile_none)

text \<open>\<open>int(str(i)) == i\<close>\<close>

lemma parse_show_int [simp]: "parse_int (show_int i) = Some i"
proof -
  have digits: "all_digits (show_nat n)" for n
    by (simp add: all_digits_def list_all_iff show_nat_digits)
  have ns: "\<forall>c \<in> set (show_int i). \<not> is_space c"
    using show_nat_digits digits_no_space by (auto simp: show_int_def is_space_def split: if_splits)
  have hd: "split_sign (show_nat n) = (1, show_nat n)" for n
  proof (cases "show_nat n")
    case (Cons c cs)
    then have "is_digit c" by (metis list.set_intros(1) show_nat_digits)
    then show ?thesis using Cons by (auto simp: split_sign_def is_digit_def)
  qed simp
  show ?thesis
  proof (cases "i < 0")
    case True
    then have "split_sign (show_int i) = (-1, show_nat (nat (- i)))"
      by (simp add: show_int_def split_sign_def)
    then show ?thesis using True ns digits by (simp add: parse_int_def strip_none)
  next
    case False
    then have "split_sign (show_int i) = (1, show_nat (nat i))"
      by (simp add: show_int_def hd)
    then show ?thesis using False ns digits by (simp add: parse_int_def strip_none)
  qed
qed

lemma py_str_eq_int: "py_str (VInt i) = py_str (VInt j) \<Longrightarrow> i = j"
  by (simp add: show_int_inj)

end
