(* ===== verification/Reranker.thy ===== *)
theory Reranker
  imports Request_Limit Py_Value
begin

text \<open>
  The hosted reranker chain of \<open>search/reranker.py\<close>: one provider with its cooldown and its
  request budgets (\<open>HostedReranker\<close>), the failover chain over providers
  (\<open>FallbackReranker\<close>, \<open>load_reranker\<close>), and what is done with the scores (\<open>rerank\<close>: order,
  verified-owner bands, title diversity). The HTTP exchange is an argument: \<open>http_outcome\<close>
  says what \<open>requests.post\<close> and \<open>response.json()\<close> gave.
\<close>

named_theorems rerank_facts \<open>facts of the reranker\<close>

subsection \<open>Candidates\<close>

text \<open>
  A retrieval candidate is a dictionary with fixed keys in the source. \<open>fusion_score\<close> is
  \<open>None\<close> when the key is missing or is not a number.
\<close>

record candidate =
  cand_id :: string
  cand_text :: string
  cand_metadata :: pydict
  cand_score :: pyfloat
  cand_source :: string
  fusion_score :: "pyfloat option"

record ranked_item =
  item_id :: string
  item_text :: string
  item_metadata :: pydict
  item_score :: pyfloat

definition ranked_of :: "candidate \<times> pyfloat \<Rightarrow> ranked_item" where
  "ranked_of cs = \<lparr>item_id = cand_id (fst cs), item_text = cand_text (fst cs),
     item_metadata = cand_metadata (fst cs), item_score = snd cs\<rparr>"

subsection \<open>prioritize_verified_within_relevance_bands\<close>

definition verified_owner :: "candidate \<Rightarrow> bool" where
  "verified_owner c \<longleftrightarrow>
     strip (py_str (dget_or (cand_metadata c) ''user_is_aadhaar_gst_verified'' (VStr ''''))) = ''1''"

text \<open>
  The band that starts at the head: the longest run of followers whose score is within the
  tolerance of the anchor. The source walks it with an index; here it is a \<open>takeWhile\<close>.
\<close>

definition band_of :: "pyfloat \<Rightarrow> pyfloat \<Rightarrow> (candidate \<times> pyfloat) list \<Rightarrow> (candidate \<times> pyfloat) list" where
  "band_of relative_band anchor xs = takeWhile (\<lambda>x. anchor - snd x \<le> \<bar>anchor\<bar> * relative_band) xs"

function prioritize_verified :: "pyfloat \<Rightarrow> (candidate \<times> pyfloat) list \<Rightarrow> (candidate \<times> pyfloat) list" where
  "prioritize_verified rb [] = []"
| "prioritize_verified rb (x # xs) =
     sort_desc (\<lambda>y. verified_owner (fst y)) (x # band_of rb (snd x) xs)
       @ prioritize_verified rb (drop (length (band_of rb (snd x) xs)) xs)"
  by pat_completeness auto
termination by (relation "measure (length \<circ> snd)") auto

definition relevance_band :: pyfloat where
  "relevance_band = 1 / 20"

subsection \<open>rerank\<close>

definition metadata_title :: "pydict \<Rightarrow> string option" where
  "metadata_title metadata =
     (let title = or_else (dget metadata ''content_title'') (dget metadata ''title'')
      in if truthy title
         then (let n = norm_text (py_str title) in if n = [] then None else Some n)
         else None)"

abbreviation title_of :: "candidate \<Rightarrow> string option" where
  "title_of c \<equiv> metadata_title (cand_metadata c)"

type_synonym positioned = "nat \<times> candidate \<times> pyfloat"

text \<open>One step of the diversity loop; the state is (primary, deferred, seen titles).\<close>

fun diversity_step :: "nat \<Rightarrow> positioned \<Rightarrow> positioned list \<times> positioned list \<times> string list
    \<Rightarrow> positioned list \<times> positioned list \<times> string list" where
  "diversity_step k (pos, c, s) (primary, deferred, seen) =
     (let title = title_of c;
          repeated = (case title of None \<Rightarrow> False | Some t \<Rightarrow> t \<in> set seen)
      in if length primary < k \<and> repeated then (primary, deferred @ [(pos, c, s)], seen)
         else (let seen' = (case title of None \<Rightarrow> seen | Some t \<Rightarrow> t # seen)
               in if length primary < k then (primary @ [(pos, c, s)], deferred, seen')
                  else (primary, deferred @ [(pos, c, s)], seen')))"

fun diversify :: "nat \<Rightarrow> positioned list \<Rightarrow> positioned list \<times> positioned list \<times> string list
    \<Rightarrow> positioned list \<times> positioned list \<times> string list" where
  "diversify k [] st = st"
| "diversify k (x # xs) st = diversify k xs (diversity_step k x st)"

definition rerank_order :: "nat \<Rightarrow> (candidate \<times> pyfloat) list \<Rightarrow> (candidate \<times> pyfloat) list" where
  "rerank_order k ranked =
     (case diversify k (enumerate 0 ranked) ([], [], []) of
        (primary, deferred, seen) \<Rightarrow> map snd (primary @ sort_key fst deferred))"

type_synonym pair = "string \<times> string"

definition rerank :: "string \<Rightarrow> candidate list \<Rightarrow> (pair list \<Rightarrow> py_error + pyfloat list) \<Rightarrow> nat
    \<Rightarrow> nat option \<Rightarrow> py_error + ranked_item list" where
  "rerank query candidates compute_score top_k diversity_top_k =
     (if candidates = [] then Inr []
      else (case compute_score (map (\<lambda>c. (query, cand_text c)) candidates) of
          Inl e \<Rightarrow> Inl e
        | Inr scores \<Rightarrow>
            (let ranked = sort_desc snd (zip candidates scores);
                 banded = prioritize_verified relevance_band ranked;
                 k = (case diversity_top_k of None \<Rightarrow> top_k | Some d \<Rightarrow> d)
             in Inr (map ranked_of (take top_k (rerank_order k banded))))))"

subsection \<open>HostedReranker\<close>

record hosted =
  h_name :: string
  h_model :: string
  max_document_chars :: nat
  request_limiters :: "window_limiter list"
  unavailable_until :: pyfloat
  last_usage :: "int option"

text \<open>
  What the exchange gave: a parsed body, a \<open>requests.RequestException\<close> (HTTP status and
  \<open>Retry-After\<close> header of its response if it has one, whether it is a timeout or a
  connection error, its class name), or another \<open>ValueError\<close>.
\<close>

datatype http_outcome =
    Body pyval
  | RequestExc "int option" "string option" bool string
  | BodyValueError

text \<open>Settings: \<open>RERANK_RATE_LIMIT_COOLDOWN_SECONDS\<close>, \<open>RERANK_FAILURE_COOLDOWN_SECONDS\<close>.\<close>

record cooldown_settings =
  rate_limit_cooldown :: pyfloat
  failure_cooldown :: pyfloat

definition cooldown_retry_after :: "pyfloat \<Rightarrow> hosted \<Rightarrow> pyfloat" where
  "cooldown_retry_after now h = max (unavailable_until h - now) 0"

definition set_cooldown :: "pyfloat \<Rightarrow> pyfloat \<Rightarrow> hosted \<Rightarrow> hosted" where
  "set_cooldown seconds now h =
     (if seconds \<le> 0 then h
      else h\<lparr>unavailable_until := max (unavailable_until h) (now + seconds)\<rparr>)"

definition retry_after_seconds :: "string option \<Rightarrow> pyfloat option" where
  "retry_after_seconds header =
     (case header of None \<Rightarrow> None
      | Some h \<Rightarrow> (case parse_float h of None \<Rightarrow> None | Some s \<Rightarrow> Some (max s 0)))"

text \<open>The request budgets, in order: a refusal stops, but what was taken before it stays taken.\<close>

fun take_budgets :: "string \<Rightarrow> (nat \<Rightarrow> (bool \<times> pyfloat) answer \<times> pyfloat) \<Rightarrow> nat
    \<Rightarrow> window_limiter list \<Rightarrow> py_error option \<times> window_limiter list" where
  "take_budgets name env i [] = (None, [])"
| "take_budgets name env i (l # ls) =
     (case window_allow (fst (env i)) (snd (env i)) l of ((allowed, retry), l') \<Rightarrow>
        if allowed
        then (case take_budgets name env (Suc i) ls of (err, ls') \<Rightarrow> (err, l' # ls'))
        else (Some (RuntimeError (name @ '' provider request budget exhausted; retry_after=''
                @ fmt1 retry @ ''s'')), l' # ls))"

fun set_scores :: "pyval list \<Rightarrow> pyfloat option list \<Rightarrow> (pyfloat option list) option" where
  "set_scores [] scores = Some scores"
| "set_scores (VDict r # rs) scores =
     (case map_of r ''index'' of None \<Rightarrow> None
      | Some i \<Rightarrow>
        (case (to_int i, to_float (dget_or r ''relevance_score'' (dget r ''score''))) of
           (Some index, Some score) \<Rightarrow>
             set_scores rs (if 0 \<le> index \<and> index < int (length scores)
                            then scores[nat index := Some score] else scores)
         | _ \<Rightarrow> None))"
| "set_scores (_ # rs) scores = None"

definition read_usage :: "pydict \<Rightarrow> py_error + int" where
  "read_usage payload =
     (case or_else (dget payload ''usage'') (VDict []) of
        VDict u \<Rightarrow>
          (case or_else (dget_or u ''total_tokens'' (VInt 0)) (VInt 0) of
             VStr s \<Rightarrow> (case parse_int s of None \<Rightarrow> Inl (ValueError ''total_tokens'') | Some n \<Rightarrow> Inr n)
           | v \<Rightarrow> (case to_int v of None \<Rightarrow> Inl (TypeError ''total_tokens'') | Some n \<Rightarrow> Inr n))
      | _ \<Rightarrow> Inl (OtherError ''AttributeError''))"

definition read_scores :: "string \<Rightarrow> pydict \<Rightarrow> nat \<Rightarrow> py_error + pyfloat list" where
  "read_scores name payload n =
     (case or_else (dget payload ''data'') (dget payload ''results'') of
        VList results \<Rightarrow>
          (case set_scores results (replicate n None) of
             None \<Rightarrow> Inl (RuntimeError (name @ '' reranker returned an invalid result''))
           | Some scores \<Rightarrow>
               if None \<in> set scores
               then Inl (RuntimeError (name @ '' reranker did not score every document''))
               else Inr (map the scores))
      | _ \<Rightarrow> Inl (RuntimeError (name @ '' reranker response has no result list'')))"

text \<open>
  The failure branch: the cooldown a failed exchange starts, and the error it raises. A 429
  waits as long as its \<open>Retry-After\<close> says (zero counts as no header, as \<open>or\<close> does), any
  other HTTP status, a timeout or a lost connection for the failure cooldown.
\<close>

definition request_failed ::
    "cooldown_settings \<Rightarrow> pyfloat \<Rightarrow> int option \<Rightarrow> string option \<Rightarrow> bool \<Rightarrow> string \<Rightarrow> hosted
      \<Rightarrow> py_error \<times> hosted" where
  "request_failed cfg now status header timeout kind h =
     (let reason = (case status of Some st \<Rightarrow> if st \<noteq> 0 then ''http_'' @ show_int st else kind
                    | None \<Rightarrow> kind);
          h' = (if status = Some 429
                then set_cooldown (case retry_after_seconds header of
                       Some s \<Rightarrow> if s \<noteq> 0 then s else rate_limit_cooldown cfg
                     | None \<Rightarrow> rate_limit_cooldown cfg) now h
                else if status \<noteq> None \<or> timeout then set_cooldown (failure_cooldown cfg) now h
                else h)
      in (RuntimeError (h_name h @ '' reranker unavailable: '' @ reason), h'))"

text \<open>
  \<open>compute_score\<close>: the environment gives the clock readings (at entry, per limiter, after the
  exchange), the Redis answers and the exchange, which is a function of query and documents.
\<close>

record hosted_env =
  env_now :: pyfloat
  env_budgets :: "nat \<Rightarrow> (bool \<times> pyfloat) answer \<times> pyfloat"
  env_post :: "string \<Rightarrow> string list \<Rightarrow> http_outcome"
  env_after :: pyfloat

definition hosted_compute_score ::
    "cooldown_settings \<Rightarrow> hosted_env \<Rightarrow> pair list \<Rightarrow> hosted \<Rightarrow> (py_error + pyfloat list) \<times> hosted" where
  "hosted_compute_score cfg env pairs h0 =
     (let h = h0\<lparr>last_usage := None\<rparr> in
      if pairs = [] then (Inr [], h)
      else if cooldown_retry_after (env_now env) h > 0
      then (Inl (RuntimeError (h_name h @ '' provider cooldown active; retry_after=''
              @ fmt1 (cooldown_retry_after (env_now env) h) @ ''s'')), h)
      else if length (dedup (map fst pairs)) \<noteq> 1
      then (Inl (RuntimeError (h_name h @ '' reranker requires one query per request.'')), h)
      else (let query = fst (hd pairs);
                documents = map (\<lambda>p. take (max_document_chars h) (snd p)) pairs
            in case take_budgets (h_name h) (env_budgets env) 0 (request_limiters h) of
                 (Some e, ls) \<Rightarrow> (Inl e, h\<lparr>request_limiters := ls\<rparr>)
               | (None, ls) \<Rightarrow>
                   (let h1 = h\<lparr>request_limiters := ls\<rparr> in
                    case env_post env query documents of
                      RequestExc status header timeout kind \<Rightarrow>
                        (case request_failed cfg (env_after env) status header timeout kind h1 of
                           (e, h2) \<Rightarrow> (Inl e, h2))
                    | BodyValueError \<Rightarrow>
                        (Inl (RuntimeError (h_name h @ '' reranker returned invalid JSON'')), h1)
                    | Body (VDict payload) \<Rightarrow>
                        (case read_usage payload of
                           Inl (ValueError m) \<Rightarrow>
                             (Inl (RuntimeError (h_name h @ '' reranker returned invalid JSON'')), h1)
                         | Inl e \<Rightarrow> (Inl e, h1)
                         | Inr used \<Rightarrow>
                             (read_scores (h_name h) payload (length documents),
                              h1\<lparr>last_usage := Some used\<rparr>))
                    | Body _ \<Rightarrow> (Inl (OtherError ''AttributeError''), h1))))"

subsection \<open>FallbackReranker\<close>

record attempt =
  at_provider :: string
  at_model :: string
  at_success :: bool
  at_reason :: string
  at_usage :: "int option"

text \<open>\<open>str(exc).split(":", 1)[-1].strip()\<close>\<close>

definition reason_of :: "py_error \<Rightarrow> string" where
  "reason_of e = (let m = error_text e; rest = dropWhile (\<lambda>c. c \<noteq> CHR '':'') m in
     strip (case rest of [] \<Rightarrow> m | _ # after \<Rightarrow> after))"

definition fallback_init :: "hosted list \<Rightarrow> py_error + hosted list" where
  "fallback_init providers =
     (if providers = [] then Inl (ValueError ''At least one reranker provider is required.'')
      else Inr providers)"

text \<open>
  \<open>compute_score\<close> of the chain: the result, the providers afterwards, the attempts and the
  name of the provider that answered (empty if none did).
\<close>

fun fallback_go ::
    "cooldown_settings \<Rightarrow> pair list \<Rightarrow> (hosted_env \<times> hosted) list \<Rightarrow> string list
      \<Rightarrow> (py_error + pyfloat list) \<times> hosted list \<times> attempt list \<times> string" where
  "fallback_go cfg pairs [] failures =
     (Inl (RuntimeError (''All reranker providers failed: '' @ join ''; '' failures)), [], [], '''')"
| "fallback_go cfg pairs ((env, h) # rest) failures =
     (case hosted_compute_score cfg env pairs h of
        (Inl e, h') \<Rightarrow>
          (let a = \<lparr>at_provider = h_name h, at_model = h_model h, at_success = False,
                    at_reason = reason_of e, at_usage = last_usage h'\<rparr>
           in case fallback_go cfg pairs rest (failures @ [h_name h @ ''='' @ reason_of e]) of
                (r, hs, attempts, provider) \<Rightarrow> (r, h' # hs, a # attempts, provider))
      | (Inr scores, h') \<Rightarrow>
          (Inr scores, h' # map snd rest,
           [\<lparr>at_provider = h_name h, at_model = h_model h, at_success = True,
             at_reason = '''', at_usage = last_usage h'\<rparr>], h_name h))"

definition fallback_compute_score ::
    "cooldown_settings \<Rightarrow> pair list \<Rightarrow> (hosted_env \<times> hosted) list
      \<Rightarrow> (py_error + pyfloat list) \<times> hosted list \<times> attempt list \<times> string" where
  "fallback_compute_score cfg pairs providers = fallback_go cfg pairs providers []"

text \<open>\<open>model_label\<close>\<close>

definition model_label :: "hosted list \<Rightarrow> string" where
  "model_label providers = join '' -> '' (map (\<lambda>h. h_name h @ '':'' @ h_model h) providers)"

subsection \<open>load_reranker and SharedReranker\<close>

record reranker_settings =
  rerank_provider_order :: "string list"
  voyage_api_key :: string
  voyage_model :: string
  voyage_lite_model :: string
  voyage_rpm :: int
  openrouter_api_key :: string
  openrouter_model :: string
  openrouter_rpm :: int
  openrouter_rpd :: int
  rerank_max_chars :: nat

definition new_window :: "int \<Rightarrow> pyfloat \<Rightarrow> window_limiter" where
  "new_window n w = \<lparr>requests_per_window = n, window_seconds = w, window_requests = []\<rparr>"

definition load_provider :: "reranker_settings \<Rightarrow> string \<Rightarrow> hosted option" where
  "load_provider cfg name =
     (if name \<in> set [''voyage'', ''voyage-2.5'', ''voyage-2.5-lite'']
      then (if voyage_api_key cfg \<noteq> []
            then Some \<lparr>h_name = name,
                   h_model = (if name = ''voyage-2.5-lite'' then voyage_lite_model cfg else voyage_model cfg),
                   max_document_chars = rerank_max_chars cfg,
                   request_limiters = [new_window (voyage_rpm cfg) 60],
                   unavailable_until = 0, last_usage = None\<rparr>
            else None)
      else if name = ''openrouter-nemotron''
      then (if openrouter_api_key cfg \<noteq> []
            then Some \<lparr>h_name = name, h_model = openrouter_model cfg,
                   max_document_chars = rerank_max_chars cfg,
                   request_limiters = [new_window (openrouter_rpm cfg) 60,
                                       new_window (openrouter_rpd cfg) 86400],
                   unavailable_until = 0, last_usage = None\<rparr>
            else None)
      else None)"

definition load_reranker :: "reranker_settings \<Rightarrow> py_error + hosted list" where
  "load_reranker cfg =
     (let providers = List.map_filter (load_provider cfg) (rerank_provider_order cfg) in
      if providers = []
      then Inl (RuntimeError ''No hosted reranker is configured. Set the API key required by a provider in RERANK_PROVIDER_ORDER.'')
      else fallback_init providers)"

text \<open>\<open>SharedReranker.ensure\<close> loads once: the slot is filled by the first call that succeeds.\<close>

definition shared_ensure :: "(py_error + 'r) \<Rightarrow> 'r option \<Rightarrow> (py_error + 'r) \<times> 'r option" where
  "shared_ensure loaded slot =
     (case slot of
        Some r \<Rightarrow> (Inr r, slot)
      | None \<Rightarrow> (case loaded of Inl e \<Rightarrow> (Inl e, None) | Inr r \<Rightarrow> (Inr r, Some r)))"

subsection \<open>Bands\<close>

lemma sort_desc_bool:
  "sort_desc (p :: 'a \<Rightarrow> bool) xs = filter p xs @ filter (\<lambda>x. \<not> p x) xs"
proof -
  have key: "sort_key p ys = filter (\<lambda>x. \<not> p x) ys @ filter p ys" for ys
  proof (rule properties_for_sort_key)
    show "mset (filter (\<lambda>x. \<not> p x) ys @ filter p ys) = mset ys"
      by (metis add.commute mset_append mset_filter multiset_partition)
    show "filter (\<lambda>x. p k = p x) (filter (\<lambda>x. \<not> p x) ys @ filter p ys) = filter (\<lambda>x. p k = p x) ys"
      for k by (cases "p k") (simp_all add: conj_commute)
    have flat: "sorted_wrt (\<lambda>x y. p x \<le> p y) (filter q ys)"
      if "\<And>x y. q x \<Longrightarrow> q y \<Longrightarrow> p x \<le> p y" for q
      by (induction ys) (use that in auto)
    have "sorted_wrt (\<lambda>x y. p x \<le> p y) (filter (\<lambda>x. \<not> p x) ys @ filter p ys)"
      using flat [of "\<lambda>x. \<not> p x"] flat [of p] by (auto simp: sorted_wrt_append)
    then show "sorted (map p (filter (\<lambda>x. \<not> p x) ys @ filter p ys))"
      by (simp only: sorted_map)
  qed
  show ?thesis by (simp add: sort_desc_def key rev_filter [symmetric])
qed

lemma band_append: "band_of rb a xs @ drop (length (band_of rb a xs)) xs = xs"
  by (metis append_eq_conv_conj band_of_def takeWhile_dropWhile_id)

lemma mset_prioritize [rerank_facts, simp]: "mset (prioritize_verified rb xs) = mset xs"
proof (induction rb xs rule: prioritize_verified.induct)
  case (2 rb x xs)
  have "mset (band_of rb (snd x) xs) + mset (drop (length (band_of rb (snd x) xs)) xs) = mset xs"
    by (metis band_append mset_append)
  with 2 show ?case by simp
qed simp

lemma length_prioritize [simp]: "length (prioritize_verified rb xs) = length xs"
  by (metis mset_prioritize size_mset)

text \<open>
  How far the verified-owner preference reaches: an item may stand before one with a higher
  score only if it is verified, the other is not, and its score is within the band.
\<close>

definition band_order :: "pyfloat \<Rightarrow> candidate \<times> pyfloat \<Rightarrow> candidate \<times> pyfloat \<Rightarrow> bool" where
  "band_order rb a b \<longleftrightarrow> (1 - rb) * snd b \<le> snd a
     \<and> (snd a < snd b \<longrightarrow> verified_owner (fst a) \<and> \<not> verified_owner (fst b))
     \<and> (snd a = snd b \<longrightarrow> verified_owner (fst b) \<longrightarrow> verified_owner (fst a))"

lemma band_order_within:
  assumes srt: "sorted_wrt (\<lambda>a b. snd b \<le> snd a) xs" and rb: "0 \<le> rb" "rb \<le> 1"
    and rng: "\<forall>a \<in> set xs. (1 - rb) * hi \<le> snd a \<and> snd a \<le> hi"
  shows "sorted_wrt (band_order rb) (sort_desc (\<lambda>y. verified_owner (fst y)) xs)"
proof -
  have near: "(1 - rb) * snd b \<le> snd a" if "a \<in> set xs" "b \<in> set xs" for a b
  proof -
    have "(1 - rb) * snd b \<le> (1 - rb) * hi"
      using rng that(2) rb(2) by (intro mult_left_mono) auto
    also have "\<dots> \<le> snd a" using rng that(1) by blast
    finally show ?thesis .
  qed
  have same: "sorted_wrt (band_order rb) (filter q xs)"
    if q: "\<And>a b. q a \<Longrightarrow> q b \<Longrightarrow> verified_owner (fst a) = verified_owner (fst b)" for q
  proof -
    have desc: "sorted_wrt (\<lambda>a b. snd b \<le> snd a) (filter q xs)"
      using srt by (rule sorted_wrt_filter)
    show ?thesis
    proof (rule sorted_wrt_mono_rel [OF _ desc])
      fix a b
      assume ab: "a \<in> set (filter q xs)" "b \<in> set (filter q xs)" "snd b \<le> snd a"
      then have "(1 - rb) * snd b \<le> snd a" using near by simp
      moreover have "verified_owner (fst a) = verified_owner (fst b)" using ab q by simp
      ultimately show "band_order rb a b" using ab(3) by (simp add: band_order_def)
    qed
  qed
  have cross: "band_order rb a b"
    if "a \<in> set xs" "b \<in> set xs" "verified_owner (fst a)" "\<not> verified_owner (fst b)" for a b
    using near [OF that(1,2)] that(3,4) by (simp add: band_order_def)
  show ?thesis
    unfolding sort_desc_bool sorted_wrt_append
    using same [of "\<lambda>y. verified_owner (fst y)"] same [of "\<lambda>y. \<not> verified_owner (fst y)"] cross
    by auto
qed

lemma prioritize_order:
  assumes "sorted_wrt (\<lambda>a b. snd b \<le> snd a) xs" and "\<forall>a \<in> set xs. 0 \<le> snd a"
    and "0 \<le> rb" "rb \<le> 1"
  shows "sorted_wrt (band_order rb) (prioritize_verified rb xs)"
  using assms
proof (induction rb xs rule: prioritize_verified.induct)
  case (2 rb x xs)
  let ?band = "band_of rb (snd x) xs"
  let ?rest = "drop (length ?band) xs"
  have split: "xs = ?band @ ?rest" by (simp add: band_append)
  have srt: "sorted_wrt (\<lambda>a b. snd b \<le> snd a) (?band @ ?rest)"
    and top: "\<forall>b \<in> set xs. snd b \<le> snd x"
    using 2(2) by (simp_all add: band_append)
  have rest: "sorted_wrt (band_order rb) (prioritize_verified rb ?rest)"
    using 2 srt by (intro 2(1)) (auto simp: sorted_wrt_append dest: in_set_dropD)
  have "\<forall>a \<in> set ?band. (1 - rb) * snd x \<le> snd a"
    using 2(3) by (auto simp: band_of_def algebra_simps dest!: set_takeWhileD)
  moreover have "\<forall>a \<in> set ?band. snd a \<le> snd x"
    using top by (auto simp: band_of_def dest: set_takeWhileD)
  moreover have "(1 - rb) * snd x \<le> snd x" using 2(3,4) by (simp add: algebra_simps)
  ultimately have band: "sorted_wrt (band_order rb)
      (sort_desc (\<lambda>y. verified_owner (fst y)) (x # ?band))"
    using 2(2,4,5) srt
    by (intro band_order_within [where hi = "snd x"]) (auto simp: sorted_wrt_append band_of_def dest: set_takeWhileD)
  have lt: "snd b < snd a" if "a \<in> set (x # ?band)" "b \<in> set ?rest" for a b
  proof -
    have "?rest = dropWhile (\<lambda>y. snd x - snd y \<le> \<bar>snd x\<bar> * rb) xs"
      by (simp add: band_of_def dropWhile_eq_drop)
    moreover from that have "?rest \<noteq> []" by auto
    ultimately have hd: "\<bar>snd x\<bar> * rb < snd x - snd (hd ?rest)"
      by (metis hd_dropWhile not_le)
    have "snd b \<le> snd (hd ?rest)"
      using srt that \<open>?rest \<noteq> []\<close> by (cases ?rest) (auto simp: sorted_wrt_append)
    moreover have "snd x - snd a \<le> \<bar>snd x\<bar> * rb"
      using that 2(3,4) by (auto simp: band_of_def dest: set_takeWhileD)
    ultimately show ?thesis using hd by linarith
  qed
  have across: "band_order rb a b" if "a \<in> set (x # ?band)" "b \<in> set ?rest" for a b
  proof -
    have "0 \<le> snd b" using 2(3) that(2) by (auto dest: in_set_dropD)
    then have "(1 - rb) * snd b \<le> snd b" using 2(4) by (simp add: algebra_simps)
    then show ?thesis using lt [OF that] by (auto simp: band_order_def)
  qed
  have "set (prioritize_verified rb ?rest) = set ?rest"
    by (metis mset_prioritize set_mset_mset)
  then show ?case using rest band across by (auto simp: sorted_wrt_append)
qed simp

subsection \<open>Diversity\<close>

definition pos_titles :: "positioned list \<Rightarrow> string list" where
  "pos_titles xs = List.map_filter (\<lambda>(pos, c, s). title_of c) xs"

definition covered_by :: "positioned list \<Rightarrow> positioned \<Rightarrow> bool" where
  "covered_by primary x \<longleftrightarrow> x \<in> set primary
     \<or> (\<exists>t. title_of (fst (snd x)) = Some t \<and> t \<in> set (pos_titles primary))"

definition diversity_inv :: "nat \<Rightarrow> positioned list \<Rightarrow> positioned list \<times> positioned list \<times> string list \<Rightarrow> bool" where
  "diversity_inv k past st = (case st of (primary, deferred, seen) \<Rightarrow>
     mset (primary @ deferred) = mset past \<and> length primary \<le> k
     \<and> distinct (pos_titles primary) \<and> set (pos_titles primary) \<subseteq> set seen
     \<and> (length primary < k \<longrightarrow>
          set seen = set (pos_titles primary) \<and> (\<forall>x \<in> set past. covered_by primary x)))"

lemma pos_titles_append [simp]: "pos_titles (xs @ ys) = pos_titles xs @ pos_titles ys"
  by (simp add: pos_titles_def List.map_filter_def)

lemma covered_mono: "covered_by p x \<Longrightarrow> covered_by (p @ q) x"
  by (auto simp: covered_by_def)

lemma diversity_step_inv:
  assumes "diversity_inv k past st"
  shows "diversity_inv k (past @ [x]) (diversity_step k x st)"
proof -
  obtain primary deferred seen where st: "st = (primary, deferred, seen)" by (metis prod.exhaust)
  obtain pos c s where x: "x = (pos, c, s)" by (metis prod.exhaust)
  note inv = assms [unfolded diversity_inv_def st prod.case]
  have one: "pos_titles [x] = (case title_of c of None \<Rightarrow> [] | Some t \<Rightarrow> [t])"
    by (simp add: pos_titles_def List.map_filter_def x split: option.splits)
  show ?thesis
  proof (cases "length primary < k")
    case False
    then show ?thesis
      using inv by (auto simp: diversity_inv_def st x Let_def split: option.splits)
  next
    case True
    have cov: "\<forall>y \<in> set past. covered_by (primary @ [x]) y"
      using inv True covered_mono by blast
    have self: "covered_by (primary @ [x]) x" by (simp add: covered_by_def)
    show ?thesis
    proof (cases "\<exists>t. title_of c = Some t \<and> t \<in> set seen")
      case True
      with inv \<open>length primary < k\<close> have "covered_by primary x"
        by (auto simp: covered_by_def x)
      with True inv \<open>length primary < k\<close> show ?thesis
        by (auto simp: diversity_inv_def st x Let_def)
    next
      case False
      with inv \<open>length primary < k\<close> cov self one show ?thesis
        by (auto simp: diversity_inv_def st x Let_def split: option.splits)
    qed
  qed
qed

lemma diversify_inv:
  "diversity_inv k past st \<Longrightarrow> diversity_inv k (past @ xs) (diversify k xs st)"
proof (induction xs arbitrary: past st)
  case (Cons x xs)
  from Cons.IH [OF diversity_step_inv [OF Cons.prems]] show ?case by simp
qed simp

lemma diversify_result:
  assumes "diversify k (enumerate 0 ranked) ([], [], []) = (primary, deferred, seen)"
  shows "diversity_inv k (enumerate 0 ranked) (primary, deferred, seen)"
proof -
  have "diversity_inv k [] ([], [], [])" by (simp add: diversity_inv_def pos_titles_def List.map_filter_def)
  from diversify_inv [OF this, of "enumerate 0 ranked"] assms show ?thesis by simp
qed

lemma mset_rerank_order [rerank_facts]: "mset (rerank_order k ranked) = mset ranked"
proof -
  obtain primary deferred seen where
    d: "diversify k (enumerate 0 ranked) ([], [], []) = (primary, deferred, seen)"
    by (metis prod.exhaust)
  have "mset (primary @ deferred) = mset (enumerate 0 ranked)"
    using diversify_result [OF d] by (simp add: diversity_inv_def)
  then have "mset (map snd (primary @ sort_key fst deferred)) = mset (map snd (enumerate 0 ranked))"
    by (metis mset_append mset_map mset_sort)
  then show ?thesis by (simp add: rerank_order_def d)
qed

subsection \<open>What rerank returns, for any scorer\<close>

lemma set_scores_length: "set_scores rs scores = Some scores' \<Longrightarrow> length scores' = length scores"
  by (induction rs scores rule: set_scores.induct) (auto split: option.splits if_splits)

lemma read_scores_length [rerank_facts]:
  "read_scores name payload n = Inr scores \<Longrightarrow> length scores = n"
  by (auto simp: read_scores_def split: pyval.splits option.splits if_splits dest: set_scores_length)

lemma diversity_take:
  assumes "diversify k (enumerate 0 ranked) ([], [], []) = (primary, deferred, seen)"
  shows "distinct (List.map_filter (\<lambda>(c, s). title_of c) (map snd primary))"
    and "length primary < k \<Longrightarrow> x \<in> set ranked \<Longrightarrow>
      x \<in> set (map snd primary) \<or>
      (\<exists>t y. title_of (fst x) = Some t \<and> y \<in> set (map snd primary) \<and> title_of (fst y) = Some t)"
    and "length primary \<le> k"
proof -
  have inv: "diversity_inv k (enumerate 0 ranked) (primary, deferred, seen)"
    by (rule diversify_result [OF assms])
  have titles: "pos_titles primary = List.map_filter (\<lambda>(c, s). title_of c) (map snd primary)"
    unfolding pos_titles_def by (induction primary) (auto simp: List.map_filter_def)
  show "distinct (List.map_filter (\<lambda>(c, s). title_of c) (map snd primary))"
    using inv titles by (simp add: diversity_inv_def)
  show "length primary \<le> k" using inv by (simp add: diversity_inv_def)
  assume "length primary < k" "x \<in> set ranked"
  then obtain i where "(i, x) \<in> set (enumerate 0 ranked)"
    by (metis in_set_conv_nth enumerate_eq_zip add_0 length_enumerate nth_enumerate_eq nth_mem)
  with inv \<open>length primary < k\<close> have "covered_by primary (i, x)" by (simp add: diversity_inv_def)
  then show "x \<in> set (map snd primary) \<or>
      (\<exists>t y. title_of (fst x) = Some t \<and> y \<in> set (map snd primary) \<and> title_of (fst y) = Some t)"
    by (cases x) (force simp: covered_by_def pos_titles_def List.map_filter_def split: option.splits)
qed

locale scorer =
  fixes score :: "'env \<Rightarrow> pair list \<Rightarrow> 's \<Rightarrow> (py_error + pyfloat list) \<times> 's"
  assumes scores_all: "fst (score env pairs s) = Inr scores \<Longrightarrow> length scores = length pairs"
begin

lemma rerank_counts:
  assumes "rerank q cands (\<lambda>ps. fst (score env ps s)) k d = Inr res"
  shows "length res = min k (length cands)"
    and "\<exists>scores. length scores = length cands \<and>
      mset res \<subseteq># mset (map ranked_of (zip cands scores))"
proof -
  have "length res = min k (length cands) \<and> (\<exists>scores. length scores = length cands \<and>
      mset res \<subseteq># mset (map ranked_of (zip cands scores)))"
  proof (cases "cands = []")
    case True
    with assms show ?thesis by (simp add: rerank_def)
  next
    case False
    then obtain scores where sc: "fst (score env (map (\<lambda>c. (q, cand_text c)) cands) s) = Inr scores"
      using assms by (auto simp: rerank_def split: sum.splits)
    then have len: "length scores = length cands" using scores_all by fastforce
    let ?k = "case d of None \<Rightarrow> k | Some d \<Rightarrow> d"
    let ?order = "rerank_order ?k (prioritize_verified relevance_band (sort_desc snd (zip cands scores)))"
    have res: "res = map ranked_of (take k ?order)"
      using assms sc False by (simp add: rerank_def Let_def)
    have perm: "mset ?order = mset (zip cands scores)"
      by (simp add: mset_rerank_order)
    then have "length ?order = length cands"
      using len by (metis length_zip min.idem size_mset)
    moreover have "mset (take k ?order) \<subseteq># mset ?order"
      by (metis append_take_drop_id mset_append mset_subset_eq_add_left)
    ultimately show ?thesis
      using res perm len by (auto intro!: exI [of _ scores] image_mset_subseteq_mono)
  qed
  then show "length res = min k (length cands)" and "\<exists>scores. length scores = length cands \<and>
      mset res \<subseteq># mset (map ranked_of (zip cands scores))" by auto
qed

end

lemma hosted_scores_all:
  "fst (hosted_compute_score cfg env pairs h) = Inr scores \<Longrightarrow> length scores = length pairs"
  by (auto simp: hosted_compute_score_def Let_def request_failed_def
      split: if_splits prod.splits option.splits http_outcome.splits pyval.splits sum.splits
        py_error.splits dest: read_scores_length)

lemma hosted_scores_all':
  "hosted_compute_score cfg env pairs h = (Inr scores, h') \<Longrightarrow> length scores = length pairs"
  using hosted_scores_all [of cfg env pairs h scores] by simp

lemma fallback_go_scores_all:
  "fallback_go cfg pairs providers failures = (Inr scores, rest) \<Longrightarrow> length scores = length pairs"
  by (induction cfg pairs providers failures arbitrary: rest rule: fallback_go.induct)
    (auto simp: Let_def split: prod.splits sum.splits dest: hosted_scores_all')

definition chain_score :: "cooldown_settings \<Rightarrow> hosted_env list \<Rightarrow> pair list \<Rightarrow> hosted list
    \<Rightarrow> (py_error + pyfloat list) \<times> hosted list" where
  "chain_score cfg envs pairs hs =
     (case fallback_compute_score cfg pairs (zip envs hs) of (r, hs', attempts, provider) \<Rightarrow> (r, hs'))"

interpretation one: scorer "hosted_compute_score cfg" for cfg
  by unfold_locales (rule hosted_scores_all)

interpretation chain: scorer "chain_score cfg" for cfg
  by unfold_locales
    (auto simp: chain_score_def fallback_compute_score_def split: prod.splits dest: fallback_go_scores_all)

subsection \<open>The promises of the reranker\<close>

theorem rerank_chain_total:
  assumes "rerank q cands (\<lambda>ps. fst (chain_score cfg envs ps hs)) k None = Inr res"
  shows "length res = min k (length cands) \<and> (\<exists>scores. length scores = length cands \<and>
    mset res \<subseteq># mset (map ranked_of (zip cands scores)))"
  using chain.rerank_counts [OF assms] by blast

theorem verified_preference_bounded:
  assumes "sorted_wrt (\<lambda>a b. snd b \<le> snd a) ranked" and "\<forall>a \<in> set ranked. 0 \<le> snd a"
  shows "mset (prioritize_verified relevance_band ranked) = mset ranked
    \<and> sorted_wrt (band_order (1 / 20)) (prioritize_verified relevance_band ranked)"
  using prioritize_order [OF assms, of relevance_band] by (simp add: relevance_band_def)

text \<open>The title of a result.\<close>

abbreviation result_title :: "ranked_item \<Rightarrow> string option" where
  "result_title r \<equiv> metadata_title (item_metadata r)"

theorem rerank_titles_diverse:
  assumes "rerank q cands compute_score k None = Inr res"
    and "\<And>scores. compute_score (map (\<lambda>c. (q, cand_text c)) cands) = Inr scores \<Longrightarrow>
      length scores = length cands"
  shows "\<exists>p \<le> k. distinct (List.map_filter result_title (take p res)) \<and>
    (p < k \<longrightarrow> (\<forall>c \<in> set cands. (\<exists>r \<in> set (take p res). item_metadata r = cand_metadata c) \<or>
      (\<exists>t. title_of c = Some t \<and> (\<exists>r \<in> set (take p res). result_title r = Some t))))"
proof (cases "cands = []")
  case True
  with assms(1) show ?thesis by (auto simp: rerank_def List.map_filter_def)
next
  case False
  then obtain scores where sc: "compute_score (map (\<lambda>c. (q, cand_text c)) cands) = Inr scores"
    using assms(1) by (auto simp: rerank_def split: sum.splits)
  let ?ranked = "prioritize_verified relevance_band (sort_desc snd (zip cands scores))"
  obtain primary deferred seen where
    d: "diversify k (enumerate 0 ?ranked) ([], [], []) = (primary, deferred, seen)"
    by (metis prod.exhaust)
  note div = diversity_take [OF d]
  have res: "res = map ranked_of (take k (map snd (primary @ sort_key fst deferred)))"
    using assms(1) sc False d by (simp add: rerank_def rerank_order_def Let_def)
  have head: "take (length primary) res = map (ranked_of \<circ> snd) primary"
    using res div(3) by (simp add: take_map min_absorb1)
  have titles: "List.map_filter result_title (map (ranked_of \<circ> snd) ps)
      = List.map_filter (\<lambda>(c, s). title_of c) (map snd ps)" for ps :: "positioned list"
    by (induction ps) (auto simp: List.map_filter_def ranked_of_def)
  have mem: "set ?ranked = set (zip cands scores)"
    by (metis mset_prioritize mset_sort_desc set_mset_mset)
  have "(\<exists>r \<in> set (take (length primary) res). item_metadata r = cand_metadata c) \<or>
      (\<exists>t. title_of c = Some t \<and> (\<exists>r \<in> set (take (length primary) res). result_title r = Some t))"
    if short: "length primary < k" and cin: "c \<in> set cands" for c
  proof -
    have "length scores = length cands" by (rule assms(2) [OF sc])
    then obtain v where "(c, v) \<in> set ?ranked"
      using cin unfolding mem by (metis in_set_impl_in_set_zip1)
    from div(2) [OF short this] show ?thesis
      unfolding head by (force simp: ranked_of_def)
  qed
  then show ?thesis
    using div(1,3) head titles [of primary] by (intro exI [of _ "length primary"]) auto
qed

text \<open>The chain answers with the first provider that succeeds and leaves the later ones alone.\<close>

lemma fallback_go_first:
  assumes "fallback_go cfg pairs providers failures = (Inr scores, hs, attempts, provider)"
  shows "\<exists>i < length providers.
    fst (hosted_compute_score cfg (fst (providers ! i)) pairs (snd (providers ! i))) = Inr scores
    \<and> (\<forall>j < i. \<exists>e. fst (hosted_compute_score cfg (fst (providers ! j)) pairs (snd (providers ! j))) = Inl e)
    \<and> provider = h_name (snd (providers ! i))
    \<and> map at_success attempts = replicate i False @ [True]
    \<and> drop (Suc i) hs = drop (Suc i) (map snd providers)"
  using assms
proof (induction cfg pairs providers failures arbitrary: hs attempts rule: fallback_go.induct)
  case (2 cfg pairs env h rest failures)
  obtain r h' where step: "hosted_compute_score cfg env pairs h = (r, h')" by (metis prod.exhaust)
  show ?case
  proof (cases r)
    case (Inr sc)
    with 2(2) step show ?thesis by (intro exI [of _ 0]) auto
  next
    case (Inl e)
    let ?fails = "failures @ [h_name h @ ''='' @ reason_of e]"
    obtain hs1 at1 where rest: "fallback_go cfg pairs rest ?fails = (Inr scores, hs1, at1, provider)"
      and eqs: "hs = h' # hs1" "map at_success attempts = False # map at_success at1"
      using 2(2) step Inl by (auto simp: Let_def split: prod.splits)
    from 2(1) [OF step [symmetric] Inl refl rest] obtain i where i: "i < length rest"
      "fst (hosted_compute_score cfg (fst (rest ! i)) pairs (snd (rest ! i))) = Inr scores"
      "\<forall>j < i. \<exists>e. fst (hosted_compute_score cfg (fst (rest ! j)) pairs (snd (rest ! j))) = Inl e"
      "provider = h_name (snd (rest ! i))" "map at_success at1 = replicate i False @ [True]"
      "drop (Suc i) hs1 = drop (Suc i) (map snd rest)" by blast
    have "\<forall>j < Suc i. \<exists>e. fst (hosted_compute_score cfg (fst (((env, h) # rest) ! j)) pairs
        (snd (((env, h) # rest) ! j))) = Inl e"
      using i(3) step Inl by (auto simp: less_Suc_eq_0_disj)
    then show ?thesis using i eqs by (intro exI [of _ "Suc i"]) auto
  qed
qed simp

theorem failover_first_success:
  assumes "fallback_compute_score cfg pairs providers = (Inr scores, hs, attempts, provider)"
  shows "\<exists>i < length providers.
    fst (hosted_compute_score cfg (fst (providers ! i)) pairs (snd (providers ! i))) = Inr scores
    \<and> (\<forall>j < i. \<exists>e. fst (hosted_compute_score cfg (fst (providers ! j)) pairs (snd (providers ! j))) = Inl e)
    \<and> provider = h_name (snd (providers ! i))
    \<and> map at_success attempts = replicate i False @ [True]
    \<and> drop (Suc i) hs = drop (Suc i) (map snd providers)"
  using assms unfolding fallback_compute_score_def by (rule fallback_go_first)

text \<open>
  A failed exchange starts a cooldown; while it lasts the provider refuses without posting
  and without spending its budgets.
\<close>

theorem cooldown_blocks_exchange:
  assumes "0 < failure_cooldown cfg" and "0 < rate_limit_cooldown cfg"
    and "pairs \<noteq> []" and "length (dedup (map fst pairs)) = 1"
    and "cooldown_retry_after (env_now env) h = 0"
    and "take_budgets (h_name h) (env_budgets env) 0 (request_limiters h) = (None, ls)"
    and "env_post env (fst (hd pairs)) (map (\<lambda>p. take (max_document_chars h) (snd p)) pairs)
      = RequestExc status header timeout kind"
    and "status \<noteq> None \<or> timeout"
    and "hosted_compute_score cfg env pairs h = (r, h')"
    and "env_now env' < env_after env + (if status = Some 429
      then case retry_after_seconds header of Some s \<Rightarrow> if s \<noteq> 0 then s else rate_limit_cooldown cfg
           | None \<Rightarrow> rate_limit_cooldown cfg
      else failure_cooldown cfg)"
    and "pairs' \<noteq> []"
  shows "\<exists>e. hosted_compute_score cfg env' pairs' h' = (Inl e, h')"
proof -
  let ?s = "if status = Some 429
      then case retry_after_seconds header of Some s \<Rightarrow> if s \<noteq> 0 then s else rate_limit_cooldown cfg
           | None \<Rightarrow> rate_limit_cooldown cfg
      else failure_cooldown cfg"
  have nonneg: "retry_after_seconds header = Some s \<Longrightarrow> 0 \<le> s" for s
    by (auto simp: retry_after_seconds_def split: option.splits)
  then have pos: "0 < ?s" using assms(1,2) by (auto split: option.splits)
  have h': "h' = set_cooldown ?s (env_after env)
      (h\<lparr>last_usage := None, request_limiters := ls\<rparr>)"
    using assms(3-9) by (auto simp: hosted_compute_score_def Let_def request_failed_def
        cooldown_retry_after_def split: if_splits option.splits)
  then have "env_after env + ?s \<le> unavailable_until h'" "last_usage h' = None"
    using pos by (simp_all add: set_cooldown_def)
  then show ?thesis using assms(10,11)
    by (auto simp: hosted_compute_score_def Let_def cooldown_retry_after_def)
qed

subsection \<open>A concrete chain, for the witnesses\<close>

text \<open>Two providers: the first is rate limited for 30 seconds, the second scores three candidates.\<close>

definition ex_hosted :: "string \<Rightarrow> hosted" where
  "ex_hosted name = \<lparr>h_name = name, h_model = ''rerank'', max_document_chars = 300,
     request_limiters = [new_window 20 60], unavailable_until = 0, last_usage = None\<rparr>"

definition ex_candidate :: "string \<Rightarrow> string \<Rightarrow> bool \<Rightarrow> candidate" where
  "ex_candidate doc title verified = \<lparr>cand_id = doc, cand_text = title,
     cand_metadata = [(''title'', VStr title),
       (''user_is_aadhaar_gst_verified'', VInt (if verified then 1 else 0))],
     cand_score = 0, cand_source = ''vector'', fusion_score = None\<rparr>"

definition ex_scored :: "int \<Rightarrow> pyfloat \<Rightarrow> pyval" where
  "ex_scored i s = VDict [(''index'', VInt i), (''relevance_score'', VFloat s)]"

definition ex_env :: "http_outcome \<Rightarrow> hosted_env" where
  "ex_env outcome = \<lparr>env_now = 0, env_budgets = (\<lambda>_. (None, 0)), env_post = (\<lambda>q ds. outcome),
     env_after = 1\<rparr>"

definition ex_envs :: "hosted_env list" where
  "ex_envs = [ex_env (RequestExc (Some 429) (Some ''30'') False ''HTTPError''),
     ex_env (Body (VDict [(''data'', VList [ex_scored 0 (1/2), ex_scored 1 (49/100), ex_scored 2 (1/10)])]))]"

definition ex_cfg :: cooldown_settings where
  "ex_cfg = \<lparr>rate_limit_cooldown = 60, failure_cooldown = 10\<rparr>"

definition ex_cands :: "candidate list" where
  "ex_cands = [ex_candidate ''1'' ''Red Bike'' False, ex_candidate ''2'' ''Blue Bike'' True,
     ex_candidate ''3'' ''red  bike'' False]"

abbreviation ex_rerank :: "py_error + ranked_item list" where
  "ex_rerank \<equiv> rerank ''bike'' ex_cands
     (\<lambda>ps. fst (chain_score ex_cfg ex_envs ps [ex_hosted ''a'', ex_hosted ''b''])) 2 None"

lemma ex_rerank_eval: "map_sum id (map item_id) ex_rerank = Inr [''2'', ''1'']"
  by code_simp

theorem rerank_chain_total_witness:
  "\<exists>res. ex_rerank = Inr res \<and> map item_id res = [''2'', ''1''] \<and> length res = min 2 (length ex_cands)"
proof -
  obtain res where res: "ex_rerank = Inr res" "map item_id res = [''2'', ''1'']"
    by (rule map_sum_InrE [OF ex_rerank_eval])
  show ?thesis
    by (intro exI [of _ res] conjI res(1) res(2) conjunct1 [OF rerank_chain_total [OF res(1)]])
qed

theorem verified_preference_bounded_witness:
  "sorted_wrt (band_order (1 / 20)) (prioritize_verified relevance_band
    (zip ex_cands [1/2 :: pyfloat, 49/100, 1/10]))
   \<and> map (cand_id \<circ> fst) (prioritize_verified relevance_band (zip ex_cands [1/2 :: pyfloat, 49/100, 1/10]))
     = [''2'', ''1'', ''3'']"
proof -
  have srt: "sorted_wrt (\<lambda>a b. snd b \<le> snd a) (zip ex_cands [1/2 :: pyfloat, 49/100, 1/10])"
    by (simp add: ex_cands_def)
  have pos: "\<forall>a \<in> set (zip ex_cands [1/2 :: pyfloat, 49/100, 1/10]). 0 \<le> snd a"
    by (simp add: ex_cands_def)
  have "map (cand_id \<circ> fst) (prioritize_verified relevance_band (zip ex_cands [1/2 :: pyfloat, 49/100, 1/10]))
     = [''2'', ''1'', ''3'']" by code_simp
  with verified_preference_bounded [OF srt pos] show ?thesis by blast
qed

theorem rerank_titles_diverse_witness:
  "\<exists>res p. ex_rerank = Inr res \<and> p \<le> 2 \<and> distinct (List.map_filter result_title (take p res))"
proof -
  obtain res where res: "ex_rerank = Inr res"
    by (rule map_sum_InrE [OF ex_rerank_eval])
  have len: "length scores = length ex_cands"
    if "fst (chain_score ex_cfg ex_envs (map (\<lambda>c. (''bike'', cand_text c)) ex_cands)
        [ex_hosted ''a'', ex_hosted ''b'']) = Inr scores" for scores
    using chain.scores_all [OF that] by simp
  from rerank_titles_diverse [OF res len] obtain p where
    p: "p \<le> 2" "distinct (List.map_filter result_title (take p res))" by blast
  show ?thesis by (intro exI [of _ res] exI [of _ p] conjI res p)
qed

theorem failover_first_success_witness:
  "\<exists>hs attempts. fallback_compute_score ex_cfg (map (\<lambda>c. (''bike'', cand_text c)) ex_cands)
      (zip ex_envs [ex_hosted ''a'', ex_hosted ''b'']) = (Inr [1/2, 49/100, 1/10], hs, attempts, ''b'')
    \<and> (\<exists>i < 2. map at_success attempts = replicate i False @ [True])"
proof -
  let ?run = "fallback_compute_score ex_cfg (map (\<lambda>c. (''bike'', cand_text c)) ex_cands)
      (zip ex_envs [ex_hosted ''a'', ex_hosted ''b''])"
  have "fst ?run = Inr [1/2, 49/100, 1/10] \<and> snd (snd (snd ?run)) = ''b''" by code_simp
  then obtain hs attempts where run: "?run = (Inr [1/2, 49/100, 1/10], hs, attempts, ''b'')"
    by (metis prod.collapse)
  have two: "length (zip ex_envs [ex_hosted ''a'', ex_hosted ''b'']) = 2" by (simp add: ex_envs_def)
  from failover_first_success [OF run] two
  have "\<exists>i < 2. map at_success attempts = replicate i False @ [True]" by metis
  then show ?thesis by (intro exI [of _ hs] exI [of _ attempts] conjI run)
qed

theorem cooldown_blocks_exchange_witness:
  "\<exists>e h'. hosted_compute_score ex_cfg ((ex_env (Body VNone))\<lparr>env_now := 20\<rparr>) [(''q'', ''d'')] h'
    = (Inl e, h') \<and> unavailable_until h' = 31"
proof -
  let ?env = "ex_env (RequestExc (Some 429) (Some ''30'') False ''HTTPError'')"
  obtain r h' where step: "hosted_compute_score ex_cfg ?env [(''q'', ''d'')] (ex_hosted ''a'') = (r, h')"
    by (metis prod.exhaust)
  have "unavailable_until (snd (hosted_compute_score ex_cfg ?env [(''q'', ''d'')] (ex_hosted ''a''))) = 31"
    by code_simp
  then have until: "unavailable_until h' = 31" using step by simp
  obtain ls where ls: "take_budgets (h_name (ex_hosted ''a'')) (env_budgets ?env) 0
      (request_limiters (ex_hosted ''a'')) = (None, ls)"
  proof -
    have "fst (take_budgets (h_name (ex_hosted ''a'')) (env_budgets ?env) 0
      (request_limiters (ex_hosted ''a''))) = None" by code_simp
    then show ?thesis using that by (metis prod.collapse)
  qed
  have a: "0 < failure_cooldown ex_cfg" "0 < rate_limit_cooldown ex_cfg" by (simp_all add: ex_cfg_def)
  have q: "length (dedup (map fst [(''q'', ''d'')])) = 1" by code_simp
  have r0: "cooldown_retry_after (env_now ?env) (ex_hosted ''a'') = 0" by code_simp
  have post: "env_post ?env (fst (hd [(''q'', ''d'')]))
      (map (\<lambda>p. take (max_document_chars (ex_hosted ''a'')) (snd p)) [(''q'', ''d'')])
      = RequestExc (Some 429) (Some ''30'') False ''HTTPError''" by (simp add: ex_env_def)
  have retry: "retry_after_seconds (Some ''30'') = Some 30" by code_simp
  have "env_now ((ex_env (Body VNone))\<lparr>env_now := 20\<rparr>) < env_after ?env + (if Some 429 = Some (429::int)
      then case retry_after_seconds (Some ''30'') of Some s \<Rightarrow> if s \<noteq> 0 then s else rate_limit_cooldown ex_cfg
           | None \<Rightarrow> rate_limit_cooldown ex_cfg else failure_cooldown ex_cfg)"
    by (simp add: retry ex_env_def)
  from cooldown_blocks_exchange [OF a _ q r0 ls post _ step this] until show ?thesis by blast
qed

end
