(* ===== verification/Py_Regex.thy ===== *)
theory Py_Regex
  imports Py_Text
begin

text \<open>
  The part of Python's \<open>re\<close> the source uses: a pattern is a value of \<open>rx\<close> (classes,
  sequence, ordered alternation, greedy star, captured groups and the zero-width tests
  \<open>\b\<close>, \<open>(?<!\w)\<close>, \<open>(?!\w)\<close>, \<open>^\<close>, \<open>$\<close>), and \<open>rx_run\<close> is the backtracking matcher: the list of
  all ways to match from a position, in the order in which \<open>re\<close> would try them.
  \<open>rx_sem\<close> is the declarative meaning and \<open>rx_run_correct\<close> says that the matcher
  computes it.
\<close>

datatype rx =
    Eps
  | Cls "char \<Rightarrow> bool"
  | Seq rx rx
  | Alt rx rx
  | Star rx
  | Grp nat rx
  | WordB
  | NotBehind "char \<Rightarrow> bool"
  | NotAhead "char \<Rightarrow> bool"
  | Bol
  | Eol
  | NotAheadRx rx

text \<open>
  A position: the text before it (reversed), the text after it, and the groups captured so
  far.
\<close>

type_synonym rx_pos = "string \<times> string \<times> (nat \<times> string) list"

fun rest_of :: "rx_pos \<Rightarrow> string" where
  "rest_of (pre, post, caps) = post"

fun pre_of :: "rx_pos \<Rightarrow> string" where
  "pre_of (pre, post, caps) = pre"

fun caps_of :: "rx_pos \<Rightarrow> (nat \<times> string) list" where
  "caps_of (pre, post, caps) = caps"

definition head_is :: "(char \<Rightarrow> bool) \<Rightarrow> string \<Rightarrow> bool" where
  "head_is p s = (case s of [] \<Rightarrow> False | c # _ \<Rightarrow> p c)"

text \<open>The text between two positions of one subject, and the position with a group recorded.\<close>

fun record_group :: "nat \<Rightarrow> rx_pos \<Rightarrow> rx_pos \<Rightarrow> rx_pos" where
  "record_group g (pre, post, caps) (pre', post', caps') =
     (pre', post', (g, rev (take (length pre' - length pre) pre')) # caps')"

text \<open>
  The matcher. A star tries one more round first (greedy), and a round that consumes nothing
  ends it, as in \<open>re\<close>.
\<close>

function rx_run :: "rx \<Rightarrow> rx_pos \<Rightarrow> rx_pos list" where
  "rx_run Eps p = [p]"
| "rx_run (Cls f) p =
     (case p of (pre, [], caps) \<Rightarrow> []
      | (pre, c # post, caps) \<Rightarrow> if f c then [(c # pre, post, caps)] else [])"
| "rx_run (Seq r s) p = concat (map (rx_run s) (rx_run r p))"
| "rx_run (Alt r s) p = rx_run r p @ rx_run s p"
| "rx_run (Star r) p =
     concat (map (\<lambda>q. if length (rest_of q) < length (rest_of p) then rx_run (Star r) q else [])
       (rx_run r p)) @ [p]"
| "rx_run (Grp g r) p = map (record_group g p) (rx_run r p)"
| "rx_run WordB p =
     (case p of (pre, post, caps) \<Rightarrow> if head_is is_word pre \<noteq> head_is is_word post then [p] else [])"
| "rx_run (NotBehind f) p = (case p of (pre, post, caps) \<Rightarrow> if head_is f pre then [] else [p])"
| "rx_run (NotAhead f) p = (case p of (pre, post, caps) \<Rightarrow> if head_is f post then [] else [p])"
| "rx_run Bol p = (case p of (pre, post, caps) \<Rightarrow> if pre = [] then [p] else [])"
| "rx_run Eol p = (case p of (pre, post, caps) \<Rightarrow> if post = [] \<or> post = [char_of (10::nat)] then [p] else [])"
| "rx_run (NotAheadRx r) p = (if rx_run r p = [] then [p] else [])"
  by pat_completeness auto
termination
  by (relation "measure size <*lex*> measure (\<lambda>p. length (rest_of p))") auto


lemmas rx_run_star = rx_run.simps(5)
declare rx_run.simps(5) [simp del]

subsection \<open>The declarative meaning\<close>

inductive rx_sem :: "rx \<Rightarrow> rx_pos \<Rightarrow> rx_pos \<Rightarrow> bool" where
  sem_eps: "rx_sem Eps p p"
| sem_cls: "f c \<Longrightarrow> rx_sem (Cls f) (pre, c # post, caps) (c # pre, post, caps)"
| sem_seq: "rx_sem r p q \<Longrightarrow> rx_sem s q t \<Longrightarrow> rx_sem (Seq r s) p t"
| sem_left: "rx_sem r p q \<Longrightarrow> rx_sem (Alt r s) p q"
| sem_right: "rx_sem s p q \<Longrightarrow> rx_sem (Alt r s) p q"
| sem_done: "rx_sem (Star r) p p"
| sem_more: "rx_sem r p q \<Longrightarrow> length (rest_of q) < length (rest_of p) \<Longrightarrow>
    rx_sem (Star r) q t \<Longrightarrow> rx_sem (Star r) p t"
| sem_grp: "rx_sem r p q \<Longrightarrow> rx_sem (Grp g r) p (record_group g p q)"
| sem_wordb: "head_is is_word pre \<noteq> head_is is_word post \<Longrightarrow>
    rx_sem WordB (pre, post, caps) (pre, post, caps)"
| sem_behind: "\<not> head_is f pre \<Longrightarrow> rx_sem (NotBehind f) (pre, post, caps) (pre, post, caps)"
| sem_ahead: "\<not> head_is f post \<Longrightarrow> rx_sem (NotAhead f) (pre, post, caps) (pre, post, caps)"
| sem_bol: "rx_sem Bol ([], post, caps) ([], post, caps)"
| sem_eol: "post = [] \<or> post = [char_of (10::nat)] \<Longrightarrow>
    rx_sem Eol (pre, post, caps) (pre, post, caps)"
| sem_aheadrx: "rx_run r p = [] \<Longrightarrow> rx_sem (NotAheadRx r) p p"

inductive_cases sem_seqE: "rx_sem (Seq r s) p q"
inductive_cases sem_altE: "rx_sem (Alt r s) p q"
inductive_cases sem_starE: "rx_sem (Star r) p q"
inductive_cases sem_grpE: "rx_sem (Grp g r) p q"
inductive_cases sem_clsE: "rx_sem (Cls f) p q"

inductive_simps sem_simps: "rx_sem Eps p q" "rx_sem WordB p q" "rx_sem (NotBehind f) p q"
  "rx_sem (NotAhead f) p q" "rx_sem Bol p q" "rx_sem Eol p q" "rx_sem (NotAheadRx r) p q"

lemma rx_run_sound: "q \<in> set (rx_run r p) \<Longrightarrow> rx_sem r p q"
proof (induction r p arbitrary: q rule: rx_run.induct)
  case (5 r p)
  from 5(3) consider "q = p"
    | t where "t \<in> set (rx_run r p)" "length (rest_of t) < length (rest_of p)"
        "q \<in> set (rx_run (Star r) t)"
    by (auto simp: rx_run_star [of r p] split: if_splits)
  then show ?case
    by cases (auto intro: sem_done sem_more 5(1) 5(2))
next
  case (2 f p)
  then show ?case by (auto split: prod.splits list.splits if_splits intro: sem_cls)
next
  case (3 r s p)
  from 3(3) obtain t where t: "t \<in> set (rx_run r p)" "q \<in> set (rx_run s t)" by auto
  from 3(1) [OF t(1)] 3(2) [OF t] show ?case by (rule sem_seq)
next
  case (6 g r p)
  then show ?case by (auto intro: sem_grp)
next
  case (4 r s p)
  from 4(3) have "q \<in> set (rx_run r p) \<or> q \<in> set (rx_run s p)" by simp
  then show ?case
    using 4(1) [of q] 4(2) [of q] by (blast intro: sem_left sem_right)
qed (auto intro: rx_sem.intros split: prod.splits if_splits)

lemma rx_run_complete: "rx_sem r p q \<Longrightarrow> q \<in> set (rx_run r p)"
proof (induction rule: rx_sem.induct)
  case (sem_done r p)
  show ?case by (simp add: rx_run_star [of r p])
next
  case (sem_more r p q t)
  then show ?case by (subst rx_run_star) auto
qed auto

theorem rx_run_correct: "q \<in> set (rx_run r p) \<longleftrightarrow> rx_sem r p q"
  using rx_run_sound rx_run_complete by blast

text \<open>A match consumes a prefix of what is left, and never changes the subject.\<close>

fun subject_of :: "rx_pos \<Rightarrow> string" where
  "subject_of (pre, post, caps) = rev pre @ post"

lemma subject_of_eq: "subject_of p = rev (pre_of p) @ rest_of p"
  by (cases p) simp

lemma record_group_pos [simp]:
  "pre_of (record_group g p q) = pre_of q" "rest_of (record_group g p q) = rest_of q"
  "subject_of (record_group g p q) = subject_of q"
  by (cases p; cases q; simp)+

lemma rx_sem_progress:
  "rx_sem r p q \<Longrightarrow> \<exists>w. rest_of p = w @ rest_of q \<and> pre_of q = rev w @ pre_of p"
proof (induction rule: rx_sem.induct)
  case (sem_cls f c pre post caps)
  show ?case by (rule exI [of _ "[c]"]) simp
next
  case (sem_seq r p q s t)
  then obtain v w where "rest_of p = v @ rest_of q" "pre_of q = rev v @ pre_of p"
    "rest_of q = w @ rest_of t" "pre_of t = rev w @ pre_of q" by blast
  then show ?case by (intro exI [of _ "v @ w"]) simp
next
  case (sem_more r p q t)
  then obtain v w where "rest_of p = v @ rest_of q" "pre_of q = rev v @ pre_of p"
    "rest_of q = w @ rest_of t" "pre_of t = rev w @ pre_of q" by blast
  then show ?case by (intro exI [of _ "v @ w"]) simp
qed auto

lemma rx_run_progress:
  assumes "q \<in> set (rx_run r p)"
  obtains w where "rest_of p = w @ rest_of q" "pre_of q = rev w @ pre_of p"
  using rx_sem_progress [OF rx_run_sound [OF assms]] by blast

lemma rx_run_length: "q \<in> set (rx_run r p) \<Longrightarrow> length (rest_of q) \<le> length (rest_of p)"
  by (erule rx_run_progress) simp

lemma rx_run_subject: "q \<in> set (rx_run r p) \<Longrightarrow> subject_of q = subject_of p"
  by (erule rx_run_progress) (simp add: subject_of_eq)

subsection \<open>Searching, finding all, substituting\<close>

text \<open>\<open>re.search\<close>: the leftmost start that matches, its first way; the start and the end position.\<close>

fun rx_search_from :: "rx \<Rightarrow> string \<Rightarrow> string \<Rightarrow> (rx_pos \<times> rx_pos) option" where
  "rx_search_from r pre [] =
     (case rx_run r (pre, [], []) of [] \<Rightarrow> None | q # _ \<Rightarrow> Some ((pre, [], []), q))"
| "rx_search_from r pre (c # post) =
     (case rx_run r (pre, c # post, []) of
        [] \<Rightarrow> rx_search_from r (c # pre) post
      | q # _ \<Rightarrow> Some ((pre, c # post, []), q))"

definition rx_search :: "rx \<Rightarrow> string \<Rightarrow> (rx_pos \<times> rx_pos) option" where
  "rx_search r s = rx_search_from r [] s"

definition rx_found :: "rx \<Rightarrow> string \<Rightarrow> bool" where
  "rx_found r s \<longleftrightarrow> rx_search r s \<noteq> None"

text \<open>\<open>match.group(n)\<close>\<close>

definition rx_group :: "nat \<Rightarrow> rx_pos \<times> rx_pos \<Rightarrow> string option" where
  "rx_group n m = map_of (caps_of (snd m)) n"

text \<open>\<open>re.fullmatch\<close>\<close>

definition rx_fullmatch :: "rx \<Rightarrow> string \<Rightarrow> bool" where
  "rx_fullmatch r s \<longleftrightarrow> (\<exists>q \<in> set (rx_run r ([], s, [])). rest_of q = [])"

text \<open>
  \<open>re.findall\<close> and \<open>re.sub\<close> on patterns that consume: after a match the scan goes on at its
  end. (An empty match is stepped over, keeping the character; the source's patterns are
  never empty.) \<open>count=1\<close> is \<open>rx_sub_once\<close>.
\<close>

function rx_matches :: "rx \<Rightarrow> string \<Rightarrow> string \<Rightarrow> (rx_pos \<times> rx_pos) list" where
  "rx_matches r pre [] =
     (case rx_run r (pre, [], []) of [] \<Rightarrow> [] | q # _ \<Rightarrow> [((pre, [], []), q)])"
| "rx_matches r pre (c # post) =
     (case rx_run r (pre, c # post, []) of
        [] \<Rightarrow> rx_matches r (c # pre) post
      | q # _ \<Rightarrow> ((pre, c # post, []), q) #
          (if length (rest_of q) \<le> length post
           then rx_matches r (pre_of q) (rest_of q)
           else rx_matches r (c # pre) post))"
  by pat_completeness auto
termination by (relation "measure (\<lambda>(r, pre, post). length post)") auto

fun match_text :: "rx_pos \<times> rx_pos \<Rightarrow> string" where
  "match_text ((pre, post, caps), q) = rev (take (length (pre_of q) - length pre) (pre_of q))"

definition rx_findall :: "rx \<Rightarrow> string \<Rightarrow> string list" where
  "rx_findall r s = map match_text (rx_matches r [] s)"

definition rx_findall_group :: "nat \<Rightarrow> rx \<Rightarrow> string \<Rightarrow> string list" where
  "rx_findall_group n r s =
     map (\<lambda>m. case rx_group n m of None \<Rightarrow> [] | Some t \<Rightarrow> t) (rx_matches r [] s)"

function rx_sub_go :: "rx \<Rightarrow> string \<Rightarrow> string \<Rightarrow> string \<Rightarrow> string" where
  "rx_sub_go r repl pre [] =
     (case rx_run r (pre, [], []) of [] \<Rightarrow> [] | _ \<Rightarrow> repl)"
| "rx_sub_go r repl pre (c # post) =
     (case rx_run r (pre, c # post, []) of
        [] \<Rightarrow> c # rx_sub_go r repl (c # pre) post
      | q # _ \<Rightarrow>
          (if length (rest_of q) \<le> length post
           then repl @ rx_sub_go r repl (pre_of q) (rest_of q)
           else repl @ c # rx_sub_go r repl (c # pre) post))"
  by pat_completeness auto
termination by (relation "measure (\<lambda>(r, repl, pre, post). length post)") auto

definition rx_sub :: "rx \<Rightarrow> string \<Rightarrow> string \<Rightarrow> string" where
  "rx_sub r repl s = rx_sub_go r repl [] s"

definition rx_sub_once :: "rx \<Rightarrow> string \<Rightarrow> string \<Rightarrow> string" where
  "rx_sub_once r repl s =
     (case rx_search r s of None \<Rightarrow> s | Some (p, q) \<Rightarrow> rev (pre_of p) @ repl @ rest_of q)"

text \<open>A search succeeds exactly if some position of the subject starts a match.\<close>

lemma rx_search_from_None:
  "rx_search_from r pre s = None \<longleftrightarrow>
     (\<forall>u v. s = u @ v \<longrightarrow> rx_run r (rev u @ pre, v, []) = [])"
proof (induction s arbitrary: pre)
  case Nil
  then show ?case by (simp split: list.splits)
next
  case (Cons c s)
  let ?none = "\<lambda>u v. rx_run r (rev u @ pre, v, []) = []"
  have "(\<forall>u v. c # s = u @ v \<longrightarrow> ?none u v)
      \<longleftrightarrow> ?none [] (c # s) \<and> (\<forall>u v. s = u @ v \<longrightarrow> ?none (c # u) v)" (is "?L \<longleftrightarrow> ?R")
  proof
    assume L: ?L
    have "?none (c # u) v" if "s = u @ v" for u v
      using L [rule_format, of "c # u" v] that by simp
    with L [rule_format, of "[]" "c # s"] show ?R by simp
  next
    assume R: ?R
    have "?none u v" if "c # s = u @ v" for u v
      using R that by (cases u) auto
    then show ?L by blast
  qed
  with Cons show ?case by (simp split: list.splits)
qed

lemma rx_found_iff:
  "rx_found r s \<longleftrightarrow> (\<exists>u v q. s = u @ v \<and> rx_sem r (rev u, v, []) q)"
proof -
  have "rx_found r s \<longleftrightarrow> (\<exists>u v. s = u @ v \<and> rx_run r (rev u, v, []) \<noteq> [])"
    by (auto simp: rx_found_def rx_search_def rx_search_from_None)
  also have "\<dots> \<longleftrightarrow> (\<exists>u v q. s = u @ v \<and> q \<in> set (rx_run r (rev u, v, [])))"
    by (metis list.set_intros(1) neq_Nil_conv set_empty empty_iff)
  finally show ?thesis by (simp add: rx_run_correct)
qed

lemma rx_search_Some:
  "rx_search_from r pre s = Some (p, q) \<Longrightarrow> q \<in> set (rx_run r p) \<and> subject_of p = rev pre @ s"
  by (induction s arbitrary: pre) (auto split: list.splits)

lemma rx_search_run:
  assumes "rx_search r s = Some (p, q)"
  shows "rx_sem r p q" and "subject_of p = s"
  using rx_search_Some [of r "[]" s p q] assms by (auto simp: rx_search_def rx_run_correct)

subsection \<open>Building patterns\<close>

definition rx_opt :: "rx \<Rightarrow> rx" where
  "rx_opt r = Alt r Eps"

definition rx_plus :: "rx \<Rightarrow> rx" where
  "rx_plus r = Seq r (Star r)"

fun rx_seq :: "rx list \<Rightarrow> rx" where
  "rx_seq [] = Eps"
| "rx_seq [r] = r"
| "rx_seq (r # s # rs) = Seq r (rx_seq (s # rs))"

fun rx_alt :: "rx list \<Rightarrow> rx" where
  "rx_alt [] = Cls (\<lambda>_. False)"
| "rx_alt [r] = r"
| "rx_alt (r # s # rs) = Alt r (rx_alt (s # rs))"

text \<open>\<open>r{0,n}\<close>\<close>

fun rx_upto :: "nat \<Rightarrow> rx \<Rightarrow> rx" where
  "rx_upto 0 r = Eps"
| "rx_upto (Suc n) r = rx_opt (Seq r (rx_upto n r))"

definition lit :: "string \<Rightarrow> rx" where
  "lit s = rx_seq (map (\<lambda>c. Cls (\<lambda>d. d = c)) s)"

text \<open>A literal under \<open>re.IGNORECASE\<close>.\<close>

definition lit_i :: "string \<Rightarrow> rx" where
  "lit_i s = rx_seq (map (\<lambda>c. Cls (\<lambda>d. fold_char d = fold_char c)) s)"

definition lits :: "string list \<Rightarrow> rx" where
  "lits ws = rx_alt (map lit ws)"

definition lits_i :: "string list \<Rightarrow> rx" where
  "lits_i ws = rx_alt (map lit_i ws)"

definition rx_sp :: rx where "rx_sp = rx_plus (Cls is_space)"
definition rx_sp0 :: rx where "rx_sp0 = Star (Cls is_space)"
definition rx_digits :: rx where "rx_digits = rx_plus (Cls is_digit)"
definition rx_alnum_run :: rx where "rx_alnum_run = rx_plus (Cls is_alnum)"

text \<open>\<open>\d+(?:\.\d+)?\<close>, the number of the price patterns\<close>

definition rx_number :: rx where
  "rx_number = Seq rx_digits (rx_opt (Seq (lit ''.'') rx_digits))"

text \<open>\<open>(?<!\w) r (?!\w)\<close>: a whole word or phrase\<close>

definition rx_whole :: "rx \<Rightarrow> rx" where
  "rx_whole r = rx_seq [NotBehind is_word, r, NotAhead is_word]"

text \<open>\<open>re.findall(r"[^\W_]+", s)\<close>\<close>

definition word_tokens :: "string \<Rightarrow> string list" where
  "word_tokens s = rx_findall rx_alnum_run s"

end
