(* ===== verification/Bm25.thy ===== *)
theory Bm25
  imports Py_Value Py_Regex
begin

text \<open>
  The persistent lexical index of \<open>search/bm25.py\<close>. The SQLite database is a state: the rows
  of \<open>products\<close> in rowid order, the external-content FTS table the triggers maintain, the
  revision counter and the next rowid. Every statement of the source is a function on it,
  including the triggers, the upsert's change test, the WHERE clauses and the ORDER BY keys.
  The FTS5 match and its \<open>bm25()\<close> rank are an argument. Column affinity conversions of SQLite
  are not modelled: values are compared as Python compares them.
\<close>

named_theorems index_facts \<open>facts of the lexical index\<close>

definition FILTER_COLUMNS :: "string list" where
  "FILTER_COLUMNS = [''main_category_name'', ''subcategory_name'', ''state_name'', ''city_name'',
     ''locality_name'', ''rental_duration'']"

definition OPTIONAL_PRODUCT_COLUMNS :: "string list" where
  "OPTIONAL_PRODUCT_COLUMNS = [''main_category_id'', ''subcategory_id'', ''state_id'', ''city_id'',
     ''locality_id'', ''ad_type'', ''is_rent_negotiable'', ''user_gender'',
     ''user_is_aadhaar_gst_verified'']"

definition STRUCTURED_FILTER_COLUMNS :: "string list" where
  "STRUCTURED_FILTER_COLUMNS = [''main_category_name'', ''subcategory_name'', ''state_name'',
     ''city_name'', ''locality_name'', ''rental_duration'', ''main_category_id'', ''subcategory_id'',
     ''state_id'', ''city_id'', ''locality_id'', ''ad_type'', ''is_rent_negotiable'', ''user_gender'',
     ''user_is_aadhaar_gst_verified'']"

definition tokenize_query :: "string \<Rightarrow> string list" where
  "tokenize_query text = dedup (word_tokens (casefold text))"

subsection \<open>The database\<close>

text \<open>
  A row of \<open>products\<close>: the six name columns and the nine optional integer columns are in
  \<open>attrs\<close>, by column name; SQL's NULL is \<open>VNone\<close> there and \<open>None\<close> for the fee.
\<close>

record product =
  rowid :: nat
  doc_id :: string
  product_id :: string
  content :: string
  rental_fee :: "pyfloat option"
  attrs :: pydict

record bm25_index =
  products :: "product list"
  products_fts :: "(nat \<times> string) list"
  revision :: nat
  next_rowid :: nat

definition empty_index :: bm25_index where
  "empty_index = \<lparr>products = [], products_fts = [], revision = 0, next_rowid = 1\<rparr>"

definition attr_columns :: "string list" where
  "attr_columns = FILTER_COLUMNS @ OPTIONAL_PRODUCT_COLUMNS"

definition column :: "product \<Rightarrow> string \<Rightarrow> pyval" where
  "column p c = dget (attrs p) c"

text \<open>The triggers \<open>products_ai\<close>, \<open>products_ad\<close>, \<open>products_au\<close>.\<close>

definition trigger_ai :: "product \<Rightarrow> bm25_index \<Rightarrow> bm25_index" where
  "trigger_ai new ix = ix\<lparr>products_fts := products_fts ix @ [(rowid new, content new)]\<rparr>"

definition trigger_ad :: "product \<Rightarrow> bm25_index \<Rightarrow> bm25_index" where
  "trigger_ad old ix = ix\<lparr>products_fts := remove1 (rowid old, content old) (products_fts ix)\<rparr>"

definition trigger_au :: "product \<Rightarrow> product \<Rightarrow> bm25_index \<Rightarrow> bm25_index" where
  "trigger_au old new ix = trigger_ai new (trigger_ad old ix)"

definition increment_revision :: "bm25_index \<Rightarrow> bm25_index" where
  "increment_revision ix = ix\<lparr>revision := Suc (revision ix)\<rparr>"

definition index_count :: "bm25_index \<Rightarrow> nat" where
  "index_count ix = length (products ix)"

definition doc_ids :: "bm25_index \<Rightarrow> string set" where
  "doc_ids ix = set (map doc_id (products ix))"

subsection \<open>Writing\<close>

text \<open>An incoming row: the bound parameters of the INSERT, in column order.\<close>

record incoming =
  in_doc_id :: string
  in_product_id :: string
  in_content :: string
  in_rental_fee :: "pyfloat option"
  in_attrs :: pydict

text \<open>\<open>row.get(column)\<close> for each attribute column, a missing key as NULL, a boolean as an integer.\<close>

definition bind_value :: "pyval \<Rightarrow> pyval" where
  "bind_value v = (case v of VBool b \<Rightarrow> VInt (if b then 1 else 0) | _ \<Rightarrow> v)"

definition bind_attrs :: "pydict \<Rightarrow> pydict" where
  "bind_attrs row = map (\<lambda>c. (c, bind_value (dget row c))) attr_columns"

definition product_of :: "nat \<Rightarrow> incoming \<Rightarrow> product" where
  "product_of n r = \<lparr>rowid = n, doc_id = in_doc_id r, product_id = in_product_id r,
     content = in_content r, rental_fee = in_rental_fee r, attrs = bind_attrs (in_attrs r)\<rparr>"

text \<open>\<open>INSERT ... ON CONFLICT(doc_id) DO UPDATE SET ... WHERE products.x IS NOT excluded.x OR ...\<close>\<close>

definition upsert_one :: "incoming \<Rightarrow> bm25_index \<Rightarrow> bool \<times> bm25_index" where
  "upsert_one r ix =
     (case find (\<lambda>p. doc_id p = in_doc_id r) (products ix) of
        None \<Rightarrow>
          (let new = product_of (next_rowid ix) r in
           (True, trigger_ai new (ix\<lparr>products := products ix @ [new],
              next_rowid := Suc (next_rowid ix)\<rparr>)))
      | Some old \<Rightarrow>
          (let new = product_of (rowid old) r in
           if new = old then (False, ix)
           else (True, trigger_au old new (ix\<lparr>products :=
              map (\<lambda>p. if doc_id p = in_doc_id r then new else p) (products ix)\<rparr>))))"

fun upsert_all :: "incoming list \<Rightarrow> bm25_index \<Rightarrow> bool \<times> bm25_index" where
  "upsert_all [] ix = (False, ix)"
| "upsert_all (r # rs) ix =
     (case upsert_one r ix of (ch, ix1) \<Rightarrow>
        (case upsert_all rs ix1 of (ch', ix2) \<Rightarrow> (ch \<or> ch', ix2)))"

definition upsert :: "incoming list \<Rightarrow> bm25_index \<Rightarrow> bm25_index" where
  "upsert rows ix =
     (if rows = [] then ix
      else (case upsert_all rows ix of (changed, ix') \<Rightarrow>
              if changed then increment_revision ix' else ix'))"

text \<open>\<open>DELETE FROM products WHERE ...\<close>: the rows go, and the delete trigger runs for each.\<close>

definition delete_where :: "(product \<Rightarrow> bool) \<Rightarrow> bm25_index \<Rightarrow> nat \<times> bm25_index" where
  "delete_where q ix =
     (let gone = filter q (products ix) in
      (length gone,
       fold trigger_ad gone (ix\<lparr>products := filter (\<lambda>p. \<not> q p) (products ix)\<rparr>)))"

definition clear_index :: "bm25_index \<Rightarrow> bm25_index" where
  "clear_index ix = increment_revision (snd (delete_where (\<lambda>_. True) ix))"

text \<open>Batches of 500 placeholders.\<close>

function delete_batches :: "string list \<Rightarrow> bm25_index \<Rightarrow> nat \<times> bm25_index" where
  "delete_batches [] ix = (0, ix)"
| "delete_batches (d # ds) ix =
     (let batch = take 500 (d # ds) in
      case delete_where (\<lambda>p. doc_id p \<in> set batch) ix of (n, ix1) \<Rightarrow>
        (case delete_batches (drop 500 (d # ds)) ix1 of (m, ix2) \<Rightarrow> (n + m, ix2)))"
  by pat_completeness auto
termination by (relation "measure (length \<circ> fst)") auto

definition delete_doc_ids :: "string list \<Rightarrow> bm25_index \<Rightarrow> nat \<times> bm25_index" where
  "delete_doc_ids ids ix =
     (let unique = sort (dedup ids) in
      if unique = [] then (0, ix)
      else (case delete_batches unique ix of (n, ix') \<Rightarrow>
              (n, if n \<noteq> 0 then increment_revision ix' else ix')))"

subsection \<open>The catalogue indexes\<close>

text \<open>\<open>WHERE c IS NOT NULL AND TRIM(c) <> ''\<close>; SQL's TRIM removes blanks only.\<close>

definition present :: "pyval \<Rightarrow> bool" where
  "present v \<longleftrightarrow> (case v of VNone \<Rightarrow> False | VStr s \<Rightarrow> strip_char (CHR '' '') s \<noteq> [] | _ \<Rightarrow> True)"

definition norm_name :: "pyval \<Rightarrow> string" where
  "norm_name v = norm_text (py_str v)"

text \<open>\<open>SELECT DISTINCT\<close>, taken in the order of first appearance.\<close>

definition filter_value_index :: "bm25_index \<Rightarrow> (string \<times> (string, pyval) dict) list" where
  "filter_value_index ix =
     map (\<lambda>c. (c, fold (\<lambda>v d. AList.update (norm_name v) v d)
                (dedup (filter present (map (\<lambda>p. column p c) (products ix)))) [])) FILTER_COLUMNS"

text \<open>\<open>candidates.setdefault(k, set()).add(v)\<close>\<close>

definition add_to_set :: "'k \<Rightarrow> 'v \<Rightarrow> ('k, 'v list) dict \<Rightarrow> ('k, 'v list) dict" where
  "add_to_set k v d = (case map_of d k of
     None \<Rightarrow> AList.update k [v] d
   | Some vs \<Rightarrow> if v \<in> set vs then d else AList.update k (vs @ [v]) d)"

text \<open>The entries with exactly one value.\<close>

definition singletons :: "('k, 'v list) dict \<Rightarrow> ('k, 'v) dict" where
  "singletons d = List.map_filter (\<lambda>(k, vs). case vs of [v] \<Rightarrow> Some (k, v) | _ \<Rightarrow> None) d"

definition category_ids :: "string \<Rightarrow> string \<Rightarrow> bm25_index \<Rightarrow> (string, int) dict" where
  "category_ids name_column id_column ix =
     singletons (fold (\<lambda>(n, i) d. add_to_set n i d)
       (List.map_filter (\<lambda>p. if present (column p name_column) \<and> column p id_column \<noteq> VNone
          then map_option (\<lambda>i. (norm_name (column p name_column), i)) (to_int (column p id_column))
          else None) (products ix)) [])"

definition category_id_index :: "bm25_index \<Rightarrow> (string \<times> (string, int) dict) list" where
  "category_id_index ix =
     [(''main_category_name'', category_ids ''main_category_name'' ''main_category_id'' ix),
      (''subcategory_name'', category_ids ''subcategory_name'' ''subcategory_id'' ix)]"

definition relationship_rows :: "string \<Rightarrow> string list \<Rightarrow> bm25_index \<Rightarrow> (string \<times> pyval list) list" where
  "relationship_rows child parents ix =
     map (\<lambda>p. (norm_name (column p child), map (column p) parents))
       (filter (\<lambda>p. \<forall>c \<in> set (child # parents). present (column p c)) (products ix))"

definition unique_relationship_index ::
    "string \<Rightarrow> string list \<Rightarrow> bm25_index \<Rightarrow> py_error + (string, pyval list) dict" where
  "unique_relationship_index child parents ix =
     (if child \<notin> set FILTER_COLUMNS \<or> \<not> set parents \<subseteq> set FILTER_COLUMNS
      then Inl (ValueError ''Unsupported BM25 relationship column'')
      else Inr (singletons (fold (\<lambda>(k, v) d. add_to_set k v d)
             (relationship_rows child parents ix) [])))"

definition unique_or_empty :: "py_error + (string, pyval list) dict \<Rightarrow> (string, pyval list) dict" where
  "unique_or_empty r = (case r of Inl _ \<Rightarrow> [] | Inr d \<Rightarrow> d)"

definition subcategory_parent_index :: "bm25_index \<Rightarrow> (string, pyval) dict" where
  "subcategory_parent_index ix = map (\<lambda>(k, vs). (k, hd vs))
     (unique_or_empty (unique_relationship_index ''subcategory_name'' [''main_category_name''] ix))"

definition city_state_index :: "bm25_index \<Rightarrow> (string, pyval) dict" where
  "city_state_index ix = map (\<lambda>(k, vs). (k, hd vs))
     (unique_or_empty (unique_relationship_index ''city_name'' [''state_name''] ix))"

definition locality_location_index :: "bm25_index \<Rightarrow> (string, pydict) dict" where
  "locality_location_index ix = map (\<lambda>(k, vs). (k, [(''city'', vs ! 0), (''state'', vs ! 1)]))
     (unique_or_empty (unique_relationship_index ''locality_name'' [''city_name'', ''state_name''] ix))"

subsection \<open>Filters\<close>

text \<open>The resolved filters: categorical values by column, and the price bounds.\<close>

record filters =
  categorical :: pydict
  min_fee :: "pyfloat option"
  max_fee :: "pyfloat option"

text \<open>\<open>column = ?\<close> and \<open>column IN (...)\<close>: never true of NULL; an empty list adds no condition.\<close>

definition sql_eq :: "pyval \<Rightarrow> pyval \<Rightarrow> bool" where
  "sql_eq a b \<longleftrightarrow> a \<noteq> VNone \<and> b \<noteq> VNone \<and> py_eq a b"

definition filter_condition :: "pyval \<Rightarrow> pyval \<Rightarrow> bool" where
  "filter_condition expected actual =
     (case expected of
        VList values \<Rightarrow> values = [] \<or> list_ex (sql_eq actual) (dedup values)
      | _ \<Rightarrow> sql_eq actual expected)"

definition price_condition :: "pyfloat \<Rightarrow> filters \<Rightarrow> bool \<Rightarrow> pyfloat option \<Rightarrow> bool" where
  "price_condition ceil fs include_unpriced fee =
     (if min_fee fs = None \<and> max_fee fs = None then True
      else (let priced = (case fee of None \<Rightarrow> False
                 | Some f \<Rightarrow> ceil < f
                     \<and> (case min_fee fs of None \<Rightarrow> True | Some m \<Rightarrow> m \<le> f)
                     \<and> (case max_fee fs of None \<Rightarrow> True | Some m \<Rightarrow> f \<le> m))
            in if include_unpriced
               then (case fee of None \<Rightarrow> True | Some f \<Rightarrow> f \<le> ceil) \<or> priced
               else priced))"

definition row_matches :: "pyfloat \<Rightarrow> filters \<Rightarrow> bool \<Rightarrow> product \<Rightarrow> bool" where
  "row_matches ceil fs include_unpriced p \<longleftrightarrow>
     (\<forall>(c, v) \<in> set (categorical fs). c \<in> set STRUCTURED_FILTER_COLUMNS \<longrightarrow>
        filter_condition v (column p c))
     \<and> price_condition ceil fs include_unpriced (rental_fee p)"

subsection \<open>search and browse\<close>

record lexical_hit =
  hit_doc_id :: string
  hit_product_id :: string
  hit_content :: string
  hit_metadata :: pydict
  hit_score :: pyfloat

definition hit_of :: "product \<Rightarrow> pyfloat \<Rightarrow> lexical_hit" where
  "hit_of p rank = \<lparr>hit_doc_id = doc_id p, hit_product_id = product_id p, hit_content = content p,
     hit_metadata = filter (\<lambda>(c, v). v \<noteq> VNone) (map (\<lambda>c. (c, column p c)) attr_columns),
     hit_score = - rank\<rparr>"

text \<open>
  \<open>fts\<close> is FTS5: given the indexed texts and the query's tokens, the rank of each matching
  rowid (smaller is better), \<open>None\<close> where the row does not match.
\<close>

type_synonym fts_engine = "(nat \<times> string) list \<Rightarrow> string list \<Rightarrow> nat \<Rightarrow> pyfloat option"

definition index_search ::
    "fts_engine \<Rightarrow> pyfloat \<Rightarrow> string \<Rightarrow> filters \<Rightarrow> int \<Rightarrow> bool \<Rightarrow> bm25_index \<Rightarrow> lexical_hit list" where
  "index_search fts ceil query fs top_k include_unpriced ix =
     (let tokens = tokenize_query query in
      if tokens = [] \<or> top_k \<le> 0 then []
      else (let rank = fts (products_fts ix) tokens;
                matching = List.map_filter (\<lambda>p. map_option (\<lambda>r. (p, r)) (rank (rowid p)))
                  (filter (row_matches ceil fs include_unpriced) (products ix))
            in map (\<lambda>(p, r). hit_of p r) (take (nat top_k) (sort_key snd matching))))"

datatype sort_order = PriceAsc | PriceDesc

text \<open>The ORDER BY keys of browse; NULL sorts below every number.\<close>

definition unpriced :: "pyfloat \<Rightarrow> product \<Rightarrow> bool" where
  "unpriced ceil p \<longleftrightarrow> (case rental_fee p of None \<Rightarrow> True | Some f \<Rightarrow> f \<le> ceil)"

definition price_key :: "pyfloat \<Rightarrow> bool \<Rightarrow> product \<Rightarrow> bool \<times> bool \<times> pyfloat \<times> int" where
  "price_key ceil descending p =
     (unpriced ceil p, rental_fee p = None,
      (case rental_fee p of None \<Rightarrow> 0 | Some f \<Rightarrow> if descending then - f else f),
      - int (rowid p))"

definition verified_key :: "product \<Rightarrow> bool \<times> pyfloat \<times> int" where
  "verified_key p =
     (case num_of (column p ''user_is_aadhaar_gst_verified'') of
        None \<Rightarrow> (True, 0, - int (rowid p))
      | Some v \<Rightarrow> (False, - v, - int (rowid p)))"

definition browse_order :: "pyfloat \<Rightarrow> sort_order option \<Rightarrow> product list \<Rightarrow> product list" where
  "browse_order ceil order ps =
     (case order of
        None \<Rightarrow> sort_key verified_key ps
      | Some PriceAsc \<Rightarrow> sort_key (price_key ceil False) ps
      | Some PriceDesc \<Rightarrow> sort_key (price_key ceil True) ps)"

text \<open>\<open>existing is not None and existing != value\<close> ends the browse; otherwise the value is set.\<close>

fun add_category_filters :: "(string \<times> pyval) list \<Rightarrow> pydict \<Rightarrow> pydict option" where
  "add_category_filters [] cat = Some cat"
| "add_category_filters ((c, v) # rest) cat =
     (if c \<notin> set FILTER_COLUMNS then add_category_filters rest cat
      else if dget cat c \<noteq> VNone \<and> \<not> py_eq (dget cat c) v then None
      else add_category_filters rest (AList.update c v cat))"

record browse_request =
  br_filters :: filters
  br_category :: "(string \<times> pyval) list"
  br_exclude :: "string list"
  br_sort :: "string option"
  br_unpriced :: bool

text \<open>\<open>None\<close> is the unsupported order that raises.\<close>

definition parse_sort :: "string option \<Rightarrow> sort_order option option" where
  "parse_sort order =
     (case order of
        None \<Rightarrow> Some None
      | Some t \<Rightarrow> if t = ''price_asc'' then Some (Some PriceAsc)
                  else if t = ''price_desc'' then Some (Some PriceDesc) else None)"

definition browse_all :: "pyfloat \<Rightarrow> sort_order option \<Rightarrow> browse_request \<Rightarrow> bm25_index \<Rightarrow> product list" where
  "browse_all ceil order rq ix =
     (case add_category_filters (br_category rq) (categorical (br_filters rq)) of
        None \<Rightarrow> []
      | Some cat \<Rightarrow> browse_order ceil order
          (filter (\<lambda>p. row_matches ceil ((br_filters rq)\<lparr>categorical := cat\<rparr>) (br_unpriced rq) p
              \<and> doc_id p \<notin> set (br_exclude rq)) (products ix)))"

definition browse ::
    "pyfloat \<Rightarrow> browse_request \<Rightarrow> int \<Rightarrow> int \<Rightarrow> bm25_index \<Rightarrow> py_error + (string \<times> string) list" where
  "browse ceil rq top_k offset ix =
     (if top_k \<le> 0 \<or> offset < 0 then Inr []
      else (case parse_sort (br_sort rq) of
          None \<Rightarrow> Inl (ValueError (''Unsupported browse sort order: ''
                    @ (case br_sort rq of None \<Rightarrow> ''None'' | Some t \<Rightarrow> t)))
        | Some order \<Rightarrow> Inr (map (\<lambda>p. (doc_id p, product_id p))
            (take (nat top_k) (drop (nat offset) (browse_all ceil order rq ix))))))"

subsection \<open>The index invariant\<close>

definition index_ok :: "bm25_index \<Rightarrow> bool" where
  "index_ok ix \<longleftrightarrow> distinct (map doc_id (products ix)) \<and> distinct (map rowid (products ix))
     \<and> (\<forall>p \<in> set (products ix). rowid p < next_rowid ix)
     \<and> mset (products_fts ix) = mset (map (\<lambda>p. (rowid p, content p)) (products ix))"

lemma empty_index_ok: "index_ok empty_index"
  by (simp add: index_ok_def empty_index_def)

lemma trigger_simps [simp]:
  "products (trigger_ai p ix) = products ix" "products (trigger_ad p ix) = products ix"
  "products (trigger_au p q ix) = products ix"
  "revision (trigger_ai p ix) = revision ix" "revision (trigger_ad p ix) = revision ix"
  "revision (trigger_au p q ix) = revision ix"
  "next_rowid (trigger_ai p ix) = next_rowid ix" "next_rowid (trigger_ad p ix) = next_rowid ix"
  "next_rowid (trigger_au p q ix) = next_rowid ix"
  by (simp_all add: trigger_ai_def trigger_ad_def trigger_au_def)

lemma trigger_fts [simp]:
  "products_fts (trigger_ai p ix) = products_fts ix @ [(rowid p, content p)]"
  "products_fts (trigger_ad p ix) = remove1 (rowid p, content p) (products_fts ix)"
  "products_fts (trigger_au p q ix) =
    remove1 (rowid p, content p) (products_fts ix) @ [(rowid q, content q)]"
  by (simp_all add: trigger_ai_def trigger_ad_def trigger_au_def)

lemma increment_simps [simp]:
  "products (increment_revision ix) = products ix"
  "revision (increment_revision ix) = Suc (revision ix)"
  "index_ok (increment_revision ix) = index_ok ix"
  by (simp_all add: increment_revision_def index_ok_def)

text \<open>Replacing the one row with a given document id.\<close>

lemma map_replace_split:
  assumes "distinct (map f xs)" and "x \<in> set xs"
  obtains us vs where "xs = us @ x # vs" "map (\<lambda>y. if f y = f x then z else y) xs = us @ z # vs"
proof -
  obtain us vs where xs: "xs = us @ x # vs" using assms(2) by (metis split_list)
  have "f y \<noteq> f x" if "y \<in> set us \<union> set vs" for y
    using assms(1) xs that by (auto simp: image_iff)
  then have "map (\<lambda>y. if f y = f x then z else y) us = us"
    "map (\<lambda>y. if f y = f x then z else y) vs = vs"
    by (auto intro!: map_idI)
  then show ?thesis using that xs by simp
qed

lemma find_doc:
  "find (\<lambda>p. doc_id p = d) ps = Some old \<Longrightarrow> old \<in> set ps \<and> doc_id old = d"
  by (auto simp: find_Some_iff)

lemma product_of_simps [simp]:
  "rowid (product_of n r) = n" "doc_id (product_of n r) = in_doc_id r"
  "content (product_of n r) = in_content r" "rental_fee (product_of n r) = in_rental_fee r"
  "product_id (product_of n r) = in_product_id r" "attrs (product_of n r) = bind_attrs (in_attrs r)"
  by (simp_all add: product_of_def)

lemma upsert_one_ok:
  assumes "index_ok ix"
  shows "index_ok (snd (upsert_one r ix))"
proof (cases "find (\<lambda>p. doc_id p = in_doc_id r) (products ix)")
  case None
  have fresh: "in_doc_id r \<notin> doc_id ` set (products ix)"
    using None by (auto simp: find_None_iff)
  have "snd (upsert_one r ix) = trigger_ai (product_of (next_rowid ix) r)
      (ix\<lparr>products := products ix @ [product_of (next_rowid ix) r],
         next_rowid := Suc (next_rowid ix)\<rparr>)"
    by (simp only: upsert_one_def None Let_def option.case snd_conv)
  moreover have "next_rowid ix \<notin> rowid ` set (products ix)"
    using assms by (auto simp: index_ok_def)
  ultimately show ?thesis using assms fresh by (auto simp: index_ok_def less_Suc_eq)
next
  case (Some old)
  let ?new = "product_of (rowid old) r"
  have old: "old \<in> set (products ix)" "doc_id old = in_doc_id r" using find_doc [OF Some] by auto
  show ?thesis
  proof (cases "?new = old")
    case True
    then show ?thesis using Some assms by (simp add: upsert_one_def Let_def)
  next
    case False
    have dist: "distinct (map doc_id (products ix))" using assms by (simp add: index_ok_def)
    obtain us vs where parts: "products ix = us @ old # vs"
      "map (\<lambda>p. if doc_id p = doc_id old then ?new else p) (products ix) = us @ ?new # vs"
      by (rule map_replace_split [OF dist old(1), where z = "?new"])
    have upd: "snd (upsert_one r ix) = trigger_au old ?new (ix\<lparr>products := us @ ?new # vs\<rparr>)"
      using Some False parts(2) old(2) by (simp add: upsert_one_def Let_def)
    show ?thesis using assms old(2) unfolding upd index_ok_def
      by (auto simp: parts(1))
  qed
qed

lemma upsert_one_unchanged: "upsert_one r ix = (False, ix') \<Longrightarrow> ix' = ix"
  by (auto simp: upsert_one_def Let_def split: option.splits if_splits)

lemma upsert_one_revision [simp]: "revision (snd (upsert_one r ix)) = revision ix"
  by (auto simp: upsert_one_def Let_def split: option.splits)

lemma upsert_all_ok:
  "index_ok ix \<Longrightarrow> upsert_all rs ix = (ch, ix') \<Longrightarrow>
    index_ok ix' \<and> revision ix' = revision ix \<and> (\<not> ch \<longrightarrow> ix' = ix)"
proof (induction rs arbitrary: ix ch ix')
  case (Cons r rs)
  obtain c1 ix1 where one: "upsert_one r ix = (c1, ix1)" by (metis prod.exhaust)
  obtain c2 ix2 where rest: "upsert_all rs ix1 = (c2, ix2)" by (metis prod.exhaust)
  have ix1: "index_ok ix1" "revision ix1 = revision ix"
    using upsert_one_ok [OF Cons.prems(1), of r] upsert_one_revision [of r ix] one by auto
  have "c1 \<or> ix1 = ix" using upsert_one_unchanged [of r ix ix1] one by (cases c1) auto
  with Cons.IH [OF ix1(1) rest] ix1(2) Cons.prems(2) one rest show ?case by auto
qed simp

lemma fold_trigger_ad [simp]:
  "products (fold trigger_ad gone ix) = products ix"
  "revision (fold trigger_ad gone ix) = revision ix"
  "next_rowid (fold trigger_ad gone ix) = next_rowid ix"
  by (induction gone arbitrary: ix) auto

lemma fold_trigger_ad_fts:
  "mset (products_fts (fold trigger_ad gone ix))
    = mset (products_fts ix) - mset (map (\<lambda>p. (rowid p, content p)) gone)"
  by (induction gone arbitrary: ix) (auto simp: diff_diff_add_mset)

lemma mset_map_filter_diff:
  "mset (map f ps) - mset (map f (filter q ps)) = mset (map f (filter (\<lambda>p. \<not> q p) ps))"
proof -
  have "mset (map f ps) = mset (map f (filter q ps)) + mset (map f (filter (\<lambda>p. \<not> q p) ps))"
    by (induction ps) auto
  then show ?thesis by simp
qed

lemma delete_where_ok:
  assumes "index_ok ix"
  shows "index_ok (snd (delete_where q ix))"
  using assms
  by (auto simp: index_ok_def delete_where_def Let_def fold_trigger_ad_fts distinct_map_filter
      mset_map_filter_diff simp del: mset_map)

lemma delete_batches_ok:
  "index_ok ix \<Longrightarrow> delete_batches ds ix = (n, ix') \<Longrightarrow> index_ok ix' \<and> revision ix' = revision ix"
proof (induction ds ix arbitrary: n ix' rule: delete_batches.induct)
  case (2 d ds ix)
  let ?batch = "take 500 (d # ds)"
  obtain k ix1 where del: "delete_where (\<lambda>p. doc_id p \<in> set ?batch) ix = (k, ix1)"
    by (metis prod.exhaust)
  obtain m ix2 where rest: "delete_batches (drop 500 (d # ds)) ix1 = (m, ix2)"
    by (metis prod.exhaust)
  have ix1: "index_ok ix1" "revision ix1 = revision ix"
    using delete_where_ok [OF 2(2), of "\<lambda>p. doc_id p \<in> set ?batch"] del
    by (auto simp: delete_where_def Let_def)
  have "ix' = ix2" using 2(3) del rest by (simp del: take_Suc_Cons drop_Suc_Cons)
  with 2(1) [OF refl del [symmetric] ix1(1) rest] ix1(2) show ?case by simp
qed simp

lemma delete_where_simps [simp]:
  "fst (delete_where q ix) = length (filter q (products ix))"
  "products (snd (delete_where q ix)) = filter (\<lambda>p. \<not> q p) (products ix)"
  "revision (snd (delete_where q ix)) = revision ix"
  by (simp_all add: delete_where_def Let_def)

lemma filter_two_steps:
  assumes "D = A \<union> B"
  shows "filter (\<lambda>p. f p \<notin> B) (filter (\<lambda>p. \<not> f p \<in> A) ps) = filter (\<lambda>p. f p \<notin> D) ps"
    and "length (filter (\<lambda>p. f p \<in> A) ps) + length (filter (\<lambda>p. f p \<in> B) (filter (\<lambda>p. \<not> f p \<in> A) ps))
      = length (filter (\<lambda>p. f p \<in> D) ps)"
  unfolding assms by (induction ps) auto

lemma delete_batches_rows:
  "delete_batches ds ix = (n, ix') \<Longrightarrow>
    products ix' = filter (\<lambda>p. doc_id p \<notin> set ds) (products ix)
    \<and> n = length (filter (\<lambda>p. doc_id p \<in> set ds) (products ix))
    \<and> revision ix' = revision ix"
proof (induction ds ix arbitrary: n ix' rule: delete_batches.induct)
  case (2 d ds ix)
  let ?batch = "take 500 (d # ds)"
  let ?later = "drop 500 (d # ds)"
  let ?q = "\<lambda>p. doc_id p \<in> set ?batch"
  obtain m ix2 where rest: "delete_batches ?later (snd (delete_where ?q ix)) = (m, ix2)"
    by (metis prod.exhaust)
  have ix': "ix' = ix2" "n = length (filter ?q (products ix)) + m"
    using 2(2) rest
    by (auto simp: case_prod_beta' simp del: take_Suc_Cons drop_Suc_Cons)
  have IH: "products ix2 = filter (\<lambda>p. doc_id p \<notin> set ?later) (filter (\<lambda>p. \<not> ?q p) (products ix))"
    "m = length (filter (\<lambda>p. doc_id p \<in> set ?later) (filter (\<lambda>p. \<not> ?q p) (products ix)))"
    "revision ix2 = revision ix"
    using 2(1) [OF refl surjective_pairing [symmetric] rest] by (simp_all del: take_Suc_Cons drop_Suc_Cons)
  have ids: "set (d # ds) = set ?batch \<union> set ?later"
    by (metis append_take_drop_id set_append)
  show ?case using IH ix' filter_two_steps [OF ids, where f = doc_id and ps = "products ix"]
    by (simp only: simp_thms)
qed simp

subsection \<open>Operation sequences and the revision counter\<close>

datatype index_op = UpsertRows "incoming list" | DeleteIds "string list" | ClearAll

fun apply_op :: "index_op \<Rightarrow> bm25_index \<Rightarrow> bm25_index" where
  "apply_op (UpsertRows rows) ix = upsert rows ix"
| "apply_op (DeleteIds ids) ix = snd (delete_doc_ids ids ix)"
| "apply_op ClearAll ix = clear_index ix"

text \<open>
  What a reader that caches by revision relies on: operations keep the invariant, the counter
  never falls, and it moves whenever the content does.
\<close>

locale revisioned_store =
  fixes op :: "'op \<Rightarrow> 's \<Rightarrow> 's" and ok :: "'s \<Rightarrow> bool" and cont :: "'s \<Rightarrow> 'c" and rev_of :: "'s \<Rightarrow> nat"
  assumes op_ok: "ok s \<Longrightarrow> ok (op a s)"
    and op_mono: "ok s \<Longrightarrow> rev_of s \<le> rev_of (op a s)"
    and op_changed: "ok s \<Longrightarrow> rev_of (op a s) = rev_of s \<Longrightarrow> cont (op a s) = cont s"
begin

lemma run_ok: "ok s \<Longrightarrow> ok (fold op as s) \<and> rev_of s \<le> rev_of (fold op as s)"
  by (induction as arbitrary: s) (auto intro: op_ok le_trans [OF op_mono])

lemma same_revision_same_content:
  "ok s \<Longrightarrow> rev_of (fold op as s) = rev_of s \<Longrightarrow> cont (fold op as s) = cont s"
proof (induction as arbitrary: s)
  case (Cons a as)
  have "rev_of s \<le> rev_of (op a s)" "rev_of (op a s) \<le> rev_of (fold op as (op a s))"
    using run_ok [OF op_ok [OF Cons.prems(1)]] op_mono [OF Cons.prems(1)] by auto
  then have eq: "rev_of (op a s) = rev_of s" "rev_of (fold op as (op a s)) = rev_of (op a s)"
    using Cons.prems(2) by auto
  show ?case
    using Cons.IH [OF op_ok [OF Cons.prems(1)] eq(2)] op_changed [OF Cons.prems(1) eq(1)] by simp
qed simp

end

lemma upsert_ok: "index_ok ix \<Longrightarrow> index_ok (upsert rows ix)"
  using upsert_all_ok [of ix rows] by (auto simp: upsert_def split: prod.splits)

lemma upsert_cases:
  assumes "index_ok ix"
  obtains "upsert rows ix = ix" | "revision (upsert rows ix) = Suc (revision ix)"
proof -
  obtain ch ix' where run: "upsert_all rows ix = (ch, ix')" by (metis prod.exhaust)
  note facts = upsert_all_ok [OF assms run]
  show ?thesis
  proof (cases "rows = [] \<or> \<not> ch")
    case True
    then have "upsert rows ix = ix" using facts run by (auto simp: upsert_def)
    then show ?thesis by (rule that(1))
  next
    case False
    then have "revision (upsert rows ix) = Suc (revision ix)" using facts run by (auto simp: upsert_def)
    then show ?thesis by (rule that(2))
  qed
qed

lemma upsert_revision:
  assumes "index_ok ix"
  shows "revision ix \<le> revision (upsert rows ix)"
    and "revision (upsert rows ix) = revision ix \<Longrightarrow> upsert rows ix = ix"
  by (rule upsert_cases [OF assms, of rows], simp_all)+

lemma set_sort_dedup [simp]: "set (sort (dedup xs)) = set xs"
  by simp

lemma delete_doc_ids_ok: "index_ok ix \<Longrightarrow> index_ok (snd (delete_doc_ids ids ix))"
  by (auto simp: delete_doc_ids_def Let_def dest: delete_batches_ok split: prod.splits)

lemma delete_doc_ids_rows:
  "products (snd (delete_doc_ids ids ix)) = filter (\<lambda>p. doc_id p \<notin> set ids) (products ix)"
  "fst (delete_doc_ids ids ix) = length (filter (\<lambda>p. doc_id p \<in> set ids) (products ix))"
  "revision (snd (delete_doc_ids ids ix)) =
    revision ix + (if \<exists>p \<in> set (products ix). doc_id p \<in> set ids then 1 else 0)"
proof -
  have "sort (dedup ids) = [] \<Longrightarrow> set ids = {}" by (metis set_sort_dedup set_empty)
  note empty = this
  obtain n ix' where del: "delete_batches (sort (dedup ids)) ix = (n, ix')"
    by (metis prod.exhaust)
  note rows = delete_batches_rows [OF del, unfolded set_sort_dedup]
  have eq: "delete_doc_ids ids ix = (if sort (dedup ids) = [] then (0, ix)
      else (n, if n \<noteq> 0 then increment_revision ix' else ix'))"
    by (simp only: delete_doc_ids_def Let_def del prod.case)
  have "products (snd (delete_doc_ids ids ix)) = filter (\<lambda>p. doc_id p \<notin> set ids) (products ix)
      \<and> fst (delete_doc_ids ids ix) = length (filter (\<lambda>p. doc_id p \<in> set ids) (products ix))
      \<and> revision (snd (delete_doc_ids ids ix)) =
        revision ix + (if \<exists>p \<in> set (products ix). doc_id p \<in> set ids then 1 else 0)"
  proof (cases "sort (dedup ids) = []")
    case True
    then have "delete_doc_ids ids ix = (0, ix)" by (simp only: eq True refl if_True)
    then show ?thesis using empty [OF True] by simp
  next
    case False
    then show ?thesis using rows by (simp add: eq filter_empty_conv)
  qed
  then show "products (snd (delete_doc_ids ids ix)) = filter (\<lambda>p. doc_id p \<notin> set ids) (products ix)"
    "fst (delete_doc_ids ids ix) = length (filter (\<lambda>p. doc_id p \<in> set ids) (products ix))"
    "revision (snd (delete_doc_ids ids ix)) =
      revision ix + (if \<exists>p \<in> set (products ix). doc_id p \<in> set ids then 1 else 0)"
    by auto
qed

lemma clear_index_simps [simp]:
  "products (clear_index ix) = []" "revision (clear_index ix) = Suc (revision ix)"
  "index_ok ix \<Longrightarrow> index_ok (clear_index ix)"
  by (simp_all add: clear_index_def delete_where_ok)

interpretation bm25: revisioned_store apply_op index_ok products revision
proof
  fix s a assume ok: "index_ok s"
  show "index_ok (apply_op a s)"
    by (cases a) (simp_all add: ok upsert_ok delete_doc_ids_ok)
  show "revision s \<le> revision (apply_op a s)"
    by (cases a) (simp_all add: ok upsert_revision delete_doc_ids_rows)
  assume "revision (apply_op a s) = revision s"
  then show "products (apply_op a s) = products s"
    using upsert_revision(2) [OF ok, THEN arg_cong [where f = products]]
    by (cases a) (auto simp: delete_doc_ids_rows filter_id_conv split: if_splits)
qed

subsection \<open>The document map\<close>

text \<open>The abstract state: what is stored under each document id.\<close>

type_synonym doc_view = "string \<times> string \<times> pyfloat option \<times> pydict"

definition stored :: "product \<Rightarrow> doc_view" where
  "stored p = (product_id p, content p, rental_fee p, attrs p)"

definition bound :: "incoming \<Rightarrow> doc_view" where
  "bound r = (in_product_id r, in_content r, in_rental_fee r, bind_attrs (in_attrs r))"

definition doc_map :: "bm25_index \<Rightarrow> string \<rightharpoonup> doc_view" where
  "doc_map ix = map_of (map (\<lambda>p. (doc_id p, stored p)) (products ix))"

fun spec_op :: "index_op \<Rightarrow> (string \<rightharpoonup> doc_view) \<Rightarrow> (string \<rightharpoonup> doc_view)" where
  "spec_op (UpsertRows rows) m = fold (\<lambda>r m. m(in_doc_id r \<mapsto> bound r)) rows m"
| "spec_op (DeleteIds ids) m = m |` (- set ids)"
| "spec_op ClearAll m = Map.empty"

lemma stored_product_of [simp]: "stored (product_of n r) = bound r"
  by (simp add: stored_def bound_def)

lemma map_of_filter_key:
  "map_of (map (\<lambda>p. (f p, g p)) (filter (\<lambda>p. f p \<notin> D) ps)) = map_of (map (\<lambda>p. (f p, g p)) ps) |` (- D)"
  by (induction ps) (auto simp: restrict_map_def fun_eq_iff)

lemma find_map_of:
  "find (\<lambda>p. f p = k) ps = Some x \<Longrightarrow> map_of (map (\<lambda>p. (f p, g p)) ps) k = Some (g x)"
  by (induction ps) (auto split: if_splits)

lemma map_of_snoc_new:
  "f new \<notin> f ` set ps \<Longrightarrow>
    map_of (map (\<lambda>p. (f p, g p)) (ps @ [new])) = (map_of (map (\<lambda>p. (f p, g p)) ps))(f new \<mapsto> g new)"
  by (induction ps) (auto simp: fun_eq_iff simp del: map_of_append)

lemma map_of_replace:
  "k \<in> f ` set ps \<Longrightarrow> f new = k \<Longrightarrow>
    map_of (map (\<lambda>p. (f p, g p)) (map (\<lambda>p. if f p = k then new else p) ps))
      = (map_of (map (\<lambda>p. (f p, g p)) ps))(k \<mapsto> g new)"
proof (induction ps)
  case (Cons p ps)
  show ?case
  proof (cases "k \<in> f ` set ps")
    case True
    then show ?thesis using Cons by (auto simp: fun_eq_iff)
  next
    case False
    then have "map (\<lambda>q. if f q = k then new else q) ps = ps" by (auto intro!: map_idI)
    moreover have "f p = k" using Cons.prems(1) False by auto
    ultimately show ?thesis using Cons.prems(2) by (simp add: fun_eq_iff del: map_map)
  qed
qed simp

lemma upsert_one_doc_map: "doc_map (snd (upsert_one r ix)) = (doc_map ix)(in_doc_id r \<mapsto> bound r)"
proof (cases "find (\<lambda>p. doc_id p = in_doc_id r) (products ix)")
  case None
  then have "in_doc_id r \<notin> doc_id ` set (products ix)" by (auto simp: find_None_iff)
  moreover have "products (snd (upsert_one r ix)) = products ix @ [product_of (next_rowid ix) r]"
    by (simp add: upsert_one_def None Let_def del: find_None_iff)
  ultimately show ?thesis
    by (simp add: doc_map_def map_of_snoc_new del: map_append)
next
  case (Some old)
  have old: "in_doc_id r \<in> doc_id ` set (products ix)" "doc_id old = in_doc_id r"
    using find_doc [OF Some] by (metis imageI)+
  show ?thesis
  proof (cases "product_of (rowid old) r = old")
    case True
    have "doc_map ix (in_doc_id r) = Some (stored old)"
      unfolding doc_map_def by (rule find_map_of [OF Some])
    then have "doc_map ix (in_doc_id r) = Some (bound r)" using True by (metis stored_product_of)
    then show ?thesis using Some True by (auto simp: upsert_one_def Let_def)
  next
    case False
    then have "products (snd (upsert_one r ix)) =
        map (\<lambda>p. if doc_id p = in_doc_id r then product_of (rowid old) r else p) (products ix)"
      using Some by (simp add: upsert_one_def Let_def)
    then show ?thesis
      using map_of_replace [OF old(1), where g = stored and new = "product_of (rowid old) r"]
      by (simp add: doc_map_def)
  qed
qed

lemma upsert_all_doc_map:
  "upsert_all rs ix = (ch, ix') \<Longrightarrow>
    doc_map ix' = fold (\<lambda>r m. m(in_doc_id r \<mapsto> bound r)) rs (doc_map ix)"
proof (induction rs arbitrary: ix ch ix')
  case (Cons r rs)
  obtain c1 ix1 where one: "upsert_one r ix = (c1, ix1)" by (metis prod.exhaust)
  obtain c2 ix2 where rest: "upsert_all rs ix1 = (c2, ix2)" by (metis prod.exhaust)
  show ?case
    using Cons.IH [OF rest] Cons.prems one rest upsert_one_doc_map [of r ix] by simp
qed simp

lemma doc_map_increment [simp]: "doc_map (increment_revision ix) = doc_map ix"
  by (simp add: doc_map_def)

lemma apply_op_doc_map: "doc_map (apply_op a ix) = spec_op a (doc_map ix)"
proof (cases a)
  case (UpsertRows rows)
  obtain ch ix' where run: "upsert_all rows ix = (ch, ix')" by (metis prod.exhaust)
  show ?thesis using upsert_all_doc_map [OF run] run UpsertRows by (simp add: upsert_def)
next
  case (DeleteIds ids)
  then show ?thesis by (simp add: doc_map_def delete_doc_ids_rows map_of_filter_key)
qed (simp add: doc_map_def)

lemma run_doc_map: "doc_map (fold apply_op ops ix) = fold spec_op ops (doc_map ix)"
  by (induction ops arbitrary: ix) (simp_all add: apply_op_doc_map)

text \<open>
  C39: Any run of upserts, deletions and clears on the SQLite index implements the same run on
  a plain map from document id to stored values: upsert overwrites, delete removes exactly the
  named ids, clear empties.
\<close>

theorem index_refines_document_map:
  "doc_map (fold apply_op ops empty_index) = fold spec_op ops Map.empty"
  by (simp add: run_doc_map) (simp add: doc_map_def empty_index_def)

theorem fts_mirrors_products:
  "index_ok (fold apply_op ops empty_index)"
  using bm25.run_ok [OF empty_index_ok] by simp

subsection \<open>Examples used by the witnesses\<close>

definition ex_row :: "string \<Rightarrow> pyfloat option \<Rightarrow> string \<Rightarrow> incoming" where
  "ex_row d fee city = \<lparr>in_doc_id = d, in_product_id = ''p'' @ d, in_content = ''red car'',
     in_rental_fee = fee, in_attrs = [(''city_name'', VStr city), (''state_name'', VStr ''Kerala''),
       (''user_is_aadhaar_gst_verified'', VInt 1)]\<rparr>"

definition ex_rows :: "incoming list" where
  "ex_rows = [ex_row ''a'' (Some 100) ''Kochi'', ex_row ''b'' None ''Kochi'', ex_row ''c'' (Some 40) ''Munnar'']"

definition ex_index :: bm25_index where
  "ex_index = upsert ex_rows empty_index"

definition ex_fts :: fts_engine where
  "ex_fts texts toks rid = (if rid \<in> fst ` set texts then Some (- rat_of_nat rid) else None)"

definition no_filters :: filters where
  "no_filters = \<lparr>categorical = [], min_fee = None, max_fee = None\<rparr>"

definition ex_request :: browse_request where
  "ex_request = \<lparr>br_filters = no_filters, br_category = [(''state_name'', VStr ''Kerala'')],
     br_exclude = [''a''], br_sort = Some ''price_asc'', br_unpriced = True\<rparr>"

theorem revision_detects_changes:
  assumes "revision (fold apply_op (before @ later) empty_index)
         = revision (fold apply_op before empty_index)"
  shows "doc_map (fold apply_op (before @ later) empty_index) = doc_map (fold apply_op before empty_index)
    \<and> category_id_index (fold apply_op (before @ later) empty_index)
      = category_id_index (fold apply_op before empty_index)
    \<and> filter_value_index (fold apply_op (before @ later) empty_index)
      = filter_value_index (fold apply_op before empty_index)"
proof -
  have "products (fold apply_op (before @ later) empty_index) = products (fold apply_op before empty_index)"
    using bm25.same_revision_same_content
      [OF bm25.run_ok [OF empty_index_ok, THEN conjunct1, of before], of later] assms by simp
  then show ?thesis
    by (simp add: doc_map_def category_id_index_def category_ids_def filter_value_index_def
        del: fold_append)
qed

text \<open>Reindexing the same rows, and deleting an id that is not stored, keep the counter.\<close>

lemma ex_revision:
  "revision (fold apply_op ([UpsertRows ex_rows] @ [UpsertRows ex_rows, DeleteIds [''z'']]) empty_index)
    = revision (fold apply_op [UpsertRows ex_rows] empty_index)"
  by code_simp

theorem revision_detects_changes_witness:
  "doc_map (fold apply_op ([UpsertRows ex_rows] @ [UpsertRows ex_rows, DeleteIds [''z'']]) empty_index)
    = doc_map (fold apply_op [UpsertRows ex_rows] empty_index)"
  by (rule revision_detects_changes [OF ex_revision, THEN conjunct1])

subsection \<open>Search and browse\<close>

lemma sort_key_take_best:
  assumes "x \<in> set (take n (sort_key f xs))" and "y \<in> set (drop n (sort_key f xs))"
  shows "f x \<le> f y"
proof -
  have "map f (take n (sort_key f xs)) @ map f (drop n (sort_key f xs)) = map f (sort_key f xs)"
    by (simp flip: map_append)
  then have "sorted (map f (take n (sort_key f xs)) @ map f (drop n (sort_key f xs)))"
    by (simp only: sorted_sort_key)
  then show ?thesis using assms unfolding sorted_append by simp
qed

definition matching_rows :: "fts_engine \<Rightarrow> pyfloat \<Rightarrow> string \<Rightarrow> filters \<Rightarrow> bool \<Rightarrow> bm25_index \<Rightarrow> product list" where
  "matching_rows fts ceil query fs unp ix =
     filter (\<lambda>p. row_matches ceil fs unp p
         \<and> fts (products_fts ix) (tokenize_query query) (rowid p) \<noteq> None) (products ix)"

definition rank_of :: "fts_engine \<Rightarrow> string \<Rightarrow> bm25_index \<Rightarrow> product \<Rightarrow> pyfloat" where
  "rank_of fts query ix p = the (fts (products_fts ix) (tokenize_query query) (rowid p))"

lemma index_search_eq:
  "tokenize_query query \<noteq> [] \<Longrightarrow> 0 < k \<Longrightarrow>
   index_search fts ceil query fs k unp ix =
     map (\<lambda>p. hit_of p (rank_of fts query ix p))
       (take (nat k) (sort_key (rank_of fts query ix) (matching_rows fts ceil query fs unp ix)))"
proof -
  assume "tokenize_query query \<noteq> []" and "0 < k"
  have pairs: "List.map_filter (\<lambda>p. map_option (\<lambda>r. (p, r)) (h p)) ps
      = map (\<lambda>p. (p, the (h p))) (filter (\<lambda>p. h p \<noteq> None) ps)" for h and ps :: "product list"
    by (induction ps) (auto simp: map_filter_def)
  have keys: "sort_key snd (map (\<lambda>p. (p, h p)) ps) = map (\<lambda>p. (p, h p)) (sort_key h ps)"
    for h :: "product \<Rightarrow> pyfloat" and ps
  proof (induction ps)
    case (Cons p ps)
    have "insort_key snd (p, h p) (map (\<lambda>p. (p, h p)) qs) = map (\<lambda>p. (p, h p)) (insort_key h p qs)" for qs
      by (induction qs) auto
    with Cons show ?case by simp
  qed simp
  show ?thesis
    using \<open>tokenize_query query \<noteq> []\<close> \<open>0 < k\<close>
    by (simp add: index_search_def Let_def pairs keys take_map rank_of_def [abs_def] matching_rows_def
        conj_commute case_prod_beta')
qed

theorem search_returns_best_matches:
  assumes "tokenize_query query \<noteq> []" and "0 < k"
  shows "\<exists>best others. mset (best @ others) = mset (matching_rows fts ceil query fs unp ix)
    \<and> index_search fts ceil query fs k unp ix = map (\<lambda>p. hit_of p (rank_of fts query ix p)) best
    \<and> length best = min (nat k) (length (matching_rows fts ceil query fs unp ix))
    \<and> sorted (map (rank_of fts query ix) best)
    \<and> (\<forall>p \<in> set best. \<forall>q \<in> set others. rank_of fts query ix p \<le> rank_of fts query ix q)"
proof -
  let ?sorted = "sort_key (rank_of fts query ix) (matching_rows fts ceil query fs unp ix)"
  have "mset (take (nat k) ?sorted @ drop (nat k) ?sorted) = mset (matching_rows fts ceil query fs unp ix)"
    by (simp only: append_take_drop_id mset_sort)
  moreover have "sorted (map (rank_of fts query ix) (take (nat k) ?sorted))"
    by (metis sorted_sort_key sorted_wrt_take take_map)
  ultimately show ?thesis
    using index_search_eq [OF assms] sort_key_take_best
    by (intro exI [of _ "take (nat k) ?sorted"] exI [of _ "drop (nat k) ?sorted"]) (auto simp: min.commute)
qed

lemma ex_search_premises: "tokenize_query ''Red, red CAR'' \<noteq> []" "(0::int) < 2"
  by code_simp+

theorem search_returns_best_matches_witness:
  "\<exists>best others. mset (best @ others) = mset (matching_rows ex_fts 1 ''Red, red CAR'' no_filters False ex_index)
    \<and> index_search ex_fts 1 ''Red, red CAR'' no_filters 2 False ex_index
      = map (\<lambda>p. hit_of p (rank_of ex_fts ''Red, red CAR'' ex_index p)) best
    \<and> length best = min (nat 2) (length (matching_rows ex_fts 1 ''Red, red CAR'' no_filters False ex_index))
    \<and> sorted (map (rank_of ex_fts ''Red, red CAR'' ex_index) best)
    \<and> (\<forall>p \<in> set best. \<forall>q \<in> set others. rank_of ex_fts ''Red, red CAR'' ex_index p
        \<le> rank_of ex_fts ''Red, red CAR'' ex_index q)"
  by (rule search_returns_best_matches [OF ex_search_premises])

text \<open>Reindexing identical rows changes nothing, so the counter does not move.\<close>

lemma upsert_one_same:
  assumes "doc_map ix (in_doc_id r) = Some (bound r)"
  shows "upsert_one r ix = (False, ix)"
proof (cases "find (\<lambda>p. doc_id p = in_doc_id r) (products ix)")
  case None
  have "\<forall>p \<in> set (products ix). doc_id p \<noteq> in_doc_id r" using None by (auto simp: find_None_iff)
  then have "doc_map ix (in_doc_id r) = None" by (auto simp: doc_map_def map_of_eq_None_iff)
  then show ?thesis using assms by simp
next
  case (Some old)
  have "stored old = bound r"
    using find_map_of [OF Some, of stored] assms by (simp add: doc_map_def)
  moreover have "doc_id old = in_doc_id r" using find_doc [OF Some] by simp
  ultimately have "product_of (rowid old) r = old"
    by (simp add: product_of_def stored_def bound_def)
  then show ?thesis by (simp add: upsert_one_def Some Let_def)
qed

lemma upsert_all_same:
  "(\<And>r. r \<in> set rs \<Longrightarrow> doc_map ix (in_doc_id r) = Some (bound r)) \<Longrightarrow> upsert_all rs ix = (False, ix)"
  by (induction rs) (simp_all add: upsert_one_same)

lemma fold_updates_last:
  "distinct (map f rs) \<Longrightarrow> r \<in> set rs \<Longrightarrow> fold (\<lambda>r m. m(f r \<mapsto> g r)) rs m (f r) = Some (g r)"
proof (induction rs arbitrary: m)
  case (Cons a rs)
  have other: "k \<notin> f ` set rs \<Longrightarrow> fold (\<lambda>r m. m(f r \<mapsto> g r)) rs m k = m k" for k m
    by (induction rs arbitrary: m) auto
  show ?case
  proof (cases "r = a")
    case True
    have "f a \<notin> f ` set rs" using Cons.prems(1) by simp
    then show ?thesis using other [OF \<open>f a \<notin> f ` set rs\<close>, of "m(f a \<mapsto> g a)"]
      by (simp only: True fold_Cons comp_apply fun_upd_same)
  next
    case False
    then show ?thesis using Cons by simp
  qed
qed simp

theorem upsert_idempotent:
  assumes "distinct (map in_doc_id rows)"
  shows "upsert rows (upsert rows ix) = upsert rows ix"
proof -
  have map: "doc_map (upsert rows ix) = fold (\<lambda>r m. m(in_doc_id r \<mapsto> bound r)) rows (doc_map ix)"
    using apply_op_doc_map [of "UpsertRows rows" ix] by simp
  have "upsert_all rows (upsert rows ix) = (False, upsert rows ix)"
    by (rule upsert_all_same) (simp add: map fold_updates_last [OF assms])
  then show ?thesis by (simp add: upsert_def [of rows "upsert rows ix"])
qed

theorem upsert_idempotent_witness:
  "upsert ex_rows (upsert ex_rows empty_index) = upsert ex_rows empty_index"
  by (rule upsert_idempotent) code_simp

subsection \<open>Paging and order\<close>

definition page_of :: "pyfloat \<Rightarrow> browse_request \<Rightarrow> nat \<Rightarrow> bm25_index \<Rightarrow> nat \<Rightarrow> (string \<times> string) list" where
  "page_of ceil rq k ix i =
     (case browse ceil rq (int k) (int (i * k)) ix of Inl _ \<Rightarrow> [] | Inr rows \<Rightarrow> rows)"

lemma concat_pages: "concat (map (\<lambda>i. take k (drop (i * k) xs)) [0..<n]) = take (n * k) xs"
proof (induction n)
  case (Suc n)
  have "take (n * k + k) xs = take (n * k) xs @ take k (drop (n * k) xs)" by (rule take_add)
  then show ?case using Suc by (simp add: add.commute)
qed simp

lemma page_of_eq:
  "0 < k \<Longrightarrow> parse_sort (br_sort rq) = Some order \<Longrightarrow>
    page_of ceil rq k ix i =
      map (\<lambda>p. (doc_id p, product_id p)) (take k (drop (i * k) (browse_all ceil order rq ix)))"
  by (simp add: page_of_def browse_def del: of_nat_mult)

lemma browse_order_mset [simp]: "mset (browse_order ceil order ps) = mset ps"
  by (cases order) (auto simp: browse_order_def split: sort_order.splits)

lemma browse_order_set [simp]: "set (browse_order ceil order ps) = set ps"
  by (metis browse_order_mset set_mset_mset)

lemma browse_all_distinct:
  assumes "index_ok ix"
  shows "distinct (map doc_id (browse_all ceil order rq ix))"
proof -
  have "distinct (map doc_id (products ix))" using assms by (simp add: index_ok_def)
  then have "distinct (map doc_id (browse_order ceil order (filter q (products ix))))" for q
    by (metis browse_order_mset distinct_map_filter mset_eq_imp_distinct_iff mset_map)
  then show ?thesis by (simp add: browse_all_def split: option.split)
qed

theorem browse_pages_partition_matches:
  assumes "index_ok ix" and "0 < k" and "parse_sort (br_sort rq) = Some order"
    and "length (browse_all ceil order rq ix) \<le> n * k"
  shows "concat (map (page_of ceil rq k ix) [0..<n])
      = map (\<lambda>p. (doc_id p, product_id p)) (browse_all ceil order rq ix)
    \<and> distinct (map fst (concat (map (page_of ceil rq k ix) [0..<n])))"
proof -
  have "page_of ceil rq k ix = map (\<lambda>p. (doc_id p, product_id p))
      \<circ> (\<lambda>i. take k (drop (i * k) (browse_all ceil order rq ix)))"
    by (rule ext) (simp add: page_of_eq [OF assms(2,3)])
  then have "concat (map (page_of ceil rq k ix) [0..<n])
      = map (\<lambda>p. (doc_id p, product_id p)) (concat (map (\<lambda>i. take k (drop (i * k) (browse_all ceil order rq ix))) [0..<n]))"
    by (simp add: map_concat)
  then have "concat (map (page_of ceil rq k ix) [0..<n])
      = map (\<lambda>p. (doc_id p, product_id p)) (browse_all ceil order rq ix)"
    using assms(4) by (simp add: concat_pages)
  then show ?thesis using browse_all_distinct [OF assms(1)] by (simp add: comp_def)
qed

lemma ex_index_ok: "index_ok ex_index"
  by (simp add: ex_index_def upsert_ok empty_index_ok)

lemma ex_browse_premises:
  "(0::nat) < 1" "parse_sort (br_sort ex_request) = Some (Some PriceAsc)"
  "length (browse_all 1 (Some PriceAsc) ex_request ex_index) \<le> 2 * 1"
  by code_simp+

theorem browse_pages_partition_matches_witness:
  "concat (map (page_of 1 ex_request 1 ex_index) [0..<2])
      = map (\<lambda>p. (doc_id p, product_id p)) (browse_all 1 (Some PriceAsc) ex_request ex_index)
    \<and> distinct (map fst (concat (map (page_of 1 ex_request 1 ex_index) [0..<2])))"
  by (rule browse_pages_partition_matches [OF ex_index_ok ex_browse_premises])

text \<open>\<open>a\<close> may stand before \<open>b\<close>: priced rows first, in the order of the fee.\<close>

definition price_before :: "pyfloat \<Rightarrow> bool \<Rightarrow> product \<Rightarrow> product \<Rightarrow> bool" where
  "price_before ceil descending a b \<longleftrightarrow>
     (if unpriced ceil b then True
      else \<not> unpriced ceil a
        \<and> (if descending then the (rental_fee b) \<le> the (rental_fee a)
           else the (rental_fee a) \<le> the (rental_fee b)))"

lemma price_key_before:
  "price_key ceil d a \<le> price_key ceil d b \<Longrightarrow> price_before ceil d a b"
  by (auto simp: price_key_def price_before_def unpriced_def less_eq_prod_def less_prod_def
      split: option.splits if_splits)

theorem browse_orders_by_price:
  "sorted_wrt (price_before ceil False) (browse_all ceil (Some PriceAsc) rq ix)
   \<and> sorted_wrt (price_before ceil True) (browse_all ceil (Some PriceDesc) rq ix)"
proof -
  have "sorted_wrt (price_before ceil d) (sort_key (price_key ceil d) ps)" for d ps
  proof -
    have "sorted_wrt (\<lambda>a b. price_key ceil d a \<le> price_key ceil d b) (sort_key (price_key ceil d) ps)"
      using sorted_sort_key [of "price_key ceil d" ps] by (simp add: sorted_map)
    then show ?thesis by (rule sorted_wrt_mono_rel [rotated]) (rule price_key_before)
  qed
  then show ?thesis by (auto simp: browse_all_def browse_order_def split: option.split)
qed

subsection \<open>Unique relationships\<close>

definition group_values :: "('k \<times> 'v) list \<Rightarrow> ('k, 'v list) dict \<Rightarrow> ('k, 'v list) dict" where
  "group_values ps d = fold (\<lambda>(k, v) d. add_to_set k v d) ps d"

lemma add_to_set_keys [simp]: "distinct (map fst d) \<Longrightarrow> distinct (map fst (add_to_set k v d))"
  by (auto simp: add_to_set_def distinct_update split: option.split)

lemma group_values_keys: "distinct (map fst d) \<Longrightarrow> distinct (map fst (group_values ps d))"
  by (induction ps arbitrary: d) (auto simp: group_values_def)

definition values_are :: "('k, 'v list) dict \<Rightarrow> 'k \<Rightarrow> 'v set \<Rightarrow> bool" where
  "values_are d k V \<longleftrightarrow>
     (case map_of d k of None \<Rightarrow> V = {} | Some vs \<Rightarrow> vs \<noteq> [] \<and> distinct vs \<and> set vs = V)"

lemma values_are_add:
  "values_are d k V \<Longrightarrow> values_are (add_to_set k' v d) k (if k' = k then insert v V else V)"
  by (auto simp: values_are_def add_to_set_def update_conv' split: option.splits)

lemma group_values_values:
  "values_are d k V \<Longrightarrow> values_are (group_values ps d) k (V \<union> {v. (k, v) \<in> set ps})"
proof (induction ps arbitrary: d V)
  case (Cons p ps)
  obtain k' v where p: "p = (k', v)" by (cases p)
  have "values_are (group_values ps (add_to_set k' v d)) k
      ((if k' = k then insert v V else V) \<union> {v. (k, v) \<in> set ps})"
    by (rule Cons.IH [OF values_are_add [OF Cons.prems]])
  moreover have "(if k' = k then insert v V else V) \<union> {v. (k, v) \<in> set ps}
      = V \<union> {v. (k, v) \<in> set (p # ps)}"
    by (auto simp: p)
  ultimately show ?case by (simp add: group_values_def p)
qed (simp add: group_values_def)

lemma map_of_singletons:
  "distinct (map fst d) \<Longrightarrow> map_of (singletons d) k
    = (case map_of d k of Some [v] \<Rightarrow> Some v | _ \<Rightarrow> None)"
proof (induction d)
  case (Cons a d)
  obtain k' vs where a: "a = (k', vs)" by (cases a)
  have fresh: "map_of d k' = None" using Cons.prems a by (simp add: map_of_eq_None_iff)
  show ?case using Cons fresh a
    by (auto simp: singletons_def map_filter_def split: list.splits option.splits)
qed (simp add: singletons_def map_filter_def)

lemma unique_values:
  "map_of (singletons (group_values ps [])) k = Some v \<longleftrightarrow> {w. (k, w) \<in> set ps} = {v}"
proof -
  have "values_are [] k {}" by (simp add: values_are_def)
  from group_values_values [OF this, of ps]
  have vals: "values_are (group_values ps []) k {w. (k, w) \<in> set ps}" by simp
  have one: "(case vs of [w] \<Rightarrow> Some w | _ \<Rightarrow> None) = Some v \<longleftrightarrow> set vs = {v}" if "distinct vs" for vs
    using that by (auto simp: subset_singleton_iff split: list.splits)
  have eq: "map_of (singletons (group_values ps [])) k
      = (case map_of (group_values ps []) k of Some [w] \<Rightarrow> Some w | _ \<Rightarrow> None)"
    by (rule map_of_singletons [OF group_values_keys]) simp
  show ?thesis
  proof (cases "map_of (group_values ps []) k")
    case None
    then show ?thesis using vals eq by (simp add: values_are_def)
  next
    case (Some vs)
    then show ?thesis using vals eq one [of vs] by (simp add: values_are_def)
  qed
qed

theorem unique_relationship_sound_complete:
  assumes "unique_relationship_index child parents ix = Inr d"
  shows "map_of d k = Some vs \<longleftrightarrow>
    (\<exists>p \<in> set (products ix). (\<forall>c \<in> set (child # parents). present (column p c)) \<and> norm_name (column p child) = k)
    \<and> (\<forall>p \<in> set (products ix). (\<forall>c \<in> set (child # parents). present (column p c))
        \<and> norm_name (column p child) = k \<longrightarrow> map (column p) parents = vs)"
proof -
  have row: "(k, w) \<in> set (relationship_rows child parents ix) \<longleftrightarrow>
      (\<exists>p \<in> set (products ix). (\<forall>c \<in> set (child # parents). present (column p c))
        \<and> norm_name (column p child) = k \<and> map (column p) parents = w)" for w
    by (auto simp: relationship_rows_def)
  have "d = singletons (group_values (relationship_rows child parents ix) [])"
    using assms by (simp add: unique_relationship_index_def group_values_def split: if_splits)
  then have "map_of d k = Some vs \<longleftrightarrow> {w. (k, w) \<in> set (relationship_rows child parents ix)} = {vs}"
    by (simp add: unique_values)
  also have "\<dots> \<longleftrightarrow> (\<exists>w. (k, w) \<in> set (relationship_rows child parents ix))
      \<and> (\<forall>w. (k, w) \<in> set (relationship_rows child parents ix) \<longrightarrow> w = vs)"
    by auto
  also have "\<dots> \<longleftrightarrow> (\<exists>p \<in> set (products ix). (\<forall>c \<in> set (child # parents). present (column p c))
        \<and> norm_name (column p child) = k)
    \<and> (\<forall>p \<in> set (products ix). (\<forall>c \<in> set (child # parents). present (column p c))
        \<and> norm_name (column p child) = k \<longrightarrow> map (column p) parents = vs)"
    unfolding row by blast
  finally show ?thesis .
qed

lemma ex_relationship:
  "unique_relationship_index ''city_name'' [''state_name''] ex_index
    = Inr [(''kochi'', [VStr ''Kerala'']), (''munnar'', [VStr ''Kerala''])]"
  by code_simp

theorem unique_relationship_sound_complete_witness:
  "map_of [(''kochi'', [VStr ''Kerala'']), (''munnar'', [VStr ''Kerala''])] ''kochi'' = Some [VStr ''Kerala'']
    \<longleftrightarrow>
    (\<exists>p \<in> set (products ex_index). (\<forall>c \<in> set [''city_name'', ''state_name'']. present (column p c))
        \<and> norm_name (column p ''city_name'') = ''kochi'')
    \<and> (\<forall>p \<in> set (products ex_index). (\<forall>c \<in> set [''city_name'', ''state_name'']. present (column p c))
        \<and> norm_name (column p ''city_name'') = ''kochi'' \<longrightarrow> map (column p) [''state_name''] = [VStr ''Kerala''])"
  by (rule unique_relationship_sound_complete [OF ex_relationship])

end
