(* ===== verification/Retrieval.thy ===== *)
theory Retrieval
  imports Bm25 Reranker
begin

text \<open>
  Candidate retrieval of \<open>search/retrieval.py\<close>: the exact metadata check, the vector store's
  WHERE filter and query options with the loop that drops what an older adapter rejects, the
  lexical search, the paged related tail, reciprocal-rank fusion and the product-id and ad-type
  filters. The vector collection and the type fetcher are arguments, and so are the settings.
\<close>

named_theorems retrieval_facts \<open>facts of candidate retrieval\<close>

definition OFFER_AD_TYPE :: string where "OFFER_AD_TYPE = ''1''"
definition WANTED_AD_TYPE :: string where "WANTED_AD_TYPE = ''2''"

subsection \<open>Filters on metadata\<close>

definition category_matches :: "pyval \<Rightarrow> pyval \<Rightarrow> bool" where
  "category_matches expected actual =
     (case expected of VList values \<Rightarrow> py_in actual values | _ \<Rightarrow> py_eq actual expected)"

definition fee_matches :: "pyfloat \<Rightarrow> filters \<Rightarrow> bool \<Rightarrow> pyval \<Rightarrow> bool" where
  "fee_matches ceil fs include_unpriced raw =
     (if min_fee fs = None \<and> max_fee fs = None then True
      else if (raw = VNone \<or> raw = VStr []) \<and> include_unpriced then True
      else (case to_float raw of
          None \<Rightarrow> False
        | Some fee \<Rightarrow>
            if fee \<le> ceil then include_unpriced
            else if (case min_fee fs of None \<Rightarrow> False | Some m \<Rightarrow> fee < m) then False
            else \<not> (case max_fee fs of None \<Rightarrow> False | Some m \<Rightarrow> m < fee)))"

definition metadata_matches_filters ::
    "pyfloat \<Rightarrow> pydict \<Rightarrow> string \<Rightarrow> filters \<Rightarrow> string option \<Rightarrow> bool \<Rightarrow> bool" where
  "metadata_matches_filters ceil metadata source_name fs company_id include_unpriced =
     (if \<not> py_eq (dget metadata ''source_file'') (VStr source_name) then False
      else if (case company_id of None \<Rightarrow> False
               | Some c \<Rightarrow> \<not> py_eq (dget metadata ''company_id'') (VStr c)) then False
      else if \<not> list_all (\<lambda>(key, expected). category_matches expected (dget metadata key))
                 (categorical fs) then False
      else fee_matches ceil fs include_unpriced (dget metadata ''rental_fee''))"

datatype where_clause =
    InClause string "pyval list"
  | EqClause string pyval
  | GteClause pyfloat
  | LteClause pyfloat

datatype where_filter = OneClause where_clause | AndClauses "where_clause list"

definition categorical_clause :: "string \<times> pyval \<Rightarrow> where_clause option" where
  "categorical_clause kv =
     (case snd kv of
        VList values \<Rightarrow> if dedup values = [] then None else Some (InClause (fst kv) (dedup values))
      | v \<Rightarrow> Some (EqClause (fst kv) v))"

definition vector_where_filter :: "filters \<Rightarrow> bool \<Rightarrow> where_filter option" where
  "vector_where_filter fs include_unpriced =
     (let clauses = List.map_filter categorical_clause (categorical fs)
          @ (if include_unpriced then []
             else (case min_fee fs of None \<Rightarrow> [] | Some m \<Rightarrow> [GteClause m])
                @ (case max_fee fs of None \<Rightarrow> [] | Some m \<Rightarrow> [LteClause m]))
      in case clauses of [] \<Rightarrow> None | [c] \<Rightarrow> Some (OneClause c) | _ \<Rightarrow> Some (AndClauses clauses))"

subsection \<open>vector_search\<close>

record vector_settings =
  exact_filter_rows :: nat
  overfetch_factor :: int
  post_filter_max :: int
  fee_ceiling :: pyfloat

datatype post_filter_mode = NoPostFilter | PostFilter | Adaptive

record query_options =
  n_results :: int
  opt_where :: "where_filter option"
  opt_exact_rows :: "nat option"
  opt_post_results :: "int option"

record vector_results =
  res_ids :: "string list"
  res_documents :: "string list"
  res_metadatas :: "pydict list"
  res_distances :: "pyfloat list"

definition post_window :: "vector_settings \<Rightarrow> int \<Rightarrow> int \<Rightarrow> int" where
  "post_window cfg wanted row_count =
     min (min (wanted * overfetch_factor cfg) (post_filter_max cfg)) row_count"

definition build_query_options ::
    "vector_settings \<Rightarrow> int \<Rightarrow> int \<Rightarrow> int \<Rightarrow> (string \<times> filters) option \<Rightarrow> post_filter_mode \<Rightarrow> bool
      \<Rightarrow> query_options" where
  "build_query_options cfg top_k candidate_k row_count scope mode include_unpriced =
     (let wanted = max candidate_k top_k;
          plain = \<lparr>n_results = min wanted row_count, opt_where = None, opt_exact_rows = None,
                   opt_post_results = None\<rparr>
      in case scope of
           None \<Rightarrow> plain
         | Some (source_name, fs) \<Rightarrow>
             (case vector_where_filter fs include_unpriced of
                None \<Rightarrow> plain
              | Some w \<Rightarrow>
                  (case mode of
                     Adaptive \<Rightarrow> plain\<lparr>opt_where := Some w, opt_exact_rows := Some (exact_filter_rows cfg),
                       opt_post_results := Some (post_window cfg wanted row_count)\<rparr>
                   | PostFilter \<Rightarrow> plain\<lparr>n_results := post_window cfg wanted row_count\<rparr>
                   | NoPostFilter \<Rightarrow> plain\<lparr>opt_where := Some w,
                       opt_exact_rows := Some (exact_filter_rows cfg)\<rparr>)))"

definition option_count :: "query_options \<Rightarrow> nat" where
  "option_count o1 = (if opt_post_results o1 = None then 0 else 1)
     + (if opt_exact_rows o1 = None then 0 else 1) + (if opt_where o1 = None then 0 else 1)"

text \<open>The retry loop: a \<open>TypeError\<close> that names an option in use drops that option.\<close>

function query_collection ::
    "(query_options \<Rightarrow> py_error + vector_results) \<Rightarrow> query_options \<Rightarrow> py_error + vector_results" where
  "query_collection query options =
     (case query options of
        Inr results \<Rightarrow> Inr results
      | Inl (TypeError message) \<Rightarrow>
          (if contains_str message ''post_filter_n_results'' \<and> opt_post_results options \<noteq> None
           then query_collection query (options\<lparr>opt_post_results := None\<rparr>)
           else if contains_str message ''exact_filter_max_rows'' \<and> opt_exact_rows options \<noteq> None
           then query_collection query (options\<lparr>opt_exact_rows := None\<rparr>)
           else if contains_str message ''where'' \<and> opt_where options \<noteq> None
           then query_collection query (options\<lparr>opt_where := None\<rparr>)
           else Inl (TypeError message))
      | Inl e \<Rightarrow> Inl e)"
  by pat_completeness auto
termination by (relation "measure (\<lambda>(q, o1). option_count o1)") (auto simp: option_count_def)

declare query_collection.simps [simp del]

definition result_rows :: "vector_results \<Rightarrow> (string \<times> string \<times> pydict \<times> pyfloat) list" where
  "result_rows r = zip (res_ids r) (zip (res_documents r) (zip (res_metadatas r) (res_distances r)))"

text \<open>The output loop: it stops after the append that reaches \<open>top_k\<close>.\<close>

fun collect_rows ::
    "(pydict \<Rightarrow> bool) \<Rightarrow> int \<Rightarrow> candidate list \<Rightarrow> (string \<times> string \<times> pydict \<times> pyfloat) list \<Rightarrow> candidate list" where
  "collect_rows keep top_k output [] = output"
| "collect_rows keep top_k output ((d, text, metadata, distance) # rows) =
     (if \<not> keep metadata then collect_rows keep top_k output rows
      else (let output' = output @ [\<lparr>cand_id = d, cand_text = text, cand_metadata = metadata,
                   cand_score = distance, cand_source = ''vector'', fusion_score = None\<rparr>]
            in if top_k \<le> int (length output') then output'
               else collect_rows keep top_k output' rows))"

text \<open>What the collection gives: whether a count is needed, the count, and the query.\<close>

record 'e collection =
  limit_requires_count :: bool
  collection_count :: int
  collection_query :: "'e \<Rightarrow> query_options \<Rightarrow> py_error + vector_results"

definition vector_search ::
    "vector_settings \<Rightarrow> 'e collection \<Rightarrow> (py_error + 'e) \<Rightarrow> 'e option \<Rightarrow> int \<Rightarrow> int
      \<Rightarrow> (string \<times> filters) option \<Rightarrow> string option \<Rightarrow> post_filter_mode \<Rightarrow> bool
      \<Rightarrow> py_error + candidate list" where
  "vector_search cfg col computed query_embedding top_k candidate_k scope company_id mode include_unpriced =
     (if limit_requires_count col \<and> collection_count col \<le> 0 then Inr []
      else (let row_count = (if limit_requires_count col then collection_count col
                             else max candidate_k top_k);
                keep = (\<lambda>metadata. case scope of None \<Rightarrow> True
                  | Some (source_name, fs) \<Rightarrow> metadata_matches_filters (fee_ceiling cfg) metadata
                      source_name fs company_id include_unpriced)
            in case (case query_embedding of None \<Rightarrow> computed | Some e \<Rightarrow> Inr e) of
                 Inl err \<Rightarrow> Inl err
               | Inr e \<Rightarrow>
                   (case query_collection (collection_query col e)
                      (build_query_options cfg top_k candidate_k row_count scope mode include_unpriced) of
                      Inl err \<Rightarrow> Inl err
                    | Inr results \<Rightarrow> Inr (collect_rows keep top_k [] (result_rows results)))))"

subsection \<open>bm25_search\<close>

definition lexical_candidate ::
    "string \<Rightarrow> string option \<Rightarrow> string \<Rightarrow> string \<Rightarrow> string \<Rightarrow> lexical_hit \<Rightarrow> candidate" where
  "lexical_candidate source_name company_id source_type search_table id_column h =
     \<lparr>cand_id = hit_doc_id h, cand_text = hit_content h,
      cand_metadata = AList.update id_column (VStr (hit_product_id h))
        (AList.update ''source_table'' (VStr search_table)
        (AList.update ''source_type'' (VStr source_type)
        (AList.update ''company_id'' (case company_id of None \<Rightarrow> VNone | Some c \<Rightarrow> VStr c)
        (AList.update ''source_file'' (VStr source_name) (hit_metadata h))))),
      cand_score = hit_score h, cand_source = ''bm25'', fusion_score = None\<rparr>"

definition bm25_search ::
    "fts_engine \<Rightarrow> pyfloat \<Rightarrow> string \<Rightarrow> filters \<Rightarrow> int \<Rightarrow> bool \<Rightarrow> string \<Rightarrow> string option \<Rightarrow> string \<Rightarrow> string
      \<Rightarrow> string \<Rightarrow> bm25_index \<Rightarrow> candidate list" where
  "bm25_search fts ceil query fs top_k include_unpriced source_name company_id source_type
       search_table id_column ix =
     map (lexical_candidate source_name company_id source_type search_table id_column)
       (index_search fts ceil query fs top_k include_unpriced ix)"

subsection \<open>related_tail_product_ids\<close>

type_synonym type_fetcher = "string list \<Rightarrow> string \<Rightarrow> string option"

definition expected_types :: "string \<Rightarrow> string list option \<Rightarrow> string list" where
  "expected_types target_ad_type allowed =
     (case allowed of Some types \<Rightarrow> dedup types
      | None \<Rightarrow> [if target_ad_type = ''wanted'' then WANTED_AD_TYPE else OFFER_AD_TYPE])"

text \<open>The inner loop over one page: the ids found so far, and the ids seen.\<close>

fun tail_page ::
    "(string \<Rightarrow> string option) \<Rightarrow> string list \<Rightarrow> nat \<Rightarrow> string list \<Rightarrow> string list \<Rightarrow> string list
      \<Rightarrow> string list \<times> string list" where
  "tail_page types expected limit [] found seen = (found, seen)"
| "tail_page types expected limit (p # ps) found seen =
     (if p \<in> set seen then tail_page types expected limit ps found seen
      else (let seen' = p # seen in
            case types p of
              None \<Rightarrow> tail_page types expected limit ps found seen'
            | Some t \<Rightarrow>
                if t \<notin> set expected then tail_page types expected limit ps found seen'
                else if limit \<le> length (found @ [p]) then (found @ [p], seen')
                else tail_page types expected limit ps (found @ [p]) seen'))"

partial_function (option) tail_loop ::
    "(int \<Rightarrow> py_error + (string \<times> string) list) \<Rightarrow> type_fetcher \<Rightarrow> string list \<Rightarrow> nat \<Rightarrow> nat \<Rightarrow> nat
      \<Rightarrow> string list \<Rightarrow> string list \<Rightarrow> (py_error + string list) option" where
  "tail_loop browse_at fetch expected limit page_size offset found seen =
     (if limit \<le> length found then Some (Inr found)
      else (case browse_at (int offset) of
          Inl e \<Rightarrow> Some (Inl e)
        | Inr rows \<Rightarrow>
            if rows = [] then Some (Inr found)
            else (let ids = map snd rows;
                      page = tail_page (fetch ids) expected limit ids found seen
                  in if length rows < page_size then Some (Inr (fst page))
                     else tail_loop browse_at fetch expected limit page_size (offset + length rows)
                            (fst page) (snd page))))"

declare tail_loop.simps [code]

text \<open>\<open>inferred_categories\<close>: main category and subcategory, falsy when not inferred.\<close>

definition tail_category_filters :: "filters \<Rightarrow> pydict \<Rightarrow> (string \<times> pyval) list" where
  "tail_category_filters fs inferred =
     List.map_filter (\<lambda>(k, column).
         if map_of (categorical fs) column \<noteq> None then None
         else if truthy (dget inferred k) then Some (column, dget inferred k) else None)
       [(''main_category'', ''main_category_name''), (''subcategory'', ''subcategory_name'')]"

definition tail_page_size :: "nat \<Rightarrow> nat" where
  "tail_page_size limit = max 100 (min (limit * 3) 500)"

definition related_tail_product_ids ::
    "pyfloat \<Rightarrow> bm25_index \<Rightarrow> filters \<Rightarrow> pydict \<Rightarrow> string \<Rightarrow> int \<Rightarrow> string list \<Rightarrow> string list
      \<Rightarrow> type_fetcher \<Rightarrow> string option \<Rightarrow> string list option \<Rightarrow> (py_error + string list) option" where
  "related_tail_product_ids ceil ix fs inferred target limit exclude_docs exclude_products fetch
       sort_order allowed =
     (if limit \<le> 0 then Some (Inr [])
      else (let category = tail_category_filters fs inferred;
                expected = expected_types target allowed
            in if categorical fs = [] \<and> category = [] \<and> min_fee fs = None \<and> max_fee fs = None
               then Some (Inr [])
               else tail_loop
                 (\<lambda>offset. browse ceil \<lparr>br_filters = fs, br_category = category,
                      br_exclude = exclude_docs, br_sort = sort_order,
                      br_unpriced = (set expected = {WANTED_AD_TYPE})\<rparr>
                    (int (tail_page_size (nat limit))) offset ix)
                 fetch expected (nat limit) (tail_page_size (nat limit)) 0 [] exclude_products))"

subsection \<open>merge_results\<close>

record fusion_settings =
  rrf_constant :: pyfloat
  vector_weight :: pyfloat
  bm25_weight :: pyfloat
  soft_category_boost :: pyfloat

fun split_plus_go :: "string \<Rightarrow> string \<Rightarrow> string list" where
  "split_plus_go [] acc = [rev acc]"
| "split_plus_go (c # cs) acc =
     (if c = CHR ''+'' then rev acc # split_plus_go cs [] else split_plus_go cs (c # acc))"

definition split_plus :: "string \<Rightarrow> string list" where
  "split_plus s = split_plus_go s []"

text \<open>The merged dict: candidates by id, with their fusion scores, in insertion order.\<close>

type_synonym merged = "(string, candidate \<times> pyfloat) dict"

definition merge_item :: "string \<Rightarrow> pyfloat \<Rightarrow> candidate \<Rightarrow> merged \<Rightarrow> merged" where
  "merge_item source gain item m =
     (case map_of m (cand_id item) of
        None \<Rightarrow> AList.update (cand_id item) (item\<lparr>cand_source := source\<rparr>, 0 + gain) m
      | Some (c, score) \<Rightarrow>
          (let c' = (if source \<in> set (split_plus (cand_source c)) then c
                     else c\<lparr>cand_source := cand_source c @ ''+'' @ source\<rparr>)
           in AList.update (cand_id item) (c', score + gain) m))"

fun merge_source :: "string \<Rightarrow> pyfloat \<Rightarrow> pyfloat \<Rightarrow> nat \<Rightarrow> candidate list \<Rightarrow> merged \<Rightarrow> merged" where
  "merge_source source weight c rank [] m = m"
| "merge_source source weight c rank (x # xs) m =
     merge_source source weight c (Suc rank) xs
       (merge_item source (weight / (c + of_nat rank)) x m)"

definition category_boost :: "pyfloat \<Rightarrow> pydict \<Rightarrow> candidate \<Rightarrow> pyfloat" where
  "category_boost boost inferred c =
     (\<Sum>(k, column) \<leftarrow> [(''main_category'', ''main_category_name''), (''subcategory'', ''subcategory_name'')].
        if dget inferred k \<noteq> VNone \<and> py_eq (dget (cand_metadata c) column) (dget inferred k)
        then boost else 0)"

definition merge_results ::
    "fusion_settings \<Rightarrow> candidate list \<Rightarrow> candidate list \<Rightarrow> pydict \<Rightarrow> candidate list" where
  "merge_results cfg vector_results bm25_results inferred =
     (let m = merge_source ''bm25'' (bm25_weight cfg) (rrf_constant cfg) 1 bm25_results
                (merge_source ''vector'' (vector_weight cfg) (rrf_constant cfg) 1 vector_results []);
          scored = map (\<lambda>(i, c, s). (c, s + category_boost (soft_category_boost cfg) inferred c)) m
      in map (\<lambda>(c, s). c\<lparr>fusion_score := Some s\<rparr>) (sort_desc snd scored))"

subsection \<open>Product ids and ad types\<close>

definition product_id_of :: "string \<Rightarrow> string \<Rightarrow> candidate \<Rightarrow> pyval" where
  "product_id_of search_table id_column c =
     (let metadata = cand_metadata c in
      if \<not> py_in (dget metadata ''source_type'') [VStr ''mysql'', VStr ''postgres''] then VNone
      else if \<not> py_eq (dget metadata ''source_table'') (VStr search_table) then VNone
      else if dget metadata id_column = VNone
              \<and> py_eq (dget metadata ''primary_key_column'') (VStr id_column)
           then dget metadata ''primary_key_value''
      else dget metadata id_column)"

fun extract_go :: "string \<Rightarrow> string \<Rightarrow> string list \<Rightarrow> candidate list \<Rightarrow> pyval list" where
  "extract_go search_table id_column seen [] = []"
| "extract_go search_table id_column seen (c # cs) =
     (let pid = product_id_of search_table id_column c in
      if pid = VNone \<or> py_str pid \<in> set seen then extract_go search_table id_column seen cs
      else pid # extract_go search_table id_column (py_str pid # seen) cs)"

definition extract_product_ids :: "string \<Rightarrow> string \<Rightarrow> candidate list \<Rightarrow> pyval list" where
  "extract_product_ids search_table id_column cs = extract_go search_table id_column [] cs"

definition filter_candidates_by_ad_type ::
    "string \<Rightarrow> string \<Rightarrow> (pyval list \<Rightarrow> string \<Rightarrow> string option) \<Rightarrow> string \<Rightarrow> string list option
      \<Rightarrow> candidate list \<Rightarrow> candidate list" where
  "filter_candidates_by_ad_type search_table id_column fetch target allowed cs =
     (let types = fetch (extract_product_ids search_table id_column cs) in
      filter (\<lambda>c. case extract_product_ids search_table id_column [c] of
          [] \<Rightarrow> False
        | pid # _ \<Rightarrow> (case types (py_str pid) of None \<Rightarrow> False
            | Some t \<Rightarrow> t \<in> set (expected_types target allowed))) cs)"

subsection \<open>vector_search\<close>

definition vector_candidate :: "string \<times> string \<times> pydict \<times> pyfloat \<Rightarrow> candidate" where
  "vector_candidate r = \<lparr>cand_id = fst r, cand_text = fst (snd r), cand_metadata = fst (snd (snd r)),
     cand_score = snd (snd (snd r)), cand_source = ''vector'', fusion_score = None\<rparr>"

lemma collect_rows_eq:
  "collect_rows keep k out rows = out @ take (max 1 (nat k - length out))
     (map vector_candidate (filter (\<lambda>r. keep (fst (snd (snd r)))) rows))"
proof (induction rows arbitrary: out)
  case (Cons r rows)
  obtain d t m x where r: "r = (d, t, m, x)" by (metis prod.exhaust)
  show ?case
  proof (cases "keep m \<and> int (length out) + 1 < k")
    case True
    then have "max 1 (nat k - length out) = Suc (max 1 (nat k - Suc (length out)))" by auto
    then show ?thesis using True Cons [of "out @ [vector_candidate r]"]
      by (simp add: r vector_candidate_def Let_def del: max_Suc_Suc)
  next
    case False
    show ?thesis
    proof (cases "keep m")
      case True
      then have "max 1 (nat k - length out) = Suc 0" using False by auto
      then show ?thesis using True False by (simp add: r vector_candidate_def Let_def)
    qed (simp add: r Cons)
  qed
qed simp

lemma query_collection_options:
  "query_collection query options = Inr results \<Longrightarrow>
    \<exists>used. query used = Inr results \<and> n_results used = n_results options
      \<and> (opt_where used = opt_where options \<or> opt_where used = None)"
proof (induction query options rule: query_collection.induct)
  case (1 query options)
  show ?case
  proof (cases "query options")
    case (Inr r)
    then show ?thesis using 1(4) by (auto simp: query_collection.simps [of query options])
  next
    case (Inl e)
    obtain m where e: "e = TypeError m"
      using 1(4) Inl by (cases e) (simp_all add: query_collection.simps [of query options])
    let ?A = "contains_str m ''post_filter_n_results'' \<and> opt_post_results options \<noteq> None"
    let ?B = "contains_str m ''exact_filter_max_rows'' \<and> opt_exact_rows options \<noteq> None"
    let ?C = "contains_str m ''where'' \<and> opt_where options \<noteq> None"
    have step: "query_collection query options =
        (if ?A then query_collection query (options\<lparr>opt_post_results := None\<rparr>)
         else if ?B then query_collection query (options\<lparr>opt_exact_rows := None\<rparr>)
         else if ?C then query_collection query (options\<lparr>opt_where := None\<rparr>) else Inl (TypeError m))"
      by (subst query_collection.simps) (simp only: Inl e sum.case py_error.case)
    consider ?A | "\<not> ?A" ?B | "\<not> ?A" "\<not> ?B" ?C | "\<not> ?A" "\<not> ?B" "\<not> ?C" by blast
    then show ?thesis
    proof cases
      case a: 1
      have "query_collection query (options\<lparr>opt_post_results := None\<rparr>) = Inr results"
        using 1(4) unfolding step if_P [OF a] .
      from 1(1) [OF Inl e a this] show ?thesis by simp
    next
      case b: 2
      have "query_collection query (options\<lparr>opt_exact_rows := None\<rparr>) = Inr results"
        using 1(4) unfolding step if_not_P [OF b(1)] if_P [OF b(2)] .
      from 1(2) [OF Inl e b this] show ?thesis by simp
    next
      case c: 3
      have "query_collection query (options\<lparr>opt_where := None\<rparr>) = Inr results"
        using 1(4) unfolding step if_not_P [OF c(1)] if_not_P [OF c(2)] if_P [OF c(3)] .
      from 1(3) [OF Inl e c this] show ?thesis by auto
    next
      case d: 4
      show ?thesis
        using 1(4) unfolding step if_not_P [OF d(1)] if_not_P [OF d(2)] if_not_P [OF d(3)] by simp
    qed
  qed
qed

theorem vector_search_exact:
  assumes "vector_search cfg col computed query_embedding k ck (Some (src, fs)) company mode unp = Inr out"
  shows "out = [] \<or> (\<exists>e used results. collection_query col e used = Inr results
    \<and> (opt_where used = vector_where_filter fs unp \<or> opt_where used = None)
    \<and> out = take (max 1 (nat k)) (map vector_candidate (filter (\<lambda>(_, _, metadata, _).
        metadata_matches_filters (fee_ceiling cfg) metadata src fs company unp) (result_rows results))))"
proof (cases "limit_requires_count col \<and> collection_count col \<le> 0")
  case True
  then show ?thesis using assms by (simp add: vector_search_def)
next
  case False
  define options where "options = build_query_options cfg k ck
    (if limit_requires_count col then collection_count col else max ck k) (Some (src, fs)) mode unp"
  obtain e where e: "(case query_embedding of None \<Rightarrow> computed | Some e \<Rightarrow> Inr e) = Inr e"
    using assms False by (auto simp: vector_search_def Let_def split: sum.splits)
  obtain results where q: "query_collection (collection_query col e) options = Inr results"
    and out: "out = collect_rows (\<lambda>metadata. metadata_matches_filters (fee_ceiling cfg) metadata src fs
        company unp) k [] (result_rows results)"
    using assms False e by (auto simp: vector_search_def Let_def options_def split: sum.splits)
  have w: "opt_where options = vector_where_filter fs unp \<or> opt_where options = None"
    by (auto simp: options_def build_query_options_def Let_def split: option.split post_filter_mode.split)
  obtain used where used: "collection_query col e used = Inr results"
    "opt_where used = opt_where options \<or> opt_where used = None"
    using query_collection_options [OF q] by blast
  show ?thesis
    by (rule disjI2, intro exI [of _ e] exI [of _ used] exI [of _ results] conjI used(1))
      (use used(2) w in \<open>auto simp: out collect_rows_eq case_prod_beta'\<close>)
qed

subsection \<open>Older adapters\<close>

text \<open>An adapter that knows only some of the three options.\<close>

record support =
  knows_post :: bool
  knows_exact :: bool
  knows_where :: bool

definition unsupported :: "support \<Rightarrow> query_options \<Rightarrow> string set" where
  "unsupported sp o1 =
     (if opt_post_results o1 \<noteq> None \<and> \<not> knows_post sp then {''post_filter_n_results''} else {})
     \<union> (if opt_exact_rows o1 \<noteq> None \<and> \<not> knows_exact sp then {''exact_filter_max_rows''} else {})
     \<union> (if opt_where o1 \<noteq> None \<and> \<not> knows_where sp then {''where''} else {})"

definition restrict_options :: "support \<Rightarrow> query_options \<Rightarrow> query_options" where
  "restrict_options sp o1 = o1\<lparr>
     opt_post_results := (if knows_post sp then opt_post_results o1 else None),
     opt_exact_rows := (if knows_exact sp then opt_exact_rows o1 else None),
     opt_where := (if knows_where sp then opt_where o1 else None)\<rparr>"

definition rejection :: "string \<Rightarrow> py_error" where
  "rejection keyword = TypeError (''query() got an unexpected keyword argument '' @ keyword)"

lemma rejection_mentions:
  "contains_str (''query() got an unexpected keyword argument '' @ ''post_filter_n_results'') ''post_filter_n_results''"
  "\<not> contains_str (''query() got an unexpected keyword argument '' @ ''exact_filter_max_rows'') ''post_filter_n_results''"
  "contains_str (''query() got an unexpected keyword argument '' @ ''exact_filter_max_rows'') ''exact_filter_max_rows''"
  "\<not> contains_str (''query() got an unexpected keyword argument '' @ ''where'') ''post_filter_n_results''"
  "\<not> contains_str (''query() got an unexpected keyword argument '' @ ''where'') ''exact_filter_max_rows''"
  "contains_str (''query() got an unexpected keyword argument '' @ ''where'') ''where''"
  by code_simp+

lemma query_collection_step:
  assumes "query options = Inl (rejection kw)" and "kw \<in> unsupported sp options"
  shows "\<exists>less. query_collection query options = query_collection query less
    \<and> option_count less < option_count options \<and> restrict_options sp less = restrict_options sp options"
proof -
  note step = query_collection.simps [of query options, unfolded assms(1) rejection_def sum.case py_error.case]
  consider "kw = ''post_filter_n_results''" "opt_post_results options \<noteq> None" "\<not> knows_post sp"
    | "kw = ''exact_filter_max_rows''" "opt_exact_rows options \<noteq> None" "\<not> knows_exact sp"
    | "kw = ''where''" "opt_where options \<noteq> None" "\<not> knows_where sp"
    using assms(2) by (auto simp: unsupported_def split: if_splits)
  then show ?thesis
  proof cases
    case 1
    then have less: "query_collection query options = query_collection query (options\<lparr>opt_post_results := None\<rparr>)"
      by (subst step) (simp only: rejection_mentions simp_thms if_True)
    show ?thesis
      by (rule exI, rule conjI [OF less]) (simp add: option_count_def restrict_options_def 1(2,3))
  next
    case 2
    then have less: "query_collection query options = query_collection query (options\<lparr>opt_exact_rows := None\<rparr>)"
      by (subst step) (simp only: rejection_mentions simp_thms if_True if_False)
    show ?thesis
      by (rule exI, rule conjI [OF less]) (simp add: option_count_def restrict_options_def 2(2,3))
  next
    case 3
    then have less: "query_collection query options = query_collection query (options\<lparr>opt_where := None\<rparr>)"
      by (subst step) (simp only: rejection_mentions simp_thms if_True if_False)
    show ?thesis
      by (rule exI, rule conjI [OF less]) (simp add: option_count_def restrict_options_def 3(2,3))
  qed
qed

theorem older_adapter_answers:
  assumes "\<And>o1. unsupported sp o1 \<noteq> {} \<Longrightarrow> \<exists>kw \<in> unsupported sp o1. query o1 = Inl (rejection kw)"
    and "\<And>o1. unsupported sp o1 = {} \<Longrightarrow> query o1 = Inr (answer o1)"
  shows "query_collection query options = Inr (answer (restrict_options sp options))"
proof (induction "option_count options" arbitrary: options rule: less_induct)
  case less
  show ?case
  proof (cases "unsupported sp options = {}")
    case True
    then have "restrict_options sp options = options"
      by (auto simp: unsupported_def restrict_options_def split: if_splits)
    then show ?thesis using assms(2) [OF True] by (simp add: query_collection.simps)
  next
    case False
    obtain kw where kw: "kw \<in> unsupported sp options" "query options = Inl (rejection kw)"
      using assms(1) [OF False] by blast
    from query_collection_step [where query = query, OF kw(2,1)] less show ?thesis by metis
  qed
qed

definition ex_support :: support where
  "ex_support = \<lparr>knows_post = False, knows_exact = False, knows_where = True\<rparr>"

definition ex_answer :: "query_options \<Rightarrow> vector_results" where
  "ex_answer o1 = \<lparr>res_ids = [''a'', ''b''], res_documents = [''red car'', ''blue car''],
     res_metadatas = [[(''source_file'', VStr ''s''), (''city_name'', VStr ''Kochi''), (''rental_fee'', VFloat 100)],
       [(''source_file'', VStr ''s''), (''city_name'', VStr ''Munnar'')]],
     res_distances = [9/10, 8/10]\<rparr>"

definition ex_adapter :: "query_options \<Rightarrow> py_error + vector_results" where
  "ex_adapter o1 =
     (if opt_post_results o1 \<noteq> None then Inl (rejection ''post_filter_n_results'')
      else if opt_exact_rows o1 \<noteq> None then Inl (rejection ''exact_filter_max_rows'')
      else Inr (ex_answer o1))"

definition ex_scope :: "string \<times> filters" where
  "ex_scope = (''s'', \<lparr>categorical = [(''city_name'', VList [VStr ''Kochi''])], min_fee = None, max_fee = Some 500\<rparr>)"

definition ex_vector :: vector_settings where
  "ex_vector = \<lparr>exact_filter_rows = 1000, overfetch_factor = 10, post_filter_max = 2000, fee_ceiling = 1\<rparr>"

definition ex_options :: query_options where
  "ex_options = build_query_options ex_vector 10 100 50 (Some ex_scope) Adaptive False"

theorem older_adapter_answers_witness:
  "query_collection ex_adapter ex_options = Inr (ex_answer (restrict_options ex_support ex_options))
    \<and> opt_post_results ex_options \<noteq> None"
proof
  show "query_collection ex_adapter ex_options = Inr (ex_answer (restrict_options ex_support ex_options))"
    by (rule older_adapter_answers)
      (auto simp: unsupported_def ex_support_def ex_adapter_def split: if_splits)
  show "opt_post_results ex_options \<noteq> None" by code_simp
qed

definition ex_collection :: "unit collection" where
  "ex_collection = \<lparr>limit_requires_count = True, collection_count = 50, collection_query = (\<lambda>_. ex_adapter)\<rparr>"

definition ex_found :: "py_error + candidate list" where
  "ex_found = vector_search ex_vector ex_collection (Inr ()) None 10 100 (Some ex_scope) None Adaptive False"

lemma ex_found_eval: "map_sum id (map cand_id) ex_found = Inr [''a'']"
  by code_simp

theorem vector_search_exact_witness:
  "\<exists>out. ex_found = Inr out \<and> map cand_id out = [''a''] \<and>
    (out = [] \<or> (\<exists>e used results. collection_query ex_collection e used = Inr results
    \<and> (opt_where used = vector_where_filter (snd ex_scope) False \<or> opt_where used = None)
    \<and> out = take (max 1 (nat 10)) (map vector_candidate (filter (\<lambda>(_, _, metadata, _).
        metadata_matches_filters (fee_ceiling ex_vector) metadata (fst ex_scope) (snd ex_scope) None False)
        (result_rows results)))))"
proof -
  obtain out where out: "ex_found = Inr out" "map cand_id out = [''a'']"
    by (rule map_sum_InrE [OF ex_found_eval])
  have "vector_search ex_vector ex_collection (Inr ()) None 10 100 (Some (fst ex_scope, snd ex_scope))
      None Adaptive False = Inr out"
    unfolding prod.collapse by (rule out(1) [unfolded ex_found_def])
  from vector_search_exact [OF this] show ?thesis by (intro exI [of _ out] conjI out)
qed

subsection \<open>The paged tail\<close>

lemma dedup_from_cong: "set s = set t \<Longrightarrow> dedup_from s xs = dedup_from t xs"
  by (induction s xs arbitrary: t rule: dedup_from.induct) auto

definition tail_ok :: "(string \<Rightarrow> string option) \<Rightarrow> string list \<Rightarrow> string \<Rightarrow> bool" where
  "tail_ok types expected p \<longleftrightarrow> (case types p of None \<Rightarrow> False | Some t \<Rightarrow> t \<in> set expected)"

lemma tail_page_eq:
  assumes "length found < limit"
  shows "fst (tail_page types expected limit ids found seen)
      = take limit (found @ filter (tail_ok types expected) (dedup_from seen ids))
    \<and> (length (fst (tail_page types expected limit ids found seen)) < limit \<longrightarrow>
        set (snd (tail_page types expected limit ids found seen)) = set seen \<union> set ids)"
  using assms
proof (induction ids arbitrary: found seen)
  case (Cons p ps)
  show ?case
  proof (cases "p \<in> set seen")
    case True
    then show ?thesis using Cons by auto
  next
    case False
    show ?thesis
    proof (cases "tail_ok types expected p \<and> limit \<le> length (found @ [p])")
      case True
      then have "limit - length found = Suc 0" using Cons.prems by (simp add: Suc_diff_Suc le_antisym) linarith
      then show ?thesis using True False Cons.prems
        by (auto simp: tail_ok_def Let_def split: option.splits)
    next
      case no: False
      then show ?thesis using False Cons.prems Cons.IH [of found "p # seen"] Cons.IH [of "found @ [p]" "p # seen"]
        by (auto simp: tail_ok_def Let_def split: option.splits)
    qed
  qed
qed simp

text \<open>A source that is read in pages of a fixed size.\<close>

locale paged_source =
  fixes page_at :: "int \<Rightarrow> py_error + (string \<times> string) list"
    and rows :: "(string \<times> string) list" and size_of_page :: nat
  assumes page_at: "page_at (int o1) = Inr (take size_of_page (drop o1 rows))"
    and page_pos: "0 < size_of_page"
begin

lemma tail_loop_total:
  assumes "\<And>ids i. i \<in> set ids \<Longrightarrow> fetch ids i = types i" and "length found \<le> limit"
  shows "tail_loop page_at fetch expected limit size_of_page o1 found seen =
    Some (Inr (take limit (found @ filter (tail_ok types expected) (dedup_from seen (map snd (drop o1 rows))))))"
  using assms(2)
proof (induction "length rows - o1" arbitrary: o1 found seen rule: less_induct)
  case less
  let ?page = "take size_of_page (drop o1 rows)"
  let ?ids = "map snd ?page"
  let ?rest = "map snd (drop (o1 + size_of_page) rows)"
  have ids: "map snd (drop o1 rows) = ?ids @ ?rest"
    by (metis append_take_drop_id drop_drop map_append add.commute)
  show ?case
  proof (cases "limit \<le> length found \<or> ?page = []")
    case True
    then show ?thesis using less.prems page_pos
      by (subst tail_loop.simps) (auto simp: page_at)
  next
    case False
    let ?res = "tail_page (fetch ?ids) expected limit ?ids found seen"
    have cong: "tail_page (fetch ?ids) expected limit ?ids found seen
        = tail_page types expected limit ?ids found seen"
    proof -
      have "tail_page f expected limit xs a b = tail_page types expected limit xs a b"
        if "\<And>i. i \<in> set xs \<Longrightarrow> f i = types i" for f xs a b
        using that by (induction xs arbitrary: a b) (auto simp: Let_def split: option.split)
      then show ?thesis using assms(1) by blast
    qed
    note page = tail_page_eq [of found limit types expected ?ids seen, folded cong]
    have len: "length found < limit" using False by simp
    have step: "tail_loop page_at fetch expected limit size_of_page o1 found seen =
        (if length ?page < size_of_page then Some (Inr (fst ?res))
         else tail_loop page_at fetch expected limit size_of_page (o1 + length ?page) (fst ?res) (snd ?res))"
      using False by (subst tail_loop.simps) (simp add: page_at Let_def)
    have whole: "take limit (fst ?res @ filter (tail_ok types expected) (dedup_from (snd ?res) ?rest))
        = take limit (found @ filter (tail_ok types expected) (dedup_from seen (?ids @ ?rest)))"
    proof (cases "length (fst ?res) < limit")
      case True
      then have "dedup_from (snd ?res) ?rest = dedup_from (rev ?ids @ seen) ?rest"
        using page len by (intro dedup_from_cong) auto
      then show ?thesis using page len True by (simp add: dedup_from_append)
    next
      case no: False
      then show ?thesis using page [OF len] len by (simp add: dedup_from_append)
    qed
    have short: "length (fst ?res) \<le> limit"
      by (simp only: page [OF len, THEN conjunct1]) simp
    show ?thesis
    proof (cases "length ?page < size_of_page")
      case True
      then have "?rest = []" by simp
      then have "fst ?res = take limit (found @ filter (tail_ok types expected)
          (dedup_from seen (map snd (drop o1 rows))))"
        using whole short unfolding ids by (simp del: take_append)
      then show ?thesis unfolding step if_P [OF True] by (simp only:)
    next
      case no: False
      have "tail_loop page_at fetch expected limit size_of_page (o1 + length ?page) (fst ?res) (snd ?res)
          = Some (Inr (take limit (fst ?res @ filter (tail_ok types expected)
              (dedup_from (snd ?res) (map snd (drop (o1 + length ?page) rows))))))"
      proof (rule less.hyps [OF _ short])
        have "?page \<noteq> []" using False by blast
        then show "length rows - (o1 + length ?page) < length rows - o1" by auto
      qed
      moreover have "map snd (drop (o1 + length ?page) rows) = ?rest" using no by simp
      ultimately show ?thesis unfolding step if_not_P [OF no] ids whole [symmetric] by (simp only:)
    qed
  qed
qed

end

definition sort_name :: "sort_order option \<Rightarrow> string option" where
  "sort_name order = map_option (\<lambda>d. case d of PriceAsc \<Rightarrow> ''price_asc'' | PriceDesc \<Rightarrow> ''price_desc'') order"

lemma parse_sort_name [simp]: "parse_sort (sort_name order) = Some order"
  by (cases order) (auto simp: parse_sort_def sort_name_def split: sort_order.split)

lemma tail_page_size_pos [simp]: "0 < tail_page_size n"
  by (simp add: tail_page_size_def)

interpretation lexical: paged_source
    "\<lambda>offset. browse ceil (rq\<lparr>br_sort := sort_name order\<rparr>) (int (tail_page_size n)) offset ix"
    "map (\<lambda>p. (doc_id p, product_id p)) (browse_all ceil order (rq\<lparr>br_sort := sort_name order\<rparr>) ix)"
    "tail_page_size n"
  for ceil rq order n ix
  by unfold_locales (simp_all add: browse_def take_map drop_map)

text \<open>The rows the tail reads: all rows of the filters and of the inferred categories.\<close>

definition tail_rows :: "pyfloat \<Rightarrow> bm25_index \<Rightarrow> filters \<Rightarrow> pydict \<Rightarrow> string \<Rightarrow> string list
    \<Rightarrow> sort_order option \<Rightarrow> string list option \<Rightarrow> product list" where
  "tail_rows ceil ix fs inferred target exclude_docs order allowed =
     browse_all ceil order \<lparr>br_filters = fs, br_category = tail_category_filters fs inferred,
       br_exclude = exclude_docs, br_sort = sort_name order,
       br_unpriced = (set (expected_types target allowed) = {WANTED_AD_TYPE})\<rparr> ix"

theorem related_tail_exact:
  assumes "\<And>ids i. i \<in> set ids \<Longrightarrow> fetch ids i = types i" and "0 < limit"
    and "categorical fs \<noteq> [] \<or> tail_category_filters fs inferred \<noteq> [] \<or> min_fee fs \<noteq> None \<or> max_fee fs \<noteq> None"
  shows "related_tail_product_ids ceil ix fs inferred target limit exclude_docs exclude_products fetch
      (sort_name order) allowed
    = Some (Inr (take (nat limit) (filter (tail_ok types (expected_types target allowed))
        (dedup_from exclude_products (map product_id
          (tail_rows ceil ix fs inferred target exclude_docs order allowed))))))"
proof -
  let ?rq = "\<lparr>br_filters = fs, br_category = tail_category_filters fs inferred,
      br_exclude = exclude_docs, br_sort = sort_name order,
      br_unpriced = (set (expected_types target allowed) = {WANTED_AD_TYPE})\<rparr>"
  have "related_tail_product_ids ceil ix fs inferred target limit exclude_docs exclude_products fetch
      (sort_name order) allowed
    = tail_loop (\<lambda>offset. browse ceil (?rq\<lparr>br_sort := sort_name order\<rparr>)
          (int (tail_page_size (nat limit))) offset ix)
        fetch (expected_types target allowed) (nat limit) (tail_page_size (nat limit)) 0 [] exclude_products"
    using assms(2,3) by (auto simp: related_tail_product_ids_def Let_def)
  also have "\<dots> = Some (Inr (take (nat limit) ([] @ filter (tail_ok types (expected_types target allowed))
        (dedup_from exclude_products (map snd (drop 0 (map (\<lambda>p. (doc_id p, product_id p))
          (browse_all ceil order (?rq\<lparr>br_sort := sort_name order\<rparr>) ix))))))))"
    by (rule lexical.tail_loop_total [OF assms(1)]) simp_all
  finally show ?thesis by (simp add: tail_rows_def comp_def)
qed

definition ex_types :: "string \<Rightarrow> string option" where
  "ex_types i = (if i = ''pa'' then Some ''1'' else if i = ''pb'' then Some ''2'' else Some ''1'')"

definition ex_tail_filters :: filters where
  "ex_tail_filters = \<lparr>categorical = [(''state_name'', VStr ''Kerala'')], min_fee = None, max_fee = None\<rparr>"

theorem related_tail_exact_witness:
  "related_tail_product_ids 1 ex_index ex_tail_filters [] ''offer'' 5 [] [''px''] (\<lambda>ids. ex_types)
      (sort_name (Some PriceAsc)) None
    = Some (Inr (take (nat 5) (filter (tail_ok ex_types (expected_types ''offer'' None))
        (dedup_from [''px''] (map product_id (tail_rows 1 ex_index ex_tail_filters [] ''offer'' [] (Some PriceAsc) None))))))
   \<and> map product_id (tail_rows 1 ex_index ex_tail_filters [] ''offer'' [] (Some PriceAsc) None) = [''pc'', ''pa'', ''pb'']"
proof
  show "related_tail_product_ids 1 ex_index ex_tail_filters [] ''offer'' 5 [] [''px''] (\<lambda>ids. ex_types)
      (sort_name (Some PriceAsc)) None
    = Some (Inr (take (nat 5) (filter (tail_ok ex_types (expected_types ''offer'' None))
        (dedup_from [''px''] (map product_id (tail_rows 1 ex_index ex_tail_filters [] ''offer'' [] (Some PriceAsc) None))))))"
    by (rule related_tail_exact) (simp_all add: ex_tail_filters_def)
qed code_simp

subsection \<open>Fusion\<close>

definition gain_sum :: "pyfloat \<Rightarrow> pyfloat \<Rightarrow> nat \<Rightarrow> candidate list \<Rightarrow> string \<Rightarrow> pyfloat" where
  "gain_sum w c start xs i =
     (\<Sum>(rank, x) \<leftarrow> enumerate start xs. if cand_id x = i then w / (c + of_nat rank) else 0)"

definition fused :: "merged \<Rightarrow> string \<Rightarrow> pyfloat" where
  "fused m i = (case map_of m i of None \<Rightarrow> 0 | Some (_, s) \<Rightarrow> s)"

lemma merge_item_keys [retrieval_facts]:
  "distinct (map fst m) \<Longrightarrow> distinct (map fst (merge_item source g x m))"
  "fst ` set (merge_item source g x m) = insert (cand_id x) (fst ` set m)"
  by (auto simp: merge_item_def Let_def distinct_update dom_update split: option.splits)

lemma merge_item_fused: "fused (merge_item source g x m) i = fused m i + (if cand_id x = i then g else 0)"
  by (auto simp: fused_def merge_item_def Let_def update_conv' split: option.splits)

lemma merge_source_fused:
  "fused (merge_source source w c start xs m) i = fused m i + gain_sum w c start xs i"
proof (induction xs arbitrary: start m)
  case (Cons x xs)
  then show ?case by (simp add: merge_item_fused gain_sum_def add.assoc)
qed (simp add: gain_sum_def)

lemma merge_source_keys:
  "distinct (map fst m) \<Longrightarrow> distinct (map fst (merge_source source w c start xs m))"
  "fst ` set (merge_source source w c start xs m) = fst ` set m \<union> cand_id ` set xs"
  by (induction xs arbitrary: start m) (auto simp: merge_item_keys)

text \<open>The source label of an id, given the ids seen by the two searches.\<close>

definition source_label :: "bool \<Rightarrow> bool \<Rightarrow> string" where
  "source_label in_vector in_lexical =
     (if in_vector then if in_lexical then ''vector+bm25'' else ''vector'' else ''bm25'')"

definition entries_ok :: "string set \<Rightarrow> string set \<Rightarrow> merged \<Rightarrow> bool" where
  "entries_ok V B m \<longleftrightarrow> (\<forall>i c s. map_of m i = Some (c, s) \<longrightarrow>
     cand_id c = i \<and> cand_source c = source_label (i \<in> V) (i \<in> B))
     \<and> V \<union> B = fst ` set m"

lemma entries_okD:
  assumes "entries_ok V B m" and "map_of m i = Some (c, s)"
  shows "cand_id c = i" "cand_source c = source_label (i \<in> V) (i \<in> B)" "i \<in> V \<union> B"
proof -
  show "cand_id c = i" "cand_source c = source_label (i \<in> V) (i \<in> B)"
    using assms unfolding entries_ok_def by blast+
  have "i \<in> fst ` set m" using map_of_SomeD [OF assms(2)] by force
  then show "i \<in> V \<union> B" using assms(1) unfolding entries_ok_def by blast
qed

lemma split_plus_labels:
  "split_plus ''vector'' = [''vector'']" "split_plus ''bm25'' = [''bm25'']"
  "split_plus ''vector+bm25'' = [''vector'', ''bm25'']"
  by code_simp+

lemma merge_item_vector:
  assumes "entries_ok V {} m"
  shows "entries_ok (insert (cand_id x) V) {} (merge_item ''vector'' g x m)"
proof (cases "map_of m (cand_id x)")
  case None
  with assms show ?thesis
    by (auto simp: entries_ok_def merge_item_def update_conv' dom_update source_label_def)
next
  case (Some e)
  obtain c s where e: "e = (c, s)" by (cases e)
  have c: "cand_id c = cand_id x" "cand_source c = ''vector''" "cand_id x \<in> V"
    using entries_okD [OF assms Some [unfolded e]] by (auto simp: source_label_def)
  have "merge_item ''vector'' g x m = AList.update (cand_id x) (c, s + g) m"
    by (simp add: merge_item_def Some e Let_def c(2) split_plus_labels)
  with assms c show ?thesis
    by (auto simp: entries_ok_def update_conv' dom_update source_label_def)
qed

lemma merge_item_lexical:
  assumes "entries_ok V B m"
  shows "entries_ok V (insert (cand_id x) B) (merge_item ''bm25'' g x m)"
proof (cases "map_of m (cand_id x)")
  case None
  then have "cand_id x \<notin> V" using assms by (auto simp: entries_ok_def map_of_eq_None_iff)
  with assms None show ?thesis
    by (auto simp: entries_ok_def merge_item_def update_conv' dom_update source_label_def)
next
  case (Some e)
  obtain c s where e: "e = (c, s)" by (cases e)
  have c: "cand_id c = cand_id x" "cand_source c = source_label (cand_id x \<in> V) (cand_id x \<in> B)"
    "cand_id x \<in> V \<union> B"
    using entries_okD [OF assms Some [unfolded e]] by auto
  define c' where "c' = (if cand_id x \<in> B then c else c\<lparr>cand_source := ''vector+bm25''\<rparr>)"
  have "''bm25'' \<in> set (split_plus (cand_source c)) \<longleftrightarrow> cand_id x \<in> B"
    using c by (auto simp: source_label_def split_plus_labels)
  moreover have "cand_id x \<notin> B \<Longrightarrow> cand_source c = ''vector''"
    using c by (auto simp: source_label_def)
  ultimately have "merge_item ''bm25'' g x m = AList.update (cand_id x) (c', s + g) m"
    by (auto simp: merge_item_def Some e Let_def c'_def)
  moreover have "cand_id c' = cand_id x"
    "cand_source c' = source_label (cand_id x \<in> V) (cand_id x \<in> insert (cand_id x) B)"
    using c by (auto simp: c'_def source_label_def)
  ultimately show ?thesis using assms c(3)
    by (auto simp: entries_ok_def update_conv' dom_update)
qed

lemma merge_source_entries:
  "entries_ok V {} m \<Longrightarrow> entries_ok (V \<union> cand_id ` set xs) {} (merge_source ''vector'' w c n xs m)"
  "entries_ok V B m \<Longrightarrow> entries_ok V (B \<union> cand_id ` set xs) (merge_source ''bm25'' w c n xs m)"
proof (induction xs arbitrary: m n V B)
  case (Cons x xs)
  { case 1
    from Cons.IH(1) [OF merge_item_vector [OF this]] show ?case by simp }
  { case 2
    from Cons.IH(2) [OF merge_item_lexical [OF this]] show ?case by simp }
qed simp_all

text \<open>
  C40: merge_results returns every candidate of either list once, in descending order of the
  weighted reciprocal-rank sum plus the soft category boosts, with a source label that says
  which searches found it.
\<close>

theorem merge_results_reciprocal_rank:
  "distinct (map cand_id (merge_results cfg vec kws inferred))
   \<and> set (map cand_id (merge_results cfg vec kws inferred)) = cand_id ` set vec \<union> cand_id ` set kws
   \<and> sorted_wrt (\<lambda>a b. the (fusion_score b) \<le> the (fusion_score a)) (merge_results cfg vec kws inferred)
   \<and> list_all (\<lambda>r.
        fusion_score r = Some (gain_sum (vector_weight cfg) (rrf_constant cfg) 1 vec (cand_id r)
          + gain_sum (bm25_weight cfg) (rrf_constant cfg) 1 kws (cand_id r)
          + category_boost (soft_category_boost cfg) inferred r)
        \<and> cand_source r = source_label (cand_id r \<in> cand_id ` set vec) (cand_id r \<in> cand_id ` set kws))
      (merge_results cfg vec kws inferred)"
proof -
  let ?V = "cand_id ` set vec" and ?B = "cand_id ` set kws"
  define m where "m = merge_source ''bm25'' (bm25_weight cfg) (rrf_constant cfg) 1 kws
      (merge_source ''vector'' (vector_weight cfg) (rrf_constant cfg) 1 vec [])"
  define scored where
    "scored = map (\<lambda>(i, c, s). (c, s + category_boost (soft_category_boost cfg) inferred c)) m"
  have out: "merge_results cfg vec kws inferred = map (\<lambda>(c, s). c\<lparr>fusion_score := Some s\<rparr>) (sort_desc snd scored)"
    by (simp add: merge_results_def m_def scored_def Let_def)
  have "entries_ok {} {} []" by (simp add: entries_ok_def)
  from merge_source_entries(2) [OF merge_source_entries(1) [OF this]]
  have ok: "entries_ok ?V ?B m" unfolding m_def by simp
  have dist: "distinct (map fst m)" unfolding m_def by (simp add: merge_source_keys)
  have mem: "(i, c, s) \<in> set m \<longleftrightarrow> map_of m i = Some (c, s)" for i c s
    using dist by simp
  have ids: "map cand_id (map (\<lambda>(c, s). c) scored) = map fst m"
    using ok mem by (auto simp: scored_def entries_ok_def)
  have score: "s = gain_sum (vector_weight cfg) (rrf_constant cfg) 1 vec i
      + gain_sum (bm25_weight cfg) (rrf_constant cfg) 1 kws i" if "map_of m i = Some (c, s)" for i c s
  proof -
    have "fused m i = gain_sum (vector_weight cfg) (rrf_constant cfg) 1 vec i
      + gain_sum (bm25_weight cfg) (rrf_constant cfg) 1 kws i"
      by (simp add: m_def merge_source_fused) (simp add: fused_def)
    then show ?thesis using that by (simp add: fused_def)
  qed
  have boost: "category_boost b inf (c\<lparr>fusion_score := f\<rparr>) = category_boost b inf c" for b inf c f
    by (simp add: category_boost_def)
  have "mset (map cand_id (merge_results cfg vec kws inferred)) = mset (map fst m)"
  proof -
    have "map cand_id (merge_results cfg vec kws inferred) = map (\<lambda>(c, s). cand_id c) (sort_desc snd scored)"
      by (auto simp: out)
    moreover have "mset (map (\<lambda>(c, s). cand_id c) (sort_desc snd scored)) = mset (map (\<lambda>(c, s). cand_id c) scored)"
      by (metis mset_map mset_sort_desc)
    moreover have "map (\<lambda>(c, s). cand_id c) scored = map fst m" using ids by (simp add: case_prod_beta' comp_def)
    ultimately show ?thesis by (simp only:)
  qed
  then have 1: "distinct (map cand_id (merge_results cfg vec kws inferred))"
      "set (map cand_id (merge_results cfg vec kws inferred)) = ?V \<union> ?B"
    using dist ok by (metis mset_eq_imp_distinct_iff, metis entries_ok_def list.set_map mset_eq_setD)
  have 2: "sorted_wrt (\<lambda>a b. the (fusion_score b) \<le> the (fusion_score a)) (merge_results cfg vec kws inferred)"
    using sort_desc_sorted [of snd scored] by (simp add: out sorted_wrt_map case_prod_beta')
  have 3: "fusion_score r = Some (gain_sum (vector_weight cfg) (rrf_constant cfg) 1 vec (cand_id r)
          + gain_sum (bm25_weight cfg) (rrf_constant cfg) 1 kws (cand_id r)
          + category_boost (soft_category_boost cfg) inferred r)
        \<and> cand_source r = source_label (cand_id r \<in> ?V) (cand_id r \<in> ?B)"
    if r_in: "r \<in> set (merge_results cfg vec kws inferred)" for r
  proof -
    obtain i c s where e: "map_of m i = Some (c, s)"
      and r: "r = c\<lparr>fusion_score := Some (s + category_boost (soft_category_boost cfg) inferred c)\<rparr>"
      using r_in mem by (auto simp: out scored_def)
    have "cand_id c = i" "cand_source c = source_label (i \<in> ?V) (i \<in> ?B)"
      using ok e by (auto simp: entries_ok_def)
    then show ?thesis using score [OF e] by (simp add: r boost)
  qed
  show ?thesis unfolding list_all_iff using 1 2 3 by blast
qed

subsection \<open>Ad types\<close>

lemma extract_go_ids:
  "py_str ` set (extract_go t c seen cs) = {py_str (product_id_of t c x) |x. x \<in> set cs \<and> product_id_of t c x \<noteq> VNone} - set seen"
proof (induction cs arbitrary: seen)
  case (Cons x cs)
  then show ?case by (auto simp: Let_def)
qed simp

lemma extract_single:
  "extract_product_ids t c [x] = (if product_id_of t c x = VNone then [] else [product_id_of t c x])"
  by (simp add: extract_product_ids_def Let_def)

theorem ad_type_filter_exact:
  assumes "\<And>ids s. s \<in> py_str ` set ids \<Longrightarrow> fetch ids s = types s"
  shows "filter_candidates_by_ad_type t c fetch target allowed cs =
    filter (\<lambda>x. product_id_of t c x \<noteq> VNone
      \<and> (\<exists>ty \<in> set (expected_types target allowed). types (py_str (product_id_of t c x)) = Some ty)) cs"
proof -
  have "fetch (extract_product_ids t c cs) (py_str (product_id_of t c x)) = types (py_str (product_id_of t c x))"
    if "x \<in> set cs" "product_id_of t c x \<noteq> VNone" for x
    using that extract_go_ids [of t c "[]" cs] by (intro assms) (auto simp: extract_product_ids_def)
  then show ?thesis
    by (auto simp: filter_candidates_by_ad_type_def extract_single intro!: filter_cong split: option.split)
qed

definition ex_ad_candidate :: "string \<Rightarrow> candidate" where
  "ex_ad_candidate i = \<lparr>cand_id = i, cand_text = [], cand_metadata = [(''source_type'', VStr ''mysql''),
     (''source_table'', VStr ''products''), (''id'', VStr i)], cand_score = 0, cand_source = ''bm25'', fusion_score = None\<rparr>"

definition ex_fetch :: "pyval list \<Rightarrow> string \<Rightarrow> string option" where
  "ex_fetch ids s = (if s \<in> set (map py_str ids) then ex_types s else None)"

theorem ad_type_filter_exact_witness:
  "filter_candidates_by_ad_type ''products'' ''id'' ex_fetch ''offer'' None [ex_ad_candidate ''pa'', ex_ad_candidate ''pb'']
    = filter (\<lambda>x. product_id_of ''products'' ''id'' x \<noteq> VNone
        \<and> (\<exists>ty \<in> set (expected_types ''offer'' None). ex_types (py_str (product_id_of ''products'' ''id'' x)) = Some ty))
      [ex_ad_candidate ''pa'', ex_ad_candidate ''pb'']
   \<and> map cand_id (filter_candidates_by_ad_type ''products'' ''id'' ex_fetch ''offer'' None
      [ex_ad_candidate ''pa'', ex_ad_candidate ''pb'']) = [''pa'']"
proof
  show "filter_candidates_by_ad_type ''products'' ''id'' ex_fetch ''offer'' None [ex_ad_candidate ''pa'', ex_ad_candidate ''pb'']
    = filter (\<lambda>x. product_id_of ''products'' ''id'' x \<noteq> VNone
        \<and> (\<exists>ty \<in> set (expected_types ''offer'' None). ex_types (py_str (product_id_of ''products'' ''id'' x)) = Some ty))
      [ex_ad_candidate ''pa'', ex_ad_candidate ''pb'']"
    by (rule ad_type_filter_exact) (auto simp: ex_fetch_def)
qed code_simp

subsection \<open>The two searches filter alike\<close>

text \<open>Metadata of the vector store that describes the same product as an index row.\<close>

definition describes :: "pydict \<Rightarrow> product \<Rightarrow> bool" where
  "describes metadata p \<longleftrightarrow> (\<forall>c \<in> set STRUCTURED_FILTER_COLUMNS. dget metadata c = column p c)
     \<and> dget metadata ''rental_fee'' = (case rental_fee p of None \<Rightarrow> VNone | Some f \<Rightarrow> VFloat f)"

text \<open>Filters as the planner resolves them: known columns, no NULL and no empty list.\<close>

definition plain_filters :: "filters \<Rightarrow> bool" where
  "plain_filters fs \<longleftrightarrow> list_all (\<lambda>(c, v). c \<in> set STRUCTURED_FILTER_COLUMNS \<and>
     (case v of VNone \<Rightarrow> False | VList vs \<Rightarrow> vs \<noteq> [] \<and> VNone \<notin> set vs | _ \<Rightarrow> True)) (categorical fs)"

lemma fee_agrees:
  "fee_matches ceil fs unp (case fee of None \<Rightarrow> VNone | Some f \<Rightarrow> VFloat f) = price_condition ceil fs unp fee"
  by (cases fee) (auto simp: fee_matches_def price_condition_def Let_def split: option.split)

lemma py_eq_VNone [simp]: "py_eq v VNone \<longleftrightarrow> v = VNone"
  by (cases v) (auto simp: py_eq.simps)

lemma category_agrees:
  assumes "case v of VNone \<Rightarrow> False | VList vs \<Rightarrow> vs \<noteq> [] \<and> VNone \<notin> set vs | _ \<Rightarrow> True"
  shows "category_matches v a = filter_condition v a"
proof (cases v)
  case (VList vs)
  then have "VNone \<notin> set vs" "vs \<noteq> []" using assms by auto
  then have "(\<exists>x \<in> set vs. py_eq a x) \<longleftrightarrow> (\<exists>x \<in> set vs. a \<noteq> VNone \<and> x \<noteq> VNone \<and> py_eq a x)"
    by (metis py_eq_none)
  then show ?thesis using VList \<open>vs \<noteq> []\<close>
    by (simp add: category_matches_def filter_condition_def sql_eq_def py_in_def list_ex_iff)
qed (use assms in \<open>auto simp: category_matches_def filter_condition_def sql_eq_def\<close>)

theorem lexical_and_metadata_filters_agree:
  assumes "describes metadata p" and "plain_filters fs"
    and "dget metadata ''source_file'' = VStr src" and "dget metadata ''company_id'' = VStr company"
  shows "metadata_matches_filters ceil metadata src fs (Some company) unp \<longleftrightarrow> row_matches ceil fs unp p"
proof -
  have "category_matches v (dget metadata c) = filter_condition v (column p c)
      \<and> c \<in> set STRUCTURED_FILTER_COLUMNS" if "(c, v) \<in> set (categorical fs)" for c v
    using assms(1,2) that by (auto simp: plain_filters_def describes_def list_all_iff category_agrees)
  then have "list_all (\<lambda>(c, v). category_matches v (dget metadata c)) (categorical fs) \<longleftrightarrow>
      (\<forall>(c, v) \<in> set (categorical fs). c \<in> set STRUCTURED_FILTER_COLUMNS \<longrightarrow> filter_condition v (column p c))"
    by (auto simp: list_all_iff)
  then show ?thesis
    using assms by (simp add: metadata_matches_filters_def row_matches_def describes_def fee_agrees)
qed

definition ex_product :: product where
  "ex_product = hd (products ex_index)"

definition ex_metadata :: pydict where
  "ex_metadata = map (\<lambda>c. (c, column ex_product c)) STRUCTURED_FILTER_COLUMNS
     @ [(''rental_fee'', VFloat 100), (''source_file'', VStr ''s''), (''company_id'', VStr ''co'')]"

definition ex_plain_filters :: filters where
  "ex_plain_filters = \<lparr>categorical = [(''city_name'', VList [VStr ''Kochi'', VStr ''Munnar''])],
     min_fee = Some 10, max_fee = Some 500\<rparr>"

lemma ex_describes:
  "describes ex_metadata ex_product" "plain_filters ex_plain_filters"
  "dget ex_metadata ''source_file'' = VStr ''s''" "dget ex_metadata ''company_id'' = VStr ''co''"
  by code_simp+

theorem lexical_and_metadata_filters_agree_witness:
  "(metadata_matches_filters 1 ex_metadata ''s'' ex_plain_filters (Some ''co'') False
      \<longleftrightarrow> row_matches 1 ex_plain_filters False ex_product)
   \<and> row_matches 1 ex_plain_filters False ex_product"
  by (rule conjI, rule lexical_and_metadata_filters_agree [OF ex_describes]) code_simp

end
