(* ===== verification/Text_Matching.thy ===== *)
theory Text_Matching
  imports Py_Text "HOL-Library.Sublist"
begin

text \<open>
  The string comparison of \<open>search/planner_catalog.py\<close>: the row-by-row edit distance, the
  iterator test for an ordered subsequence, and the two functions of \<open>difflib\<close> the planner
  uses (\<open>SequenceMatcher(None, a, b).ratio()\<close> for texts below 200 characters, where no
  character counts as popular, and \<open>get_close_matches\<close>).
\<close>

named_theorems matching_facts \<open>facts of string comparison\<close>

subsection \<open>edit_distance\<close>

text \<open>
  One row: \<open>prev\<close> is the part of the previous row from the current column on, \<open>left\<close> the
  value just appended.
\<close>

fun edit_row :: "char \<Rightarrow> nat \<Rightarrow> nat list \<Rightarrow> string \<Rightarrow> nat list" where
  "edit_row c left (d # u # prev) (x # xs) =
     (let v = min (min (left + 1) (u + 1)) (d + (if c = x then 0 else 1))
      in v # edit_row c v (u # prev) xs)"
| "edit_row c left prev xs = []"

fun edit_rows :: "nat \<Rightarrow> nat list \<Rightarrow> string \<Rightarrow> string \<Rightarrow> nat list" where
  "edit_rows i prev [] right = prev"
| "edit_rows i prev (c # cs) right = edit_rows (Suc i) (i # edit_row c i prev right) cs right"

definition edit_distance :: "string \<Rightarrow> string \<Rightarrow> nat" where
  "edit_distance left right =
     (if left = right then 0
      else if left = [] then length right
      else if right = [] then length left
      else last (edit_rows 1 [0..<length right + 1] left right))"

text \<open>The Levenshtein distance of the prefixes, read from their ends.\<close>

fun lev :: "string \<Rightarrow> string \<Rightarrow> nat" where
  "lev [] ys = length ys"
| "lev xs [] = length xs"
| "lev (x # xs) (y # ys) =
     min (min (lev xs (y # ys) + 1) (lev (x # xs) ys + 1)) (lev xs ys + (if x = y then 0 else 1))"

text \<open>The row after the prefix \<open>p\<close> of the left text: its distance to each prefix of the right.\<close>

definition lev_row :: "string \<Rightarrow> string \<Rightarrow> nat list" where
  "lev_row p right = map (\<lambda>j. lev (rev p) (rev (take j right))) [0..<Suc (length right)]"

lemma lev_Nil_right [simp]: "lev xs [] = length xs"
  by (cases xs) auto

lemma lev_row_drop:
  assumes "j \<le> length right"
  shows "drop j (lev_row p right) = lev (rev p) (rev (take j right)) # drop (Suc j) (lev_row p right)"
proof -
  have len: "j < length (lev_row p right)" using assms by (simp add: lev_row_def)
  have "lev_row p right ! j = lev (rev p) (rev (take j right))"
    using assms by (simp add: lev_row_def del: upt_Suc)
  then show ?thesis using Cons_nth_drop_Suc [OF len] by simp
qed

lemma edit_row_lev:
  "j \<le> length right \<Longrightarrow>
    edit_row c (lev (rev (p @ [c])) (rev (take j right))) (drop j (lev_row p right)) (drop j right)
      = drop (Suc j) (lev_row (p @ [c]) right)"
proof (induction "length right - j" arbitrary: j)
  case 0
  then have "j = length right" by simp
  then show ?case by (simp add: lev_row_def)
next
  case (Suc n)
  then have j: "j < length right" "n = length right - Suc j" by auto
  have row: "drop j (lev_row p right) = lev (rev p) (rev (take j right))
      # lev (rev p) (rev (take (Suc j) right)) # drop (Suc (Suc j)) (lev_row p right)"
    using j lev_row_drop [of j right p] lev_row_drop [of "Suc j" right p] by simp
  have right: "drop j right = right ! j # drop (Suc j) right"
    using j by (simp add: Cons_nth_drop_Suc)
  let ?v = "lev (rev (p @ [c])) (rev (take (Suc j) right))"
  have v: "min (min (lev (rev (p @ [c])) (rev (take j right)) + 1) (lev (rev p) (rev (take (Suc j) right)) + 1))
      (lev (rev p) (rev (take j right)) + (if c = right ! j then 0 else 1)) = ?v"
    using j by (simp add: take_Suc_conv_app_nth min.commute)
  have "edit_row c ?v (drop (Suc j) (lev_row p right)) (drop (Suc j) right)
      = drop (Suc (Suc j)) (lev_row (p @ [c]) right)"
    using Suc.hyps(1) [of "Suc j"] j by simp
  moreover have "drop (Suc j) (lev_row p right)
      = lev (rev p) (rev (take (Suc j) right)) # drop (Suc (Suc j)) (lev_row p right)"
    using j lev_row_drop [of "Suc j" right p] by simp
  ultimately show ?case
    using lev_row_drop [of "Suc j" right "p @ [c]"] j
    by (simp only: row right edit_row.simps Let_def v Suc_leI)
qed

lemma edit_rows_lev:
  "edit_rows (Suc (length p)) (lev_row p right) cs right = lev_row (p @ cs) right"
proof (induction cs arbitrary: p)
  case (Cons c cs)
  have "edit_row c (Suc (length p)) (lev_row p right) right = drop 1 (lev_row (p @ [c]) right)"
    using edit_row_lev [of 0 right c p] by simp
  moreover have "lev_row (p @ [c]) right = Suc (length p) # drop 1 (lev_row (p @ [c]) right)"
    using lev_row_drop [of 0 right "p @ [c]"] by simp
  ultimately have "Suc (length p) # edit_row c (Suc (length p)) (lev_row p right) right
      = lev_row (p @ [c]) right" by simp
  then show ?case using Cons.IH [of "p @ [c]"] by simp
qed simp

lemma lev_refl [simp]: "lev xs xs = 0"
  by (induction xs) auto

theorem edit_distance_levenshtein: "edit_distance left right = lev (rev left) (rev right)"
proof -
  have "lev_row [] right = [0..<length right + 1]"
    by (rule nth_equalityI) (simp_all add: lev_row_def del: upt_Suc)
  then have "edit_rows 1 [0..<length right + 1] left right = lev_row left right"
    using edit_rows_lev [of "[]" right left] by simp
  moreover have "last (lev_row left right) = lev (rev left) (rev right)"
    by (simp add: lev_row_def)
  ultimately show ?thesis by (auto simp: edit_distance_def)
qed

text \<open>An alignment of two texts with \<open>n\<close> insertions, deletions and substitutions.\<close>

inductive edits :: "nat \<Rightarrow> string \<Rightarrow> string \<Rightarrow> bool" where
  edits_nil: "edits 0 [] []"
| edits_keep: "edits n xs ys \<Longrightarrow> edits n (c # xs) (c # ys)"
| edits_sub: "edits n xs ys \<Longrightarrow> edits (Suc n) (c # xs) (d # ys)"
| edits_ins: "edits n xs ys \<Longrightarrow> edits (Suc n) xs (d # ys)"
| edits_del: "edits n xs ys \<Longrightarrow> edits (Suc n) (c # xs) ys"

lemma edits_append: "edits m a b \<Longrightarrow> edits n c d \<Longrightarrow> edits (m + n) (a @ c) (b @ d)"
  by (induction rule: edits.induct) (auto intro: edits.intros)

lemma edits_rev: "edits n xs ys \<Longrightarrow> edits n (rev xs) (rev ys)"
proof (induction rule: edits.induct)
  case (edits_keep n xs ys c)
  then show ?case using edits_append [of n "rev xs" "rev ys" 0 "[c]" "[c]"] by (simp add: edits.intros)
next
  case (edits_sub n xs ys c d)
  then show ?case using edits_append [of n "rev xs" "rev ys" 1 "[c]" "[d]"] by (simp add: edits.intros)
next
  case (edits_ins n xs ys d)
  then show ?case using edits_append [of n "rev xs" "rev ys" 1 "[]" "[d]"] by (simp add: edits.intros)
next
  case (edits_del n xs ys c)
  then show ?case using edits_append [of n "rev xs" "rev ys" 1 "[c]" "[]"] by (simp add: edits.intros)
qed (auto intro: edits.intros)

lemma lev_step:
  "lev xs (y # ys) \<le> Suc (lev xs ys)" "lev (x # xs) ys \<le> Suc (lev xs ys)"
  by (cases xs; simp) (cases ys; simp)

lemma edits_lev: "edits n xs ys \<Longrightarrow> lev xs ys \<le> n"
proof (induction rule: edits.induct)
  case (edits_ins n xs ys d)
  then show ?case using lev_step(1) [of xs d ys] by linarith
next
  case (edits_del n xs ys c)
  then show ?case using lev_step(2) [of c xs ys] by linarith
qed auto

lemma edits_insert_all: "edits (length ys) [] ys"
  by (induction ys) (auto intro: edits.intros)

lemma edits_delete_all: "edits (length xs) xs []"
  by (induction xs) (auto intro: edits.intros)

lemma lev_edits: "edits (lev xs ys) xs ys"
proof (induction xs ys rule: lev.induct)
  case (3 x xs y ys)
  have "edits (lev xs ys + (if x = y then 0 else 1)) (x # xs) (y # ys)"
    using 3(3) by (auto intro: edits.intros)
  moreover have "edits (lev xs (y # ys) + 1) (x # xs) (y # ys)" "edits (lev (x # xs) ys + 1) (x # xs) (y # ys)"
    using 3(1,2) by (auto intro: edits.intros)
  ultimately show ?case by (simp add: min_def del: One_nat_def)
next
  case (2 v va)
  then show ?case using edits_delete_all [of "v # va"] by simp
qed (auto intro: edits_insert_all)

lemma edit_distance_edits: "edits (edit_distance left right) left right"
proof -
  have "edits (lev (rev left) (rev right)) left right"
    using edits_rev [OF lev_edits [of "rev left" "rev right"]] by simp
  then show ?thesis by (simp add: edit_distance_levenshtein)
qed

definition fewest_edits :: "string \<Rightarrow> string \<Rightarrow> nat \<Rightarrow> bool" where
  "fewest_edits left right n \<longleftrightarrow> edits n left right \<and> (\<forall>m. edits m left right \<longrightarrow> n \<le> m)"

theorem edit_distance_minimal:
  "fewest_edits left right (edit_distance left right)"
  using edit_distance_edits [of left right]
  by (auto simp: fewest_edits_def edit_distance_levenshtein dest: edits_rev edits_lev)

subsection \<open>ordered_subsequence\<close>

text \<open>\<open>character in iterator\<close> consumes the iterator up to and including the first hit.\<close>

fun consume :: "char \<Rightarrow> string \<Rightarrow> string option" where
  "consume c [] = None"
| "consume c (d # ds) = (if c = d then Some ds else consume c ds)"

fun ordered_subsequence :: "string \<Rightarrow> string \<Rightarrow> bool" where
  "ordered_subsequence [] rest = True"
| "ordered_subsequence (c # cs) rest =
     (case consume c rest of None \<Rightarrow> False | Some rest' \<Rightarrow> ordered_subsequence cs rest')"

lemma consume_split:
  "(case consume c ds of None \<Rightarrow> c \<notin> set ds | Some rest \<Rightarrow> \<exists>skip. ds = skip @ c # rest \<and> c \<notin> set skip)"
proof (induction ds)
  case (Cons d ds)
  then show ?case
  proof (cases "c = d")
    case False
    show ?thesis
    proof (cases "consume c ds")
      case None
      then show ?thesis using Cons False by simp
    next
      case (Some rest)
      then obtain skip where "ds = skip @ c # rest" "c \<notin> set skip" using Cons by auto
      then show ?thesis using Some False by (auto intro: exI [of _ "d # skip"])
    qed
  qed (auto intro: exI [of _ "[]"])
qed simp

theorem ordered_subsequence_subseq: "ordered_subsequence shorter longer \<longleftrightarrow> subseq shorter longer"
proof (induction shorter arbitrary: longer)
  case (Cons c cs)
  have skip: "subseq (c # cs) (skip @ c # rest) \<longleftrightarrow> subseq cs rest" if "c \<notin> set skip" for skip rest
    using that by (induction skip) auto
  have none: "\<not> subseq (c # cs) ds" if "c \<notin> set ds" for ds
    using that by (induction ds) auto
  show ?case
    using consume_split [of c longer] skip none Cons.IH by (auto split: option.splits)
qed simp

subsection \<open>difflib\<close>

fun common_prefix :: "string \<Rightarrow> string \<Rightarrow> nat" where
  "common_prefix (x # xs) (y # ys) = (if x = y then Suc (common_prefix xs ys) else 0)"
| "common_prefix xs ys = 0"

text \<open>
  \<open>find_longest_match\<close>: the longest common block, the first one in the first text, and for
  that the first one in the second: its two starts and its length.
\<close>

definition longest_block :: "string \<Rightarrow> string \<Rightarrow> nat \<times> nat \<times> nat" where
  "longest_block a b =
     fold (\<lambda>(i, j) best. let k = common_prefix (drop i a) (drop j b) in
         if snd (snd best) < k then (i, j, k) else best)
       (concat (map (\<lambda>i. map (Pair i) [0..<length b]) [0..<length a])) (0, 0, 0)"

lemma common_prefix_take: "take (common_prefix xs ys) xs = take (common_prefix xs ys) ys"
  by (induction xs ys rule: common_prefix.induct) auto

lemma common_prefix_le: "common_prefix xs ys \<le> length xs \<and> common_prefix xs ys \<le> length ys"
  by (induction xs ys rule: common_prefix.induct) auto

definition block_ok :: "string \<Rightarrow> string \<Rightarrow> nat \<times> nat \<times> nat \<Rightarrow> bool" where
  "block_ok a b = (\<lambda>(i, j, k). i + k \<le> length a \<and> j + k \<le> length b
     \<and> take k (drop i a) = take k (drop j b))"

lemma longest_block_ok: "block_ok a b (longest_block a b)"
proof -
  have "block_ok a b (fold (\<lambda>(i, j) best. let k = common_prefix (drop i a) (drop j b) in
      if snd (snd best) < k then (i, j, k) else best) ps best)"
    if "block_ok a b best" and "\<forall>(i, j) \<in> set ps. i \<le> length a \<and> j \<le> length b" for ps best
    using that
  proof (induction ps arbitrary: best)
    case (Cons p ps)
    obtain i j where p: "p = (i, j)" by (cases p)
    have "block_ok a b (i, j, common_prefix (drop i a) (drop j b))"
      using Cons.prems(2) p common_prefix_le [of "drop i a" "drop j b"] common_prefix_take
      by (auto simp: block_ok_def)
    then show ?case using Cons p by (auto simp: Let_def)
  qed simp
  then show ?thesis by (auto simp: longest_block_def block_ok_def)
qed

lemma longest_block_bounds:
  "longest_block a b = (i, j, k) \<Longrightarrow> i + k \<le> length a \<and> j + k \<le> length b"
  using longest_block_ok [of a b] by (simp add: block_ok_def)

text \<open>The matching blocks, found by recursion on both sides of the longest; their total size.\<close>

function matched_size :: "string \<Rightarrow> string \<Rightarrow> nat" where
  "matched_size a b = (case longest_block a b of (i, j, k) \<Rightarrow>
     if k = 0 then 0
     else matched_size (take i a) (take j b) + k + matched_size (drop (i + k) a) (drop (j + k) b))"
  by pat_completeness auto
termination
  by (relation "measure (\<lambda>(a, b). length a)") (auto dest!: longest_block_bounds [OF sym])

declare matched_size.simps [simp del]

definition seq_ratio :: "string \<Rightarrow> string \<Rightarrow> pyfloat" where
  "seq_ratio a b = (if length a + length b = 0 then 1
     else 2 * of_nat (matched_size a b) / of_nat (length a + length b))"

text \<open>
  \<open>get_close_matches(word, possibilities, n, cutoff)\<close>: the quick upper bounds are left out,
  they only skip texts whose ratio is below the cutoff.
\<close>

definition get_close_matches :: "string \<Rightarrow> string list \<Rightarrow> nat \<Rightarrow> pyfloat \<Rightarrow> string list" where
  "get_close_matches word possibilities n cutoff =
     map snd (take n (sort_desc id
       (filter (\<lambda>(s, x). cutoff \<le> s) (map (\<lambda>x. (seq_ratio x word, x)) possibilities))))"

lemma matched_size_le: "matched_size a b \<le> length a \<and> matched_size a b \<le> length b"
proof (induction a b rule: matched_size.induct)
  case (1 a b)
  obtain i j k where blk: "longest_block a b = (i, j, k)" by (metis prod.exhaust)
  show ?case
  proof (cases "k = 0")
    case True
    then show ?thesis using blk by (simp add: matched_size.simps [of a b])
  next
    case False
    note IH = 1(1) [OF blk [symmetric] refl False] 1(2) [OF blk [symmetric] refl False]
    have "matched_size a b = matched_size (take i a) (take j b) + k + matched_size (drop (i + k) a) (drop (j + k) b)"
      using False by (simp add: matched_size.simps [of a b] blk)
    then show ?thesis using longest_block_bounds [OF blk] IH by simp linarith
  qed
qed

theorem seq_ratio_bounds: "0 \<le> seq_ratio a b \<and> seq_ratio a b \<le> 1"
proof (cases "length a + length b = 0")
  case False
  have "2 * matched_size a b \<le> length a + length b" using matched_size_le [of a b] by simp
  then have "2 * (of_nat (matched_size a b) :: pyfloat) \<le> of_nat (length a + length b)"
    by (metis of_nat_le_iff of_nat_mult of_nat_numeral)
  moreover have "0 < (of_nat (length a + length b) :: pyfloat)"
    using False by (simp only: of_nat_0_less_iff neq0_conv)
  ultimately show ?thesis unfolding seq_ratio_def if_not_P [OF False] by (simp add: divide_le_eq)
qed (simp add: seq_ratio_def)

lemma get_close_matches_sound:
  "x \<in> set (get_close_matches word ps n cutoff) \<Longrightarrow> x \<in> set ps \<and> cutoff \<le> seq_ratio x word"
  by (auto simp: get_close_matches_def dest!: in_set_takeD)

end
