(* ===== verification/Planner_Rules.thy ===== *)
theory Planner_Rules
  imports Retrieval
begin

text \<open>
  The tables of \<open>search/planner_rules.py\<close>: filter fields and keys, aliases, fuzzy
         thresholds,
  the word sets of the planner and the duration and complexity patterns. Sets are lists in
  the order of the source; membership is all they are used for. The JSON schema of the
  model prompt and the ad types (in Retrieval) are elsewhere or left out.
\<close>

definition QUERY_FILTER_FIELDS :: "(string \<times> string) list" where
  "QUERY_FILTER_FIELDS =
    [(''main_category'', ''main_category_name''), (''subcategory'', ''subcategory_name''),
     (''state'', ''state_name''), (''city'', ''city_name''), (''locality'', ''locality_name''),
     (''rental_duration'', ''rental_duration'')]"

definition QUERY_FILTER_KEYS :: "string list" where
  "QUERY_FILTER_KEYS = map fst QUERY_FILTER_FIELDS @ [''user_gender'', ''min_rental_fee'',
         ''max_rental_fee'']"

definition QUERY_FILTER_ALIASES :: "(string \<times> (string \<times> string) list) list" where
  "QUERY_FILTER_ALIASES =
     [(''state'', [(''orissa'', ''odisha'')]),
      (''city'', [(''bangalore'', ''bengaluru''), (''bangaluru'', ''bengaluru''), (''bombay'',
        ''mumbai''), (''calcutta'', ''kolkata''), (''cochin'', ''kochi''), (''madras'',
        ''chennai''), (''mysore'', ''mysuru''), (''poona'', ''pune''), (''trivandrum'',
        ''thiruvananthapuram''), (''baroda'', ''vadodara''), (''prayagraj'', ''allahabad''),
        (''mangaluru'', ''mangalore''), (''gurugram'', ''gurgaon'')])]"

definition FUZZY_MATCH_THRESHOLDS :: "(string \<times> pyfloat) list" where
  "FUZZY_MATCH_THRESHOLDS =
     [(''main_category'', 90 / 100), (''subcategory'', 90 / 100), (''state'', 90 / 100),
     (''city'', 88 / 100), (''locality'', 92 / 100)]"

definition LOCATION_PREPOSITIONS :: "string list" where
  "LOCATION_PREPOSITIONS =
     [''in'', ''near'', ''at'', ''around'']"

definition LOCATION_STOP_WORDS :: "string list" where
  "LOCATION_STOP_WORDS =
     [''for'', ''per'', ''under'', ''below'', ''above'', ''over'', ''within'', ''between'',
     ''with'', ''by'', ''hourly'', ''daily'', ''weekly'', ''monthly'']"

definition GENERIC_LOCATION_VALUES :: "string list" where
  "GENERIC_LOCATION_VALUES =
     [''area'', ''city'', ''locality'', ''location'', ''town'', ''village'']"

definition GENERIC_CATEGORY_HINT_TOKENS :: "string list" where
  "GENERIC_CATEGORY_HINT_TOKENS =
     [''equipment'', ''hire'', ''item'', ''off'', ''product'', ''rent'', ''rental'', ''service'',
     ''thing'', ''vehicle'']"

definition CATEGORY_LEADING_MODIFIER_TOKENS :: "string list" where
  "CATEGORY_LEADING_MODIFIER_TOKENS =
     [''affordable'', ''bargain'', ''budget'', ''cheap'', ''cheapest'', ''cost'', ''costliest'',
     ''daily'', ''day'', ''dearest'', ''economical'', ''expensive'', ''fee'', ''fees'',
     ''friendly'', ''h2l'', ''high'', ''high2low'', ''higher'', ''highest'', ''hour'',
     ''hourly'', ''inexpensive'', ''l2h'', ''least'', ''lo'', ''low'', ''low2high'', ''lower'',
     ''lowest'', ''maximum'', ''minimum'', ''month'', ''monthly'', ''most'', ''per'',
     ''pocket'', ''price'', ''priced'', ''priciest'', ''reasonable'', ''reasonably'', ''rate'',
     ''rates'', ''rent'', ''rental'', ''top'', ''week'', ''weekly'']"

definition CATEGORY_ATTRIBUTE_PREFIXES :: "string list" where
  "CATEGORY_ATTRIBUTE_PREFIXES =
     [''beige'', ''black'', ''blue'', ''brown'', ''electric'', ''gold'', ''gray'', ''green'',
     ''grey'', ''orange'', ''pink'', ''portable'', ''purple'', ''red'', ''silver'', ''white'',
     ''yellow'']"

definition FAST_PATH_FILLER_TOKENS :: "string list" where
  "FAST_PATH_FILLER_TOKENS =
     [''a'', ''ad'', ''ads'', ''an'', ''any'', ''available'', ''by'', ''find'', ''for'',
     ''from'', ''get'', ''give'', ''hire'', ''i'', ''in'', ''item'', ''items'', ''looking'',
     ''me'', ''my'', ''near'', ''need'', ''of'', ''product'', ''products'', ''rent'',
     ''rental'', ''rentals'', ''required'', ''require'', ''search'', ''searching'', ''show'',
     ''some'', ''the'', ''to'', ''want'']"

definition DIRECT_SEMANTIC_MAX_TOKENS :: nat where
  "DIRECT_SEMANTIC_MAX_TOKENS = 8"

definition DIRECT_SEMANTIC_BLOCK_TOKENS :: "string list" where
  "DIRECT_SEMANTIC_BLOCK_TOKENS =
     [''above'', ''affordable'', ''around'', ''away'', ''below'', ''best'', ''budget'', ''can'',
     ''chahiye'', ''cheap'', ''cheapest'', ''clearly'', ''comfortable'', ''comfort'', ''could'',
     ''distance'', ''far'', ''find'', ''for'', ''good'', ''how'', ''ideal'', ''in'',
     ''looking'', ''medium'', ''mid'', ''midrange'', ''moderate'', ''moderately'', ''need'',
     ''near'', ''people'', ''per'', ''person'', ''recommend'', ''recreational'', ''reliable'',
     ''request'', ''rough'', ''safe'', ''safety'', ''search'', ''should'', ''show'',
     ''someone'', ''something'', ''suitable'', ''terrain'', ''thevai'', ''to'', ''under'',
     ''venam'', ''venda'', ''venum'', ''wanted'', ''what'', ''when'', ''where'', ''which'',
     ''who'', ''why'', ''within'', ''would'']"

definition DIRECT_SEMANTIC_COMPLEX_PATTERNS :: "rx list" where
  "DIRECT_SEMANTIC_COMPLEX_PATTERNS =
     [Cls (\<lambda>c. c = CHR ''?'' \<or> c = CHR ''!''),
      rx_seq [WordB, lits_i [''anything'', ''anyone'', ''somebody''], WordB],
      rx_seq [WordB, lits_i [''use'', ''using'', ''suitable''], rx_sp, lits_i [''for'', ''to''],
         WordB],
      rx_seq [WordB, rx_alt [rx_seq [lit_i ''long'', rx_plus (Cls (\<lambda>c. is_space c \<or> c
         = CHR ''-'')), lit_i ''distance''], rx_seq [lit_i ''road'', rx_plus (Cls (\<lambda>c.
         is_space c \<or> c = CHR ''-'')), lit_i ''trip''], rx_seq [lit_i ''off'', rx_opt (Cls
         (\<lambda>c. is_space c \<or> c = CHR ''-'')), lit_i ''road'']], WordB]]"

definition FAST_PATH_PRICE_TOKENS :: "string list" where
  "FAST_PATH_PRICE_TOKENS =
     [''above'', ''and'', ''below'', ''between'', ''budget'', ''inr'', ''less'', ''max'',
     ''maximum'', ''min'', ''minimum'', ''more'', ''not'', ''over'', ''price'', ''range'',
     ''rs'', ''than'', ''under'', ''up'', ''withing'', ''within'']"

definition FAST_PATH_DURATION_TOKENS :: "string list" where
  "FAST_PATH_DURATION_TOKENS =
     [''1'', ''a'', ''an'', ''daily'', ''day'', ''hour'', ''hourly'', ''month'', ''monthly'',
     ''one'', ''per'', ''ride'', ''week'', ''weekly'']"

definition FAST_PATH_SORT_TOKENS :: "string list" where
  "FAST_PATH_SORT_TOKENS =
     [''asc'', ''ascending'', ''affordable'', ''bargain'', ''budget'', ''cheap'', ''cheapest'',
     ''cost'', ''costs'', ''costliest'', ''desc'', ''descending'', ''dearest'', ''economical'',
     ''expensive'', ''fee'', ''fees'', ''first'', ''friendly'', ''h2l'', ''hi'', ''high'',
     ''high2low'', ''higher'', ''highest'', ''inexpensive'', ''least'', ''l2h'', ''low'',
     ''lo'', ''low2high'', ''lower'', ''lowest'', ''most'', ''order'', ''ordered'', ''price'',
     ''priced'', ''prices'', ''priciest'', ''pocket'', ''reasonable'', ''reasonably'', ''rate'',
     ''rates'', ''sort'', ''sorted'', ''top'']"

definition DURATION_PATTERNS :: "(string \<times> rx) list" where
  "DURATION_PATTERNS =
     [(''Per Hour'',
       rx_seq [WordB, rx_alt [lit ''hourly'', rx_seq [lit ''per'', rx_sp, lit ''hour''], rx_seq
         [lit ''by'', rx_sp, lit ''the'', rx_sp, lit ''hour''], rx_seq [lit ''for'', rx_sp, rx_opt
         (rx_seq [lits [''an'', ''one'', ''1''], rx_sp]), lit ''hour'']], WordB]),
      (''Per Day'',
       rx_seq [WordB, rx_alt [lit ''daily'', rx_seq [lit ''per'', rx_sp, lit ''day''], rx_seq [lit
         ''by'', rx_sp, lit ''the'', rx_sp, lit ''day''], rx_seq [lit ''for'', rx_sp, rx_opt
         (rx_seq [lits [''a'', ''one'', ''1''], rx_sp]), lit ''day'']], WordB]),
      (''Per Week'',
       rx_seq [WordB, rx_alt [lit ''weekly'', rx_seq [lit ''per'', rx_sp, lit ''week''], rx_seq
         [lit ''by'', rx_sp, lit ''the'', rx_sp, lit ''week''], rx_seq [lit ''for'', rx_sp, rx_opt
         (rx_seq [lits [''a'', ''one'', ''1''], rx_sp]), lit ''week'']], WordB]),
      (''Per Month'',
       rx_seq [WordB, rx_alt [lit ''monthly'', rx_seq [lit ''per'', rx_sp, lit ''month''], rx_seq
         [lit ''by'', rx_sp, lit ''the'', rx_sp, lit ''month''], rx_seq [lit ''for'', rx_sp,
         rx_opt (rx_seq [lits [''a'', ''one'', ''1''], rx_sp]), lit ''month'']], WordB]),
      (''Per Ride'',
       rx_seq [WordB, rx_alt [rx_seq [lit ''per'', rx_sp, lit ''ride''], rx_seq [lit ''by'',
         rx_sp, lit ''the'', rx_sp, lit ''ride''], rx_seq [lit ''for'', rx_sp, lits [''a'',
         ''one'', ''1''], rx_sp, lit ''ride'']], WordB])]"

lemma field_keys_distinct [simp]: "distinct (map fst QUERY_FILTER_FIELDS)"
  by code_simp

end
