(* ===== verification/Planner_Catalog.thy ===== *)
theory Planner_Catalog
  imports Planner_Rules Text_Matching
begin

text \<open>
  Query analysis of \<open>search/planner_catalog.py\<close>: catalogue matching, category requests,
  typo and alias handling, price, order and duration patterns, and the resolution of the
  requested filters against the catalogue. A catalogue value map is a dict from normalized to
  stored value. \<open>json.loads\<close> is an argument of \<open>parse_query_plan\<close>. Texts are Latin-1, so the
  rupee sign of the price patterns is left out.
\<close>

named_theorems catalog_facts \<open>facts of query analysis\<close>

type_synonym value_map = "(string, string) dict"

text \<open>The value index: the maps by query key, and the three parent relations.\<close>

record value_index =
  vi_values :: "(string, value_map) dict"
  vi_subcategory_main :: "(string, string) dict"
  vi_city_state :: "(string, string) dict"
  vi_locality_location :: "(string, string \<times> string) dict"

definition vi_map :: "value_index \<Rightarrow> string \<Rightarrow> value_map" where
  "vi_map vi key = (case map_of (vi_values vi) key of None \<Rightarrow> [] | Some d \<Rightarrow> d)"

definition map_values :: "value_map \<Rightarrow> string list" where
  "map_values d = map snd d"

subsection \<open>Plans\<close>

record query_plan =
  semantic_query :: string
  keyword_query :: string
  target_ad_type :: string
  sort_order :: "string option"
  plan_filters :: pydict
  inferred_categories :: pydict
  fallback_reason :: "string option"

definition no_categories :: pydict where
  "no_categories = [(''main_category'', VNone), (''subcategory'', VNone)]"

definition default_query_plan :: "string \<Rightarrow> string option \<Rightarrow> query_plan" where
  "default_query_plan query reason =
     \<lparr>semantic_query = query, keyword_query = query, target_ad_type = ''offer'', sort_order = None,
      plan_filters = map (\<lambda>k. (k, VNone)) QUERY_FILTER_KEYS,
      inferred_categories = no_categories, fallback_reason = reason\<rparr>"

text \<open>\<open>None\<close> stands for the Python \<open>None\<close> these readers return.\<close>

definition optional_text :: "pyval \<Rightarrow> string option" where
  "optional_text v = (case v of VStr s \<Rightarrow> if squash s = [] then None else Some (squash s) | _ \<Rightarrow> None)"

definition optional_number :: "pyval \<Rightarrow> pyfloat option" where
  "optional_number v =
     (case v of VBool b \<Rightarrow> None | VNone \<Rightarrow> None
      | _ \<Rightarrow> (case to_float v of None \<Rightarrow> None | Some x \<Rightarrow> if 0 \<le> x then Some x else None))"

definition optional_user_gender :: "pyval \<Rightarrow> int option" where
  "optional_user_gender v =
     (case v of VBool b \<Rightarrow> None | VNone \<Rightarrow> None
      | _ \<Rightarrow> (case to_int v of None \<Rightarrow> None | Some g \<Rightarrow> if g \<in> set [1, 2, 3] then Some g else None))"

definition of_text :: "string option \<Rightarrow> pyval" where
  "of_text t = (case t of None \<Rightarrow> VNone | Some s \<Rightarrow> VStr s)"

definition of_number :: "pyfloat option \<Rightarrow> pyval" where
  "of_number x = (case x of None \<Rightarrow> VNone | Some q \<Rightarrow> VFloat q)"

definition of_gender :: "int option \<Rightarrow> pyval" where
  "of_gender g = (case g of None \<Rightarrow> VNone | Some i \<Rightarrow> VInt i)"

definition compact :: "string \<Rightarrow> string" where
  "compact s = filter is_word s"

definition text_mentions_filter :: "string \<Rightarrow> string \<Rightarrow> bool" where
  "text_mentions_filter text v =
     (let t = norm_text text; n = norm_text v in
      contains_str t n \<or> (compact n \<noteq> [] \<and> contains_str (compact t) (compact n)))"

subsection \<open>Category terms\<close>

definition slug_char :: "char \<Rightarrow> bool" where
  "slug_char c \<longleftrightarrow> (CHR ''a'' \<le> c \<and> c \<le> CHR ''z'') \<or> (CHR ''0'' \<le> c \<and> c \<le> CHR ''9'')
     \<or> c = CHR ''_'' \<or> c = CHR ''-''"

definition vowel :: "char \<Rightarrow> bool" where
  "vowel c \<longleftrightarrow> c \<in> set ''aeiou''"

text \<open>\<open>[^aeiou]y$\<close>\<close>

definition consonant_y :: "string \<Rightarrow> bool" where
  "consonant_y s = (case rev s of y # c # _ \<Rightarrow> y = CHR ''y'' \<and> \<not> vowel c | _ \<Rightarrow> False)"

definition category_term_pattern :: "string \<Rightarrow> rx" where
  "category_term_pattern v =
     (let n = norm_text v in
      if n \<noteq> [] \<and> list_all slug_char n
      then (if consonant_y n then rx_seq [lit (butlast n), lits [''y'', ''ies'']]
            else if ends_with n ''s'' \<or> ends_with n ''x'' \<or> ends_with n ''z'' \<or> ends_with n ''ch''
                    \<or> ends_with n ''sh''
            then rx_seq [lit n, rx_opt (lit ''es'')]
            else rx_seq [lit n, rx_opt (lit ''s'')])
      else lit n)"

definition repair_listing :: rx where
  "repair_listing =
     rx_seq [WordB, lits [''repair'', ''service'', ''maintenance'', ''mechanic'', ''technician'',
       ''plumber'', ''electrician'', ''serviceman'', ''servicemen''], WordB]"

definition repair_action :: rx where
  "repair_action =
     rx_alt [rx_seq [lit ''repair'', rx_opt (lits [''s'', ''ed'', ''ing''])], rx_seq [lit ''fix'',
       rx_opt (lits [''es'', ''ed'', ''ing''])], rx_seq [lit ''servic'', lits [''e'', ''es'',
       ''ed'', ''ing'']], rx_seq [lit ''maintain'', rx_opt (lits [''s'', ''ed'', ''ing''])], lit
       ''maintenance'']"

definition is_repair_subject_usage :: "string \<Rightarrow> string \<Rightarrow> bool" where
  "is_repair_subject_usage query v =
     (if rx_found repair_listing (norm_text v) then False
      else (let q = norm_text query; term = category_term_pattern v in
        rx_found (rx_seq [WordB, repair_action, WordB, rx_upto 3 (rx_seq [rx_sp, rx_plus (Cls (\<lambda>c.
         (CHR ''a'' \<le> c \<and> c \<le> CHR ''z'') \<or> (CHR ''0'' \<le> c \<and> c \<le> CHR
         ''9'') \<or> c = CHR ''_'' \<or> c = CHR ''-''))]), rx_sp, term, NotAhead is_word]) q
        \<or> rx_found (rx_seq [NotBehind is_word, term, rx_sp, rx_opt (rx_seq [lits [''that'', ''which''],
         rx_sp]), rx_opt (rx_seq [lits [''need'', ''needs'', ''require'', ''requires''], rx_sp]),
         rx_opt (rx_seq [lit ''for'', rx_sp]), repair_action, WordB]) q))"

definition sp_dash :: rx where
  "sp_dash = Cls (\<lambda>c. is_space c \<or> c = CHR ''-'')"

definition rx_article :: rx where
  "rx_article = rx_seq [rx_opt (lits [''a'', ''an'', ''the'', ''some'']), rx_sp0]"

definition rx_request :: rx where
  "rx_request =
     rx_alt [lit ''need'', lit ''want'', lit ''require'', lit ''rent'', lit ''hire'', lit
       ''find'', rx_seq [lit ''show'', rx_sp, lit ''me''], rx_seq [lit ''looking'', rx_sp, lit
       ''for''], rx_seq [lit ''searching'', rx_sp, lit ''for''], rx_seq [lit ''interested'',
       rx_sp, lit ''in'']]"

definition rx_attribute :: rx where
  "rx_attribute = lits (sort CATEGORY_ATTRIBUTE_PREFIXES)"

definition explicit_patterns :: "rx \<Rightarrow> rx list" where
  "explicit_patterns term =
     [rx_seq [Bol, rx_article, term, NotAhead is_word],
      rx_seq [WordB, rx_request, rx_sp, rx_article, term, NotAhead is_word],
      rx_seq [WordB, lits [''wanted'', ''request''], rx_sp, lit ''ad'', rx_opt (lit ''s''), rx_sp,
        lit ''for'', rx_sp, rx_article, term, NotAhead is_word],
      rx_seq [WordB, lits [''rental'', ''hire''], rx_sp, term, NotAhead is_word],
      rx_seq [NotBehind is_word, rx_attribute, rx_sp, term, NotAhead is_word],
      rx_seq [NotBehind is_word, term, rx_sp, rx_alt [lit ''with'', lit ''without'', lit
        ''having'', rx_seq [lit ''equipped'', rx_sp, lit ''with'']], WordB],
      rx_seq [NotBehind is_word, term, rx_sp, rx_alt [lit ''rent'', lit ''hire'', rx_seq [lit
        ''for'', rx_sp, lits [''rent'', ''hire'']], lit ''rental'', lit ''in'', lit ''near'', lit
        ''at'', lit ''under'', lit ''below'', lit ''within'', lit ''between'', rx_seq [lit
        ''per'', rx_sp, lit ''hour''], rx_seq [lit ''per'', rx_sp, lit ''day''], rx_seq [lit
        ''per'', rx_sp, lit ''week''], rx_seq [lit ''per'', rx_sp, lit ''month'']], WordB],
      rx_seq [WordB, rx_alt [lit ''budget'', lit ''cheap'', lit ''affordable'', rx_seq [lit
        ''low'', rx_opt sp_dash, lit ''cost'']], rx_sp, term, NotAhead is_word],
      rx_seq [NotBehind is_word, term, rx_sp, lit ''for'', WordB],
      rx_seq [WordB, rx_digits, rx_opt (rx_seq [lit ''.'', rx_digits]), rx_sp, term, NotAhead
        is_word],
      rx_seq [NotBehind is_word, term, rx_sp, rx_digits, rx_opt (rx_seq [lit ''.'', rx_digits]),
        WordB]]"

definition is_explicit_category_request :: "string \<Rightarrow> string \<Rightarrow> bool" where
  "is_explicit_category_request query v =
     (if is_repair_subject_usage query v then False
      else list_ex (\<lambda>r. rx_found r (norm_text query)) (explicit_patterns (category_term_pattern v)))"

definition is_category_attribute_usage :: "string \<Rightarrow> string \<Rightarrow> value_index \<Rightarrow> bool" where
  "is_category_attribute_usage query v vi =
     (let n = norm_text v in
      if n \<notin> set CATEGORY_ATTRIBUTE_PREFIXES then False
      else list_ex (\<lambda>key. list_ex (\<lambda>category.
             rx_found (rx_seq [NotBehind is_word, lit n, rx_sp, category_term_pattern category,
                 NotAhead is_word]) (norm_text query)) (map_values (vi_map vi key)))
           [''main_category'', ''subcategory''])"

definition is_generic_location_value :: "string option \<Rightarrow> bool" where
  "is_generic_location_value v =
     (case v of None \<Rightarrow> False | Some s \<Rightarrow> s \<noteq> [] \<and> norm_text s \<in> set GENERIC_LOCATION_VALUES)"

subsection \<open>parse_query_plan\<close>

text \<open>\<open>x not in {...}\<close> raises for a list or a dict.\<close>

definition unhashable :: "pyval \<Rightarrow> bool" where
  "unhashable v \<longleftrightarrow> (case v of VList xs \<Rightarrow> True | VDict d \<Rightarrow> True | _ \<Rightarrow> False)"

text \<open>A category that was not asked for explicitly becomes a soft hint.\<close>

definition split_category :: "string \<Rightarrow> string \<Rightarrow> pydict \<times> pydict \<Rightarrow> pydict \<times> pydict" where
  "split_category original key st =
     (case st of (fs, inferred) \<Rightarrow>
        (case dget fs key of
           VStr v \<Rightarrow> if is_explicit_category_request original v then (fs, inferred)
                     else (AList.update key VNone fs, AList.update key (VStr v) inferred)
         | _ \<Rightarrow> (fs, inferred)))"

definition drop_unmentioned :: "string \<Rightarrow> string \<Rightarrow> pydict \<Rightarrow> pydict" where
  "drop_unmentioned original key fs =
     (case dget fs key of
        VStr v \<Rightarrow> if text_mentions_filter original v then fs else AList.update key VNone fs
      | _ \<Rightarrow> fs)"

definition parse_query_plan ::
    "(string \<Rightarrow> py_error + pyval) \<Rightarrow> string \<Rightarrow> string \<Rightarrow> py_error + query_plan" where
  "parse_query_plan json_loads body original =
     (case json_loads body of
        Inl e \<Rightarrow> Inl e
      | Inr (VDict parsed) \<Rightarrow>
          if unhashable (dget parsed ''target_ad_type'')
          then Inl (TypeError ''unhashable type'')
          else (let semantic = (case optional_text (dget parsed ''semantic_query'') of
                 None \<Rightarrow> original | Some t \<Rightarrow> t);
               keyword = (case optional_text (dget parsed ''keyword_query'') of
                 None \<Rightarrow> original | Some t \<Rightarrow> t);
               target = (case dget parsed ''target_ad_type'' of
                 VStr t \<Rightarrow> if t \<in> set [''offer'', ''wanted''] then t else ''offer'' | _ \<Rightarrow> ''offer'');
               raw = (case dget parsed ''filters'' of VDict d \<Rightarrow> d | _ \<Rightarrow> []);
               fs0 = map (\<lambda>(key, column). (key, of_text (optional_text (dget raw key)))) QUERY_FILTER_FIELDS;
               fs1 = AList.update ''user_gender'' (of_gender (optional_user_gender (dget raw ''user_gender''))) fs0;
               (fs2, inferred) = split_category original ''subcategory''
                 (split_category original ''main_category'' (fs1, no_categories));
               fs3 = drop_unmentioned original ''state'' (drop_unmentioned original ''main_category'' fs2);
               lo = optional_number (dget raw ''min_rental_fee'');
               hi = optional_number (dget raw ''max_rental_fee'');
               (lo', hi') = (case (lo, hi) of
                   (Some a, Some b) \<Rightarrow> if b < a then (Some b, Some a) else (lo, hi)
                 | _ \<Rightarrow> (lo, hi));
               fs4 = AList.update ''max_rental_fee'' (of_number hi')
                 (AList.update ''min_rental_fee'' (of_number lo') fs3)
           in Inr \<lparr>semantic_query = semantic, keyword_query = keyword, target_ad_type = target,
                sort_order = None, plan_filters = fs4, inferred_categories = inferred,
                fallback_reason = None\<rparr>)
      | Inr _ \<Rightarrow> Inl (ValueError ''query extraction response must be a JSON object''))"

subsection \<open>Normalization and catalogue lookup\<close>

definition longest_first :: "(string \<times> 'a) list \<Rightarrow> (string \<times> 'a) list" where
  "longest_first d = sort_desc (\<lambda>kv. length (fst kv)) d"

definition normalize_transliterated_query ::
    "(rx \<times> string) list \<Rightarrow> (string, string) dict \<Rightarrow> string \<Rightarrow> string" where
  "normalize_transliterated_query rewrite_rules aliases query =
     (let rewritten = fold (\<lambda>(r, replacement) s. rx_sub r replacement s) rewrite_rules query
      in squash (fold (\<lambda>(source, target) s. rx_sub (rx_whole (lit_i source)) target s)
           (longest_first aliases) rewritten))"

text \<open>A \<open>CatalogValueMap\<close> holds its patterns, longest value first.\<close>

definition match_patterns :: "bool \<Rightarrow> value_map \<Rightarrow> (rx \<times> string) list" where
  "match_patterns allow_plural d =
     map (\<lambda>(n, actual). (rx_whole (if allow_plural then category_term_pattern n else lit n), actual))
       (longest_first d)"

definition find_catalog_value :: "string \<Rightarrow> value_map \<Rightarrow> bool \<Rightarrow> string option" where
  "find_catalog_value query d allow_plural =
     map_option snd (find (\<lambda>(r, actual). rx_found r (norm_text query)) (match_patterns allow_plural d))"

definition category_concept_token :: "string \<Rightarrow> string" where
  "category_concept_token token =
     (let t = norm_text token in
      if t = ''musical'' then ''music''
      else if ends_with t ''ies'' \<and> length t > 4 then take (length t - 3) t @ ''y''
      else if ends_with t ''s'' \<and> \<not> ends_with t ''ss'' \<and> length t > 3 then butlast t
      else t)"

record cat_match =
  cm_value :: string
  cm_start :: nat
  cm_end :: nat
  cm_width :: nat
  cm_explicit :: bool

definition HEAD_WORDS :: "string list" where
  "HEAD_WORDS = [''a'', ''an'', ''find'', ''hire'', ''looking'', ''need'', ''searching'', ''show'',
     ''the'', ''want'']"

definition CONSTRAINT_WORDS :: "string list" where
  "CONSTRAINT_WORDS = [''at'', ''equipped'', ''for'', ''having'', ''in'', ''near'', ''under'', ''with'',
     ''without'']"

definition category_match_at :: "string \<Rightarrow> string list \<Rightarrow> string \<Rightarrow> nat \<Rightarrow> nat \<Rightarrow> cat_match" where
  "category_match_at query tokens actual start width =
     (let at_head = start = 0 \<or> list_all (\<lambda>t. t \<in> set CATEGORY_LEADING_MODIFIER_TOKENS
                \<or> t \<in> set HEAD_WORDS) (take start tokens);
          followed = start + width < length tokens \<and> tokens ! (start + width) \<in> set CONSTRAINT_WORDS
      in \<lparr>cm_value = actual, cm_start = start, cm_end = start + width, cm_width = width,
          cm_explicit = (\<not> is_repair_subject_usage query actual
            \<and> (at_head \<or> followed \<or> is_explicit_category_request query actual))\<rparr>)"

definition category_match :: "string \<Rightarrow> string list \<Rightarrow> string \<Rightarrow> cat_match option" where
  "category_match query tokens actual =
     (let concepts = map category_concept_token tokens;
          wanted = map category_concept_token (word_tokens (norm_text actual));
          width = length wanted
      in if width = 0 \<or> length concepts < width then None
         else map_option (\<lambda>start. category_match_at query tokens actual start width)
           (find (\<lambda>start. take width (drop start concepts) = wanted) [0..<length concepts - width + 1]))"

definition match_rank :: "cat_match \<Rightarrow> bool \<times> nat \<times> int \<times> nat" where
  "match_rank m = (cm_explicit m, cm_width m, - int (cm_start m), length (cm_value m))"

definition category_catalog_matches :: "string \<Rightarrow> value_map \<Rightarrow> cat_match list" where
  "category_catalog_matches query d =
     sort_desc match_rank
       (List.map_filter (category_match query (word_tokens (norm_text query))) (map_values d))"

definition find_catalog_alias :: "string \<Rightarrow> string \<Rightarrow> value_map \<Rightarrow> string option" where
  "find_catalog_alias query key d =
     (case find (\<lambda>(alias, canonical). rx_found (rx_whole (lit alias)) (norm_text query))
             (case map_of QUERY_FILTER_ALIASES key of None \<Rightarrow> [] | Some as \<Rightarrow> as) of
        None \<Rightarrow> None
      | Some (alias, canonical) \<Rightarrow> map_of d canonical)"

subsection \<open>Fuzzy and typo matching\<close>

definition fuzzy_catalog_match :: "string \<Rightarrow> value_map \<Rightarrow> pyfloat \<Rightarrow> (string \<times> pyfloat) option" where
  "fuzzy_catalog_match n d threshold =
     (case get_close_matches n (map fst d) 2 threshold of
        [] \<Rightarrow> None
      | [m] \<Rightarrow> map_option (\<lambda>v. (v, seq_ratio n m)) (map_of d m)
      | m # m' # _ \<Rightarrow>
          if seq_ratio n m - seq_ratio n m' < 4 / 100 then None
          else map_option (\<lambda>v. (v, seq_ratio n m)) (map_of d m))"

definition canonical_catalog_value :: "string \<Rightarrow> string \<Rightarrow> value_map \<Rightarrow> bool \<Rightarrow> string option" where
  "canonical_catalog_value key requested d allow_fuzzy =
     (let n0 = norm_text requested;
          n = (case map_of QUERY_FILTER_ALIASES key of None \<Rightarrow> n0
               | Some as \<Rightarrow> (case map_of as n0 of None \<Rightarrow> n0 | Some c \<Rightarrow> c))
      in case map_of d n of
           Some v \<Rightarrow> Some v
         | None \<Rightarrow>
             if \<not> allow_fuzzy then None
             else (case map_of FUZZY_MATCH_THRESHOLDS key of
                 None \<Rightarrow> None
               | Some threshold \<Rightarrow> if length n < 4 then None
                   else map_option fst (fuzzy_catalog_match n d threshold)))"

text \<open>The best score of a catalogue key against the variants of the text; 0 is no match.\<close>

definition variant_score :: "string \<Rightarrow> string \<Rightarrow> pyfloat \<Rightarrow> pyfloat" where
  "variant_score key variant best =
     (if 3 < nat \<bar>int (length variant) - int (length key)\<bar> then best
      else (let distance = edit_distance variant key;
                max_edits = (if max (length variant) (length key) \<le> 5 then 1 else 2);
                best1 = (if distance \<le> max_edits then max best (98 / 100 - 2 / 100 * of_nat distance) else best)
            in if 3 \<le> length variant \<and> length variant < length key \<and> length key - length variant \<le> 3
                  \<and> take 2 variant = take 2 key \<and> last variant = last key
                  \<and> ordered_subsequence variant key
               then max best1 (92 / 100) else best1))"

definition typo_score :: "string list \<Rightarrow> string \<Rightarrow> pyfloat" where
  "typo_score variants key = fold (variant_score key) variants 0"

definition typo_variants :: "string \<Rightarrow> string list" where
  "typo_variants n = n # (if ends_with n ''s'' \<and> length n > 3 then [butlast n] else [])"

definition typo_step :: "string list \<Rightarrow> bool \<Rightarrow> string \<times> string \<Rightarrow> (string, string \<times> pyfloat) dict
    \<Rightarrow> (string, string \<times> pyfloat) dict" where
  "typo_step variants single_token_only kv acc =
     (let key = fst kv; actual = snd kv; s = typo_score variants key in
      if (single_token_only \<and> contains_str key '' '') \<or> s = 0 then acc
      else (case map_of acc (norm_text actual) of
              None \<Rightarrow> AList.update (norm_text actual) (actual, s) acc
            | Some (a, t) \<Rightarrow> if t < s then AList.update (norm_text actual) (actual, s) acc else acc))"

definition typo_candidates :: "string list \<Rightarrow> bool \<Rightarrow> value_map \<Rightarrow> (string, string \<times> pyfloat) dict" where
  "typo_candidates variants single_token_only d = fold (typo_step variants single_token_only) d []"

definition typo_catalog_match :: "string \<Rightarrow> value_map \<Rightarrow> bool \<Rightarrow> (string \<times> pyfloat) option" where
  "typo_catalog_match text d single_token_only =
     (let n = norm_text text in
      if length n < 3 then None
      else (case sort_desc (\<lambda>(a, s). (s, - int (length a)))
                   (map snd (typo_candidates (typo_variants n) single_token_only d)) of
              [] \<Rightarrow> None
            | [c] \<Rightarrow> Some c
            | c # c' # _ \<Rightarrow> if snd c - snd c' < 4 / 100 then None else Some c))"

subsection \<open>Locations\<close>

text \<open>The phrases of one preposition at position \<open>i\<close>: its next words, longest phrase first.\<close>

definition phrases_at :: "string list \<Rightarrow> nat \<Rightarrow> string list" where
  "phrases_at tokens i =
     (if tokens ! i \<notin> set LOCATION_PREPOSITIONS then []
      else if tokens ! i = ''in'' \<and> i > 0 \<and> tokens ! (i - 1) = ''interested'' then []
      else (let location = takeWhile (\<lambda>t. t \<notin> set LOCATION_STOP_WORDS) (take 4 (drop (i + 1) tokens)) in
            if location = [] \<or> is_digit_str (hd location) then []
            else map (\<lambda>n. join '' '' (take n location)) (rev [1..<length location + 1])))"

definition location_phrases :: "string \<Rightarrow> string list" where
  "location_phrases query =
     (let tokens = word_tokens (norm_text query) in
      dedup (concat (map (phrases_at tokens) [0..<length tokens])))"

definition location_priority :: "string \<Rightarrow> int" where
  "location_priority key = (if key = ''city'' then 3 else if key = ''state'' then 2 else 1)"

definition location_candidate ::
    "bool \<Rightarrow> value_index \<Rightarrow> string \<Rightarrow> string \<Rightarrow> (pyfloat \<times> int \<times> string \<times> string) option" where
  "location_candidate fuzzy vi phrase key =
     (case (case fuzzy_catalog_match phrase (vi_map vi key)
                   (case map_of FUZZY_MATCH_THRESHOLDS key of None \<Rightarrow> 1 | Some t \<Rightarrow> t) of
              Some m \<Rightarrow> Some m
            | None \<Rightarrow> if fuzzy then typo_catalog_match phrase (vi_map vi key) False else None) of
        None \<Rightarrow> None
      | Some (actual, score) \<Rightarrow>
          if is_generic_location_value (Some actual) then None
          else Some (score, location_priority key, key, actual))"

definition best_by_identity ::
    "(pyfloat \<times> int \<times> string \<times> string) list \<Rightarrow> (string, pyfloat \<times> int \<times> string \<times> string) dict" where
  "best_by_identity cs =
     fold (\<lambda>c acc. let identity = norm_text (snd (snd (snd c))) in
         if (case map_of acc identity of None \<Rightarrow> (-1, -1, [], []) | Some b \<Rightarrow> b) < c
         then AList.update identity c acc else acc) cs []"

definition find_fuzzy_location :: "bool \<Rightarrow> string \<Rightarrow> value_index \<Rightarrow> (string \<times> string) option" where
  "find_fuzzy_location fuzzy query vi =
     (let candidates = concat (map (\<lambda>phrase. List.map_filter (location_candidate fuzzy vi phrase)
              [''city'', ''state'', ''locality'']) (location_phrases query))
      in case sort_desc id (map snd (best_by_identity candidates)) of
           [] \<Rightarrow> None
         | [(s, pr, key, actual)] \<Rightarrow> Some (key, actual)
         | (s, pr, key, actual) # (s', _) # _ \<Rightarrow>
             if s - s' < 3 / 100 then None else Some (key, actual))"

record correction =
  corr_field :: string
  corr_input :: string
  corr_value :: string

definition typo_location_candidates ::
    "value_index \<Rightarrow> string \<Rightarrow> (pyfloat \<times> int \<times> string \<times> string \<times> string) list" where
  "typo_location_candidates vi text =
     concat (map (\<lambda>phrase. List.map_filter (\<lambda>key.
         if canonical_catalog_value key phrase (vi_map vi key) False \<noteq> None then None
         else map_option (\<lambda>(actual, score). (score, location_priority key, key, phrase, actual))
           (typo_catalog_match phrase (vi_map vi key) False))
       [''city'', ''state'', ''locality'']) (location_phrases text))"

definition correct_explicit_query_typos ::
    "bool \<Rightarrow> string \<Rightarrow> value_index \<Rightarrow> string \<times> correction list" where
  "correct_explicit_query_typos fuzzy query vi =
     (if \<not> fuzzy then (query, [])
      else (let corrected = norm_text query in
            case sort_desc id (typo_location_candidates vi corrected) of
              [] \<Rightarrow> (corrected, [])
            | (s, pr, key, source, actual) # rest \<Rightarrow>
                if (case rest of [] \<Rightarrow> True
                    | (s', _, _, _, actual') # _ \<Rightarrow> 4 / 100 \<le> s - s' \<or> norm_text actual = norm_text actual')
                then (rx_sub_once (rx_whole (lit source)) (norm_text actual) corrected,
                      [\<lparr>corr_field = key, corr_input = source, corr_value = actual\<rparr>])
                else (corrected, [])))"

subsection \<open>infer_keyword_subcategory\<close>

text \<open>
  Sets are lists here; the value returned does not depend on their order, because a tie of
  the two best scores returns nothing.
\<close>

definition hint_tokens :: "string \<Rightarrow> string list" where
  "hint_tokens query = dedup (filter (\<lambda>t. 3 \<le> length t \<and> t \<notin> set GENERIC_CATEGORY_HINT_TOKENS)
     (word_tokens (norm_text query)))"

definition token_categories :: "string list \<Rightarrow> value_map \<Rightarrow> (string, string list) dict" where
  "token_categories tokens d =
     fold (\<lambda>actual acc.
         let words = dedup (word_tokens (norm_text actual)) in
         if 1 < length words \<and> \<not> list_all (\<lambda>w. w \<in> set tokens) words then acc
         else fold (\<lambda>t acc. add_to_set t actual acc) (filter (\<lambda>t. t \<in> set words) tokens) acc)
       (map_values d) []"

definition category_scores :: "(string, string list) dict \<Rightarrow> (string, nat) dict" where
  "category_scores tc =
     fold (\<lambda>(t, cs) acc. case cs of
           [c] \<Rightarrow> AList.update c (Suc (case map_of acc c of None \<Rightarrow> 0 | Some n \<Rightarrow> n)) acc
         | _ \<Rightarrow> acc) tc []"

definition infer_keyword_subcategory :: "string \<Rightarrow> value_map \<Rightarrow> string option" where
  "infer_keyword_subcategory query d =
     (if hint_tokens query = [] then None
      else (case sort_desc (\<lambda>(c, n). (n, length c)) (category_scores (token_categories (hint_tokens query) d)) of
              [] \<Rightarrow> None
            | [(c, n)] \<Rightarrow> Some c
            | (c, n) # (c', n') # _ \<Rightarrow> if n = n' then None else Some c))"

subsection \<open>Prices, order, duration\<close>

definition rx_currency :: rx where
  "rx_currency = rx_seq [rx_opt (rx_alt [rx_seq [lit ''rs'', rx_opt (lit ''.'')], lit ''inr'']), rx_sp0]"

definition rx_price :: "nat \<Rightarrow> rx" where
  "rx_price n = Grp n rx_number"

definition rx_between :: rx where
  "rx_between =
     rx_seq [WordB, lit ''between'', rx_sp, rx_currency, rx_price 1, rx_sp, lit ''and'', rx_sp,
       rx_currency, rx_price 2]"

definition rx_from_to :: rx where
  "rx_from_to =
     rx_seq [WordB, lit ''from'', rx_sp, rx_currency, rx_price 1, rx_sp, lit ''to'', rx_sp,
       rx_currency, rx_price 2]"

definition rx_maximum :: rx where
  "rx_maximum =
     rx_seq [WordB, rx_alt [lit ''under'', lit ''below'', rx_seq [lit ''less'', rx_sp, lit
       ''than''], rx_seq [lit ''not'', rx_sp, lit ''more'', rx_sp, lit ''than''], rx_seq [lit
       ''up'', rx_sp, lit ''to''], lit ''within'', lit ''withing'', rx_seq [lit ''budget'', rx_opt
       (rx_seq [rx_sp, lit ''of''])], lit ''maximum'', lit ''max''], rx_sp, rx_currency, rx_price
       1]"

definition rx_around_range :: rx where
  "rx_around_range =
     rx_seq [WordB, rx_opt (rx_seq [lits [''in'', ''around''], rx_sp, rx_opt (rx_seq [lit ''the'',
       rx_sp])]), rx_currency, rx_price 1, rx_sp, rx_opt (rx_seq [lit ''price'', rx_sp]), lit
       ''range'', WordB]"

definition rx_minimum :: rx where
  "rx_minimum =
     rx_seq [WordB, rx_alt [lit ''over'', lit ''above'', rx_seq [lit ''more'', rx_sp, lit
       ''than''], rx_seq [lit ''at'', rx_sp, lit ''least''], lit ''minimum'', lit ''min''], rx_sp,
       rx_currency, rx_price 1]"

text \<open>\<open>float(match.group(n))\<close>; the group is a number.\<close>

definition group_number :: "nat \<Rightarrow> rx_pos \<times> rx_pos \<Rightarrow> pyfloat" where
  "group_number n m = (case rx_group n m of None \<Rightarrow> 0
     | Some t \<Rightarrow> (case parse_float t of None \<Rightarrow> 0 | Some x \<Rightarrow> x))"

definition or_search :: "rx \<Rightarrow> rx \<Rightarrow> string \<Rightarrow> (rx_pos \<times> rx_pos) option" where
  "or_search r s t = (case rx_search r t of Some m \<Rightarrow> Some m | None \<Rightarrow> rx_search s t)"

definition no_commas :: "string \<Rightarrow> string" where
  "no_commas s = filter (\<lambda>c. c \<noteq> CHR '','') (casefold s)"

definition extract_price_constraints :: "string \<Rightarrow> pyfloat option \<times> pyfloat option" where
  "extract_price_constraints query =
     (let n = no_commas query in
      case or_search rx_between rx_from_to n of
        Some m \<Rightarrow> (let a = group_number 1 m; b = group_number 2 m in (Some (min a b), Some (max a b)))
      | None \<Rightarrow>
          (map_option (group_number 1) (rx_search rx_minimum n),
           map_option (group_number 1) (or_search rx_maximum rx_around_range n)))"

definition price_term :: rx where
  "price_term =
     rx_seq [rx_opt (rx_seq [lit ''rental'', rx_sp]), lits [''price'', ''prices'', ''rate'',
       ''rates'', ''rent'', ''fee'', ''fees'']]"

definition low_to_high :: rx where
  "low_to_high =
     rx_alt [rx_seq [price_term, rx_sp, rx_opt (rx_seq [lit ''from'', rx_sp]), lit ''low'', rx_opt
       (lit ''est''), rx_sp, lit ''to'', rx_sp, lit ''high'', rx_opt (lit ''est'')], rx_seq [lit
       ''low'', rx_opt (lit ''est''), rx_sp, lit ''to'', rx_sp, lit ''high'', rx_opt (lit
       ''est''), rx_sp, price_term]]"

definition high_to_low :: rx where
  "high_to_low =
     rx_alt [rx_seq [price_term, rx_sp, rx_opt (rx_seq [lit ''from'', rx_sp]), lit ''high'',
       rx_opt (lit ''est''), rx_sp, lit ''to'', rx_sp, lit ''low'', rx_opt (lit ''est'')], rx_seq
       [lit ''high'', rx_opt (lit ''est''), rx_sp, lit ''to'', rx_sp, lit ''low'', rx_opt (lit
       ''est''), rx_sp, price_term]]"

definition short_low_high :: rx where
  "short_low_high =
     rx_seq [WordB, rx_alt [lit ''l2h'', rx_seq [lit ''low'', rx_sp0, lit ''2'', rx_sp0, lit
       ''high''], rx_seq [lit ''lo'', rx_sp, lit ''to'', rx_sp, lit ''hi'']], WordB]"

definition short_high_low :: rx where
  "short_high_low =
     rx_seq [WordB, rx_alt [lit ''h2l'', rx_seq [lit ''high'', rx_sp0, lit ''2'', rx_sp0, lit
       ''low''], rx_seq [lit ''hi'', rx_sp, lit ''to'', rx_sp, lit ''lo'']], WordB]"

definition ascending_patterns :: "rx list" where
  "ascending_patterns =
     [rx_seq [WordB, rx_alt [lit ''cheapest'', rx_seq [lit ''low'', lits [''er'', ''est''], rx_opt
        (rx_seq [rx_plus sp_dash, lit ''priced''])], rx_seq [lit ''least'', rx_plus sp_dash, lit
        ''expensive'']], WordB],
      rx_seq [WordB, rx_alt [lit ''cheap'', lit ''affordable'', lit ''economical'', lit
        ''inexpensive'', rx_seq [lit ''bargain'', rx_opt (rx_seq [rx_plus sp_dash, lit
        ''priced''])], rx_seq [lit ''budget'', rx_plus sp_dash, lit ''friendly''], rx_seq [lit
        ''pocket'', rx_plus sp_dash, lit ''friendly''], rx_seq [lit ''reasonabl'', lits [''e'',
        ''y''], rx_plus sp_dash, lit ''priced''], rx_seq [lit ''low'', rx_plus sp_dash, lit
        ''cost'']], WordB],
      rx_seq [WordB, lits [''low'', ''lowest'', ''minimum'', ''min''], rx_sp, price_term, WordB],
      rx_seq [WordB, lit ''low'', rx_opt (lit ''est''), rx_sp, lits [''cost'', ''costs''], WordB],
      rx_seq [WordB, price_term, rx_sp, rx_opt (rx_seq [lit ''from'', rx_sp]), lit ''low'', rx_opt
        (lit ''est''), rx_sp, lit ''to'', rx_sp, lit ''high'', rx_opt (lit ''est''), WordB],
      rx_seq [WordB, lit ''low'', rx_opt (lit ''est''), rx_sp, lit ''to'', rx_sp, lit ''high'',
        rx_opt (lit ''est''), rx_sp, price_term, WordB],
      rx_seq [WordB, lits [''sort'', ''order'', ''sorted'', ''ordered''], rx_opt (rx_seq [rx_sp,
        lit ''by'']), rx_sp, price_term, rx_sp, rx_alt [lit ''asc'', lit ''ascending'', rx_seq
        [lit ''low'', rx_opt (lit ''est''), rx_sp, lit ''to'', rx_sp, lit ''high'', rx_opt (lit
        ''est'')]], WordB],
      rx_seq [WordB, lits [''asc'', ''ascending''], rx_sp, price_term, WordB],
      rx_seq [WordB, price_term, rx_sp, lits [''asc'', ''ascending''], WordB]]"

definition descending_patterns :: "rx list" where
  "descending_patterns =
     [rx_seq [WordB, rx_alt [rx_seq [lit ''most'', rx_plus sp_dash, lit ''expensive''], rx_seq
        [lit ''high'', lits [''er'', ''est''], rx_opt (rx_seq [rx_plus sp_dash, lit ''priced''])],
        lit ''costliest'', lit ''dearest'', lit ''priciest'', rx_seq [lit ''top'', rx_plus
        sp_dash, lit ''priced'']], WordB],
      rx_seq [WordB, lits [''high'', ''highest'', ''maximum'', ''max''], rx_sp, price_term, WordB],
      rx_seq [WordB, price_term, rx_sp, rx_opt (rx_seq [lit ''from'', rx_sp]), lit ''high'',
        rx_opt (lit ''est''), rx_sp, lit ''to'', rx_sp, lit ''low'', rx_opt (lit ''est''), WordB],
      rx_seq [WordB, lit ''high'', rx_opt (lit ''est''), rx_sp, lit ''to'', rx_sp, lit ''low'',
        rx_opt (lit ''est''), rx_sp, price_term, WordB],
      rx_seq [WordB, lits [''sort'', ''order'', ''sorted'', ''ordered''], rx_opt (rx_seq [rx_sp,
        lit ''by'']), rx_sp, price_term, rx_sp, rx_alt [lit ''desc'', lit ''descending'', rx_seq
        [lit ''high'', rx_opt (lit ''est''), rx_sp, lit ''to'', rx_sp, lit ''low'', rx_opt (lit
        ''est'')]], WordB],
      rx_seq [WordB, lits [''desc'', ''descending''], rx_sp, price_term, WordB],
      rx_seq [WordB, price_term, rx_sp, lits [''desc'', ''descending''], WordB]]"

definition extract_sort_order :: "string \<Rightarrow> string option" where
  "extract_sort_order query =
     (let n = norm_text query in
      if rx_found (rx_seq [WordB, low_to_high, WordB]) n then Some ''price_asc''
      else if rx_found (rx_seq [WordB, high_to_low, WordB]) n then Some ''price_desc''
      else if rx_found short_low_high n then Some ''price_asc''
      else if rx_found short_high_low n then Some ''price_desc''
      else if list_ex (\<lambda>r. rx_found r n) ascending_patterns then Some ''price_asc''
      else if list_ex (\<lambda>r. rx_found r n) descending_patterns then Some ''price_desc''
      else None)"

definition measure_words :: rx where
  "measure_words =
     rx_seq [WordB, rx_alt [lit ''cc'', lit ''bhp'', lit ''hp'', lit ''km'', lit ''kms'', rx_seq
       [lit ''kilometer'', rx_opt (lit ''s'')], lit ''model'', lit ''seater'', lit ''year''],
       WordB]"

definition bare_amount :: rx where
  "bare_amount =
     rx_seq [NotBehind (\<lambda>c. is_word c \<or> c = CHR ''.''), rx_opt (rx_alt [rx_seq [lit
       ''rs'', rx_opt (lit ''.'')], lit ''inr'']), rx_sp0, Grp 1 (rx_seq [rx_digits, rx_opt
       (rx_seq [lit ''.'', rx_digits])]), NotAhead (\<lambda>c. is_word c \<or> c = CHR ''.'')]"

definition extract_standalone_budget :: "string \<Rightarrow> pyfloat option" where
  "extract_standalone_budget query =
     (let n = no_commas query in
      if rx_found measure_words n then None
      else (case rx_findall_group 1 bare_amount n of
              [t] \<Rightarrow>
                (case parse_float t of
                   None \<Rightarrow> None
                 | Some a \<Rightarrow> if a < 10 \<or> (1900 \<le> a \<and> a \<le> 2100) then None else Some a)
            | _ \<Rightarrow> None))"

definition extract_duration_filter :: "string \<Rightarrow> value_map \<Rightarrow> string option" where
  "extract_duration_filter query d =
     (case find (\<lambda>(canonical, r). rx_found r (norm_text query)) DURATION_PATTERNS of
        None \<Rightarrow> None
      | Some (canonical, r) \<Rightarrow>
          (case map_of d (norm_text canonical) of
             Some v \<Rightarrow> if v = [] then Some canonical else Some v
           | None \<Rightarrow> Some canonical))"

subsection \<open>QueryAnalysis\<close>

record query_analysis =
  original_query :: string
  qa_query :: string
  query_was_normalized :: bool
  exact_values :: "(string, string option) dict"
  category_is_explicit :: "(string, bool) dict"
  category_matches :: "(string, cat_match list) dict"
  clear_model_location_filter :: "(string, bool) dict"
  qa_rental_duration :: "string option"
  price_constraints :: "pyfloat option \<times> pyfloat option"

definition is_category_key :: "string \<Rightarrow> bool" where
  "is_category_key key \<longleftrightarrow> key \<in> set [''main_category'', ''subcategory'']"

definition is_location_key :: "string \<Rightarrow> bool" where
  "is_location_key key \<longleftrightarrow> key \<in> set [''state'', ''city'', ''locality'']"

text \<open>The facts of one filter field: exact value, matches, and whether a location was cleared.\<close>

definition field_matches :: "string \<Rightarrow> value_index \<Rightarrow> string \<Rightarrow> cat_match list" where
  "field_matches query vi key =
     (if is_category_key key then category_catalog_matches query (vi_map vi key) else [])"

definition field_raw_value :: "string \<Rightarrow> value_index \<Rightarrow> string \<Rightarrow> string option" where
  "field_raw_value query vi key =
     (let direct = (case field_matches query vi key of
            m # _ \<Rightarrow> Some (cm_value m)
          | [] \<Rightarrow> find_catalog_value query (vi_map vi key) (is_category_key key));
          found = (case direct of Some v \<Rightarrow> Some v | None \<Rightarrow> find_catalog_alias query key (vi_map vi key))
      in if is_location_key key \<and> is_generic_location_value found then None else found)"

definition field_cleared :: "string \<Rightarrow> value_index \<Rightarrow> string \<Rightarrow> bool" where
  "field_cleared query vi key \<longleftrightarrow> is_location_key key
     \<and> (case field_raw_value query vi key of None \<Rightarrow> False | Some v \<Rightarrow> is_category_attribute_usage query v vi)"

definition field_exact :: "string \<Rightarrow> value_index \<Rightarrow> string \<Rightarrow> string option" where
  "field_exact query vi key = (if field_cleared query vi key then None else field_raw_value query vi key)"

definition field_explicit :: "string \<Rightarrow> value_index \<Rightarrow> string \<Rightarrow> bool" where
  "field_explicit query vi key = (case field_matches query vi key of [] \<Rightarrow> False | m # _ \<Rightarrow> cm_explicit m)"

text \<open>A wider main category hides an overlapping subcategory.\<close>

definition main_hides_subcategory :: "string \<Rightarrow> value_index \<Rightarrow> bool" where
  "main_hides_subcategory query vi \<longleftrightarrow>
     (case (field_matches query vi ''main_category'', field_matches query vi ''subcategory'') of
        (m # _, s # _) \<Rightarrow> cm_start m < cm_end s \<and> cm_start s < cm_end m \<and> cm_width s < cm_width m
      | _ \<Rightarrow> False)"

definition analysis_keys :: "string list" where
  "analysis_keys = filter (\<lambda>k. k \<noteq> ''rental_duration'') (map fst QUERY_FILTER_FIELDS)"

definition analyse ::
    "((string, string) dict \<Rightarrow> string \<Rightarrow> string) \<Rightarrow> string \<Rightarrow> value_index \<Rightarrow> (string, string) dict
      \<Rightarrow> string option \<Rightarrow> query_analysis" where
  "analyse normalizer query vi aliases normalized =
     (let q = (case normalized of Some n \<Rightarrow> if n = [] then normalizer aliases query else n
               | None \<Rightarrow> normalizer aliases query);
          hide = (\<lambda>k. k = ''subcategory'' \<and> main_hides_subcategory q vi)
      in \<lparr>original_query = query, qa_query = q,
          query_was_normalized = (casefold q \<noteq> casefold query),
          exact_values = map (\<lambda>k. (k, if hide k then None else field_exact q vi k)) analysis_keys,
          category_is_explicit = map (\<lambda>k. (k, \<not> hide k \<and> field_explicit q vi k)) analysis_keys,
          category_matches = map (\<lambda>k. (k, field_matches q vi k)) analysis_keys,
          clear_model_location_filter = map (\<lambda>k. (k, field_cleared q vi k)) analysis_keys,
          qa_rental_duration = extract_duration_filter q (vi_map vi ''rental_duration''),
          price_constraints = extract_price_constraints q\<rparr>)"

definition fuzzy_location :: "bool \<Rightarrow> query_analysis \<Rightarrow> value_index \<Rightarrow> (string \<times> string) option" where
  "fuzzy_location fuzzy qa vi =
     (case find_fuzzy_location fuzzy (qa_query qa) vi of
        None \<Rightarrow> None
      | Some (key, actual) \<Rightarrow>
          if is_category_attribute_usage (qa_query qa) actual vi then None else Some (key, actual))"

type_synonym analysis_cache = "(string \<times> string, query_analysis) dict"

definition analysis_key :: "string \<Rightarrow> string \<Rightarrow> string \<times> string" where
  "analysis_key query normalized = (norm_text query, norm_text normalized)"

definition cached_analysis ::
    "((string, string) dict \<Rightarrow> string \<Rightarrow> string) \<Rightarrow> string \<Rightarrow> value_index \<Rightarrow> (string, string) dict
      \<Rightarrow> analysis_cache option \<Rightarrow> query_analysis \<times> analysis_cache option" where
  "cached_analysis normalizer query vi aliases cache =
     (let normalized = normalizer aliases query;
          key = analysis_key query normalized;
          fresh = analyse normalizer query vi aliases (Some normalized)
      in case cache of
           None \<Rightarrow> (fresh, None)
         | Some c \<Rightarrow>
             (case map_of c key of
                Some a \<Rightarrow> (a\<lparr>original_query := query, qa_query := normalized,
                    query_was_normalized := (casefold normalized \<noteq> casefold query)\<rparr>, cache)
              | None \<Rightarrow> (fresh, Some (AList.update key fresh c))))"

subsection \<open>The value index and resolved filters\<close>

definition text_map :: "(string, pyval) dict \<Rightarrow> value_map" where
  "text_map d = map (\<lambda>(k, v). (k, py_str v)) d"

definition query_filter_value_index :: "bm25_index \<Rightarrow> value_index" where
  "query_filter_value_index ix =
     \<lparr>vi_values = map (\<lambda>(key, column). (key, text_map
          (case map_of (filter_value_index ix) column of None \<Rightarrow> [] | Some d \<Rightarrow> d))) QUERY_FILTER_FIELDS,
      vi_subcategory_main = text_map (subcategory_parent_index ix),
      vi_city_state = text_map (city_state_index ix),
      vi_locality_location = map (\<lambda>(k, d). (k, py_str (dget d ''city''), py_str (dget d ''state'')))
        (locality_location_index ix)\<rparr>"

definition build_query_filter_catalog :: "nat \<Rightarrow> value_index \<Rightarrow> (string, string list) dict" where
  "build_query_filter_catalog max_values vi =
     List.map_filter (\<lambda>key.
         let values = sort_key casefold (map_values (vi_map vi key)) in
         if values \<noteq> [] \<and> length values \<le> max_values then Some (key, values) else None)
       [''main_category'', ''state'', ''rental_duration'']"

definition text_of :: "pyval \<Rightarrow> string option" where
  "text_of v = (case v of VNone \<Rightarrow> None | _ \<Rightarrow> Some (py_str v))"

definition number_of :: "pyval \<Rightarrow> pyfloat option" where
  "number_of v = (case v of VNone \<Rightarrow> None | _ \<Rightarrow> to_float v)"

definition resolve_field ::
    "pydict \<Rightarrow> value_index \<Rightarrow> string \<times> string \<Rightarrow> pydict \<times> pydict \<Rightarrow> pydict \<times> pydict" where
  "resolve_field fs vi field st =
     (case st of (resolved, unresolved) \<Rightarrow>
        (case text_of (dget fs (fst field)) of
           None \<Rightarrow> (resolved, unresolved)
         | Some requested \<Rightarrow>
             (case canonical_catalog_value (fst field) requested (vi_map vi (fst field)) True of
                None \<Rightarrow> (resolved, AList.update (fst field) (dget fs (fst field)) unresolved)
              | Some actual \<Rightarrow> (AList.update (snd field) (VStr actual) resolved, unresolved))))"

definition resolve_query_filters :: "pydict \<Rightarrow> value_index \<Rightarrow> filters \<times> pydict" where
  "resolve_query_filters fs vi =
     (let (resolved, unresolved) = fold (resolve_field fs vi) QUERY_FILTER_FIELDS ([], []);
          categorical = (case optional_user_gender (dget fs ''user_gender'') of
              None \<Rightarrow> resolved | Some g \<Rightarrow> AList.update ''user_gender'' (VInt g) resolved)
      in (\<lparr>categorical = categorical, min_fee = number_of (dget fs ''min_rental_fee''),
           max_fee = number_of (dget fs ''max_rental_fee'')\<rparr>, unresolved))"

subsection \<open>The facts depend on the normal form only\<close>

lemma same_norm [catalog_facts]:
  assumes "norm_text q = norm_text q'"
  shows "find_catalog_value q d pl = find_catalog_value q' d pl"
    and "find_catalog_alias q key d = find_catalog_alias q' key d"
    and "is_repair_subject_usage q v = is_repair_subject_usage q' v"
    and "is_explicit_category_request q v = is_explicit_category_request q' v"
    and "is_category_attribute_usage q v vi = is_category_attribute_usage q' v vi"
    and "extract_duration_filter q d = extract_duration_filter q' d"
    and "location_phrases q = location_phrases q'"
  by (simp_all add: find_catalog_value_def find_catalog_alias_def is_repair_subject_usage_def
      is_explicit_category_request_def is_category_attribute_usage_def extract_duration_filter_def
      location_phrases_def assms Let_def)

lemma same_norm_matches [catalog_facts]:
  assumes "norm_text q = norm_text q'"
  shows "category_catalog_matches q d = category_catalog_matches q' d"
proof -
  have "category_match q tokens actual = category_match q' tokens actual" for tokens actual
    by (simp add: category_match_def category_match_at_def Let_def same_norm [OF assms])
  then have "category_match q tokens = category_match q' tokens" for tokens by blast
  then show ?thesis by (simp add: category_catalog_matches_def assms)
qed

lemma same_norm_fields [catalog_facts]:
  assumes "norm_text q = norm_text q'"
  shows "field_matches q vi k = field_matches q' vi k" "field_raw_value q vi k = field_raw_value q' vi k"
    "field_cleared q vi k = field_cleared q' vi k" "field_exact q vi k = field_exact q' vi k"
    "field_explicit q vi k = field_explicit q' vi k"
    "main_hides_subcategory q vi = main_hides_subcategory q' vi"
    "find_fuzzy_location fuzzy q vi = find_fuzzy_location fuzzy q' vi"
proof -
  show m: "field_matches q vi k = field_matches q' vi k" for k
    by (simp add: field_matches_def same_norm_matches [OF assms])
  show r: "field_raw_value q vi k = field_raw_value q' vi k"
    unfolding field_raw_value_def m same_norm [OF assms] ..
  show c: "field_cleared q vi k = field_cleared q' vi k"
    unfolding field_cleared_def r same_norm [OF assms] ..
  show "field_exact q vi k = field_exact q' vi k" by (simp add: field_exact_def c r)
  show "field_explicit q vi k = field_explicit q' vi k" by (simp add: field_explicit_def m)
  show "main_hides_subcategory q vi = main_hides_subcategory q' vi"
    by (simp add: main_hides_subcategory_def m)
  show "find_fuzzy_location fuzzy q vi = find_fuzzy_location fuzzy q' vi"
    by (simp add: find_fuzzy_location_def same_norm [OF assms])
qed

text \<open>Two analyses that agree on every fact but the prices (and on the texts they keep).\<close>

definition same_facts :: "query_analysis \<Rightarrow> query_analysis \<Rightarrow> bool" where
  "same_facts a b \<longleftrightarrow> exact_values a = exact_values b \<and> category_is_explicit a = category_is_explicit b
     \<and> category_matches a = category_matches b
     \<and> clear_model_location_filter a = clear_model_location_filter b
     \<and> qa_rental_duration a = qa_rental_duration b"

definition same_text :: "query_analysis \<Rightarrow> query_analysis \<Rightarrow> bool" where
  "same_text a b \<longleftrightarrow> original_query a = original_query b \<and> qa_query a = qa_query b
     \<and> query_was_normalized a = query_was_normalized b"

lemma analyse_query: "qa_query (analyse normalizer q vi aliases (Some (normalizer aliases q))) = normalizer aliases q"
  by (simp add: analyse_def Let_def)

lemma analyse_same_facts:
  assumes "norm_text (normalizer aliases q) = norm_text (normalizer aliases q')"
  shows "same_facts (analyse normalizer q vi aliases (Some (normalizer aliases q)))
    (analyse normalizer q' vi aliases (Some (normalizer aliases q')))"
proof -
  have "(case Some (normalizer aliases q) of Some n \<Rightarrow> if n = [] then normalizer aliases q else n
      | None \<Rightarrow> normalizer aliases q) = normalizer aliases q" for q by simp
  then show ?thesis
    unfolding analyse_def same_facts_def Let_def
    by (simp add: same_norm_fields [OF assms] same_norm [OF assms])
qed

definition analysis_cache_ok ::
    "((string, string) dict \<Rightarrow> string \<Rightarrow> string) \<Rightarrow> value_index \<Rightarrow> (string, string) dict \<Rightarrow> analysis_cache \<Rightarrow> bool" where
  "analysis_cache_ok normalizer vi aliases c \<longleftrightarrow> (\<forall>key a. map_of c key = Some a \<longrightarrow>
     (\<exists>q. key = analysis_key q (normalizer aliases q)
        \<and> same_facts a (analyse normalizer q vi aliases (Some (normalizer aliases q)))))"

fun run_analyses ::
    "((string, string) dict \<Rightarrow> string \<Rightarrow> string) \<Rightarrow> value_index \<Rightarrow> (string, string) dict
      \<Rightarrow> string list \<Rightarrow> analysis_cache \<Rightarrow> query_analysis list" where
  "run_analyses normalizer vi aliases [] c = []"
| "run_analyses normalizer vi aliases (q # qs) c =
     (case cached_analysis normalizer q vi aliases (Some c) of
        (a, Some c') \<Rightarrow> a # run_analyses normalizer vi aliases qs c'
      | (a, None) \<Rightarrow> a # run_analyses normalizer vi aliases qs c)"

lemma cached_analysis_step:
  assumes "analysis_cache_ok normalizer vi aliases c"
    and "cached_analysis normalizer q vi aliases (Some c) = (a, Some c')"
  shows "analysis_cache_ok normalizer vi aliases c'
    \<and> same_facts a (analyse normalizer q vi aliases (Some (normalizer aliases q)))
    \<and> same_text a (analyse normalizer q vi aliases (Some (normalizer aliases q)))"
proof (cases "map_of c (analysis_key q (normalizer aliases q))")
  case None
  let ?fresh = "analyse normalizer q vi aliases (Some (normalizer aliases q))"
  have a: "a = ?fresh" "c' = AList.update (analysis_key q (normalizer aliases q)) ?fresh c"
    using assms(2) None by (auto simp: cached_analysis_def Let_def)
  have "analysis_cache_ok normalizer vi aliases c'"
    using assms(1) unfolding a analysis_cache_ok_def
    by (auto simp: update_conv' same_facts_def split: if_splits)
  then show ?thesis by (simp add: a same_facts_def same_text_def)
next
  case (Some b)
  have c: "c' = c" and a: "a = b\<lparr>original_query := q, qa_query := normalizer aliases q,
      query_was_normalized := (casefold (normalizer aliases q) \<noteq> casefold q)\<rparr>"
    using assms(2) Some by (simp_all add: cached_analysis_def Let_def)
  obtain q0 where q0: "analysis_key q (normalizer aliases q) = analysis_key q0 (normalizer aliases q0)"
    "same_facts b (analyse normalizer q0 vi aliases (Some (normalizer aliases q0)))"
    using assms(1) Some unfolding analysis_cache_ok_def by blast
  have norm: "norm_text (normalizer aliases q0) = norm_text (normalizer aliases q)"
    using q0(1) by (simp add: analysis_key_def)
  from analyse_same_facts [where normalizer = normalizer and aliases = aliases, OF norm]
  have "same_facts b (analyse normalizer q vi aliases (Some (normalizer aliases q)))"
    using q0(2) unfolding same_facts_def by metis
  then show ?thesis using assms(1)
    by (simp add: a c same_facts_def same_text_def analyse_def Let_def)
qed

theorem analysis_cache_transparent:
  "list_all2 (\<lambda>a q. same_facts a (analyse normalizer q vi aliases (Some (normalizer aliases q)))
      \<and> same_text a (analyse normalizer q vi aliases (Some (normalizer aliases q))))
    (run_analyses normalizer vi aliases qs []) qs"
proof -
  have "list_all2 (\<lambda>a q. same_facts a (analyse normalizer q vi aliases (Some (normalizer aliases q)))
      \<and> same_text a (analyse normalizer q vi aliases (Some (normalizer aliases q))))
    (run_analyses normalizer vi aliases qs c) qs"
    if "analysis_cache_ok normalizer vi aliases c" for c
    using that
  proof (induction qs arbitrary: c)
    case (Cons q qs)
    obtain a c' where run: "cached_analysis normalizer q vi aliases (Some c) = (a, Some c')"
      by (cases "map_of c (analysis_key q (normalizer aliases q))")
        (simp_all add: cached_analysis_def Let_def)
    from cached_analysis_step [OF Cons.prems run] Cons.IH [of c']
    show ?case by (simp add: run)
  qed simp
  then show ?thesis by (simp add: analysis_cache_ok_def)
qed

subsection \<open>What a model plan may contain\<close>

lemma split_category_dget [catalog_facts]:
  "dget (fst (split_category original key st)) k =
    (if k = key \<and> (\<exists>v. dget (fst st) key = VStr v \<and> \<not> is_explicit_category_request original v)
     then VNone else dget (fst st) k)"
  by (cases st) (auto simp: split_category_def split: pyval.split)

lemma drop_unmentioned_dget [catalog_facts]:
  "dget (drop_unmentioned original key fs) k =
    (if k = key \<and> (\<exists>v. dget fs key = VStr v \<and> \<not> text_mentions_filter original v)
     then VNone else dget fs k)"
  by (auto simp: drop_unmentioned_def split: pyval.split)

lemma split_categories_dget:
  assumes "split_category original ''subcategory'' (split_category original ''main_category'' (fs, inff)) = (fs', inff')"
  shows "dget fs' k =
    (if k \<in> {''main_category'', ''subcategory''}
        \<and> (\<exists>v. dget fs k = VStr v \<and> \<not> is_explicit_category_request original v) then VNone else dget fs k)"
  using split_category_dget [of original "''subcategory''" "split_category original ''main_category'' (fs, inff)" k] assms
  by (auto simp: split_category_dget split: if_splits)

definition plan_guarded :: "string \<Rightarrow> query_plan \<Rightarrow> bool" where
  "plan_guarded original plan \<longleftrightarrow>
     target_ad_type plan \<in> {''offer'', ''wanted''}
     \<and> (\<forall>v. dget (plan_filters plan) ''main_category'' = VStr v \<longrightarrow>
          is_explicit_category_request original v \<and> text_mentions_filter original v)
     \<and> (\<forall>v. dget (plan_filters plan) ''subcategory'' = VStr v \<longrightarrow> is_explicit_category_request original v)
     \<and> (\<forall>v. dget (plan_filters plan) ''state'' = VStr v \<longrightarrow> text_mentions_filter original v)
     \<and> (\<forall>a b. dget (plan_filters plan) ''min_rental_fee'' = VFloat a \<longrightarrow>
          dget (plan_filters plan) ''max_rental_fee'' = VFloat b \<longrightarrow> 0 \<le> a \<and> a \<le> b)
     \<and> dget (plan_filters plan) ''user_gender'' \<in> {VNone, VInt 1, VInt 2, VInt 3}"

definition order_fees :: "pyfloat option \<Rightarrow> pyfloat option \<Rightarrow> pyfloat option \<times> pyfloat option" where
  "order_fees lo hi = (case (lo, hi) of (Some a, Some b) \<Rightarrow> if b < a then (Some b, Some a) else (lo, hi)
     | _ \<Rightarrow> (lo, hi))"

lemma optional_number_nonneg: "optional_number v = Some x \<Longrightarrow> 0 \<le> x"
  by (auto simp: optional_number_def split: pyval.splits option.splits if_splits)

lemma order_fees_ok:
  assumes "order_fees (optional_number a) (optional_number b) = (Some x, Some y)"
  shows "0 \<le> x \<and> x \<le> y"
  using assms optional_number_nonneg [of a] optional_number_nonneg [of b]
  by (auto simp: order_fees_def split: option.splits if_splits)

lemma of_gender_ok: "of_gender (optional_user_gender v) \<in> {VNone, VInt 1, VInt 2, VInt 3}"
  by (auto simp: of_gender_def optional_user_gender_def split: pyval.split option.split)

lemma dget_upd: "dget (AList.update k v d) k' = (if k' = k then v else dget d k')"
  by (simp add: dget_def update_conv')

lemma parsed_guarded:
  assumes "parse_query_plan json_loads body original = Inr plan"
  shows "plan_guarded original plan"
proof -
  obtain parsed where parsed: "json_loads body = Inr (VDict parsed)"
    using assms by (auto simp: parse_query_plan_def split: sum.splits pyval.splits)
  define raw where "raw = (case dget parsed ''filters'' of VDict d \<Rightarrow> d | _ \<Rightarrow> [])"
  define fs1 where "fs1 = AList.update ''user_gender'' (of_gender (optional_user_gender (dget raw ''user_gender'')))
      (map (\<lambda>(key, column). (key, of_text (optional_text (dget raw key)))) QUERY_FILTER_FIELDS)"
  obtain fs2 inff where split: "split_category original ''subcategory''
      (split_category original ''main_category'' (fs1, no_categories)) = (fs2, inff)" by (metis prod.exhaust)
  obtain lo hi where fees: "order_fees (optional_number (dget raw ''min_rental_fee''))
      (optional_number (dget raw ''max_rental_fee'')) = (lo, hi)" by (metis prod.exhaust)
  define fs3 where "fs3 = drop_unmentioned original ''state'' (drop_unmentioned original ''main_category'' fs2)"
  have filters: "plan_filters plan = AList.update ''max_rental_fee'' (of_number hi)
      (AList.update ''min_rental_fee'' (of_number lo) fs3)"
    and target: "target_ad_type plan = (case dget parsed ''target_ad_type'' of
        VStr t \<Rightarrow> if t \<in> set [''offer'', ''wanted''] then t else ''offer'' | _ \<Rightarrow> ''offer'')"
    using assms fees unfolding fs3_def order_fees_def
    by (auto simp: parse_query_plan_def parsed Let_def raw_def [symmetric] fs1_def [symmetric] split
        split: if_splits)
  have get: "dget (plan_filters plan) k = (if k = ''max_rental_fee'' then of_number hi
      else if k = ''min_rental_fee'' then of_number lo else dget fs3 k)" for k
    by (simp add: filters dget_upd)
  have fs3: "dget fs3 k = (if k \<in> {''main_category'', ''state''}
      \<and> (\<exists>v. dget fs2 k = VStr v \<and> \<not> text_mentions_filter original v) then VNone else dget fs2 k)" for k
    by (auto simp: fs3_def drop_unmentioned_dget)
  note fs2 = split_categories_dget [OF split]
  have gender: "dget fs1 ''user_gender'' \<in> {VNone, VInt 1, VInt 2, VInt 3}"
    by (simp add: fs1_def dget_upd of_gender_ok del: insert_iff)
  have fee: "of_number lo = VFloat a \<Longrightarrow> of_number hi = VFloat b \<Longrightarrow> 0 \<le> a \<and> a \<le> b" for a b
    using order_fees_ok fees by (auto simp: of_number_def split: option.splits)
  show ?thesis unfolding plan_guarded_def
  proof (intro conjI)
    show "target_ad_type plan \<in> {''offer'', ''wanted''}"
      by (auto simp: target split: pyval.split)
  qed (use gender fee in \<open>auto simp: get fs3 fs2 split: if_splits\<close>)
qed

theorem parsed_plan_guarded:
  assumes "parse_query_plan json_loads body original = Inr plan"
  shows "plan_guarded original plan"
  by (rule parsed_guarded [OF assms])

subsection \<open>Resolution against the catalogue\<close>

lemma map_of_values: "map_of d k = Some v \<Longrightarrow> v \<in> set (map_values d)"
  by (auto simp: map_values_def dest!: map_of_SomeD intro: rev_image_eqI)

lemma fuzzy_in_catalog: "fuzzy_catalog_match n d t = Some (v, s) \<Longrightarrow> v \<in> set (map_values d)"
  by (auto simp: fuzzy_catalog_match_def dest: map_of_values split: list.splits if_splits)

lemma canonical_in_catalog: "canonical_catalog_value key r d b = Some v \<Longrightarrow> v \<in> set (map_values d)"
  by (auto simp: canonical_catalog_value_def Let_def dest: map_of_values fuzzy_in_catalog
      split: option.splits if_splits)

text \<open>Each requested field is resolved to a value of its catalogue or reported as unresolved.\<close>

definition fields_resolved ::
    "pydict \<Rightarrow> value_index \<Rightarrow> (string \<times> string) list \<Rightarrow> pydict \<Rightarrow> pydict \<Rightarrow> bool" where
  "fields_resolved fs vi fds resolved unresolved \<longleftrightarrow>
     (\<forall>c v. (c, v) \<in> set resolved \<longrightarrow> (\<exists>key. (key, c) \<in> set fds
        \<and> (\<exists>actual \<in> set (map_values (vi_map vi key)). v = VStr actual)))
     \<and> (\<forall>key \<in> fst ` set unresolved. key \<in> fst ` set fds)
     \<and> (\<forall>key c. (key, c) \<in> set fds \<longrightarrow> dget fs key \<noteq> VNone \<longrightarrow>
        (c \<in> fst ` set resolved) \<noteq> (key \<in> fst ` set unresolved))"

lemma set_update_cases: "x \<in> set (AList.update k v d) \<Longrightarrow> x = (k, v) \<or> x \<in> set d"
  by (induction d) (auto split: if_splits)

lemma resolve_field_cases:
  obtains "dget fs (fst field) = VNone" "resolve_field fs vi field st = st"
  | actual where "dget fs (fst field) \<noteq> VNone" "actual \<in> set (map_values (vi_map vi (fst field)))"
      "resolve_field fs vi field st = (AList.update (snd field) (VStr actual) (fst st), snd st)"
  | "dget fs (fst field) \<noteq> VNone"
      "resolve_field fs vi field st = (fst st, AList.update (fst field) (dget fs (fst field)) (snd st))"
proof (cases "text_of (dget fs (fst field))")
  case None
  then have "dget fs (fst field) = VNone" by (auto simp: text_of_def split: pyval.splits)
  then show ?thesis using that(1) None by (cases st) (simp add: resolve_field_def)
next
  case (Some r)
  then have "dget fs (fst field) \<noteq> VNone" by (auto simp: text_of_def split: pyval.splits)
  note asked = this
  show ?thesis
  proof (cases "canonical_catalog_value (fst field) r (vi_map vi (fst field)) True")
    case None
    then have "resolve_field fs vi field st = (fst st, AList.update (fst field) (dget fs (fst field)) (snd st))"
      using Some by (cases st) (simp add: resolve_field_def)
    then show ?thesis by (rule that(3) [OF asked])
  next
    case (Some a)
    then have "resolve_field fs vi field st = (AList.update (snd field) (VStr a) (fst st), snd st)"
      using \<open>text_of (dget fs (fst field)) = Some r\<close> by (cases st) (simp add: resolve_field_def)
    then show ?thesis by (rule that(2) [OF asked canonical_in_catalog [OF Some]])
  qed
qed

lemma fold_resolve_fields:
  "distinct (map fst fds) \<Longrightarrow> distinct (map snd fds) \<Longrightarrow>
    (case fold (resolve_field fs vi) fds ([], []) of (r, u) \<Rightarrow> fields_resolved fs vi fds r u)"
proof (induction fds rule: rev_induct)
  case (snoc field fds)
  obtain r u where ru: "fold (resolve_field fs vi) fds ([], []) = (r, u)" by (metis prod.exhaust)
  have IH: "fields_resolved fs vi fds r u" using snoc ru by simp
  obtain key c where field: "field = (key, c)" by (cases field)
  have "c' \<in> snd ` set fds" if "(c', v) \<in> set r" for c' v
    using IH that unfolding fields_resolved_def by (metis image_eqI snd_conv)
  then have cols: "fst ` set r \<subseteq> snd ` set fds" "fst ` set u \<subseteq> fst ` set fds"
    using IH by (auto simp: fields_resolved_def)
  have new: "c \<notin> fst ` set r" "key \<notin> fst ` set u" "c \<notin> snd ` set fds" "key \<notin> fst ` set fds"
    using snoc.prems cols by (auto simp: field)
  have old: "c' \<noteq> c \<and> key' \<noteq> key" if "(key', c') \<in> set fds" for key' c'
    using that new(3,4) by (metis fst_conv image_eqI snd_conv)
  let ?fds = "fds @ [(key, c)]"
  have grow: "\<exists>key'. (key', c') \<in> set ?fds \<and> (\<exists>a \<in> set (map_values (vi_map vi key')). v = VStr a)"
    if res_in: "(c', v) \<in> set r" for c' v
  proof -
    obtain key' a where "(key', c') \<in> set fds" "a \<in> set (map_values (vi_map vi key'))" "v = VStr a"
      using IH [unfolded fields_resolved_def, THEN conjunct1] res_in by blast
    then show ?thesis by (intro exI [of _ key']) simp
  qed
  note once = IH [unfolded fields_resolved_def, THEN conjunct2, THEN conjunct2]
  show ?case
  proof (rule resolve_field_cases [of fs field vi "(r, u)"], goal_cases)
    case 1
    have "(c' \<in> fst ` set r) \<noteq> (key' \<in> fst ` set u)"
      if "(key', c') \<in> set ?fds" "dget fs key' \<noteq> VNone" for key' c'
      using once that 1(1) by (auto simp: field)
    moreover have "\<forall>key' \<in> fst ` set u. key' \<in> fst ` set ?fds" using cols(2) by auto
    ultimately have "fields_resolved fs vi ?fds r u" using grow unfolding fields_resolved_def by blast
    then show ?case using 1 by (simp add: ru field)
  next
    case (2 actual)
    let ?r = "AList.update c (VStr actual) r"
    have "\<exists>key'. (key', c') \<in> set ?fds \<and> (\<exists>a \<in> set (map_values (vi_map vi key')). v = VStr a)"
      if "(c', v) \<in> set ?r" for c' v
    proof -
      have "(c', v) = (c, VStr actual) \<or> (c', v) \<in> set r" using that by (rule set_update_cases)
      then show ?thesis using grow 2(2) by (auto simp: field)
    qed
    moreover have "(c' \<in> fst ` set ?r) \<noteq> (key' \<in> fst ` set u)"
      if "(key', c') \<in> set ?fds" "dget fs key' \<noteq> VNone" for key' c'
      using once that new(2) new(3) old by (auto simp: dom_update dest: old)
    moreover have "\<forall>key' \<in> fst ` set u. key' \<in> fst ` set ?fds" using cols(2) by auto
    ultimately have "fields_resolved fs vi ?fds ?r u" unfolding fields_resolved_def by blast
    then show ?case using 2 by (simp add: ru field)
  next
    case 3
    let ?u = "AList.update key (dget fs key) u"
    have "(c' \<in> fst ` set r) \<noteq> (key' \<in> fst ` set ?u)"
      if "(key', c') \<in> set ?fds" "dget fs key' \<noteq> VNone" for key' c'
      using once that new(1) new(4) old by (auto simp: dom_update dest: old)
    moreover have "\<forall>key' \<in> fst ` set ?u. key' \<in> fst ` set ?fds" using cols(2) by (auto simp: dom_update)
    ultimately have "fields_resolved fs vi ?fds r ?u" using grow unfolding fields_resolved_def by blast
    then show ?case using 3 by (simp add: ru field)
  qed
qed (simp add: fields_resolved_def)

lemma field_columns: "snd ` set QUERY_FILTER_FIELDS \<subseteq> set STRUCTURED_FILTER_COLUMNS"
  "distinct (map snd QUERY_FILTER_FIELDS)" "''user_gender'' \<in> set STRUCTURED_FILTER_COLUMNS"
  "''user_gender'' \<notin> snd ` set QUERY_FILTER_FIELDS"
  by code_simp+

lemma resolved_facts:
  assumes "resolve_query_filters fs vi = (resolved, unresolved)"
  shows "plain_filters resolved
    \<and> (\<forall>c v. (c, v) \<in> set (categorical resolved) \<longrightarrow> c \<noteq> ''user_gender'' \<longrightarrow>
         (\<exists>key. (key, c) \<in> set QUERY_FILTER_FIELDS \<and> (\<exists>actual \<in> set (map_values (vi_map vi key)). v = VStr actual)))
    \<and> (\<forall>key c. (key, c) \<in> set QUERY_FILTER_FIELDS \<longrightarrow> dget fs key \<noteq> VNone \<longrightarrow>
         (c \<in> fst ` set (categorical resolved)) \<noteq> (key \<in> fst ` set unresolved))"
proof -
  obtain r u where ru: "fold (resolve_field fs vi) QUERY_FILTER_FIELDS ([], []) = (r, u)" by (metis prod.exhaust)
  have inv: "fields_resolved fs vi QUERY_FILTER_FIELDS r u"
    using fold_resolve_fields [OF field_keys_distinct field_columns(2), of fs vi] by (simp add: ru)
  obtain g where g: "optional_user_gender (dget fs ''user_gender'') = g" by blast
  have res: "categorical resolved = (case g of None \<Rightarrow> r | Some i \<Rightarrow> AList.update ''user_gender'' (VInt i) r)"
    "unresolved = u"
    using assms by (auto simp: resolve_query_filters_def ru g)
  have r_cols: "\<exists>key. (key, c) \<in> set QUERY_FILTER_FIELDS \<and> (\<exists>actual \<in> set (map_values (vi_map vi key)). v = VStr actual)"
    if "(c, v) \<in> set r" for c v
    using inv that unfolding fields_resolved_def by blast
  then have plain_r: "c \<in> set STRUCTURED_FILTER_COLUMNS \<and> (\<exists>a. v = VStr a)" if "(c, v) \<in> set r" for c v
    using that field_columns(1) by fastforce
  have mem: "x \<in> set r \<or> (\<exists>i. x = (''user_gender'', VInt i))" if "x \<in> set (categorical resolved)" for x
    using that by (cases g) (auto simp: res dest: set_update_cases)
  have keys: "c \<in> fst ` set (categorical resolved) \<longleftrightarrow> c \<in> fst ` set r" if "c \<noteq> ''user_gender''" for c
    using that by (cases g) (auto simp: res dom_update)
  have "plain_filters resolved"
    using plain_r mem field_columns(3) by (fastforce simp: plain_filters_def list_all_iff)
  moreover have "\<exists>key. (key, c) \<in> set QUERY_FILTER_FIELDS \<and> (\<exists>actual \<in> set (map_values (vi_map vi key)). v = VStr actual)"
    if "(c, v) \<in> set (categorical resolved)" "c \<noteq> ''user_gender''" for c v
    using mem [OF that(1)] that(2) r_cols by blast
  moreover have "(c \<in> fst ` set (categorical resolved)) \<noteq> (key \<in> fst ` set unresolved)"
    if "(key, c) \<in> set QUERY_FILTER_FIELDS" "dget fs key \<noteq> VNone" for key c
  proof -
    have "c \<noteq> ''user_gender''" using that(1) field_columns(4) by (metis image_eqI snd_conv)
    then show ?thesis using inv that keys unfolding fields_resolved_def res(2) by metis
  qed
  ultimately show ?thesis by blast
qed

theorem resolved_filters_are_catalog_values:
  assumes "resolve_query_filters fs vi = (resolved, unresolved)"
  shows "plain_filters resolved
    \<and> (\<forall>c v. (c, v) \<in> set (categorical resolved) \<longrightarrow> c \<noteq> ''user_gender'' \<longrightarrow>
         (\<exists>key. (key, c) \<in> set QUERY_FILTER_FIELDS \<and> (\<exists>actual \<in> set (map_values (vi_map vi key)). v = VStr actual)))
    \<and> (\<forall>key c. (key, c) \<in> set QUERY_FILTER_FIELDS \<longrightarrow> dget fs key \<noteq> VNone \<longrightarrow>
         (c \<in> fst ` set (categorical resolved)) \<noteq> (key \<in> fst ` set unresolved))"
  by (rule resolved_facts [OF assms])

lemma resolve_plain: "resolve_query_filters fs vi = (resolved, unresolved) \<Longrightarrow> plain_filters resolved"
  using resolved_facts by blast

subsection \<open>Typo matching\<close>

text \<open>A catalogue key that a variant of the text may stand for.\<close>

definition near_variant :: "string \<Rightarrow> string \<Rightarrow> bool" where
  "near_variant key variant \<longleftrightarrow> edits (edit_distance variant key) variant key \<and> edit_distance variant key \<le> 2
     \<or> subseq variant key \<and> length key \<le> length variant + 3"

lemma variant_score_cases:
  "variant_score key variant best = best
    \<or> (92 / 100 \<le> variant_score key variant best \<and> near_variant key variant)"
proof (cases "variant_score key variant best = best")
  case False
  define dist where "dist = edit_distance variant key"
  have near1: "dist \<le> 2 \<Longrightarrow> near_variant key variant"
    using edit_distance_edits [of variant key] by (simp add: near_variant_def dist_def)
  have near2: "ordered_subsequence variant key \<Longrightarrow> length key - length variant \<le> 3 \<Longrightarrow> near_variant key variant"
    by (auto simp: near_variant_def ordered_subsequence_subseq)
  have "dist \<le> 2 \<Longrightarrow> 92 / 100 \<le> 98 / 100 - 2 / 100 * (of_nat dist :: pyfloat)"
  proof -
    assume "dist \<le> 2"
    then have "(of_nat dist :: pyfloat) \<le> 2" by (metis of_nat_le_iff of_nat_numeral)
    then show ?thesis by simp
  qed
  moreover have "98 / 100 - 2 / 100 * (of_nat dist :: pyfloat) \<le> 98 / 100" by simp
  ultimately show ?thesis using False near1 near2
    unfolding variant_score_def dist_def [symmetric] Let_def max_def
    by (auto split: if_splits)
qed simp

lemma typo_score_cases:
  "typo_score variants key = 0 \<or> (92 / 100 \<le> typo_score variants key \<and> (\<exists>v \<in> set variants. near_variant key v))"
proof -
  have "fold (variant_score key) vs best = best
      \<or> (92 / 100 \<le> fold (variant_score key) vs best \<and> (\<exists>v \<in> set vs. near_variant key v))" for vs best
  proof (induction vs arbitrary: best)
    case (Cons v vs)
    from Cons.IH [of "variant_score key v best"] variant_score_cases [of key v best]
    show ?case by auto
  qed simp
  then show ?thesis by (auto simp: typo_score_def)
qed

text \<open>The candidate of an identity carries its best score.\<close>

definition typo_inv :: "string list \<Rightarrow> value_map \<Rightarrow> (string, string \<times> pyfloat) dict \<Rightarrow> bool" where
  "typo_inv variants d acc \<longleftrightarrow> distinct (map fst acc)
     \<and> (\<forall>i a s. map_of acc i = Some (a, s) \<longrightarrow> i = norm_text a \<and> s \<noteq> 0
          \<and> (\<exists>key. (key, a) \<in> set d \<and> s = typo_score variants key))
     \<and> (\<forall>key a. (key, a) \<in> set d \<longrightarrow> typo_score variants key \<noteq> 0 \<longrightarrow>
          (\<exists>b t. map_of acc (norm_text a) = Some (b, t) \<and> typo_score variants key \<le> t))"

lemma typo_inv_step:
  assumes "typo_inv variants d acc"
  shows "typo_inv variants (d @ [(key, actual)]) (typo_step variants False (key, actual) acc)"
    (is "typo_inv _ _ ?new")
proof -
  note old = assms [unfolded typo_inv_def]
  have grow: "i = norm_text a \<and> s \<noteq> 0 \<and> (\<exists>k. (k, a) \<in> set (d @ [(key, actual)]) \<and> s = typo_score variants k)"
    if "map_of acc i = Some (a, s)" for i a s
  proof -
    have "i = norm_text a \<and> s \<noteq> 0 \<and> (\<exists>k. (k, a) \<in> set d \<and> s = typo_score variants k)"
      using old [THEN conjunct2, THEN conjunct1] that by blast
    then show ?thesis unfolding set_append by blast
  qed
  let ?s = "typo_score variants key"
  consider "?s = 0" "?new = acc"
    | "?s \<noteq> 0" "?new = AList.update (norm_text actual) (actual, ?s) acc"
        "\<And>a t. map_of acc (norm_text actual) = Some (a, t) \<Longrightarrow> t \<le> ?s"
    | a t where "?s \<noteq> 0" "?new = acc" "map_of acc (norm_text actual) = Some (a, t)" "?s \<le> t"
  proof (cases "?s = 0")
    case True
    then show thesis by (rule that(1)) (simp add: True typo_step_def Let_def)
  next
    case nz: False
    show thesis
    proof (cases "map_of acc (norm_text actual)")
      case None
      then show thesis using nz by (intro that(2)) (simp_all add: typo_step_def Let_def)
    next
      case (Some hit)
      obtain a t where hit: "hit = (a, t)" by (cases hit)
      show thesis
      proof (cases "t < ?s")
        case True
        then show thesis using nz Some hit by (intro that(2)) (simp_all add: typo_step_def Let_def)
      next
        case False
        then show thesis using nz Some hit by (intro that(3) [of a t]) (simp_all add: typo_step_def Let_def)
      qed
    qed
  qed
  then show ?thesis
  proof cases
    case 1
    have "\<exists>b t. map_of acc (norm_text a) = Some (b, t) \<and> typo_score variants k \<le> t"
      if "(k, a) \<in> set (d @ [(key, actual)])" "typo_score variants k \<noteq> 0" for k a
      using old [THEN conjunct2, THEN conjunct2] that 1(1) by auto
    then show ?thesis using grow old unfolding typo_inv_def 1(2) by blast
  next
    case 2
    have "\<exists>b t. map_of (AList.update (norm_text actual) (actual, ?s) acc) (norm_text a) = Some (b, t)
        \<and> typo_score variants k \<le> t"
      if k_in: "(k, a) \<in> set (d @ [(key, actual)])" "typo_score variants k \<noteq> 0" for k a
    proof (cases "norm_text a = norm_text actual")
      case True
      have "typo_score variants k \<le> ?s"
      proof (cases "(k, a) = (key, actual)")
        case False
        then have "(k, a) \<in> set d" using k_in(1) by auto
        then obtain b t where "map_of acc (norm_text a) = Some (b, t)" "typo_score variants k \<le> t"
          using old [THEN conjunct2, THEN conjunct2] k_in(2) by blast
        then show ?thesis using 2(3) True by fastforce
      qed simp
      then show ?thesis by (simp add: True update_conv')
    next
      case False
      then have "(k, a) \<in> set d" using k_in(1) by auto
      then have "\<exists>b t. map_of acc (norm_text a) = Some (b, t) \<and> typo_score variants k \<le> t"
        using old [THEN conjunct2, THEN conjunct2] k_in(2) by blast
      then show ?thesis using False by (simp only: update_conv' fun_upd_other not_False_eq_True)
    qed
    moreover have "i = norm_text a \<and> s \<noteq> 0 \<and> (\<exists>k. (k, a) \<in> set (d @ [(key, actual)]) \<and> s = typo_score variants k)"
      if "map_of (AList.update (norm_text actual) (actual, ?s) acc) i = Some (a, s)" for i a s
    proof (cases "i = norm_text actual")
      case True
      then show ?thesis using that 2(1) by (auto simp: update_conv')
    next
      case False
      then have "map_of acc i = Some (a, s)" using that by (simp add: update_conv')
      then show ?thesis by (rule grow)
    qed
    ultimately show ?thesis using old unfolding typo_inv_def 2(2)
      by (intro conjI distinct_update) blast+
  next
    case 3
    have "\<exists>b t. map_of acc (norm_text a) = Some (b, t) \<and> typo_score variants k \<le> t"
      if "(k, a) \<in> set (d @ [(key, actual)])" "typo_score variants k \<noteq> 0" for k a
      using old [THEN conjunct2, THEN conjunct2] that 3(3,4) by auto
    then show ?thesis using grow old unfolding typo_inv_def 3(2) by blast
  qed
qed

lemma typo_candidates_inv: "typo_inv variants d (typo_candidates variants False d)"
proof (induction d rule: rev_induct)
  case (snoc kv d)
  obtain key actual where kv: "kv = (key, actual)" by (cases kv)
  show ?case using typo_inv_step [OF snoc, of key actual] by (simp add: typo_candidates_def kv)
qed (simp add: typo_candidates_def typo_inv_def)

theorem typo_match_unambiguous:
  assumes "typo_catalog_match text d False = Some (v, s)"
  shows "(\<exists>key. (key, v) \<in> set d \<and> typo_score (typo_variants (norm_text text)) key = s
        \<and> (\<exists>variant \<in> set (typo_variants (norm_text text)). near_variant key variant))
    \<and> 92 / 100 \<le> s
    \<and> (\<forall>(key, a) \<in> set d. norm_text a \<noteq> norm_text v \<longrightarrow>
         typo_score (typo_variants (norm_text text)) key \<le> s - 4 / 100)"
proof -
  let ?vs = "typo_variants (norm_text text)"
  let ?cands = "typo_candidates ?vs False d"
  let ?ranked = "sort_desc (\<lambda>(a, s). (s, - int (length a))) (map snd ?cands)"
  have inv: "typo_inv ?vs d ?cands" by (rule typo_candidates_inv)
  obtain rest where ranked: "?ranked = (v, s) # rest" and gap: "rest \<noteq> [] \<longrightarrow> 4 / 100 \<le> s - snd (hd rest)"
    using assms by (auto simp: typo_catalog_match_def Let_def split: list.splits if_splits)
  have "(v, s) \<in> set (map snd ?cands)" by (metis list.set_intros(1) ranked set_sort_desc)
  then obtain i where "(i, v, s) \<in> set ?cands" by auto
  then have i: "map_of ?cands i = Some (v, s)"
    using inv [unfolded typo_inv_def, THEN conjunct1] by (rule map_of_is_SomeI [rotated])
  then obtain key where key: "(key, v) \<in> set d" "s = typo_score ?vs key" "s \<noteq> 0" "i = norm_text v"
    using inv [unfolded typo_inv_def, THEN conjunct2, THEN conjunct1] by blast
  then have near: "92 / 100 \<le> s" "\<exists>variant \<in> set ?vs. near_variant key variant"
    using typo_score_cases [of ?vs key] by auto
  have "typo_score ?vs k \<le> s - 4 / 100" if ka: "(k, a) \<in> set d" "norm_text a \<noteq> norm_text v" for k a
  proof (cases "typo_score ?vs k = 0")
    case True
    then show ?thesis using near by simp
  next
    case False
    then obtain b t where bt: "map_of ?cands (norm_text a) = Some (b, t)" "typo_score ?vs k \<le> t"
      using inv ka unfolding typo_inv_def by blast
    have "norm_text b = norm_text a" using inv bt unfolding typo_inv_def by metis
    then have "(b, t) \<noteq> (v, s)" using ka by auto
    moreover have "(b, t) \<in> set ?ranked" using map_of_SomeD [OF bt(1)] by force
    ultimately have in_rest: "(b, t) \<in> set rest" by (auto simp: ranked)
    have "sorted_wrt (\<lambda>x y. (case y of (a, s) \<Rightarrow> (s, - int (length a))) \<le> (case x of (a, s) \<Rightarrow> (s, - int (length a))))
        ((v, s) # rest)"
      using sort_desc_sorted [of "\<lambda>(a, s). (s, - int (length a))" "map snd ?cands"] by (simp add: ranked)
    then have "t \<le> snd (hd rest)" using in_rest by (cases rest) (auto simp: less_eq_prod_def split: if_splits)
    then show ?thesis using gap in_rest bt(2) by (cases rest) auto
  qed
  then show ?thesis using key near by auto
qed

subsection \<open>Examples used by the witnesses\<close>

definition ex_cities :: value_map where
  "ex_cities = [(''chennai'', ''Chennai''), (''kochi'', ''Kochi''), (''pune'', ''Pune'')]"

definition ex_values :: value_index where
  "ex_values = \<lparr>vi_values = [(''main_category'', [(''automobiles'', ''Automobiles'')]),
       (''subcategory'', [(''car'', ''Car''), (''bike'', ''Bike'')]), (''state'', [(''kerala'', ''Kerala'')]),
       (''city'', ex_cities), (''locality'', []), (''rental_duration'', [(''per day'', ''Per Day'')])],
     vi_subcategory_main = [(''car'', ''Automobiles''), (''bike'', ''Automobiles'')],
     vi_city_state = [(''kochi'', ''Kerala'')], vi_locality_location = []\<rparr>"

definition ex_requested :: pydict where
  "ex_requested = [(''main_category'', VNone), (''subcategory'', VStr ''Cars''), (''state'', VNone),
     (''city'', VStr ''Cochin''), (''locality'', VNone), (''rental_duration'', VStr ''per day''),
     (''user_gender'', VInt 2), (''min_rental_fee'', VNone), (''max_rental_fee'', VFloat 500)]"

definition ex_json :: "string \<Rightarrow> py_error + pyval" where
  "ex_json s = Inr (VDict [(''semantic_query'', VStr ''red car''), (''target_ad_type'', VStr ''offer''),
     (''filters'', VDict [(''subcategory'', VStr ''Car''), (''state'', VStr ''Kerala''), (''min_rental_fee'', VInt 900), (''max_rental_fee'', VInt 500)])])"

text \<open>The state is not in the query, so it is dropped; the fees are put in order.\<close>

lemma ex_parsed:
  "map_sum id plan_filters (parse_query_plan ex_json ''{}'' ''Need a car in Kochi'') =
    Inr [(''main_category'', VNone), (''subcategory'', VStr ''Car''), (''state'', VNone), (''city'', VNone),
      (''locality'', VNone), (''rental_duration'', VNone), (''user_gender'', VNone),
      (''min_rental_fee'', VFloat 500), (''max_rental_fee'', VFloat 900)]"
  by code_simp

theorem parsed_plan_guarded_witness:
  "\<exists>plan. parse_query_plan ex_json ''{}'' ''Need a car in Kochi'' = Inr plan
    \<and> plan_guarded ''Need a car in Kochi'' plan"
proof -
  obtain plan where plan: "parse_query_plan ex_json ''{}'' ''Need a car in Kochi'' = Inr plan"
    by (rule map_sum_InrE [OF ex_parsed])
  show ?thesis by (intro exI [of _ plan] conjI plan parsed_plan_guarded [OF plan])
qed

lemma ex_resolved:
  "resolve_query_filters ex_requested ex_values =
    (\<lparr>categorical = [(''city_name'', VStr ''Kochi''), (''rental_duration'', VStr ''Per Day''),
        (''user_gender'', VInt 2)], min_fee = None, max_fee = Some 500\<rparr>, [(''subcategory'', VStr ''Cars'')])"
  by code_simp

theorem resolved_filters_are_catalog_values_witness:
  "plain_filters \<lparr>categorical = [(''city_name'', VStr ''Kochi''), (''rental_duration'', VStr ''Per Day''),
        (''user_gender'', VInt 2)], min_fee = None, max_fee = Some 500\<rparr>"
  by (rule resolved_filters_are_catalog_values [OF ex_resolved, THEN conjunct1])

lemma ex_typo: "typo_catalog_match ''Chenai'' ex_cities False = Some (''Chennai'', 24 / 25)"
  by code_simp

theorem typo_match_unambiguous_witness:
  "typo_catalog_match ''Chenai'' ex_cities False = Some (''Chennai'', 24 / 25)
   \<and> list_all (\<lambda>(key, a). norm_text a = norm_text ''Chennai''
         \<or> typo_score (typo_variants (norm_text ''Chenai'')) key \<le> 24 / 25 - 4 / 100) ex_cities"
  using ex_typo typo_match_unambiguous [OF ex_typo, THEN conjunct2, THEN conjunct2]
  by (auto simp: list_all_iff)


end
