(* ===== verification/Policy.thy ===== *)
theory Policy
  imports Planner_Catalog
begin

text \<open>
  The search policies: the hooks of the \<open>SearchPolicy\<close> protocol (\<open>search/policy.py\<close>) as a
  record of functions, the default policy and the marketplace policy
  (\<open>verticals/marketplace/policy.py\<close>). The locale \<open>ad_type_policy\<close>
  states what the planner relies on; it is interpreted on both policies.
\<close>

named_theorems policy_facts \<open>facts of the search policies\<close>

record category_intent =
  ci_subcategory :: string
  consumed_tokens :: "string list"
  ci_main_category :: "string option"
  override_explicit_conflict :: bool
  relax_subcategory :: bool
  hard_filter_when_normalized :: bool

record search_policy =
  cache_key :: string
  normalize_query :: "(string, string) dict \<Rightarrow> string \<Rightarrow> string"
  extract_user_gender_filter :: "string \<Rightarrow> int option"
  infer_target_ad_type :: "string \<Rightarrow> string \<times> bool"
  has_natural_search_intent :: "string \<Rightarrow> bool"
  planner_instructions :: string
  rewrite_semantic_query :: "string \<Rightarrow> string \<Rightarrow> string"
  rewrite_keyword_query :: "string \<Rightarrow> string \<Rightarrow> string"
  infer_subcategory :: "string \<Rightarrow> value_map \<Rightarrow> string option"
  intent_of :: "string \<Rightarrow> value_map \<Rightarrow> category_intent option"
  infer_main_category :: "string \<Rightarrow> value_map \<Rightarrow> string option"
  allows_descriptive_direct_semantic :: "string \<Rightarrow> bool"
  allows_decisive_marketplace_direct_semantic :: "string \<Rightarrow> bool"
  requires_hosted_planner :: "string \<Rightarrow> bool"
  adjust_candidates :: "query_plan \<Rightarrow> candidate list \<Rightarrow> candidate list"
  rerank_context :: "query_plan option \<Rightarrow> string option"

subsection \<open>DefaultSearchPolicy\<close>

definition natural_catalog_request :: rx where
  "natural_catalog_request =
     rx_seq [WordB, rx_alt [lit_i ''i'', lit_i ''im'', lit_i ''we'', lit_i ''me'', lit_i ''my'',
       lit_i ''our'', lit_i ''us'', lit_i ''you'', lit_i ''your'', lit_i ''please'', lit_i
       ''people'', rx_seq [lit_i ''person'', rx_opt (lit_i ''s'')], lit_i ''someone'', lit_i
       ''somebody'', lit_i ''anyone'', lit_i ''find'', lit_i ''show'', lit_i ''give'', lit_i
       ''get'', lit_i ''help'', lit_i ''recommend'', lit_i ''suggest'', lit_i ''looking'', lit_i
       ''searching'', lit_i ''need'', lit_i ''needs'', lit_i ''needed'', lit_i ''want'', lit_i
       ''wants'', rx_seq [lit_i ''require'', rx_opt (lit_i ''d'')], lit_i ''require'', lit_i
       ''requires'', lit_i ''seek'', lit_i ''seeks'', lit_i ''seeking'', lit_i ''interested'',
       lit_i ''can'', lit_i ''could'', lit_i ''would'', lit_i ''should'', lit_i ''who'', lit_i
       ''what'', lit_i ''where'', lit_i ''which'', lit_i ''how'', lit_i ''do'', lit_i ''does''],
       WordB]"

definition default_natural_intent :: "string \<Rightarrow> bool" where
  "default_natural_intent query \<longleftrightarrow>
     rx_found natural_catalog_request query \<or> list_ex (\<lambda>c. c = CHR ''?'' \<or> c = CHR ''!'') query"

definition DEFAULT_SEARCH_POLICY :: search_policy where
  "DEFAULT_SEARCH_POLICY =
     \<lparr>cache_key = ''default-v2'',
      normalize_query = normalize_transliterated_query [],
      extract_user_gender_filter = (\<lambda>query. None),
      infer_target_ad_type = (\<lambda>query. (''offer'', True)),
      has_natural_search_intent = default_natural_intent,
      planner_instructions = ''This is a general product and service catalog. Do not introduce domain semantics that are absent from the tenant's catalog and prompt context. Treat required compatibility fields as neutral defaults and leave absent optional filters null.'',
      rewrite_semantic_query = (\<lambda>query semantic. semantic),
      rewrite_keyword_query = (\<lambda>query keyword. keyword),
      infer_subcategory = (\<lambda>query values. None),
      intent_of = (\<lambda>query values. None),
      infer_main_category = (\<lambda>query values. None),
      allows_descriptive_direct_semantic = (\<lambda>query. False),
      allows_decisive_marketplace_direct_semantic = (\<lambda>query. False),
      requires_hosted_planner = (\<lambda>query. False),
      adjust_candidates = (\<lambda>plan candidates. candidates),
      rerank_context = (\<lambda>plan. None)\<rparr>"

subsection \<open>MarketplaceSearchPolicy\<close>

definition marketplace_actor :: rx where
  "marketplace_actor =
     rx_alt [lit ''people'', rx_seq [lit ''person'', rx_opt (lit ''s'')], lit ''someone'', lit
       ''somebody'', lit ''anyone'', rx_seq [lit ''buyer'', rx_opt (lit ''s'')], rx_seq [lit
       ''renter'', rx_opt (lit ''s'')], rx_seq [lit ''customer'', rx_opt (lit ''s'')], rx_seq [lit
       ''client'', rx_opt (lit ''s'')], rx_seq [lit ''user'', rx_opt (lit ''s'')], rx_seq [lit
       ''business'', rx_opt (lit ''es'')], lit ''companies'']"

definition marketplace_demand :: rx where
  "marketplace_demand =
     rx_alt [rx_seq [lit ''need'', rx_opt (lits [''s'', ''ed'', ''ing''])], rx_seq [lit ''want'',
       rx_opt (lits [''s'', ''ed'', ''ing''])], rx_seq [lit ''requir'', lits [''e'', ''es'',
       ''ed'', ''ing'']], rx_seq [lit ''seek'', rx_opt (lits [''s'', ''ing''])], rx_seq [rx_opt
       (rx_seq [lits [''is'', ''are'', ''was'', ''were''], rx_sp]), lits [''looking'',
       ''searching''], rx_sp, lit ''for''], rx_seq [rx_opt (rx_seq [lits [''is'', ''are'',
       ''was'', ''were''], rx_sp]), lit ''interested'', rx_sp, lit ''in'']]"

text \<open>\<open>[a-z0-9'-]+\<close>\<close>

definition actor_words :: rx where
  "actor_words = rx_plus (Cls (\<lambda>c. (CHR ''a'' \<le> c \<and> c \<le> CHR ''z'')
     \<or> (CHR ''0'' \<le> c \<and> c \<le> CHR ''9'') \<or> c = CHR 0x27 \<or> c = CHR ''-''))"

definition wanted_intent_patterns :: "rx list" where
  "wanted_intent_patterns =
     [rx_seq [Bol, rx_sp0, lit ''wanted'', WordB, NotAheadRx (rx_seq [rx_sp, lit ''to'', WordB])],
      rx_seq [WordB, lit ''wanted'', rx_sp, rx_alt [rx_seq [lit ''ad'', rx_opt (lit ''s'')],
        rx_seq [lit ''listing'', rx_opt (lit ''s'')]], WordB],
      rx_seq [WordB, rx_alt [rx_seq [lit ''ad'', rx_opt (lit ''s'')], rx_seq [lit ''listing'',
        rx_opt (lit ''s'')]], rx_sp, lit ''wanted'', WordB],
      rx_seq [Bol, rx_sp0, rx_alt [rx_seq [lit ''request'', rx_opt (lit ''s'')], rx_seq [lit
        ''requirement'', rx_opt (lit ''s'')]], rx_sp, rx_opt (rx_seq [lit ''for'', rx_sp]), WordB],
      rx_seq [WordB, rx_alt [rx_seq [lit ''request'', rx_opt (lit ''s'')], rx_seq [lit
        ''requirement'', rx_opt (lit ''s'')]], rx_sp, rx_alt [rx_seq [lit ''ad'', rx_opt (lit
        ''s'')], rx_seq [lit ''listing'', rx_opt (lit ''s'')]], WordB],
      rx_seq [WordB, marketplace_actor, WordB, rx_upto 4 (rx_seq [rx_sp, actor_words]), rx_sp,
        marketplace_demand, WordB],
      rx_seq [WordB, lits [''find'', ''show'', ''list'', ''locate''], rx_sp, rx_opt (rx_seq [lit
        ''me'', rx_sp]), rx_opt (rx_seq [lit ''potential'', rx_sp]), rx_alt [rx_seq [lit
        ''buyer'', rx_opt (lit ''s'')], rx_seq [lit ''renter'', rx_opt (lit ''s'')], rx_seq [lit
        ''customer'', rx_opt (lit ''s'')], rx_seq [lit ''client'', rx_opt (lit ''s'')]], WordB],
      rx_seq [WordB, lits [''find'', ''show'', ''list''], rx_sp, rx_opt (rx_seq [lit ''me'',
        rx_sp]), rx_alt [rx_seq [lit ''request'', rx_opt (lit ''s'')], rx_seq [lit
        ''requirement'', rx_opt (lit ''s'')], rx_seq [lit ''wanted'', rx_sp, rx_alt [rx_seq [lit
        ''ad'', rx_opt (lit ''s'')], rx_seq [lit ''listing'', rx_opt (lit ''s'')]]]], WordB],
      rx_seq [WordB, lits [''looking'', ''searching''], rx_sp, lit ''for'', rx_sp, rx_alt [lit
        ''people'', rx_seq [lit ''person'', rx_opt (lit ''s'')], rx_seq [lit ''buyer'', rx_opt
        (lit ''s'')], rx_seq [lit ''renter'', rx_opt (lit ''s'')], rx_seq [lit ''customer'',
        rx_opt (lit ''s'')], rx_seq [lit ''client'', rx_opt (lit ''s'')]], WordB],
      rx_seq [WordB, lit ''who'', rx_sp, rx_alt [rx_seq [lit ''need'', rx_opt (lits [''s'',
        ''ed'', ''ing''])], rx_seq [lit ''want'', rx_opt (lits [''s'', ''ed'', ''ing''])], rx_seq
        [lit ''requir'', lits [''e'', ''es'', ''ed'', ''ing'']], rx_seq [lit ''seek'', rx_opt
        (lits [''s'', ''ing''])]], WordB],
      rx_seq [WordB, lits [''i'', ''we''], rx_sp, rx_upto 3 (rx_seq [rx_alt [lit ''currently'',
        lit ''already'', lit ''can'', lit ''could'', rx_seq [lit ''want'', rx_sp, lit ''to''],
        rx_seq [lit ''need'', rx_sp, lit ''to''], lit ''am'', lit ''are''], rx_sp]), rx_alt [lit
        ''have'', lit ''own'', lit ''offer'', lit ''provide'', lit ''supply'', rx_seq [lit
        ''rent'', rx_opt (lit ''ing''), rx_sp, lit ''out''], rx_seq [lit ''leas'', lits [''e'',
        ''ing''], rx_sp, lit ''out'']], WordB],
      rx_seq [WordB, lits [''rent'', ''lease''], rx_sp, lit ''out'', WordB],
      rx_seq [WordB, rx_alt [rx_seq [lit ''supplier'', rx_opt (lit ''s'')], rx_seq [lit
        ''provider'', rx_opt (lit ''s'')], rx_seq [lit ''owner'', rx_opt (lit ''s'')], rx_seq [lit
        ''vendor'', rx_opt (lit ''s'')], rx_seq [lit ''seller'', rx_opt (lit ''s'')], rx_seq [lit
        ''landlord'', rx_opt (lit ''s'')], rx_seq [lit ''freelancer'', rx_opt (lit ''s'')]],
        WordB, rx_upto 4 (rx_seq [rx_sp, actor_words]), rx_sp, lits [''looking'', ''searching''],
        rx_sp, lit ''for'', rx_sp, rx_alt [lit ''work'', rx_seq [lit ''job'', rx_opt (lit ''s'')],
        rx_seq [lit ''buyer'', rx_opt (lit ''s'')], rx_seq [lit ''renter'', rx_opt (lit ''s'')],
        rx_seq [lit ''customer'', rx_opt (lit ''s'')], rx_seq [lit ''client'', rx_opt (lit
        ''s'')], rx_seq [lit ''lead'', rx_opt (lit ''s'')]], WordB]]"

definition offer_intent_patterns :: "rx list" where
  "offer_intent_patterns =
     [rx_seq [WordB, lits [''offer'', ''available''], rx_sp, rx_alt [rx_seq [lit ''ad'', rx_opt
        (lit ''s'')], rx_seq [lit ''listing'', rx_opt (lit ''s'')]], WordB],
      rx_seq [WordB, rx_alt [rx_seq [lit ''ad'', rx_opt (lit ''s'')], rx_seq [lit ''listing'',
        rx_opt (lit ''s'')]], rx_sp, lits [''offered'', ''available''], WordB],
      rx_seq [WordB, lits [''i'', ''we''], WordB, rx_upto 4 (rx_seq [rx_sp, actor_words]), rx_sp,
        marketplace_demand, WordB],
      rx_seq [Bol, rx_sp0, rx_alt [lit ''need'', lit ''want'', lit ''require'', lit ''seek'',
        rx_seq [lit ''looking'', rx_sp, lit ''for''], rx_seq [lit ''searching'', rx_sp, lit
        ''for''], rx_seq [lit ''find'', rx_sp, lit ''me''], rx_seq [lit ''show'', rx_sp, lit
        ''me''], rx_seq [lit ''get'', rx_sp, lit ''me'']], WordB],
      rx_seq [WordB, lits [''do'', ''can'', ''could''], rx_sp, lit ''you'', rx_sp, lits [''have'',
        ''find'', ''show'', ''provide''], WordB],
      rx_seq [WordB, rx_alt [lit ''for'', rx_seq [lit ''available'', rx_sp, lit ''for'']], rx_sp,
        lits [''rent'', ''hire''], WordB]]"

definition ad_intent_signal :: rx where
  "ad_intent_signal =
     rx_seq [WordB, rx_alt [lit ''wanted'', rx_seq [lit ''request'', rx_opt (lit ''s'')], rx_seq
       [lit ''requirement'', rx_opt (lit ''s'')], rx_seq [lit ''need'', rx_opt (lits [''s'',
       ''ed'', ''ing''])], rx_seq [lit ''want'', rx_opt (lits [''s'', ''ed'', ''ing''])], rx_seq
       [lit ''requir'', lits [''e'', ''es'', ''ed'', ''ing'']], rx_seq [lit ''seek'', rx_opt (lits
       [''s'', ''ing''])], lit ''looking'', lit ''searching'', lit ''interested'', lit ''have'',
       lit ''own'', lit ''offer'', lit ''provide'', lit ''supply'', rx_seq [lit ''buyer'', rx_opt
       (lit ''s'')], rx_seq [lit ''renter'', rx_opt (lit ''s'')], rx_seq [lit ''customer'', rx_opt
       (lit ''s'')], rx_seq [lit ''client'', rx_opt (lit ''s'')], rx_seq [lit ''supplier'', rx_opt
       (lit ''s'')], rx_seq [lit ''provider'', rx_opt (lit ''s'')], rx_seq [lit ''owner'', rx_opt
       (lit ''s'')], rx_seq [lit ''vendor'', rx_opt (lit ''s'')], rx_seq [lit ''seller'', rx_opt
       (lit ''s'')], rx_seq [lit ''landlord'', rx_opt (lit ''s'')], rx_seq [lit ''freelancer'',
       rx_opt (lit ''s'')]], WordB]"

definition trailing_demand :: rx where
  "trailing_demand =
     rx_seq [WordB, rx_alt [lit ''wanted'', rx_seq [lit ''request'', rx_opt (lit ''s'')], rx_seq
       [lit ''requirement'', rx_opt (lit ''s'')]], rx_sp0, Eol]"

definition first_person :: rx where
  "first_person = rx_seq [WordB, lits [''i'', ''we'', ''you''], WordB]"

definition infer_marketplace_target_ad_type :: "string \<Rightarrow> string \<times> bool" where
  "infer_marketplace_target_ad_type query =
     (let n = norm_text query in
      if (rx_found trailing_demand n \<and> \<not> rx_found first_person n)
         \<or> list_ex (\<lambda>r. rx_found r n) wanted_intent_patterns
      then (''wanted'', True)
      else if list_ex (\<lambda>r. rx_found r n) offer_intent_patterns then (''offer'', True)
      else if rx_found ad_intent_signal n then (''offer'', False)
      else (''offer'', True))"

definition MARKETPLACE_SEARCH_POLICY :: search_policy where
  "MARKETPLACE_SEARCH_POLICY = DEFAULT_SEARCH_POLICY\<lparr>
     cache_key := ''marketplace-v2'',
     infer_target_ad_type := infer_marketplace_target_ad_type,
     has_natural_search_intent := (\<lambda>query. fst (infer_marketplace_target_ad_type query) = ''wanted''
       \<or> default_natural_intent query),
     planner_instructions := ''Interpret the request from the searcher's perspective. A person who wants an available item or service targets offer listings. A supplier looking for buyers, renters, customers, or clients targets wanted listings. Use wanted only for explicit request ads, third-party demand, or an explicit supplier perspective. Use offer as the default listing perspective when no decisive wanted/request evidence is present.''\<rparr>"

subsection \<open>What the planner relies on\<close>

locale ad_type_policy =
  fixes ad_type :: "string \<Rightarrow> string \<times> bool"
  assumes ad_type_known: "fst (ad_type query) \<in> {''offer'', ''wanted''}"
    and hesitant_offer: "\<not> snd (ad_type query) \<Longrightarrow> fst (ad_type query) = ''offer''"
begin

text \<open>The plan's perspective: local evidence if it is decisive, else a valid model answer.\<close>

definition settle :: "string \<Rightarrow> string \<Rightarrow> string" where
  "settle query planned = (if snd (ad_type query) \<or> planned \<notin> {''offer'', ''wanted''}
     then fst (ad_type query) else planned)"

lemma settle_known: "settle query planned \<in> {''offer'', ''wanted''}"
  using ad_type_known [of query] by (auto simp: settle_def)

lemma wanted_is_evidenced:
  "settle query planned = ''wanted'' \<Longrightarrow> ad_type query = (''wanted'', True) \<or> planned = ''wanted''"
  using hesitant_offer [of query] by (auto simp: settle_def prod_eq_iff split: if_splits)

end

lemma marketplace_ad_type_cases:
  "infer_marketplace_target_ad_type q \<in> {(''wanted'', True), (''offer'', True), (''offer'', False)}"
  by (simp add: infer_marketplace_target_ad_type_def Let_def)

interpretation default_policy: ad_type_policy "infer_target_ad_type DEFAULT_SEARCH_POLICY"
  by unfold_locales (simp_all add: DEFAULT_SEARCH_POLICY_def)

interpretation marketplace_policy: ad_type_policy "infer_target_ad_type MARKETPLACE_SEARCH_POLICY"
proof
  fix query
  have eq: "infer_target_ad_type MARKETPLACE_SEARCH_POLICY query = infer_marketplace_target_ad_type query"
    by (simp add: MARKETPLACE_SEARCH_POLICY_def)
  show "fst (infer_target_ad_type MARKETPLACE_SEARCH_POLICY query) \<in> {''offer'', ''wanted''}"
    using marketplace_ad_type_cases [of query] by (auto simp: eq)
  show "fst (infer_target_ad_type MARKETPLACE_SEARCH_POLICY query) = ''offer''"
    if "\<not> snd (infer_target_ad_type MARKETPLACE_SEARCH_POLICY query)"
    using marketplace_ad_type_cases [of query] that by (auto simp: eq)
qed

end
