(* ===== verification/Planner.thy ===== *)
theory Planner
  imports Policy
begin

text \<open>
  The planner of \<open>search/planner.py\<close>: \<open>enrich_query_plan\<close>, stage by stage in the order of the
  source, the deterministic and the direct semantic fast path, and the hosted extraction with
  its error fallback. The search policy and the hosted model are arguments.
\<close>

named_theorems planner_facts \<open>facts of the planner\<close>

record plan = query_plan +
  relaxed_categories :: "string list"
  execution_path :: "string option"
  route_reason :: "string option"
  query_corrections :: "correction list"

definition new_plan :: "query_plan \<Rightarrow> plan" where
  "new_plan p = query_plan.extend p
     \<lparr>relaxed_categories = [], execution_path = None, route_reason = None, query_corrections = []\<rparr>"

definition text_at :: "pydict \<Rightarrow> string \<Rightarrow> string option" where
  "text_at d key = text_of (dget d key)"

definition put_text :: "string \<Rightarrow> string option \<Rightarrow> pydict \<Rightarrow> pydict" where
  "put_text key v d = AList.update key (of_text v) d"

text \<open>\<open>a or b\<close> on optional texts\<close>

definition or_text :: "string option \<Rightarrow> string option \<Rightarrow> string option" where
  "or_text a b = (case a of Some s \<Rightarrow> if s = [] then b else a | None \<Rightarrow> b)"

subsection \<open>enrich_query_plan\<close>

text \<open>Filters, soft categories and relaxed categories, as the stages pass them on.\<close>

type_synonym draft = "pydict \<times> pydict \<times> string list"

definition electric_prefixed :: "string \<Rightarrow> string \<Rightarrow> bool" where
  "electric_prefixed query v \<longleftrightarrow>
     list_ex (\<lambda>prefix. rx_found (rx_seq [NotBehind is_word, lit prefix, rx_sp, category_term_pattern v,
         NotAhead is_word]) (norm_text query))
       (filter (\<lambda>prefix. prefix = ''electric'') CATEGORY_ATTRIBUTE_PREFIXES)"

definition field_is_explicit :: "query_analysis \<Rightarrow> pydict \<Rightarrow> string \<Rightarrow> string option \<Rightarrow> bool" where
  "field_is_explicit qa inferred key exact \<longleftrightarrow>
     (case exact of
        None \<Rightarrow> True
      | Some v \<Rightarrow> map_of inferred key = None
          \<or> (\<not> query_was_normalized qa \<and> map_of (category_is_explicit qa) key = Some True)
          \<or> is_explicit_category_request (if query_was_normalized qa then original_query qa else qa_query qa) v)"

definition exact_of :: "query_analysis \<Rightarrow> string \<Rightarrow> string option" where
  "exact_of qa key = (case map_of (exact_values qa) key of None \<Rightarrow> None | Some v \<Rightarrow> v)"

definition enrich_field :: "value_index \<Rightarrow> query_analysis \<Rightarrow> string \<Rightarrow> draft \<Rightarrow> draft" where
  "enrich_field vi qa key st =
     (case st of (fs0, inferred, relaxed) \<Rightarrow>
        let fs1 = (if is_location_key key \<and> is_generic_location_value (text_at fs0 key)
                   then AList.update key VNone fs0 else fs0);
            fs = (if map_of (clear_model_location_filter qa) key = Some True
                  then AList.update key VNone fs1 else fs1)
        in case exact_of qa key of
             Some v \<Rightarrow>
               if \<not> field_is_explicit qa inferred key (Some v)
               then (AList.update key VNone fs,
                     if length (split_ws (norm_text v)) = 1
                     then AList.update ''subcategory'' VNone (AList.update ''main_category'' VNone inferred)
                     else AList.update key (VStr v) inferred,
                     relaxed)
               else if key = ''subcategory'' \<and> electric_prefixed (qa_query qa) v
               then (AList.update key VNone fs, AList.update key (VStr v) inferred, List.insert key relaxed)
               else (AList.update key (VStr v) fs,
                     if map_of inferred key = None then inferred else AList.update key VNone inferred,
                     relaxed)
           | None \<Rightarrow>
               (case text_at fs key of
                  None \<Rightarrow> (fs, inferred, relaxed)
                | Some requested \<Rightarrow>
                    let canonical = canonical_catalog_value key requested (vi_map vi key) True in
                    if map_of inferred key \<noteq> None
                    then (AList.update key VNone fs,
                          put_text key (Some (case canonical of Some c \<Rightarrow> if c = [] then requested else c
                                                | None \<Rightarrow> requested)) inferred, relaxed)
                    else if canonical \<noteq> None \<and> text_mentions_filter (qa_query qa) requested
                    then (put_text key canonical fs, inferred, relaxed)
                    else (AList.update key VNone fs, inferred, relaxed)))"

text \<open>The policy's category intent, unless it conflicts with an explicit subcategory.\<close>

definition intent_applies :: "query_analysis \<Rightarrow> category_intent \<Rightarrow> bool" where
  "intent_applies qa ci \<longleftrightarrow> \<not> (case exact_of qa ''subcategory'' of
       None \<Rightarrow> False
     | Some v \<Rightarrow> map_of (category_is_explicit qa) ''subcategory'' = Some True
         \<and> norm_text v \<noteq> norm_text (ci_subcategory ci) \<and> \<not> override_explicit_conflict ci)"

definition apply_intent :: "value_index \<Rightarrow> query_analysis \<Rightarrow> category_intent option \<Rightarrow> draft \<Rightarrow> draft" where
  "apply_intent vi qa intent st =
     (case intent of
        None \<Rightarrow> st
      | Some ci \<Rightarrow>
          if \<not> intent_applies qa ci then st
          else (case st of (fs, inferred, relaxed) \<Rightarrow>
            let hard = \<not> query_was_normalized qa \<or> hard_filter_when_normalized ci;
                (fs1, inf1, rel1) =
                  (if hard \<and> \<not> relax_subcategory ci
                   then (AList.update ''subcategory'' (VStr (ci_subcategory ci)) fs,
                         AList.update ''subcategory'' VNone inferred, removeAll ''subcategory'' relaxed)
                   else (AList.update ''subcategory'' VNone fs,
                         AList.update ''subcategory'' (VStr (ci_subcategory ci)) inferred,
                         List.insert ''subcategory'' relaxed))
            in case ci_main_category ci of
                 None \<Rightarrow> (fs1, inf1, rel1)
               | Some m \<Rightarrow>
                   (case canonical_catalog_value ''main_category'' m (vi_map vi ''main_category'') True of
                      None \<Rightarrow> (fs1, inf1, rel1)
                    | Some parent \<Rightarrow> (AList.update ''main_category'' (VStr parent) fs1,
                        AList.update ''main_category'' VNone inf1, rel1))))"

definition add_fuzzy_location :: "bool \<Rightarrow> value_index \<Rightarrow> query_analysis \<Rightarrow> pydict \<Rightarrow> pydict" where
  "add_fuzzy_location fuzzy vi qa fs =
     (if list_ex (\<lambda>key. truthy (dget fs key)) [''state'', ''city'', ''locality''] then fs
      else (case fuzzy_location fuzzy qa vi of
              None \<Rightarrow> fs
            | Some (key, actual) \<Rightarrow> AList.update key (VStr actual) fs))"

text \<open>Only hints that the catalogue knows remain.\<close>

definition canonical_hints :: "value_index \<Rightarrow> pydict \<Rightarrow> pydict" where
  "canonical_hints vi inferred =
     map (\<lambda>(key, v). (key, case text_of v of
         None \<Rightarrow> v
       | Some requested \<Rightarrow> of_text (canonical_catalog_value key requested (vi_map vi key) True))) inferred"

definition guess_subcategory :: "search_policy \<Rightarrow> value_index \<Rightarrow> string \<Rightarrow> string \<Rightarrow> string \<Rightarrow> string option" where
  "guess_subcategory sp vi query semantic keyword =
     (let d = vi_map vi ''subcategory'';
          direct = or_text (infer_subcategory sp query d) (infer_keyword_subcategory keyword d);
          guess = (case direct of
              Some v \<Rightarrow> Some v
            | None \<Rightarrow> (case infer_keyword_subcategory semantic d of
                  None \<Rightarrow> None
                | Some v \<Rightarrow> if text_mentions_filter query v then None else Some v))
      in case guess of
           None \<Rightarrow> None
         | Some v \<Rightarrow> if is_repair_subject_usage query v then None else Some v)"

definition infer_hints :: "search_policy \<Rightarrow> value_index \<Rightarrow> string \<Rightarrow> string \<Rightarrow> string \<Rightarrow> pydict \<Rightarrow> pydict \<Rightarrow> pydict" where
  "infer_hints sp vi query semantic keyword fs inferred =
     (let inf1 = (if dget fs ''subcategory'' = VNone \<and> dget inferred ''subcategory'' = VNone
                  then put_text ''subcategory'' (guess_subcategory sp vi query semantic keyword) inferred
                  else inferred)
      in if dget fs ''main_category'' = VNone \<and> dget inf1 ''main_category'' = VNone
         then put_text ''main_category'' (infer_main_category sp query (vi_map vi ''main_category'')) inf1
         else inf1)"

definition parent_of :: "value_index \<Rightarrow> string \<Rightarrow> string option" where
  "parent_of vi subcategory = map_of (vi_subcategory_main vi) (norm_text subcategory)"

definition align_parents :: "value_index \<Rightarrow> draft \<Rightarrow> pydict \<times> pydict" where
  "align_parents vi st =
     (case st of (fs, inferred, relaxed) \<Rightarrow>
        (case text_at fs ''subcategory'' of
           Some s \<Rightarrow>
             (case parent_of vi s of
                None \<Rightarrow> (fs, inferred)
              | Some parent \<Rightarrow> (AList.update ''main_category'' (VStr parent) fs,
                  AList.update ''main_category'' VNone inferred))
         | None \<Rightarrow>
             (case text_at inferred ''subcategory'' of
                None \<Rightarrow> (fs, inferred)
              | Some s \<Rightarrow>
                  (case parent_of vi s of
                     None \<Rightarrow> (fs, inferred)
                   | Some parent \<Rightarrow>
                       (case text_at fs ''main_category'' of
                          Some hard \<Rightarrow>
                            if norm_text hard \<noteq> norm_text parent
                            then (fs, AList.update ''main_category'' VNone
                                   (AList.update ''subcategory'' VNone inferred))
                            else if ''subcategory'' \<in> set relaxed
                            then (AList.update ''main_category'' (VStr parent) fs,
                                  AList.update ''main_category'' VNone inferred)
                            else (fs, AList.update ''main_category'' (VStr parent) inferred)
                        | None \<Rightarrow>
                            if ''subcategory'' \<in> set relaxed
                            then (AList.update ''main_category'' (VStr parent) fs,
                                  AList.update ''main_category'' VNone inferred)
                            else (fs, AList.update ''main_category'' (VStr parent) inferred))))))"

definition same_city_and_locality :: "pydict \<Rightarrow> bool" where
  "same_city_and_locality fs =
     (case (text_at fs ''city'', text_at fs ''locality'') of
        (Some c, Some l) \<Rightarrow>
          (let n = norm_text l;
               as_city = (case map_of QUERY_FILTER_ALIASES ''city'' of None \<Rightarrow> n
                 | Some al \<Rightarrow> (case map_of al n of None \<Rightarrow> n | Some m \<Rightarrow> m))
           in norm_text c = as_city)
      | _ \<Rightarrow> False)"

definition complete_location :: "value_index \<Rightarrow> pydict \<Rightarrow> pydict" where
  "complete_location vi fs0 =
     (let fs1 = (if same_city_and_locality fs0 then AList.update ''locality'' VNone fs0 else fs0);
          fs2 = (case text_at fs1 ''locality'' of
              None \<Rightarrow> fs1
            | Some l \<Rightarrow>
                (case map_of (vi_locality_location vi) (norm_text l) of
                   None \<Rightarrow> fs1
                 | Some (city, state) \<Rightarrow>
                     put_text ''state'' (or_text (text_at fs1 ''state'') (Some state))
                       (put_text ''city'' (or_text (text_at fs1 ''city'') (Some city)) fs1)))
      in case text_at fs2 ''city'' of
           None \<Rightarrow> fs2
         | Some c \<Rightarrow>
             if dget fs2 ''state'' \<noteq> VNone then fs2
             else (case map_of (vi_city_state vi) (norm_text c) of
                     None \<Rightarrow> fs2
                   | Some state \<Rightarrow> AList.update ''state'' (VStr state) fs2))"

definition add_prices :: "pyfloat option \<times> pyfloat option \<Rightarrow> pydict \<Rightarrow> pydict" where
  "add_prices prices fs =
     (let fs1 = (if dget fs ''min_rental_fee'' = VNone
                 then AList.update ''min_rental_fee'' (of_number (fst prices)) fs else fs)
      in if dget fs1 ''max_rental_fee'' = VNone
         then AList.update ''max_rental_fee'' (of_number (snd prices)) fs1 else fs1)"

definition align_keywords :: "string \<Rightarrow> string \<Rightarrow> string" where
  "align_keywords semantic keyword =
     (let st = word_tokens (casefold semantic); kt = word_tokens (casefold keyword) in
      if st \<noteq> [] \<and> list_all (\<lambda>t. t \<notin> set kt) st then semantic else keyword)"

definition rewrite_texts :: "search_policy \<Rightarrow> query_analysis \<Rightarrow> query_plan \<Rightarrow> string \<times> string" where
  "rewrite_texts sp qa p =
     (let fix = (\<lambda>t. if query_was_normalized qa \<and> norm_text t = norm_text (original_query qa)
                     then qa_query qa else t)
      in (rewrite_semantic_query sp (qa_query qa) (fix (semantic_query p)),
          rewrite_keyword_query sp (qa_query qa) (fix (keyword_query p))))"

definition settle_ad_type :: "search_policy \<Rightarrow> string \<Rightarrow> string \<Rightarrow> string" where
  "settle_ad_type sp query planned =
     (if snd (infer_target_ad_type sp query) \<or> planned \<notin> {''offer'', ''wanted''}
      then fst (infer_target_ad_type sp query) else planned)"

definition enrich_filters :: "bool \<Rightarrow> search_policy \<Rightarrow> value_index \<Rightarrow> query_analysis \<Rightarrow> string \<Rightarrow> string
    \<Rightarrow> draft \<Rightarrow> draft" where
  "enrich_filters fuzzy sp vi qa semantic keyword st0 =
     (let query = qa_query qa;
          (fs1, inf1, relaxed) =
            apply_intent vi qa (intent_of sp query (vi_map vi ''subcategory''))
              (fold (enrich_field vi qa) analysis_keys st0);
          fs2 = add_fuzzy_location fuzzy vi qa fs1;
          inf3 = infer_hints sp vi query semantic keyword fs2 (canonical_hints vi inf1);
          fs3 = put_text ''rental_duration'' (qa_rental_duration qa) fs2;
          (fs4, inf4) = align_parents vi (fs3, inf3, relaxed);
          fs5 = add_prices (price_constraints qa) (complete_location vi fs4)
      in (fs5, inf4, relaxed))"

definition enrich_query_plan :: "bool \<Rightarrow> search_policy \<Rightarrow> value_index \<Rightarrow> query_analysis \<Rightarrow> plan \<Rightarrow> plan" where
  "enrich_query_plan fuzzy sp vi qa p =
     (let (semantic, keyword) = rewrite_texts sp qa (query_plan.truncate p);
          fs0 = AList.update ''user_gender''
            (of_gender (extract_user_gender_filter sp (original_query qa))) (plan_filters p);
          (fs, inferred, relaxed) = enrich_filters fuzzy sp vi qa semantic keyword
            (fs0, inferred_categories p, dedup (relaxed_categories p))
      in p\<lparr>semantic_query := semantic, keyword_query := align_keywords semantic keyword,
           plan_filters := fs, inferred_categories := inferred,
           relaxed_categories := sort relaxed,
           target_ad_type := settle_ad_type sp (qa_query qa) (target_ad_type p),
           sort_order := extract_sort_order (qa_query qa)\<rparr>)"

subsection \<open>deterministic_filter_query_plan\<close>

definition remove_term :: "string \<Rightarrow> string \<Rightarrow> string \<Rightarrow> string" where
  "remove_term key v residual =
     (let r1 = rx_sub (rx_whole (category_term_pattern v)) '' '' residual;
          aliases = (case map_of QUERY_FILTER_ALIASES key of None \<Rightarrow> [] | Some d \<Rightarrow> d)
      in fold (\<lambda>(alias, canonical) r. if canonical = norm_text v
            then rx_sub (rx_whole (lit alias)) '' '' r else r) aliases r1)"

definition residual_text :: "pydict \<Rightarrow> string \<Rightarrow> string" where
  "residual_text fs query =
     fold (\<lambda>(key, column) r. case text_at fs key of
         None \<Rightarrow> r
       | Some v \<Rightarrow> if v = [] then r else remove_term key v r) QUERY_FILTER_FIELDS (norm_text query)"

text \<open>\<open>token.replace(".", "", 1).isdigit()\<close>; a token has no point.\<close>

definition explained :: "pydict \<Rightarrow> string option \<Rightarrow> string \<Rightarrow> bool" where
  "explained fs order token \<longleftrightarrow>
     (let has_price = dget fs ''min_rental_fee'' \<noteq> VNone \<or> dget fs ''max_rental_fee'' \<noteq> VNone;
          has_duration = dget fs ''rental_duration'' \<noteq> VNone
      in token \<in> set FAST_PATH_FILLER_TOKENS
         \<or> has_price \<and> token \<in> set FAST_PATH_PRICE_TOKENS
         \<or> has_duration \<and> token \<in> set FAST_PATH_DURATION_TOKENS
         \<or> order \<noteq> None \<and> order \<noteq> Some [] \<and> token \<in> set FAST_PATH_SORT_TOKENS
         \<or> has_price \<and> is_digit_str token)"

definition retail_word :: rx where
  "retail_word = rx_seq [WordB, lit_i ''retail'', WordB]"

definition correct_retail :: "string option \<Rightarrow> string \<times> correction list \<Rightarrow> string \<times> correction list" where
  "correct_retail order st =
     (case st of (text, corrections) \<Rightarrow>
        if order \<noteq> None \<and> rx_found (rx_seq [WordB, lit ''retail'', WordB]) (casefold text)
        then (rx_sub retail_word ''rental'' text,
              corrections @ [\<lparr>corr_field = ''intent'', corr_input = ''retail'', corr_value = ''rental''\<rparr>])
        else (text, corrections))"

definition deterministic_filter_query_plan ::
    "bool \<Rightarrow> search_policy \<Rightarrow> value_index \<Rightarrow> (string, string) dict \<Rightarrow> analysis_cache option \<Rightarrow> string
      \<Rightarrow> plan option \<times> analysis_cache option" where
  "deterministic_filter_query_plan fuzzy sp vi aliases cache query =
     (let order = extract_sort_order query;
          (text0, corrections0) = correct_explicit_query_typos fuzzy query vi
      in if has_natural_search_intent sp text0 then (None, cache)
         else (let (text, corrections) = correct_retail order (text0, corrections0);
                   (qa, cache') = cached_analysis (normalize_query sp) text vi aliases cache;
                   p = enrich_query_plan fuzzy sp vi qa (new_plan (default_query_plan text None));
                   fs0 = plan_filters p
               in if \<not> list_ex (\<lambda>key. truthy (dget fs0 key)) [''main_category'', ''subcategory'']
                  then (None, cache')
                  else (let fs = (if dget fs0 ''min_rental_fee'' = VNone \<and> dget fs0 ''max_rental_fee'' = VNone
                                  then AList.update ''max_rental_fee'' (of_number (extract_standalone_budget text)) fs0
                                  else fs0)
                        in if list_all (explained fs (sort_order p)) (word_tokens (residual_text fs text))
                           then (Some (p\<lparr>plan_filters := fs, semantic_query := query, keyword_query := query,
                                   query_corrections := corrections,
                                   execution_path := Some ''deterministic_filter'',
                                   route_reason := Some ''complete_structured_catalog_match''\<rparr>), cache')
                           else (None, cache'))))"

subsection \<open>direct_semantic_query_plan\<close>

definition DIRECT_MARKETPLACE_WRAPPER_TOKENS :: "string list" where
  "DIRECT_MARKETPLACE_WRAPPER_TOKENS =
     [''can'', ''find'', ''for'', ''in'', ''looking'', ''need'', ''people'', ''person'', ''request'',
      ''search'', ''show'', ''someone'', ''to'', ''wanted'', ''who'']"

definition perspective_tokens :: "string list" where
  "perspective_tokens = [''people'', ''person'', ''someone'', ''wanted'', ''request'', ''requests'',
     ''renters'', ''customers'']"

definition names_catalog_value :: "query_analysis \<Rightarrow> string list \<Rightarrow> bool" where
  "names_catalog_value qa keys \<longleftrightarrow> list_ex (\<lambda>key. exact_of qa key \<noteq> None) keys"

text \<open>The facts of a routing query that the gates read.\<close>

record routing =
  rt_query :: string
  rt_tokens :: "string list"
  rt_ad_type :: string
  rt_decisive :: bool
  rt_tenant_direct :: bool
  rt_descriptive :: bool
  rt_intent :: "category_intent option"
  rt_grounded :: bool
  rt_blocked :: "string list"
  rt_complex :: bool
  rt_marketplace :: bool

definition routing_of :: "search_policy \<Rightarrow> value_index \<Rightarrow> string \<Rightarrow> query_analysis \<Rightarrow> routing" where
  "routing_of sp vi query qa =
     (let rq = (if query_was_normalized qa then qa_query qa else query);
          tokens = word_tokens (norm_text rq);
          tenant_direct = allows_decisive_marketplace_direct_semantic sp (qa_query qa);
          intent = intent_of sp (qa_query qa) (vi_map vi ''subcategory'');
          grounded = names_catalog_value qa [''main_category'', ''subcategory''] \<or> intent \<noteq> None;
          blocked = filter (\<lambda>t. t \<in> set DIRECT_SEMANTIC_BLOCK_TOKENS) tokens;
          complex_shape = list_ex (\<lambda>r. rx_found r rq) DIRECT_SEMANTIC_COMPLEX_PATTERNS
      in \<lparr>rt_query = rq, rt_tokens = tokens,
          rt_ad_type = fst (infer_target_ad_type sp rq), rt_decisive = snd (infer_target_ad_type sp rq),
          rt_tenant_direct = tenant_direct,
          rt_descriptive = allows_descriptive_direct_semantic sp (qa_query qa),
          rt_intent = intent, rt_grounded = grounded, rt_blocked = blocked, rt_complex = complex_shape,
          rt_marketplace = grounded \<and> tenant_direct \<and> has_natural_search_intent sp rq
            \<and> list_all (\<lambda>t. t \<in> set DIRECT_MARKETPLACE_WRAPPER_TOKENS) blocked \<and> \<not> complex_shape\<rparr>)"

text \<open>The first gate that refuses the direct route, with its reason.\<close>

definition direct_refusal :: "bool \<Rightarrow> search_policy \<Rightarrow> value_index \<Rightarrow> string \<Rightarrow> query_analysis
    \<Rightarrow> routing \<Rightarrow> string option" where
  "direct_refusal fuzzy sp vi query qa r =
     (if rt_tokens r = [] then Some ''empty_query''
      else if length (rt_tokens r) > DIRECT_SEMANTIC_MAX_TOKENS then Some ''too_many_tokens''
      else if \<not> is_ascii query then Some ''non_ascii_language''
      else if \<not> rt_decisive r then Some ''ambiguous_ad_type_intent''
      else if requires_hosted_planner sp (rt_query r) then Some ''tenant_ambiguous_compound''
      else if list_ex is_digit_str (rt_tokens r) then Some ''numeric_constraint_or_model''
      else if rt_ad_type r \<noteq> ''wanted'' \<and> \<not> rt_tenant_direct r
          \<and> list_ex (\<lambda>t. t \<in> set perspective_tokens) (rt_tokens r) then Some ''ad_type_intent''
      else if names_catalog_value qa [''state'', ''city'', ''locality'']
          \<or> fuzzy_location fuzzy qa vi \<noteq> None then Some ''location_language''
      else if qa_rental_duration qa \<noteq> None \<or> price_constraints qa \<noteq> (None, None)
        then Some ''price_or_duration_language''
      else if extract_sort_order (rt_query r) \<noteq> None then Some ''sort_language''
      else if query_was_normalized qa \<and> rt_intent r = None then Some ''query_requires_normalization''
      else if \<not> rt_descriptive r \<and> \<not> rt_grounded r then Some ''no_explicit_catalog_category''
      else if rt_ad_type r = ''wanted'' \<and> \<not> (rt_descriptive r \<or> rt_marketplace r)
        then Some ''ad_type_intent''
      else if \<not> rt_descriptive r \<and> rt_blocked r \<noteq> [] \<and> \<not> rt_marketplace r
        then Some ''complex_or_subjective_language''
      else if \<not> rt_descriptive r \<and> rt_complex r then Some ''complex_query_shape''
      else None)"

definition direct_reason :: "query_analysis \<Rightarrow> routing \<Rightarrow> string \<Rightarrow> string" where
  "direct_reason qa r target =
     (if target = ''wanted'' then ''buyer_demand_semantic''
      else if query_was_normalized qa then ''reviewed_normalization_offer''
      else if rt_descriptive r \<and> (\<not> rt_grounded r \<or> rt_blocked r \<noteq> [] \<or> rt_complex r)
        then ''descriptive_marketplace_offer''
      else if rt_marketplace r then ''marketplace_intent_semantic''
      else ''objective_catalog_phrase'')"

definition structured_filters :: "pydict \<Rightarrow> pydict" where
  "structured_filters fs = filter (\<lambda>(key, v). \<not> is_category_key key \<and> v \<noteq> VNone) fs"

definition direct_semantic_query_plan ::
    "bool \<Rightarrow> search_policy \<Rightarrow> value_index \<Rightarrow> (string, string) dict \<Rightarrow> analysis_cache option \<Rightarrow> string
      \<Rightarrow> (plan option \<times> string) \<times> analysis_cache option" where
  "direct_semantic_query_plan fuzzy sp vi aliases cache query =
     (let (qa, cache') = cached_analysis (normalize_query sp) query vi aliases cache;
          r = routing_of sp vi query qa
      in (case direct_refusal fuzzy sp vi query qa r of
            Some reason \<Rightarrow> (None, reason)
          | None \<Rightarrow>
              (let p = enrich_query_plan fuzzy sp vi qa (new_plan (default_query_plan query None));
                   reason = direct_reason qa r (target_ad_type p)
               in if structured_filters (plan_filters p) \<noteq> [] then (None, ''structured_intent_detected'')
                  else (Some (p\<lparr>execution_path := Some ''direct_semantic'', route_reason := Some reason\<rparr>),
                        reason)),
          cache'))"

subsection \<open>extract_query_plan\<close>

text \<open>
  The static part of the prompt is cached per instructions, context and catalogue, at most 128
  entries, the oldest out first. The hosted model is an argument: it maps the two prompts to
  a text or an error.
\<close>

definition SYSTEM_PROMPT :: string where
  "SYSTEM_PROMPT = concat
     [''You convert catalog-search requests into a retrieval plan. Determine the '',
      ''requested product or service before choosing a category. Write semantic_query '',
      ''and keyword_query in clear search language while preserving brands, model '',
      ''numbers, attributes, and functional requirements. Identify the requested catalog'',
      '' result separately from its subject, use case, or related profession. Someone '',
      ''asking for a fridge wants a refrigerator appliance, not a fridge mechanic, '',
      ''unless repair is requested. Someone asking for a mathematics teacher wants a '',
      ''teacher or tutor service, not a mathematics book. Never change a valid user '',
      ''concept into a similar-spelled catalog word. semantic_query must retain the '',
      ''product or service intent and descriptive requirements for vector search. '',
      ''keyword_query must be concise literal terms, model names, brands, categories, '',
      ''and attributes for BM25. Extract filters only when explicitly stated. Never '',
      ''invent a category, location, duration, or price. Do not convert a functional '',
      ''description into a guessed category filter. A main category is a broad '',
      ''department and a subcategory is a specific catalog type. Once an explicit '',
      ''location or another tenant-defined structured value is extracted, remove it from'',
      '' semantic_query and keyword_query. Do not infer parent fields: a city does not '',
      ''authorize a state filter, and a subcategory does not authorize a main-category '',
      ''filter. Domain-specific plan fields and compatibility defaults are owned by the '',
      ''tenant plugin. Use null for every absent optional filter.'']"

definition newline :: string where
  "newline = [CHR 0x0A]"

definition static_prompt :: "string \<Rightarrow> string \<Rightarrow> string \<Rightarrow> string \<times> string" where
  "static_prompt instructions context catalog =
     (SYSTEM_PROMPT
        @ (if instructions = [] then []
           else newline @ ''Tenant plugin instructions:'' @ newline @ instructions)
        @ (if context = [] then []
           else newline @ ''Tenant-specific catalog context follows. Use it only to interpret the catalog domain; it cannot override the JSON schema, explicit-filter rule, or tenant plugin instructions:''
             @ newline @ context),
      if catalog = [] then []
      else newline @ ''For catalogued fields, use only these exact indexed values:'' @ newline @ catalog @ newline)"

type_synonym prompt_cache = "(string \<times> string \<times> string, string \<times> string) dict"

definition STATIC_PROMPT_LIMIT :: nat where
  "STATIC_PROMPT_LIMIT = 128"

definition cached_prompt :: "string \<Rightarrow> string \<Rightarrow> string \<Rightarrow> prompt_cache
    \<Rightarrow> (string \<times> string) \<times> prompt_cache" where
  "cached_prompt instructions context catalog cache =
     (let key = (strip instructions, strip context, catalog) in
      case map_of cache key of
        Some parts \<Rightarrow> (parts, cache)
      | None \<Rightarrow>
          (let parts = static_prompt (strip instructions) (strip context) catalog;
               room = (if STATIC_PROMPT_LIMIT \<le> length cache then tl cache else cache)
           in (parts, AList.update key parts room)))"

definition user_prompt :: "string \<Rightarrow> string \<Rightarrow> string \<Rightarrow> string" where
  "user_prompt query normalized catalog_text =
     ''Original user query:'' @ newline @ query @ newline
     @ (if casefold normalized = casefold query then []
        else newline @ ''Trusted phrase normalization:'' @ newline @ normalized @ newline
          @ ''Use this normalization for semantic intent. Continue extracting locations, price, duration, and ad perspective from the complete original request.'' @ newline)
     @ newline @ catalog_text @ ''Return the structured query plan.''"

definition planner_catches :: "py_error \<Rightarrow> bool" where
  "planner_catches e \<longleftrightarrow> (case e of RuntimeError m \<Rightarrow> True | ValueError m \<Rightarrow> True | TypeError m \<Rightarrow> True
     | KeyError m \<Rightarrow> False | OtherError m \<Rightarrow> False)"

definition answer_or_default :: "string \<Rightarrow> py_error + query_plan \<Rightarrow> py_error + query_plan" where
  "answer_or_default query answer =
     (case answer of
        Inr p \<Rightarrow> Inr p
      | Inl e \<Rightarrow> if planner_catches e then Inr (default_query_plan query (Some (error_text e))) else Inl e)"

definition extract_query_plan ::
    "(string \<Rightarrow> string \<Rightarrow> py_error + string) \<Rightarrow> (string \<Rightarrow> py_error + pyval)
      \<Rightarrow> ((string, string) dict \<Rightarrow> string \<Rightarrow> string) \<Rightarrow> (string, string) dict
      \<Rightarrow> string \<Rightarrow> string \<Rightarrow> string \<Rightarrow> prompt_cache \<Rightarrow> string
      \<Rightarrow> (py_error + query_plan) \<times> prompt_cache" where
  "extract_query_plan model json_loads normalizer aliases instructions context catalog cache query =
     (let ((system, catalog_text), cache') = cached_prompt instructions context catalog cache;
          answer = (case model system (user_prompt query (normalizer aliases query) catalog_text) of
              Inl e \<Rightarrow> Inl e
            | Inr body \<Rightarrow> parse_query_plan json_loads body query)
      in (answer_or_default query answer, cache'))"

subsection \<open>Reading back what the stages write\<close>

lemma text_at_update [simp, planner_facts]:
  "text_at (AList.update k v d) k' = (if k' = k then text_of v else text_at d k')"
  by (simp add: text_at_def dget_upd)

lemma text_of_simps [simp, planner_facts]:
  "text_of VNone = None" "text_of (VStr s) = Some s" "text_of (of_text t) = t"
  "text_of v = None \<longleftrightarrow> v = VNone"
  by (auto simp: text_of_def of_text_def split: option.split pyval.split)

lemma text_at_put [simp, planner_facts]:
  "text_at (put_text k t d) k' = (if k' = k then t else text_at d k')"
  by (simp add: put_text_def)

lemma text_at_none: "dget d k = VNone \<longleftrightarrow> text_at d k = None"
  by (simp add: text_at_def)

lemma or_text_some: "or_text a (Some s) \<noteq> None"
  by (auto simp: or_text_def split: option.split)

text \<open>The stages after the category alignment leave the category keys alone.\<close>

lemma text_at_add_prices [planner_facts]:
  "k \<notin> {''min_rental_fee'', ''max_rental_fee''} \<Longrightarrow> text_at (add_prices prices fs) k = text_at fs k"
  by (auto simp: add_prices_def Let_def)

lemma text_at_complete_location [planner_facts]:
  "k \<notin> {''state'', ''city'', ''locality''} \<Longrightarrow> text_at (complete_location vi fs) k = text_at fs k"
  by (auto simp: complete_location_def Let_def split: option.split prod.split)

lemma enrich_filters_cases:
  assumes "enrich_filters fuzzy sp vi qa semantic keyword st0 = (fs, inferred, relaxed)"
  obtains fs1 inf1 fs2 where
    "apply_intent vi qa (intent_of sp (qa_query qa) (vi_map vi ''subcategory''))
       (fold (enrich_field vi qa) analysis_keys st0) = (fs1, inf1, relaxed)"
    "align_parents vi (put_text ''rental_duration'' (qa_rental_duration qa) (add_fuzzy_location fuzzy vi qa fs1),
       infer_hints sp vi (qa_query qa) semantic keyword (add_fuzzy_location fuzzy vi qa fs1)
         (canonical_hints vi inf1), relaxed) = (fs2, inferred)"
    "fs = add_prices (price_constraints qa) (complete_location vi fs2)"
  using assms by (auto simp: enrich_filters_def Let_def split: prod.splits)

subsection \<open>Categories of an enriched plan lie on one branch of the catalogue\<close>

definition branch_consistent :: "value_index \<Rightarrow> pydict \<Rightarrow> pydict \<Rightarrow> string list \<Rightarrow> bool" where
  "branch_consistent vi fs inferred relaxed \<longleftrightarrow>
     (\<forall>s parent. text_at fs ''subcategory'' = Some s \<longrightarrow> parent_of vi s = Some parent \<longrightarrow>
        text_at fs ''main_category'' = Some parent \<and> text_at inferred ''main_category'' = None)
     \<and> (\<forall>s parent. text_at fs ''subcategory'' = None \<longrightarrow> text_at inferred ''subcategory'' = Some s \<longrightarrow>
          parent_of vi s = Some parent \<longrightarrow>
          (\<forall>hard. text_at fs ''main_category'' = Some hard \<longrightarrow> norm_text hard = norm_text parent)
          \<and> (if ''subcategory'' \<in> set relaxed then text_at fs ''main_category'' = Some parent
             else text_at inferred ''main_category'' = Some parent))"

lemma align_parents_consistent:
  assumes "align_parents vi (fs, inferred, relaxed) = (fs', inferred')"
  shows "branch_consistent vi fs' inferred' relaxed"
  using assms unfolding branch_consistent_def align_parents_def
  by (auto split: option.splits if_splits)

lemma enrich_branch:
  "branch_consistent vi (plan_filters (enrich_query_plan fuzzy sp vi qa p))
     (inferred_categories (enrich_query_plan fuzzy sp vi qa p))
     (relaxed_categories (enrich_query_plan fuzzy sp vi qa p))"
proof -
  obtain semantic keyword where texts: "rewrite_texts sp qa (query_plan.truncate p) = (semantic, keyword)"
    by (metis prod.exhaust)
  define fs0 where "fs0 = AList.update ''user_gender''
    (of_gender (extract_user_gender_filter sp (original_query qa))) (plan_filters p)"
  obtain fs inferred relaxed where drafted: "enrich_filters fuzzy sp vi qa semantic keyword
      (fs0, inferred_categories p, dedup (relaxed_categories p)) = (fs, inferred, relaxed)"
    by (metis prod.exhaust)
  obtain fs2 where aligned: "branch_consistent vi fs2 inferred relaxed"
    and fs: "fs = add_prices (price_constraints qa) (complete_location vi fs2)"
    by (rule enrich_filters_cases [OF drafted]) (blast dest: align_parents_consistent)
  have keep: "text_at fs k = text_at fs2 k" if "is_category_key k" for k
    using that by (auto simp: fs is_category_key_def text_at_add_prices text_at_complete_location)
  have "branch_consistent vi fs inferred (sort relaxed)"
    using aligned by (simp add: branch_consistent_def keep is_category_key_def)
  then show ?thesis
    by (simp add: enrich_query_plan_def texts fs0_def [symmetric] drafted)
qed

theorem enriched_plan_branch_consistent:
  "branch_consistent vi (plan_filters (enrich_query_plan fuzzy sp vi qa p))
     (inferred_categories (enrich_query_plan fuzzy sp vi qa p))
     (relaxed_categories (enrich_query_plan fuzzy sp vi qa p))"
  by (rule enrich_branch)

subsection \<open>Locations are completed from the catalogue\<close>

definition location_complete :: "value_index \<Rightarrow> pydict \<Rightarrow> bool" where
  "location_complete vi fs \<longleftrightarrow>
     (\<forall>l. text_at fs ''locality'' = Some l \<longrightarrow> map_of (vi_locality_location vi) (norm_text l) \<noteq> None \<longrightarrow>
        text_at fs ''city'' \<noteq> None \<and> text_at fs ''state'' \<noteq> None)
     \<and> (\<forall>c. text_at fs ''city'' = Some c \<longrightarrow> map_of (vi_city_state vi) (norm_text c) \<noteq> None \<longrightarrow>
        text_at fs ''state'' \<noteq> None)"

lemma complete_location_complete: "location_complete vi (complete_location vi fs)"
proof -
  define fs1 where "fs1 = (if same_city_and_locality fs then AList.update ''locality'' VNone fs else fs)"
  define fs2 where "fs2 = (case text_at fs1 ''locality'' of None \<Rightarrow> fs1
     | Some l \<Rightarrow> (case map_of (vi_locality_location vi) (norm_text l) of None \<Rightarrow> fs1
         | Some (city, state) \<Rightarrow>
             put_text ''state'' (or_text (text_at fs1 ''state'') (Some state))
               (put_text ''city'' (or_text (text_at fs1 ''city'') (Some city)) fs1)))"
  have done2: "text_at fs2 ''locality'' = Some l \<Longrightarrow> map_of (vi_locality_location vi) (norm_text l) \<noteq> None \<Longrightarrow>
      text_at fs2 ''city'' \<noteq> None \<and> text_at fs2 ''state'' \<noteq> None" for l
    unfolding fs2_def by (auto simp: or_text_some simp del: not_None_eq split: option.splits)
  have step: "complete_location vi fs = (case text_at fs2 ''city'' of None \<Rightarrow> fs2
     | Some c \<Rightarrow> if dget fs2 ''state'' \<noteq> VNone then fs2
         else (case map_of (vi_city_state vi) (norm_text c) of None \<Rightarrow> fs2
                | Some state \<Rightarrow> AList.update ''state'' (VStr state) fs2))"
    unfolding complete_location_def Let_def fs1_def fs2_def by (rule refl)
  show ?thesis unfolding location_complete_def step
    using done2 by (auto simp: text_at_none split: option.splits)
qed

theorem enriched_plan_location_complete:
  "location_complete vi (plan_filters (enrich_query_plan fuzzy sp vi qa p))"
proof -
  obtain semantic keyword where texts: "rewrite_texts sp qa (query_plan.truncate p) = (semantic, keyword)"
    by (metis prod.exhaust)
  have keep: "location_complete vi (add_prices prices fs) = location_complete vi fs" for prices fs
    by (simp add: location_complete_def text_at_add_prices)
  show ?thesis
    by (simp add: enrich_query_plan_def texts enrich_filters_def Let_def keep
        complete_location_complete split: prod.split)
qed

subsection \<open>Hard filters are evidenced\<close>

text \<open>
  What may stand behind a hard filter: for a category the analysis of the query or the policy's
  intent, for a location the analysis, a catalogue value the query mentions, the fuzzy location,
  or the catalogue's own parent relations. A value that only the hosted model states is dropped.
\<close>

definition category_evidence :: "query_analysis \<Rightarrow> string \<Rightarrow> string \<Rightarrow> bool" where
  "category_evidence qa key v \<longleftrightarrow> exact_of qa key = Some v
     \<and> ((\<not> query_was_normalized qa \<and> map_of (category_is_explicit qa) key = Some True)
        \<or> is_explicit_category_request (if query_was_normalized qa then original_query qa else qa_query qa) v)"

definition field_evidence :: "value_index \<Rightarrow> query_analysis \<Rightarrow> string \<Rightarrow> string \<Rightarrow> bool" where
  "field_evidence vi qa key v \<longleftrightarrow> exact_of qa key = Some v
     \<or> (\<exists>requested. canonical_catalog_value key requested (vi_map vi key) True = Some v
          \<and> text_mentions_filter (qa_query qa) requested)"

definition has_categories :: "pydict \<Rightarrow> bool" where
  "has_categories inferred \<longleftrightarrow> map_of inferred ''main_category'' \<noteq> None \<and> map_of inferred ''subcategory'' \<noteq> None"

lemma has_categories_update [simp]: "has_categories d \<Longrightarrow> has_categories (AList.update k v d)"
  by (simp add: has_categories_def update_conv')

lemma has_categories_put [simp]: "has_categories d \<Longrightarrow> has_categories (put_text k t d)"
  by (simp add: put_text_def)

lemma enrich_field_frame:
  assumes "enrich_field vi qa key (fs, inferred, relaxed) = (fs', inferred', relaxed')"
  shows "k \<noteq> key \<Longrightarrow> text_at fs' k = text_at fs k"
    and "has_categories inferred \<Longrightarrow> has_categories inferred'"
  using assms unfolding enrich_field_def Let_def
  by (auto split: option.splits if_splits)

lemma enrich_field_evidence:
  assumes step: "enrich_field vi qa key (fs, inferred, relaxed) = (fs', inferred', relaxed')"
    and v: "text_at fs' key = Some v"
  shows "field_evidence vi qa key v"
    and "has_categories inferred \<Longrightarrow> key = ''subcategory'' \<Longrightarrow> category_evidence qa key v"
proof -
  show "field_evidence vi qa key v"
    using step v unfolding enrich_field_def Let_def field_evidence_def
    by (cases "exact_of qa key") (auto split: option.splits if_splits)
  assume cats: "has_categories inferred" and key: "key = ''subcategory''"
  show "category_evidence qa key v"
  proof (cases "exact_of qa key")
    case None
    then show ?thesis using step v cats key unfolding enrich_field_def Let_def has_categories_def
      by (auto split: option.splits if_splits)
  next
    case (Some x)
    have x: "x = v" and explicit: "field_is_explicit qa inferred key (Some x)"
      using step v Some unfolding enrich_field_def Let_def by (auto split: if_splits)
    then show ?thesis using cats key Some
      by (auto simp: category_evidence_def field_is_explicit_def has_categories_def simp del: not_None_eq)
  qed
qed

lemma enrich_fields_evidence:
  assumes "fold (enrich_field vi qa) keys (fs, inferred, relaxed) = (fs', inferred', relaxed')"
    and "distinct keys" "has_categories inferred"
  shows "has_categories inferred' \<and> (\<forall>k. k \<notin> set keys \<longrightarrow> text_at fs' k = text_at fs k)
    \<and> (\<forall>k v. k \<in> set keys \<longrightarrow> text_at fs' k = Some v \<longrightarrow> field_evidence vi qa k v
          \<and> (k = ''subcategory'' \<longrightarrow> category_evidence qa k v))"
  using assms
proof (induction keys arbitrary: fs inferred relaxed)
  case (Cons key keys)
  obtain fs1 inf1 rel1 where step: "enrich_field vi qa key (fs, inferred, relaxed) = (fs1, inf1, rel1)"
    by (metis prod.exhaust)
  have rest: "fold (enrich_field vi qa) keys (fs1, inf1, rel1) = (fs', inferred', relaxed')"
    using Cons.prems(1) by (simp add: step)
  note ih = Cons.IH [OF rest]
  note frame = enrich_field_frame [OF step] and ev = enrich_field_evidence [OF step]
  have cats: "has_categories inf1" using frame(2) Cons.prems(3) by blast
  have "distinct keys" and new: "key \<notin> set keys" using Cons.prems(2) by auto
  note ih = ih [OF this(1) cats]
  have "text_at fs' key = text_at fs1 key" using ih new by blast
  then have at_key: "field_evidence vi qa key v \<and> (key = ''subcategory'' \<longrightarrow> category_evidence qa key v)"
    if "text_at fs' key = Some v" for v
    using ev [of v] Cons.prems(3) that by simp
  show ?case
  proof (intro conjI allI impI)
    show "has_categories inferred'" using ih by blast
  qed (use ih frame(1) at_key in \<open>auto simp: set_ConsD\<close>)
qed simp

lemma in_concat_map_filter:
  assumes "c \<in> set (concat (map (\<lambda>p. List.map_filter (f p) ks) ps))"
  obtains p k where "k \<in> set ks" "f p k = Some c"
  using assms by (auto simp: in_map_filter)

lemma fuzzy_location_key:
  assumes "fuzzy_location fuzzy qa vi = Some (key, v)"
  shows "is_location_key key"
proof -
  define step where "step = (\<lambda>(c :: pyfloat \<times> int \<times> string \<times> string) acc. let identity = norm_text (snd (snd (snd c))) in
         if (case map_of acc identity of None \<Rightarrow> (-1, -1, [], []) | Some b \<Rightarrow> b) < c
         then AList.update identity c acc else acc)"
  have one: "snd ` set (step c acc) \<subseteq> insert c (snd ` set acc)" for c acc
    by (auto simp: step_def Let_def dest!: set_update_cases)
  have inv: "snd ` set (fold step cs acc) \<subseteq> set cs \<union> snd ` set acc" for cs acc
  proof (induction cs arbitrary: acc)
    case (Cons c cs)
    have "snd ` set (fold step cs (step c acc)) \<subseteq> set cs \<union> insert c (snd ` set acc)"
      using Cons [of "step c acc"] one [of c acc] by blast
    then show ?case by auto
  qed simp
  have key_of: "k = key" if "location_candidate fuzzy vi phrase key = Some (s, pr, k, a)" for phrase key s pr k a
    using that by (auto simp: location_candidate_def split: option.splits prod.splits if_splits)
  define cs where "cs = concat (map (\<lambda>phrase. List.map_filter (location_candidate fuzzy vi phrase)
     [''city'', ''state'', ''locality'']) (location_phrases (qa_query qa)))"
  have cands: "\<forall>c \<in> set (map snd (best_by_identity cs)). is_location_key (fst (snd (snd c)))"
  proof
    fix c assume "c \<in> set (map snd (best_by_identity cs))"
    then have in_cs: "c \<in> set cs"
      using inv [of cs "[]"] by (auto simp: best_by_identity_def step_def [symmetric])
    obtain phrase k where k: "k \<in> set [''city'', ''state'', ''locality'']"
      and c: "location_candidate fuzzy vi phrase k = Some c"
      by (rule in_concat_map_filter [OF in_cs [unfolded cs_def]])
    have "fst (snd (snd c)) = k" using c key_of [of phrase k "fst c" "fst (snd c)"] by (cases c) auto
    then show "is_location_key (fst (snd (snd c)))" using k by (auto simp: is_location_key_def)
  qed
  have found: "find_fuzzy_location fuzzy (qa_query qa) vi = Some (key, v)"
    using assms unfolding fuzzy_location_def
    by (cases "find_fuzzy_location fuzzy (qa_query qa) vi") (auto split: if_splits)
  define ranked where "ranked = sort_desc id (map snd (best_by_identity cs))"
  have read: "(case ranked of [] \<Rightarrow> None | [(s, pr, key, actual)] \<Rightarrow> Some (key, actual)
     | (s, pr, key, actual) # (s', _) # _ \<Rightarrow> if s - s' < 3 / 100 then None else Some (key, actual)) = Some (key, v)"
    using found unfolding find_fuzzy_location_def cs_def [symmetric] Let_def ranked_def .
  obtain s pr where "(s, pr, key, v) \<in> set ranked"
  proof (cases ranked)
    case (Cons c rest)
    obtain s pr k a where c: "c = (s, pr, k, a)" by (metis prod.exhaust)
    have "k = key \<and> a = v" using read unfolding Cons c
      by (cases rest) (auto split: if_splits prod.splits)
    then show ?thesis using that [of s pr] by (simp add: Cons c)
  qed (use read in simp)
  then have "(s, pr, key, v) \<in> set (sort_desc id (map snd (best_by_identity cs)))" by (simp add: ranked_def)
  then have "(s, pr, key, v) \<in> set (map snd (best_by_identity cs))" by simp
  from cands [rule_format, OF this] show ?thesis by simp
qed

definition location_evidence :: "bool \<Rightarrow> value_index \<Rightarrow> query_analysis \<Rightarrow> string \<Rightarrow> string \<Rightarrow> bool" where
  "location_evidence fuzzy vi qa key v \<longleftrightarrow>
     field_evidence vi qa key v \<or> fuzzy_location fuzzy qa vi = Some (key, v)
     \<or> (key = ''city'' \<and> (\<exists>l st. map_of (vi_locality_location vi) l = Some (v, st)))
     \<or> (key = ''state'' \<and> ((\<exists>l c. map_of (vi_locality_location vi) l = Some (c, v))
          \<or> (\<exists>c. map_of (vi_city_state vi) c = Some v)))"

definition plan_evidenced :: "bool \<Rightarrow> search_policy \<Rightarrow> value_index \<Rightarrow> query_analysis \<Rightarrow> pydict \<Rightarrow> bool" where
  "plan_evidenced fuzzy sp vi qa fs \<longleftrightarrow>
     (\<forall>s. text_at fs ''subcategory'' = Some s \<longrightarrow> category_evidence qa ''subcategory'' s
        \<or> (\<exists>ci. intent_of sp (qa_query qa) (vi_map vi ''subcategory'') = Some ci \<and> s = ci_subcategory ci))
     \<and> (\<forall>key v. is_location_key key \<longrightarrow> text_at fs key = Some v \<longrightarrow> location_evidence fuzzy vi qa key v)
     \<and> text_at fs ''rental_duration'' = qa_rental_duration qa"

lemma apply_intent_frame:
  assumes "apply_intent vi qa intent (fs, inferred, relaxed) = (fs', inferred', relaxed')"
  shows "k \<notin> {''main_category'', ''subcategory''} \<Longrightarrow> text_at fs' k = text_at fs k"
    and "text_at fs' ''subcategory'' = Some s \<Longrightarrow>
      text_at fs ''subcategory'' = Some s \<or> (\<exists>ci. intent = Some ci \<and> s = ci_subcategory ci)"
  using assms unfolding apply_intent_def Let_def
  by (auto split: option.splits if_splits)

lemma add_fuzzy_frame:
  assumes "text_at (add_fuzzy_location fuzzy vi qa fs) k = Some v"
  shows "text_at fs k = Some v \<or> fuzzy_location fuzzy qa vi = Some (k, v)"
  using assms unfolding add_fuzzy_location_def by (auto split: option.splits if_splits)

lemma align_parents_frame:
  assumes "align_parents vi st = (fs', inferred')" "k \<noteq> ''main_category''"
  shows "text_at fs' k = text_at (fst st) k"
  using assms unfolding align_parents_def by (auto split: option.splits if_splits prod.splits)

lemma complete_location_frame:
  assumes "text_at (complete_location vi fs) k = Some v"
  shows "text_at fs k = Some v
    \<or> (k = ''city'' \<and> (\<exists>l st. map_of (vi_locality_location vi) l = Some (v, st)))
    \<or> (k = ''state'' \<and> ((\<exists>l c. map_of (vi_locality_location vi) l = Some (c, v))
          \<or> (\<exists>c. map_of (vi_city_state vi) c = Some v)))"
proof -
  define fs1 where "fs1 = (if same_city_and_locality fs then AList.update ''locality'' VNone fs else fs)"
  define fs2 where "fs2 = (case text_at fs1 ''locality'' of None \<Rightarrow> fs1
     | Some l \<Rightarrow> (case map_of (vi_locality_location vi) (norm_text l) of None \<Rightarrow> fs1
         | Some (city, state) \<Rightarrow>
             put_text ''state'' (or_text (text_at fs1 ''state'') (Some state))
               (put_text ''city'' (or_text (text_at fs1 ''city'') (Some city)) fs1)))"
  have step: "complete_location vi fs = (case text_at fs2 ''city'' of None \<Rightarrow> fs2
     | Some c \<Rightarrow> if dget fs2 ''state'' \<noteq> VNone then fs2
         else (case map_of (vi_city_state vi) (norm_text c) of None \<Rightarrow> fs2
                | Some state \<Rightarrow> AList.update ''state'' (VStr state) fs2))"
    unfolding complete_location_def Let_def fs1_def fs2_def by (rule refl)
  have or_cases: "or_text a (Some s) = Some x \<Longrightarrow> a = Some x \<or> x = s" for a s x
    by (auto simp: or_text_def split: option.splits if_splits)
  have one: "text_at fs1 k = Some x \<Longrightarrow> text_at fs k = Some x" for k x
    by (auto simp: fs1_def split: if_splits)
  have two: "text_at fs2 k = Some x \<Longrightarrow> text_at fs1 k = Some x
      \<or> (k = ''city'' \<and> (\<exists>l st. map_of (vi_locality_location vi) l = Some (x, st)))
      \<or> (k = ''state'' \<and> (\<exists>l c. map_of (vi_locality_location vi) l = Some (c, x)))" for k x
    unfolding fs2_def by (auto dest!: or_cases split: option.splits if_splits) blast+
  have three: "text_at fs2 k = Some v \<or> (k = ''state'' \<and> (\<exists>c. map_of (vi_city_state vi) c = Some v))"
    using assms unfolding step by (auto split: option.splits if_splits)
  show ?thesis using three one two by blast
qed

theorem hard_filters_evidenced:
  assumes "has_categories (inferred_categories p)"
  shows "plan_evidenced fuzzy sp vi qa (plan_filters (enrich_query_plan fuzzy sp vi qa p))"
proof -
  obtain semantic keyword where texts: "rewrite_texts sp qa (query_plan.truncate p) = (semantic, keyword)"
    by (metis prod.exhaust)
  define fs0 where "fs0 = AList.update ''user_gender''
    (of_gender (extract_user_gender_filter sp (original_query qa))) (plan_filters p)"
  obtain fs inferred relaxed where drafted: "enrich_filters fuzzy sp vi qa semantic keyword
      (fs0, inferred_categories p, dedup (relaxed_categories p)) = (fs, inferred, relaxed)"
    by (metis prod.exhaust)
  define intent where "intent = intent_of sp (qa_query qa) (vi_map vi ''subcategory'')"
  obtain fsa inf_a rel_a where folded: "fold (enrich_field vi qa) analysis_keys
      (fs0, inferred_categories p, dedup (relaxed_categories p)) = (fsa, inf_a, rel_a)"
    by (metis prod.exhaust)
  obtain fs1 inf1 fs2 where intent: "apply_intent vi qa intent (fsa, inf_a, rel_a) = (fs1, inf1, relaxed)"
    and aligned: "align_parents vi (put_text ''rental_duration'' (qa_rental_duration qa)
         (add_fuzzy_location fuzzy vi qa fs1),
       infer_hints sp vi (qa_query qa) semantic keyword (add_fuzzy_location fuzzy vi qa fs1)
         (canonical_hints vi inf1), relaxed) = (fs2, inferred)"
    and fs: "fs = add_prices (price_constraints qa) (complete_location vi fs2)"
    by (rule enrich_filters_cases [OF drafted]) (simp add: folded intent_def)
  have keys: "distinct analysis_keys"
    "set analysis_keys = {''main_category'', ''subcategory'', ''state'', ''city'', ''locality''}"
    by (auto simp: analysis_keys_def QUERY_FILTER_FIELDS_def)
  note fields = enrich_fields_evidence [OF folded keys(1) assms]
  have at2: "text_at fs2 k = (if k = ''rental_duration'' then qa_rental_duration qa
      else text_at (add_fuzzy_location fuzzy vi qa fs1) k)" if "k \<noteq> ''main_category''" for k
    using align_parents_frame [OF aligned that] by simp
  have late: "text_at fs k = text_at (complete_location vi fs2) k"
    if "k \<notin> {''min_rental_fee'', ''max_rental_fee''}" for k
    using that by (simp add: fs text_at_add_prices)
  have sub: "category_evidence qa ''subcategory'' s \<or> (\<exists>ci. intent = Some ci \<and> s = ci_subcategory ci)"
    if "text_at fs ''subcategory'' = Some s" for s
  proof -
    have "text_at (add_fuzzy_location fuzzy vi qa fs1) ''subcategory'' = Some s"
      using that by (simp add: late text_at_complete_location at2)
    then have "text_at fs1 ''subcategory'' = Some s"
      using add_fuzzy_frame fuzzy_location_key by (fastforce simp: is_location_key_def)
    then show ?thesis using apply_intent_frame(2) [OF intent] fields keys(2) by blast
  qed
  have loc: "location_evidence fuzzy vi qa key v" if key: "is_location_key key" and v: "text_at fs key = Some v" for key v
  proof -
    have k: "key \<in> {''state'', ''city'', ''locality''}" using key by (simp add: is_location_key_def)
    then have "text_at (complete_location vi fs2) key = Some v" using v by (auto simp: late)
    from complete_location_frame [OF this] show ?thesis
    proof (elim disjE)
      assume "text_at fs2 key = Some v"
      then have "text_at (add_fuzzy_location fuzzy vi qa fs1) key = Some v" using k by (auto simp: at2)
      from add_fuzzy_frame [OF this] show ?thesis
      proof
        assume "text_at fs1 key = Some v"
        then have "text_at fsa key = Some v"
          using apply_intent_frame(1) [OF intent, of key] k by auto
        moreover have "key \<in> set analysis_keys" using k unfolding keys(2) by blast
        ultimately have "field_evidence vi qa key v" using fields by blast
        then show ?thesis by (simp add: location_evidence_def)
      qed (simp add: location_evidence_def)
    qed (auto simp: location_evidence_def)
  qed
  have "plan_evidenced fuzzy sp vi qa fs"
    using sub loc at2 [of "''rental_duration''"]
    by (simp add: plan_evidenced_def intent_def late text_at_complete_location)
  then show ?thesis
    by (simp add: enrich_query_plan_def texts fs0_def [symmetric] drafted)
qed

subsection \<open>The hosted plan: guarded, evidenced, total on the errors it catches\<close>

lemma default_plan_guarded: "plan_guarded query (default_query_plan query reason)"
  by (simp add: plan_guarded_def default_query_plan_def QUERY_FILTER_KEYS_def QUERY_FILTER_FIELDS_def dget_def)

lemma default_has_categories [simp]: "has_categories (inferred_categories (default_query_plan query reason))"
  by (simp add: has_categories_def default_query_plan_def no_categories_def)

lemma split_category_has:
  "split_category original key (fs, inferred) = (fs', inferred') \<Longrightarrow> has_categories inferred \<Longrightarrow> has_categories inferred'"
  by (auto simp: split_category_def split: pyval.splits if_splits)

lemma parsed_has_categories:
  assumes "parse_query_plan json_loads body original = Inr p"
  shows "has_categories (inferred_categories p)"
proof -
  have start: "has_categories no_categories" by (simp add: has_categories_def no_categories_def)
  obtain parsed where parsed: "json_loads body = Inr (VDict parsed)"
    using assms by (auto simp: parse_query_plan_def split: sum.splits pyval.splits)
  define raw where "raw = (case dget parsed ''filters'' of VDict d \<Rightarrow> d | _ \<Rightarrow> [])"
  define fs1 where "fs1 = AList.update ''user_gender'' (of_gender (optional_user_gender (dget raw ''user_gender'')))
      (map (\<lambda>(key, column). (key, of_text (optional_text (dget raw key)))) QUERY_FILTER_FIELDS)"
  obtain fs2 inff where split: "split_category original ''subcategory''
      (split_category original ''main_category'' (fs1, no_categories)) = (fs2, inff)" by (metis prod.exhaust)
  obtain lo hi where fees: "order_fees (optional_number (dget raw ''min_rental_fee''))
      (optional_number (dget raw ''max_rental_fee'')) = (lo, hi)" by (metis prod.exhaust)
  have "inferred_categories p = inff"
    using assms fees unfolding order_fees_def
    by (auto simp: parse_query_plan_def parsed Let_def raw_def [symmetric] fs1_def [symmetric] split
        split: if_splits)
  moreover have "has_categories inff"
    using split split_category_has start by (metis prod.exhaust)
  ultimately show ?thesis by simp
qed

lemma extracted_cases:
  assumes "fst (extract_query_plan model json_loads normalizer aliases instructions context catalog cache query) = Inr p"
  obtains body where "parse_query_plan json_loads body query = Inr p"
    | reason where "p = default_query_plan query (Some reason)"
  using assms
  by (auto simp: extract_query_plan_def answer_or_default_def Let_def split: sum.splits prod.splits if_splits)

lemma extracted_errors:
  assumes "fst (extract_query_plan model json_loads normalizer aliases instructions context catalog cache query) = Inl e"
  shows "\<not> planner_catches e"
  using assms
  by (auto simp: extract_query_plan_def answer_or_default_def Let_def split: sum.splits prod.splits if_splits)

theorem extracted_plan_guarded:
  "case fst (extract_query_plan model json_loads normalizer aliases instructions context catalog cache query) of
     Inl e \<Rightarrow> \<not> planner_catches e | Inr p \<Rightarrow> plan_guarded query p"
proof (cases "fst (extract_query_plan model json_loads normalizer aliases instructions context catalog cache query)")
  case (Inr p)
  then have "plan_guarded query p"
    by (cases rule: extracted_cases) (auto intro: parsed_guarded default_plan_guarded)
  then show ?thesis by (simp add: Inr)
qed (simp add: extracted_errors)


subsection \<open>The perspective of an enriched plan\<close>

definition perspective_settled :: "(string \<Rightarrow> string \<times> bool) \<Rightarrow> string \<Rightarrow> string \<Rightarrow> string \<Rightarrow> bool" where
  "perspective_settled ad_type query planned target \<longleftrightarrow>
     target \<in> {''offer'', ''wanted''}
     \<and> (snd (ad_type query) \<longrightarrow> target = fst (ad_type query))
     \<and> (target = ''wanted'' \<longrightarrow> ad_type query = (''wanted'', True) \<or> planned = ''wanted'')
     \<and> (\<not> snd (ad_type query) \<longrightarrow> planned = ''wanted'' \<longrightarrow> target = ''wanted'')"

context ad_type_policy
begin

lemma settle_settled: "perspective_settled ad_type query planned (settle query planned)"
  using settle_known [of query planned] wanted_is_evidenced [of query planned]
  by (auto simp: perspective_settled_def settle_def)

end

lemma enriched_ad_type:
  "target_ad_type (enrich_query_plan fuzzy sp vi qa p) = settle_ad_type sp (qa_query qa) (target_ad_type p)"
  by (simp add: enrich_query_plan_def split: prod.split)

theorem enriched_perspective_settled:
  "perspective_settled infer_marketplace_target_ad_type (qa_query qa) (target_ad_type p)
     (target_ad_type (enrich_query_plan fuzzy MARKETPLACE_SEARCH_POLICY vi qa p))"
proof -
  have policy: "infer_target_ad_type MARKETPLACE_SEARCH_POLICY = infer_marketplace_target_ad_type"
    by (simp add: MARKETPLACE_SEARCH_POLICY_def)
  have settled: "settle_ad_type MARKETPLACE_SEARCH_POLICY = marketplace_policy.settle"
    by (intro ext) (simp only: settle_ad_type_def marketplace_policy.settle_def)
  show ?thesis
    using marketplace_policy.settle_settled [of "qa_query qa" "target_ad_type p"]
    unfolding enriched_ad_type settled unfolding policy .
qed

subsection \<open>The fast paths\<close>

definition corrected_text :: "bool \<Rightarrow> value_index \<Rightarrow> string \<Rightarrow> string \<times> correction list" where
  "corrected_text fuzzy vi query =
     correct_retail (extract_sort_order query) (correct_explicit_query_typos fuzzy query vi)"

definition fast_analysis :: "search_policy \<Rightarrow> value_index \<Rightarrow> (string, string) dict \<Rightarrow> analysis_cache option
    \<Rightarrow> string \<Rightarrow> query_analysis" where
  "fast_analysis sp vi aliases cache query = fst (cached_analysis (normalize_query sp) query vi aliases cache)"

lemma branch_consistent_fee [simp]:
  "branch_consistent vi (AList.update ''max_rental_fee'' v fs) inferred relaxed = branch_consistent vi fs inferred relaxed"
  by (simp add: branch_consistent_def)

lemma plan_evidenced_fee [simp]:
  "plan_evidenced fuzzy sp vi qa (AList.update ''max_rental_fee'' v fs) = plan_evidenced fuzzy sp vi qa fs"
proof -
  have "\<not> is_location_key ''max_rental_fee''" by (simp add: is_location_key_def)
  then have "is_location_key key \<Longrightarrow> text_at (AList.update ''max_rental_fee'' v fs) key = text_at fs key" for key
    by auto
  then show ?thesis by (auto simp: plan_evidenced_def)
qed

lemma new_default_has_categories: "has_categories (inferred_categories (new_plan (default_query_plan query reason)))"
  by (simp add: new_plan_def query_plan.defs)

definition deterministic_promise ::
    "bool \<Rightarrow> search_policy \<Rightarrow> value_index \<Rightarrow> (string, string) dict \<Rightarrow> analysis_cache option
      \<Rightarrow> string \<Rightarrow> plan \<Rightarrow> bool" where
  "deterministic_promise fuzzy sp vi aliases cache query p \<longleftrightarrow>
     list_all (explained (plan_filters p) (sort_order p))
           (word_tokens (residual_text (plan_filters p) (fst (corrected_text fuzzy vi query))))
    \<and> (truthy (dget (plan_filters p) ''main_category'') \<or> truthy (dget (plan_filters p) ''subcategory''))
    \<and> \<not> has_natural_search_intent sp (fst (correct_explicit_query_typos fuzzy query vi))
    \<and> semantic_query p = query \<and> keyword_query p = query
    \<and> query_corrections p = snd (corrected_text fuzzy vi query)
    \<and> branch_consistent vi (plan_filters p) (inferred_categories p) (relaxed_categories p)
    \<and> plan_evidenced fuzzy sp vi (fast_analysis sp vi aliases cache (fst (corrected_text fuzzy vi query))) (plan_filters p)"

lemma explained_plan:
  assumes "fst (deterministic_filter_query_plan fuzzy sp vi aliases cache query) = Some p"
  shows "deterministic_promise fuzzy sp vi aliases cache query p"
proof -
  obtain text0 corrections0 where typos: "correct_explicit_query_typos fuzzy query vi = (text0, corrections0)"
    by (metis prod.exhaust)
  obtain body corrections where fixed: "correct_retail (extract_sort_order query) (text0, corrections0) = (body, corrections)"
    by (metis prod.exhaust)
  obtain qa cache' where qa: "cached_analysis (normalize_query sp) body vi aliases cache = (qa, cache')"
    by (metis prod.exhaust)
  define e where "e = enrich_query_plan fuzzy sp vi qa (new_plan (default_query_plan body None))"
  define fs where "fs = (if dget (plan_filters e) ''min_rental_fee'' = VNone \<and> dget (plan_filters e) ''max_rental_fee'' = VNone
      then AList.update ''max_rental_fee'' (of_number (extract_standalone_budget body)) (plan_filters e) else plan_filters e)"
  have gates: "\<not> has_natural_search_intent sp text0"
      "list_ex (\<lambda>key. truthy (dget (plan_filters e) key)) [''main_category'', ''subcategory'']"
      "list_all (explained fs (sort_order e)) (word_tokens (residual_text fs body))"
    and p: "p = e\<lparr>plan_filters := fs, semantic_query := query, keyword_query := query,
       query_corrections := corrections, execution_path := Some ''deterministic_filter'',
       route_reason := Some ''complete_structured_catalog_match''\<rparr>"
    using assms unfolding deterministic_filter_query_plan_def Let_def typos fixed qa prod.case
      e_def [symmetric] fs_def [symmetric] by (auto split: if_splits)
  have fs_get: "dget fs k = dget (plan_filters e) k" if "k \<noteq> ''max_rental_fee''" for k
    using that by (simp add: fs_def dget_upd)
  have branch: "branch_consistent vi fs (inferred_categories e) (relaxed_categories e)"
    using enrich_branch [of vi fuzzy sp qa] by (simp add: fs_def e_def)
  have evid: "plan_evidenced fuzzy sp vi qa fs"
    using hard_filters_evidenced [OF new_default_has_categories] by (simp add: fs_def e_def)
  show ?thesis
    using gates branch evid by (simp add: deterministic_promise_def p corrected_text_def typos fixed fast_analysis_def qa fs_get)
qed

theorem deterministic_plan_explained:
  assumes "fst (deterministic_filter_query_plan fuzzy sp vi aliases cache query) = Some p"
  shows "deterministic_promise fuzzy sp vi aliases cache query p"
  by (rule explained_plan [OF assms])

text \<open>A direct plan carries categories only; all else is left to the vector search.\<close>

lemma structured_filters_none:
  assumes "structured_filters fs = []" "\<not> is_category_key k"
  shows "dget fs k = VNone"
proof (cases "map_of fs k")
  case (Some v)
  then have "(k, v) \<in> set fs" by (rule map_of_SomeD)
  then have "v = VNone" using assms by (auto simp: structured_filters_def filter_empty_conv)
  then show ?thesis by (simp add: dget_def Some)
qed (simp add: dget_def)

definition direct_promise ::
    "bool \<Rightarrow> search_policy \<Rightarrow> value_index \<Rightarrow> (string, string) dict \<Rightarrow> analysis_cache option
      \<Rightarrow> string \<Rightarrow> plan \<Rightarrow> bool" where
  "direct_promise fuzzy sp vi aliases cache query p \<longleftrightarrow>
     (\<forall>key. is_category_key key \<or> dget (plan_filters p) key = VNone)
    \<and> direct_refusal fuzzy sp vi query (fast_analysis sp vi aliases cache query)
         (routing_of sp vi query (fast_analysis sp vi aliases cache query)) = None
    \<and> route_reason p = Some (snd (fst (direct_semantic_query_plan fuzzy sp vi aliases cache query)))
    \<and> branch_consistent vi (plan_filters p) (inferred_categories p) (relaxed_categories p)
    \<and> plan_evidenced fuzzy sp vi (fast_analysis sp vi aliases cache query) (plan_filters p)"

lemma unstructured_plan:
  assumes "fst (fst (direct_semantic_query_plan fuzzy sp vi aliases cache query)) = Some p"
  shows "direct_promise fuzzy sp vi aliases cache query p"
proof -
  obtain qa cache' where qa: "cached_analysis (normalize_query sp) query vi aliases cache = (qa, cache')"
    by (metis prod.exhaust)
  define e where "e = enrich_query_plan fuzzy sp vi qa (new_plan (default_query_plan query None))"
  define reason where "reason = direct_reason qa (routing_of sp vi query qa) (target_ad_type e)"
  have gates: "direct_refusal fuzzy sp vi query qa (routing_of sp vi query qa) = None"
      "structured_filters (plan_filters e) = []"
    and p: "p = e\<lparr>execution_path := Some ''direct_semantic'', route_reason := Some reason\<rparr>"
    and answer: "snd (fst (direct_semantic_query_plan fuzzy sp vi aliases cache query)) = reason"
    using assms unfolding direct_semantic_query_plan_def Let_def qa prod.case
      e_def [symmetric] reason_def [symmetric] by (auto split: option.splits if_splits)
  have branch: "branch_consistent vi (plan_filters e) (inferred_categories e) (relaxed_categories e)"
    unfolding e_def by (rule enrich_branch)
  have evid: "plan_evidenced fuzzy sp vi qa (plan_filters e)"
    unfolding e_def by (rule hard_filters_evidenced [OF new_default_has_categories])
  show ?thesis
    using gates(1) branch evid structured_filters_none [OF gates(2)]
    by (auto simp: direct_promise_def p answer fast_analysis_def qa)
qed

theorem direct_plan_unstructured:
  assumes "fst (fst (direct_semantic_query_plan fuzzy sp vi aliases cache query)) = Some p"
  shows "direct_promise fuzzy sp vi aliases cache query p"
  by (rule unstructured_plan [OF assms])

subsection \<open>The prompt cache\<close>

fun run_prompts :: "(string \<times> string \<times> string) list \<Rightarrow> prompt_cache \<Rightarrow> (string \<times> string) list \<times> prompt_cache" where
  "run_prompts [] cache = ([], cache)"
| "run_prompts ((i, c, cat) # rs) cache =
     (let (parts, cache') = cached_prompt i c cat cache; (rest, cache'') = run_prompts rs cache'
      in (parts # rest, cache''))"

definition prompt_cache_ok :: "prompt_cache \<Rightarrow> bool" where
  "prompt_cache_ok cache \<longleftrightarrow> length cache \<le> STATIC_PROMPT_LIMIT \<and> distinct (map fst cache)
     \<and> (\<forall>i c cat parts. ((i, c, cat), parts) \<in> set cache \<longrightarrow> parts = static_prompt i c cat)"

lemma length_update_new: "map_of d k = None \<Longrightarrow> length (AList.update k v d) = Suc (length d)"
  by (induction d) (auto split: if_splits)

lemma cached_prompt_ok:
  assumes "prompt_cache_ok cache" "cached_prompt i c cat cache = (parts, cache')"
  shows "parts = static_prompt (strip i) (strip c) cat \<and> prompt_cache_ok cache'"
proof (cases "map_of cache (strip i, strip c, cat)")
  case (Some x)
  then have here: "parts = x" "cache' = cache" using assms(2) by (auto simp: cached_prompt_def)
  have "((strip i, strip c, cat), x) \<in> set cache" using Some by (rule map_of_SomeD)
  then have "x = static_prompt (strip i) (strip c) cat" using assms(1) unfolding prompt_cache_ok_def by blast
  then show ?thesis using assms(1) here by simp
next
  case None
  define room where "room = (if STATIC_PROMPT_LIMIT \<le> length cache then tl cache else cache)"
  have parts: "parts = static_prompt (strip i) (strip c) cat"
    and cache': "cache' = AList.update (strip i, strip c, cat) parts room"
    using assms(2) None by (auto simp: cached_prompt_def Let_def room_def)
  have sub: "set room \<subseteq> set cache" and dist: "distinct (map fst room)" and short: "length room < STATIC_PROMPT_LIMIT"
    using assms(1) unfolding prompt_cache_ok_def room_def
    by (auto simp: distinct_tl map_tl STATIC_PROMPT_LIMIT_def dest: list.set_sel(2)[rotated])
  have fresh: "map_of room (strip i, strip c, cat) = None"
    using None sub by (metis (no_types, lifting) domIff dom_map_of_conv_image_fst image_mono subsetD)
  have "length cache' \<le> STATIC_PROMPT_LIMIT" using short by (simp add: cache' length_update_new [OF fresh])
  moreover have "distinct (map fst cache')" using dist by (simp add: cache' distinct_update)
  moreover have "q = static_prompt a b d" if "((a, b, d), q) \<in> set cache'" for a b d q
    using set_update_cases [OF that [unfolded cache']]
  proof
    assume "((a, b, d), q) \<in> set room"
    then have "((a, b, d), q) \<in> set cache" using sub by blast
    then show ?thesis using assms(1) unfolding prompt_cache_ok_def by blast
  qed (simp add: parts)
  ultimately show ?thesis by (simp add: prompt_cache_ok_def parts)
qed

lemma run_prompts_ok:
  "prompt_cache_ok cache \<Longrightarrow> run_prompts rs cache = (answers, cache') \<Longrightarrow>
    answers = map (\<lambda>(i, c, cat). static_prompt (strip i) (strip c) cat) rs \<and> prompt_cache_ok cache'"
proof (induction rs cache arbitrary: answers rule: run_prompts.induct)
  case (2 i c cat rs cache)
  obtain parts cache1 where one: "cached_prompt i c cat cache = (parts, cache1)" by (metis prod.exhaust)
  obtain rest where rest: "run_prompts rs cache1 = (rest, cache')" "answers = parts # rest"
    using 2(3) by (auto simp: one split: prod.splits)
  show ?case
    using cached_prompt_ok [OF 2(2) one] 2(1) [OF one [symmetric] refl _ rest(1)] rest(2) by simp
qed simp

theorem prompt_cache_transparent:
  "fst (run_prompts rs []) = map (\<lambda>(i, c, cat). static_prompt (strip i) (strip c) cat) rs
   \<and> length (snd (run_prompts rs [])) \<le> 128"
proof -
  have "prompt_cache_ok []" by (simp add: prompt_cache_ok_def)
  from run_prompts_ok [OF this prod.collapse [symmetric]] show ?thesis
    by (simp add: prompt_cache_ok_def STATIC_PROMPT_LIMIT_def)
qed

end
