(* ===== verification/Planner_Examples.thy ===== *)
theory Planner_Examples
  imports Planner
begin

text \<open>
  Runs of the two fast paths of the planner on a catalogue with one car category, evaluated in
  the kernel, and the witnesses of the fast-path properties at these runs.
\<close>

definition one_car :: value_index where
  "one_car = \<lparr>vi_values = [(''subcategory'', [(''car'', ''Car'')])],
     vi_subcategory_main = [(''car'', ''Automobiles'')], vi_city_state = [], vi_locality_location = []\<rparr>"

lemma car_browse:
  "map_option plan_filters
      (fst (deterministic_filter_query_plan False DEFAULT_SEARCH_POLICY one_car [] None ''car'')) =
    Some [(''main_category'', VStr ''Automobiles''), (''subcategory'', VStr ''Car''), (''state'', VNone),
      (''city'', VNone), (''locality'', VNone), (''rental_duration'', VNone), (''user_gender'', VNone),
      (''min_rental_fee'', VNone), (''max_rental_fee'', VNone)]"
  by code_simp

lemma car_direct:
  "map_option route_reason
      (fst (fst (direct_semantic_query_plan False DEFAULT_SEARCH_POLICY one_car [] None ''car''))) =
    Some (Some ''objective_catalog_phrase'')"
  by code_simp

theorem deterministic_plan_explained_witness:
  "\<exists>p. fst (deterministic_filter_query_plan False DEFAULT_SEARCH_POLICY one_car [] None ''car'') = Some p
    \<and> text_at (plan_filters p) ''main_category'' = Some ''Automobiles''
    \<and> \<not> has_natural_search_intent DEFAULT_SEARCH_POLICY (fst (correct_explicit_query_typos False ''car'' one_car))
    \<and> semantic_query p = ''car''"
proof -
  obtain p where p: "fst (deterministic_filter_query_plan False DEFAULT_SEARCH_POLICY one_car [] None ''car'') = Some p"
    and fs: "text_at (plan_filters p) ''main_category'' = Some ''Automobiles''"
    using car_browse by (auto simp: text_at_def dget_def)
  show ?thesis
    by (intro exI [of _ p] conjI p fs)
      (use deterministic_plan_explained [OF p] in \<open>auto simp: deterministic_promise_def\<close>)+
qed

theorem direct_plan_unstructured_witness:
  "\<exists>p. fst (fst (direct_semantic_query_plan False DEFAULT_SEARCH_POLICY one_car [] None ''car'')) = Some p
    \<and> dget (plan_filters p) ''city'' = VNone
    \<and> route_reason p = Some (snd (fst (direct_semantic_query_plan False DEFAULT_SEARCH_POLICY one_car [] None ''car'')))"
proof -
  obtain p where p: "fst (fst (direct_semantic_query_plan False DEFAULT_SEARCH_POLICY one_car [] None ''car'')) = Some p"
    using car_direct by auto
  have "\<not> is_category_key ''city''" by (simp add: is_category_key_def)
  then show ?thesis
    by (intro exI [of _ p] conjI p) (use direct_plan_unstructured [OF p] in \<open>auto simp: direct_promise_def\<close>)+
qed

end
