(* ===== verification/Ranking.thy ===== *)
theory Ranking
  imports Planner
begin

text \<open>
  \<open>SearchRankingMixin\<close> of \<open>search/ranking.py\<close>: the reranker query with its context, the
  relevance floors, and the fusion fallback when the reranker fails. The reranker itself is an
  argument: \<open>score\<close> with its state, and the name of the provider that answered last. Log lines
  and timings are left out.
\<close>

record ranking =
  rk_results :: "ranked_item list"
  rk_provider :: string
  rk_degraded :: bool
  rk_error :: "string option"

record floor_settings =
  reranker_min_score_by_provider :: "(string, pyfloat) dict"
  reranker_relative_score_floor :: pyfloat

subsection \<open>The reranker query\<close>

definition category_hint_values :: "pydict \<Rightarrow> string list" where
  "category_hint_values inferred =
     List.map_filter (\<lambda>key. case text_at inferred key of
         None \<Rightarrow> None | Some v \<Rightarrow> if v = [] then None else Some v) [''main_category'', ''subcategory'']"

definition rerank_context_lines :: "search_policy \<Rightarrow> string \<Rightarrow> plan \<Rightarrow> string list" where
  "rerank_context_lines sp query p =
     (if keyword_query p \<noteq> [] \<and> casefold (keyword_query p) \<noteq> casefold query
      then [''Search concepts: '' @ keyword_query p] else [])
     @ (if category_hint_values (inferred_categories p) = [] then []
        else [''Possible catalog categories: ''
          @ join '', '' (dedup (category_hint_values (inferred_categories p)))])
     @ (case rerank_context sp (Some (query_plan.truncate p)) of
          None \<Rightarrow> [] | Some line \<Rightarrow> if line = [] then [] else [line])"

definition ranking_query :: "search_policy \<Rightarrow> string \<Rightarrow> plan option \<Rightarrow> string" where
  "ranking_query sp query plan_opt =
     (case plan_opt of
        None \<Rightarrow> query
      | Some p \<Rightarrow>
          if rerank_context_lines sp query p = [] then query
          else query @ newline @ join newline (rerank_context_lines sp query p))"

subsection \<open>Fallback and floors\<close>

definition fallback_score :: "nat \<times> candidate \<Rightarrow> pyfloat" where
  "fallback_score pc = (case fusion_score (snd pc) of
     Some s \<Rightarrow> s | None \<Rightarrow> 1 / of_nat (fst pc))"

definition fusion_fallback_results :: "candidate list \<Rightarrow> nat \<Rightarrow> ranked_item list" where
  "fusion_fallback_results candidates top_k =
     map ranked_of (take top_k (prioritize_verified relevance_band
       (map (\<lambda>pc. (snd pc, fallback_score pc)) (enumerate 1 candidates))))"

definition cutoffs :: "floor_settings \<Rightarrow> string \<Rightarrow> pyfloat \<Rightarrow> pyfloat list" where
  "cutoffs cfg provider top_score =
     (case map_of (reranker_min_score_by_provider cfg) (casefold provider) of
        None \<Rightarrow> [] | Some f \<Rightarrow> [f])
     @ (if reranker_relative_score_floor cfg > 0 \<and> top_score > 0
        then [top_score * reranker_relative_score_floor cfg] else [])"

definition apply_floors :: "floor_settings \<Rightarrow> string \<Rightarrow> ranked_item list \<Rightarrow> ranked_item list" where
  "apply_floors cfg provider results =
     (case results of
        [] \<Rightarrow> []
      | r # _ \<Rightarrow>
          (case cutoffs cfg provider (item_score r) of
             [] \<Rightarrow> results
           | c # cs \<Rightarrow> filter (\<lambda>x. fold max cs c \<le> item_score x) results))"

subsection \<open>rank\<close>

text \<open>
  \<open>ensure_reranker\<close> returns the loaded reranker or raises; \<open>rank\<close> turns every exception of the
  reranking into the fallback.
\<close>

definition ensure_reranker :: "(py_error + 'r) \<Rightarrow> 'r option \<Rightarrow> 'r option option \<Rightarrow> py_error + 'r" where
  "ensure_reranker loaded own shared =
     (case own of
        Some r \<Rightarrow> Inr r
      | None \<Rightarrow> (case shared of Some slot \<Rightarrow> fst (shared_ensure loaded slot) | None \<Rightarrow> loaded))"

definition rank ::
    "floor_settings \<Rightarrow> search_policy \<Rightarrow> (pair list \<Rightarrow> 'r \<Rightarrow> (py_error + pyfloat list) \<times> 'r) \<Rightarrow> ('r \<Rightarrow> string)
      \<Rightarrow> nat \<Rightarrow> string \<Rightarrow> candidate list \<Rightarrow> plan option \<Rightarrow> nat option \<Rightarrow> py_error + 'r
      \<Rightarrow> py_error + ranking \<times> 'r" where
  "rank cfg sp score provider_of default_top_k query candidates plan_opt top_k ensured =
     (case ensured of
        Inl e \<Rightarrow> Inl e
      | Inr r \<Rightarrow>
          (let k = (case top_k of None \<Rightarrow> default_top_k | Some n \<Rightarrow> n);
               rq = ranking_query sp query plan_opt;
               r' = (if candidates = [] then r else snd (score (map (\<lambda>c. (rq, cand_text c)) candidates) r))
           in Inr (case rerank rq candidates (\<lambda>ps. fst (score ps r)) k (Some k) of
                Inl e \<Rightarrow> \<lparr>rk_results = fusion_fallback_results candidates k,
                   rk_provider = ''fusion_fallback'', rk_degraded = True, rk_error = Some (error_text e)\<rparr>
              | Inr results \<Rightarrow> \<lparr>rk_results = apply_floors cfg (provider_of r') results,
                   rk_provider = provider_of r', rk_degraded = False, rk_error = None\<rparr>, r')))"

subsection \<open>What rank promises\<close>

definition item_of :: "ranked_item \<Rightarrow> candidate \<Rightarrow> bool" where
  "item_of x c \<longleftrightarrow> item_id x = cand_id c \<and> item_text x = cand_text c \<and> item_metadata x = cand_metadata c"

lemma ranked_of_item: "item_of (ranked_of (c, s)) c"
  by (simp add: item_of_def ranked_of_def)

lemma set_prioritize: "set (prioritize_verified rb xs) = set xs"
  by (metis mset_prioritize set_mset_mset)

lemma set_rerank_order: "set (rerank_order k xs) = set xs"
  by (metis mset_rerank_order set_mset_mset)

lemma rerank_items:
  assumes "rerank q cands f k d = Inr res" "x \<in> set res"
  shows "\<exists>c \<in> set cands. item_of x c"
proof -
  have "\<exists>order scores. res = map ranked_of (take k order) \<and> set order \<subseteq> set (zip cands scores)"
    using assms by (cases "cands = []")
      (auto simp: rerank_def Let_def intro!: exI simp: set_rerank_order set_prioritize split: sum.splits)
  then obtain order scores where "res = map ranked_of (take k order)" "set order \<subseteq> set (zip cands scores)"
    by blast
  then obtain c s where "x = ranked_of (c, s)" "(c, s) \<in> set (zip cands scores)"
    using assms(2) by (auto dest: in_set_takeD)
  then show ?thesis using ranked_of_item set_zip_leftD by metis
qed

lemma rerank_short: "rerank q cands f k d = Inr res \<Longrightarrow> length res \<le> k"
  by (auto simp: rerank_def Let_def split: if_splits sum.splits)

lemma fallback_items:
  "x \<in> set (fusion_fallback_results cands k) \<Longrightarrow> \<exists>c \<in> set cands. item_of x c"
  by (force simp: fusion_fallback_results_def item_of_def ranked_of_def set_prioritize in_set_enumerate_eq
      dest!: in_set_takeD intro: nth_mem)

lemma fallback_length: "length (fusion_fallback_results cands k) = min k (length cands)"
  by (simp add: fusion_fallback_results_def)

lemma fold_max_le: "fold max cs (c :: pyfloat) \<le> b \<longleftrightarrow> c \<le> b \<and> (\<forall>x \<in> set cs. x \<le> b)"
  by (induction cs arbitrary: c) auto

lemma apply_floors_iff:
  "x \<in> set (apply_floors cfg provider (r # rs)) \<longleftrightarrow>
    x \<in> set (r # rs) \<and> (\<forall>c \<in> set (cutoffs cfg provider (item_score r)). c \<le> item_score x)"
  by (cases "cutoffs cfg provider (item_score r)") (auto simp: apply_floors_def fold_max_le)

lemma apply_floors_sub: "set (apply_floors cfg provider rs) \<subseteq> set rs \<and> length (apply_floors cfg provider rs) \<le> length rs"
  by (cases rs) (auto simp: apply_floors_def le_SucI split: list.split)

text \<open>
  A page of ranked items: at most \<open>k\<close>, each one of the candidates. A degraded page has all the
  candidates there is room for; the other is the reranker's order above every floor.
\<close>

definition ranking_sound :: "floor_settings \<Rightarrow> candidate list \<Rightarrow> nat \<Rightarrow> py_error + ranked_item list \<Rightarrow> ranking \<Rightarrow> bool" where
  "ranking_sound cfg cands k reranked out \<longleftrightarrow>
     length (rk_results out) \<le> k
     \<and> (\<forall>x \<in> set (rk_results out). \<exists>c \<in> set cands. item_of x c)
     \<and> rk_degraded out = (\<exists>e. reranked = Inl e)
     \<and> (rk_degraded out \<longrightarrow> length (rk_results out) = min k (length cands))
     \<and> (\<forall>r rs. reranked = Inr (r # rs) \<longrightarrow> (\<forall>x. x \<in> set (rk_results out) \<longleftrightarrow>
          x \<in> set (r # rs) \<and> (\<forall>c \<in> set (cutoffs cfg (rk_provider out) (item_score r)). c \<le> item_score x)))"

theorem rank_never_fails_on_scoring:
  "case rank cfg sp score provider_of default_k query cands plan_opt top_k ensured of
     Inl e \<Rightarrow> ensured = Inl e
   | Inr (out, r') \<Rightarrow> \<exists>r. ensured = Inr r \<and>
       ranking_sound cfg cands (case top_k of None \<Rightarrow> default_k | Some n \<Rightarrow> n)
         (rerank (ranking_query sp query plan_opt) cands (\<lambda>ps. fst (score ps r))
            (case top_k of None \<Rightarrow> default_k | Some n \<Rightarrow> n)
            (Some (case top_k of None \<Rightarrow> default_k | Some n \<Rightarrow> n))) out"
proof (cases ensured)
  case (Inr r)
  define k where "k = (case top_k of None \<Rightarrow> default_k | Some n \<Rightarrow> n)"
  define q where "q = ranking_query sp query plan_opt"
  show ?thesis
  proof (cases "rerank q cands (\<lambda>ps. fst (score ps r)) k (Some k)")
    case (Inl e)
    then show ?thesis
      by (simp add: Inr rank_def Let_def k_def [symmetric] q_def [symmetric] ranking_sound_def
          fallback_length fallback_items)
  next
    case res: (Inr results)
    have items: "\<exists>c \<in> set cands. item_of x c" if "x \<in> set (apply_floors cfg p results)" for x p
      using that apply_floors_sub [of cfg p results] rerank_items [OF res] by blast
    have short: "length (apply_floors cfg p results) \<le> k" for p
      using apply_floors_sub [of cfg p results] rerank_short [OF res] by linarith
    show ?thesis
      using items short
      by (simp add: Inr res rank_def Let_def k_def [symmetric] q_def [symmetric] ranking_sound_def
          apply_floors_iff)
  qed
qed (simp add: rank_def)

text \<open>A relative floor alone never empties a page.\<close>

theorem relative_floor_keeps_best:
  assumes "reranker_relative_score_floor cfg \<le> 1"
    and "map_of (reranker_min_score_by_provider cfg) (casefold provider) = None"
    and "results \<noteq> []"
  shows "hd results \<in> set (apply_floors cfg provider results)"
proof -
  obtain r rs where results: "results = r # rs" using assms(3) by (cases results) auto
  have "item_score r * reranker_relative_score_floor cfg \<le> item_score r" if "0 < item_score r"
    using assms(1) that by (simp add: mult_left_le)
  then show ?thesis
    using assms(2) by (simp add: results apply_floors_iff cutoffs_def)
qed

end
