(* ===== verification/Engine_Plan.thy ===== *)
theory Engine_Plan
  imports Ranking
begin

text \<open>
  Planning in \<open>search/engine_support.py\<close>: \<open>plan\<close> (deterministic, direct and hosted route, then
  filter resolution) and the plan cache in front of it, a bounded least-recently-used memory
  with expiry over a shared store. The shared store, the clock and the hosted model are
  arguments; the lock around the memory cache makes each of its operations one step.
\<close>

named_theorems engine_facts \<open>facts of the search engine\<close>

record planned =
  pd_plan :: plan
  pd_resolved :: filters
  pd_unresolved :: pydict

record engine_config =
  fuzzy_matching :: bool
  deterministic_fast_path :: bool
  direct_semantic_fast_path :: bool
  planner_enabled :: bool
  planner_prompt_context :: string
  planner_query_aliases :: "(string, string) dict"
  catalog_json :: string
  plan_cache_size :: int
  plan_cache_ttl :: pyfloat
  planner_cache_fingerprint :: string

subsection \<open>plan without the cache\<close>

type_synonym hosted_model = "string \<Rightarrow> string \<Rightarrow> py_error + string"

definition hosted_plan ::
    "engine_config \<Rightarrow> search_policy \<Rightarrow> hosted_model \<Rightarrow> (string \<Rightarrow> py_error + pyval) \<Rightarrow> prompt_cache
      \<Rightarrow> string \<Rightarrow> (py_error + query_plan) \<times> prompt_cache" where
  "hosted_plan cfg sp model json_loads prompts query =
     (if planner_enabled cfg
      then extract_query_plan model json_loads (normalize_query sp) (planner_query_aliases cfg)
        (planner_instructions sp) (planner_prompt_context cfg) (catalog_json cfg) prompts query
      else (Inr (default_query_plan query None), prompts))"

definition semantic_plan ::
    "engine_config \<Rightarrow> search_policy \<Rightarrow> value_index \<Rightarrow> analysis_cache option \<Rightarrow> string \<Rightarrow> string
      \<Rightarrow> query_plan \<Rightarrow> plan" where
  "semantic_plan cfg sp vi cache refused query base =
     (let (qa, _) = cached_analysis (normalize_query sp) query vi (planner_query_aliases cfg) cache
      in (enrich_query_plan (fuzzy_matching cfg) sp vi qa (new_plan base))
           \<lparr>execution_path := Some ''semantic'',
            route_reason := Some (if direct_semantic_fast_path cfg then ''llm_required:'' @ refused
              else ''llm_required:direct_path_disabled'')\<rparr>)"

definition browse_route ::
    "engine_config \<Rightarrow> search_policy \<Rightarrow> value_index \<Rightarrow> string \<Rightarrow> plan option \<times> analysis_cache option" where
  "browse_route cfg sp vi query =
     (if deterministic_fast_path cfg
      then deterministic_filter_query_plan (fuzzy_matching cfg) sp vi [] (Some []) query
      else (None, Some []))"

definition direct_route ::
    "engine_config \<Rightarrow> search_policy \<Rightarrow> value_index \<Rightarrow> analysis_cache option \<Rightarrow> string
      \<Rightarrow> (plan option \<times> string) \<times> analysis_cache option" where
  "direct_route cfg sp vi cache query =
     (if direct_semantic_fast_path cfg
      then direct_semantic_query_plan (fuzzy_matching cfg) sp vi (planner_query_aliases cfg) cache query
      else ((None, ''deterministic_match''), cache))"

definition route_plan ::
    "engine_config \<Rightarrow> search_policy \<Rightarrow> value_index \<Rightarrow> hosted_model \<Rightarrow> (string \<Rightarrow> py_error + pyval)
      \<Rightarrow> prompt_cache \<Rightarrow> string \<Rightarrow> (py_error + plan) \<times> prompt_cache" where
  "route_plan cfg sp vi model json_loads prompts query =
     (case browse_route cfg sp vi query of
        (Some p, cache1) \<Rightarrow> (Inr p, prompts)
      | (None, cache1) \<Rightarrow>
          (case direct_route cfg sp vi cache1 query of
             ((Some p, reason), cache2) \<Rightarrow> (Inr p, prompts)
           | ((None, reason), cache2) \<Rightarrow>
               (case hosted_plan cfg sp model json_loads prompts query of
                  (Inl e, prompts') \<Rightarrow> (Inl e, prompts')
                | (Inr base, prompts') \<Rightarrow>
                    (Inr (semantic_plan cfg sp vi cache2 reason query base), prompts'))))"

definition resolve_plan :: "value_index \<Rightarrow> plan \<Rightarrow> planned" where
  "resolve_plan vi p =
     (case resolve_query_filters (plan_filters p) vi of
        (resolved, unresolved) \<Rightarrow> \<lparr>pd_plan = p, pd_resolved = resolved, pd_unresolved = unresolved\<rparr>)"

definition compute_plan ::
    "engine_config \<Rightarrow> search_policy \<Rightarrow> value_index \<Rightarrow> hosted_model \<Rightarrow> (string \<Rightarrow> py_error + pyval)
      \<Rightarrow> prompt_cache \<Rightarrow> string \<Rightarrow> (py_error + planned) \<times> prompt_cache" where
  "compute_plan cfg sp vi model json_loads prompts query =
     (case route_plan cfg sp vi model json_loads prompts query of
        (Inl e, prompts') \<Rightarrow> (Inl e, prompts')
      | (Inr p, prompts') \<Rightarrow> (Inr (resolve_plan vi p), prompts'))"

subsection \<open>The plan cache\<close>

type_synonym 'v plan_memory = "(string, pyfloat \<times> 'v) dict"

text \<open>The shared store: reading may fail and give nothing, storing may fail silently.\<close>

record ('v, 's) shared_store =
  store_get :: "string \<Rightarrow> 's \<Rightarrow> 'v option \<times> 's"
  store_set :: "string \<Rightarrow> 'v \<Rightarrow> 's \<Rightarrow> 's"

definition query_cache_key :: "engine_config \<Rightarrow> string \<Rightarrow> string" where
  "query_cache_key cfg query = planner_cache_fingerprint cfg @ '':'' @ norm_text query"

definition cache_off :: "engine_config \<Rightarrow> bool" where
  "cache_off cfg \<longleftrightarrow> plan_cache_size cfg \<le> 0 \<or> plan_cache_ttl cfg \<le> 0"

definition cache_memory_plan :: "engine_config \<Rightarrow> pyfloat \<Rightarrow> string \<Rightarrow> 'v \<Rightarrow> 'v plan_memory \<Rightarrow> 'v plan_memory" where
  "cache_memory_plan cfg now key v m =
     (let m' = move_to_end key (now + plan_cache_ttl cfg, v) m
      in drop (length m' - nat (plan_cache_size cfg)) m')"

definition memory_plan :: "pyfloat \<Rightarrow> string \<Rightarrow> 'v plan_memory \<Rightarrow> 'v option \<times> 'v plan_memory" where
  "memory_plan now key m =
     (case map_of m key of
        None \<Rightarrow> (None, m)
      | Some (expires, v) \<Rightarrow>
          if now < expires then (Some v, move_to_end key (expires, v) m)
          else (None, filter (\<lambda>kv. fst kv \<noteq> key) m))"

definition cached_plan ::
    "engine_config \<Rightarrow> ('v, 's) shared_store option \<Rightarrow> pyfloat \<Rightarrow> string \<Rightarrow> 'v plan_memory \<times> 's
      \<Rightarrow> 'v option \<times> ('v plan_memory \<times> 's)" where
  "cached_plan cfg store now query st =
     (if cache_off cfg then (None, st)
      else (case st of (m, s) \<Rightarrow>
        (case memory_plan now (query_cache_key cfg query) m of
           (Some v, m') \<Rightarrow> (Some v, (m', s))
         | (None, m') \<Rightarrow>
             (case store of
                None \<Rightarrow> (None, (m', s))
              | Some ops \<Rightarrow>
                  (case store_get ops (query_cache_key cfg query) s of
                     (None, s') \<Rightarrow> (None, (m', s'))
                   | (Some v, s') \<Rightarrow>
                       (Some v, (cache_memory_plan cfg now (query_cache_key cfg query) v m', s')))))))"

definition cache_plan ::
    "engine_config \<Rightarrow> ('v, 's) shared_store option \<Rightarrow> pyfloat \<Rightarrow> string \<Rightarrow> 'v \<Rightarrow> 'v plan_memory \<times> 's
      \<Rightarrow> 'v plan_memory \<times> 's" where
  "cache_plan cfg store now query v st =
     (if cache_off cfg then st
      else (case st of (m, s) \<Rightarrow>
        (cache_memory_plan cfg now (query_cache_key cfg query) v m,
         case store of None \<Rightarrow> s | Some ops \<Rightarrow> store_set ops (query_cache_key cfg query) v s)))"

text \<open>\<open>plan\<close>: the planned result and whether it came from the cache.\<close>

definition engine_plan ::
    "engine_config \<Rightarrow> (planned, 's) shared_store option \<Rightarrow> pyfloat
      \<Rightarrow> (prompt_cache \<Rightarrow> string \<Rightarrow> (py_error + planned) \<times> prompt_cache)
      \<Rightarrow> string \<Rightarrow> prompt_cache \<times> planned plan_memory \<times> 's
      \<Rightarrow> (py_error + planned \<times> bool) \<times> (prompt_cache \<times> planned plan_memory \<times> 's)" where
  "engine_plan cfg store now compute query st =
     (case st of (prompts, cache) \<Rightarrow>
        (case cached_plan cfg store now query cache of
           (Some v, cache1) \<Rightarrow> (Inr (v, True), (prompts, cache1))
         | (None, cache1) \<Rightarrow>
             (case compute prompts query of
                (Inl e, prompts') \<Rightarrow> (Inl e, (prompts', cache1))
              | (Inr v, prompts') \<Rightarrow>
                  (Inr (v, False), (prompts',
                     if fallback_reason (pd_plan v) = None \<or> fallback_reason (pd_plan v) = Some []
                     then cache_plan cfg store now query v cache1 else cache1)))))"

subsection \<open>What a computed plan promises\<close>

definition planned_sound :: "engine_config \<Rightarrow> search_policy \<Rightarrow> value_index \<Rightarrow> string \<Rightarrow> planned \<Rightarrow> bool" where
  "planned_sound cfg sp vi query v \<longleftrightarrow>
     (let p = pd_plan v;
          c1 = snd (browse_route cfg sp vi query);
          c2 = snd (direct_route cfg sp vi c1 query);
          evidenced = (\<lambda>qa. plan_evidenced (fuzzy_matching cfg) sp vi qa (plan_filters p))
      in branch_consistent vi (plan_filters p) (inferred_categories p) (relaxed_categories p)
         \<and> (execution_path p = Some ''deterministic_filter''
               \<and> evidenced (fast_analysis sp vi [] (Some []) (fst (corrected_text (fuzzy_matching cfg) vi query)))
            \<or> execution_path p = Some ''direct_semantic''
               \<and> evidenced (fast_analysis sp vi (planner_query_aliases cfg) c1 query)
            \<or> execution_path p = Some ''semantic''
               \<and> evidenced (fast_analysis sp vi (planner_query_aliases cfg) c2 query))
         \<and> plain_filters (pd_resolved v)
         \<and> resolve_query_filters (plan_filters p) vi = (pd_resolved v, pd_unresolved v))"

lemma resolve_plan_fields [engine_facts]:
  "pd_plan (resolve_plan vi p) = p"
  "resolve_query_filters (plan_filters p) vi = (pd_resolved (resolve_plan vi p), pd_unresolved (resolve_plan vi p))"
  by (simp_all add: resolve_plan_def split: prod.split)

lemma semantic_plan_sound:
  assumes "has_categories (inferred_categories base)"
  shows "branch_consistent vi (plan_filters (semantic_plan cfg sp vi cache reason query base))
      (inferred_categories (semantic_plan cfg sp vi cache reason query base))
      (relaxed_categories (semantic_plan cfg sp vi cache reason query base))"
    and "plan_evidenced (fuzzy_matching cfg) sp vi (fast_analysis sp vi (planner_query_aliases cfg) cache query)
      (plan_filters (semantic_plan cfg sp vi cache reason query base))"
    and "execution_path (semantic_plan cfg sp vi cache reason query base) = Some ''semantic''"
proof -
  obtain qa c where qa: "cached_analysis (normalize_query sp) query vi (planner_query_aliases cfg) cache = (qa, c)"
    by (metis prod.exhaust)
  have "has_categories (inferred_categories (new_plan base))"
    using assms by (simp add: new_plan_def query_plan.defs)
  note evid = hard_filters_evidenced [OF this, of "fuzzy_matching cfg" sp vi qa]
  show "branch_consistent vi (plan_filters (semantic_plan cfg sp vi cache reason query base))
      (inferred_categories (semantic_plan cfg sp vi cache reason query base))
      (relaxed_categories (semantic_plan cfg sp vi cache reason query base))"
    by (simp add: semantic_plan_def qa enrich_branch)
  show "plan_evidenced (fuzzy_matching cfg) sp vi (fast_analysis sp vi (planner_query_aliases cfg) cache query)
      (plan_filters (semantic_plan cfg sp vi cache reason query base))"
    using evid by (simp add: semantic_plan_def fast_analysis_def qa)
  show "execution_path (semantic_plan cfg sp vi cache reason query base) = Some ''semantic''"
    by (simp add: semantic_plan_def qa)
qed

lemma hosted_plan_cases:
  assumes "hosted_plan cfg sp model json_loads prompts query = (r, prompts')"
  shows "case r of Inl e \<Rightarrow> \<not> planner_catches e | Inr base \<Rightarrow> has_categories (inferred_categories base)"
proof (cases "planner_enabled cfg")
  case True
  then have r: "fst (extract_query_plan model json_loads (normalize_query sp) (planner_query_aliases cfg)
      (planner_instructions sp) (planner_prompt_context cfg) (catalog_json cfg) prompts query) = r"
    using assms by (simp add: hosted_plan_def)
  show ?thesis
  proof (cases r)
    case (Inl e)
    then show ?thesis using extracted_errors [OF r [unfolded Inl]] by simp
  next
    case (Inr base)
    have "has_categories (inferred_categories base)"
      using r unfolding Inr by (cases rule: extracted_cases) (auto dest: parsed_has_categories)
    then show ?thesis by (simp add: Inr)
  qed
next
  case False
  then show ?thesis using assms by (auto simp: hosted_plan_def)
qed

lemma direct_execution_path:
  assumes "fst (fst (direct_semantic_query_plan fuzzy sp vi aliases cache query)) = Some p"
  shows "execution_path p = Some ''direct_semantic''"
  using assms by (auto simp: direct_semantic_query_plan_def Let_def split: prod.splits option.splits if_splits)

lemma deterministic_execution_path:
  assumes "fst (deterministic_filter_query_plan fuzzy sp vi aliases cache query) = Some p"
  shows "execution_path p = Some ''deterministic_filter''"
  using assms by (auto simp: deterministic_filter_query_plan_def Let_def split: prod.splits if_splits)


subsection \<open>The plan cache serves what was planned\<close>

text \<open>
  What is assumed of the shared store: reading yields nothing or a value it holds for the key,
  and storing adds at most that value. It may lose values at any time.
\<close>

definition honest_store :: "('v, 's) shared_store \<Rightarrow> ('s \<Rightarrow> (string \<times> 'v) set) \<Rightarrow> bool" where
  "honest_store ops holds \<longleftrightarrow>
     (\<forall>k s v s'. store_get ops k s = (v, s') \<longrightarrow>
        holds s' \<subseteq> holds s \<and> (\<forall>x. v = Some x \<longrightarrow> (k, x) \<in> holds s))
     \<and> (\<forall>k x s. holds (store_set ops k x s) \<subseteq> insert (k, x) (holds s))"

definition memory_ok :: "engine_config \<Rightarrow> (string \<times> 'v) set \<Rightarrow> 'v plan_memory \<Rightarrow> bool" where
  "memory_ok cfg known m \<longleftrightarrow> length m \<le> nat (plan_cache_size cfg) \<and> distinct (map fst m)
     \<and> (\<forall>k expires x. (k, expires, x) \<in> set m \<longrightarrow> (k, x) \<in> known)"

lemma memory_okI:
  assumes "length m \<le> nat (plan_cache_size cfg)" "distinct (map fst m)"
    "\<And>k expires x. (k, expires, x) \<in> set m \<Longrightarrow> (k, x) \<in> known"
  shows "memory_ok cfg known m"
  using assms unfolding memory_ok_def by blast

lemma memory_ok_mono: "memory_ok cfg known m \<Longrightarrow> known \<subseteq> known2 \<Longrightarrow> memory_ok cfg known2 m"
  unfolding memory_ok_def by blast

lemma cache_memory_plan_ok:
  assumes "memory_ok cfg known m" "(k, v) \<in> known" "\<not> cache_off cfg"
  shows "memory_ok cfg known (cache_memory_plan cfg now k v m)"
proof (rule memory_okI)
  let ?m = "move_to_end k (now + plan_cache_ttl cfg, v) m"
  have out: "cache_memory_plan cfg now k v m = drop (length ?m - nat (plan_cache_size cfg)) ?m"
    by (simp add: cache_memory_plan_def Let_def)
  have d: "distinct (map fst ?m)" using move_to_end_facts(1) assms(1) by (auto simp: memory_ok_def)
  show "length (cache_memory_plan cfg now k v m) \<le> nat (plan_cache_size cfg)" by (simp add: out)
  show "distinct (map fst (cache_memory_plan cfg now k v m))"
    using d by (simp add: out drop_map [symmetric] distinct_drop)
  fix k' e x assume "(k', e, x) \<in> set (cache_memory_plan cfg now k v m)"
  then have "(k', e, x) \<in> insert (k, now + plan_cache_ttl cfg, v) (set m)"
    using move_to_end_facts(2) [of k "(now + plan_cache_ttl cfg, v)" m] unfolding out
    by (blast dest: in_set_dropD)
  then show "(k', x) \<in> known" using assms(1,2) unfolding memory_ok_def by blast
qed

lemma memory_plan_ok:
  assumes "memory_ok cfg known m" "memory_plan now k m = (r, m')"
  shows "memory_ok cfg known m' \<and> (\<forall>x. r = Some x \<longrightarrow> (k, x) \<in> known)"
proof (cases "map_of m k")
  case None
  then show ?thesis using assms by (auto simp: memory_plan_def)
next
  case (Some w)
  obtain expires v where w: "w = (expires, v)" by (metis prod.exhaust)
  have in_m: "(k, expires, v) \<in> set m" using Some w by (auto dest: map_of_SomeD)
  then have v: "(k, v) \<in> known" using assms(1) unfolding memory_ok_def by blast
  show ?thesis
  proof (cases "now < expires")
    case True
    then have m': "m' = move_to_end k (expires, v) m" "r = Some v"
      using assms(2) Some w by (auto simp: memory_plan_def)
    have "set m' \<subseteq> set m" using move_to_end_facts(2) [of k "(expires, v)" m] in_m m'(1) by blast
    moreover have "length m' \<le> length m" "distinct (map fst m')"
      using move_to_end_facts(1,4) [of m k] assms(1) Some unfolding m'(1) memory_ok_def by auto
    ultimately have "memory_ok cfg known m'" using assms(1) unfolding memory_ok_def by (meson le_trans subsetD)
    then show ?thesis using v m'(2) by simp
  next
    case False
    then have m': "m' = filter (\<lambda>kv. fst kv \<noteq> k) m" "r = None"
      using assms(2) Some w by (auto simp: memory_plan_def)
    have "length m' \<le> nat (plan_cache_size cfg)"
      using assms(1) length_filter_le [of "\<lambda>kv. fst kv \<noteq> k" m] unfolding memory_ok_def m' by linarith
    moreover have "distinct (map fst m')" "set m' \<subseteq> set m"
      using assms(1) unfolding memory_ok_def m' by (auto simp: distinct_map_filter)
    ultimately have "memory_ok cfg known m'" using assms(1) unfolding memory_ok_def by blast
    then show ?thesis by (simp add: m'(2))
  qed
qed

lemma cached_plan_ok:
  assumes "honest_store ops holds" "memory_ok cfg known m" "holds s \<subseteq> known"
    and "cached_plan cfg (Some ops) now query (m, s) = (r, (m', s'))"
  shows "memory_ok cfg known m' \<and> holds s' \<subseteq> known
    \<and> (\<forall>x. r = Some x \<longrightarrow> (query_cache_key cfg query, x) \<in> known)"
proof (cases "cache_off cfg")
  case True
  then show ?thesis using assms by (auto simp: cached_plan_def)
next
  case on: False
  let ?k = "query_cache_key cfg query"
  obtain r1 m1 where mem: "memory_plan now ?k m = (r1, m1)" by (metis prod.exhaust)
  have mem_ok: "memory_ok cfg known m1" "\<And>x. r1 = Some x \<Longrightarrow> (?k, x) \<in> known"
    using memory_plan_ok [OF assms(2) mem] by auto
  show ?thesis
  proof (cases r1)
    case (Some x)
    then show ?thesis using assms(3,4) mem_ok on by (auto simp: cached_plan_def mem)
  next
    case None
    obtain r2 s2 where got: "store_get ops ?k s = (r2, s2)" by (metis prod.exhaust)
    have s2: "holds s2 \<subseteq> known" "\<And>x. r2 = Some x \<Longrightarrow> (?k, x) \<in> known"
      using assms(1,3) got unfolding honest_store_def by blast+
    show ?thesis
    proof (cases r2)
      case None2: None
      then show ?thesis using assms(4) mem_ok(1) s2 on \<open>r1 = None\<close> by (auto simp: cached_plan_def mem got)
    next
      case (Some x)
      have "memory_ok cfg known (cache_memory_plan cfg now ?k x m1)"
        using cache_memory_plan_ok [OF mem_ok(1) s2(2) [OF Some] on] .
      then show ?thesis using assms(4) s2 Some on \<open>r1 = None\<close> by (auto simp: cached_plan_def mem got)
    qed
  qed
qed

lemma cache_plan_ok:
  assumes "honest_store ops holds" "memory_ok cfg known m" "holds s \<subseteq> known"
    and "(query_cache_key cfg query, v) \<in> known"
    and "cache_plan cfg (Some ops) now query v (m, s) = (m', s')"
  shows "memory_ok cfg known m' \<and> holds s' \<subseteq> known"
proof (cases "cache_off cfg")
  case True
  then show ?thesis using assms by (auto simp: cache_plan_def)
next
  case on: False
  have "holds (store_set ops (query_cache_key cfg query) v s) \<subseteq> known"
    using assms(1,3,4) unfolding honest_store_def by blast
  then show ?thesis
    using cache_memory_plan_ok [OF assms(2,4) on] assms(5) on by (auto simp: cache_plan_def)
qed

text \<open>A run of requests, and what may be served: an earlier complete plan, or one from the store.\<close>

type_synonym plan_request =
  "pyfloat \<times> string \<times> (prompt_cache \<Rightarrow> string \<Rightarrow> (py_error + planned) \<times> prompt_cache)"

fun run_plans ::
    "engine_config \<Rightarrow> (planned, 's) shared_store \<Rightarrow> plan_request list
      \<Rightarrow> prompt_cache \<times> planned plan_memory \<times> 's
      \<Rightarrow> (py_error + planned \<times> bool) list \<times> (prompt_cache \<times> planned plan_memory \<times> 's)" where
  "run_plans cfg ops [] st = ([], st)"
| "run_plans cfg ops ((now, query, compute) # rs) st =
     (let (answer, st1) = engine_plan cfg (Some ops) now compute query st;
          (answers, st2) = run_plans cfg ops rs st1
      in (answer # answers, st2))"

definition complete_plan :: "planned \<Rightarrow> bool" where
  "complete_plan v \<longleftrightarrow> fallback_reason (pd_plan v) = None \<or> fallback_reason (pd_plan v) = Some []"

fun serves_known ::
    "engine_config \<Rightarrow> (string \<times> planned) set \<Rightarrow> plan_request list \<Rightarrow> (py_error + planned \<times> bool) list \<Rightarrow> bool" where
  "serves_known cfg known ((now, query, compute) # rs) (Inl e # answers) = serves_known cfg known rs answers"
| "serves_known cfg known ((now, query, compute) # rs) (Inr (v, hit) # answers) =
     (if hit then (query_cache_key cfg query, v) \<in> known \<and> serves_known cfg known rs answers
      else serves_known cfg (if complete_plan v then insert (query_cache_key cfg query, v) known else known) rs answers)"
| "serves_known cfg known rs answers = (rs = [] \<and> answers = [])"

lemma run_plans_ok:
  assumes "honest_store ops holds"
  shows "memory_ok cfg known m \<Longrightarrow> holds s \<subseteq> known \<Longrightarrow>
    run_plans cfg ops rs (prompts, m, s) = (answers, (prompts', m', s')) \<Longrightarrow>
    serves_known cfg known rs answers \<and> (\<exists>known'. memory_ok cfg known' m')"
proof (induction rs arbitrary: known prompts m s answers)
  case (Cons req rs)
  obtain now query compute where req: "req = (now, query, compute)" by (metis prod.exhaust)
  obtain r m1 s1 where got: "cached_plan cfg (Some ops) now query (m, s) = (r, (m1, s1))" by (metis prod.exhaust)
  note ok1 = cached_plan_ok [OF assms Cons.prems(1,2) got]
  show ?case
  proof (cases r)
    case (Some x)
    obtain rest where "run_plans cfg ops rs (prompts, m1, s1) = (rest, (prompts', m', s'))"
      and "answers = Inr (x, True) # rest"
      using Cons.prems(3) by (auto simp: req engine_plan_def got Some Let_def split: prod.splits)
    then show ?thesis using Cons.IH [of known m1 s1 prompts rest] ok1 Some by (auto simp: req)
  next
    case None
    obtain c prompts1 where comp: "compute prompts query = (c, prompts1)" by (metis prod.exhaust)
    show ?thesis
    proof (cases c)
      case (Inl e)
      obtain rest where "run_plans cfg ops rs (prompts1, m1, s1) = (rest, (prompts', m', s'))"
        and "answers = Inl e # rest"
        using Cons.prems(3) by (auto simp: req engine_plan_def got None comp Inl Let_def split: prod.splits)
      then show ?thesis using Cons.IH [of known m1 s1 prompts1 rest] ok1 by (auto simp: req)
    next
      case (Inr v)
      define known1 where "known1 = (if complete_plan v then insert (query_cache_key cfg query, v) known else known)"
      obtain m2 s2 where put: "(if complete_plan v then cache_plan cfg (Some ops) now query v (m1, s1) else (m1, s1)) = (m2, s2)"
        by (metis prod.exhaust)
      have sub: "known \<subseteq> known1" by (auto simp: known1_def)
      have ok2: "memory_ok cfg known1 m2 \<and> holds s2 \<subseteq> known1"
      proof (cases "complete_plan v")
        case True
        have "memory_ok cfg known1 m1" "holds s1 \<subseteq> known1" "(query_cache_key cfg query, v) \<in> known1"
          using memory_ok_mono [OF _ sub, of cfg m1] ok1 sub True by (auto simp: known1_def)
        then show ?thesis using cache_plan_ok [OF assms] put True by (metis (full_types))
      qed (use put ok1 known1_def in auto)
      obtain rest where rest: "run_plans cfg ops rs (prompts1, m2, s2) = (rest, (prompts', m', s'))"
        and answers: "answers = Inr (v, False) # rest"
        using Cons.prems(3) put unfolding complete_plan_def
        by (auto simp: req engine_plan_def got None comp Inr Let_def split: prod.splits)
      then show ?thesis using Cons.IH [of known1 m2 s2 prompts1 rest] ok2 by (auto simp: req known1_def)
    qed
  qed
qed auto

theorem plan_cache_serves_known:
  assumes "honest_store ops holds"
  shows "case run_plans cfg ops rs (prompts, [], s) of (answers, (prompts', m', s')) \<Rightarrow>
     serves_known cfg (holds s) rs answers \<and> length m' \<le> nat (plan_cache_size cfg) \<and> distinct (map fst m')"
proof -
  obtain answers prompts' m' s' where run: "run_plans cfg ops rs (prompts, [], s) = (answers, (prompts', m', s'))"
    by (metis prod.exhaust)
  have "memory_ok cfg (holds s) []" by (simp add: memory_ok_def)
  from run_plans_ok [OF assms this order_refl run] show ?thesis by (auto simp: run memory_ok_def)
qed

subsection \<open>An example run: the second request, in other letters, is served from the cache\<close>

definition map_store :: "(planned, (string, planned) dict) shared_store" where
  "map_store = \<lparr>store_get = (\<lambda>k s. (map_of s k, s)), store_set = AList.update\<rparr>"

definition ex_engine :: engine_config where
  "ex_engine = \<lparr>fuzzy_matching = False, deterministic_fast_path = True, direct_semantic_fast_path = True,
     planner_enabled = True, planner_prompt_context = [], planner_query_aliases = [], catalog_json = [],
     plan_cache_size = 2, plan_cache_ttl = 60, planner_cache_fingerprint = ''f''\<rparr>"

definition ex_planned :: planned where
  "ex_planned = \<lparr>pd_plan = new_plan (default_query_plan ''car'' None),
     pd_resolved = \<lparr>categorical = [], min_fee = None, max_fee = None\<rparr>, pd_unresolved = []\<rparr>"

definition ex_requests :: "plan_request list" where
  "ex_requests = [(0, ''car'', \<lambda>prompts q. (Inr ex_planned, prompts)),
     (5, ''  CAR '', \<lambda>prompts q. (Inl (RuntimeError ''down''), prompts))]"

lemma map_store_honest: "honest_store map_store (\<lambda>s. {(k, v). map_of s k = Some v})"
  by (auto simp: honest_store_def map_store_def update_conv' split: if_splits)

lemma ex_run: "map (map_sum id snd) (fst (run_plans ex_engine map_store ex_requests ([], [], []))) =
    [Inr False, Inr True]"
  by code_simp

theorem plan_cache_serves_known_witness:
  "map (map_sum id snd) (fst (run_plans ex_engine map_store ex_requests ([], [], []))) = [Inr False, Inr True]
   \<and> (case run_plans ex_engine map_store ex_requests ([], [], []) of (answers, (prompts', m', s')) \<Rightarrow>
        serves_known ex_engine {(k, v). map_of [] k = Some v} ex_requests answers
        \<and> length m' \<le> nat (plan_cache_size ex_engine) \<and> distinct (map fst m'))"
  by (rule conjI [OF ex_run plan_cache_serves_known [OF map_store_honest]])

end
