(* ===== verification/Engine.thy ===== *)
theory Engine
  imports Engine_Plan
begin

text \<open>
  One search of \<open>search/engine.py\<close>: hybrid retrieval with its degraded modes, the reranked page,
  the category anchor and the tail behind the page, product rows by id (\<open>storage/mysql.py\<close>),
  the price order, and the result cache of \<open>search/engine_support.py\<close>. The vector collection,
  the embedding, the database, the reranker and the shared store are arguments. The two
  retrieval threads are joined before anything is read from them, so they are two values here.
\<close>

record search_settings =
  RERANK_TOP_K :: nat
  HYBRID_CANDIDATE_K :: nat
  VECTOR_TOP_K :: nat
  BM25_TOP_K :: nat
  RETRIEVAL_OVERFETCH_FACTOR :: nat
  VECTOR_CANDIDATE_K :: nat
  PRIMARY_RANKED_K :: nat
  RERANK_CANDIDATE_K :: nat

text \<open>The configured identity of one tenant's engine.\<close>

record tenant_scope =
  source_name :: string
  tenant_id :: "string option"
  source_type :: string
  search_table :: string
  search_id_column :: string
  result_id_column :: string
  result_type_column :: string
  post_filter_metadata :: post_filter_mode
  related_tail_enabled :: bool
  related_tail_requires_category :: bool

subsection \<open>Products by id\<close>

text \<open>\<open>dict.fromkeys\<close> on Python values; \<open>rows\<close> is what the SELECT over the ids gives.\<close>

fun py_dedup_from :: "pyval list \<Rightarrow> pyval list \<Rightarrow> pyval list" where
  "py_dedup_from seen [] = []"
| "py_dedup_from seen (x # xs) =
     (if py_in x seen then py_dedup_from seen xs else x # py_dedup_from (x # seen) xs)"

definition py_dedup :: "pyval list \<Rightarrow> pyval list" where
  "py_dedup xs = py_dedup_from [] xs"

type_synonym id_rows = "pyval list \<Rightarrow> pydict list"

definition fetch_product_types_by_ids ::
    "tenant_scope \<Rightarrow> id_rows \<Rightarrow> pyval list \<Rightarrow> string \<Rightarrow> string option" where
  "fetch_product_types_by_ids sc rows product_ids =
     (if py_dedup product_ids = [] then (\<lambda>_. None)
      else map_of (rev (List.map_filter (\<lambda>row.
        if dget row (result_id_column sc) = VNone \<or> dget row (result_type_column sc) = VNone then None
        else Some (py_str (dget row (result_id_column sc)), py_str (dget row (result_type_column sc))))
        (rows (py_dedup product_ids)))))"

definition fetch_products_by_ids :: "tenant_scope \<Rightarrow> id_rows \<Rightarrow> pyval list \<Rightarrow> pydict list" where
  "fetch_products_by_ids sc rows product_ids =
     (if py_dedup product_ids = [] then []
      else (let rows_by_id = map_of (rev (List.map_filter (\<lambda>row.
              if dget row (result_id_column sc) = VNone then None
              else Some (py_str (dget row (result_id_column sc)), row)) (rows (py_dedup product_ids))))
            in List.map_filter (\<lambda>pid. rows_by_id (py_str pid)) (py_dedup product_ids)))"

subsection \<open>retrieve\<close>

record retrieved =
  rt_vector :: "candidate list"
  rt_bm25 :: "candidate list"
  rt_candidates :: "candidate list"
  rt_tail :: "candidate list"
  rt_errors :: "(string \<times> py_error) list"

definition retrieval_degraded :: "retrieved \<Rightarrow> bool" where
  "retrieval_degraded r \<longleftrightarrow> rt_errors r \<noteq> []"

text \<open>The depths of one retrieval: vector, lexical, vector candidates, fused window.\<close>

definition requested_window :: "search_settings \<Rightarrow> nat option \<Rightarrow> nat" where
  "requested_window cfg candidate_limit =
     (case candidate_limit of None \<Rightarrow> RERANK_TOP_K cfg
      | Some n \<Rightarrow> if n = 0 then RERANK_TOP_K cfg else n)"

definition recall_window :: "search_settings \<Rightarrow> nat option \<Rightarrow> nat" where
  "recall_window cfg candidate_limit = max (HYBRID_CANDIDATE_K cfg) (requested_window cfg candidate_limit)"

definition retrieval_depth :: "search_settings \<Rightarrow> nat option \<Rightarrow> nat option" where
  "retrieval_depth cfg candidate_limit =
     (if candidate_limit \<noteq> None \<and> RERANK_TOP_K cfg < recall_window cfg candidate_limit
      then Some (max (max (VECTOR_TOP_K cfg) (BM25_TOP_K cfg))
             (recall_window cfg candidate_limit * RETRIEVAL_OVERFETCH_FACTOR cfg))
      else None)"

definition depth_or :: "nat \<Rightarrow> nat option \<Rightarrow> nat" where
  "depth_or standard depth = (case depth of None \<Rightarrow> standard | Some n \<Rightarrow> if n = 0 then standard else n)"

definition hybrid_top_k :: "search_settings \<Rightarrow> nat option \<Rightarrow> bool \<Rightarrow> nat" where
  "hybrid_top_k cfg candidate_limit strict =
     (if strict then requested_window cfg candidate_limit else recall_window cfg candidate_limit)"

record 'e search_backend =
  collection :: "'e collection"
  embed_text :: "string \<Rightarrow> py_error + 'e"
  lexical_index :: bm25_index
  lexical_ranks :: fts_engine
  lexical_fault :: "py_error option"
  database_rows :: id_rows

definition include_unpriced_for :: "string \<Rightarrow> string list option \<Rightarrow> bool" where
  "include_unpriced_for target allowed \<longleftrightarrow> set (expected_types target allowed) = {WANTED_AD_TYPE}"

definition run_vector ::
    "vector_settings \<Rightarrow> search_settings \<Rightarrow> tenant_scope \<Rightarrow> 'e search_backend \<Rightarrow> plan \<Rightarrow> filters
      \<Rightarrow> nat option \<Rightarrow> string list option \<Rightarrow> 'e option \<Rightarrow> py_error + candidate list" where
  "run_vector vcfg cfg sc be p fs candidate_limit allowed query_embedding =
     (let k = depth_or (VECTOR_TOP_K cfg) (retrieval_depth cfg candidate_limit)
      in vector_search vcfg (collection be) (embed_text be (semantic_query p)) query_embedding
           (int k) (int (max (VECTOR_CANDIDATE_K cfg) k)) (Some (source_name sc, fs)) (tenant_id sc)
           (post_filter_metadata sc) (include_unpriced_for (target_ad_type p) allowed))"

definition run_bm25 ::
    "pyfloat \<Rightarrow> search_settings \<Rightarrow> tenant_scope \<Rightarrow> 'e search_backend \<Rightarrow> plan \<Rightarrow> filters
      \<Rightarrow> nat option \<Rightarrow> string list option \<Rightarrow> py_error + candidate list" where
  "run_bm25 ceil cfg sc be p fs candidate_limit allowed =
     (case lexical_fault be of
        Some e \<Rightarrow> Inl e
      | None \<Rightarrow> Inr (bm25_search (lexical_ranks be) ceil (keyword_query p) fs
          (int (depth_or (BM25_TOP_K cfg) (retrieval_depth cfg candidate_limit)))
          (include_unpriced_for (target_ad_type p) allowed) (source_name sc) (tenant_id sc)
          (source_type sc) (search_table sc) (search_id_column sc) (lexical_index be)))"

definition results_or_none :: "py_error + candidate list \<Rightarrow> candidate list" where
  "results_or_none r = (case r of Inl e \<Rightarrow> [] | Inr cs \<Rightarrow> cs)"

definition failed_stage :: "string \<Rightarrow> py_error + candidate list \<Rightarrow> (string \<times> py_error) list" where
  "failed_stage stage r = (case r of Inl e \<Rightarrow> [(stage, e)] | Inr cs \<Rightarrow> [])"

definition eligible_candidates ::
    "fusion_settings \<Rightarrow> search_policy \<Rightarrow> tenant_scope \<Rightarrow> id_rows \<Rightarrow> plan \<Rightarrow> string list option
      \<Rightarrow> candidate list \<Rightarrow> candidate list \<Rightarrow> candidate list" where
  "eligible_candidates fcfg sp sc rows p allowed vs bs =
     filter_candidates_by_ad_type (search_table sc) (search_id_column sc)
       (fetch_product_types_by_ids sc rows) (target_ad_type p) allowed
       (adjust_candidates sp (query_plan.truncate p)
         (merge_results fcfg vs bs (inferred_categories p)))"

definition retrieve ::
    "vector_settings \<Rightarrow> fusion_settings \<Rightarrow> search_settings \<Rightarrow> search_policy \<Rightarrow> tenant_scope
      \<Rightarrow> 'e search_backend \<Rightarrow> plan \<Rightarrow> filters \<Rightarrow> nat option \<Rightarrow> string list option \<Rightarrow> bool \<Rightarrow> 'e option
      \<Rightarrow> py_error + retrieved" where
  "retrieve vcfg fcfg cfg sp sc be p fs candidate_limit allowed strict query_embedding =
     (let vector = run_vector vcfg cfg sc be p fs candidate_limit allowed query_embedding;
          bm25 = run_bm25 (fee_ceiling vcfg) cfg sc be p fs candidate_limit allowed;
          errors = failed_stage ''vector'' vector @ failed_stage ''bm25'' bm25
      in if length errors = 2
         then Inl (RuntimeError (''All retrieval paths failed: '' @ join '', '' (map fst errors)))
         else (let eligible = eligible_candidates fcfg sp sc (database_rows be) p allowed
                     (results_or_none vector) (results_or_none bm25)
               in Inr \<lparr>rt_vector = results_or_none vector, rt_bm25 = results_or_none bm25,
                    rt_candidates = take (hybrid_top_k cfg candidate_limit strict) eligible,
                    rt_tail = drop (hybrid_top_k cfg candidate_limit strict) eligible,
                    rt_errors = errors\<rparr>))"

subsection \<open>The category anchor and the tail behind the ranked page\<close>

definition semantic_related_tail_allowed :: "tenant_scope \<Rightarrow> filters \<Rightarrow> bool" where
  "semantic_related_tail_allowed sc fs \<longleftrightarrow>
     related_tail_enabled sc
     \<and> (\<not> related_tail_requires_category sc
        \<or> list_ex (\<lambda>key. map_of (categorical fs) key \<noteq> None) [''main_category_name'', ''subcategory_name''])"

definition category_metadata :: "(string \<times> string) list" where
  "category_metadata = [(''main_category'', ''main_category_name''), (''subcategory'', ''subcategory_name'')]"

text \<open>The strongest reranked match supplies a category the plan lacks or has relaxed.\<close>

definition anchor_step :: "pydict \<Rightarrow> string list \<Rightarrow> pydict \<Rightarrow> string \<times> string \<Rightarrow> pydict \<Rightarrow> pydict" where
  "anchor_step fixed relaxed best km inferred =
     (if map_of fixed (snd km) \<noteq> None then inferred
      else if truthy (dget best (snd km))
              \<and> (\<not> truthy (dget inferred (fst km)) \<or> fst km \<in> set relaxed)
      then AList.update (fst km) (dget best (snd km)) inferred else inferred)"

definition anchor_categories :: "filters \<Rightarrow> plan \<Rightarrow> ranked_item list \<Rightarrow> pydict" where
  "anchor_categories fs p ranked =
     fold (anchor_step (categorical fs) (relaxed_categories p)
       (case ranked of [] \<Rightarrow> [] | x # _ \<Rightarrow> item_metadata x)) category_metadata (inferred_categories p)"

definition has_category_anchor :: "filters \<Rightarrow> pydict \<Rightarrow> bool" where
  "has_category_anchor fs inferred \<longleftrightarrow>
     list_ex (\<lambda>(k, column). map_of (categorical fs) column \<noteq> None) category_metadata
     \<or> list_ex (\<lambda>(k, column). truthy (dget inferred k)) category_metadata"

definition candidate_matches_anchor :: "filters \<Rightarrow> pydict \<Rightarrow> candidate \<Rightarrow> bool" where
  "candidate_matches_anchor fs inferred c \<longleftrightarrow>
     list_all (\<lambda>(k, column).
       let expected = (if dget (categorical fs) column = VNone then dget inferred k
                       else dget (categorical fs) column)
       in expected = VNone
          \<or> casefold (py_str (or_else (dget (cand_metadata c) column) (VStr [])))
            = casefold (py_str expected)) category_metadata"

text \<open>The fused pool behind the window: ids in the anchored category, and the others.\<close>

fun split_tail ::
    "tenant_scope \<Rightarrow> (candidate \<Rightarrow> bool) \<Rightarrow> string list \<Rightarrow> candidate list \<Rightarrow> pyval list \<times> pyval list" where
  "split_tail sc anchored primary [] = ([], [])"
| "split_tail sc anchored primary (c # cs) =
     (case split_tail sc anchored primary cs of (yes, no) \<Rightarrow>
        (case extract_product_ids (search_table sc) (search_id_column sc) [c] of
           [] \<Rightarrow> (yes, no)
         | pid # _ \<Rightarrow>
             if py_str pid \<in> set primary then (yes, no)
             else if anchored c then (pid # yes, no) else (yes, pid # no)))"

definition hybrid_split ::
    "tenant_scope \<Rightarrow> filters \<Rightarrow> pydict \<Rightarrow> pyval list \<Rightarrow> candidate list \<Rightarrow> nat \<Rightarrow> pyval list \<times> pyval list" where
  "hybrid_split sc fs inferred primary tail tail_limit =
     (if semantic_related_tail_allowed sc fs \<and> tail_limit \<noteq> 0
      then (case split_tail sc
               (\<lambda>c. has_category_anchor fs inferred \<and> candidate_matches_anchor fs inferred c)
               (map py_str primary) tail of
          (yes, no) \<Rightarrow>
            if has_category_anchor fs inferred then (take tail_limit yes, no)
            else (take tail_limit no, []))
      else ([], []))"

definition catalogue_tail ::
    "pyfloat \<Rightarrow> tenant_scope \<Rightarrow> 'e search_backend \<Rightarrow> filters \<Rightarrow> plan \<Rightarrow> pydict \<Rightarrow> string list option
      \<Rightarrow> string list \<Rightarrow> pyval list \<Rightarrow> nat \<Rightarrow> (py_error + pyval list) option" where
  "catalogue_tail ceil sc be fs p inferred allowed exclude_docs exclude_products limit =
     (if semantic_related_tail_allowed sc fs \<and> has_category_anchor fs inferred \<and> limit \<noteq> 0
      then map_option (map_sum id (map VStr))
        (related_tail_product_ids ceil (lexical_index be) fs inferred (target_ad_type p) (int limit)
           exclude_docs (map py_str exclude_products)
           (\<lambda>ids. fetch_product_types_by_ids sc (database_rows be) (map VStr ids)) (sort_order p) allowed)
      else Some (Inr []))"

text \<open>\<open>hybrid_product_ids\<close> and \<open>related_product_ids\<close> of one search.\<close>

definition search_tail ::
    "pyfloat \<Rightarrow> tenant_scope \<Rightarrow> 'e search_backend \<Rightarrow> filters \<Rightarrow> plan \<Rightarrow> ranked_item list \<Rightarrow> string list option
      \<Rightarrow> retrieved \<Rightarrow> pyval list \<Rightarrow> nat \<Rightarrow> (py_error + pyval list \<times> pyval list) option" where
  "search_tail ceil sc be fs p ranked allowed r primary tail_limit =
     (let inferred = anchor_categories fs p ranked;
          (hybrid, others) = hybrid_split sc fs inferred primary (rt_tail r) tail_limit
      in map_option (map_sum id (\<lambda>related.
             (hybrid, related @ take (tail_limit - length hybrid - length related) others)))
           (catalogue_tail ceil sc be fs p inferred allowed
              (map cand_id (rt_candidates r @ rt_tail r)) (primary @ hybrid)
              (tail_limit - length hybrid)))"

subsection \<open>Tiers and the price order\<close>

definition with_tier :: "string \<Rightarrow> pydict \<Rightarrow> pydict" where
  "with_tier tier product = AList.update ''result_tier'' (VStr tier) product"

definition tier_of :: "tenant_scope \<Rightarrow> pyval list \<Rightarrow> pydict \<Rightarrow> string" where
  "tier_of sc primary product =
     (if py_str (dget product (result_id_column sc)) \<in> set (map py_str primary)
      then ''ranked'' else ''related'')"

definition product_price_key :: "pyfloat \<Rightarrow> bool \<Rightarrow> pydict \<Rightarrow> nat \<times> nat \<times> pyfloat" where
  "product_price_key ceil descending product =
     (let tier = (if dget product ''result_tier'' = VStr ''ranked'' then 0 else 1) in
      case to_float (dget product ''rental_fee'') of
        None \<Rightarrow> (tier, 1, 0)
      | Some price \<Rightarrow>
          if price \<le> ceil then (tier, 1, price)
          else (tier, 0, if descending then - price else price))"

definition price_sorted :: "plan \<Rightarrow> bool" where
  "price_sorted p \<longleftrightarrow> sort_order p = Some ''price_asc'' \<or> sort_order p = Some ''price_desc''"

definition result_page ::
    "pyfloat \<Rightarrow> tenant_scope \<Rightarrow> id_rows \<Rightarrow> plan \<Rightarrow> pyval list \<Rightarrow> bool \<Rightarrow> pyval list
      \<Rightarrow> pyval list \<times> pydict list" where
  "result_page ceil sc rows p primary hydrate product_ids =
     (let products = map (\<lambda>x. with_tier (tier_of sc primary x) x)
            (if hydrate then fetch_products_by_ids sc rows product_ids else [])
      in if price_sorted p \<and> hydrate
         then (let sorted_products = sort_key (product_price_key ceil (sort_order p = Some ''price_desc'')) products
               in (filter (\<lambda>v. v \<noteq> VNone) (map (\<lambda>x. dget x (result_id_column sc)) sorted_products),
                   sorted_products))
         else (product_ids, products))"

subsection \<open>The search result\<close>

record search_result =
  sr_planned :: planned
  sr_reranked :: "ranked_item list"
  sr_provider :: string
  sr_reranker_degraded :: bool
  sr_retrieval_degraded :: bool
  sr_primary :: "pyval list"
  sr_hybrid :: "pyval list"
  sr_related :: "pyval list"
  sr_ids :: "pyval list"
  sr_products :: "pydict list"
  sr_cache_hit :: bool

definition filtered_search ::
    "pyfloat \<Rightarrow> search_settings \<Rightarrow> tenant_scope \<Rightarrow> 'e search_backend \<Rightarrow> planned \<Rightarrow> nat option
      \<Rightarrow> string list option \<Rightarrow> (py_error + search_result) option" where
  "filtered_search ceil cfg sc be pd limit allowed =
     (let p = pd_plan pd in
      map_option (map_sum id (\<lambda>ids.
          \<lparr>sr_planned = pd, sr_reranked = [], sr_provider = ''none'', sr_reranker_degraded = False,
           sr_retrieval_degraded = False, sr_primary = [], sr_hybrid = [], sr_related = map VStr ids,
           sr_ids = map VStr ids,
           sr_products = map (with_tier ''filtered'')
             (fetch_products_by_ids sc (database_rows be) (map VStr ids)),
           sr_cache_hit = False\<rparr>))
        (related_tail_product_ids ceil (lexical_index be) (pd_resolved pd) (inferred_categories p)
           (target_ad_type p) (int (case limit of None \<Rightarrow> RERANK_TOP_K cfg | Some n \<Rightarrow> n)) [] []
           (\<lambda>ids. fetch_product_types_by_ids sc (database_rows be) (map VStr ids)) (sort_order p) allowed))"

subsection \<open>The result cache\<close>

record cached_payload =
  pl_plan :: plan
  pl_resolved :: filters
  pl_unresolved :: pydict
  pl_ids :: "string list"
  pl_primary :: "string list"
  pl_hybrid :: "string list"
  pl_related :: "string list"
  pl_provider :: string

text \<open>
  \<open>fixed_parts\<close> are the version parts that come from the settings: schema version, tenant and
  index generation before the counters, model names and window sizes after them.
  \<open>dump_filters\<close> is \<open>json.dumps\<close> and \<open>digest\<close> is SHA-256 in hexadecimal.
\<close>

record ('s) result_cache =
  result_cache_enabled :: bool
  result_store :: "(cached_payload, 's) shared_store option"
  parts_before :: "string list"
  parts_after :: "string list"
  dump_filters :: "filters \<Rightarrow> string"
  digest :: "string \<Rightarrow> string"

text \<open>The arguments of \<open>search\<close>.\<close>

record 'e search_request =
  rq_query :: string
  rq_limit :: "int option"
  rq_planned :: "planned option"
  rq_filters :: "filters option"
  rq_types :: "string list option"
  rq_window :: "int option"
  rq_hydrate :: bool
  rq_embedding :: "(py_error + string \<times> 'e) option"

definition show_optional :: "int option \<Rightarrow> string" where
  "show_optional v = (case v of None \<Rightarrow> ''None'' | Some i \<Rightarrow> show_int i)"

definition version_parts ::
    "engine_config \<Rightarrow> 's result_cache \<Rightarrow> bm25_index \<Rightarrow> 'e search_request \<Rightarrow> string list" where
  "version_parts cfg rc ix rq =
     parts_before rc
     @ [show_nat (revision ix), show_nat (index_count ix), show_optional (rq_limit rq),
        show_optional (rq_window rq)]
     @ parts_after rc
     @ [case rq_filters rq of None \<Rightarrow> [] | Some fs \<Rightarrow> dump_filters rc fs,
        join '','' (sort (dedup (case rq_types rq of None \<Rightarrow> [] | Some ts \<Rightarrow> ts))),
        query_cache_key cfg (rq_query rq)]"

definition NUL :: char where "NUL = CHR 0x00"

definition result_cache_key ::
    "engine_config \<Rightarrow> 's result_cache \<Rightarrow> bm25_index \<Rightarrow> 'e search_request \<Rightarrow> string" where
  "result_cache_key cfg rc ix rq = digest rc (join [NUL] (version_parts cfg rc ix rq))"

definition payload_of :: "search_result \<Rightarrow> cached_payload" where
  "payload_of r =
     \<lparr>pl_plan = pd_plan (sr_planned r), pl_resolved = pd_resolved (sr_planned r),
      pl_unresolved = pd_unresolved (sr_planned r), pl_ids = map py_str (sr_ids r),
      pl_primary = map py_str (sr_primary r), pl_hybrid = map py_str (sr_hybrid r),
      pl_related = map py_str (sr_related r), pl_provider = sr_provider r\<rparr>"

definition result_of_payload ::
    "tenant_scope \<Rightarrow> id_rows \<Rightarrow> bool \<Rightarrow> cached_payload \<Rightarrow> search_result" where
  "result_of_payload sc rows hydrate pl =
     (let primary = map VStr (pl_primary pl);
          products = (if hydrate then fetch_products_by_ids sc rows (map VStr (pl_ids pl)) else []);
          tier = (\<lambda>x. if execution_path (pl_plan pl) = Some ''deterministic_filter'' then ''filtered''
                      else tier_of sc primary x)
      in \<lparr>sr_planned = \<lparr>pd_plan = pl_plan pl, pd_resolved = pl_resolved pl, pd_unresolved = pl_unresolved pl\<rparr>,
          sr_reranked = [], sr_provider = pl_provider pl, sr_reranker_degraded = False,
          sr_retrieval_degraded = False, sr_primary = primary, sr_hybrid = map VStr (pl_hybrid pl),
          sr_related = map VStr (pl_related pl), sr_ids = map VStr (pl_ids pl),
          sr_products = map (\<lambda>x. with_tier (tier x) x) products, sr_cache_hit = True\<rparr>)"

definition cached_search_result ::
    "engine_config \<Rightarrow> 's result_cache \<Rightarrow> tenant_scope \<Rightarrow> 'e search_backend \<Rightarrow> 'e search_request \<Rightarrow> 's
      \<Rightarrow> search_result option \<times> 's" where
  "cached_search_result cfg rc sc be rq s =
     (if \<not> result_cache_enabled rc then (None, s)
      else (case result_store rc of
          None \<Rightarrow> (None, s)
        | Some ops \<Rightarrow>
            (case store_get ops (result_cache_key cfg rc (lexical_index be) rq) s of
               (pl, s') \<Rightarrow> (map_option (result_of_payload sc (database_rows be) (rq_hydrate rq)) pl, s'))))"

definition cacheable :: "search_result \<Rightarrow> bool" where
  "cacheable r \<longleftrightarrow>
     (fallback_reason (pd_plan (sr_planned r)) = None \<or> fallback_reason (pd_plan (sr_planned r)) = Some [])
     \<and> \<not> sr_reranker_degraded r \<and> \<not> sr_retrieval_degraded r"

definition cache_search_result ::
    "engine_config \<Rightarrow> 's result_cache \<Rightarrow> 'e search_backend \<Rightarrow> 'e search_request \<Rightarrow> search_result \<Rightarrow> 's \<Rightarrow> 's" where
  "cache_search_result cfg rc be rq r s =
     (if \<not> result_cache_enabled rc \<or> \<not> cacheable r then s
      else (case result_store rc of
          None \<Rightarrow> s
        | Some ops \<Rightarrow> store_set ops (result_cache_key cfg rc (lexical_index be) rq) (payload_of r) s))"

subsection \<open>search\<close>

text \<open>One engine: its settings and collaborators, and the state it keeps between requests.\<close>

record ('e, 's, 'r) engine =
  eng_config :: engine_config
  eng_policy :: search_policy
  eng_values :: value_index
  eng_model :: hosted_model
  eng_json :: "string \<Rightarrow> py_error + pyval"
  eng_vector :: vector_settings
  eng_fusion :: fusion_settings
  eng_search :: search_settings
  eng_floor :: floor_settings
  eng_scope :: tenant_scope
  eng_backend :: "'e search_backend"
  eng_loaded :: "py_error + 'r"
  eng_score :: "pair list \<Rightarrow> 'r \<Rightarrow> (py_error + pyfloat list) \<times> 'r"
  eng_provider :: "'r \<Rightarrow> string"
  eng_plans :: "(planned, 's) shared_store option"
  eng_results :: "'s result_cache"

record ('s, 'r) engine_state =
  st_prompts :: prompt_cache
  st_plans :: "planned plan_memory"
  st_shared :: 's
  st_reranker :: "'r option"

definition primary_limit :: "search_settings \<Rightarrow> nat option \<Rightarrow> nat option \<Rightarrow> nat" where
  "primary_limit cfg limit window =
     (case limit of
        None \<Rightarrow> RERANK_TOP_K cfg
      | Some n \<Rightarrow> min (case window of None \<Rightarrow> PRIMARY_RANKED_K cfg | Some w \<Rightarrow> min (PRIMARY_RANKED_K cfg) w) n)"

definition rerank_candidate_limit :: "search_settings \<Rightarrow> nat option \<Rightarrow> nat option \<Rightarrow> nat option" where
  "rerank_candidate_limit cfg limit window =
     (case limit of
        None \<Rightarrow> None
      | Some n \<Rightarrow> Some (max (primary_limit cfg limit window)
          (case window of None \<Rightarrow> RERANK_CANDIDATE_K cfg | Some w \<Rightarrow> min (RERANK_CANDIDATE_K cfg) w)))"

text \<open>\<open>start_speculative_embedding\<close>: what its future will hold.\<close>

definition start_speculative_embedding ::
    "engine_config \<Rightarrow> 'e search_backend \<Rightarrow> string \<Rightarrow> (py_error + string \<times> 'e) option" where
  "start_speculative_embedding cfg be query =
     (if \<not> planner_enabled cfg \<or> strip query = [] then None
      else Some (map_sum id (\<lambda>e. (query, e)) (embed_text be query)))"

definition prefetched_embedding :: "(py_error + string \<times> 'e) option \<Rightarrow> string \<Rightarrow> string \<Rightarrow> 'e option" where
  "prefetched_embedding future query semantic =
     (if semantic = query
      then (case future of Some (Inr (q, e)) \<Rightarrow> if q = semantic then Some e else None | _ \<Rightarrow> None)
      else None)"

text \<open>\<open>plan\<close> or the plan that was handed in, with the caller's filters over the resolved ones.\<close>

definition search_planned ::
    "('e, 's, 'r) engine \<Rightarrow> pyfloat \<Rightarrow> 'e search_request \<Rightarrow> ('s, 'r) engine_state
      \<Rightarrow> (py_error + planned) \<times> ('s, 'r) engine_state" where
  "search_planned eng now rq st =
     (case (case rq_planned rq of
          Some pd \<Rightarrow> (Inr pd, st)
        | None \<Rightarrow>
            (case engine_plan (eng_config eng) (eng_plans eng) now
                (compute_plan (eng_config eng) (eng_policy eng) (eng_values eng) (eng_model eng) (eng_json eng))
                (rq_query rq) (st_prompts st, st_plans st, st_shared st) of
               (answer, prompts, plans, shared) \<Rightarrow>
                 (map_sum id fst answer, st\<lparr>st_prompts := prompts, st_plans := plans, st_shared := shared\<rparr>))) of
        (answer, st') \<Rightarrow>
          (map_sum id (\<lambda>pd. case rq_filters rq of None \<Rightarrow> pd | Some fs \<Rightarrow> pd\<lparr>pd_resolved := fs\<rparr>) answer, st'))"

definition no_ranking :: ranking where
  "no_ranking = \<lparr>rk_results = [], rk_provider = ''none'', rk_degraded = False, rk_error = None\<rparr>"

definition search_ranked ::
    "('e, 's, 'r) engine \<Rightarrow> string \<Rightarrow> candidate list \<Rightarrow> plan \<Rightarrow> nat \<Rightarrow> ('s, 'r) engine_state
      \<Rightarrow> (py_error + ranking) \<times> ('s, 'r) engine_state" where
  "search_ranked eng query candidates p k st =
     (if candidates = [] then (Inr no_ranking, st)
      else (case rank (eng_floor eng) (eng_policy eng) (eng_score eng) (eng_provider eng)
            (RERANK_TOP_K (eng_search eng)) query candidates (Some p) (Some k)
            (ensure_reranker (eng_loaded eng) (st_reranker st) None) of
          Inl e \<Rightarrow> (Inl e, st)
        | Inr (out, r') \<Rightarrow> (Inr out, st\<lparr>st_reranker := Some r'\<rparr>)))"

definition item_candidate :: "ranked_item \<Rightarrow> candidate" where
  "item_candidate x = \<lparr>cand_id = item_id x, cand_text = item_text x, cand_metadata = item_metadata x,
     cand_score = item_score x, cand_source = [], fusion_score = None\<rparr>"

definition ranked_product_ids :: "tenant_scope \<Rightarrow> ranked_item list \<Rightarrow> pyval list" where
  "ranked_product_ids sc xs = extract_product_ids (search_table sc) (search_id_column sc) (map item_candidate xs)"

definition semantic_search ::
    "('e, 's, 'r) engine \<Rightarrow> 'e search_request \<Rightarrow> nat option \<Rightarrow> nat option \<Rightarrow> planned \<Rightarrow> retrieved \<Rightarrow> ranking
      \<Rightarrow> (py_error + search_result) option" where
  "semantic_search eng rq limit window pd r ranked =
     (let sc = eng_scope eng; be = eng_backend eng; ceil = fee_ceiling (eng_vector eng); p = pd_plan pd;
          primary = ranked_product_ids sc (rk_results ranked);
          tail_limit = (case limit of None \<Rightarrow> 0 | Some n \<Rightarrow> n - length primary)
      in map_option (map_sum id (\<lambda>(hybrid, related).
             let page = result_page ceil sc (database_rows be) p primary (rq_hydrate rq)
                   (py_dedup (primary @ hybrid @ related))
             in \<lparr>sr_planned = pd, sr_reranked = rk_results ranked, sr_provider = rk_provider ranked,
                 sr_reranker_degraded = rk_degraded ranked, sr_retrieval_degraded = retrieval_degraded r,
                 sr_primary = primary, sr_hybrid = hybrid, sr_related = related, sr_ids = fst page,
                 sr_products = snd page, sr_cache_hit = False\<rparr>))
           (search_tail ceil sc be (pd_resolved pd) p (rk_results ranked) (rq_types rq) r primary tail_limit))"

definition store_result ::
    "('e, 's, 'r) engine \<Rightarrow> 'e search_request \<Rightarrow> py_error + search_result \<Rightarrow> ('s, 'r) engine_state
      \<Rightarrow> (py_error + search_result) \<times> ('s, 'r) engine_state" where
  "store_result eng rq answer st =
     (answer, case answer of
        Inl e \<Rightarrow> st
      | Inr r \<Rightarrow> st\<lparr>st_shared := cache_search_result (eng_config eng) (eng_results eng) (eng_backend eng) rq r
                   (st_shared st)\<rparr>)"

definition search_semantic_path ::
    "('e, 's, 'r) engine \<Rightarrow> 'e search_request \<Rightarrow> nat option \<Rightarrow> nat option \<Rightarrow> planned \<Rightarrow> ('s, 'r) engine_state
      \<Rightarrow> ((py_error + search_result) \<times> ('s, 'r) engine_state) option" where
  "search_semantic_path eng rq limit window pd st =
     (let p = pd_plan pd; cfg = eng_search eng;
          future = (if rq_embedding rq = None \<and> rq_planned rq = None
            then start_speculative_embedding (eng_config eng) (eng_backend eng) (rq_query rq) else rq_embedding rq)
      in case retrieve (eng_vector eng) (eng_fusion eng) cfg (eng_policy eng) (eng_scope eng) (eng_backend eng)
            p (pd_resolved pd) (rerank_candidate_limit cfg limit window) (rq_types rq) (rq_window rq \<noteq> None)
            (prefetched_embedding future (rq_query rq) (semantic_query p)) of
          Inl e \<Rightarrow> Some (Inl e, st)
        | Inr r \<Rightarrow>
            (case search_ranked eng (rq_query rq) (rt_candidates r) p (primary_limit cfg limit window) st of
               (Inl e, st1) \<Rightarrow> Some (Inl e, st1)
             | (Inr ranked, st1) \<Rightarrow>
                 map_option (\<lambda>answer. store_result eng rq answer st1)
                   (semantic_search eng rq limit window pd r ranked)))"

definition positive :: "int option \<Rightarrow> bool" where
  "positive v = (case v of None \<Rightarrow> True | Some i \<Rightarrow> 0 < i)"

definition search ::
    "('e, 's, 'r) engine \<Rightarrow> pyfloat \<Rightarrow> 'e search_request \<Rightarrow> ('s, 'r) engine_state
      \<Rightarrow> ((py_error + search_result) \<times> ('s, 'r) engine_state) option" where
  "search eng now rq st =
     (if \<not> positive (rq_limit rq) then Some (Inl (ValueError ''Search limit must be greater than zero.''), st)
      else if \<not> positive (rq_window rq) then Some (Inl (ValueError ''Ranking window must be greater than zero.''), st)
      else (let limit = map_option nat (rq_limit rq); window = map_option nat (rq_window rq) in
        case cached_search_result (eng_config eng) (eng_results eng) (eng_scope eng) (eng_backend eng) rq (st_shared st) of
          (Some r, shared) \<Rightarrow> Some (Inr r, st\<lparr>st_shared := shared\<rparr>)
        | (None, shared) \<Rightarrow>
            (case search_planned eng now rq (st\<lparr>st_shared := shared\<rparr>) of
               (Inl e, st1) \<Rightarrow> Some (Inl e, st1)
             | (Inr pd, st1) \<Rightarrow>
                 if execution_path (pd_plan pd) = Some ''deterministic_filter''
                 then map_option (\<lambda>answer. store_result eng rq answer st1)
                   (filtered_search (fee_ceiling (eng_vector eng)) (eng_search eng) (eng_scope eng)
                      (eng_backend eng) pd limit (rq_types rq))
                 else search_semantic_path eng rq limit window pd st1)))"

subsection \<open>The tail always ends\<close>

lemma tail_page_sound:
  "set (fst (tail_page types expected limit ids found seen)) \<subseteq>
      set found \<union> {p. tail_ok types expected p \<and> p \<notin> set seen}
    \<and> set seen \<subseteq> set (snd (tail_page types expected limit ids found seen))"
proof (induction ids arbitrary: found seen)
  case (Cons p ps)
  note more = Cons.IH [of found "p # seen"] Cons.IH [of "found @ [p]" "p # seen"]
  show ?case
  proof (cases "p \<in> set seen")
    case True
    then show ?thesis using Cons.IH [of found seen] by simp
  next
    case False
    show ?thesis
    proof (cases "tail_ok types expected p")
      case True
      then have step: "tail_page types expected limit (p # ps) found seen =
          (if limit \<le> length (found @ [p]) then (found @ [p], p # seen)
           else tail_page types expected limit ps (found @ [p]) (p # seen))"
        using False by (auto simp: tail_ok_def Let_def split: option.splits)
      show ?thesis using more True False unfolding step by auto
    next
      case no: False
      then have step: "tail_page types expected limit (p # ps) found seen =
          tail_page types expected limit ps found (p # seen)"
        using False by (auto simp: tail_ok_def Let_def split: option.splits)
      show ?thesis using more(1) False unfolding step by auto
    qed
  qed
qed simp

text \<open>An id a type lookup accepts.\<close>

definition type_allowed :: "type_fetcher \<Rightarrow> string list \<Rightarrow> string \<Rightarrow> bool" where
  "type_allowed fetch expected p \<longleftrightarrow> (\<exists>ids. tail_ok (fetch ids) expected p)"

text \<open>For every type fetcher and every order, also one that raises.\<close>

definition tail_answer :: "type_fetcher \<Rightarrow> string list \<Rightarrow> nat \<Rightarrow> string list \<Rightarrow> py_error + string list \<Rightarrow> bool" where
  "tail_answer fetch expected limit excluded answer \<longleftrightarrow>
     (\<forall>ids. answer = Inr ids \<longrightarrow> length ids \<le> limit
        \<and> (\<forall>p \<in> set ids. type_allowed fetch expected p \<and> p \<notin> set excluded))"

lemma tail_loop_ends:
  assumes "\<And>o1. (\<exists>e. page_at (int o1) = Inl e) \<or> page_at (int o1) = Inr (take size_of_page (drop o1 rows))"
    and "0 < size_of_page" and "length found \<le> limit"
    and "\<And>p. p \<in> set found \<Longrightarrow> type_allowed fetch expected p \<and> p \<notin> set excluded"
    and "set excluded \<subseteq> set seen"
  shows "\<exists>answer. tail_loop page_at fetch expected limit size_of_page o1 found seen = Some answer
    \<and> tail_answer fetch expected limit excluded answer"
  using assms(3-5)
proof (induction "length rows - o1" arbitrary: o1 found seen rule: less_induct)
  case less
  show ?case
  proof (cases "limit \<le> length found")
    case True
    then show ?thesis using less.prems by (subst tail_loop.simps) (simp add: tail_answer_def)
  next
    case False
    consider (fails) e where "page_at (int o1) = Inl e"
      | (page) "page_at (int o1) = Inr (take size_of_page (drop o1 rows))"
      using assms(1) by blast
    then show ?thesis
    proof cases
      case fails
      then show ?thesis using False by (subst tail_loop.simps) (simp add: tail_answer_def)
    next
      case page
      let ?page = "take size_of_page (drop o1 rows)"
      let ?res = "tail_page (fetch (map snd ?page)) expected limit (map snd ?page) found seen"
      have step: "tail_loop page_at fetch expected limit size_of_page o1 found seen =
        (if ?page = [] then Some (Inr found)
         else if length ?page < size_of_page then Some (Inr (fst ?res))
         else tail_loop page_at fetch expected limit size_of_page (o1 + length ?page) (fst ?res) (snd ?res))"
        using False by (subst tail_loop.simps) (simp add: page Let_def)
      note sound = tail_page_sound [of "fetch (map snd ?page)" expected limit "map snd ?page" found seen]
      have short: "length (fst ?res) \<le> limit" using False by (simp add: tail_page_eq)
      have found: "type_allowed fetch expected p \<and> p \<notin> set excluded" if "p \<in> set (fst ?res)" for p
        using that sound less.prems(2) [of p] less.prems(3) unfolding type_allowed_def by blast
      have seen: "set excluded \<subseteq> set (snd ?res)" using sound less.prems(3) by blast
      show ?thesis
      proof (cases "?page = [] \<or> length ?page < size_of_page")
        case True
        then consider "?page = []" | "?page \<noteq> []" "length ?page < size_of_page" by blast
        then show ?thesis
        proof cases
          case 1
          then show ?thesis using less.prems unfolding step if_P [OF 1] by (simp add: tail_answer_def)
        next
          case 2
          then show ?thesis
            using short found unfolding step if_not_P [OF 2(1)] if_P [OF 2(2)] by (simp add: tail_answer_def)
        qed
      next
        case no: False
        then have "length rows - (o1 + length ?page) < length rows - o1" by auto
        from less.hyps [OF this short found seen] show ?thesis using no unfolding step by auto
      qed
    qed
  qed
qed

lemma related_tail_ends:
  "\<exists>answer. related_tail_product_ids ceil ix fs inferred target limit docs prods fetch order allowed = Some answer
    \<and> tail_answer fetch (expected_types target allowed) (nat limit) prods answer"
proof -
  define rq where "rq = \<lparr>br_filters = fs, br_category = tail_category_filters fs inferred, br_exclude = docs,
    br_sort = order, br_unpriced = (set (expected_types target allowed) = {WANTED_AD_TYPE})\<rparr>"
  have page: "(\<exists>e. browse ceil rq (int (tail_page_size (nat limit))) (int o1) ix = Inl e)
      \<or> browse ceil rq (int (tail_page_size (nat limit))) (int o1) ix = Inr (take (tail_page_size (nat limit)) (drop o1
        (map (\<lambda>p. (doc_id p, product_id p)) (browse_all ceil (the (parse_sort order)) rq ix))))" for o1
    by (cases "parse_sort order") (auto simp: browse_def rq_def take_map drop_map)
  have "\<exists>answer. tail_loop (\<lambda>offset. browse ceil rq (int (tail_page_size (nat limit))) offset ix) fetch
        (expected_types target allowed) (nat limit) (tail_page_size (nat limit)) 0 [] prods = Some answer
      \<and> tail_answer fetch (expected_types target allowed) (nat limit) prods answer"
    by (rule tail_loop_ends [where excluded = prods and found = "[]", OF page]) simp_all
  moreover have "tail_answer fetch (expected_types target allowed) (nat limit) prods (Inr [])"
    by (simp add: tail_answer_def)
  ultimately show ?thesis
    unfolding related_tail_product_ids_def Let_def rq_def [symmetric] by (metis (full_types))
qed

end
