(* ===== verification/Engine_Facts.thy ===== *)
theory Engine_Facts
  imports Engine
begin

text \<open>
  What a search promises: it always answers, a failing retrieval path degrades it, the page has
  bounded length and no id of the wrong ad type, every candidate satisfies the hard filters,
  prefetching the embedding changes nothing, the price order, and what the result cache keeps.
\<close>

subsection \<open>Ids of a page\<close>

lemma py_dedup_from_facts:
  "set (py_dedup_from seen xs) \<subseteq> set xs \<and> length (py_dedup_from seen xs) \<le> length xs
    \<and> (\<forall>x \<in> set (py_dedup_from seen xs). \<not> py_in x seen)
    \<and> sorted_wrt (\<lambda>x y. \<not> py_eq y x) (py_dedup_from seen xs)"
proof (induction seen xs rule: py_dedup_from.induct)
  case (2 seen x xs)
  show ?case
  proof (cases "py_in x seen")
    case False
    then show ?thesis using 2(2) [OF False] by (auto simp: py_in_def)
  qed (use 2(1) in auto)
qed simp

lemma py_dedup_facts:
  "set (py_dedup xs) \<subseteq> set xs" "length (py_dedup xs) \<le> length xs"
  "sorted_wrt (\<lambda>x y. \<not> py_eq y x) (py_dedup xs)"
  using py_dedup_from_facts [of "[]" xs] by (auto simp: py_dedup_def)

lemma extract_go_facts:
  "set (extract_go t i seen cs) \<subseteq> {product_id_of t i c |c. c \<in> set cs \<and> product_id_of t i c \<noteq> VNone}
    \<and> length (extract_go t i seen cs) \<le> length cs"
proof (induction cs arbitrary: seen)
  case (Cons c cs)
  show ?case
    using Cons [of seen] Cons [of "py_str (product_id_of t i c) # seen"] by (auto simp: Let_def)
qed simp

lemma extract_ids_facts:
  "set (extract_product_ids t i cs) \<subseteq> {product_id_of t i c |c. c \<in> set cs \<and> product_id_of t i c \<noteq> VNone}"
  "length (extract_product_ids t i cs) \<le> length cs"
  using extract_go_facts [of t i "[]" cs] by (simp_all add: extract_product_ids_def)

text \<open>An id that some lookup of the database gives a type of the expected set.\<close>

definition id_allowed :: "tenant_scope \<Rightarrow> id_rows \<Rightarrow> string list \<Rightarrow> pyval \<Rightarrow> bool" where
  "id_allowed sc rows expected pid \<longleftrightarrow>
     (\<exists>ids. tail_ok (fetch_product_types_by_ids sc rows ids) expected (py_str pid))"

definition candidate_allowed :: "tenant_scope \<Rightarrow> id_rows \<Rightarrow> string list \<Rightarrow> candidate \<Rightarrow> bool" where
  "candidate_allowed sc rows expected c \<longleftrightarrow>
     (let pid = product_id_of (search_table sc) (search_id_column sc) c
      in pid \<noteq> VNone \<and> id_allowed sc rows expected pid)"

lemma eligible_allowed:
  assumes "c \<in> set (eligible_candidates fcfg sp sc rows p allowed vs bs)"
  shows "candidate_allowed sc rows (expected_types (target_ad_type p) allowed) c"
  using assms
  by (auto simp: eligible_candidates_def filter_candidates_by_ad_type_def Let_def extract_single
      candidate_allowed_def id_allowed_def tail_ok_def split: if_splits option.splits)

lemma retrieve_cases:
  assumes "retrieve vcfg fcfg cfg sp sc be p fs limit allowed strict e = Inr r"
  obtains vs bs where
    "rt_candidates r @ rt_tail r = eligible_candidates fcfg sp sc (database_rows be) p allowed vs bs"
    "vs = results_or_none (run_vector vcfg cfg sc be p fs limit allowed e)"
    "bs = results_or_none (run_bm25 (fee_ceiling vcfg) cfg sc be p fs limit allowed)"
    "length (rt_candidates r) \<le> hybrid_top_k cfg limit strict"
  using assms by (auto simp: retrieve_def Let_def split: if_splits)

text \<open>Items that were ranked name products of the candidates they come from.\<close>

lemma item_candidate_id: "item_of x c \<Longrightarrow> product_id_of t i (item_candidate x) = product_id_of t i c"
  by (simp add: item_of_def item_candidate_def product_id_of_def Let_def)

lemma ranked_ids_facts:
  assumes "\<And>x. x \<in> set xs \<Longrightarrow> \<exists>c \<in> set cs. item_of x c"
  shows "set (ranked_product_ids sc xs) \<subseteq>
      {product_id_of (search_table sc) (search_id_column sc) c |c. c \<in> set cs
         \<and> product_id_of (search_table sc) (search_id_column sc) c \<noteq> VNone}"
    and "length (ranked_product_ids sc xs) \<le> length xs"
proof -
  let ?id = "product_id_of (search_table sc) (search_id_column sc)"
  show "set (ranked_product_ids sc xs) \<subseteq> {?id c |c. c \<in> set cs \<and> ?id c \<noteq> VNone}"
  proof
    fix pid assume "pid \<in> set (ranked_product_ids sc xs)"
    then obtain x where x: "x \<in> set xs" "pid = ?id (item_candidate x)" "pid \<noteq> VNone"
      using extract_ids_facts(1) [of "search_table sc" "search_id_column sc" "map item_candidate xs"]
      by (auto simp: ranked_product_ids_def)
    obtain c where "c \<in> set cs" "item_of x c" using assms [OF x(1)] by blast
    then show "pid \<in> {?id c |c. c \<in> set cs \<and> ?id c \<noteq> VNone}"
      using x item_candidate_id by fastforce
  qed
  show "length (ranked_product_ids sc xs) \<le> length xs"
    using extract_ids_facts(2) [of "search_table sc" "search_id_column sc" "map item_candidate xs"]
    by (simp add: ranked_product_ids_def)
qed

subsection \<open>The tail\<close>

lemma split_tail_facts:
  "set (fst (split_tail sc anchored primary cs)) \<union> set (snd (split_tail sc anchored primary cs)) \<subseteq>
    {product_id_of (search_table sc) (search_id_column sc) c |c. c \<in> set cs
       \<and> product_id_of (search_table sc) (search_id_column sc) c \<noteq> VNone
       \<and> py_str (product_id_of (search_table sc) (search_id_column sc) c) \<notin> set primary}"
proof (induction cs)
  case (Cons c cs)
  then show ?case by (auto simp: extract_single split: prod.split)
qed simp

definition tail_id :: "tenant_scope \<Rightarrow> id_rows \<Rightarrow> string list \<Rightarrow> pyval list \<Rightarrow> pyval \<Rightarrow> bool" where
  "tail_id sc rows expected primary pid \<longleftrightarrow>
     id_allowed sc rows expected pid \<and> py_str pid \<notin> set (map py_str primary)"

lemma hybrid_split_facts:
  assumes "\<And>c. c \<in> set tail \<Longrightarrow> candidate_allowed sc rows expected c"
    and "hybrid_split sc fs inferred primary tail n = (hybrid, others)"
  shows "length hybrid \<le> n \<and> (\<forall>pid \<in> set hybrid \<union> set others. tail_id sc rows expected primary pid)"
proof -
  define f where "f = (\<lambda>c. has_category_anchor fs inferred \<and> candidate_matches_anchor fs inferred c)"
  obtain yes no where split: "split_tail sc f (map py_str primary) tail = (yes, no)" by (metis prod.exhaust)
  have ids: "tail_id sc rows expected primary pid" if "pid \<in> set yes \<union> set no" for pid
    using that split_tail_facts [of sc f "map py_str primary" tail] assms(1)
    by (fastforce simp: split tail_id_def candidate_allowed_def Let_def)
  show ?thesis
    using assms(2) ids unfolding hybrid_split_def f_def [symmetric] split
    by (auto split: if_splits dest: in_set_takeD)
qed

lemma catalogue_tail_facts:
  "\<exists>answer. catalogue_tail ceil sc be fs p inferred allowed docs prods n = Some answer
    \<and> (\<forall>ids. answer = Inr ids \<longrightarrow> length ids \<le> n
        \<and> (\<forall>pid \<in> set ids. tail_id sc (database_rows be) (expected_types (target_ad_type p) allowed) prods pid))"
proof -
  let ?fetch = "\<lambda>ids. fetch_product_types_by_ids sc (database_rows be) (map VStr ids)"
  obtain answer where answer: "related_tail_product_ids ceil (lexical_index be) fs inferred (target_ad_type p)
      (int n) docs (map py_str prods) ?fetch (sort_order p) allowed = Some answer"
    and ok: "tail_answer ?fetch (expected_types (target_ad_type p) allowed) (nat (int n)) (map py_str prods) answer"
    using related_tail_ends by blast
  show ?thesis
  proof (cases answer)
    case (Inl e)
    then show ?thesis by (auto simp: catalogue_tail_def answer)
  next
    case (Inr ids)
    have "tail_id sc (database_rows be) (expected_types (target_ad_type p) allowed) prods (VStr i)"
      if "i \<in> set ids" for i
      using ok that unfolding tail_answer_def tail_id_def id_allowed_def type_allowed_def Inr by fastforce
    then show ?thesis using ok Inr by (auto simp: catalogue_tail_def answer tail_answer_def)
  qed
qed

lemma search_tail_facts:
  assumes "\<And>c. c \<in> set (rt_tail r) \<Longrightarrow>
      candidate_allowed sc (database_rows be) (expected_types (target_ad_type p) allowed) c"
  shows "\<exists>answer. search_tail ceil sc be fs p ranked allowed r primary n = Some answer
    \<and> (\<forall>hybrid related. answer = Inr (hybrid, related) \<longrightarrow> length hybrid + length related \<le> n
        \<and> (\<forall>pid \<in> set hybrid \<union> set related.
             tail_id sc (database_rows be) (expected_types (target_ad_type p) allowed) primary pid))"
proof -
  let ?expected = "expected_types (target_ad_type p) allowed"
  define inferred where "inferred = anchor_categories fs p ranked"
  obtain hybrid others where split: "hybrid_split sc fs inferred primary (rt_tail r) n = (hybrid, others)"
    by (metis prod.exhaust)
  have h: "length hybrid \<le> n" "\<And>pid. pid \<in> set hybrid \<union> set others \<Longrightarrow> tail_id sc (database_rows be) ?expected primary pid"
    using hybrid_split_facts [OF assms split] by blast+
  obtain answer where answer: "catalogue_tail ceil sc be fs p inferred allowed
      (map cand_id (rt_candidates r @ rt_tail r)) (primary @ hybrid) (n - length hybrid) = Some answer"
    and ok: "\<And>ids. answer = Inr ids \<Longrightarrow> length ids \<le> n - length hybrid
      \<and> (\<forall>pid \<in> set ids. tail_id sc (database_rows be) ?expected (primary @ hybrid) pid)"
    using catalogue_tail_facts by blast
  have eq: "search_tail ceil sc be fs p ranked allowed r primary n = Some (map_sum id (\<lambda>related.
      (hybrid, related @ take (n - length hybrid - length related) others)) answer)"
    by (simp add: search_tail_def inferred_def [symmetric] split answer Let_def del: map_append)
  show ?thesis
  proof (cases answer)
    case (Inr ids)
    have "tail_id sc (database_rows be) ?expected primary pid" if "pid \<in> set ids" for pid
      using ok [OF Inr] that unfolding tail_id_def by auto
    moreover have "length ids \<le> n - length hybrid" using ok [OF Inr] by blast
    ultimately show ?thesis using h unfolding eq Inr by (auto dest: in_set_takeD)
  qed (simp add: eq)
qed

subsection \<open>The page of a search\<close>

lemma fetch_products_short: "length (fetch_products_by_ids sc rows ids) \<le> length ids"
proof -
  have "length (List.map_filter f xs) \<le> length xs" for f :: "pyval \<Rightarrow> pydict option" and xs
    by (simp add: map_filter_def)
  then show ?thesis
    using py_dedup_facts(2) [of ids] by (auto simp: fetch_products_by_ids_def Let_def intro: le_trans)
qed

lemma result_page_short:
  "length (fst (result_page ceil sc rows p primary hydrate ids)) \<le> length ids"
  "length (snd (result_page ceil sc rows p primary hydrate ids)) \<le> length ids"
  using fetch_products_short [of sc rows ids]
  by (auto simp: result_page_def Let_def intro: le_trans [OF length_filter_le])

lemma rank_items:
  assumes "rank cfg sp score pv dk q cands po (Some k) ens = Inr (out, r')"
  shows "length (rk_results out) \<le> k" and "x \<in> set (rk_results out) \<Longrightarrow> \<exists>c \<in> set cands. item_of x c"
proof -
  obtain r where ens: "ens = Inr r" using assms by (cases ens) (auto simp: rank_def)
  define rq where "rq = ranking_query sp q po"
  have "length (rk_results out) \<le> k \<and> (\<forall>x \<in> set (rk_results out). \<exists>c \<in> set cands. item_of x c)"
  proof (cases "rerank rq cands (\<lambda>ps. fst (score ps r)) k (Some k)")
    case (Inl e)
    then show ?thesis
      using assms fallback_length [of cands k] fallback_items [of _ cands k]
      by (auto simp: rank_def ens Let_def rq_def [symmetric])
  next
    case (Inr results)
    obtain provider where "rk_results out = apply_floors cfg provider results"
      using assms Inr by (auto simp: rank_def ens Let_def rq_def [symmetric])
    then show ?thesis
      using apply_floors_sub [of cfg provider results] rerank_short [OF Inr] rerank_items [OF Inr]
      by (metis le_trans subsetD)
  qed
  then show "length (rk_results out) \<le> k" and "x \<in> set (rk_results out) \<Longrightarrow> \<exists>c \<in> set cands. item_of x c"
    by blast+
qed

lemma search_ranked_items:
  assumes "search_ranked eng q cands p k st = (Inr out, st')"
  shows "length (rk_results out) \<le> k" and "x \<in> set (rk_results out) \<Longrightarrow> \<exists>c \<in> set cands. item_of x c"
  using assms
  by (auto simp: search_ranked_def no_ranking_def rank_items split: if_splits sum.splits prod.splits)

definition page_room :: "search_settings \<Rightarrow> nat option \<Rightarrow> nat" where
  "page_room cfg limit = (case limit of None \<Rightarrow> RERANK_TOP_K cfg | Some n \<Rightarrow> n)"

definition page_sound ::
    "('e, 's, 'r) engine \<Rightarrow> string list option \<Rightarrow> nat \<Rightarrow> search_result \<Rightarrow> bool" where
  "page_sound eng allowed room r \<longleftrightarrow>
     length (sr_ids r) \<le> room \<and> length (sr_products r) \<le> room
     \<and> list_all (id_allowed (eng_scope eng) (database_rows (eng_backend eng))
         (expected_types (target_ad_type (pd_plan (sr_planned r))) allowed))
         (sr_primary r @ sr_hybrid r @ sr_related r)
     \<and> set (map py_str (sr_primary r)) \<inter> set (map py_str (sr_hybrid r @ sr_related r)) = {}"

lemma primary_limit_le: "primary_limit cfg limit window \<le> page_room cfg limit"
  by (auto simp: primary_limit_def page_room_def split: option.split)

lemma filtered_search_sound:
  "\<exists>answer. filtered_search ceil (eng_search eng) (eng_scope eng) (eng_backend eng) pd limit allowed = Some answer
    \<and> (\<forall>r. answer = Inr r \<longrightarrow> page_sound eng allowed (page_room (eng_search eng) limit) r)"
proof -
  let ?be = "eng_backend eng" and ?sc = "eng_scope eng"
  let ?fetch = "\<lambda>ids. fetch_product_types_by_ids ?sc (database_rows ?be) (map VStr ids)"
  let ?n = "page_room (eng_search eng) limit"
  let ?expected = "expected_types (target_ad_type (pd_plan pd)) allowed"
  obtain answer where answer: "related_tail_product_ids ceil (lexical_index ?be) (pd_resolved pd)
      (inferred_categories (pd_plan pd)) (target_ad_type (pd_plan pd)) (int ?n) [] [] ?fetch
      (sort_order (pd_plan pd)) allowed = Some answer"
    and ok: "tail_answer ?fetch ?expected (nat (int ?n)) [] answer"
    using related_tail_ends by blast
  have n: "int (case limit of None \<Rightarrow> RERANK_TOP_K (eng_search eng) | Some n \<Rightarrow> n) = int ?n"
    by (simp add: page_room_def)
  show ?thesis
  proof (cases answer)
    case (Inl e)
    then show ?thesis by (simp add: filtered_search_def n answer Let_def)
  next
    case (Inr ids)
    have "length ids \<le> ?n" and "\<And>i. i \<in> set ids \<Longrightarrow> id_allowed ?sc (database_rows ?be) ?expected (VStr i)"
      using ok unfolding Inr tail_answer_def id_allowed_def type_allowed_def by fastforce+
    then show ?thesis
      using fetch_products_short [of ?sc "database_rows ?be" "map VStr ids"]
      by (auto simp: filtered_search_def n answer Inr Let_def page_sound_def list_all_iff)
  qed
qed

lemma semantic_search_sound:
  assumes "\<And>c. c \<in> set (rt_candidates r @ rt_tail r) \<Longrightarrow> candidate_allowed (eng_scope eng)
      (database_rows (eng_backend eng)) (expected_types (target_ad_type (pd_plan pd)) (rq_types rq)) c"
    and "length (rk_results ranked) \<le> primary_limit (eng_search eng) limit window"
    and "\<And>x. x \<in> set (rk_results ranked) \<Longrightarrow> \<exists>c \<in> set (rt_candidates r). item_of x c"
  shows "\<exists>answer. semantic_search eng rq limit window pd r ranked = Some answer
    \<and> (\<forall>out. answer = Inr out \<longrightarrow> page_sound eng (rq_types rq) (page_room (eng_search eng) limit) out)"
proof -
  define sc where "sc = eng_scope eng"
  define be where "be = eng_backend eng"
  define expected where "expected = expected_types (target_ad_type (pd_plan pd)) (rq_types rq)"
  define primary where "primary = ranked_product_ids sc (rk_results ranked)"
  define n where "n = (case limit of None \<Rightarrow> 0 | Some m \<Rightarrow> m - length primary)"
  note cand = assms(1) [folded sc_def be_def expected_def]
  note ids = ranked_ids_facts [OF assms(3), of "rk_results ranked" sc, simplified, folded primary_def]
  have allowed: "id_allowed sc (database_rows be) expected pid" if "pid \<in> set primary" for pid
    using ids(1) that cand by (fastforce simp: candidate_allowed_def Let_def)
  have room: "length primary + n \<le> page_room (eng_search eng) limit"
    using ids(2) assms(2) primary_limit_le [of "eng_search eng" limit window]
    by (auto simp: n_def page_room_def split: option.splits)
  obtain answer where answer: "search_tail (fee_ceiling (eng_vector eng)) sc be (pd_resolved pd) (pd_plan pd)
      (rk_results ranked) (rq_types rq) r primary n = Some answer"
    and ok: "\<And>h t. answer = Inr (h, t) \<Longrightarrow> length h + length t \<le> n \<and>
      (\<forall>pid \<in> set h \<union> set t. tail_id sc (database_rows be) expected primary pid)"
    using search_tail_facts [of r sc be "pd_plan pd" "rq_types rq", folded expected_def] cand by force
  note eq = semantic_search_def [of eng rq limit window pd r ranked, unfolded Let_def,
      folded sc_def be_def, folded primary_def, folded n_def, unfolded answer]
  show ?thesis
  proof (cases answer)
    case (Inl e)
    then show ?thesis by (simp add: eq)
  next
    case (Inr ht)
    obtain h t where ht: "ht = (h, t)" by (metis prod.exhaust)
    have tail: "length h + length t \<le> n" "\<And>pid. pid \<in> set h \<union> set t \<Longrightarrow> tail_id sc (database_rows be) expected primary pid"
      using ok Inr ht by blast+
    have "length (py_dedup (primary @ h @ t)) \<le> page_room (eng_search eng) limit"
      using py_dedup_facts(2) [of "primary @ h @ t"] room tail(1) by simp
    then have short: "length (fst (result_page c sc rows p primary hy (py_dedup (primary @ h @ t)))) \<le> page_room (eng_search eng) limit"
      "length (snd (result_page c sc rows p primary hy (py_dedup (primary @ h @ t)))) \<le> page_room (eng_search eng) limit"
      for c rows p hy
      using result_page_short le_trans by metis+
    have ids_ok: "list_all (id_allowed sc (database_rows be) expected) (primary @ h @ t)"
      using tail(2) allowed by (fastforce simp: list_all_iff tail_id_def)
    have "py_str pid \<notin> set (map py_str primary)" if "pid \<in> set (h @ t)" for pid
      using tail(2) [of pid] that unfolding tail_id_def by simp
    then have disjoint: "set (map py_str primary) \<inter> set (map py_str (h @ t)) = {}"
      unfolding disjoint_iff by (metis (no_types, lifting) imageE list.set_map)
    show ?thesis
      using short ids_ok disjoint unfolding eq Inr ht
      by (simp add: page_sound_def sc_def [symmetric] be_def [symmetric] expected_def [symmetric])
  qed
qed

subsection \<open>search answers\<close>

definition answer_sound :: "('e, 's, 'r) engine \<Rightarrow> 'e search_request \<Rightarrow> py_error + search_result \<Rightarrow> bool" where
  "answer_sound eng rq answer =
     (case answer of Inl e \<Rightarrow> True
      | Inr r \<Rightarrow> sr_cache_hit r
          \<or> page_sound eng (rq_types rq) (page_room (eng_search eng) (map_option nat (rq_limit rq))) r)"

lemma semantic_path_sound:
  "\<exists>answer st'. search_semantic_path eng rq limit window pd st = Some (answer, st')
    \<and> (\<forall>r. answer = Inr r \<longrightarrow> page_sound eng (rq_types rq) (page_room (eng_search eng) limit) r)"
proof -
  define p where "p = pd_plan pd"
  define future where "future = (if rq_embedding rq = None \<and> rq_planned rq = None
    then start_speculative_embedding (eng_config eng) (eng_backend eng) (rq_query rq) else rq_embedding rq)"
  obtain got where got: "retrieve (eng_vector eng) (eng_fusion eng) (eng_search eng) (eng_policy eng)
      (eng_scope eng) (eng_backend eng) p (pd_resolved pd) (rerank_candidate_limit (eng_search eng) limit window)
      (rq_types rq) (rq_window rq \<noteq> None)
      (prefetched_embedding future (rq_query rq) (semantic_query p)) = got" by blast
  note eq = search_semantic_path_def [of eng rq limit window pd st, unfolded Let_def,
      folded p_def, folded future_def, unfolded got]
  show ?thesis
  proof (cases got)
    case (Inl e)
    then show ?thesis by (simp add: eq)
  next
    case (Inr r)
    obtain rk st1 where rk: "search_ranked eng (rq_query rq) (rt_candidates r) p
        (primary_limit (eng_search eng) limit window) st = (rk, st1)" by (metis prod.exhaust)
    show ?thesis
    proof (cases rk)
      case (Inl e)
      then show ?thesis by (simp add: eq Inr rk)
    next
      case ranked: (Inr ranked)
      obtain vs bs where split: "rt_candidates r @ rt_tail r = eligible_candidates (eng_fusion eng) (eng_policy eng)
          (eng_scope eng) (database_rows (eng_backend eng)) p (rq_types rq) vs bs"
        by (rule retrieve_cases [OF got [unfolded Inr]])
      note items = search_ranked_items [OF rk [unfolded ranked]]
      obtain answer where "semantic_search eng rq limit window pd r ranked = Some answer"
        and "\<And>out. answer = Inr out \<Longrightarrow> page_sound eng (rq_types rq) (page_room (eng_search eng) limit) out"
        using semantic_search_sound [of r eng pd rq ranked limit window] items
          eligible_allowed [of _ "eng_fusion eng" "eng_policy eng" "eng_scope eng"
            "database_rows (eng_backend eng)" p "rq_types rq" vs bs] split
        unfolding p_def [symmetric] by metis
      then show ?thesis by (simp add: eq Inr rk ranked store_result_def)
    qed
  qed
qed


subsection \<open>Degraded retrieval\<close>


subsection \<open>Prefetching the embedding\<close>

lemma prefetched_vector:
  "run_vector vcfg cfg sc be p fs limit allowed
      (prefetched_embedding (start_speculative_embedding c be query) query (semantic_query p))
    = run_vector vcfg cfg sc be p fs limit allowed None"
  by (auto simp: prefetched_embedding_def start_speculative_embedding_def run_vector_def vector_search_def Let_def
      split: option.split sum.split)

theorem prefetch_transparent:
  "search eng now (rq\<lparr>rq_embedding := start_speculative_embedding (eng_config eng) (eng_backend eng) (rq_query rq)\<rparr>) st
   = search eng now (rq\<lparr>rq_embedding := Some (Inl failure)\<rparr>) st"
proof -
  let ?started = "start_speculative_embedding (eng_config eng) (eng_backend eng) (rq_query rq)"
  let ?a = "rq\<lparr>rq_embedding := ?started\<rparr>" and ?b = "rq\<lparr>rq_embedding := Some (Inl failure)\<rparr>"
  have key: "result_cache_key c rc ix ?a = result_cache_key c rc ix ?b" for c rc ix
    by (simp add: result_cache_key_def version_parts_def)
  have none: "prefetched_embedding (Some (Inl failure)) q s = None" for q s
    by (simp add: prefetched_embedding_def)
  have future: "(if ?started = None \<and> planned = None then ?started else ?started) = ?started"
    "(if Some (Inl failure) = None \<and> planned = None then ?started else Some (Inl failure)) = Some (Inl failure)"
    for planned :: "planned option"
    by simp_all
  have fields: "rq_query (rq\<lparr>rq_embedding := f\<rparr>) = rq_query rq" "rq_types (rq\<lparr>rq_embedding := f\<rparr>) = rq_types rq"
    "rq_window (rq\<lparr>rq_embedding := f\<rparr>) = rq_window rq" "rq_planned (rq\<lparr>rq_embedding := f\<rparr>) = rq_planned rq"
    "rq_limit (rq\<lparr>rq_embedding := f\<rparr>) = rq_limit rq" "rq_embedding (rq\<lparr>rq_embedding := f\<rparr>) = f" for f
    by simp_all
  have get: "cached_search_result (eng_config eng) (eng_results eng) sc (eng_backend eng) ?a s
      = cached_search_result (eng_config eng) (eng_results eng) sc (eng_backend eng) ?b s" for sc s
  proof -
    have "rq_hydrate ?a = rq_hydrate ?b" by simp
    then show ?thesis unfolding cached_search_result_def key by (simp only:)
  qed
  have put: "store_result eng ?a answer st' = store_result eng ?b answer st'" for answer st'
    by (simp only: store_result_def cache_search_result_def key)
  have page: "semantic_search eng ?a l w pd r rk = semantic_search eng ?b l w pd r rk" for l w pd r rk
    by (simp add: semantic_search_def)
  have got: "retrieve vcfg fcfg cfg sp sc (eng_backend eng) p fs l allowed strict
        (prefetched_embedding ?started (rq_query rq) (semantic_query p))
      = retrieve vcfg fcfg cfg sp sc (eng_backend eng) p fs l allowed strict None" for vcfg fcfg cfg sp sc p fs l allowed strict
    by (simp only: retrieve_def prefetched_vector)
  have path: "search_semantic_path eng ?a l w pd st' = search_semantic_path eng ?b l w pd st'" for l w pd st'
    unfolding search_semantic_path_def Let_def fields page put future none got by (rule refl)
  have planned: "search_planned eng now ?a st' = search_planned eng now ?b st'" for st'
    unfolding search_planned_def fields by simp
  show ?thesis
    unfolding search_def get put path planned Let_def fields by (rule refl)
qed

subsection \<open>The price order\<close>

definition shown_price :: "pyfloat \<Rightarrow> pydict \<Rightarrow> pyfloat option" where
  "shown_price ceil product =
     (case to_float (dget product ''rental_fee'') of
        None \<Rightarrow> None | Some price \<Rightarrow> if price \<le> ceil then None else Some price)"

text \<open>Ranked products before the tail; in each, priced before unpriced, and the prices in order.\<close>

definition shown_before :: "pyfloat \<Rightarrow> bool \<Rightarrow> pydict \<Rightarrow> pydict \<Rightarrow> bool" where
  "shown_before ceil descending a b \<longleftrightarrow>
     (let ranked = (\<lambda>x. dget x ''result_tier'' = VStr ''ranked'')
      in if ranked a \<noteq> ranked b then ranked a
         else (case (shown_price ceil a, shown_price ceil b) of
             (Some x, Some y) \<Rightarrow> if descending then y \<le> x else x \<le> y
           | (None, Some y) \<Rightarrow> False
           | _ \<Rightarrow> True))"

lemma product_price_before:
  "product_price_key ceil descending a \<le> product_price_key ceil descending b \<Longrightarrow> shown_before ceil descending a b"
  by (auto simp: product_price_key_def shown_before_def shown_price_def Let_def less_eq_prod_def
      split: option.splits if_splits)

theorem price_order_within_tiers:
  "case result_page ceil sc rows
      (p\<lparr>sort_order := Some (if descending then ''price_desc'' else ''price_asc'')\<rparr>) primary True ids of
     (page, shown) \<Rightarrow>
       sorted_wrt (shown_before ceil descending) shown
       \<and> mset shown = mset (map (\<lambda>x. with_tier (tier_of sc primary x) x) (fetch_products_by_ids sc rows ids))
       \<and> page = filter (\<lambda>v. v \<noteq> VNone) (map (\<lambda>x. dget x (result_id_column sc)) shown)"
proof -
  define xs where "xs = map (\<lambda>x. with_tier (tier_of sc primary x) x) (fetch_products_by_ids sc rows ids)"
  have "sorted_wrt (\<lambda>a b. product_price_key ceil descending a \<le> product_price_key ceil descending b)
      (sort_key (product_price_key ceil descending) xs)"
    by (metis sorted_map sorted_sort_key)
  then have "sorted_wrt (shown_before ceil descending) (sort_key (product_price_key ceil descending) xs)"
    by (rule sorted_wrt_mono_rel [rotated]) (blast intro: product_price_before)
  then show ?thesis
    by (cases descending) (simp_all add: result_page_def price_sorted_def xs_def [symmetric] Let_def)
qed

subsection \<open>Hard filters\<close>

definition same_product :: "candidate \<Rightarrow> candidate \<Rightarrow> bool" where
  "same_product a b \<longleftrightarrow> cand_id a = cand_id b \<and> cand_text a = cand_text b \<and> cand_metadata a = cand_metadata b"

lemma merge_item_origin:
  assumes "\<And>i c s. (i, c, s) \<in> set m \<Longrightarrow> \<exists>x \<in> X. same_product x c" and "y \<in> X"
    and "(i, c, s) \<in> set (merge_item source g y m)"
  shows "\<exists>x \<in> X. same_product x c"
proof -
  have upd: "(i, c, s) \<in> set (AList.update k v m') \<Longrightarrow> (c, s) = v \<or> (i, c, s) \<in> set m'" for k v m'
    by (induction m') (auto split: if_splits)
  show ?thesis
  proof (cases "map_of m (cand_id y)")
    case None
    then show ?thesis using assms upd [of "cand_id y" "(y\<lparr>cand_source := source\<rparr>, 0 + g)" m]
      by (auto simp: merge_item_def same_product_def)
  next
    case (Some e)
    obtain c0 s0 where e: "e = (c0, s0)" by (metis prod.exhaust)
    obtain x where "x \<in> X" "same_product x c0"
      using assms(1) map_of_SomeD [OF Some [unfolded e]] by blast
    then show ?thesis
      using assms(1,3) upd unfolding merge_item_def Some e option.case prod.case Let_def same_product_def
      by (fastforce split: if_splits)
  qed
qed

lemma merge_source_origin:
  assumes "\<And>i c s. (i, c, s) \<in> set m \<Longrightarrow> \<exists>x \<in> X. same_product x c" and "set ys \<subseteq> X"
    and "(i, c, s) \<in> set (merge_source source w k n ys m)"
  shows "\<exists>x \<in> X. same_product x c"
  using assms
proof (induction ys arbitrary: m n)
  case (Cons y ys)
  have y: "y \<in> X" and ys: "set ys \<subseteq> X" using Cons.prems(2) by auto
  have step: "\<exists>x \<in> X. same_product x c'" if "(i', c', s') \<in> set (merge_item source (w / (k + of_nat n)) y m)" for i' c' s'
    by (rule merge_item_origin [OF Cons.prems(1) y that])
  show ?case by (rule Cons.IH [OF step ys]) (use Cons.prems(3) in simp_all)
qed simp

lemma merge_results_origin:
  assumes "c \<in> set (merge_results cfg vs bs inferred)"
  shows "\<exists>x \<in> set vs \<union> set bs. same_product x c"
proof -
  define m where "m = merge_source ''bm25'' (bm25_weight cfg) (rrf_constant cfg) 1 bs
      (merge_source ''vector'' (vector_weight cfg) (rrf_constant cfg) 1 vs [])"
  obtain i c0 s0 where m: "(i, c0, s0) \<in> set m" and c: "same_product c0 c"
  proof -
    assume found: "\<And>i c0 s0. (i, c0, s0) \<in> set m \<Longrightarrow> same_product c0 c \<Longrightarrow> thesis"
    have "merge_results cfg vs bs inferred = map (\<lambda>(c, s). c\<lparr>fusion_score := Some s\<rparr>)
        (sort_desc snd (map (\<lambda>(i, c, s). (c, s + category_boost (soft_category_boost cfg) inferred c)) m))"
      by (simp add: merge_results_def m_def Let_def)
    then show thesis using assms by (auto simp: same_product_def intro: found)
  qed
  have vector: "\<exists>x \<in> set vs \<union> set bs. same_product x c'" if "(i', c', s') \<in> set
      (merge_source ''vector'' (vector_weight cfg) (rrf_constant cfg) 1 vs [])" for i' c' s'
    by (rule merge_source_origin [OF _ _ that]) auto
  have "\<exists>x \<in> set vs \<union> set bs. same_product x c0"
    by (rule merge_source_origin [OF _ _ m [unfolded m_def]]) (blast intro: vector, blast)
  then obtain x where "x \<in> set vs \<union> set bs" "same_product x c0" by blast
  then show ?thesis using c by (auto simp: same_product_def)
qed

text \<open>A candidate the hard filters accept: by its metadata, or as a row of the lexical index.\<close>

definition meets_filters ::
    "pyfloat \<Rightarrow> tenant_scope \<Rightarrow> bm25_index \<Rightarrow> filters \<Rightarrow> bool \<Rightarrow> candidate \<Rightarrow> bool" where
  "meets_filters ceil sc ix fs unp c \<longleftrightarrow>
     metadata_matches_filters ceil (cand_metadata c) (source_name sc) fs (tenant_id sc) unp
     \<or> (\<exists>p \<in> set (products ix). row_matches ceil fs unp p \<and> doc_id p = cand_id c \<and> content p = cand_text c)"

lemma run_vector_meets:
  assumes "c \<in> set (results_or_none (run_vector vcfg cfg sc be p fs limit allowed e))"
  shows "metadata_matches_filters (fee_ceiling vcfg) (cand_metadata c) (source_name sc) fs (tenant_id sc)
    (include_unpriced_for (target_ad_type p) allowed)"
proof -
  obtain k rows where "c \<in> set (collect_rows (\<lambda>metadata. metadata_matches_filters (fee_ceiling vcfg) metadata
      (source_name sc) fs (tenant_id sc) (include_unpriced_for (target_ad_type p) allowed)) k [] rows)"
    using assms
    by (auto simp: run_vector_def results_or_none_def vector_search_def Let_def split: if_splits sum.splits)
  then show ?thesis by (auto simp: collect_rows_eq vector_candidate_def dest!: in_set_takeD)
qed

lemma index_search_rows:
  assumes "h \<in> set (index_search fts ceil query fs k unp ix)"
  shows "\<exists>p \<in> set (products ix). row_matches ceil fs unp p \<and> doc_id p = hit_doc_id h \<and> content p = hit_content h"
proof -
  have "tokenize_query query \<noteq> []" "0 < k"
    using assms by (auto simp: index_search_def Let_def split: if_splits)
  then show ?thesis
    using assms by (auto simp: index_search_eq hit_of_def matching_rows_def dest!: in_set_takeD)
qed

lemma run_bm25_meets:
  assumes "c \<in> set (results_or_none (run_bm25 ceil cfg sc be p fs limit allowed))"
  shows "\<exists>p' \<in> set (products (lexical_index be)). row_matches ceil fs (include_unpriced_for (target_ad_type p) allowed) p'
    \<and> doc_id p' = cand_id c \<and> content p' = cand_text c"
  using assms
  by (auto simp: run_bm25_def results_or_none_def bm25_search_def lexical_candidate_def
      dest!: index_search_rows split: option.splits)

text \<open>
  C7: With a policy that adds no candidates, every candidate of the window and of the tail
  satisfies the hard filters: by its metadata for the tenant and source, or as a row of the
  lexical index.
\<close>

theorem retrieved_candidates_meet_filters:
  assumes "\<And>q cs. set (adjust_candidates sp q cs) \<subseteq> set cs"
    and "retrieve vcfg fcfg cfg sp sc be p fs limit allowed strict e = Inr r"
  shows "list_all (meets_filters (fee_ceiling vcfg) sc (lexical_index be) fs
      (include_unpriced_for (target_ad_type p) allowed)) (rt_candidates r @ rt_tail r)"
proof -
  obtain vs bs where all: "rt_candidates r @ rt_tail r = eligible_candidates fcfg sp sc (database_rows be) p allowed vs bs"
    and vs: "vs = results_or_none (run_vector vcfg cfg sc be p fs limit allowed e)"
    and bs: "bs = results_or_none (run_bm25 (fee_ceiling vcfg) cfg sc be p fs limit allowed)"
    by (rule retrieve_cases [OF assms(2)])
  have "meets_filters (fee_ceiling vcfg) sc (lexical_index be) fs (include_unpriced_for (target_ad_type p) allowed) c"
    if "c \<in> set (eligible_candidates fcfg sp sc (database_rows be) p allowed vs bs)" for c
  proof -
    have "c \<in> set (merge_results fcfg vs bs (inferred_categories p))"
      using that assms(1) by (auto simp: eligible_candidates_def filter_candidates_by_ad_type_def Let_def)
    then obtain x where x: "x \<in> set vs \<union> set bs" "same_product x c" using merge_results_origin by blast
    then show ?thesis
      using run_vector_meets [of x vcfg cfg sc be p fs limit allowed e]
        run_bm25_meets [of x "fee_ceiling vcfg" cfg sc be p fs limit allowed]
      by (auto simp: vs bs meets_filters_def same_product_def)
  qed
  then show ?thesis by (simp only: all list_all_iff) blast
qed

end
