(* ===== verification/Engine_Cache.thy ===== *)
theory Engine_Cache
  imports Engine_Facts
begin

text \<open>
  The result cache of \<open>search/engine_support.py\<close>: only complete answers are stored, what is
  served was stored under the same key, equal keys mean equal documents and equal request
  parameters, and a stored page reads back as the page that was shown.
\<close>

subsection \<open>What a search puts in the cache and takes from it\<close>

text \<open>The plan cache lives in another namespace of the same store: it leaves the results alone.\<close>

definition separate_plans :: "('e, 's, 'r) engine \<Rightarrow> ('s \<Rightarrow> (string \<times> cached_payload) set) \<Rightarrow> bool" where
  "separate_plans eng held \<longleftrightarrow>
     (case eng_plans eng of None \<Rightarrow> True
      | Some po \<Rightarrow> (\<forall>k s. held (snd (store_get po k s)) = held s) \<and> (\<forall>k v s. held (store_set po k v s) = held s))"

definition newly_cached ::
    "('e, 's, 'r) engine \<Rightarrow> 'e search_request \<Rightarrow> py_error + search_result \<Rightarrow> (string \<times> cached_payload) set" where
  "newly_cached eng rq answer =
     (case answer of Inl e \<Rightarrow> {}
      | Inr r \<Rightarrow> if cacheable r \<and> \<not> sr_cache_hit r
          then {(result_cache_key (eng_config eng) (eng_results eng) (lexical_index (eng_backend eng)) rq, payload_of r)}
          else {})"

definition served_from ::
    "('e, 's, 'r) engine \<Rightarrow> 'e search_request \<Rightarrow> (string \<times> cached_payload) set \<Rightarrow> py_error + search_result \<Rightarrow> bool" where
  "served_from eng rq known answer \<longleftrightarrow>
     (\<forall>r. answer = Inr r \<longrightarrow> sr_cache_hit r \<longrightarrow>
        (\<exists>pl. (result_cache_key (eng_config eng) (eng_results eng) (lexical_index (eng_backend eng)) rq, pl) \<in> known
          \<and> r = result_of_payload (eng_scope eng) (database_rows (eng_backend eng)) (rq_hydrate rq) pl))"

lemma cached_plan_shared:
  assumes "case store of None \<Rightarrow> True | Some po \<Rightarrow> \<forall>k s. held (snd (store_get po k s)) = held s"
  shows "held (snd (snd (cached_plan cfg store now q (m, s)))) = held s"
proof (cases store)
  case None
  obtain r1 m1 where "memory_plan now (query_cache_key cfg q) m = (r1, m1)" by (metis prod.exhaust)
  then show ?thesis by (cases r1) (simp_all add: cached_plan_def None)
next
  case (Some po)
  obtain r1 m1 where mem: "memory_plan now (query_cache_key cfg q) m = (r1, m1)" by (metis prod.exhaust)
  obtain r2 s2 where got: "store_get po (query_cache_key cfg q) s = (r2, s2)" by (metis prod.exhaust)
  have "held s2 = held s" using assms got unfolding Some option.case by (metis snd_conv)
  then show ?thesis by (simp add: cached_plan_def Some mem got split: option.split)
qed

lemma cache_plan_shared:
  assumes "case store of None \<Rightarrow> True | Some po \<Rightarrow> \<forall>k v s. held (store_set po k v s) = held s"
  shows "held (snd (cache_plan cfg store now q v (m, s))) = held s"
  using assms by (auto simp: cache_plan_def split: option.splits)

lemma engine_plan_shared:
  assumes "separate_plans eng held"
  shows "held (snd (snd (snd (engine_plan cfg (eng_plans eng) now compute q (prompts, m, s))))) = held s"
proof -
  have sep: "case eng_plans eng of None \<Rightarrow> True | Some po \<Rightarrow> \<forall>k s. held (snd (store_get po k s)) = held s"
    "case eng_plans eng of None \<Rightarrow> True | Some po \<Rightarrow> \<forall>k v s. held (store_set po k v s) = held s"
    using assms by (auto simp: separate_plans_def split: option.splits)
  obtain r m1 s1 where got: "cached_plan cfg (eng_plans eng) now q (m, s) = (r, m1, s1)" by (metis prod.exhaust)
  have s1: "held s1 = held s" using cached_plan_shared [OF sep(1), of cfg now q m s] by (simp add: got)
  have put: "held (snd (cache_plan cfg (eng_plans eng) now q v (m1, s1))) = held s1" for v
    by (rule cache_plan_shared [OF sep(2)])
  show ?thesis
    using s1 put by (auto simp: engine_plan_def got split: option.split sum.split prod.split)
qed

lemma search_planned_shared:
  assumes "separate_plans eng held" and "search_planned eng now rq st = (answer, st')"
  shows "held (st_shared st') = held (st_shared st)"
proof (cases "rq_planned rq")
  case None
  let ?run = "engine_plan (eng_config eng) (eng_plans eng) now
      (compute_plan (eng_config eng) (eng_policy eng) (eng_values eng) (eng_model eng) (eng_json eng))
      (rq_query rq) (st_prompts st, st_plans st, st_shared st)"
  obtain a prompts plans shared where run: "?run = (a, prompts, plans, shared)" by (metis prod.exhaust)
  have "held shared = held (st_shared st)"
    using engine_plan_shared [OF assms(1), of "eng_config eng" now "compute_plan (eng_config eng) (eng_policy eng)
        (eng_values eng) (eng_model eng) (eng_json eng)" "rq_query rq" "st_prompts st" "st_plans st" "st_shared st"]
    by (simp add: run)
  moreover have "st' = st\<lparr>st_prompts := prompts, st_plans := plans, st_shared := shared\<rparr>"
    using assms(2) unfolding search_planned_def None option.case run prod.case by (simp only: prod.inject)
  ultimately show ?thesis by simp
next
  case (Some pd)
  then show ?thesis using assms(2) by (auto simp: search_planned_def)
qed

lemma search_ranked_shared: "st_shared (snd (search_ranked eng q cands p k st)) = st_shared st"
  by (auto simp: search_ranked_def split: sum.split prod.split)

lemma mapped_Inr:
  assumes "map_option (map_sum id f) t = Some (Inr r)" and "\<And>x. P (f x)"
  shows "P r"
proof -
  obtain x where "t = Some x" "map_sum id f x = Inr r" using assms(1) by blast
  then show ?thesis using assms(2) by (cases x) auto
qed

lemma not_a_hit:
  assumes "filtered_search ceil cfg sc be pd limit allowed = Some (Inr r)
    \<or> semantic_search eng rq l w pd rt rk = Some (Inr r)"
  shows "\<not> sr_cache_hit r"
  using assms unfolding filtered_search_def semantic_search_def Let_def
  by (elim disjE) (erule mapped_Inr, simp split: prod.split)+

text \<open>A fresh answer, stored from a state whose results are known.\<close>

definition grows_by :: "('e, 's, 'r) engine \<Rightarrow> 'e search_request \<Rightarrow> ('s \<Rightarrow> (string \<times> cached_payload) set)
    \<Rightarrow> (string \<times> cached_payload) set \<Rightarrow> py_error + search_result \<Rightarrow> ('s, 'r) engine_state \<Rightarrow> bool" where
  "grows_by eng rq held known answer st' \<longleftrightarrow>
     held (st_shared st') \<subseteq> known \<union> newly_cached eng rq answer \<and> served_from eng rq known answer"

lemma store_result_grows:
  assumes "\<And>ops. result_store (eng_results eng) = Some ops \<Longrightarrow> honest_store ops held"
    and "held (st_shared st) \<subseteq> known" and "\<And>r. answer = Inr r \<Longrightarrow> \<not> sr_cache_hit r"
  shows "grows_by eng rq held known (fst (store_result eng rq answer st)) (snd (store_result eng rq answer st))"
proof (cases answer)
  case (Inl e)
  then show ?thesis using assms(2) by (auto simp: grows_by_def store_result_def served_from_def)
next
  case (Inr r)
  have fresh: "\<not> sr_cache_hit r" by (rule assms(3) [OF Inr])
  show ?thesis
  proof (cases "result_store (eng_results eng)")
    case None
    then show ?thesis using assms(2) fresh
      by (auto simp: grows_by_def store_result_def Inr cache_search_result_def served_from_def)
  next
    case (Some ops)
    let ?key = "result_cache_key (eng_config eng) (eng_results eng) (lexical_index (eng_backend eng)) rq"
    have set: "held (store_set ops ?key (payload_of r) (st_shared st)) \<subseteq> insert (?key, payload_of r) (held (st_shared st))"
      using assms(1) [OF Some] unfolding honest_store_def by blast
    have "held (cache_search_result (eng_config eng) (eng_results eng) (eng_backend eng) rq r (st_shared st))
        \<subseteq> known \<union> newly_cached eng rq (Inr r)"
      using assms(2) fresh set by (auto simp: cache_search_result_def newly_cached_def Some)
    then show ?thesis using fresh by (simp add: grows_by_def store_result_def Inr served_from_def)
  qed
qed

lemma semantic_path_grows:
  assumes "\<And>ops. result_store (eng_results eng) = Some ops \<Longrightarrow> honest_store ops held"
    and "held (st_shared st) \<subseteq> known"
    and "search_semantic_path eng rq limit window pd st = Some (answer, st')"
  shows "grows_by eng rq held known answer st'"
proof -
  obtain got where got: "retrieve (eng_vector eng) (eng_fusion eng) (eng_search eng) (eng_policy eng)
      (eng_scope eng) (eng_backend eng) (pd_plan pd) (pd_resolved pd)
      (rerank_candidate_limit (eng_search eng) limit window) (rq_types rq) (rq_window rq \<noteq> None)
      (prefetched_embedding (if rq_embedding rq = None \<and> rq_planned rq = None
         then start_speculative_embedding (eng_config eng) (eng_backend eng) (rq_query rq) else rq_embedding rq)
       (rq_query rq) (semantic_query (pd_plan pd))) = got" by blast
  note run = assms(3) [unfolded search_semantic_path_def Let_def got]
  have plain: "grows_by eng rq held known (Inl e) st1" if "st_shared st1 = st_shared st" for e st1
    using assms(2) that by (auto simp: grows_by_def served_from_def)
  show ?thesis
  proof (cases got)
    case (Inl e)
    then show ?thesis using run plain by auto
  next
    case (Inr r)
    obtain rk st1 where rk: "search_ranked eng (rq_query rq) (rt_candidates r) (pd_plan pd)
        (primary_limit (eng_search eng) limit window) st = (rk, st1)" by (metis prod.exhaust)
    have st1: "st_shared st1 = st_shared st"
      using search_ranked_shared [of eng "rq_query rq" "rt_candidates r" "pd_plan pd"
          "primary_limit (eng_search eng) limit window" st] by (simp add: rk)
    show ?thesis
    proof (cases rk)
      case (Inl e)
      then show ?thesis using run plain st1 by (auto simp: Inr rk)
    next
      case ranked: (Inr ranked)
      obtain a where a: "semantic_search eng rq limit window pd r ranked = Some a"
        and out: "(answer, st') = store_result eng rq a st1"
        using run by (auto simp: Inr rk ranked)
      have fresh: "\<not> sr_cache_hit x" if "a = Inr x" for x using a that not_a_hit by blast
      have known: "held (st_shared st1) \<subseteq> known" using assms(2) st1 by simp
      show ?thesis using store_result_grows [OF assms(1) known fresh, where rq = rq] out by (metis fst_conv snd_conv)
    qed
  qed
qed


subsection \<open>Equal keys\<close>

lemma join_sep_inj:
  assumes "join [z] (xs @ [x]) = join [z] (ys @ [y])" and "length xs = length ys"
    and "list_all (\<lambda>s. z \<notin> set s) xs" and "list_all (\<lambda>s. z \<notin> set s) ys"
  shows "xs = ys \<and> x = y"
  using assms
proof (induction xs arbitrary: ys)
  case (Cons a xs)
  then obtain b ys' where ys: "ys = b # ys'" by (cases ys) auto
  have cons: "join [z] (c # zs @ [w]) = c @ z # join [z] (zs @ [w])" for c zs w by (cases zs) auto
  have head: "takeWhile (\<lambda>c. c \<noteq> z) (c @ z # rest) = c \<and> dropWhile (\<lambda>c. c \<noteq> z) (c @ z # rest) = z # rest"
    if "z \<notin> set c" for c rest
    using that by (induction c) auto
  have eq: "a @ z # join [z] (xs @ [x]) = b @ z # join [z] (ys' @ [y])"
    using Cons.prems(1) by (simp add: ys cons)
  have ab: "z \<notin> set a" "z \<notin> set b" using Cons.prems by (auto simp: ys)
  have "a = b" "join [z] (xs @ [x]) = join [z] (ys' @ [y])"
    using head [OF ab(1)] head [OF ab(2)] eq by (metis, metis list.inject)
  then show ?case using Cons.IH [of ys'] Cons.prems by (auto simp: ys)
qed simp

lemma digits_no_NUL: "NUL \<notin> set (show_nat n)" "NUL \<notin> set (show_optional v)"
proof -
  have nat: "NUL \<notin> set (show_nat k)" for k
    using show_nat_digits [of NUL k] by (auto simp: is_digit_def NUL_def)
  show "NUL \<notin> set (show_nat n)" by (rule nat)
  show "NUL \<notin> set (show_optional v)"
    using nat by (auto simp: show_optional_def show_int_def NUL_def split: option.split)
qed

lemma show_optional_inj: "show_optional v = show_optional w \<Longrightarrow> v = w"
proof -
  have "show_nat k \<noteq> ''None''" for k
  proof
    assume "show_nat k = ''None''"
    then have "is_digit (CHR ''N'')" using show_nat_digits [of "CHR ''N''" k] by simp
    then show False by (simp add: is_digit_def)
  qed
  then have no: "show_int i \<noteq> ''None''" for i by (simp add: show_int_def)
  assume "show_optional v = show_optional w"
  then show ?thesis using no by (cases v; cases w) (auto simp: show_optional_def dest: show_int_inj sym)
qed

text \<open>
  The settings' parts and the dumped filters hold no NUL (\<open>json.dumps\<close> escapes it), and neither
  do the ad types; the query may.
\<close>

definition nul_free :: "'s result_cache \<Rightarrow> 'e search_request \<Rightarrow> bool" where
  "nul_free rc rq \<longleftrightarrow>
     list_all (\<lambda>s. NUL \<notin> set s) (parts_before rc @ parts_after rc)
     \<and> (case rq_filters rq of None \<Rightarrow> True | Some fs \<Rightarrow> NUL \<notin> set (dump_filters rc fs))
     \<and> NUL \<notin> set (join '','' (sort (dedup (case rq_types rq of None \<Rightarrow> [] | Some ts \<Rightarrow> ts))))"

lemma version_parts_inj:
  fixes rq rq' :: "'b search_request"
  assumes "join [NUL] (version_parts cfg rc ix rq) = join [NUL] (version_parts cfg rc ix' rq')"
    and "nul_free rc rq" and "nul_free rc rq'"
  shows "version_parts cfg rc ix rq = version_parts cfg rc ix' rq'"
proof -
  define init where "init = (\<lambda>ix rq :: 'b search_request. butlast (version_parts cfg rc ix rq))"
  have split: "version_parts cfg rc ix rq = init ix rq @ [query_cache_key cfg (rq_query rq)]" for ix and rq :: "'b search_request"
    by (simp add: init_def version_parts_def butlast_append)
  have len: "length (init ix rq) = length (init ix' rq')"
    by (simp add: init_def version_parts_def butlast_append)
  have free: "list_all (\<lambda>s. NUL \<notin> set s) (init ix rq)" if "nul_free rc rq" for ix and rq :: "'b search_request"
    using that digits_no_NUL
    by (auto simp: init_def version_parts_def butlast_append nul_free_def split: option.splits)
  show ?thesis
    using join_sep_inj [OF assms(1) [unfolded split] len free [OF assms(2)] free [OF assms(3)]]
    by (simp add: split)
qed

text \<open>What two requests with one key have in common.\<close>

definition same_request :: "'s result_cache \<Rightarrow> 'e search_request \<Rightarrow> 'e search_request \<Rightarrow> bool" where
  "same_request rc rq rq' \<longleftrightarrow>
     rq_limit rq = rq_limit rq' \<and> rq_window rq = rq_window rq'
     \<and> norm_text (rq_query rq) = norm_text (rq_query rq')
     \<and> (case rq_filters rq of None \<Rightarrow> [] | Some fs \<Rightarrow> dump_filters rc fs)
       = (case rq_filters rq' of None \<Rightarrow> [] | Some fs \<Rightarrow> dump_filters rc fs)
     \<and> join '','' (sort (dedup (case rq_types rq of None \<Rightarrow> [] | Some ts \<Rightarrow> ts)))
       = join '','' (sort (dedup (case rq_types rq' of None \<Rightarrow> [] | Some ts \<Rightarrow> ts)))"

lemma version_parts_same:
  assumes "version_parts cfg rc ix rq = version_parts cfg rc ix' rq'"
  shows "revision ix = revision ix' \<and> index_count ix = index_count ix' \<and> same_request rc rq rq'"
  using assms
  by (auto simp: version_parts_def same_request_def query_cache_key_def dest: show_nat_inj show_optional_inj)


subsection \<open>A stored page reads back\<close>

fun is_text :: "pyval \<Rightarrow> bool" where
  "is_text (VStr s) = True"
| "is_text _ = False"

lemma text_ids: "list_all is_text vs \<Longrightarrow> map VStr (map py_str vs) = vs"
proof (induction vs)
  case (Cons v vs)
  then show ?case by (cases v) simp_all
qed simp

definition same_page :: "search_result \<Rightarrow> search_result \<Rightarrow> bool" where
  "same_page a b \<longleftrightarrow> sr_planned a = sr_planned b \<and> sr_provider a = sr_provider b
     \<and> sr_primary a = sr_primary b \<and> sr_hybrid a = sr_hybrid b \<and> sr_related a = sr_related b
     \<and> sr_ids a = sr_ids b \<and> sr_products a = sr_products b"

text \<open>A page just computed, with its product rows and not re-sorted by price.\<close>

definition fresh_page :: "('e, 's, 'r) engine \<Rightarrow> 'e search_request \<Rightarrow> search_result \<Rightarrow> bool" where
  "fresh_page eng rq out \<longleftrightarrow> rq_hydrate rq \<and> (\<exists>limit window pd r ranked.
     (execution_path (pd_plan pd) = Some ''deterministic_filter''
      \<and> filtered_search (fee_ceiling (eng_vector eng)) (eng_search eng) (eng_scope eng) (eng_backend eng) pd limit
          (rq_types rq) = Some (Inr out))
     \<or> (execution_path (pd_plan pd) \<noteq> Some ''deterministic_filter'' \<and> \<not> price_sorted (pd_plan pd)
        \<and> semantic_search eng rq limit window pd r ranked = Some (Inr out)))"

lemma fresh_page_cases:
  assumes "fresh_page eng rq out"
  shows "rq_hydrate rq \<and> (\<exists>tier.
      sr_products out = map (\<lambda>x. with_tier (tier x) x)
        (fetch_products_by_ids (eng_scope eng) (database_rows (eng_backend eng)) (sr_ids out))
      \<and> tier = (if execution_path (pd_plan (sr_planned out)) = Some ''deterministic_filter'' then (\<lambda>x. ''filtered'')
           else tier_of (eng_scope eng) (sr_primary out)))
    \<and> set (sr_ids out) \<subseteq> set (sr_primary out @ sr_hybrid out @ sr_related out)"
proof -
  obtain limit window pd r ranked where hydrate: "rq_hydrate rq" and "
     (execution_path (pd_plan pd) = Some ''deterministic_filter''
      \<and> filtered_search (fee_ceiling (eng_vector eng)) (eng_search eng) (eng_scope eng) (eng_backend eng) pd limit
          (rq_types rq) = Some (Inr out))
     \<or> (execution_path (pd_plan pd) \<noteq> Some ''deterministic_filter'' \<and> \<not> price_sorted (pd_plan pd)
        \<and> semantic_search eng rq limit window pd r ranked = Some (Inr out))"
    using assms unfolding fresh_page_def by blast
  then consider (filtered) "execution_path (pd_plan pd) = Some ''deterministic_filter''"
      "filtered_search (fee_ceiling (eng_vector eng)) (eng_search eng) (eng_scope eng) (eng_backend eng) pd limit
          (rq_types rq) = Some (Inr out)"
    | (semantic) "execution_path (pd_plan pd) \<noteq> Some ''deterministic_filter''" "\<not> price_sorted (pd_plan pd)"
      "semantic_search eng rq limit window pd r ranked = Some (Inr out)" by blast
  then show ?thesis
  proof cases
    case filtered
    show ?thesis
      by (rule mapped_Inr [OF filtered(2) [unfolded filtered_search_def Let_def]])
        (simp add: filtered(1) hydrate)
  next
    case semantic
    have page: "result_page c sc rows (pd_plan pd) primary True ids
        = (ids, map (\<lambda>x. with_tier (tier_of sc primary x) x) (fetch_products_by_ids sc rows ids))" for c sc rows primary ids
      using semantic(2) by (simp add: result_page_def)
    show ?thesis
      apply (rule mapped_Inr [OF semantic(3) [unfolded semantic_search_def Let_def]])
      subgoal for ht
        using py_dedup_facts(1) [of "ranked_product_ids (eng_scope eng) (rk_results ranked) @ fst ht @ snd ht"] semantic(1)
        by (cases ht) (simp add: hydrate page)
      done
  qed
qed

theorem cached_page_reads_back:
  assumes "fresh_page eng rq out"
    and "list_all is_text (sr_primary out @ sr_hybrid out @ sr_related out)"
  shows "same_page (result_of_payload (eng_scope eng) (database_rows (eng_backend eng)) (rq_hydrate rq) (payload_of out)) out"
proof -
  have ids: "set (sr_ids out) \<subseteq> set (sr_primary out @ sr_hybrid out @ sr_related out)"
    and hydrate: "rq_hydrate rq" using fresh_page_cases [OF assms(1)] by auto
  have "list_all is_text (sr_ids out)" using ids assms(2) unfolding list_all_iff by blast
  then have texts: "map VStr (map py_str (sr_ids out)) = sr_ids out"
    "map VStr (map py_str (sr_primary out)) = sr_primary out" "map VStr (map py_str (sr_hybrid out)) = sr_hybrid out"
    "map VStr (map py_str (sr_related out)) = sr_related out"
    using assms(2) by (auto simp only: text_ids list_all_append)
  obtain tier where products: "sr_products out = map (\<lambda>x. with_tier (tier x) x)
        (fetch_products_by_ids (eng_scope eng) (database_rows (eng_backend eng)) (sr_ids out))"
    and tier: "tier = (if execution_path (pd_plan (sr_planned out)) = Some ''deterministic_filter'' then (\<lambda>x. ''filtered'')
           else tier_of (eng_scope eng) (sr_primary out))"
    using fresh_page_cases [OF assms(1)] by blast
  let ?page = "result_of_payload (eng_scope eng) (database_rows (eng_backend eng)) (rq_hydrate rq) (payload_of out)"
  have "sr_products ?page = map (\<lambda>x. with_tier (tier x) x)
      (fetch_products_by_ids (eng_scope eng) (database_rows (eng_backend eng)) (sr_ids out))"
    unfolding result_of_payload_def payload_of_def Let_def cached_payload.select_convs search_result.select_convs
      texts if_P [OF hydrate] tier
    by (cases "execution_path (pd_plan (sr_planned out)) = Some ''deterministic_filter''") simp_all
  then have "sr_products ?page = sr_products out" by (simp only: products)
  moreover have "sr_planned ?page = sr_planned out" "sr_provider ?page = sr_provider out"
    "sr_primary ?page = sr_primary out" "sr_hybrid ?page = sr_hybrid out" "sr_related ?page = sr_related out"
    "sr_ids ?page = sr_ids out"
    unfolding result_of_payload_def payload_of_def Let_def cached_payload.select_convs search_result.select_convs texts
    by simp_all
  ultimately show ?thesis unfolding same_page_def by blast
qed

subsection \<open>An example engine\<close>

definition ex_table :: id_rows where
  "ex_table ids = filter (\<lambda>row. py_str (dget row ''id'') \<in> set (map py_str ids))
     [[(''id'', VStr ''pa''), (''type'', VInt 1), (''rental_fee'', VFloat 100)],
      [(''id'', VStr ''pb''), (''type'', VInt 2)],
      [(''id'', VStr ''pc''), (''type'', VInt 1), (''rental_fee'', VFloat 40)]]"

definition ex_tenant :: tenant_scope where
  "ex_tenant = \<lparr>source_name = ''s'', tenant_id = Some ''t'', source_type = ''mysql'', search_table = ''products'',
     search_id_column = ''id'', result_id_column = ''id'', result_type_column = ''type'',
     post_filter_metadata = NoPostFilter, related_tail_enabled = True, related_tail_requires_category = False\<rparr>"

definition ex_backend :: "unit search_backend" where
  "ex_backend = \<lparr>collection = ex_collection, embed_text = (\<lambda>_. Inl (RuntimeError ''down'')), lexical_index = ex_index,
     lexical_ranks = ex_fts, lexical_fault = None, database_rows = ex_table\<rparr>"

definition ex_settings :: search_settings where
  "ex_settings = \<lparr>RERANK_TOP_K = 1, HYBRID_CANDIDATE_K = 1, VECTOR_TOP_K = 5, BM25_TOP_K = 5,
     RETRIEVAL_OVERFETCH_FACTOR = 2, VECTOR_CANDIDATE_K = 5, PRIMARY_RANKED_K = 1, RERANK_CANDIDATE_K = 1\<rparr>"

definition payload_store :: "(cached_payload, (string, cached_payload) dict) shared_store" where
  "payload_store = \<lparr>store_get = (\<lambda>k s. (map_of s k, s)), store_set = AList.update\<rparr>"

definition ex_results :: "(string, cached_payload) dict result_cache" where
  "ex_results = \<lparr>result_cache_enabled = True, result_store = Some payload_store, parts_before = [''v1'', ''t'', ''g''],
     parts_after = [''m''], dump_filters = (\<lambda>fs. concat (map fst (categorical fs))), digest = (\<lambda>s. s)\<rparr>"

definition ex_fusion :: fusion_settings where
  "ex_fusion = \<lparr>rrf_constant = 60, vector_weight = 1, bm25_weight = 1, soft_category_boost = 0\<rparr>"

definition ex_floor :: floor_settings where
  "ex_floor = \<lparr>reranker_min_score_by_provider = [], reranker_relative_score_floor = 0\<rparr>"

text \<open>One engine whose embedding is up and one whose embedding is down.\<close>

definition ex_search_engine :: "(py_error + unit) \<Rightarrow> (unit, (string, cached_payload) dict, unit) engine" where
  "ex_search_engine embedding = \<lparr>eng_config = ex_engine, eng_policy = DEFAULT_SEARCH_POLICY, eng_values =
       \<lparr>vi_values = [], vi_subcategory_main = [], vi_city_state = [], vi_locality_location = []\<rparr>,
     eng_model = (\<lambda>_ _. Inl (RuntimeError ''down'')), eng_json = (\<lambda>_. Inl (ValueError ''json'')),
     eng_vector = ex_vector, eng_fusion = ex_fusion, eng_search = ex_settings, eng_floor = ex_floor,
     eng_scope = ex_tenant, eng_backend = ex_backend\<lparr>embed_text := (\<lambda>_. embedding)\<rparr>, eng_loaded = Inr (),
     eng_score = (\<lambda>ps r. (Inr (map (\<lambda>_. 1) ps), r)), eng_provider = (\<lambda>_. ''voyage''), eng_plans = None,
     eng_results = ex_results\<rparr>"

definition ex_search :: "int \<Rightarrow> unit search_request" where
  "ex_search n = \<lparr>rq_query = ''red car'', rq_limit = Some n, rq_planned = Some (ex_planned\<lparr>pd_plan :=
       new_plan (default_query_plan ''red car'' None)\<rparr>),
     rq_filters = Some \<lparr>categorical = [(''state_name'', VStr ''Kerala'')], min_fee = None, max_fee = None\<rparr>,
     rq_types = None, rq_window = None, rq_hydrate = True, rq_embedding = None\<rparr>"

definition ex_state :: "((string, cached_payload) dict, unit) engine_state" where
  "ex_state = \<lparr>st_prompts = [], st_plans = [], st_shared = [], st_reranker = None\<rparr>"

definition ex_ids :: "py_error + search_result \<Rightarrow> (pyval list \<times> bool) option" where
  "ex_ids answer = (case answer of Inl e \<Rightarrow> None | Inr r \<Rightarrow> Some (sr_ids r, sr_cache_hit r))"

definition ex_view :: "((py_error + search_result) \<times> ((string, cached_payload) dict, unit) engine_state) option
    \<Rightarrow> ((pyval list \<times> bool) option \<times> nat) option" where
  "ex_view out = map_option (\<lambda>(answer, st). (ex_ids answer, length (st_shared st))) out"

lemma ex_search_eval:
  "ex_view (search (ex_search_engine (Inr ())) 0 (ex_search 3) ex_state) = Some (Some ([VStr ''pc'', VStr ''pa''], False), 1)"
  by code_simp

lemma ex_viewE:
  assumes "ex_view out = Some (Some (ids, hit), n)"
  obtains r st where "out = Some (Inr r, st)" "sr_ids r = ids" "sr_cache_hit r = hit" "length (st_shared st) = n"
proof -
  obtain answer st where out: "out = Some (answer, st)" "ex_ids answer = Some (ids, hit)" "length (st_shared st) = n"
    using assms by (auto simp: ex_view_def)
  then show ?thesis by (cases answer) (auto simp: ex_ids_def intro: that)
qed

lemma ex_idsE:
  assumes "map_option ex_ids out = Some (Some (ids, hit))"
  obtains r where "out = Some (Inr r)" "sr_ids r = ids"
proof -
  obtain answer where out: "out = Some answer" "ex_ids answer = Some (ids, hit)" using assms by auto
  then show ?thesis by (cases answer) (auto simp: ex_ids_def intro: that)
qed

lemma payload_store_honest: "honest_store payload_store (\<lambda>s. {(k, v). map_of s k = Some v})"
  by (auto simp: honest_store_def payload_store_def update_conv' split: if_splits)


lemma ex_degraded:
  "ex_view (search (ex_search_engine (Inl (RuntimeError ''x''))) 0 (ex_search 3) ex_state) =
    Some (Some ([VStr ''pc'', VStr ''pa''], False), 0)"
  by code_simp

definition ex_meets :: "py_error + retrieved \<Rightarrow> string list" where
  "ex_meets answer = (case answer of Inl e \<Rightarrow> [] | Inr r \<Rightarrow> map cand_id (rt_candidates r @ rt_tail r))"

definition ex_retrieved :: "py_error + retrieved" where
  "ex_retrieved = retrieve ex_vector ex_fusion ex_settings DEFAULT_SEARCH_POLICY ex_tenant ex_backend
     (new_plan (default_query_plan ''red car'' None)) ex_tail_filters (Some 1) None False None"

lemma ex_retrieved_eval: "ex_meets ex_retrieved = [''c'', ''a'']"
  by code_simp

theorem retrieved_candidates_meet_filters_witness:
  "\<exists>r. ex_retrieved = Inr r \<and> map cand_id (rt_candidates r @ rt_tail r) = [''c'', ''a'']
    \<and> list_all (meets_filters 1 ex_tenant ex_index ex_tail_filters False) (rt_candidates r @ rt_tail r)"
proof -
  obtain r where r: "ex_retrieved = Inr r" "map cand_id (rt_candidates r @ rt_tail r) = [''c'', ''a'']"
  proof (cases ex_retrieved)
    case (Inl e)
    show ?thesis using ex_retrieved_eval unfolding Inl ex_meets_def by simp
  next
    case (Inr r)
    show ?thesis using ex_retrieved_eval unfolding Inr ex_meets_def sum.case by (rule that [OF Inr])
  qed
  have keep: "set (adjust_candidates DEFAULT_SEARCH_POLICY q cs) \<subseteq> set cs" for q cs
    by (simp add: DEFAULT_SEARCH_POLICY_def)
  have same: "fee_ceiling ex_vector = 1" "lexical_index ex_backend = ex_index"
    "include_unpriced_for (target_ad_type (new_plan (default_query_plan ''red car'' None))) None = False"
    by code_simp+
  show ?thesis
    by (rule exI [of _ r], intro conjI r)
      (rule retrieved_candidates_meet_filters [OF keep r(1) [unfolded ex_retrieved_def], unfolded same])
qed

definition ex_history :: "index_op list" where "ex_history = [UpsertRows ex_rows]"
definition ex_quiet :: "index_op list" where "ex_quiet = [UpsertRows ex_rows, DeleteIds [''z'']]"

definition ex_same_search :: "unit search_request" where
  "ex_same_search = (ex_search 3)\<lparr>rq_query := ''  RED car'', rq_hydrate := False\<rparr>"

lemma ex_same_key:
  "result_cache_key ex_engine ex_results (fold apply_op ex_history empty_index) (ex_search 3)
    = result_cache_key ex_engine ex_results (fold apply_op (ex_history @ ex_quiet) empty_index) ex_same_search"
  by code_simp

lemma ex_nul_free: "nul_free ex_results (ex_search 3)" "nul_free ex_results ex_same_search"
  by code_simp+


definition ex_browse :: planned where
  "ex_browse = ex_planned\<lparr>pd_plan := (new_plan (default_query_plan ''red car'' None))\<lparr>
     execution_path := Some ''deterministic_filter''\<rparr>, pd_resolved := ex_tail_filters\<rparr>"

definition ex_filtered :: "(py_error + search_result) option" where
  "ex_filtered = filtered_search 1 ex_settings ex_tenant ex_backend ex_browse (Some 5) None"

lemma ex_filtered_eval: "map_option ex_ids ex_filtered = Some (Some ([VStr ''pc'', VStr ''pa''], False))"
  by code_simp

theorem cached_page_reads_back_witness:
  "\<exists>out. ex_filtered = Some (Inr out) \<and> sr_ids out = [VStr ''pc'', VStr ''pa'']
    \<and> same_page (result_of_payload ex_tenant ex_table True (payload_of out)) out"
proof -
  let ?eng = "ex_search_engine (Inl (RuntimeError ''down''))"
  have eng: "fee_ceiling (eng_vector ?eng) = 1" "eng_search ?eng = ex_settings" "eng_scope ?eng = ex_tenant"
    "eng_backend ?eng = ex_backend" "database_rows ex_backend = ex_table" "rq_types (ex_search 5) = None"
    "rq_hydrate (ex_search 5) = True"
    by (simp_all add: ex_search_engine_def ex_backend_def ex_search_def ex_vector_def)
  obtain out where out: "ex_filtered = Some (Inr out)" "sr_ids out = [VStr ''pc'', VStr ''pa'']"
    by (rule ex_idsE [OF ex_filtered_eval])
  have fresh: "fresh_page ?eng (ex_search 5) out"
    using out(1) unfolding fresh_page_def eng ex_filtered_def
    by (intro conjI TrueI exI [of _ "Some 5"] exI [of _ ex_browse] exI disjI1) (simp_all add: ex_browse_def)
  have "list_all is_text (sr_primary out @ sr_hybrid out @ sr_related out)"
    by (rule mapped_Inr [OF out(1) [unfolded ex_filtered_def filtered_search_def Let_def]]) (simp add: list_all_iff)
  from cached_page_reads_back [OF fresh this] out show ?thesis unfolding eng by blast
qed

end
