(* ===== verification/Redis_Cache.thy ===== *)
theory Redis_Cache
  imports Request_Limit Py_Text Py_Value
begin

text \<open>
  \<open>storage/redis.py\<close>: the JSON cache with its failure cooldown, the atomic prepend of a unique
  item, and the two Lua scripts behind the coordinated limiters. The client is an argument: what
  each exchange gave. Keys live on the server with an expiry; server and script times are
  milliseconds. Lua numbers are exact here.
\<close>

subsection \<open>The connection\<close>

record redis_cache =
  key_prefix :: string
  retry_cooldown_seconds :: pyfloat
  connected :: bool
  retry_after :: pyfloat

datatype 'a reply = Reply 'a | Unreachable

definition redis_key :: "redis_cache \<Rightarrow> string \<Rightarrow> string \<Rightarrow> string" where
  "redis_key c namespace key = key_prefix c @ '':'' @ namespace @ '':'' @ key"

definition can_attempt :: "bool \<Rightarrow> pyfloat \<Rightarrow> redis_cache \<Rightarrow> bool" where
  "can_attempt force now c \<longleftrightarrow> force \<or> connected c \<or> retry_after c \<le> now"

definition mark_success :: "redis_cache \<Rightarrow> redis_cache" where
  "mark_success c = c\<lparr>connected := True, retry_after := 0\<rparr>"

definition mark_failure :: "pyfloat \<Rightarrow> redis_cache \<Rightarrow> redis_cache" where
  "mark_failure now c = c\<lparr>connected := False, retry_after := now + retry_cooldown_seconds c\<rparr>"

definition ping :: "bool \<Rightarrow> pyfloat \<Rightarrow> bool reply \<Rightarrow> redis_cache \<Rightarrow> bool \<times> redis_cache" where
  "ping force now answer c =
     (if \<not> can_attempt force now c then (False, c)
      else (case answer of
          Unreachable \<Rightarrow> (False, mark_failure now c)
        | Reply ok \<Rightarrow> (ok, if ok then mark_success c else c)))"

text \<open>\<open>json_loads\<close> gives \<open>None\<close> on a text that is not JSON; only dictionaries are returned.\<close>

definition get_json ::
    "(string \<Rightarrow> pyval option) \<Rightarrow> pyfloat \<Rightarrow> string option reply \<Rightarrow> redis_cache \<Rightarrow> pydict option \<times> redis_cache" where
  "get_json json_loads now answer c =
     (if \<not> can_attempt False now c then (None, c)
      else (case answer of
          Unreachable \<Rightarrow> (None, mark_failure now c)
        | Reply raw \<Rightarrow>
            (case raw of
               None \<Rightarrow> None
             | Some t \<Rightarrow> (case json_loads t of Some (VDict d) \<Rightarrow> Some d | _ \<Rightarrow> None), mark_success c)))"

definition set_json :: "pyfloat \<Rightarrow> unit reply \<Rightarrow> redis_cache \<Rightarrow> bool \<times> redis_cache" where
  "set_json now answer c =
     (if \<not> can_attempt False now c then (False, c)
      else (case answer of
          Unreachable \<Rightarrow> (False, mark_failure now c)
        | Reply _ \<Rightarrow> (True, mark_success c)))"

subsection \<open>prepend_unique_json_item\<close>

definition item_identity :: "string \<Rightarrow> pydict \<Rightarrow> string" where
  "item_identity field item = casefold (py_str (dget_or item field (VStr [])))"

text \<open>The numeric ids: \<open>str(item.get("id", "")).isdigit()\<close>.\<close>

definition numeric_id :: "pydict \<Rightarrow> int option" where
  "numeric_id item =
     (let s = py_str (dget_or item ''id'' (VStr [])) in if all_digits s then Some (int (read_nat s)) else None)"

text \<open>\<open>None\<close>: the stored value cannot be iterated.\<close>

definition stored_items :: "(string \<Rightarrow> pyval option) \<Rightarrow> string option \<Rightarrow> pydict list option" where
  "stored_items json_loads raw =
     (let payload = (case raw of None \<Rightarrow> Some (VDict []) | Some t \<Rightarrow> json_loads t);
          items = (case payload of Some (VDict d) \<Rightarrow> dget_or d ''items'' (VList []) | _ \<Rightarrow> VList [])
      in case items of
           VList xs \<Rightarrow> Some (List.map_filter (\<lambda>x. case x of VDict d \<Rightarrow> Some d | _ \<Rightarrow> None) xs)
         | VStr _ \<Rightarrow> Some []
         | VDict _ \<Rightarrow> Some []
         | _ \<Rightarrow> None)"

text \<open>The id of the incoming item is raised until it is free.\<close>

function free_id :: "int list \<Rightarrow> int \<Rightarrow> int" where
  "free_id used i = (if i \<in> set used then free_id used (i + 1) else i)"
  by pat_completeness auto
termination
proof (relation "measure (\<lambda>(used, i). card {j \<in> set used. i \<le> j})")
  fix used :: "int list" and i
  assume a: "i \<in> set used"
  have "{j \<in> set used. i + 1 \<le> j} \<subseteq> {j \<in> set used. i \<le> j} - {i}" by auto
  also have "\<dots> \<subset> {j \<in> set used. i \<le> j}" using a by auto
  finally show "((used, i + 1), used, i) \<in> measure (\<lambda>(used, i). card {j \<in> set used. i \<le> j})"
    by (simp add: psubset_card_mono)
qed simp

declare free_id.simps [simp del]

definition prepend_item :: "string \<Rightarrow> nat \<Rightarrow> pydict \<Rightarrow> pydict list \<Rightarrow> pydict list" where
  "prepend_item field limit item items =
     (let others = filter (\<lambda>x. item_identity field x \<noteq> item_identity field item) items;
          used = List.map_filter numeric_id others;
          incoming = (case numeric_id item of
              None \<Rightarrow> item
            | Some i \<Rightarrow> if i \<in> set used then AList.update ''id'' (VInt (free_id used i)) item else item)
      in take limit (incoming # others))"

text \<open>One optimistic attempt: what was read, and how the transaction ended.\<close>

datatype exec_outcome = Executed | Contended | ExecFailed

fun prepend_attempts ::
    "(string \<Rightarrow> pyval option) \<Rightarrow> string \<Rightarrow> nat \<Rightarrow> pydict \<Rightarrow> pyfloat \<Rightarrow> nat
      \<Rightarrow> (string option \<times> exec_outcome) list \<Rightarrow> redis_cache \<Rightarrow> pydict list option \<times> redis_cache" where
  "prepend_attempts json_loads field limit item now 0 tries c = (None, c)"
| "prepend_attempts json_loads field limit item now (Suc n) [] c = (None, c)"
| "prepend_attempts json_loads field limit item now (Suc n) ((raw, outcome) # tries) c =
     (case stored_items json_loads raw of
        None \<Rightarrow> (None, mark_failure now c)
      | Some items \<Rightarrow>
          (case outcome of
             Executed \<Rightarrow> (Some (prepend_item field limit item items), mark_success c)
           | Contended \<Rightarrow> prepend_attempts json_loads field limit item now n tries c
           | ExecFailed \<Rightarrow> (None, mark_failure now c)))"

definition prepend_unique_json_item ::
    "(string \<Rightarrow> pyval option) \<Rightarrow> string \<Rightarrow> int \<Rightarrow> int \<Rightarrow> pydict \<Rightarrow> pyfloat
      \<Rightarrow> (string option \<times> exec_outcome) list \<Rightarrow> redis_cache \<Rightarrow> pydict list option \<times> redis_cache" where
  "prepend_unique_json_item json_loads field ttl limit item now tries c =
     (if \<not> can_attempt False now c \<or> ttl \<le> 0 \<or> limit \<le> 0 then (None, c)
      else prepend_attempts json_loads field (nat limit) item now 16 tries c)"

subsection \<open>TOKEN_BUCKET_SCRIPT\<close>

record redis_bucket =
  rb_tokens :: pyfloat
  rb_updated :: pyfloat
  rb_expires :: pyfloat

definition live_bucket :: "pyfloat \<Rightarrow> redis_bucket option \<Rightarrow> redis_bucket option" where
  "live_bucket server key =
     (case key of None \<Rightarrow> None | Some b \<Rightarrow> if rb_expires b \<le> server then None else Some b)"

definition TOKEN_BUCKET_SCRIPT ::
    "pyfloat \<Rightarrow> pyfloat \<Rightarrow> pyfloat \<Rightarrow> pyfloat \<Rightarrow> pyfloat \<Rightarrow> pyfloat \<Rightarrow> redis_bucket option
      \<Rightarrow> (int \<times> int) \<times> redis_bucket option" where
  "TOKEN_BUCKET_SCRIPT server now refill capacity ttl cost key =
     (let (tokens0, updated) = (case live_bucket server key of
            None \<Rightarrow> (capacity, now) | Some b \<Rightarrow> (rb_tokens b, rb_updated b));
          tokens = min capacity (tokens0 + (now - updated) * refill);
          (ok, left) = (if cost \<le> tokens then (1, tokens - cost) else (0, tokens))
      in ((ok, \<lfloor>left\<rfloor>), Some \<lparr>rb_tokens = left, rb_updated = now, rb_expires = server + ttl\<rparr>))"

subsection \<open>SLIDING_WINDOW_SCRIPT\<close>

record redis_window =
  rw_entries :: "(int \<times> string) list"
  rw_expires :: int
  rw_sequence :: nat
  rw_sequence_expires :: int

definition no_window :: redis_window where
  "no_window = \<lparr>rw_entries = [], rw_expires = 0, rw_sequence = 0, rw_sequence_expires = 0\<rparr>"

definition window_member :: "int \<Rightarrow> nat \<Rightarrow> string" where
  "window_member now n = show_int now @ '':'' @ show_nat n"

text \<open>A sorted set by score; adding a member that is present moves it to the new score.\<close>

definition zadd :: "int \<Rightarrow> string \<Rightarrow> (int \<times> string) list \<Rightarrow> (int \<times> string) list" where
  "zadd score member z = insort (score, member) (filter (\<lambda>e. snd e \<noteq> member) z)"

definition SLIDING_WINDOW_SCRIPT ::
    "int \<Rightarrow> int \<Rightarrow> int \<Rightarrow> redis_window \<Rightarrow> (int \<times> int) \<times> redis_window" where
  "SLIDING_WINDOW_SCRIPT now limit window w =
     (let entries = (if rw_expires w \<le> now then [] else rw_entries w);
          live = filter (\<lambda>e. now - window < fst e) entries
      in if limit \<le> int (length live)
         then ((0, case live of [] \<Rightarrow> window | e # _ \<Rightarrow> max (window - (now - fst e)) 0),
               w\<lparr>rw_entries := live, rw_expires := now + window\<rparr>)
         else (let n = Suc (if rw_sequence_expires w \<le> now then 0 else rw_sequence w)
               in ((1, 0), \<lparr>rw_entries = zadd now (window_member now n) live, rw_expires = now + window,
                     rw_sequence = n, rw_sequence_expires = now + window\<rparr>)))"

subsection \<open>The coordinated limiters\<close>

text \<open>An exchange that runs a script: the reply may be lost before or after the script ran.\<close>

datatype exchange = Answered | LostReply | NotSent

definition run_script :: "exchange \<Rightarrow> ('s \<Rightarrow> 'a \<times> 's) \<Rightarrow> 's \<Rightarrow> 'a reply \<times> 's" where
  "run_script x script s =
     (case x of
        Answered \<Rightarrow> (Reply (fst (script s)), snd (script s))
      | LostReply \<Rightarrow> (Unreachable, snd (script s))
      | NotSent \<Rightarrow> (Unreachable, s))"

definition now_ms :: "pyfloat \<Rightarrow> pyfloat" where
  "now_ms now = of_int (py_trunc (now * 1000))"

definition allow_rate_limit ::
    "exchange \<Rightarrow> pyfloat \<Rightarrow> pyfloat \<Rightarrow> pyfloat \<Rightarrow> int \<Rightarrow> int \<Rightarrow> redis_cache \<times> redis_bucket option
      \<Rightarrow> (bool \<times> int) option \<times> (redis_cache \<times> redis_bucket option)" where
  "allow_rate_limit x monotonic now server rpm bst st =
     (case st of (c, key) \<Rightarrow>
        if \<not> can_attempt False monotonic c then (None, st)
        else (let refill = of_int rpm / 60000;
                  ttl = max 60000 (of_int \<lceil>(of_int bst / refill) * 2\<rceil>)
              in case run_script x (TOKEN_BUCKET_SCRIPT server (now_ms now) refill (of_int bst) ttl 1) key of
                   (Unreachable, key') \<Rightarrow> (None, (mark_failure monotonic c, key'))
                 | (Reply (ok, left), key') \<Rightarrow> (Some (ok \<noteq> 0, left), (mark_success c, key'))))"

definition allow_token_budget ::
    "exchange \<Rightarrow> pyfloat \<Rightarrow> pyfloat \<Rightarrow> pyfloat \<Rightarrow> int \<Rightarrow> int \<Rightarrow> redis_cache \<times> redis_bucket option
      \<Rightarrow> (py_error + (bool \<times> pyfloat) option) \<times> (redis_cache \<times> redis_bucket option)" where
  "allow_token_budget x monotonic now server budget estimated st =
     (case st of (c, key) \<Rightarrow>
        if \<not> can_attempt False monotonic c then (Inr None, st)
        else if estimated \<le> 0 \<or> budget \<le> 0
        then (Inl (ValueError ''token budget and estimate must be greater than zero''), st)
        else if budget < estimated then (Inr (Some (False, 60)), st)
        else (case run_script x (TOKEN_BUCKET_SCRIPT server (now_ms now) (of_int budget / 60000) (of_int budget)
                120000 (of_int estimated)) key of
            (Unreachable, key') \<Rightarrow> (Inr None, (mark_failure monotonic c, key'))
          | (Reply (ok, left), key') \<Rightarrow>
              (Inr (Some (ok \<noteq> 0, if ok \<noteq> 0 then 0
                 else max ((of_int estimated - max (of_int left) 0) / (of_int budget / 60)) 0)),
               (mark_success c, key'))))"

definition allow_request_window ::
    "exchange \<Rightarrow> pyfloat \<Rightarrow> int \<Rightarrow> int \<Rightarrow> pyfloat \<Rightarrow> redis_cache \<times> redis_window
      \<Rightarrow> (bool \<times> pyfloat) option \<times> (redis_cache \<times> redis_window)" where
  "allow_request_window x monotonic server_ms requests seconds st =
     (case st of (c, w) \<Rightarrow>
        if \<not> can_attempt False monotonic c then (None, st)
        else (case run_script x (SLIDING_WINDOW_SCRIPT server_ms requests
                (max (py_trunc (seconds * 1000)) 1)) w of
            (Unreachable, w') \<Rightarrow> (None, (mark_failure monotonic c, w'))
          | (Reply (ok, retry), w') \<Rightarrow>
              (Some (ok \<noteq> 0, max (of_int retry / 1000) 0), (mark_success c, w'))))"

subsection \<open>The coordinated token budget decides like the in-process one\<close>

fun redis_budget_run ::
    "int \<Rightarrow> redis_cache \<times> redis_bucket option \<Rightarrow> (int \<times> int) list \<Rightarrow> (py_error + (bool \<times> pyfloat) option) list" where
  "redis_budget_run n st [] = []"
| "redis_budget_run n st ((t, e) # calls) =
     (case allow_token_budget Answered (of_int t / 1000) (of_int t / 1000) (of_int t) n e st of
        (answer, st') \<Rightarrow> answer # redis_budget_run n st' calls)"

fun memory_budget_run :: "token_limiter \<Rightarrow> (int \<times> int) list \<Rightarrow> (bool \<times> pyfloat) list" where
  "memory_budget_run l [] = []"
| "memory_budget_run l ((t, e) # calls) =
     (case token_allow None e (of_int t / 1000) l of
        Inl err \<Rightarrow> []
      | Inr (answer, l') \<Rightarrow> answer # memory_budget_run l' calls)"

fun calls_ordered :: "int \<Rightarrow> (int \<times> int) list \<Rightarrow> bool" where
  "calls_ordered t [] = True"
| "calls_ordered t ((now, e) # calls) = (t \<le> now \<and> 0 < e \<and> calls_ordered now calls)"

text \<open>The same decision; a refusal's wait is rounded up by less than one token's refill.\<close>

definition close_answer :: "int \<Rightarrow> py_error + (bool \<times> pyfloat) option \<Rightarrow> bool \<times> pyfloat \<Rightarrow> bool" where
  "close_answer n redis memory =
     (case redis of
        Inr (Some (ok, wait)) \<Rightarrow> ok = fst memory \<and> snd memory \<le> wait \<and> wait < snd memory + 60 / of_int n
      | _ \<Rightarrow> False)"

definition bucket_mirrors :: "int \<Rightarrow> int \<Rightarrow> redis_bucket option \<Rightarrow> token_limiter \<Rightarrow> bool" where
  "bucket_mirrors n t key l \<longleftrightarrow>
     tokens_per_minute l = n \<and> 0 \<le> token_level l \<and> token_level l \<le> of_int n \<and> token_updated l \<le> of_int t / 1000
     \<and> (case key of
          None \<Rightarrow> token_level l = of_int n
        | Some b \<Rightarrow> rb_tokens b = token_level l \<and> rb_updated b = token_updated l * 1000
            \<and> rb_expires b = rb_updated b + 120000)"

lemma now_ms_exact [simp]: "now_ms (of_int t / 1000) = of_int t"
  by (simp add: now_ms_def py_trunc_def)

text \<open>The level both see: an expired key would have been full again.\<close>

lemma mirrored_level:
  assumes "bucket_mirrors n t0 key l" and "t0 \<le> t" and "0 < n"
  shows "(case live_bucket (of_int t) key of
        None \<Rightarrow> of_int n
      | Some b \<Rightarrow> min (of_int n) (rb_tokens b + (of_int t - rb_updated b) * (of_int n / 60000)))
    = min (of_int n) (token_level l + max (of_int t / 1000 - token_updated l) 0 * (of_int n / 60))"
proof -
  have "of_int t0 \<le> (of_int t :: pyfloat)" using assms(2) by simp
  then have late: "token_updated l \<le> of_int t / 1000"
    using assms(1) by (simp add: bucket_mirrors_def field_simps)
  show ?thesis
  proof (cases key)
    case None
    then have "token_level l = of_int n" using assms(1) by (simp add: bucket_mirrors_def)
    then show ?thesis using None assms(3) late by (simp add: live_bucket_def min_def)
  next
    case (Some b)
    then have b: "rb_tokens b = token_level l" "rb_updated b = token_updated l * 1000"
      "rb_expires b = rb_updated b + 120000" and level: "0 \<le> token_level l"
      using assms(1) by (auto simp: bucket_mirrors_def)
    have eq: "(of_int t - rb_updated b) * (of_int n / 60000)
        = max (of_int t / 1000 - token_updated l) 0 * (of_int n / 60)"
      using late by (simp add: b(2) max_def field_simps)
    show ?thesis
    proof (cases "rb_expires b \<le> of_int t")
      case True
      have "120 \<le> of_int t / 1000 - token_updated l" using True by (simp add: b field_simps)
      then have "120 * (of_int n / 60) \<le> (of_int t / 1000 - token_updated l) * (of_int n / (60 :: pyfloat))"
        using assms(3) by (intro mult_right_mono) simp_all
      then have "of_int n \<le> token_level l + max (of_int t / 1000 - token_updated l) 0 * (of_int n / 60)"
      proof -
        assume "120 * (of_int n / 60) \<le> (of_int t / 1000 - token_updated l) * (of_int n / (60 :: pyfloat))"
        moreover have "of_int n \<le> 120 * (of_int n / (60 :: pyfloat))" using assms(3) by simp
        moreover have "max (of_int t / 1000 - token_updated l) 0 = of_int t / 1000 - token_updated l"
          using late by simp
        ultimately show ?thesis
          by (metis add_increasing level order_trans)
      qed
      then show ?thesis using True Some by (simp add: live_bucket_def)
    next
      case False
      then have "live_bucket (of_int t) key = Some b" by (simp add: Some live_bucket_def)
      then show ?thesis unfolding b(1) [symmetric] by (simp only: option.case eq)
    qed
  qed
qed

lemma script_level:
  "TOKEN_BUCKET_SCRIPT server now refill capacity ttl cost key =
    (let tokens = (case live_bucket server key of None \<Rightarrow> capacity
           | Some b \<Rightarrow> min capacity (rb_tokens b + (now - rb_updated b) * refill));
         left = (if cost \<le> tokens then tokens - cost else tokens)
     in ((if cost \<le> tokens then 1 else 0, \<lfloor>left\<rfloor>),
         Some \<lparr>rb_tokens = left, rb_updated = now, rb_expires = server + ttl\<rparr>))"
  by (cases "live_bucket server key") (auto simp: TOKEN_BUCKET_SCRIPT_def Let_def)

lemma budget_step:
  assumes "bucket_mirrors n t0 key l" and "t0 \<le> t" and "0 < e" and "0 < n" and "connected c"
  shows "\<exists>answer key' memory l'.
    allow_token_budget Answered (of_int t / 1000) (of_int t / 1000) (of_int t) n e (c, key)
      = (answer, (if n < e then c else mark_success c, key'))
    \<and> token_allow None e (of_int t / 1000) l = Inr (memory, l')
    \<and> close_answer n answer memory \<and> bucket_mirrors n t key' l'"
proof (cases "n < e")
  case True
  have "bucket_mirrors n t key l"
    using assms(1,2) by (auto simp: bucket_mirrors_def intro: order_trans [OF _ divide_right_mono])
  then show ?thesis using True assms
    by (auto simp: allow_token_budget_def can_attempt_def token_allow_def close_answer_def bucket_mirrors_def)
next
  case False
  define level where "level = min (of_int n) (token_level l + max (of_int t / 1000 - token_updated l) 0 * (of_int n / 60))"
  have n: "tokens_per_minute l = n" using assms(1) by (simp add: bucket_mirrors_def)
  have level: "0 \<le> level" "level \<le> of_int n"
    using assms(1,4) by (auto simp: level_def bucket_mirrors_def)
  let ?left = "if of_int e \<le> level then level - of_int e else level"
  have script: "TOKEN_BUCKET_SCRIPT (of_int t) (of_int t) (of_int n / 60000) (of_int n) 120000 (of_int e) key
      = ((if of_int e \<le> level then 1 else 0, \<lfloor>?left\<rfloor>),
         Some \<lparr>rb_tokens = ?left, rb_updated = of_int t, rb_expires = of_int t + 120000\<rparr>)"
    unfolding script_level mirrored_level [OF assms(1,2,4)] level_def [symmetric] Let_def ..
  have memory: "token_allow None e (of_int t / 1000) l =
      Inr (if level < of_int e then ((False, max ((of_int e - level) / (of_int n / 60)) 0),
             l\<lparr>token_level := level, token_updated := of_int t / 1000\<rparr>)
           else ((True, 0), l\<lparr>token_updated := of_int t / 1000, token_level := level - of_int e\<rparr>))"
  proof -
    have "\<not> e \<le> 0" using assms(3) by simp
    then show ?thesis
      unfolding token_allow_def n token_allow_memory_def Let_def level_def [symmetric] using False by simp
  qed
  have attempt: "can_attempt False m c" for m using assms(5) by (simp add: can_attempt_def)
  show ?thesis
  proof (cases "of_int e \<le> level")
    case True
    have "bucket_mirrors n t (Some \<lparr>rb_tokens = level - of_int e, rb_updated = of_int t, rb_expires = of_int t + 120000\<rparr>)
        (l\<lparr>token_updated := of_int t / 1000, token_level := level - of_int e\<rparr>)"
      using True level assms(3) n by (simp add: bucket_mirrors_def)
    then show ?thesis
      using True False assms(3,4) attempt memory script
      by (simp add: allow_token_budget_def run_script_def close_answer_def not_less)
  next
    case no: False
    have floor: "0 \<le> \<lfloor>level\<rfloor>" "of_int \<lfloor>level\<rfloor> \<le> level" "level < of_int \<lfloor>level\<rfloor> + 1"
      using level(1) floor_less_iff [of level "\<lfloor>level\<rfloor> + 1"] by simp_all
    have wait: "max ((of_int e - level) / (of_int n / 60)) 0 = (of_int e - level) * 60 / of_int n"
      using no assms(4) by (simp add: max_def field_simps)
    have wait': "max ((of_int e - max (of_int \<lfloor>level\<rfloor>) 0) / (of_int n / 60)) 0 = (of_int e - of_int \<lfloor>level\<rfloor>) * 60 / (of_int n :: pyfloat)"
    proof -
      have "of_int \<lfloor>level\<rfloor> < (of_int e :: pyfloat)" using no floor(2) by linarith
      then have "0 \<le> (of_int e - of_int \<lfloor>level\<rfloor>) / (of_int n / (60 :: pyfloat))" using assms(4) by simp
      moreover have "max (of_int \<lfloor>level\<rfloor>) 0 = (of_int \<lfloor>level\<rfloor> :: pyfloat)" using floor(1) by simp
      ultimately show ?thesis by (simp only: max_absorb1) simp
    qed
    have "(of_int e - level) * 60 / of_int n \<le> (of_int e - of_int \<lfloor>level\<rfloor>) * 60 / (of_int n :: pyfloat)"
      using floor assms(4) by (intro divide_right_mono) auto
    moreover have "(of_int e - of_int \<lfloor>level\<rfloor>) * 60 / of_int n < (of_int e - level) * 60 / of_int n + 60 / (of_int n :: pyfloat)"
      using floor assms(4) by (simp add: add_divide_distrib [symmetric] divide_strict_right_mono)
    moreover have "bucket_mirrors n t (Some \<lparr>rb_tokens = level, rb_updated = of_int t, rb_expires = of_int t + 120000\<rparr>)
        (l\<lparr>token_level := level, token_updated := of_int t / 1000\<rparr>)"
      using level n by (simp add: bucket_mirrors_def)
    ultimately show ?thesis
      using no False assms(3,4) attempt memory script wait wait'
      by (simp add: allow_token_budget_def run_script_def close_answer_def not_less)
  qed
qed

lemma budget_run_agrees:
  assumes "bucket_mirrors n t0 key l" and "calls_ordered t0 calls" and "0 < n" and "connected c"
  shows "list_all2 (close_answer n) (redis_budget_run n (c, key) calls) (memory_budget_run l calls)"
  using assms
proof (induction calls arbitrary: t0 key l c)
  case (Cons call calls)
  obtain t e where call: "call = (t, e)" by (metis prod.exhaust)
  have te: "t0 \<le> t" "0 < e" "calls_ordered t calls" using Cons.prems(2) by (simp_all add: call)
  obtain answer key' memory l' where step:
    "allow_token_budget Answered (of_int t / 1000) (of_int t / 1000) (of_int t) n e (c, key)
      = (answer, (if n < e then c else mark_success c, key'))"
    "token_allow None e (of_int t / 1000) l = Inr (memory, l')"
    "close_answer n answer memory" "bucket_mirrors n t key' l'"
    using budget_step [OF Cons.prems(1) te(1,2) Cons.prems(3,4)] by blast
  have "connected (if n < e then c else mark_success c)" using Cons.prems(4) by (simp add: mark_success_def)
  from Cons.IH [OF step(4) te(3) Cons.prems(3) this] step(1-3) show ?case by (simp add: call)
qed simp

theorem coordinated_budget_agrees:
  assumes "token_limiter_init n has_redis scope (of_int t0 / 1000) = Inr l" and "calls_ordered t0 calls"
    and "connected c"
  shows "list_all2 (close_answer n) (redis_budget_run n (c, None) calls) (memory_budget_run l calls)"
proof -
  have "0 < n" "bucket_mirrors n t0 None l"
    using assms(1) by (auto simp: token_limiter_init_def bucket_mirrors_def split: if_splits)
  then show ?thesis using budget_run_agrees assms(2,3) by blast
qed

subsection \<open>The coordinated window answers like the in-process one\<close>

fun redis_window_run ::
    "int \<Rightarrow> int \<Rightarrow> redis_cache \<times> redis_window \<Rightarrow> int list \<Rightarrow> (bool \<times> pyfloat) option list" where
  "redis_window_run limit window st [] = []"
| "redis_window_run limit window st (t # ts) =
     (case allow_request_window Answered (of_int t / 1000) t limit (of_int window / 1000) st of
        (answer, st') \<Rightarrow> answer # redis_window_run limit window st' ts)"

fun memory_window_run :: "window_limiter \<Rightarrow> int list \<Rightarrow> (bool \<times> pyfloat) option list" where
  "memory_window_run l [] = []"
| "memory_window_run l (t # ts) =
     (case window_allow None (of_int t / 1000) l of (answer, l') \<Rightarrow> Some answer # memory_window_run l' ts)"

fun times_from :: "int \<Rightarrow> int list \<Rightarrow> bool" where
  "times_from t [] = True"
| "times_from t (u # us) = (t \<le> u \<and> times_from u us)"

lemma window_member_inj: "window_member a m = window_member b n \<Longrightarrow> a = b \<and> m = n"
proof -
  have colon: "CHR '':'' \<notin> set (show_int i)" for i
    using show_nat_digits [of "CHR '':''"] by (auto simp: show_int_def is_digit_def)
  have head: "takeWhile (\<lambda>c. c \<noteq> CHR '':'') (show_int i @ CHR '':'' # r) = show_int i" for i r
  proof -
    have "c \<noteq> CHR '':''" if "c \<in> set (show_int i)" for c using that colon by blast
    then show ?thesis by (simp add: takeWhile_append2)
  qed
  assume "window_member a m = window_member b n"
  then have eq: "show_int a @ CHR '':'' # show_nat m = show_int b @ CHR '':'' # show_nat n"
    by (simp add: window_member_def)
  from arg_cong [OF this, of "takeWhile (\<lambda>c. c \<noteq> CHR '':'')"] have "show_int a = show_int b"
    unfolding head .
  then show ?thesis using eq show_int_inj show_nat_inj by auto
qed

definition window_mirrors :: "int \<Rightarrow> int \<Rightarrow> int \<Rightarrow> redis_window \<Rightarrow> window_limiter \<Rightarrow> bool" where
  "window_mirrors limit window t w l \<longleftrightarrow>
     requests_per_window l = limit \<and> window_seconds l = of_int window / 1000
     \<and> window_requests l = map (\<lambda>e. of_int (fst e) / 1000) (rw_entries w)
     \<and> sorted (map fst (rw_entries w))
     \<and> (\<forall>e \<in> set (rw_entries w). fst e \<le> t \<and> fst e + window \<le> rw_expires w
          \<and> fst e + window \<le> rw_sequence_expires w
          \<and> (\<exists>n \<le> rw_sequence w. snd e = window_member (fst e) n))"

lemma script_live:
  assumes "window_mirrors limit window t0 w l"
  shows "filter (\<lambda>e. now - window < fst e) (if rw_expires w \<le> now then [] else rw_entries w)
    = filter (\<lambda>e. now - window < fst e) (rw_entries w)"
proof (cases "rw_expires w \<le> now")
  case True
  have "\<not> now - window < fst e" if "e \<in> set (rw_entries w)" for e
    using assms that True by (fastforce simp: window_mirrors_def)
  then have "filter (\<lambda>e. now - window < fst e) (rw_entries w) = []" by (simp add: filter_empty_conv)
  then show ?thesis using True by simp
qed simp

lemma zadd_scores:
  assumes "m \<notin> set (map snd z)" and "\<And>e. e \<in> set z \<Longrightarrow> fst e \<le> now" and "sorted (map fst z)"
  shows "map fst (zadd now m z) = map fst z @ [now]" and "set (zadd now m z) = insert (now, m) (set z)"
proof -
  have keep: "filter (\<lambda>e. snd e \<noteq> m) z = z" using assms(1) by (auto simp: filter_id_conv)
  have "map fst (insort (now, m) z) = map fst z @ [now]"
    using assms(2,3)
  proof (induction z)
    case (Cons e z)
    show ?case
    proof (cases "(now, m) \<le> e")
      case True
      then have e: "fst e = now" using Cons.prems(1) [of e] by (auto simp: less_eq_prod_def)
      have "s = now" if "s \<in> set (map fst z)" for s
        using that Cons.prems e by fastforce
      then have "map fst z = replicate (length z) now" by (metis length_map replicate_eqI)
      then show ?thesis using True e by (simp add: replicate_append_same)
    next
      case False
      then show ?thesis using Cons by simp
    qed
  qed simp
  then show "map fst (zadd now m z) = map fst z @ [now]" by (simp add: zadd_def keep)
  show "set (zadd now m z) = insert (now, m) (set z)" by (simp add: zadd_def keep set_insort_key)
qed

lemma window_step:
  assumes mirrors: "window_mirrors limit window t0 w l" and "t0 \<le> t" and "0 < limit" and "0 < window" and "connected c"
  shows "\<exists>answer w' l'. allow_request_window Answered (of_int t / 1000) t limit (of_int window / 1000) (c, w)
      = (Some answer, (mark_success c, w'))
    \<and> window_allow None (of_int t / 1000) l = (answer, l') \<and> window_mirrors limit window t w' l'"
proof -
  define live where "live = filter (\<lambda>e. t - window < fst e) (rw_entries w)"
  note facts = mirrors [unfolded window_mirrors_def]
  have ms: "max (py_trunc (of_int window / 1000 * 1000)) 1 = window"
    using assms(4) by (simp add: py_trunc_def)
  have sorted_live: "sorted (map fst live)"
    using facts unfolding live_def by (metis sorted_filter)
  have late: "fst e \<le> t" if "e \<in> set (rw_entries w)" for e
    using facts that assms(2) by force
  have cut: "of_int t / 1000 - of_int window / 1000 < (of_int s / 1000 :: pyfloat) \<longleftrightarrow> t - window < s" for s
  proof -
    have "of_int t / 1000 - of_int window / 1000 = (of_int (t - window) / 1000 :: pyfloat)"
      by (simp add: diff_divide_distrib)
    moreover have "of_int (t - window) / 1000 < (of_int s / 1000 :: pyfloat) \<longleftrightarrow> (of_int (t - window) :: pyfloat) < of_int s"
      by (rule divide_less_cancel [THEN trans]) simp
    ultimately show ?thesis by (simp only: of_int_less_iff)
  qed
  have requests: "sorted (window_requests l)"
  proof -
    have "sorted_wrt (\<lambda>a b. fst a \<le> fst b) (rw_entries w)" using facts by (simp add: sorted_map)
    then have "sorted_wrt (\<lambda>a b. of_int (fst a) / (1000 :: pyfloat) \<le> of_int (fst b) / 1000) (rw_entries w)"
      by (rule sorted_wrt_mono_rel [rotated]) (simp add: divide_right_mono)
    then show ?thesis using facts by (simp add: sorted_map)
  qed
  have live_requests: "filter (\<lambda>u. of_int t / 1000 - window_seconds l < u) (window_requests l)
      = map (\<lambda>e. of_int (fst e) / 1000) live"
    using facts cut by (simp add: filter_map comp_def live_def)
  have drop: "dropWhile (\<lambda>u. u \<le> of_int t / 1000 - window_seconds l) (window_requests l)
      = map (\<lambda>e. of_int (fst e) / 1000) live"
    using sorted_dropWhile_le [OF requests] live_requests by simp
  have memory: "window_allow None (of_int t / 1000) l =
      (if limit \<le> int (length live)
       then ((False, max (of_int window / 1000 - (of_int t / 1000 - hd (map (\<lambda>e. of_int (fst e) / 1000) live))) 0),
             l\<lparr>window_requests := map (\<lambda>e. of_int (fst e) / 1000) live\<rparr>)
       else ((True, 0), l\<lparr>window_requests := map (\<lambda>e. of_int (fst e) / 1000) live @ [of_int t / 1000]\<rparr>))"
  proof -
    have "requests_per_window l = limit" "window_seconds l = of_int window / 1000" using facts by blast+
    then show ?thesis
      unfolding window_allow_def option.case window_allow_memory_def Let_def drop by (simp only: length_map)
  qed
  have script: "SLIDING_WINDOW_SCRIPT t limit window w =
     (if limit \<le> int (length live)
      then ((0, case live of [] \<Rightarrow> window | e # _ \<Rightarrow> max (window - (t - fst e)) 0),
            w\<lparr>rw_entries := live, rw_expires := t + window\<rparr>)
      else (let n = Suc (if rw_sequence_expires w \<le> t then 0 else rw_sequence w)
            in ((1, 0), \<lparr>rw_entries = zadd t (window_member t n) live, rw_expires = t + window,
                  rw_sequence = n, rw_sequence_expires = t + window\<rparr>)))"
    unfolding SLIDING_WINDOW_SCRIPT_def Let_def script_live [OF mirrors] live_def [symmetric] ..
  have run: "allow_request_window Answered (of_int t / 1000) t limit (of_int window / 1000) (c, w)
      = (case SLIDING_WINDOW_SCRIPT t limit window w of ((ok, retry), w') \<Rightarrow>
          (Some (ok \<noteq> 0, max (of_int retry / 1000) 0), (mark_success c, w')))"
    using assms(5) unfolding allow_request_window_def ms
    by (simp add: can_attempt_def run_script_def split: prod.split)
  show ?thesis
  proof (cases "limit \<le> int (length live)")
    case True
    then obtain e es where live: "live = e # es" using assms(3) by (cases live) auto
    have "(of_int (max (window - (t - fst e)) 0) / 1000 :: pyfloat)
        = max (of_int window / 1000 - (of_int t / 1000 - of_int (fst e) / 1000)) 0"
      by (simp add: max_def field_simps)
    moreover have "window_mirrors limit window t (w\<lparr>rw_entries := live, rw_expires := t + window\<rparr>)
        (l\<lparr>window_requests := map (\<lambda>e. of_int (fst e) / 1000) live\<rparr>)"
      using facts late sorted_live by (auto simp: window_mirrors_def live_def)
    moreover have "max (of_int (max (window - (t - fst e)) 0) / 1000) 0
        = (of_int (max (window - (t - fst e)) 0) / 1000 :: pyfloat)" by simp
    ultimately show ?thesis
      unfolding run script memory if_P [OF True] prod.case live list.case
      by (intro exI [of _ "(False, of_int (max (window - (t - fst e)) 0) / 1000)"]
          exI [of _ "w\<lparr>rw_entries := e # es, rw_expires := t + window\<rparr>"]
          exI [of _ "l\<lparr>window_requests := map (\<lambda>e. of_int (fst e) / 1000) (e # es)\<rparr>"] conjI)
        (use True live in simp_all)
  next
    case False
    define n where "n = Suc (if rw_sequence_expires w \<le> t then 0 else rw_sequence w)"
    have fresh: "window_member t n \<notin> set (map snd live)"
    proof
      assume "window_member t n \<in> set (map snd live)"
      then obtain e where e: "e \<in> set live" "snd e = window_member t n" by auto
      then obtain k where k: "k \<le> rw_sequence w" "snd e = window_member (fst e) k" "fst e + window \<le> rw_sequence_expires w"
        using facts by (auto simp: live_def)
      have "fst e = t" "k = n" using window_member_inj e(2) k(2) by metis+
      then show False using k(1,3) assms(4) by (simp add: n_def split: if_splits)
    qed
    have live_late: "fst e \<le> t" if "e \<in> set live" for e using that late by (simp add: live_def)
    note z = zadd_scores [OF fresh live_late sorted_live]
    have sorted_new: "sorted (map fst live @ [t])"
      using sorted_live live_late by (auto simp: sorted_append)
    have "window_mirrors limit window t \<lparr>rw_entries = zadd t (window_member t n) live, rw_expires = t + window,
          rw_sequence = n, rw_sequence_expires = t + window\<rparr>
        (l\<lparr>window_requests := map (\<lambda>e. of_int (fst e) / 1000) live @ [of_int t / 1000]\<rparr>)"
    proof -
      have "map (\<lambda>e. of_int (fst e) / 1000) (zadd t (window_member t n) live)
          = map (\<lambda>s. of_int s / (1000 :: pyfloat)) (map fst live @ [t])"
        by (simp add: z(1) [symmetric] comp_def)
      moreover have "\<exists>k \<le> n. snd e = window_member (fst e) k" if mem: "e \<in> set live" for e
      proof -
        obtain k where k: "k \<le> rw_sequence w" "snd e = window_member (fst e) k" "fst e + window \<le> rw_sequence_expires w"
          "t - window < fst e"
          using facts mem by (auto simp: live_def)
        then have "k \<le> n" by (auto simp: n_def)
        then show ?thesis using k(2) by blast
      qed
      ultimately show ?thesis
        using facts z sorted_new live_late by (auto simp: window_mirrors_def comp_def)
    qed
    then show ?thesis
      unfolding run script memory if_not_P [OF False] prod.case Let_def n_def [symmetric]
      by (intro exI [of _ "(True, 0)"] exI conjI) (rule refl | simp)+
  qed
qed

lemma window_run_agrees:
  assumes "window_mirrors limit window t0 w l" and "times_from t0 ts" and "0 < limit" and "0 < window" and "connected c"
  shows "redis_window_run limit window (c, w) ts = memory_window_run l ts"
  using assms
proof (induction ts arbitrary: t0 w l c)
  case (Cons t ts)
  have t: "t0 \<le> t" "times_from t ts" using Cons.prems(2) by simp_all
  obtain answer w' l' where step:
    "allow_request_window Answered (of_int t / 1000) t limit (of_int window / 1000) (c, w) = (Some answer, (mark_success c, w'))"
    "window_allow None (of_int t / 1000) l = (answer, l')" "window_mirrors limit window t w' l'"
    using window_step [OF Cons.prems(1) t(1) Cons.prems(3-5)] by blast
  have "connected (mark_success c)" by (simp add: mark_success_def)
  from Cons.IH [OF step(3) t(2) Cons.prems(3,4) this] step(1,2) show ?case by simp
qed simp

theorem coordinated_window_agrees:
  assumes "window_limiter_init limit (of_int window / 1000) has_redis scope = Inr l" and "times_from t0 ts"
    and "connected c"
  shows "redis_window_run limit window (c, no_window) ts = memory_window_run l ts"
proof -
  have "0 < limit" "0 < window" "window_mirrors limit window t0 no_window l"
    using assms(1) by (auto simp: window_limiter_init_def window_mirrors_def no_window_def not_le zero_less_divide_iff split: if_splits)
  then show ?thesis using window_run_agrees assms(2,3) by blast
qed

subsection \<open>Recent items are a bounded least-recently-used list\<close>

lemma take_filter_take:
  assumes "distinct ys"
  shows "take n (filter (\<lambda>y. y \<noteq> x) (take (Suc n) ys)) = take n (filter (\<lambda>y. y \<noteq> x) ys)"
  using assms
proof (induction ys arbitrary: n)
  case (Cons y ys)
  show ?case
  proof (cases "y = x")
    case True
    then have "filter (\<lambda>z. z \<noteq> x) ys = ys" using Cons.prems by (auto simp: filter_id_conv)
    moreover have "filter (\<lambda>z. z \<noteq> x) (take n ys) = take n ys"
      using True Cons.prems by (auto simp: filter_id_conv dest: in_set_takeD)
    ultimately show ?thesis using True by simp
  next
    case False
    then show ?thesis using Cons by (cases n) simp_all
  qed
qed simp

lemma dedup_from_set: "set s = set t \<Longrightarrow> dedup_from s zs = dedup_from t zs"
  by (induction s zs arbitrary: t rule: dedup_from.induct) auto

lemma dedup_cons: "dedup (x # xs) = x # filter (\<lambda>y. y \<noteq> x) (dedup xs)"
proof -
  have "dedup_from (x # seen) xs = filter (\<lambda>y. y \<noteq> x) (dedup_from seen xs)" for seen
  proof (induction xs arbitrary: seen)
    case (Cons y ys)
    have swap: "dedup_from (y # x # seen) ys = dedup_from (x # y # seen) ys"
      by (rule dedup_from_set) auto
    show ?case
    proof (cases "y = x")
      case True
      have "dedup_from (x # x # seen) ys = dedup_from (x # seen) ys" by (rule dedup_from_set) auto
      then show ?thesis using True Cons [of seen] Cons [of "x # seen"] by simp
    next
      case False
      then show ?thesis using Cons [of seen] Cons [of "y # seen"] swap by simp
    qed
  qed simp
  then show ?thesis by (simp add: dedup_def)
qed

lemma free_id_free: "free_id used i \<notin> set used \<and> i \<le> free_id used i"
proof (induction used i rule: free_id.induct)
  case (1 used i)
  show ?case
  proof (cases "i \<in> set used")
    case True
    then show ?thesis using 1 by (subst (1 2) free_id.simps) auto
  next
    case False
    then show ?thesis by (subst (1 2) free_id.simps) auto
  qed
qed

lemma numeric_id_update: "0 \<le> k \<Longrightarrow> numeric_id (AList.update ''id'' (VInt k) item) = Some k"
  by (simp add: numeric_id_def dget_or_def update_conv' show_int_def all_digits_def list_all_iff show_nat_digits)

lemma numeric_id_nonneg: "numeric_id item = Some i \<Longrightarrow> 0 \<le> i"
  by (auto simp: numeric_id_def Let_def split: if_splits)

lemma identity_update: "field \<noteq> ''id'' \<Longrightarrow> item_identity field (AList.update ''id'' v item) = item_identity field item"
  by (simp add: item_identity_def dget_or_def update_conv')

text \<open>The item that goes in front, and the ones it stays in front of.\<close>

lemma prepend_shape:
  assumes "field \<noteq> ''id''"
  obtains incoming where
    "prepend_item field limit item items
      = take limit (incoming # filter (\<lambda>x. item_identity field x \<noteq> item_identity field item) items)"
    "item_identity field incoming = item_identity field item"
    "\<forall>i. numeric_id incoming = Some i \<longrightarrow>
      i \<notin> set (List.map_filter numeric_id (filter (\<lambda>x. item_identity field x \<noteq> item_identity field item) items))"
proof -
  define others where "others = filter (\<lambda>x. item_identity field x \<noteq> item_identity field item) items"
  define used where "used = List.map_filter numeric_id others"
  define incoming where "incoming = (case numeric_id item of None \<Rightarrow> item
    | Some i \<Rightarrow> if i \<in> set used then AList.update ''id'' (VInt (free_id used i)) item else item)"
  have "item_identity field incoming = item_identity field item"
    using identity_update [OF assms] by (simp add: incoming_def split: option.split)
  moreover have "i \<notin> set used" if "numeric_id incoming = Some i" for i
  proof (cases "numeric_id item")
    case None
    then show ?thesis using that by (simp add: incoming_def)
  next
    case (Some j)
    have "0 \<le> free_id used j" using numeric_id_nonneg [OF Some] free_id_free [of used j] by linarith
    then show ?thesis
      using that Some free_id_free [of used j] by (auto simp: incoming_def numeric_id_update split: if_splits)
  qed
  moreover have "prepend_item field limit item items = take limit (incoming # others)"
    unfolding prepend_item_def Let_def others_def [symmetric] used_def [symmetric] incoming_def [symmetric] ..
  ultimately show thesis using that unfolding used_def others_def by blast
qed

lemma set_map_filter_iff: "y \<in> set (List.map_filter f xs) \<longleftrightarrow> (\<exists>x \<in> set xs. f x = Some y)"
  by (force simp: map_filter_def)

definition recent_ids_distinct :: "pydict list \<Rightarrow> bool" where
  "recent_ids_distinct items \<longleftrightarrow> distinct (List.map_filter numeric_id items)"

lemma ids_sublist: "recent_ids_distinct items \<Longrightarrow> recent_ids_distinct (take n (filter P items))"
proof -
  have filter: "recent_ids_distinct xs \<Longrightarrow> recent_ids_distinct (filter P xs)" for xs
  proof (induction xs)
    case (Cons x xs)
    have "set (List.map_filter numeric_id (filter P xs)) \<subseteq> set (List.map_filter numeric_id xs)"
      by (auto simp: map_filter_def)
    then show ?case
      using Cons unfolding recent_ids_distinct_def by (cases "numeric_id x") (auto simp: map_filter_simps)
  qed (simp add: recent_ids_distinct_def)
  have "recent_ids_distinct xs \<Longrightarrow> recent_ids_distinct (take n xs)" for xs
  proof (induction xs arbitrary: n)
    case (Cons x xs)
    have "set (List.map_filter numeric_id (take m xs)) \<subseteq> set (List.map_filter numeric_id xs)" for m
      by (auto simp: map_filter_def dest: in_set_takeD)
    then show ?case
      using Cons unfolding recent_ids_distinct_def
      by (cases n; cases "numeric_id x") (auto simp: map_filter_simps)
  qed simp
  then show "recent_ids_distinct items \<Longrightarrow> recent_ids_distinct (take n (filter P items))" using filter by blast
qed

lemma recent_items_run:
  assumes "field \<noteq> ''id''" and "0 < limit"
  shows "map (item_identity field) (fold (prepend_item field limit) items [])
      = take limit (dedup (map (item_identity field) (rev items)))
    \<and> recent_ids_distinct (fold (prepend_item field limit) items [])"
proof (induction items rule: rev_induct)
  case Nil
  then show ?case by (simp add: dedup_def recent_ids_distinct_def)
next
  case (snoc item items)
  let ?f = "item_identity field" and ?items = "fold (prepend_item field limit) items []"
  obtain m where limit: "limit = Suc m" using assms(2) by (cases limit) auto
  obtain incoming where shape: "prepend_item field limit item ?items
      = take limit (incoming # filter (\<lambda>x. ?f x \<noteq> ?f item) ?items)"
    "?f incoming = ?f item" "\<forall>i. numeric_id incoming = Some i \<longrightarrow>
      i \<notin> set (List.map_filter numeric_id (filter (\<lambda>x. ?f x \<noteq> ?f item) ?items))"
    by (rule prepend_shape [OF assms(1), where limit = limit and item = item and items = ?items])
  have "map ?f (take m (filter (\<lambda>x. ?f x \<noteq> ?f item) ?items)) = take m (filter (\<lambda>y. y \<noteq> ?f item) (map ?f ?items))"
    by (simp add: take_map filter_map comp_def)
  also have "\<dots> = take m (filter (\<lambda>y. y \<noteq> ?f item) (dedup (map ?f (rev items))))"
  proof -
    have "distinct (dedup (map ?f (rev items)))" by (simp add: dedup_def distinct_dedup_from)
    from take_filter_take [OF this, of m "?f item"] show ?thesis using snoc limit by simp
  qed
  finally have ids: "map ?f (fold (prepend_item field limit) (items @ [item]) [])
      = take limit (dedup (map ?f (rev (items @ [item]))))"
    by (simp add: shape(1) [unfolded limit] shape(2) limit dedup_cons)
  have rest: "recent_ids_distinct (take m (filter (\<lambda>x. ?f x \<noteq> ?f item) ?items))"
    using snoc ids_sublist by blast
  have "set (List.map_filter numeric_id (take m (filter (\<lambda>x. ?f x \<noteq> ?f item) ?items)))
      \<subseteq> set (List.map_filter numeric_id (filter (\<lambda>x. ?f x \<noteq> ?f item) ?items))"
    by (auto simp: set_map_filter_iff dest!: in_set_takeD) blast
  then have "recent_ids_distinct (fold (prepend_item field limit) (items @ [item]) [])"
    using rest shape(3) unfolding recent_ids_distinct_def
    by (cases "numeric_id incoming") (auto simp: shape(1) [unfolded limit] limit map_filter_simps)
  then show ?case using ids by blast
qed

theorem recent_items_are_lru:
  assumes "field \<noteq> ''id''" and "0 < limit"
  shows "map (item_identity field) (fold (prepend_item field limit) items [])
      = take limit (dedup (map (item_identity field) (rev items)))
    \<and> recent_ids_distinct (fold (prepend_item field limit) items [])"
  by (rule recent_items_run [OF assms])

subsection \<open>Example runs\<close>

definition ex_redis :: redis_cache where
  "ex_redis = \<lparr>key_prefix = ''semantic_ads'', retry_cooldown_seconds = 30, connected = True, retry_after = 0\<rparr>"

definition ex_budget_calls :: "(int \<times> int) list" where
  "ex_budget_calls = [(0, 50), (100, 30), (20500, 30), (20600, 90), (200000, 60)]"

definition ex_full :: token_limiter where
  "ex_full = \<lparr>tokens_per_minute = 60, token_level = 60, token_updated = 0\<rparr>"

lemma ex_budget_run:
  "map fst (memory_budget_run ex_full ex_budget_calls) = [True, False, True, False, True]"
  by code_simp

theorem coordinated_budget_agrees_witness:
  "list_all2 (close_answer 60) (redis_budget_run 60 (ex_redis, None) ex_budget_calls)
      (memory_budget_run ex_full ex_budget_calls)
    \<and> map fst (memory_budget_run ex_full ex_budget_calls) = [True, False, True, False, True]"
proof -
  have init: "token_limiter_init 60 False None (of_int 0 / 1000) = Inr ex_full"
    by (simp add: token_limiter_init_def ex_full_def)
  have calls: "calls_ordered 0 ex_budget_calls" by (simp add: ex_budget_calls_def)
  have "connected ex_redis" by (simp add: ex_redis_def)
  from coordinated_budget_agrees [OF init calls this] ex_budget_run show ?thesis by blast
qed

definition ex_window :: window_limiter where
  "ex_window = \<lparr>requests_per_window = 2, window_seconds = 1, window_requests = []\<rparr>"

lemma ex_window_run:
  "memory_window_run ex_window [0, 300, 700, 1000, 1100, 1350] =
    [Some (True, 0), Some (True, 0), Some (False, 3/10), Some (True, 0), Some (False, 1/5), Some (True, 0)]"
  by code_simp

theorem coordinated_window_agrees_witness:
  "redis_window_run 2 1000 (ex_redis, no_window) [0, 300, 700, 1000, 1100, 1350] =
    [Some (True, 0), Some (True, 0), Some (False, 3/10), Some (True, 0), Some (False, 1/5), Some (True, 0)]"
proof -
  have init: "window_limiter_init 2 (of_int 1000 / 1000) False None = Inr ex_window"
    by (simp add: window_limiter_init_def ex_window_def)
  have times: "times_from 0 [0, 300, 700, 1000, 1100, 1350]" by simp
  have "connected ex_redis" by (simp add: ex_redis_def)
  from coordinated_window_agrees [OF init times this] ex_window_run show ?thesis by simp
qed

definition ex_recent :: "pydict list" where
  "ex_recent = [[(''id'', VInt 7), (''value'', VStr ''Car'')], [(''id'', VInt 8), (''value'', VStr ''tent'')],
     [(''id'', VStr ''8''), (''value'', VStr ''CAR'')], [(''id'', VInt 9), (''value'', VStr ''boat'')]]"

lemma ex_recent_run:
  "fold (prepend_item ''value'' 3) ex_recent [] = [[(''id'', VInt 10), (''value'', VStr ''boat'')],
      [(''id'', VInt 9), (''value'', VStr ''CAR'')], [(''id'', VInt 8), (''value'', VStr ''tent'')]]"
  by code_simp

theorem recent_items_are_lru_witness:
  "map (item_identity ''value'') (fold (prepend_item ''value'' 3) ex_recent [])
      = take 3 (dedup (map (item_identity ''value'') (rev ex_recent)))
    \<and> recent_ids_distinct (fold (prepend_item ''value'' 3) ex_recent [])
    \<and> fold (prepend_item ''value'' 3) ex_recent [] = [[(''id'', VInt 10), (''value'', VStr ''boat'')],
      [(''id'', VInt 9), (''value'', VStr ''CAR'')], [(''id'', VInt 8), (''value'', VStr ''tent'')]]"
  using recent_items_are_lru [of "''value''" 3 ex_recent] ex_recent_run by simp

end
