(* ===== verification/Index_Generations.thy ===== *)
theory Index_Generations
  imports Py_Value
begin

text \<open>
  The two-slot index generations of \<open>storage/index_generations.py\<close>: the manifest file with its
  validation, and recording, promoting and restoring a slot. The manifest is the JSON value in
  the file; the temporary file and the rename of \<open>_atomic_write\<close> are one step, so a crash leaves
  the old manifest. Times are arguments.
\<close>

named_theorems generation_facts \<open>facts of the index generations\<close>

datatype manifest_file = Absent | Unreadable | Parsed pyval

definition SLOTS :: "string list" where "SLOTS = [''a'', ''b'']"

definition MANIFEST_SCHEMA_VERSION :: int where "MANIFEST_SCHEMA_VERSION = 1"

subsection \<open>Names of the two slots\<close>

definition slot_b_table :: "(string \<Rightarrow> string) \<Rightarrow> string \<Rightarrow> string" where
  "slot_b_table sha256_hex base =
     (if length base + length ''__b'' \<le> 63 then base @ ''__b''
      else take 51 base @ ''_'' @ take 8 (sha256_hex base) @ ''_b'')"

text \<open>A path as its directory and its name.\<close>

record index_storage =
  pgvector_table :: string
  bm25_directory :: "string list"
  bm25_name :: string

definition profile_for_slot :: "(string \<Rightarrow> string) \<Rightarrow> index_storage \<Rightarrow> string \<Rightarrow> py_error + index_storage" where
  "profile_for_slot sha256_hex storage slot =
     (if slot \<notin> set SLOTS then Inl (ValueError (''Unsupported index-generation slot: '' @ slot))
      else if slot = ''a'' then Inr storage
      else Inr (storage\<lparr>pgvector_table := slot_b_table sha256_hex (pgvector_table storage),
             bm25_directory := bm25_directory storage @ [''generations'', ''b'']\<rparr>))"

subsection \<open>The manifest\<close>

definition default_generation_state :: "string \<Rightarrow> string \<Rightarrow> pydict" where
  "default_generation_state company now =
     [(''schema_version'', VInt MANIFEST_SCHEMA_VERSION), (''company_id'', VStr company),
      (''active_slot'', VStr ''a''), (''updated_at'', VStr now),
      (''slots'', VDict
         [(''a'', VDict [(''generation'', VStr ''legacy-a''), (''status'', VStr ''active'')]),
          (''b'', VDict [(''generation'', VNone), (''status'', VStr ''empty'')])])]"

definition validate_state :: "string \<Rightarrow> pyval \<Rightarrow> py_error + pydict" where
  "validate_state company v =
     (case v of
        VDict state \<Rightarrow>
          (if \<not> py_eq (dget state ''schema_version'') (VInt MANIFEST_SCHEMA_VERSION)
           then Inl (RuntimeError ''Unsupported index-generation manifest schema.'')
           else if \<not> py_eq (dget state ''company_id'') (VStr company)
           then Inl (RuntimeError ''Index-generation manifest company does not match tenant.'')
           else if \<not> py_in (dget state ''active_slot'') (map VStr SLOTS)
           then Inl (RuntimeError ''Index-generation manifest has an invalid active slot.'')
           else (case dget state ''slots'' of
               VDict slots \<Rightarrow>
                 (if list_ex (\<lambda>slot. map_of slots slot = None) SLOTS
                  then Inl (RuntimeError ''Index-generation manifest is missing a slot.'')
                  else Inr state)
             | _ \<Rightarrow> Inl (RuntimeError ''Index-generation manifest is missing a slot.'')))
      | _ \<Rightarrow> Inl (RuntimeError ''Index-generation manifest must be a JSON object.''))"

definition read_generation_state :: "string \<Rightarrow> string \<Rightarrow> manifest_file \<Rightarrow> py_error + pydict" where
  "read_generation_state company now file =
     (case file of
        Absent \<Rightarrow> Inr (default_generation_state company now)
      | Unreadable \<Rightarrow> Inl (RuntimeError ''Cannot read index-generation manifest'')
      | Parsed v \<Rightarrow> validate_state company v)"

definition ensure_generation_state ::
    "string \<Rightarrow> string \<Rightarrow> manifest_file \<Rightarrow> py_error + pydict \<times> manifest_file" where
  "ensure_generation_state company now file =
     (case read_generation_state company now file of
        Inl e \<Rightarrow> Inl e
      | Inr state \<Rightarrow> Inr (state, if file = Absent then Parsed (VDict state) else file))"

text \<open>\<open>state["slots"]\<close> of a validated state, and the dictionary of one slot.\<close>

definition slots_of :: "pydict \<Rightarrow> pydict" where
  "slots_of state = (case dget state ''slots'' of VDict slots \<Rightarrow> slots | _ \<Rightarrow> [])"

definition slot_dict :: "pydict \<Rightarrow> string \<Rightarrow> py_error + pydict" where
  "slot_dict slots slot =
     (case map_of slots slot of
        None \<Rightarrow> Inl (KeyError slot)
      | Some (VDict d) \<Rightarrow> Inr d
      | Some _ \<Rightarrow> Inl (OtherError ''AttributeError''))"

definition active_slot :: "pydict \<Rightarrow> string" where
  "active_slot state = py_str (dget state ''active_slot'')"

record resolved_generation =
  rg_slot :: string
  rg_generation :: string

definition resolve_generation ::
    "string \<Rightarrow> string \<Rightarrow> string option \<Rightarrow> manifest_file \<Rightarrow> py_error + resolved_generation" where
  "resolve_generation company now slot file =
     (case read_generation_state company now file of
        Inl e \<Rightarrow> Inl e
      | Inr state \<Rightarrow>
          (let selected = (case slot of None \<Rightarrow> active_slot state
                 | Some s \<Rightarrow> if s = [] then active_slot state else s)
           in if selected \<notin> set SLOTS then Inl (RuntimeError (''Unknown index-generation slot '' @ selected))
              else (case slot_dict (slots_of state) selected of
                  Inl e \<Rightarrow> Inl e
                | Inr d \<Rightarrow> Inr \<lparr>rg_slot = selected,
                    rg_generation = py_str (or_else (dget d ''generation'') (VStr (''uninitialized-'' @ selected)))\<rparr>)))"

definition other_slot :: "string \<Rightarrow> string" where
  "other_slot slot = (if slot = ''a'' then ''b'' else ''a'')"

definition candidate_generation :: "string \<Rightarrow> string \<Rightarrow> manifest_file \<Rightarrow> py_error + resolved_generation" where
  "candidate_generation company now file =
     (case read_generation_state company now file of
        Inl e \<Rightarrow> Inl e
      | Inr state \<Rightarrow> resolve_generation company now (Some (other_slot (active_slot state))) file)"

subsection \<open>Changing the manifest\<close>

definition with_slots :: "pydict \<Rightarrow> pydict \<Rightarrow> pydict" where
  "with_slots state slots = AList.update ''slots'' (VDict slots) state"

definition record_candidate_ready ::
    "string \<Rightarrow> string \<Rightarrow> string \<Rightarrow> string \<Rightarrow> pydict \<Rightarrow> manifest_file \<Rightarrow> (py_error + pydict) \<times> manifest_file" where
  "record_candidate_ready company now slot generation validation file =
     (case ensure_generation_state company now file of
        Inl e \<Rightarrow> (Inl e, file)
      | Inr (state, file1) \<Rightarrow>
          if py_eq (VStr slot) (dget state ''active_slot'')
          then (Inl (RuntimeError ''Cannot mark the active index slot as a candidate.''), file1)
          else (let updated = AList.update ''updated_at'' (VStr now)
                      (with_slots state (AList.update slot (VDict
                         [(''generation'', VStr generation), (''status'', VStr ''ready''),
                          (''validated_at'', VStr now), (''validation'', VDict validation)]) (slots_of state)))
                in (Inr updated, Parsed (VDict updated))))"

definition set_status :: "string \<Rightarrow> string \<Rightarrow> pydict \<Rightarrow> py_error + pydict" where
  "set_status slot status slots =
     (case map_of slots slot of
        None \<Rightarrow> Inl (KeyError slot)
      | Some (VDict d) \<Rightarrow> Inr (AList.update slot (VDict (AList.update ''status'' (VStr status) d)) slots)
      | Some _ \<Rightarrow> Inl (TypeError ''item assignment''))"

definition promote_candidate ::
    "string \<Rightarrow> string \<Rightarrow> string \<Rightarrow> string \<Rightarrow> manifest_file \<Rightarrow> (py_error + pydict) \<times> manifest_file" where
  "promote_candidate company now slot generation file =
     (case ensure_generation_state company now file of
        Inl e \<Rightarrow> (Inl e, file)
      | Inr (state, file1) \<Rightarrow>
          (let previous = active_slot state;
               candidate = (if map_of (slots_of state) slot = None then Inr [] else slot_dict (slots_of state) slot)
           in if slot = previous then (Inl (RuntimeError ''Candidate slot is already active.''), file1)
              else (case candidate of
                  Inl e \<Rightarrow> (Inl e, file1)
                | Inr d \<Rightarrow>
                    if \<not> py_eq (dget d ''status'') (VStr ''ready'')
                    then (Inl (RuntimeError ''Candidate index generation has not passed validation.''), file1)
                    else if \<not> py_eq (dget d ''generation'') (VStr generation)
                    then (Inl (RuntimeError ''Candidate generation changed before promotion.''), file1)
                    else (case set_status slot ''active'' (slots_of state) of
                        Inl e \<Rightarrow> (Inl e, file1)
                      | Inr slots1 \<Rightarrow>
                          (case set_status previous ''standby'' slots1 of
                             Inl e \<Rightarrow> (Inl e, file1)
                           | Inr slots2 \<Rightarrow>
                               (let updated = with_slots (AList.update ''updated_at'' (VStr now)
                                      (AList.update ''promoted_at'' (VStr now)
                                      (AList.update ''previous_slot'' (VStr previous)
                                      (AList.update ''active_slot'' (VStr slot) state)))) slots2
                                in (Inr updated, Parsed (VDict updated))))))))"

definition restore_active_slot ::
    "string \<Rightarrow> string \<Rightarrow> string \<Rightarrow> manifest_file \<Rightarrow> (py_error + pydict) \<times> manifest_file" where
  "restore_active_slot company now slot file =
     (if slot \<notin> set SLOTS then (Inl (ValueError (''Unsupported index-generation slot: '' @ slot)), file)
      else (case ensure_generation_state company now file of
          Inl e \<Rightarrow> (Inl e, file)
        | Inr (state, file1) \<Rightarrow>
            (let current = active_slot state
             in case set_status slot ''active'' (slots_of state) of
                  Inl e \<Rightarrow> (Inl e, file1)
                | Inr slots1 \<Rightarrow>
                    (case (if current = slot then Inr slots1 else set_status current ''ready'' slots1) of
                       Inl e \<Rightarrow> (Inl e, file1)
                     | Inr slots2 \<Rightarrow>
                         (let updated = with_slots (AList.update ''updated_at'' (VStr now)
                                (AList.update ''previous_slot'' (VStr current)
                                (AList.update ''active_slot'' (VStr slot) state))) slots2
                          in (Inr updated, Parsed (VDict updated)))))))"

subsection \<open>Rollback\<close>

text \<open>The manifest part of \<open>rollback_generation\<close> in \<open>api/tenants.py\<close>.\<close>

definition rollback_generation :: "string \<Rightarrow> string \<Rightarrow> manifest_file \<Rightarrow> (py_error + pydict) \<times> manifest_file" where
  "rollback_generation company now file =
     (case read_generation_state company now file of
        Inl e \<Rightarrow> (Inl e, file)
      | Inr state \<Rightarrow>
          (case dget state ''previous_slot'' of
             VStr previous \<Rightarrow>
               (if previous \<notin> {''a'', ''b''} \<or> previous = active_slot state
                then (Inl (RuntimeError ''No previous index generation is available.''), file)
                else (case slot_dict (slots_of state) previous of
                    Inl e \<Rightarrow> (Inl e, file)
                  | Inr d \<Rightarrow>
                      if \<not> truthy (dget d ''generation'')
                      then (Inl (RuntimeError ''Previous index generation is not initialized.''), file)
                      else restore_active_slot company now previous file))
           | VList _ \<Rightarrow> (Inl (TypeError ''unhashable type''), file)
           | VDict _ \<Rightarrow> (Inl (TypeError ''unhashable type''), file)
           | _ \<Rightarrow> (Inl (RuntimeError ''No previous index generation is available.''), file)))"

subsection \<open>The abstract machine\<close>

record gen_slot =
  gs_generation :: "string option"
  gs_status :: string

record gens =
  g_active :: string
  g_previous :: "string option"
  g_a :: gen_slot
  g_b :: gen_slot

definition g_slot :: "string \<Rightarrow> gens \<Rightarrow> gen_slot" where
  "g_slot slot g = (if slot = ''a'' then g_a g else g_b g)"

definition put_slot :: "string \<Rightarrow> gen_slot \<Rightarrow> gens \<Rightarrow> gens" where
  "put_slot slot s g = (if slot = ''a'' then g\<lparr>g_a := s\<rparr> else g\<lparr>g_b := s\<rparr>)"

definition no_gens :: gens where
  "no_gens = \<lparr>g_active = ''a'', g_previous = None,
     g_a = \<lparr>gs_generation = Some ''legacy-a'', gs_status = ''active''\<rparr>,
     g_b = \<lparr>gs_generation = None, gs_status = ''empty''\<rparr>\<rparr>"

datatype slot = SlotA | SlotB

definition slot_name :: "slot \<Rightarrow> string" where
  "slot_name s = (case s of SlotA \<Rightarrow> ''a'' | SlotB \<Rightarrow> ''b'')"

datatype gen_op =
    EnsureManifest
  | RecordReady slot string pydict
  | Promote string string
  | Rollback

fun apply_gen :: "string \<Rightarrow> string \<Rightarrow> gen_op \<Rightarrow> manifest_file \<Rightarrow> manifest_file" where
  "apply_gen company now EnsureManifest file =
     (case ensure_generation_state company now file of Inl e \<Rightarrow> file | Inr (state, file') \<Rightarrow> file')"
| "apply_gen company now (RecordReady s generation validation) file =
     snd (record_candidate_ready company now (slot_name s) generation validation file)"
| "apply_gen company now (Promote slot generation) file = snd (promote_candidate company now slot generation file)"
| "apply_gen company now Rollback file = snd (rollback_generation company now file)"

definition switch_to :: "string \<Rightarrow> string \<Rightarrow> gens \<Rightarrow> gens" where
  "switch_to slot old_status g =
     (let old = g_active g
      in put_slot old ((g_slot old g)\<lparr>gs_status := old_status\<rparr>)
           (put_slot slot ((g_slot slot g)\<lparr>gs_status := ''active''\<rparr>)
             (g\<lparr>g_active := slot, g_previous := Some old\<rparr>)))"

fun spec_gen :: "gen_op \<Rightarrow> gens \<Rightarrow> gens" where
  "spec_gen EnsureManifest g = g"
| "spec_gen (RecordReady s generation validation) g =
     (if slot_name s = g_active g then g
      else put_slot (slot_name s) \<lparr>gs_generation = Some generation, gs_status = ''ready''\<rparr> g)"
| "spec_gen (Promote slot generation) g =
     (if slot \<in> set SLOTS \<and> slot \<noteq> g_active g \<and> gs_status (g_slot slot g) = ''ready''
         \<and> gs_generation (g_slot slot g) = Some generation
      then switch_to slot ''standby'' g else g)"
| "spec_gen Rollback g =
     (case g_previous g of
        None \<Rightarrow> g
      | Some p \<Rightarrow>
          (case gs_generation (g_slot p g) of
             None \<Rightarrow> g
           | Some v \<Rightarrow> if p \<noteq> g_active g \<and> v \<noteq> [] then switch_to p ''ready'' g else g))"

text \<open>How a manifest shows the abstract state.\<close>

definition slot_shows :: "pydict \<Rightarrow> string \<Rightarrow> gen_slot \<Rightarrow> bool" where
  "slot_shows slots slot s \<longleftrightarrow> (\<exists>d. map_of slots slot = Some (VDict d)
     \<and> dget d ''generation'' = (case gs_generation s of None \<Rightarrow> VNone | Some v \<Rightarrow> VStr v)
     \<and> dget d ''status'' = VStr (gs_status s))"

definition slots_show :: "pydict \<Rightarrow> gens \<Rightarrow> bool" where
  "slots_show slots g \<longleftrightarrow> fst ` set slots = {''a'', ''b''}
     \<and> slot_shows slots ''a'' (g_a g) \<and> slot_shows slots ''b'' (g_b g)"

definition state_shows :: "string \<Rightarrow> pydict \<Rightarrow> gens \<Rightarrow> bool" where
  "state_shows company state g \<longleftrightarrow>
     dget state ''schema_version'' = VInt MANIFEST_SCHEMA_VERSION \<and> dget state ''company_id'' = VStr company
     \<and> dget state ''active_slot'' = VStr (g_active g) \<and> g_active g \<in> set SLOTS
     \<and> dget state ''previous_slot'' = (case g_previous g of None \<Rightarrow> VNone | Some p \<Rightarrow> VStr p)
     \<and> (\<forall>p. g_previous g = Some p \<longrightarrow> p \<in> set SLOTS)
     \<and> (\<exists>slots. dget state ''slots'' = VDict slots \<and> slots_show slots g)"

definition file_shows :: "string \<Rightarrow> manifest_file \<Rightarrow> gens \<Rightarrow> bool" where
  "file_shows company file g \<longleftrightarrow>
     (case file of Absent \<Rightarrow> g = no_gens | Unreadable \<Rightarrow> False
      | Parsed v \<Rightarrow> (\<exists>state. v = VDict state \<and> state_shows company state g))"

lemma default_shows [generation_facts]: "state_shows company (default_generation_state company now) no_gens"
  by (auto simp: state_shows_def slots_show_def default_generation_state_def no_gens_def slot_shows_def dget_def
      SLOTS_def)

lemma shown_fields:
  assumes "state_shows company state g"
  shows "dget state ''schema_version'' = VInt MANIFEST_SCHEMA_VERSION" "dget state ''company_id'' = VStr company"
    "dget state ''active_slot'' = VStr (g_active g)" "g_active g \<in> set SLOTS"
    "dget state ''previous_slot'' = (case g_previous g of None \<Rightarrow> VNone | Some p \<Rightarrow> VStr p)"
    "g_previous g = Some p \<Longrightarrow> p \<in> set SLOTS"
  using assms unfolding state_shows_def by blast+

lemma shown_slots:
  assumes "state_shows company state g"
  obtains slots where "dget state ''slots'' = VDict slots" "slots_of state = slots" "slots_show slots g"
    "fst ` set slots = {''a'', ''b''}" "slot_shows slots ''a'' (g_a g)" "slot_shows slots ''b'' (g_b g)"
proof -
  obtain slots where slots: "dget state ''slots'' = VDict slots" "slots_show slots g"
    using assms unfolding state_shows_def by (elim conjE exE)
  have "slots_of state = slots" by (simp add: slots_of_def slots(1))
  then show thesis using that [of slots] slots unfolding slots_show_def by blast
qed

lemma slot_cases: "slot \<in> set SLOTS \<longleftrightarrow> slot = ''a'' \<or> slot = ''b''"
  by (simp add: SLOTS_def)

lemma shown_valid:
  assumes "state_shows company state g"
  shows "validate_state company (VDict state) = Inr state"
proof -
  obtain slots where slots: "dget state ''slots'' = VDict slots" "slot_shows slots ''a'' (g_a g)"
    "slot_shows slots ''b'' (g_b g)"
    by (rule shown_slots [OF assms])
  have a: "map_of slots ''a'' \<noteq> None" using slots(2) unfolding slot_shows_def by blast
  have b: "map_of slots ''b'' \<noteq> None" using slots(3) unfolding slot_shows_def by blast
  have both: "\<not> list_ex (\<lambda>slot. map_of slots slot = None) SLOTS"
    using a b unfolding SLOTS_def by simp
  have active: "py_in (VStr (g_active g)) (map VStr SLOTS)"
    using shown_fields(4) [OF assms] unfolding py_in_def list_ex_iff by auto
  show ?thesis
    unfolding validate_state_def pyval.case shown_fields(1-3) [OF assms] slots(1)
    using both active by simp
qed

lemma shown_read:
  assumes "file_shows company file g"
  obtains state where "read_generation_state company now file = Inr state" "state_shows company state g"
    "ensure_generation_state company now file = Inr (state, Parsed (VDict state))"
proof (cases "file")
  case Absent
  then have "g = no_gens" using assms by (simp add: file_shows_def)
  then show thesis
    using default_shows that [of "default_generation_state company now"] Absent
    by (simp add: read_generation_state_def ensure_generation_state_def)
next
  case (Parsed v)
  then obtain state where "v = VDict state" "state_shows company state g" using assms by (auto simp: file_shows_def)
  then show thesis
    using shown_valid that [of state] Parsed by (simp add: read_generation_state_def ensure_generation_state_def)
qed (use assms in \<open>simp add: file_shows_def\<close>)

lemma shown_active: "state_shows company state g \<Longrightarrow> active_slot state = g_active g"
  by (simp add: active_slot_def state_shows_def)

lemma shown_slot:
  assumes "state_shows company state g" and "slot \<in> set SLOTS"
  obtains d where "map_of (slots_of state) slot = Some (VDict d)"
    "dget d ''generation'' = (case gs_generation (g_slot slot g) of None \<Rightarrow> VNone | Some v \<Rightarrow> VStr v)"
    "dget d ''status'' = VStr (gs_status (g_slot slot g))"
proof -
  obtain slots where slots: "dget state ''slots'' = VDict slots" "slots_of state = slots"
    "slot_shows slots ''a'' (g_a g)" "slot_shows slots ''b'' (g_b g)"
    by (rule shown_slots [OF assms(1)])
  have "slot_shows slots slot (g_slot slot g)"
    using slots(3,4) assms(2) unfolding slot_cases g_slot_def by (elim disjE) simp_all
  then show thesis using that slots(2) unfolding slot_shows_def by blast
qed

lemma shown_no_other:
  assumes "state_shows company state g" and "slot \<notin> set SLOTS"
  shows "map_of (slots_of state) slot = None"
proof -
  obtain slots where "slots_of state = slots" "fst ` set slots = {''a'', ''b''}"
    by (rule shown_slots [OF assms(1)])
  then show ?thesis using assms(2) unfolding map_of_eq_None_iff slot_cases by simp
qed


subsection \<open>Every operation refines the abstract one\<close>

lemma keys_update: "fst ` set (AList.update k v d) = insert k (fst ` set d)"
  using dom_update [of k v d] by simp

lemma slot_shows_update:
  "slot_shows (AList.update k (VDict d) slots) slot s \<longleftrightarrow>
     (if slot = k then dget d ''generation'' = (case gs_generation s of None \<Rightarrow> VNone | Some v \<Rightarrow> VStr v)
        \<and> dget d ''status'' = VStr (gs_status s) else slot_shows slots slot s)"
  by (simp add: slot_shows_def update_conv')

lemma slots_show_put:
  assumes "slots_show slots g" and "slot \<in> set SLOTS"
    and "dget d ''generation'' = (case gs_generation s of None \<Rightarrow> VNone | Some v \<Rightarrow> VStr v)"
    and "dget d ''status'' = VStr (gs_status s)"
  shows "slots_show (AList.update slot (VDict d) slots) (put_slot slot s g)"
  using assms unfolding slots_show_def slot_cases put_slot_def
  by (auto simp: slot_shows_update keys_update)

lemma slots_show_only: "slots_show slots g \<Longrightarrow> g_a g' = g_a g \<Longrightarrow> g_b g' = g_b g \<Longrightarrow> slots_show slots g'"
  by (simp add: slots_show_def)

lemma slots_show_status:
  assumes "slots_show slots g" and "slot \<in> set SLOTS"
  obtains slots' where "set_status slot st slots = Inr slots'"
    "slots_show slots' (put_slot slot ((g_slot slot g)\<lparr>gs_status := st\<rparr>) g)"
proof -
  have "slot_shows slots slot (g_slot slot g)"
    using assms unfolding slots_show_def slot_cases g_slot_def by (elim conjE disjE) simp_all
  then obtain d where d: "map_of slots slot = Some (VDict d)"
    "dget d ''generation'' = (case gs_generation (g_slot slot g) of None \<Rightarrow> VNone | Some v \<Rightarrow> VStr v)"
    unfolding slot_shows_def by blast
  have "set_status slot st slots = Inr (AList.update slot (VDict (AList.update ''status'' (VStr st) d)) slots)"
    by (simp add: set_status_def d(1))
  moreover have "slots_show (AList.update slot (VDict (AList.update ''status'' (VStr st) d)) slots)
      (put_slot slot ((g_slot slot g)\<lparr>gs_status := st\<rparr>) g)"
    by (rule slots_show_put [OF assms]) (simp_all add: d(2))
  ultimately show thesis by (rule that)
qed

lemma state_shows_intro:
  assumes "state_shows company state g"
    and "dget state' ''schema_version'' = dget state ''schema_version''"
    and "dget state' ''company_id'' = dget state ''company_id''"
    and "dget state' ''active_slot'' = VStr (g_active g')" and "g_active g' \<in> set SLOTS"
    and "dget state' ''previous_slot'' = (case g_previous g' of None \<Rightarrow> VNone | Some p \<Rightarrow> VStr p)"
    and "\<And>p. g_previous g' = Some p \<Longrightarrow> p \<in> set SLOTS"
    and "dget state' ''slots'' = VDict slots" and "slots_show slots g'"
  shows "file_shows company (Parsed (VDict state')) g'"
  using assms by (simp add: file_shows_def state_shows_def)

lemma put_slot_fields [simp]:
  "g_active (put_slot slot s g) = g_active g" "g_previous (put_slot slot s g) = g_previous g"
  by (simp_all add: put_slot_def)

lemma switch_to_fields [simp]: "g_active (switch_to slot st g) = slot" "g_previous (switch_to slot st g) = Some (g_active g)"
  by (simp_all add: switch_to_def Let_def)

lemma switched_slots:
  assumes "slots_show slots g" and "slot \<in> set SLOTS" and "g_active g \<in> set SLOTS" and "slot \<noteq> g_active g"
  obtains slots1 slots2 where "set_status slot ''active'' slots = Inr slots1"
    "set_status (g_active g) st slots1 = Inr slots2" "slots_show slots2 (switch_to slot st g)"
proof -
  let ?g1 = "put_slot slot ((g_slot slot g)\<lparr>gs_status := ''active''\<rparr>) g"
  obtain slots1 where one: "set_status slot ''active'' slots = Inr slots1" "slots_show slots1 ?g1"
    by (rule slots_show_status [OF assms(1,2)])
  obtain slots2 where two: "set_status (g_active g) st slots1 = Inr slots2"
      "slots_show slots2 (put_slot (g_active g) ((g_slot (g_active g) ?g1)\<lparr>gs_status := st\<rparr>) ?g1)"
    by (rule slots_show_status [OF one(2) assms(3)])
  have "slots_show slots2 (switch_to slot st g)"
    by (rule slots_show_only [OF two(2)])
      (use assms(2-4) in \<open>auto simp: switch_to_def put_slot_def g_slot_def slot_cases Let_def\<close>)
  then show thesis by (rule that [OF one(1) two(1)])
qed

lemma dget_Cons: "dget ((k, v) # d) k' = (if k' = k then v else dget d k')"
  by (simp add: dget_def)

lemma record_ready_step:
  assumes "file_shows company file g"
  shows "file_shows company (apply_gen company now (RecordReady s generation validation) file)
           (spec_gen (RecordReady s generation validation) g)"
proof -
  obtain state where state: "state_shows company state g"
      "ensure_generation_state company now file = Inr (state, Parsed (VDict state))"
    by (rule shown_read [OF assms])
  obtain slots where slots: "slots_of state = slots" "slots_show slots g"
    by (rule shown_slots [OF state(1)])
  have in_slots: "slot_name s \<in> set SLOTS" by (cases s) (simp_all add: slot_name_def SLOTS_def)
  note f = shown_fields [OF state(1)]
  show ?thesis
  proof (cases "slot_name s = g_active g")
    case True
    then show ?thesis using state f(3) by (simp add: record_candidate_ready_def file_shows_def)
  next
    case False
    have "file_shows company (Parsed (VDict (AList.update ''updated_at'' (VStr now)
            (with_slots state (AList.update (slot_name s) (VDict
               [(''generation'', VStr generation), (''status'', VStr ''ready''),
                (''validated_at'', VStr now), (''validation'', VDict validation)]) slots)))))
          (put_slot (slot_name s) \<lparr>gs_generation = Some generation, gs_status = ''ready''\<rparr> g)"
      by (rule state_shows_intro [OF state(1) _ _ _ _ _ _ _ slots_show_put [OF slots(2) in_slots]])
        ((use f in \<open>simp_all add: with_slots_def\<close>), simp_all add: dget_Cons)
    then show ?thesis
      using False f(3) unfolding apply_gen.simps record_candidate_ready_def state(2)
      by (simp add: Let_def slots(1))
  qed
qed

lemma promote_step:
  assumes "file_shows company file g"
  shows "file_shows company (apply_gen company now (Promote slot generation) file) (spec_gen (Promote slot generation) g)"
proof -
  obtain state where state: "state_shows company state g"
      "ensure_generation_state company now file = Inr (state, Parsed (VDict state))"
    by (rule shown_read [OF assms])
  obtain slots where slots: "slots_of state = slots" "slots_show slots g"
    by (rule shown_slots [OF state(1)])
  note f = shown_fields [OF state(1)]
  have kept: "file_shows company (Parsed (VDict state)) g" using state(1) by (simp add: file_shows_def)
  show ?thesis
  proof (cases "slot \<in> set SLOTS \<and> slot \<noteq> g_active g")
    case False
    then have "apply_gen company now (Promote slot generation) file = Parsed (VDict state)"
      using shown_no_other [OF state(1), of slot] shown_active [OF state(1)]
      unfolding apply_gen.simps promote_candidate_def state(2) by (auto simp: Let_def dget_def py_eq.simps)
    then show ?thesis using kept False by auto
  next
    case True
    obtain d where d: "map_of slots slot = Some (VDict d)"
      "dget d ''generation'' = (case gs_generation (g_slot slot g) of None \<Rightarrow> VNone | Some v \<Rightarrow> VStr v)"
      "dget d ''status'' = VStr (gs_status (g_slot slot g))"
      by (rule shown_slot [OF state(1), of slot]) (use True slots(1) in auto)
    obtain slots1 slots2 where switched: "set_status slot ''active'' slots = Inr slots1"
        "set_status (g_active g) ''standby'' slots1 = Inr slots2" "slots_show slots2 (switch_to slot ''standby'' g)"
      by (rule switched_slots [OF slots(2), of slot "''standby''"]) (use True f(4) in auto)
    have ready: "py_eq (dget d ''status'') (VStr ''ready'') \<longleftrightarrow> gs_status (g_slot slot g) = ''ready''"
      "py_eq (dget d ''generation'') (VStr generation) \<longleftrightarrow> gs_generation (g_slot slot g) = Some generation"
      unfolding d(2,3) by (simp_all add: py_eq.simps split: option.splits)
    have "file_shows company (Parsed (VDict (with_slots (AList.update ''updated_at'' (VStr now)
              (AList.update ''promoted_at'' (VStr now) (AList.update ''previous_slot'' (VStr (g_active g))
              (AList.update ''active_slot'' (VStr slot) state)))) slots2))) (switch_to slot ''standby'' g)"
      by (rule state_shows_intro [OF state(1) _ _ _ _ _ _ _ switched(3)])
        (use f(4) True in \<open>simp_all add: with_slots_def\<close>)
    then show ?thesis
      using True kept unfolding apply_gen.simps promote_candidate_def state(2)
      by (simp add: Let_def shown_active [OF state(1)] slots(1) slot_dict_def d(1) ready switched(1,2))
  qed
qed

lemma rollback_step:
  assumes "file_shows company file g"
  shows "file_shows company (apply_gen company now Rollback file) (spec_gen Rollback g)"
proof -
  obtain state where state: "state_shows company state g" "read_generation_state company now file = Inr state"
      "ensure_generation_state company now file = Inr (state, Parsed (VDict state))"
    by (rule shown_read [OF assms])
  obtain slots where slots: "slots_of state = slots" "slots_show slots g"
    by (rule shown_slots [OF state(1)])
  note f = shown_fields [OF state(1)]
  show ?thesis
  proof (cases "g_previous g")
    case None
    then show ?thesis using f(5) assms by (simp add: rollback_generation_def state(2))
  next
    case (Some p)
    have p: "p \<in> set SLOTS" by (rule f(6) [OF Some])
    then have p_or: "p = ''a'' \<or> p = ''b''" unfolding SLOTS_def by simp
    obtain d where d: "map_of slots p = Some (VDict d)"
      "dget d ''generation'' = (case gs_generation (g_slot p g) of None \<Rightarrow> VNone | Some v \<Rightarrow> VStr v)"
      by (rule shown_slot [OF state(1) p]) (use slots(1) in auto)
    have previous: "dget state ''previous_slot'' = VStr p" using f(5) Some by simp
    note open_rollback = apply_gen.simps rollback_generation_def state(2) previous
      shown_active [OF state(1)] slot_dict_def slots(1) d
    show ?thesis
    proof (cases "p \<noteq> g_active g \<and> gs_generation (g_slot p g) \<noteq> None \<and> gs_generation (g_slot p g) \<noteq> Some []")
      case False
      then have "apply_gen company now Rollback file = file"
        by (auto simp: open_rollback p_or split: option.splits)
      then show ?thesis using False Some assms by (auto split: option.splits)
    next
      case True
      obtain slots1 slots2 where switched: "set_status p ''active'' slots = Inr slots1"
          "set_status (g_active g) ''ready'' slots1 = Inr slots2" "slots_show slots2 (switch_to p ''ready'' g)"
        by (rule switched_slots [OF slots(2), of p "''ready''"]) (use True p f(4) in auto)
      let ?updated = "with_slots (AList.update ''updated_at'' (VStr now)
              (AList.update ''previous_slot'' (VStr (g_active g)) (AList.update ''active_slot'' (VStr p) state))) slots2"
      have shown: "file_shows company (Parsed (VDict ?updated)) (switch_to p ''ready'' g)"
        by (rule state_shows_intro [OF state(1) _ _ _ _ _ _ _ switched(3)])
          (use f(4) p in \<open>simp_all add: with_slots_def\<close>)
      have rolled: "apply_gen company now Rollback file = snd (restore_active_slot company now p file)"
        using True by (auto simp: open_rollback p_or)
      have other: "g_active g \<noteq> p" using True by blast
      have restored: "snd (restore_active_slot company now p file) = Parsed (VDict ?updated)"
        using p other by (simp add: restore_active_slot_def state(3) Let_def shown_active [OF state(1)] slots(1) switched(1,2))
      have spec: "spec_gen Rollback g = switch_to p ''ready'' g" using True Some by auto
      show ?thesis unfolding rolled restored spec by (rule shown)
    qed
  qed
qed

lemma ensure_step:
  "file_shows company file g \<Longrightarrow> file_shows company (apply_gen company now EnsureManifest file) g"
  by (erule shown_read [where now = now]) (simp add: file_shows_def)

lemma gen_step_refines [generation_facts]:
  assumes "file_shows company file g"
  shows "file_shows company (apply_gen company now op file) (spec_gen op g)"
  using assms ensure_step record_ready_step promote_step rollback_step by (cases op) auto

lemma gen_steps_refine:
  "file_shows company file g \<Longrightarrow>
   file_shows company (fold (\<lambda>(now, op). apply_gen company now op) ops file) (fold (\<lambda>(now, op). spec_gen op) ops g)"
  by (induction ops arbitrary: "file" g) (auto intro: gen_step_refines)

subsection \<open>Runs\<close>

text \<open>The generations recorded ready so far, newest first, and the manifest.\<close>

inductive gen_run :: "string \<Rightarrow> (string \<times> string) list \<Rightarrow> manifest_file \<Rightarrow> bool" where
  run_start: "gen_run company [] Absent"
| run_record: "gen_run company recorded file \<Longrightarrow> generation \<noteq> [] \<Longrightarrow>
    record_candidate_ready company now (slot_name s) generation validation file = (r, file') \<Longrightarrow>
    gen_run company (case r of Inl e \<Rightarrow> recorded | Inr state \<Rightarrow> (slot_name s, generation) # recorded) file'"
| run_promote: "gen_run company recorded file \<Longrightarrow>
    promote_candidate company now slot generation file = (r, file') \<Longrightarrow> gen_run company recorded file'"
| run_rollback: "gen_run company recorded file \<Longrightarrow>
    rollback_generation company now file = (r, file') \<Longrightarrow> gen_run company recorded file'"
| run_ensure: "gen_run company recorded file \<Longrightarrow>
    ensure_generation_state company now file = Inr (state, file') \<Longrightarrow> gen_run company recorded file'"

definition gen_known :: "(string \<times> string) list \<Rightarrow> gens \<Rightarrow> string \<Rightarrow> bool" where
  "gen_known recorded g slot \<longleftrightarrow> (\<forall>v. gs_generation (g_slot slot g) = Some v \<longrightarrow>
     v \<noteq> [] \<and> (slot, v) \<in> set ((''a'', ''legacy-a'') # recorded))"

definition gens_ok :: "(string \<times> string) list \<Rightarrow> gens \<Rightarrow> bool" where
  "gens_ok recorded g \<longleftrightarrow> g_active g \<in> set SLOTS \<and> gs_status (g_slot (g_active g) g) = ''active''
     \<and> gs_status (g_slot (other_slot (g_active g)) g) \<noteq> ''active''
     \<and> gs_generation (g_slot (g_active g) g) \<noteq> None
     \<and> (\<forall>slot \<in> set SLOTS. gen_known recorded g slot)"

lemma gens_ok_start: "gens_ok [] no_gens"
  by (simp add: gens_ok_def no_gens_def SLOTS_def g_slot_def other_slot_def gen_known_def)

lemma gens_ok_record:
  assumes "gens_ok recorded g" and "generation \<noteq> []" and "slot_name s \<noteq> g_active g"
  shows "gens_ok ((slot_name s, generation) # recorded) (spec_gen (RecordReady s generation validation) g)"
  using assms by (cases s)
    (auto simp: gens_ok_def SLOTS_def g_slot_def other_slot_def gen_known_def put_slot_def slot_name_def)

lemma gens_ok_switch:
  assumes "gens_ok recorded g" and "slot \<in> set SLOTS" and "slot \<noteq> g_active g"
    and "gs_generation (g_slot slot g) \<noteq> None" and "st \<noteq> ''active''"
  shows "gens_ok recorded (switch_to slot st g)"
  using assms unfolding gens_ok_def SLOTS_def
  by (auto simp: g_slot_def other_slot_def gen_known_def put_slot_def switch_to_def Let_def)

lemma gens_ok_promote: "gens_ok recorded g \<Longrightarrow> gens_ok recorded (spec_gen (Promote slot generation) g)"
  using gens_ok_switch [of recorded g slot "''standby''"] by auto

lemma gens_ok_rollback:
  assumes "gens_ok recorded g" and "\<And>p. g_previous g = Some p \<Longrightarrow> p \<in> set SLOTS"
  shows "gens_ok recorded (spec_gen Rollback g)"
proof (cases "spec_gen Rollback g = g")
  case False
  then obtain p where p: "g_previous g = Some p" "p \<noteq> g_active g" "gs_generation (g_slot p g) \<noteq> None"
      "spec_gen Rollback g = switch_to p ''ready'' g"
    by (auto split: option.splits if_splits)
  show ?thesis unfolding p(4) using assms(1) assms(2) [OF p(1)] p(2,3) by (rule gens_ok_switch) simp
qed (use assms(1) in simp)

lemma shown_previous: "file_shows company file g \<Longrightarrow> g_previous g = Some p \<Longrightarrow> p \<in> set SLOTS"
  by (erule shown_read [where now = "[]"]) (erule shown_fields)

lemma record_ready_result:
  assumes "file_shows company file g"
    and "record_candidate_ready company now slot generation validation file = (r, file')"
  shows "(slot = g_active g) = (\<exists>e. r = Inl e)"
proof -
  obtain state where state: "state_shows company state g"
      "ensure_generation_state company now file = Inr (state, Parsed (VDict state))"
    by (rule shown_read [OF assms(1)])
  show ?thesis
    using assms(2) unfolding record_candidate_ready_def state(2) 
    by (auto simp: shown_fields(3) [OF state(1)] Let_def split: if_splits)
qed

lemma gen_run_shows:
  assumes "gen_run company recorded file"
  obtains g where "file_shows company file g" "gens_ok recorded g"
  using assms
proof (induction arbitrary: thesis)
  case run_start
  show ?case by (rule run_start.prems [of no_gens]) (simp_all add: file_shows_def gens_ok_start)
next
  case (run_record company recorded "file" generation now s validation r file')
  obtain g where g: "file_shows company file g" "gens_ok recorded g" by (rule run_record.IH)
  have shown: "file_shows company file' (spec_gen (RecordReady s generation validation) g)"
    using gen_step_refines [OF g(1), of now "RecordReady s generation validation"] run_record.hyps(3) by simp
  show ?case
  proof (cases "slot_name s = g_active g")
    case True
    with record_ready_result [OF g(1) run_record.hyps(3)] shown g(2) show ?thesis
      using run_record.prems [of g] by auto
  next
    case False
    with record_ready_result [OF g(1) run_record.hyps(3)] obtain state where "r = Inr state" by (cases r) auto
    then show ?thesis
      using run_record.prems [OF shown] gens_ok_record [OF g(2) run_record.hyps(2) False] by simp
  qed
next
  case (run_promote company recorded "file" now slot generation r file')
  obtain g where g: "file_shows company file g" "gens_ok recorded g" by (rule run_promote.IH)
  show ?case
    using gen_step_refines [OF g(1), of now "Promote slot generation"] run_promote.hyps(2)
    by (intro run_promote.prems [OF _ gens_ok_promote [OF g(2)]]) simp
next
  case (run_rollback company recorded "file" now r file')
  obtain g where g: "file_shows company file g" "gens_ok recorded g" by (rule run_rollback.IH)
  show ?case
    using gen_step_refines [OF g(1), of now Rollback] run_rollback.hyps(2)
    by (intro run_rollback.prems [OF _ gens_ok_rollback [OF g(2) shown_previous [OF g(1)]]]) simp_all
next
  case (run_ensure company recorded "file" now state file')
  obtain g where g: "file_shows company file g" "gens_ok recorded g" by (rule run_ensure.IH)
  show ?case
    using gen_step_refines [OF g(1), of now EnsureManifest] run_ensure.hyps(2)
    by (intro run_ensure.prems [OF _ g(2)]) simp
qed

subsection \<open>The properties\<close>

text \<open>
  C32: Whatever sequence of ensuring the manifest, recording a candidate ready, promoting and
  rolling back runs on a tenant without a manifest, the JSON manifest stays readable and valid
  and shows exactly the two-slot machine: active and previous slot, and each generation and
  status.
\<close>

theorem generations_refine:
  "file_shows company (fold (\<lambda>(now, op). apply_gen company now op) ops Absent)
     (fold (\<lambda>(now, op). spec_gen op) ops no_gens)"
  by (rule gen_steps_refine) (simp add: file_shows_def)


definition ex_manifest :: manifest_file where
  "ex_manifest =
     snd (promote_candidate ''acme'' ''t2'' ''b'' ''v1''
       (snd (record_candidate_ready ''acme'' ''t1'' ''b'' ''v1'' [] Absent)))"

lemma ex_manifest_run: "gen_run ''acme'' [(''b'', ''v1'')] ex_manifest"
proof -
  let ?recorded = "record_candidate_ready ''acme'' ''t1'' (slot_name SlotB) ''v1'' [] Absent"
  have "gen_run ''acme'' (case fst ?recorded of Inl e \<Rightarrow> [] | Inr state \<Rightarrow> (slot_name SlotB, ''v1'') # []) (snd ?recorded)"
    by (rule run_record [OF run_start _ surjective_pairing]) simp
  moreover have "(case fst ?recorded of Inl e \<Rightarrow> [] | Inr state \<Rightarrow> (slot_name SlotB, ''v1'') # []) = [(''b'', ''v1'')]"
    by code_simp
  ultimately have "gen_run ''acme'' [(''b'', ''v1'')] (snd (record_candidate_ready ''acme'' ''t1'' ''b'' ''v1'' [] Absent))"
    by (simp add: slot_name_def)
  then show ?thesis unfolding ex_manifest_def by (rule run_promote [OF _ surjective_pairing])
qed


end
