(* ===== verification/Search_Sessions.thy ===== *)
theory Search_Sessions
  imports Py_Text Py_Value
begin

text \<open>
  \<open>api/contracts.py\<close>: the opaque page cursor, with the base64, UTF-8, UUID and integer readers
  of the standard library that it goes through, and the store of search sessions, an ordered
  dictionary from the oldest use to the newest. The clock and the fresh UUID of a session are
  arguments. Text is Latin-1, so decoded characters beyond it are refused.
\<close>

named_theorems session_facts \<open>facts of cursors and sessions\<close>

subsection \<open>Bytes\<close>

text \<open>\<open>s.encode()\<close> and \<open>b.decode()\<close>\<close>

definition utf8_encode :: "string \<Rightarrow> nat list" where
  "utf8_encode s = concat (map (\<lambda>c. let n = code_of c in
     if n < 128 then [n] else [192 + n div 64, 128 + n mod 64]) s)"

fun utf8_decode :: "nat list \<Rightarrow> string option" where
  "utf8_decode [] = Some []"
| "utf8_decode (b # bs) =
     (if b < 128 then map_option ((#) (char_of b)) (utf8_decode bs)
      else (case bs of
          [] \<Rightarrow> None
        | b' # bs' \<Rightarrow>
            if (b = 194 \<or> b = 195) \<and> 128 \<le> b' \<and> b' < 192
            then map_option ((#) (char_of ((b - 192) * 64 + (b' - 128)))) (utf8_decode bs')
            else None))"

text \<open>\<open>base64.urlsafe_b64encode\<close>, and the lenient reader behind \<open>base64.urlsafe_b64decode\<close>: it skips
  characters outside the alphabet, and enough padding ends the text.\<close>

definition b64_char :: "nat \<Rightarrow> char" where
  "b64_char v = (if v < 26 then char_of (65 + v) else if v < 52 then char_of (97 + (v - 26))
     else if v < 62 then char_of (48 + (v - 52)) else if v = 62 then CHR ''-'' else CHR ''_'')"

definition b64_value :: "char \<Rightarrow> nat option" where
  "b64_value c = (let n = code_of c in
     if 65 \<le> n \<and> n \<le> 90 then Some (n - 65) else if 97 \<le> n \<and> n \<le> 122 then Some (n - 97 + 26)
     else if 48 \<le> n \<and> n \<le> 57 then Some (n - 48 + 52)
     else if c = CHR ''-'' \<or> c = CHR ''+'' then Some 62
     else if c = CHR ''_'' \<or> c = CHR ''/'' then Some 63 else None)"

fun b64_encode :: "nat list \<Rightarrow> string" where
  "b64_encode [] = []"
| "b64_encode [a] = [b64_char (a div 4), b64_char (a mod 4 * 16), CHR ''='', CHR ''='']"
| "b64_encode [a, b] =
     [b64_char (a div 4), b64_char (a mod 4 * 16 + b div 16), b64_char (b mod 16 * 4), CHR ''='']"
| "b64_encode (a # b # c # bs) =
     b64_char (a div 4) # b64_char (a mod 4 * 16 + b div 16) # b64_char (b mod 16 * 4 + c div 64)
       # b64_char (c mod 64) # b64_encode bs"

fun a2b_base64 :: "nat \<Rightarrow> nat \<Rightarrow> nat \<Rightarrow> string \<Rightarrow> nat list option" where
  "a2b_base64 quad left pads [] = (if quad = 0 then Some [] else None)"
| "a2b_base64 quad left pads (c # cs) =
     (if c = CHR ''='' then
        (if 2 \<le> quad \<and> 4 \<le> quad + Suc pads then Some []
         else a2b_base64 quad left (if 2 \<le> quad then Suc pads else pads) cs)
      else (case b64_value c of
          None \<Rightarrow> a2b_base64 quad left pads cs
        | Some v \<Rightarrow>
            if quad = 0 then a2b_base64 1 v 0 cs
            else if quad = 1 then map_option ((#) (left * 4 + v div 16)) (a2b_base64 2 (v mod 16) 0 cs)
            else if quad = 2 then map_option ((#) (left * 16 + v div 4)) (a2b_base64 3 (v mod 4) 0 cs)
            else map_option ((#) (left * 64 + v)) (a2b_base64 0 0 0 cs)))"

definition urlsafe_b64decode :: "string \<Rightarrow> nat list option" where
  "urlsafe_b64decode s = (if is_ascii s then a2b_base64 0 0 0 s else None)"

subsection \<open>Numbers and UUIDs\<close>

text \<open>Underscores may stand between digits (\<open>after\<close>: the last character was a digit).\<close>

fun drop_underscores :: "bool \<Rightarrow> string \<Rightarrow> string option" where
  "drop_underscores after [] = (if after then Some [] else None)"
| "drop_underscores after (c # cs) =
     (if c = CHR ''_'' then (if after then drop_underscores False cs else None)
      else map_option ((#) c) (drop_underscores True cs))"

definition int_text :: "string \<Rightarrow> int option" where
  "int_text s = (case split_sign (strip s) of (sg, ds) \<Rightarrow>
     (case drop_underscores False ds of
        None \<Rightarrow> None
      | Some d \<Rightarrow> if all_digits d then Some (sg * int (read_nat d)) else None))"

definition hex_char :: "nat \<Rightarrow> char" where
  "hex_char d = (if d < 10 then char_of (48 + d) else char_of (97 + (d - 10)))"

definition hex_value :: "char \<Rightarrow> nat option" where
  "hex_value c = (let n = code_of c in
     if 48 \<le> n \<and> n \<le> 57 then Some (n - 48) else if 97 \<le> n \<and> n \<le> 102 then Some (n - 97 + 10)
     else if 65 \<le> n \<and> n \<le> 70 then Some (n - 65 + 10) else None)"

definition hex_int :: "string \<Rightarrow> int option" where
  "hex_int s = (case split_sign (strip s) of (sg, ds) \<Rightarrow>
     (let prefixed = take 2 ds \<in> {''0x'', ''0X''}
      in case drop_underscores prefixed (if prefixed then drop 2 ds else ds) of
           None \<Rightarrow> None
         | Some d \<Rightarrow>
             if d \<noteq> [] \<and> list_all (\<lambda>c. hex_value c \<noteq> None) d
             then Some (sg * int (foldl (\<lambda>n c. n * 16 + the (hex_value c)) 0 d)) else None))"

fun hex_fixed :: "nat \<Rightarrow> nat \<Rightarrow> string" where
  "hex_fixed 0 n = []"
| "hex_fixed (Suc k) n = hex_fixed k (n div 16) @ [hex_char (n mod 16)]"

text \<open>\<open>str(uuid)\<close> of a 128-bit value, and \<open>uuid.UUID(text)\<close>; a part of a cursor has no colon, so
  the URN prefixes cannot occur.\<close>

definition uuid_text :: "nat \<Rightarrow> string" where
  "uuid_text n = (let h = hex_fixed 32 n in
     take 8 h @ ''-'' @ take 4 (drop 8 h) @ ''-'' @ take 4 (drop 12 h) @ ''-'' @ take 4 (drop 16 h) @ ''-'' @ drop 20 h)"

definition strip_braces :: "string \<Rightarrow> string" where
  "strip_braces s = (let brace = (\<lambda>c. c = CHR ''{'' \<or> c = CHR ''}'') in rev (dropWhile brace (rev (dropWhile brace s))))"

definition read_uuid :: "string \<Rightarrow> nat option" where
  "read_uuid s =
     (let h = filter (\<lambda>c. c \<noteq> CHR ''-'') (strip_braces s)
      in if length h \<noteq> 32 then None
         else (case hex_int h of
             None \<Rightarrow> None
           | Some i \<Rightarrow> if 0 \<le> i \<and> i < 2 ^ 128 then Some (nat i) else None))"

subsection \<open>Cursors\<close>

fun split_on :: "char \<Rightarrow> string \<Rightarrow> string list" where
  "split_on d [] = [[]]"
| "split_on d (c # cs) =
     (if c = d then [] # split_on d cs
      else (case split_on d cs of [] \<Rightarrow> [[c]] | w # ws \<Rightarrow> (c # w) # ws))"

datatype cursor_error = InvalidCursorError string | ExpiredCursorError string

definition encode_cursor :: "string \<Rightarrow> int \<Rightarrow> string" where
  "encode_cursor search_id offset =
     rev (dropWhile ((=) CHR ''='') (rev (b64_encode (utf8_encode (''v1:'' @ search_id @ '':'' @ show_int offset)))))"

definition decode_cursor :: "string \<Rightarrow> cursor_error + string \<times> int" where
  "decode_cursor cursor =
     (let padding = replicate (nat (- int (length cursor) mod 4)) (CHR ''='');
          invalid = Inl (InvalidCursorError ''The cursor is invalid.'')
      in case urlsafe_b64decode (cursor @ padding) of
           None \<Rightarrow> invalid
         | Some bytes \<Rightarrow>
             (case utf8_decode bytes of
                None \<Rightarrow> invalid
              | Some decoded \<Rightarrow>
                  (case split_on (CHR '':'') decoded of
                     [version, search_id, raw_offset] \<Rightarrow>
                       (case (read_uuid search_id, int_text raw_offset) of
                          (Some n, Some offset) \<Rightarrow>
                            if version \<noteq> ''v1'' \<or> offset < 0 then invalid else Inr (uuid_text n, offset)
                        | _ \<Rightarrow> invalid)
                   | _ \<Rightarrow> invalid)))"

subsection \<open>A cursor reads back\<close>

lemma b64_char_code:
  "v < 64 \<Longrightarrow> code_of (b64_char v) = (if v < 26 then 65 + v else if v < 52 then 97 + (v - 26)
     else if v < 62 then 48 + (v - 52) else if v = 62 then 45 else 95 :: nat)"
  by (auto simp: b64_char_def)

lemma b64_value_code:
  "b64_value c = (let n = code_of c in
     if 65 \<le> n \<and> n \<le> 90 then Some (n - 65) else if 97 \<le> n \<and> n \<le> 122 then Some (n - 97 + 26)
     else if 48 \<le> n \<and> n \<le> 57 then Some (n - 48 + 52)
     else if n = 45 \<or> n = 43 then Some 62 else if n = 95 \<or> n = 47 then Some 63 else None)"
proof -
  have "c = d \<longleftrightarrow> code_of c = (code_of d :: nat)" for d by simp
  from this [of "CHR ''-''"] this [of "CHR ''+''"] this [of "CHR ''_''"] this [of "CHR ''/''"] show ?thesis
    unfolding b64_value_def Let_def by (simp split: if_splits)
qed

lemma b64_value_char: "v < 64 \<Longrightarrow> b64_value (b64_char v) = Some v"
  unfolding b64_value_code by (simp only: b64_char_code Let_def) (auto split: if_splits)

lemma b64_char_ascii:
  assumes "v < 64"
  shows "b64_char v \<noteq> CHR ''=''" "code_of (b64_char v) < (128 :: nat)"
proof -
  have "code_of (b64_char v) \<noteq> (code_of (CHR ''='') :: nat)"
    using assms by (auto simp: b64_char_code split: if_splits)
  then show "b64_char v \<noteq> CHR ''=''" by metis
  show "code_of (b64_char v) < (128 :: nat)" using assms by (auto simp: b64_char_code split: if_splits)
qed

lemma sextet_bounds:
  fixes a b c :: nat
  shows "a < 256 \<Longrightarrow> a div 4 < 64" "b < 256 \<Longrightarrow> a mod 4 * 16 + b div 16 < 64"
    "c < 256 \<Longrightarrow> b mod 16 * 4 + c div 64 < 64" "c mod 64 < 64" "a mod 4 * 16 < 64" "b mod 16 * 4 < 64"
proof -
  have m: "a mod 4 < 4" "b mod 16 < 16" by simp_all
  have "b < 256 \<Longrightarrow> b div 16 < 16" "c < 256 \<Longrightarrow> c div 64 < 4" "a < 256 \<Longrightarrow> a div 4 < 64"
    by (simp_all add: less_mult_imp_div_less)
  with m show "a < 256 \<Longrightarrow> a div 4 < 64" "b < 256 \<Longrightarrow> a mod 4 * 16 + b div 16 < 64"
    "c < 256 \<Longrightarrow> b mod 16 * 4 + c div 64 < 64" "c mod 64 < 64" "a mod 4 * 16 < 64" "b mod 16 * 4 < 64"
    by linarith+
qed

lemma sextet_values:
  fixes a b c :: nat
  shows "b < 256 \<Longrightarrow> a div 4 * 4 + (a mod 4 * 16 + b div 16) div 16 = a"
    "b < 256 \<Longrightarrow> (a mod 4 * 16 + b div 16) mod 16 = b div 16"
    "c < 256 \<Longrightarrow> b div 16 * 16 + (b mod 16 * 4 + c div 64) div 4 = b"
    "c < 256 \<Longrightarrow> (b mod 16 * 4 + c div 64) mod 4 = c div 64"
    "a div 4 * 4 + (a mod 4 * 16) div 16 = a" "b div 16 * 16 + (b mod 16 * 4) div 4 = b"
  by (simp_all add: less_mult_imp_div_less)

lemma b64_text_ascii: "\<forall>b \<in> set bs. b < 256 \<Longrightarrow> is_ascii (b64_encode bs)"
  by (induction bs rule: b64_encode.induct) (auto simp: is_ascii_def b64_char_ascii sextet_bounds)

lemma a2b_char:
  assumes "v < 64"
  shows "a2b_base64 0 left pads (b64_char v # cs) = a2b_base64 1 v 0 cs"
    "a2b_base64 1 left pads (b64_char v # cs) = map_option ((#) (left * 4 + v div 16)) (a2b_base64 2 (v mod 16) 0 cs)"
    "a2b_base64 2 left pads (b64_char v # cs) = map_option ((#) (left * 16 + v div 4)) (a2b_base64 3 (v mod 4) 0 cs)"
    "a2b_base64 3 left pads (b64_char v # cs) = map_option ((#) (left * 64 + v)) (a2b_base64 0 0 0 cs)"
  using b64_value_char [OF assms] b64_char_ascii [OF assms] by simp_all

lemma a2b_encode: "\<forall>b \<in> set bs. b < 256 \<Longrightarrow> a2b_base64 0 0 0 (b64_encode bs) = Some bs"
proof (induction bs rule: b64_encode.induct)
  case (2 a)
  then have "a < 256" by simp
  then show ?case
    unfolding b64_encode.simps by (simp only: a2b_char sextet_bounds) (simp add: sextet_values)
next
  case (3 a b)
  then have "a < 256" "b < 256" by simp_all
  then show ?case
    unfolding b64_encode.simps by (simp only: a2b_char sextet_bounds) (simp add: sextet_values)
next
  case (4 a b c bs)
  then have "a < 256" "b < 256" "c < 256" "a2b_base64 0 0 0 (b64_encode bs) = Some bs" by simp_all
  then show ?case
    unfolding b64_encode.simps by (simp only: a2b_char sextet_bounds) (simp add: sextet_values)
qed simp

text \<open>Stripping the padding and putting it back.\<close>

lemma b64_encode_unpadded:
  assumes "\<forall>b \<in> set bs. b < 256"
  shows "\<exists>t n. b64_encode bs = t @ replicate n (CHR ''='') \<and> CHR ''='' \<notin> set t
           \<and> n = nat (- int (length t) mod 4)"
  using assms
proof (induction bs rule: b64_encode.induct)
  case 1
  show ?case by (intro exI [of _ "[]"] exI [of _ 0]) simp
next
  case (2 a)
  then have "a < 256" by simp
  then show ?case
    by (intro exI [of _ "[b64_char (a div 4), b64_char (a mod 4 * 16)]"] exI [of _ "Suc (Suc 0)"])
      (simp add: b64_char_ascii(1) [symmetric] sextet_bounds)
next
  case (3 a b)
  then have "a < 256" "b < 256" by simp_all
  then show ?case
    by (intro exI [of _ "[b64_char (a div 4), b64_char (a mod 4 * 16 + b div 16), b64_char (b mod 16 * 4)]"] exI [of _ 1])
      (simp add: b64_char_ascii(1) [symmetric] sextet_bounds)
next
  case (4 a b c bs)
  then have bytes: "a < 256" "b < 256" "c < 256" by simp_all
  obtain t n where "b64_encode bs = t @ replicate n (CHR ''='')" "CHR ''='' \<notin> set t" "n = nat (- int (length t) mod 4)"
    using 4 by auto
  moreover have "(- 4 - int (length t)) mod 4 = - int (length t) mod 4" by presburger
  ultimately show ?case
    by (intro exI [of _ "[b64_char (a div 4), b64_char (a mod 4 * 16 + b div 16), b64_char (b mod 16 * 4 + c div 64),
          b64_char (c mod 64)] @ t"] exI [of _ n])
      (simp add: b64_char_ascii(1) [symmetric] sextet_bounds bytes)
qed

lemma rstrip_padding:
  assumes "CHR ''='' \<notin> set t"
  shows "rev (dropWhile ((=) CHR ''='') (rev (t @ replicate n (CHR ''='')))) = t"
proof -
  have "dropWhile ((=) CHR ''='') (replicate n (CHR ''='') @ rev t) = dropWhile ((=) CHR ''='') (rev t)"
    by (induction n) simp_all
  also have "\<dots> = rev t" using assms by (intro dropWhile_none) auto
  finally show ?thesis by simp
qed

lemma padded_decodes:
  assumes "\<forall>b \<in> set bs. b < 256"
  defines "t \<equiv> rev (dropWhile ((=) CHR ''='') (rev (b64_encode bs)))"
  shows "urlsafe_b64decode (t @ replicate (nat (- int (length t) mod 4)) (CHR ''='')) = Some bs"
proof -
  obtain s n where s: "b64_encode bs = s @ replicate n (CHR ''='')" "CHR ''='' \<notin> set s"
      "n = nat (- int (length s) mod 4)"
    using b64_encode_unpadded [OF assms(1)] by blast
  have "t = s" unfolding t_def s(1) by (rule rstrip_padding [OF s(2)])
  then have "t @ replicate (nat (- int (length t) mod 4)) (CHR ''='') = b64_encode bs"
    using s(1,3) by simp
  then show ?thesis
    using b64_text_ascii [OF assms(1)] a2b_encode [OF assms(1)] by (simp add: urlsafe_b64decode_def)
qed

lemma utf8_ascii:
  assumes "is_ascii s"
  shows "utf8_decode (utf8_encode s) = Some s" "\<forall>b \<in> set (utf8_encode s). b < 256"
  using assms by (induction s) (auto simp: utf8_encode_def is_ascii_def Let_def)

lemma split_on_none: "d \<notin> set s \<Longrightarrow> split_on d s = [s]"
  by (induction s) auto

lemma split_on_cons: "d \<notin> set s \<Longrightarrow> split_on d (s @ d # t) = s # split_on d t"
  by (induction s) auto

lemma drop_underscores_id: "CHR ''_'' \<notin> set s \<Longrightarrow> s \<noteq> [] \<or> after \<Longrightarrow> drop_underscores after s = Some s"
  by (induction s arbitrary: after) auto

lemma hex_fixed_chars: "c \<in> set (hex_fixed k n) \<Longrightarrow> \<exists>d < 16. c = hex_char d"
proof (induction k arbitrary: n)
  case (Suc k)
  then show ?case using mod_less_divisor [of 16 n] by (auto simp del: mod_less_divisor)
qed simp

lemma length_hex_fixed [simp]: "length (hex_fixed k n) = k"
  by (induction k arbitrary: n) simp_all

lemma hex_char_code: "d < 16 \<Longrightarrow> code_of (hex_char d) = (if d < 10 then 48 + d else 97 + (d - 10) :: nat)"
  by (auto simp: hex_char_def)

lemma hex_value_char: "d < 16 \<Longrightarrow> hex_value (hex_char d) = Some d"
  by (auto simp: hex_value_def hex_char_code Let_def)

lemma hex_fixed_value: "n < 16 ^ k \<Longrightarrow> foldl (\<lambda>n c. n * 16 + the (hex_value c)) 0 (hex_fixed k n) = n"
  by (induction k arbitrary: n) (auto simp: hex_value_char less_mult_imp_div_less mult.commute)

lemma hex_char_not: "d < 16 \<Longrightarrow> code_of c \<notin> {48 .. 57} \<union> {97 .. (102 :: nat)} \<Longrightarrow> hex_char d \<noteq> c"
  by (auto simp: hex_char_code dest!: arg_cong [where f = "of_char :: char \<Rightarrow> nat"] split: if_splits)

lemma hex_not_in: "code_of c \<notin> {48 .. 57} \<union> {97 .. (102 :: nat)} \<Longrightarrow> c \<notin> set (hex_fixed k n)"
  using hex_fixed_chars hex_char_not by blast

lemma uuid_text_chars: "c \<in> set (uuid_text n) \<Longrightarrow> c = CHR ''-'' \<or> c \<in> set (hex_fixed 32 n)"
  by (auto simp: uuid_text_def Let_def dest: in_set_takeD in_set_dropD)

lemma uuid_text_no_dashes: "filter (\<lambda>c. c \<noteq> CHR ''-'') (uuid_text n) = hex_fixed 32 n"
proof -
  have id: "filter (\<lambda>c. c \<noteq> CHR ''-'') (take i (drop j (hex_fixed 32 n))) = take i (drop j (hex_fixed 32 n))" for i j
    using hex_not_in [of "CHR ''-''" 32 n] by (intro filter_True) (auto dest: in_set_takeD in_set_dropD)
  have "take 8 h @ take 4 (drop 8 h) @ take 4 (drop 12 h) @ take 4 (drop 16 h) @ drop 20 h = h" for h :: string
    using append_take_drop_id [of 8 h] append_take_drop_id [of 4 "drop 8 h"] append_take_drop_id [of 4 "drop 12 h"]
      append_take_drop_id [of 4 "drop 16 h"] by (simp add: drop_drop add.commute del: append_take_drop_id)
  then show ?thesis
    using id [of 8 0] id [of 4 8] id [of 4 12] id [of 4 16] id [of 12 20]
    by (simp add: uuid_text_def Let_def)
qed

lemma hex_int_fixed:
  assumes "n < 16 ^ k" and "0 < k"
  shows "hex_int (hex_fixed k n) = Some (int n)"
proof -
  let ?h = "hex_fixed k n"
  have spaces: "\<forall>c \<in> set ?h. \<not> is_space c"
    using hex_fixed_chars by (fastforce simp: is_space_def hex_char_code Let_def split: if_splits)
  obtain c cs where h: "?h = c # cs" using assms(2) length_hex_fixed [of k n] by (cases ?h) auto
  have none: "CHR ''-'' \<notin> set ?h" "CHR ''+'' \<notin> set ?h" "CHR ''_'' \<notin> set ?h" "CHR ''x'' \<notin> set ?h" "CHR ''X'' \<notin> set ?h"
    by (rule hex_not_in; simp)+
  have sign: "split_sign (strip ?h) = (1, ?h)"
    unfolding strip_none [OF spaces] using none(1,2) by (auto simp: split_sign_def h)
  have "take 2 ?h \<notin> {''0x'', ''0X''}"
  proof
    assume "take 2 ?h \<in> {''0x'', ''0X''}"
    then have "CHR ''x'' \<in> set (take 2 ?h) \<or> CHR ''X'' \<in> set (take 2 ?h)" by auto
    then show False using none(4,5) by (auto dest: in_set_takeD)
  qed
  then have prefix: "(take 2 ?h \<in> {''0x'', ''0X''}) = False" by blast
  have plain: "drop_underscores False ?h = Some ?h" using none(3) h by (intro drop_underscores_id) auto
  have hex: "list_all (\<lambda>c. hex_value c \<noteq> None) ?h"
    using hex_fixed_chars hex_value_char by (fastforce simp: list_all_iff)
  have "?h \<noteq> []" using h by simp
  then show ?thesis
    unfolding hex_int_def sign prod.case Let_def prefix if_False plain option.case hex_fixed_value [OF assms(1)]
    using hex by simp
qed

lemma read_uuid_text:
  assumes "n < 2 ^ 128"
  shows "read_uuid (uuid_text n) = Some n"
proof -
  have "\<forall>c \<in> set (uuid_text n). \<not> (c = CHR ''{'' \<or> c = CHR ''}'')"
    using uuid_text_chars hex_not_in [of "CHR ''{''" 32 n] hex_not_in [of "CHR ''}''" 32 n] by fastforce
  then have "strip_braces (uuid_text n) = uuid_text n"
    by (simp add: strip_braces_def dropWhile_none)
  moreover have "hex_int (hex_fixed 32 n) = Some (int n)" using assms by (intro hex_int_fixed) simp_all
  ultimately show ?thesis using assms by (simp add: read_uuid_def uuid_text_no_dashes Let_def)
qed

lemma int_text_show:
  assumes "0 \<le> i"
  shows "int_text (show_int i) = Some i"
proof -
  have "CHR ''_'' \<notin> set (show_nat (nat i))" using show_nat_digits by (fastforce simp: is_digit_def)
  then have "drop_underscores False (show_nat (nat i)) = Some (show_nat (nat i))"
    by (intro drop_underscores_id) simp_all
  moreover have "split_sign (strip (show_int i)) = (1, show_nat (nat i)) \<and> all_digits (show_nat (nat i))"
  proof -
    obtain c cs where c: "show_nat (nat i) = c # cs" by (cases "show_nat (nat i)") simp_all
    have "\<forall>d \<in> set (show_nat (nat i)). is_digit d" using show_nat_digits by blast
    then show ?thesis
      using assms c digits_no_space
      by (auto simp: show_int_def strip_none split_sign_def all_digits_def list_all_iff is_digit_def)
  qed
  ultimately show ?thesis using assms by (simp add: int_text_def)
qed

lemma cursor_reads_back [session_facts]:
  assumes "n < 2 ^ 128" and "0 \<le> offset"
  shows "decode_cursor (encode_cursor (uuid_text n) offset) = Inr (uuid_text n, offset)"
proof -
  let ?raw = "''v1:'' @ uuid_text n @ '':'' @ show_int offset"
  have hex_ascii: "d < 16 \<Longrightarrow> code_of (hex_char d) < (128 :: nat)" for d by (simp add: hex_char_code)
  have digits: "\<forall>c \<in> set (show_int offset). is_digit c"
    using assms(2) show_nat_digits by (auto simp: show_int_def)
  have ascii: "is_ascii ?raw"
    using uuid_text_chars hex_fixed_chars hex_ascii digits by (fastforce simp: is_ascii_def list_all_iff is_digit_def)
  have colons: "CHR '':'' \<notin> set (uuid_text n)" "CHR '':'' \<notin> set (show_int offset)"
    using uuid_text_chars hex_not_in [of "CHR '':''" 32 n] digits by (fastforce simp: is_digit_def)+
  have "split_on (CHR '':'') ?raw = [''v1'', uuid_text n, show_int offset]"
    using split_on_cons [of "CHR '':''" "''v1''"] split_on_cons [OF colons(1)] split_on_none [OF colons(2)] by simp
  then show ?thesis
    using padded_decodes [OF utf8_ascii(2) [OF ascii]] utf8_ascii(1) [OF ascii] read_uuid_text [OF assms(1)]
      int_text_show [OF assms(2)] assms(2)
    by (simp add: decode_cursor_def encode_cursor_def Let_def)
qed

subsection \<open>The session store\<close>

text \<open>Timings of a session are left out.\<close>

record search_session =
  ss_id :: string
  ss_query :: string
  ss_items :: "pydict list"
  ss_interpreted :: pydict
  ss_applied :: pyval
  ss_unresolved :: pyval
  ss_usage :: pydict
  ss_expires :: pyfloat
  ss_company :: "string option"

record session_store =
  ttl_seconds :: int
  max_sessions :: int
  live_sessions :: "(string, search_session) dict"

definition session_store_init :: "int \<Rightarrow> int \<Rightarrow> py_error + session_store" where
  "session_store_init ttl maximum =
     (if ttl \<le> 0 then Inl (ValueError ''Session TTL must be greater than zero.'')
      else if maximum \<le> 0 then Inl (ValueError ''Maximum sessions must be greater than zero.'')
      else Inr \<lparr>ttl_seconds = ttl, max_sessions = maximum, live_sessions = []\<rparr>)"

definition remove_expired :: "pyfloat \<Rightarrow> (string, search_session) dict \<Rightarrow> (string, search_session) dict" where
  "remove_expired now d = filter (\<lambda>(k, s). \<not> ss_expires s \<le> now) d"

text \<open>\<open>while len(d) > n: d.popitem(last=False)\<close>\<close>

definition keep_newest :: "nat \<Rightarrow> ('k, 'v) dict \<Rightarrow> ('k, 'v) dict" where
  "keep_newest n d = drop (length d - n) d"

text \<open>\<open>create(**values)\<close> at time \<open>now\<close> with the fresh UUID \<open>uid\<close>; the id and expiry of \<open>values\<close> are set here.\<close>

definition create_session :: "pyfloat \<Rightarrow> string \<Rightarrow> search_session \<Rightarrow> session_store \<Rightarrow> search_session \<times> session_store" where
  "create_session now uid vals st =
     (let session = vals\<lparr>ss_id := uid, ss_expires := now + of_int (ttl_seconds st)\<rparr>;
          d = AList.update uid session (remove_expired now (live_sessions st))
      in (session, st\<lparr>live_sessions := keep_newest (nat (max_sessions st)) d\<rparr>))"

definition get_session ::
    "pyfloat \<Rightarrow> string \<Rightarrow> session_store \<Rightarrow> (cursor_error + search_session) \<times> session_store" where
  "get_session now search_id st =
     (case map_of (live_sessions st) search_id of
        None \<Rightarrow> (Inl (InvalidCursorError ''The cursor is invalid.''), st)
      | Some session \<Rightarrow>
          if ss_expires session \<le> now
          then (Inl (ExpiredCursorError ''The cursor has expired. Start a new search with query.''),
                st\<lparr>live_sessions := filter (\<lambda>kv. fst kv \<noteq> search_id) (live_sessions st)\<rparr>)
          else (Inr session, st\<lparr>live_sessions := move_to_end search_id session (live_sessions st)\<rparr>))"

definition sessions_ok :: "session_store \<Rightarrow> bool" where
  "sessions_ok st \<longleftrightarrow> distinct (map fst (live_sessions st))
     \<and> int (length (live_sessions st)) \<le> max_sessions st
     \<and> list_all (\<lambda>(k, s). ss_id s = k) (live_sessions st)"

lemma session_store_init_ok [session_facts]: "session_store_init ttl n = Inr st \<Longrightarrow> sessions_ok st"
  by (auto simp: session_store_init_def sessions_ok_def split: if_splits)

lemma keep_newest_facts:
  "length (keep_newest n d) \<le> n" "distinct (map fst d) \<Longrightarrow> distinct (map fst (keep_newest n d))"
  "set (keep_newest n d) \<subseteq> set d"
  by (auto simp: keep_newest_def drop_map [symmetric] distinct_drop dest: in_set_dropD)

lemma set_update_subset: "set (AList.update k v d) \<subseteq> insert (k, v) (set d)"
  by (induction d) auto

lemma create_session_ok [session_facts]:
  assumes "sessions_ok st" and "create_session now uid vals st = (session, st')"
  shows "sessions_ok st'" "ss_id session = uid" "max_sessions st' = max_sessions st" "ttl_seconds st' = ttl_seconds st"
    "set (live_sessions st') \<subseteq> insert (uid, session) (set (live_sessions st))"
proof -
  let ?d = "AList.update uid session (remove_expired now (live_sessions st))"
  have s: "session = vals\<lparr>ss_id := uid, ss_expires := now + of_int (ttl_seconds st)\<rparr>"
    "st' = st\<lparr>live_sessions := keep_newest (nat (max_sessions st)) ?d\<rparr>"
    using assms(2) by (auto simp: create_session_def Let_def)
  show id: "ss_id session = uid" by (simp add: s(1))
  show "max_sessions st' = max_sessions st" "ttl_seconds st' = ttl_seconds st" by (simp_all add: s(2))
  have sub: "set ?d \<subseteq> insert (uid, session) (set (live_sessions st))"
    using set_update_subset [of uid session "remove_expired now (live_sessions st)"] by (auto simp: remove_expired_def)
  then show "set (live_sessions st') \<subseteq> insert (uid, session) (set (live_sessions st))"
    using keep_newest_facts(3) [where n = "nat (max_sessions st)" and d = ?d] by (auto simp: s(2))
  have "0 \<le> max_sessions st" using assms(1) by (auto simp: sessions_ok_def)
  then show "sessions_ok st'"
    using assms(1) keep_newest_facts [where n = "nat (max_sessions st)" and d = ?d] sub id
    by (fastforce simp: sessions_ok_def s(2) remove_expired_def distinct_map_filter distinct_update list_all_iff)
qed

lemma get_session_ok [session_facts]:
  assumes "sessions_ok st" and "get_session now search_id st = (r, st')"
  shows "sessions_ok st'" "max_sessions st' = max_sessions st" "ttl_seconds st' = ttl_seconds st"
    "set (live_sessions st') \<subseteq> set (live_sessions st)"
    "r = Inr session \<Longrightarrow> (search_id, session) \<in> set (live_sessions st) \<and> now < ss_expires session
       \<and> ss_id session = search_id \<and> map_of (live_sessions st') = map_of (live_sessions st)"
proof -
  have "sessions_ok st' \<and> max_sessions st' = max_sessions st \<and> ttl_seconds st' = ttl_seconds st
    \<and> set (live_sessions st') \<subseteq> set (live_sessions st)
    \<and> (r = Inr session \<longrightarrow> (search_id, session) \<in> set (live_sessions st) \<and> now < ss_expires session
       \<and> ss_id session = search_id \<and> map_of (live_sessions st') = map_of (live_sessions st))"
  proof (cases "map_of (live_sessions st) search_id")
    case None
    then show ?thesis using assms by (auto simp: get_session_def)
  next
    case (Some s)
    then have mem: "(search_id, s) \<in> set (live_sessions st)" by (rule map_of_SomeD)
    show ?thesis
    proof (cases "ss_expires s \<le> now")
      case True
      then have "st' = st\<lparr>live_sessions := filter (\<lambda>kv. fst kv \<noteq> search_id) (live_sessions st)\<rparr>"
        and "r \<noteq> Inr session" using assms(2) Some by (auto simp: get_session_def)
      moreover have "int (length (filter (\<lambda>kv. fst kv \<noteq> search_id) (live_sessions st))) \<le> max_sessions st"
      proof (rule order_trans)
        show "int (length (filter (\<lambda>kv. fst kv \<noteq> search_id) (live_sessions st))) \<le> int (length (live_sessions st))"
          by simp
        show "int (length (live_sessions st)) \<le> max_sessions st" using assms(1) by (simp add: sessions_ok_def)
      qed
      ultimately show ?thesis
        using assms(1) by (auto simp: sessions_ok_def distinct_map_filter list_all_iff)
    next
      case False
      then have "r = Inr s" and st': "st' = st\<lparr>live_sessions := move_to_end search_id s (live_sessions st)\<rparr>"
        using assms(2) Some by (auto simp: get_session_def)
      moreover have "map_of (live_sessions st') = map_of (live_sessions st)"
        by (simp add: st' fun_upd_idem_iff Some)
      moreover have "length (live_sessions st') \<le> length (live_sessions st)"
        "distinct (map fst (live_sessions st'))" "set (live_sessions st') \<subseteq> set (live_sessions st)"
        using move_to_end_facts(1,2,4) [where d = "live_sessions st" and k = search_id and v = s] assms(1) Some mem
        by (auto simp: st' sessions_ok_def)
      ultimately show ?thesis
        using assms(1) mem False by (auto simp: sessions_ok_def list_all_iff)
    qed
  qed
  then show "sessions_ok st'" "max_sessions st' = max_sessions st" "ttl_seconds st' = ttl_seconds st"
    "set (live_sessions st') \<subseteq> set (live_sessions st)"
    "r = Inr session \<Longrightarrow> (search_id, session) \<in> set (live_sessions st) \<and> now < ss_expires session
       \<and> ss_id session = search_id \<and> map_of (live_sessions st') = map_of (live_sessions st)"
    by blast+
qed

end
