(* ===== verification/Usage_Store.thy ===== *)
theory Usage_Store
  imports Py_Text Py_Value
begin

text \<open>
  \<open>storage/usage.py\<close>: the monthly ledger of requests and provider tokens per company. The SQLite
  table is a dictionary from its primary key to the counters; the lock and the commit make each
  call one step. The clock's month and timestamp are arguments; counters do not overflow.
\<close>

named_theorems usage_facts \<open>facts of the usage ledger\<close>

subsection \<open>Months\<close>

text \<open>\<open>datetime.strptime(value, "%Y-%m")\<close> printed again with the same format.\<close>

definition month_digits :: "string \<Rightarrow> nat option" where
  "month_digits s =
     (case s of
        [a] \<Rightarrow> if is_digit a \<and> a \<noteq> CHR ''0'' then Some (digit_value a) else None
      | [a, b] \<Rightarrow>
          if (a = CHR ''1'' \<and> is_digit b \<and> digit_value b \<le> 2) \<or> (a = CHR ''0'' \<and> is_digit b \<and> b \<noteq> CHR ''0'')
          then Some (read_nat s) else None
      | _ \<Rightarrow> None)"

definition two_digits :: "nat \<Rightarrow> string" where
  "two_digits n = (if n < 10 then CHR ''0'' # show_nat n else show_nat n)"

definition validate_month :: "string \<Rightarrow> py_error + string" where
  "validate_month s =
     (let year = take 4 s; month = month_digits (drop 5 s)
      in if length year = 4 \<and> list_all is_digit year \<and> read_nat year \<noteq> 0 \<and> take 1 (drop 4 s) = ''-'' \<and> month \<noteq> None
         then Inr (show_nat (read_nat year) @ ''-'' @ two_digits (the month))
         else Inl (ValueError ''month must use YYYY-MM format''))"

subsection \<open>The ledger\<close>

type_synonym usage_key = "string \<times> string \<times> string \<times> string \<times> string \<times> string"

record usage_row =
  ur_requests :: int
  ur_input :: int
  ur_output :: int
  ur_total :: int
  ur_updated :: string

record usage_call =
  uc_company :: string
  uc_provider :: string
  uc_model :: string
  uc_operation :: string
  uc_status :: string
  uc_requests :: int
  uc_input :: int
  uc_output :: int
  uc_total :: int
  uc_month :: "string option"

type_synonym usage_table = "(usage_key, usage_row) dict"

definition month_of :: "string \<Rightarrow> string option \<Rightarrow> py_error + string" where
  "month_of current month =
     validate_month (case month of None \<Rightarrow> current | Some m \<Rightarrow> if m = [] then current else m)"

definition call_key :: "string \<Rightarrow> usage_call \<Rightarrow> usage_key" where
  "call_key m c = (m, uc_company c, uc_provider c, uc_model c, uc_operation c, uc_status c)"

definition call_row :: "string \<Rightarrow> usage_call \<Rightarrow> usage_row" where
  "call_row now c = \<lparr>ur_requests = max (uc_requests c) 0, ur_input = max (uc_input c) 0,
     ur_output = max (uc_output c) 0, ur_total = max (uc_total c) 0, ur_updated = now\<rparr>"

text \<open>\<open>INSERT ... ON CONFLICT DO UPDATE\<close>\<close>

definition upsert_usage :: "usage_key \<Rightarrow> usage_row \<Rightarrow> usage_table \<Rightarrow> usage_table" where
  "upsert_usage k row t =
     (case map_of t k of
        None \<Rightarrow> AList.update k row t
      | Some old \<Rightarrow> AList.update k
          \<lparr>ur_requests = ur_requests old + ur_requests row, ur_input = ur_input old + ur_input row,
           ur_output = ur_output old + ur_output row, ur_total = ur_total old + ur_total row,
           ur_updated = ur_updated row\<rparr> t)"

definition record_usage :: "string \<Rightarrow> string \<Rightarrow> usage_call \<Rightarrow> usage_table \<Rightarrow> py_error + usage_table" where
  "record_usage now current c t =
     (case month_of current (uc_month c) of
        Inl e \<Rightarrow> Inl e
      | Inr m \<Rightarrow> Inr (upsert_usage (call_key m c) (call_row now c) t))"

record usage_totals =
  us_requests :: int
  us_searches :: int
  us_model_requests :: int
  us_input :: int
  us_output :: int
  us_total :: int

definition usage_scope :: "string \<Rightarrow> string \<Rightarrow> usage_key \<Rightarrow> bool" where
  "usage_scope company m k = (case k of (m', company', _) \<Rightarrow> company' = company \<and> m' = m)"

definition is_search_key :: "usage_key \<Rightarrow> bool" where
  "is_search_key k = (case k of (_, _, _, _, operation, _) \<Rightarrow> operation = ''search'')"

definition breakdown_order :: "usage_key \<times> usage_row \<Rightarrow> string \<times> string \<times> string \<times> string" where
  "breakdown_order kr = (case fst kr of (_, _, provider, model, operation, status) \<Rightarrow> (provider, model, operation, status))"

definition usage_summary ::
    "string \<Rightarrow> string \<Rightarrow> string option \<Rightarrow> usage_table \<Rightarrow> py_error + usage_totals \<times> (usage_key \<times> usage_row) list" where
  "usage_summary current company month t =
     (case month_of current month of
        Inl e \<Rightarrow> Inl e
      | Inr m \<Rightarrow>
          (let rows = sort_key breakdown_order (filter (\<lambda>kr. usage_scope company m (fst kr)) t);
               requests = (\<lambda>xs. sum_list (map (\<lambda>kr. ur_requests (snd kr)) xs))
           in Inr (\<lparr>us_requests = requests rows,
                us_searches = requests (filter (\<lambda>kr. is_search_key (fst kr)) rows),
                us_model_requests = requests (filter (\<lambda>kr. \<not> is_search_key (fst kr)) rows),
                us_input = sum_list (map (\<lambda>kr. ur_input (snd kr)) rows),
                us_output = sum_list (map (\<lambda>kr. ur_output (snd kr)) rows),
                us_total = sum_list (map (\<lambda>kr. ur_total (snd kr)) rows)\<rparr>, rows)))"

subsection \<open>What the ledger adds up\<close>

text \<open>A sum over the rows whose key is selected, and over the calls that wrote to such keys.\<close>

definition ledger_sum :: "(usage_key \<Rightarrow> bool) \<Rightarrow> (usage_row \<Rightarrow> int) \<Rightarrow> usage_table \<Rightarrow> int" where
  "ledger_sum P f t = sum_list (map (\<lambda>kr. f (snd kr)) (filter (\<lambda>kr. P (fst kr)) t))"

definition additive :: "(usage_row \<Rightarrow> int) \<Rightarrow> bool" where
  "additive f \<longleftrightarrow> f \<in> {ur_requests, ur_input, ur_output, ur_total}"

lemma upsert_keys [usage_facts]: "distinct (map fst t) \<Longrightarrow> distinct (map fst (upsert_usage k row t))"
  by (simp add: upsert_usage_def distinct_update split: option.split)

lemma ledger_sum_update:
  assumes "distinct (map fst t)"
  shows "ledger_sum P f (AList.update k row t) =
    ledger_sum P f t + (if P k then f row - (case map_of t k of None \<Rightarrow> 0 | Some old \<Rightarrow> f old) else 0)"
  using assms by (induction t) (auto simp: ledger_sum_def map_of_eq_None_iff split: option.splits)

lemma ledger_sum_upsert [usage_facts]:
  assumes "distinct (map fst t)" and "additive f"
  shows "ledger_sum P f (upsert_usage k row t) = ledger_sum P f t + (if P k then f row else 0)"
  using assms(2)
  by (auto simp: upsert_usage_def ledger_sum_update [OF assms(1)] additive_def split: option.split)

lemma ledger_sum_filter: "ledger_sum P f (filter (\<lambda>kr. Q (fst kr)) t) = ledger_sum (\<lambda>k. Q k \<and> P k) f t"
  by (simp add: ledger_sum_def conj_commute)

lemma summary_sums:
  assumes "month_of current month = Inr m"
  shows "\<exists>rows. usage_summary current company month t =
     Inr (\<lparr>us_requests = ledger_sum (usage_scope company m) ur_requests t,
       us_searches = ledger_sum (\<lambda>k. usage_scope company m k \<and> is_search_key k) ur_requests t,
       us_model_requests = ledger_sum (\<lambda>k. usage_scope company m k \<and> \<not> is_search_key k) ur_requests t,
       us_input = ledger_sum (usage_scope company m) ur_input t,
       us_output = ledger_sum (usage_scope company m) ur_output t,
       us_total = ledger_sum (usage_scope company m) ur_total t\<rparr>, rows)
     \<and> mset rows = mset (filter (\<lambda>kr. usage_scope company m (fst kr)) t)"
proof -
  let ?rows = "sort_key breakdown_order (filter (\<lambda>kr. usage_scope company m (fst kr)) t)"
  have sums: "sum_list (map f (filter P ?rows)) = sum_list (map f (filter P (filter (\<lambda>kr. usage_scope company m (fst kr)) t)))"
    for f :: "usage_key \<times> usage_row \<Rightarrow> int" and P
    by (simp add: sum_mset_sum_list [symmetric] filter_filter_mset conj_commute)
  show ?thesis
    using sums [of _ "\<lambda>_. True"] sums
    by (intro exI [of _ ?rows]) (simp add: usage_summary_def assms Let_def ledger_sum_def conj_commute)
qed

text \<open>Calls with the time, the month of the clock and the arguments; a rejected month stores nothing.\<close>

definition usage_step :: "string \<times> string \<times> usage_call \<Rightarrow> usage_table \<Rightarrow> usage_table" where
  "usage_step x t = (case x of (now, current, c) \<Rightarrow>
     (case record_usage now current c t of Inl e \<Rightarrow> t | Inr t' \<Rightarrow> t'))"

definition usage_run :: "(string \<times> string \<times> usage_call) list \<Rightarrow> usage_table \<Rightarrow> usage_table" where
  "usage_run calls t = fold usage_step calls t"

definition call_sum :: "(usage_key \<Rightarrow> bool) \<Rightarrow> (usage_row \<Rightarrow> int) \<Rightarrow> (string \<times> string \<times> usage_call) list \<Rightarrow> int" where
  "call_sum P f calls = sum_list (map (\<lambda>(now, current, c).
     (case month_of current (uc_month c) of
        Inl e \<Rightarrow> 0
      | Inr m \<Rightarrow> if P (call_key m c) then f (call_row now c) else 0)) calls)"

lemma usage_step_keys: "distinct (map fst t) \<Longrightarrow> distinct (map fst (usage_step x t))"
  by (cases x) (auto simp: usage_step_def record_usage_def upsert_keys split: sum.splits)

lemma usage_run_keys [usage_facts]: "distinct (map fst t) \<Longrightarrow> distinct (map fst (usage_run calls t))"
  unfolding usage_run_def by (induction calls arbitrary: t) (simp_all add: usage_step_keys)

lemma usage_step_sum:
  "distinct (map fst t) \<Longrightarrow> additive f \<Longrightarrow> ledger_sum P f (usage_step x t) = ledger_sum P f t + call_sum P f [x]"
  by (cases x) (simp add: usage_step_def record_usage_def call_sum_def ledger_sum_upsert split: sum.split)

lemma usage_run_sum [usage_facts]:
  assumes "distinct (map fst t)" and "additive f"
  shows "ledger_sum P f (usage_run calls t) = ledger_sum P f t + call_sum P f calls"
  using assms(1)
proof (induction calls arbitrary: t)
  case (Cons x calls)
  have "call_sum P f (x # calls) = call_sum P f [x] + call_sum P f calls" by (simp add: call_sum_def)
  then show ?case
    using Cons.IH [OF usage_step_keys [OF Cons.prems]] usage_step_sum [OF Cons.prems assms(2)]
    by (simp add: usage_run_def)
qed (simp add: usage_run_def call_sum_def)

lemma fresh_sum: "additive f \<Longrightarrow> ledger_sum P f (usage_run calls []) = call_sum P f calls"
  using usage_run_sum [of "[]" f P calls] by (simp add: ledger_sum_def)

lemma additive_fields [simp]: "additive ur_requests" "additive ur_input" "additive ur_output" "additive ur_total"
  by (simp_all add: additive_def)

text \<open>One row is the sum of its key.\<close>

lemma ledger_row:
  assumes "distinct (map fst t)" and "(k, row) \<in> set t"
  shows "ledger_sum ((=) k) f t = f row"
proof -
  have "ledger_sum ((=) k) f t = (case map_of t k of None \<Rightarrow> 0 | Some r \<Rightarrow> f r)"
    using assms(1)
  proof (induction t)
    case (Cons x t)
    then have "fst x = k \<Longrightarrow> map_of t k = None" by (auto simp: map_of_eq_None_iff)
    then show ?case using Cons by (cases x) (auto simp: ledger_sum_def)
  qed (simp add: ledger_sum_def)
  then show ?thesis using assms by simp
qed

definition rows_add_up :: "(string \<times> string \<times> usage_call) list \<Rightarrow> (usage_key \<times> usage_row) list \<Rightarrow> bool" where
  "rows_add_up calls rows \<longleftrightarrow> distinct (map fst rows)
     \<and> list_all (\<lambda>(k, row). list_all (\<lambda>f. f row = call_sum ((=) k) f calls) [ur_requests, ur_input, ur_output, ur_total]) rows"


end
