(* ===== verification/Search_Service.thy ===== *)
theory Search_Service
  imports Search_Sessions Usage_Store
begin

text \<open>
  \<open>api/service.py\<close>: one tenant's search service. A query runs the engine, writes the usage
  ledger, projects the visible products to public fields and opens a session; a cursor continues
  a session. The engine is an argument that returns the result dictionary; clock and fresh UUID
  are arguments; timings, monitoring and the analytics event are left out here.
\<close>

named_theorems service_facts \<open>facts of the search service\<close>

subsection \<open>Reading the result dictionary\<close>

definition dict_item :: "pydict \<Rightarrow> string \<Rightarrow> py_error + pyval" where
  "dict_item d k = (case map_of d k of None \<Rightarrow> Inl (KeyError k) | Some v \<Rightarrow> Inr v)"

definition as_dict :: "pyval \<Rightarrow> py_error + pydict" where
  "as_dict v = (case v of VDict d \<Rightarrow> Inr d | _ \<Rightarrow> Inl (OtherError ''AttributeError''))"

definition elements_of :: "pyval \<Rightarrow> py_error + pyval list" where
  "elements_of v = (case v of VList xs \<Rightarrow> Inr xs | VDict d \<Rightarrow> Inr (map (\<lambda>kv. VStr (fst kv)) d)
     | VStr s \<Rightarrow> Inr (map (\<lambda>c. VStr [c]) s) | _ \<Rightarrow> Inl (TypeError ''not iterable''))"

text \<open>\<open>int(d.get(k, 0) or 0)\<close> and \<open>str(d.get(k) or "")\<close>\<close>

definition count_of :: "pydict \<Rightarrow> string \<Rightarrow> py_error + int" where
  "count_of d k = (case to_int (or_else (dget d k) (VInt 0)) of
     None \<Rightarrow> Inl (ValueError ''invalid literal for int()'') | Some i \<Rightarrow> Inr i)"

definition text_or :: "pydict \<Rightarrow> string \<Rightarrow> string \<Rightarrow> string" where
  "text_or d k v0 = py_str (or_else (dget d k) (VStr v0))"

subsection \<open>Products\<close>

definition product_is_visible :: "pydict \<Rightarrow> bool" where
  "product_is_visible product \<longleftrightarrow> dget product ''deleted_at'' = VNone"

definition public_product :: "string list \<Rightarrow> (string, string) dict \<Rightarrow> pydict \<Rightarrow> pydict" where
  "public_product names mapping product =
     fold (\<lambda>f out. let source = (case map_of mapping f of None \<Rightarrow> f | Some s \<Rightarrow> s)
             in case map_of product source of None \<Rightarrow> out | Some v \<Rightarrow> AList.update f v out) names []"

subsection \<open>Usage of one search\<close>

record usage_event =
  ue_provider :: string
  ue_model :: string
  ue_operation :: string
  ue_status :: string
  ue_input :: int
  ue_output :: int
  ue_total :: int

definition token_event :: "string \<Rightarrow> string \<Rightarrow> string \<Rightarrow> string \<Rightarrow> pydict \<Rightarrow> py_error + usage_event" where
  "token_event provider model operation status tokens =
     and_then (count_of tokens ''input_tokens'') (\<lambda>i.
     and_then (count_of tokens ''output_tokens'') (\<lambda>j.
     and_then (count_of tokens ''total_tokens'') (\<lambda>k.
       Inr \<lparr>ue_provider = provider, ue_model = model, ue_operation = operation, ue_status = status,
         ue_input = i, ue_output = j, ue_total = k\<rparr>)))"

definition planning_event :: "pyval \<Rightarrow> py_error + usage_event list" where
  "planning_event v = and_then (as_dict v) (\<lambda>attempt.
     let model = text_or attempt ''model'' []
     in if model = [] then Inr []
        else and_then (token_event
               (if truthy (dget attempt ''provider'') then py_str (dget attempt ''provider'')
                else if starts_with model ''groq:'' then ''groq'' else ''google'')
               model ''query_planning'' (text_or attempt ''status'' ''success'') attempt) (\<lambda>e. Inr [e]))"

definition reranking_event :: "pyval \<Rightarrow> py_error + usage_event" where
  "reranking_event v = and_then (as_dict v) (\<lambda>attempt.
     let name = text_or attempt ''provider'' []
     in and_then (as_dict (or_else (dget attempt ''usage'') (VDict []))) (token_event
          (if starts_with name ''voyage'' then ''voyage'' else name)
          (text_or attempt ''model'' name) ''reranking'' (text_or attempt ''status'' ''success'')))"

definition usage_events :: "pydict \<Rightarrow> py_error + usage_event list" where
  "usage_events result =
     and_then (as_dict (or_else (dget result ''query_model_metrics'') (VDict []))) (\<lambda>metrics.
     and_then (elements_of (or_else (dget metrics ''attempts'')
                 (VList (if truthy (dget metrics ''model'') then [VDict metrics] else [])))) (\<lambda>attempts.
     and_then (map_ok planning_event attempts) (\<lambda>planning.
     and_then (elements_of (or_else (dget result ''reranker_attempts'') (VList []))) (\<lambda>tries.
     and_then (map_ok reranking_event tries) (\<lambda>reranking. Inr (concat planning @ reranking))))))"

definition event_call :: "string \<Rightarrow> usage_event \<Rightarrow> usage_call" where
  "event_call company e = \<lparr>uc_company = company, uc_provider = ue_provider e, uc_model = ue_model e,
     uc_operation = ue_operation e, uc_status = ue_status e, uc_requests = 1, uc_input = ue_input e,
     uc_output = ue_output e, uc_total = ue_total e, uc_month = None\<rparr>"

definition search_call :: "string \<Rightarrow> string \<Rightarrow> bool \<Rightarrow> usage_call" where
  "search_call company path hit = \<lparr>uc_company = company, uc_provider = ''internal'', uc_model = path,
     uc_operation = ''search'', uc_status = (if hit then ''cache_hit'' else ''success''), uc_requests = 1,
     uc_input = 0, uc_output = 0, uc_total = 0, uc_month = None\<rparr>"

record usage_report =
  up_tracked :: bool
  up_model_requests :: int
  up_input :: int
  up_output :: int
  up_total :: int
  up_breakdown :: "usage_event list"

text \<open>Recording stops at the first call that raises; what was written before stays written.\<close>

fun record_calls :: "string \<Rightarrow> string \<Rightarrow> usage_call list \<Rightarrow> usage_table \<Rightarrow> (py_error + unit) \<times> usage_table" where
  "record_calls now current [] t = (Inr (), t)"
| "record_calls now current (c # cs) t =
     (case record_usage now current c t of
        Inl e \<Rightarrow> (Inl e, t)
      | Inr t' \<Rightarrow> record_calls now current cs t')"

definition company_of :: "string option \<Rightarrow> string" where
  "company_of company = (case company of None \<Rightarrow> ''legacy'' | Some c \<Rightarrow> if c = [] then ''legacy'' else c)"

definition execution_path_of :: "pydict \<Rightarrow> py_error + string" where
  "execution_path_of result =
     and_then (as_dict (dget_or result ''query_plan'' (VDict []))) (\<lambda>qp.
       Inr (py_str (dget_or qp ''execution_path'' (VStr ''unknown''))))"

definition usage_report_of :: "bool \<Rightarrow> usage_event list \<Rightarrow> usage_report" where
  "usage_report_of tracked events = \<lparr>up_tracked = tracked, up_model_requests = int (length events),
     up_input = sum_list (map ue_input events), up_output = sum_list (map ue_output events),
     up_total = sum_list (map ue_total events), up_breakdown = events\<rparr>"

definition record_search_usage ::
    "string \<Rightarrow> string \<Rightarrow> string option \<Rightarrow> pydict \<Rightarrow> usage_table option
      \<Rightarrow> (py_error + usage_report) \<times> usage_table option" where
  "record_search_usage now current company result ledger =
     (case and_then (usage_events result) (\<lambda>es. and_then (execution_path_of result) (\<lambda>path. Inr (es, path))) of
        Inl e \<Rightarrow> (Inl e, ledger)
      | Inr (events, path) \<Rightarrow>
          (case ledger of
             None \<Rightarrow> (Inr (usage_report_of False events), None)
           | Some t \<Rightarrow>
               (case record_calls now current (search_call (company_of company) path (truthy (dget result ''result_cache_hit''))
                       # map (event_call (company_of company)) events) t of
                  (Inl e, t') \<Rightarrow> (Inl e, Some t')
                | (Inr _, t') \<Rightarrow> (Inr (usage_report_of True events), Some t'))))"

definition event_dict :: "usage_event \<Rightarrow> pyval" where
  "event_dict e = VDict [(''provider'', VStr (ue_provider e)), (''model'', VStr (ue_model e)),
     (''operation'', VStr (ue_operation e)), (''status'', VStr (ue_status e)),
     (''input_tokens'', VInt (ue_input e)), (''output_tokens'', VInt (ue_output e)), (''total_tokens'', VInt (ue_total e))]"

definition usage_dict :: "usage_report \<Rightarrow> pydict" where
  "usage_dict u = [(''tracked'', VBool (up_tracked u)), (''model_requests'', VInt (up_model_requests u)),
     (''input_tokens'', VInt (up_input u)), (''output_tokens'', VInt (up_output u)),
     (''total_tokens'', VInt (up_total u)), (''breakdown'', VList (map event_dict (up_breakdown u)))]"

subsection \<open>Requests, sessions and pages\<close>

datatype service_error = Raised py_error | BadCursor cursor_error

record search_request =
  rq_query :: "string option"
  rq_cursor :: "string option"
  rq_page_size :: int

text \<open>The validators of \<open>SearchRequest\<close>; \<open>max_page\<close> is \<open>API_MAX_PAGE_SIZE\<close>.\<close>

definition validate_request :: "int \<Rightarrow> search_request \<Rightarrow> py_error + search_request" where
  "validate_request max_page rq =
     (let invalid = (\<lambda>m. Inl (ValueError m)); query = map_option squash (rq_query rq)
      in if (case rq_query rq of None \<Rightarrow> False | Some q \<Rightarrow> 1000 < length q)
            \<or> (case rq_cursor rq of None \<Rightarrow> False | Some c \<Rightarrow> 512 < length c)
         then invalid ''too long''
         else if rq_page_size rq < 1 \<or> max_page < rq_page_size rq then invalid ''page size''
         else if query = Some [] then invalid ''query must not be blank''
         else if (query = None) = (rq_cursor rq = None) then invalid ''provide exactly one of query or cursor''
         else Inr (rq\<lparr>rq_query := query\<rparr>))"

record search_service =
  sv_company :: "string option"
  sv_max_results :: int
  sv_public_fields :: "string list"
  sv_field_mapping :: "(string, string) dict"

record 'e service_state =
  st_engine :: 'e
  st_sessions :: session_store
  st_usage :: "usage_table option"

record search_response =
  re_company :: "string option"
  re_search_id :: string
  re_query :: string
  re_cached :: bool
  re_items :: "pydict list"
  re_interpreted :: pydict
  re_applied :: pyval
  re_unresolved :: pyval
  re_usage :: pydict
  pg_page_size :: int
  pg_returned :: int
  pg_offset :: int
  pg_total :: int
  pg_has_more :: bool
  pg_next_cursor :: "string option"

definition interpreted_of :: "pydict \<Rightarrow> pydict \<Rightarrow> pydict" where
  "interpreted_of result qp =
     map (\<lambda>k. (k, dget qp k)) [''semantic_query'', ''keyword_query'', ''target_ad_type'', ''sort_order'']
     @ [(''execution_path'', dget_or qp ''execution_path'' (VStr ''semantic'')),
        (''plan_cache_hit'', VBool (truthy (dget result ''plan_cache_hit''))),
        (''result_cache_hit'', VBool (truthy (dget result ''result_cache_hit''))),
        (''query_corrections'', dget_or qp ''query_corrections'' (VList [])),
        (''reranker_provider'', dget_or result ''reranker_provider'' (VStr ''none'')),
        (''retrieval_degraded'', VBool (truthy (dget result ''retrieval_degraded''))),
        (''degraded_stages'', dget_or result ''degraded_stages'' (VList []))]"

text \<open>The values of the session that a result opens; its id and expiry are set by the store.\<close>

definition session_values ::
    "search_service \<Rightarrow> string \<Rightarrow> pydict \<Rightarrow> pydict \<Rightarrow> usage_report \<Rightarrow> py_error + search_session" where
  "session_values sv query result qp usage =
     and_then (and_then (dict_item result ''products'') elements_of) (\<lambda>rows.
     and_then (map_ok as_dict rows) (\<lambda>products.
     and_then (dict_item result ''resolved_filters'') (\<lambda>applied.
     and_then (dict_item result ''unresolved_filters'') (\<lambda>unresolved.
       Inr \<lparr>ss_id = [], ss_query = query,
         ss_items = map (public_product (sv_public_fields sv) (sv_field_mapping sv)) (filter product_is_visible products),
         ss_interpreted = interpreted_of result qp, ss_applied = applied, ss_unresolved = unresolved,
         ss_usage = usage_dict usage, ss_expires = 0, ss_company = sv_company sv\<rparr>))))"

text \<open>What a request reads from outside: two clock readings and the next UUID.\<close>

record request_env =
  rv_timestamp :: string
  rv_month :: string
  rv_now :: pyfloat
  rv_uuid :: nat

definition start_search ::
    "(string \<Rightarrow> int \<Rightarrow> 'e \<Rightarrow> (py_error + pydict) \<times> 'e) \<Rightarrow> search_service \<Rightarrow> request_env \<Rightarrow> string
      \<Rightarrow> 'e service_state \<Rightarrow> (service_error + search_session) \<times> 'e service_state" where
  "start_search engine sv env query st =
     (let (answer, e') = engine query (sv_max_results sv) (st_engine st);
          st1 = st\<lparr>st_engine := e'\<rparr>
      in case answer of
           Inl err \<Rightarrow> (Inl (Raised err), st1)
         | Inr result \<Rightarrow>
             (case and_then (dict_item result ''query_plan'') as_dict of
                Inl err \<Rightarrow> (Inl (Raised err), st1)
              | Inr qp \<Rightarrow>
                  (let (usage, ledger) = record_search_usage (rv_timestamp env) (rv_month env) (sv_company sv) result (st_usage st1);
                       st2 = st1\<lparr>st_usage := ledger\<rparr>
                   in case and_then usage (session_values sv query result qp) of
                        Inl err \<Rightarrow> (Inl (Raised err), st2)
                      | Inr vals \<Rightarrow>
                          (let (session, store) = create_session (rv_now env) (uuid_text (rv_uuid env)) vals (st_sessions st2)
                           in (Inr session, st2\<lparr>st_sessions := store\<rparr>)))))"

definition page_of_session :: "search_session \<Rightarrow> int \<Rightarrow> int \<Rightarrow> bool \<Rightarrow> service_error + search_response" where
  "page_of_session session offset page_size cached =
     (let n = int (length (ss_items session)); final = min (offset + page_size) n;
          items = take (nat (final - offset)) (drop (nat offset) (ss_items session)); has_more = final < n
      in if n < offset then Inl (BadCursor (InvalidCursorError ''The cursor offset is invalid.''))
         else Inr \<lparr>re_company = ss_company session, re_search_id = ss_id session, re_query = ss_query session,
           re_cached = cached, re_items = items, re_interpreted = ss_interpreted session,
           re_applied = ss_applied session, re_unresolved = ss_unresolved session, re_usage = ss_usage session,
           pg_page_size = page_size, pg_returned = int (length items), pg_offset = offset, pg_total = n,
           pg_has_more = has_more,
           pg_next_cursor = (if has_more then Some (encode_cursor (ss_id session) final) else None)\<rparr>)"

definition continue_search ::
    "search_service \<Rightarrow> pyfloat \<Rightarrow> string \<Rightarrow> int \<Rightarrow> session_store \<Rightarrow> (service_error + search_response) \<times> session_store" where
  "continue_search sv now cursor page_size st =
     (case decode_cursor cursor of
        Inl e \<Rightarrow> (Inl (BadCursor e), st)
      | Inr (search_id, offset) \<Rightarrow>
          (case get_session now search_id st of
             (Inl e, st') \<Rightarrow> (Inl (BadCursor e), st')
           | (Inr session, st') \<Rightarrow>
               (if ss_company session \<noteq> sv_company sv
                then Inl (BadCursor (InvalidCursorError ''The cursor is invalid for this company.''))
                else page_of_session session offset page_size True, st')))"

definition service_search ::
    "(string \<Rightarrow> int \<Rightarrow> 'e \<Rightarrow> (py_error + pydict) \<times> 'e) \<Rightarrow> search_service \<Rightarrow> request_env \<Rightarrow> search_request
      \<Rightarrow> 'e service_state \<Rightarrow> (service_error + search_response) \<times> 'e service_state" where
  "service_search engine sv env rq st =
     (case rq_query rq of
        Some query \<Rightarrow>
          (case start_search engine sv env query st of
             (Inl e, st') \<Rightarrow> (Inl e, st')
           | (Inr session, st') \<Rightarrow>
               (page_of_session session 0 (rq_page_size rq) (truthy (dget (ss_interpreted session) ''result_cache_hit'')), st'))
      | None \<Rightarrow>
          (let (r, store) = continue_search sv (rv_now env) (case rq_cursor rq of None \<Rightarrow> [] | Some c \<Rightarrow> c)
                 (rq_page_size rq) (st_sessions st)
           in (r, st\<lparr>st_sessions := store\<rparr>)))"

subsection \<open>Following the cursors of a session\<close>

text \<open>The client asks for the next page at each visit: a time, and the store as it is then, whatever
  other requests did to it.\<close>

fun follow_cursors ::
    "search_service \<Rightarrow> int \<Rightarrow> (pyfloat \<times> session_store) list \<Rightarrow> string option \<Rightarrow> search_response list" where
  "follow_cursors sv k visits None = []"
| "follow_cursors sv k [] (Some c) = []"
| "follow_cursors sv k ((now, st) # visits) (Some c) =
     (case fst (continue_search sv now c k st) of
        Inl e \<Rightarrow> []
      | Inr r \<Rightarrow> r # follow_cursors sv k visits (pg_next_cursor r))"

definition session_live :: "search_session \<Rightarrow> pyfloat \<times> session_store \<Rightarrow> bool" where
  "session_live session visit = (case visit of (now, st) \<Rightarrow>
     map_of (live_sessions st) (ss_id session) = Some session \<and> now < ss_expires session)"

lemma page_eq:
  assumes "0 \<le> offset" and "offset \<le> int (length (ss_items session))" and "0 < k"
  obtains r where "page_of_session session offset k cached = Inr r"
    "re_items r = take (nat k) (drop (nat offset) (ss_items session))"
    "pg_next_cursor r = (if offset + k < int (length (ss_items session))
       then Some (encode_cursor (ss_id session) (offset + k)) else None)"
    "pg_has_more r = (offset + k < int (length (ss_items session)))" "pg_offset r = offset"
    "pg_total r = int (length (ss_items session))"
proof -
  let ?n = "int (length (ss_items session))"
  have "take (nat (min (offset + k) ?n - offset)) (drop (nat offset) (ss_items session))
      = take (nat k) (drop (nat offset) (ss_items session))"
  proof (cases "offset + k \<le> ?n")
    case False
    then have "nat (min (offset + k) ?n - offset) = length (ss_items session) - nat offset" "length (ss_items session) - nat offset \<le> nat k"
      using assms by linarith+
    then show ?thesis by (simp add: take_all)
  qed simp
  then show thesis
    using assms(2) that by (simp add: page_of_session_def Let_def min_def)
qed

lemma continue_live:
  assumes "session_live session (now, st)" and "ss_id session = uuid_text n" and "n < 2 ^ 128"
    and "ss_company session = sv_company sv" and "0 \<le> offset"
  shows "fst (continue_search sv now (encode_cursor (ss_id session) offset) k st) = page_of_session session offset k True"
  using assms cursor_reads_back [of n offset] by (simp add: continue_search_def session_live_def get_session_def)

lemma follow_rest:
  assumes "ss_id session = uuid_text n" and "n < 2 ^ 128" and "ss_company session = sv_company sv" and "0 < k"
  shows "list_all (session_live session) visits \<Longrightarrow> 0 \<le> offset \<Longrightarrow> offset < int (length (ss_items session)) \<Longrightarrow>
    int (length (ss_items session)) \<le> offset + k * int (length visits) \<Longrightarrow>
    (let pages = follow_cursors sv k visits (Some (encode_cursor (ss_id session) offset))
     in pages \<noteq> [] \<and> concat (map re_items pages) = drop (nat offset) (ss_items session)
        \<and> pg_next_cursor (last pages) = None \<and> list_all (\<lambda>r. int (length (re_items r)) = k) (butlast pages))"
proof (induction visits arbitrary: offset)
  case (Cons v visits)
  obtain now st where v: "v = (now, st)" by (cases v)
  have live: "session_live session (now, st)" using Cons.prems(1) v by simp
  let ?n = "int (length (ss_items session))"
  obtain r where r: "page_of_session session offset k True = Inr r"
      "re_items r = take (nat k) (drop (nat offset) (ss_items session))"
      "pg_next_cursor r = (if offset + k < ?n then Some (encode_cursor (ss_id session) (offset + k)) else None)"
    by (rule page_eq [of offset session k True]) (use Cons.prems assms(4) in auto)
  have step: "follow_cursors sv k (v # visits) (Some (encode_cursor (ss_id session) offset))
      = r # follow_cursors sv k visits (pg_next_cursor r)"
    using continue_live [OF live assms(1-3) Cons.prems(2), of k] r(1) by (simp add: v)
  show ?case
  proof (cases "offset + k < ?n")
    case False
    then have "length (ss_items session) - nat offset \<le> nat k" using Cons.prems(2,3) by linarith
    then show ?thesis using False by (simp add: step r(2,3) Let_def)
  next
    case True
    let ?rest = "follow_cursors sv k visits (Some (encode_cursor (ss_id session) (offset + k)))"
    have ih: "?rest \<noteq> []" "concat (map re_items ?rest) = drop (nat (offset + k)) (ss_items session)"
        "pg_next_cursor (last ?rest) = None" "list_all (\<lambda>r. int (length (re_items r)) = k) (butlast ?rest)"
      using Cons.IH [of "offset + k"] Cons.prems True assms(4) by (simp_all add: Let_def distrib_left algebra_simps)
    have "nat (offset + k) = nat offset + nat k" using Cons.prems(2) assms(4) by (simp add: nat_add_distrib)
    then have "take (nat k) (drop (nat offset) (ss_items session)) @ drop (nat (offset + k)) (ss_items session)
        = drop (nat offset) (ss_items session)"
      by (metis add.commute append_take_drop_id drop_drop)
    moreover have "int (length (re_items r)) = k"
      using True Cons.prems(2) assms(4) by (simp add: r(2) of_nat_diff)
    ultimately show ?thesis using ih True by (simp add: step r(2,3) Let_def)
  qed
qed simp

definition all_pages :: "search_service \<Rightarrow> search_session \<Rightarrow> int \<Rightarrow> bool \<Rightarrow> (pyfloat \<times> session_store) list \<Rightarrow> search_response list" where
  "all_pages sv session k cached visits =
     (case page_of_session session 0 k cached of
        Inl e \<Rightarrow> []
      | Inr r \<Rightarrow> r # follow_cursors sv k visits (pg_next_cursor r))"

text \<open>
  C24: Following the cursors of a live session to the end returns exactly its items, in order
  and without gap or repetition, in full pages but the last, whatever other requests do to the
  store between the pages, as long as the session is neither expired nor evicted.
\<close>

theorem cursor_walk_complete:
  assumes "ss_id session = uuid_text n" and "n < 2 ^ 128" and "ss_company session = sv_company sv" and "0 < k"
    and "list_all (session_live session) visits"
    and "int (length (ss_items session)) \<le> k * (1 + int (length visits))"
  shows "concat (map re_items (all_pages sv session k cached visits)) = ss_items session
    \<and> pg_next_cursor (last (all_pages sv session k cached visits)) = None
    \<and> list_all (\<lambda>r. int (length (re_items r)) = k) (butlast (all_pages sv session k cached visits))"
proof -
  let ?n = "int (length (ss_items session))"
  obtain r where r: "page_of_session session 0 k cached = Inr r" "re_items r = take (nat k) (ss_items session)"
      "pg_next_cursor r = (if k < ?n then Some (encode_cursor (ss_id session) k) else None)"
    by (rule page_eq [of 0 session k cached]) (use assms(4) in auto)
  show ?thesis
  proof (cases "k < ?n")
    case False
    then show ?thesis using r(2,3) by (simp add: all_pages_def r(1))
  next
    case True
    let ?rest = "follow_cursors sv k visits (Some (encode_cursor (ss_id session) k))"
    have "?rest \<noteq> []" "concat (map re_items ?rest) = drop (nat k) (ss_items session)"
        "pg_next_cursor (last ?rest) = None" "list_all (\<lambda>r. int (length (re_items r)) = k) (butlast ?rest)"
      using follow_rest [OF assms(1-4,5), of k] assms(4,6) True by (simp_all add: Let_def distrib_left)
    moreover have "int (length (re_items r)) = k" using True assms(4) by (simp add: r(2))
    ultimately show ?thesis using True r(2,3) by (simp add: all_pages_def r(1))
  qed
qed

subsection \<open>Pages come from the company's own live session\<close>

type_synonym opened = "pyfloat \<times> search_service \<times> string \<times> search_session"

definition opened_by ::
    "(string \<Rightarrow> int \<Rightarrow> 'e \<Rightarrow> (py_error + pydict) \<times> 'e) \<Rightarrow> search_service \<Rightarrow> request_env \<Rightarrow> search_request
      \<Rightarrow> 'e service_state \<Rightarrow> opened list" where
  "opened_by engine sv env rq st =
     (case rq_query rq of
        None \<Rightarrow> []
      | Some q \<Rightarrow> (case fst (start_search engine sv env q st) of
          Inl e \<Rightarrow> [] | Inr session \<Rightarrow> [(rv_now env, sv, q, session)]))"

text \<open>Requests of any tenants, in any order, on one shared session store.\<close>

inductive service_run :: "int \<Rightarrow> opened list \<Rightarrow> 'e service_state \<Rightarrow> bool" where
  service_up: "session_store_init ttl maximum = Inr store \<Longrightarrow>
    service_run ttl [] \<lparr>st_engine = e, st_sessions = store, st_usage = u\<rparr>"
| service_request: "service_run ttl opened st \<Longrightarrow> service_search engine sv env rq st = (r, st') \<Longrightarrow>
    service_run ttl (opened_by engine sv env rq st @ opened) st'"

definition opened_ok :: "int \<Rightarrow> opened \<Rightarrow> bool" where
  "opened_ok ttl x = (case x of (t, sv, q, session) \<Rightarrow>
     ss_company session = sv_company sv \<and> ss_query session = q \<and> ss_expires session = t + of_int ttl)"

definition store_sound :: "int \<Rightarrow> opened list \<Rightarrow> session_store \<Rightarrow> bool" where
  "store_sound ttl opened st \<longleftrightarrow> sessions_ok st \<and> ttl_seconds st = ttl \<and> list_all (opened_ok ttl) opened
     \<and> (\<forall>(k, session) \<in> set (live_sessions st). \<exists>(t, sv, q, s) \<in> set opened. s = session)"

lemma store_sound_shrinks:
  assumes "store_sound ttl opened st" and "sessions_ok st'" and "ttl_seconds st' = ttl_seconds st"
    and "set (live_sessions st') \<subseteq> set (live_sessions st)"
  shows "store_sound ttl opened st'"
  using assms unfolding store_sound_def by blast

lemma start_search_opens:
  assumes "start_search engine sv env query st = (Inr session, st')" and "sessions_ok (st_sessions st)"
  shows "sessions_ok (st_sessions st')" "ttl_seconds (st_sessions st') = ttl_seconds (st_sessions st)"
    "set (live_sessions (st_sessions st')) \<subseteq> insert (ss_id session, session) (set (live_sessions (st_sessions st)))"
    "ss_id session = uuid_text (rv_uuid env)"
    "ss_company session = sv_company sv" "ss_query session = query"
    "ss_expires session = rv_now env + of_int (ttl_seconds (st_sessions st))"
proof -
  obtain vals where vals: "create_session (rv_now env) (uuid_text (rv_uuid env)) vals (st_sessions st) = (session, st_sessions st')"
      "ss_company vals = sv_company sv" "ss_query vals = query"
    using assms(1)
    by (auto simp: start_search_def session_values_def Let_def and_then_Inr split: prod.splits sum.splits)
  note ok = create_session_ok [OF assms(2) vals(1)]
  show "sessions_ok (st_sessions st')" "ttl_seconds (st_sessions st') = ttl_seconds (st_sessions st)"
    "ss_id session = uuid_text (rv_uuid env)" by (rule ok)+
  show "set (live_sessions (st_sessions st')) \<subseteq> insert (ss_id session, session) (set (live_sessions (st_sessions st)))"
    using ok(5) by (simp add: ok(2))
  show "ss_company session = sv_company sv" "ss_query session = query"
    "ss_expires session = rv_now env + of_int (ttl_seconds (st_sessions st))"
    using vals by (auto simp: create_session_def Let_def)
qed

lemma start_search_fails:
  "start_search engine sv env query st = (Inl e, st') \<Longrightarrow> st_sessions st' = st_sessions st"
  by (auto simp: start_search_def Let_def split: prod.splits sum.splits)

lemma continue_search_store:
  assumes "continue_search sv now cursor k st = (r, st')" and "sessions_ok st"
  shows "sessions_ok st' \<and> ttl_seconds st' = ttl_seconds st \<and> set (live_sessions st') \<subseteq> set (live_sessions st)"
proof (cases "decode_cursor cursor")
  case (Inl e)
  then show ?thesis using assms by (simp add: continue_search_def)
next
  case (Inr x)
  obtain g where "get_session now (fst x) st = (g, st')"
    using assms(1) Inr by (auto simp: continue_search_def split: prod.splits sum.splits)
  then show ?thesis using get_session_ok(1,3,4) [OF assms(2)] by blast
qed

lemma service_run_sound:
  "service_run ttl opened st \<Longrightarrow> store_sound ttl opened (st_sessions st)"
proof (induction rule: service_run.induct)
  case (service_up ttl maximum store e u)
  then show ?case
    using session_store_init_ok [OF service_up] by (auto simp: store_sound_def session_store_init_def split: if_splits)
next
  case (service_request ttl opened st engine sv env rq r st')
  have ok: "sessions_ok (st_sessions st)" using service_request.IH by (simp add: store_sound_def)
  show ?case
  proof (cases "rq_query rq")
    case None
    then have "opened_by engine sv env rq st = []" by (simp add: opened_by_def)
    moreover obtain k where "continue_search sv (rv_now env) k (rq_page_size rq) (st_sessions st) = (r, st_sessions st')"
      using service_request.hyps(2) None by (auto simp: service_search_def Let_def split: prod.splits)
    ultimately show ?thesis
      using continue_search_store [OF _ ok] store_sound_shrinks [OF service_request.IH] by simp
  next
    case (Some q)
    obtain a where a: "start_search engine sv env q st = (a, st')"
      using service_request.hyps(2) Some by (auto simp: service_search_def split: prod.splits sum.splits)
    show ?thesis
    proof (cases a)
      case (Inl e)
      then show ?thesis
        using start_search_fails [OF a [unfolded Inl]] a service_request.IH Some by (simp add: opened_by_def)
    next
      case (Inr session)
      note s = start_search_opens [OF a [unfolded Inr] ok]
      have "opened_by engine sv env rq st = [(rv_now env, sv, q, session)]" using a Inr Some by (simp add: opened_by_def)
      then show ?thesis using s service_request.IH unfolding store_sound_def by (auto simp: opened_ok_def)
    qed
  qed
qed

lemma page_result:
  assumes "page_of_session session offset k cached = Inr r"
  shows "re_search_id r = ss_id session" "re_query r = ss_query session" "re_company r = ss_company session"
    "re_items r = take (length (re_items r)) (drop (nat (pg_offset r)) (ss_items session))"
proof -
  have own: "take m xs = take (length (take m xs)) xs" for m and xs :: "pydict list"
    by (cases "m \<le> length xs") simp_all
  show "re_items r = take (length (re_items r)) (drop (nat (pg_offset r)) (ss_items session))"
    using assms own by (auto simp only: page_of_session_def Let_def search_response.simps sum.inject split: if_splits)
qed (use assms in \<open>auto simp: page_of_session_def Let_def split: if_splits\<close>)

text \<open>
  C25: On the session store that all tenants share, a continued page is always a slice of a
  session that a query of the same company opened less than the session lifetime ago, whatever
  cursor is presented.
\<close>

theorem continued_page_own_session:
  assumes "service_run ttl opened st" and "rq_query rq = None"
    and "service_search engine sv env rq st = (Inr r, st')"
  shows "\<exists>(t, sv', q, session) \<in> set opened. sv_company sv' = sv_company sv \<and> re_search_id r = ss_id session \<and> re_query r = q
     \<and> re_items r = take (length (re_items r)) (drop (nat (pg_offset r)) (ss_items session))
     \<and> rv_now env < t + of_int ttl"
proof -
  have sound: "store_sound ttl opened (st_sessions st)" by (rule service_run_sound [OF assms(1)])
  obtain c store where c: "continue_search sv (rv_now env) c (rq_page_size rq) (st_sessions st) = (Inr r, store)"
    using assms(2,3) by (auto simp: service_search_def Let_def split: prod.splits)
  then obtain search_id offset session where g: "get_session (rv_now env) search_id (st_sessions st) = (Inr session, store)"
      "ss_company session = sv_company sv" "page_of_session session offset (rq_page_size rq) True = Inr r"
    by (auto simp: continue_search_def split: sum.splits prod.splits if_splits)
  have "sessions_ok (st_sessions st)" using sound by (simp add: store_sound_def)
  from get_session_ok(5) [OF this g(1)] have live: "(search_id, session) \<in> set (live_sessions (st_sessions st))"
      "rv_now env < ss_expires session" by blast+
  then obtain t sv' q where o: "(t, sv', q, session) \<in> set opened" using sound unfolding store_sound_def by blast
  then have "opened_ok ttl (t, sv', q, session)" using sound by (auto simp: store_sound_def list_all_iff)
  then show ?thesis using o live(2) g(2) page_result [OF g(3)] by (intro bexI [OF _ o]) (auto simp: opened_ok_def)
qed

subsection \<open>The ledger grows by what the response reports\<close>

definition event_counts_ok :: "usage_event \<Rightarrow> bool" where
  "event_counts_ok e \<longleftrightarrow> 0 \<le> ue_input e \<and> 0 \<le> ue_output e \<and> 0 \<le> ue_total e"

lemma record_calls_run:
  "record_calls now current cs t = (Inr u, t') \<Longrightarrow>
    t' = usage_run (map (\<lambda>c. (now, current, c)) cs) t \<and>
    list_all (\<lambda>c. \<exists>m. month_of current (uc_month c) = Inr m) cs"
  by (induction cs arbitrary: t) (auto simp: usage_run_def usage_step_def record_usage_def split: sum.splits)

lemma event_operations:
  assumes "usage_events result = Inr events" and "e \<in> set events"
  shows "ue_operation e \<noteq> ''search''"
proof -
  have token: "token_event p m op st tokens = Inr x \<Longrightarrow> ue_operation x = op" for p m op st tokens x
    by (auto simp: token_event_def and_then_Inr)
  have planning: "planning_event v = Inr xs \<Longrightarrow> x \<in> set xs \<Longrightarrow> ue_operation x = ''query_planning''" for v xs x
    by (auto simp: planning_event_def and_then_Inr Let_def split: if_splits dest: token)
  have reranking: "reranking_event v = Inr x \<Longrightarrow> ue_operation x = ''reranking''" for v x
    by (auto simp: reranking_event_def and_then_Inr Let_def dest: token)
  obtain attempts tries ps rs where split: "map_ok planning_event attempts = Inr ps"
      "map_ok reranking_event tries = Inr rs" "events = concat ps @ rs"
    using assms(1) by (auto simp: usage_events_def and_then_Inr)
  have "x \<in> set ps \<Longrightarrow> \<exists>v. planning_event v = Inr x" for x
    using split(1) by (auto simp: map_ok_Inr list_all2_conv_all_nth in_set_conv_nth)
  moreover have "x \<in> set rs \<Longrightarrow> \<exists>v. reranking_event v = Inr x" for x
    using split(2) by (auto simp: map_ok_Inr list_all2_conv_all_nth in_set_conv_nth)
  ultimately have "ue_operation e = ''query_planning'' \<or> ue_operation e = ''reranking''"
    using assms(2) planning reranking split(3) by fastforce
  then show ?thesis by auto
qed

lemma sum_events:
  assumes "month_of current None = Inr m" and "\<And>e. e \<in> set es \<Longrightarrow> P (call_key m (event_call company e))"
    and "\<And>e. e \<in> set es \<Longrightarrow> f (call_row now (event_call company e)) = g e"
  shows "call_sum P f (map (\<lambda>c. (now, current, c)) (map (event_call company) es)) = sum_list (map g es)"
  using assms(2,3) by (induction es) (simp_all add: call_sum_def event_call_def assms(1))

lemma sum_other_events:
  assumes "\<And>c. c \<in> set cs \<Longrightarrow> month_of current (uc_month c) = Inr m \<and> \<not> P (call_key m c)"
  shows "call_sum P f (map (\<lambda>c. (now, current, c)) cs) = 0"
  using assms by (induction cs) (simp_all add: call_sum_def)

definition grown_by :: "usage_report \<Rightarrow> usage_totals \<Rightarrow> usage_totals" where
  "grown_by u x = \<lparr>us_requests = us_requests x + 1 + up_model_requests u, us_searches = us_searches x + 1,
     us_model_requests = us_model_requests x + up_model_requests u, us_input = us_input x + up_input u,
     us_output = us_output x + up_output u, us_total = us_total x + up_total u\<rparr>"

text \<open>The totals of a summary.\<close>

definition totals_of :: "string \<Rightarrow> string \<Rightarrow> string option \<Rightarrow> usage_table \<Rightarrow> py_error + usage_totals" where
  "totals_of current company month t = map_sum id fst (usage_summary current company month t)"

lemma totals_of_sums:
  assumes "month_of current month = Inr m"
  shows "totals_of current company month t = Inr
     \<lparr>us_requests = ledger_sum (usage_scope company m) ur_requests t,
       us_searches = ledger_sum (\<lambda>k. usage_scope company m k \<and> is_search_key k) ur_requests t,
       us_model_requests = ledger_sum (\<lambda>k. usage_scope company m k \<and> \<not> is_search_key k) ur_requests t,
       us_input = ledger_sum (usage_scope company m) ur_input t,
       us_output = ledger_sum (usage_scope company m) ur_output t,
       us_total = ledger_sum (usage_scope company m) ur_total t\<rparr>"
  using summary_sums [OF assms, of company t] by (auto simp: totals_of_def)

lemma recorded_shape:
  assumes "record_search_usage now current company result (Some t) = (Inr u, Some t')"
  obtains path hit where "usage_events result = Inr (up_breakdown u)" "u = usage_report_of True (up_breakdown u)"
    "record_calls now current (search_call (company_of company) path hit
       # map (event_call (company_of company)) (up_breakdown u)) t = (Inr (), t')"
proof -
  obtain events path where e: "usage_events result = Inr events"
      "record_calls now current (search_call (company_of company) path (truthy (dget result ''result_cache_hit''))
         # map (event_call (company_of company)) events) t = (Inr (), t')"
      "u = usage_report_of True events"
    using assms
    by (auto simp: record_search_usage_def and_then_Inr simp del: record_calls.simps split: sum.splits prod.splits)
  have "up_breakdown u = events" by (simp add: e(3) usage_report_of_def)
  then show thesis using that e by simp
qed

lemma recorded_sums:
  assumes "record_search_usage now current company result (Some t) = (Inr u, Some t')" and "distinct (map fst t)"
  obtains m path hit where "month_of current None = Inr m"
    "\<And>P f. additive f \<Longrightarrow> ledger_sum P f t' = ledger_sum P f t
       + (if P (call_key m (search_call (company_of company) path hit))
          then f (call_row now (search_call (company_of company) path hit)) else 0)
       + call_sum P f (map (\<lambda>c. (now, current, c)) (map (event_call (company_of company)) (up_breakdown u)))"
proof -
  let ?c = "company_of company"
  obtain path hit where r: "record_calls now current (search_call ?c path hit # map (event_call ?c) (up_breakdown u)) t = (Inr (), t')"
    by (rule recorded_shape [OF assms(1)])
  note run = record_calls_run [OF r]
  have "\<exists>m. month_of current None = Inr m" using run by (simp add: search_call_def)
  then obtain m where m: "month_of current None = Inr m" ..
  have cons: "call_sum P f ((now, current, search_call ?c path hit) # calls) =
      (if P (call_key m (search_call ?c path hit)) then f (call_row now (search_call ?c path hit)) else 0)
      + call_sum P f calls" for P f calls
    by (simp add: call_sum_def search_call_def m)
  show thesis
    by (rule that [OF m]) (use conjunct1 [OF run] usage_run_sum [OF assms(2)] in \<open>simp add: cons\<close>)
qed


subsection \<open>An example tenant\<close>

definition ex_service :: search_service where
  "ex_service = \<lparr>sv_company = Some ''acme'', sv_max_results = 200, sv_public_fields = [''id'', ''name''],
     sv_field_mapping = [(''name'', ''title'')]\<rparr>"

definition ex_product :: "int \<Rightarrow> string \<Rightarrow> pyval \<Rightarrow> pyval" where
  "ex_product i t deleted = VDict [(''id'', VInt i), (''title'', VStr t), (''deleted_at'', deleted)]"

definition ex_result :: pydict where
  "ex_result = [(''products'', VList [ex_product 1 ''car'' VNone, ex_product 2 ''tent'' VNone,
       ex_product 3 ''boat'' (VStr ''2024''), ex_product 4 ''bike'' VNone]),
     (''query_plan'', VDict [(''execution_path'', VStr ''semantic'')]),
     (''resolved_filters'', VDict []), (''unresolved_filters'', VDict []),
     (''query_model_metrics'', VDict [(''model'', VStr ''groq:llama''), (''input_tokens'', VInt 30), (''total_tokens'', VInt 42)])]"

definition ex_answer :: "string \<Rightarrow> int \<Rightarrow> nat \<Rightarrow> (py_error + pydict) \<times> nat" where
  "ex_answer q n e = (Inr ex_result, Suc e)"

definition ex_service_store :: session_store where
  "ex_service_store = \<lparr>ttl_seconds = 600, max_sessions = 2, live_sessions = []\<rparr>"

definition ex_service_start :: "nat service_state" where
  "ex_service_start = \<lparr>st_engine = 0, st_sessions = ex_service_store, st_usage = None\<rparr>"

definition ex_env :: "pyfloat \<Rightarrow> nat \<Rightarrow> request_env" where
  "ex_env t n = \<lparr>rv_timestamp = ''2024-05-02T00:00'', rv_month = ''2024-05'', rv_now = t, rv_uuid = n\<rparr>"

definition ex_query :: search_request where
  "ex_query = \<lparr>rq_query = Some ''car'', rq_cursor = None, rq_page_size = 2\<rparr>"

definition ex_recorded :: "(py_error + usage_report) \<times> usage_table option" where
  "ex_recorded = record_search_usage ''2024-05-02T00:00'' ''2024-05'' (Some ''acme'') ex_result None"

definition ex_vals :: "py_error + search_session" where
  "ex_vals = and_then (fst ex_recorded) (session_values ex_service ''car'' ex_result [(''execution_path'', VStr ''semantic'')])"

definition ex_item :: "int \<Rightarrow> string \<Rightarrow> pydict" where
  "ex_item i name = [(''id'', VInt i), (''name'', VStr name)]"

lemma ex_vals_eval:
  "map_sum id (\<lambda>v. (ss_items v, ss_company v, ss_query v)) ex_vals
     = Inr ([ex_item 1 ''car'', ex_item 2 ''tent'', ex_item 4 ''bike''], Some ''acme'', ''car'')"
  by code_simp

lemma ex_valsE:
  obtains v where "ex_vals = Inr v" "ss_items v = [ex_item 1 ''car'', ex_item 2 ''tent'', ex_item 4 ''bike'']"
    "ss_company v = Some ''acme''" "ss_query v = ''car''"
  using ex_vals_eval by (rule map_sum_InrE) auto

text \<open>The session that the query opens, and the service after it.\<close>

definition ex_session :: search_session where
  "ex_session = (case ex_vals of Inr v \<Rightarrow> v\<lparr>ss_id := uuid_text 7, ss_expires := 610\<rparr> | Inl e \<Rightarrow> undefined)"

definition ex_opened :: "nat service_state" where
  "ex_opened = \<lparr>st_engine = 1, st_sessions = ex_service_store\<lparr>live_sessions := [(uuid_text 7, ex_session)]\<rparr>,
     st_usage = snd ex_recorded\<rparr>"

lemma ex_session_fields:
  "ss_id ex_session = uuid_text 7" "ss_company ex_session = Some ''acme''" "ss_query ex_session = ''car''"
  "ss_expires ex_session = 610" "ss_items ex_session = [ex_item 1 ''car'', ex_item 2 ''tent'', ex_item 4 ''bike'']"
proof -
  obtain v where v: "ex_vals = Inr v" "ss_items v = [ex_item 1 ''car'', ex_item 2 ''tent'', ex_item 4 ''bike'']"
    "ss_company v = Some ''acme''" "ss_query v = ''car''" by (rule ex_valsE)
  show "ss_id ex_session = uuid_text 7" "ss_company ex_session = Some ''acme''" "ss_query ex_session = ''car''"
    "ss_expires ex_session = 610" "ss_items ex_session = [ex_item 1 ''car'', ex_item 2 ''tent'', ex_item 4 ''bike'']"
    unfolding ex_session_def v(1) by (simp_all add: v(2-4))
qed

lemma ex_start: "start_search ex_answer ex_service (ex_env 10 7) ''car'' ex_service_start = (Inr ex_session, ex_opened)"
proof -
  obtain v where v: "ex_vals = Inr v" by (rule ex_valsE)
  have plan: "and_then (dict_item ex_result ''query_plan'') as_dict = Inr [(''execution_path'', VStr ''semantic'')]"
    by code_simp
  have recorded: "record_search_usage (rv_timestamp (ex_env 10 7)) (rv_month (ex_env 10 7)) (sv_company ex_service) ex_result
      None = (fst ex_recorded, snd ex_recorded)"
    by (simp add: ex_env_def ex_service_def ex_recorded_def)
  have vals: "and_then (fst ex_recorded) (session_values ex_service ''car'' ex_result [(''execution_path'', VStr ''semantic'')])
      = Inr v" using v by (simp add: ex_vals_def)
  show ?thesis
    unfolding start_search_def ex_answer_def prod.case Let_def sum.case plan ex_service_start_def
      service_state.simps recorded vals ex_session_def ex_opened_def v
    by (simp add: ex_env_def create_session_def ex_service_store_def remove_expired_def keep_newest_def Let_def)
qed

lemma ex_live: "session_live ex_session (300, st_sessions ex_opened)"
  by (simp add: session_live_def ex_opened_def ex_service_store_def ex_session_fields)

theorem cursor_walk_complete_witness:
  "concat (map re_items (all_pages ex_service ex_session 2 False [(300, st_sessions ex_opened)]))
      = [ex_item 1 ''car'', ex_item 2 ''tent'', ex_item 4 ''bike'']
    \<and> pg_next_cursor (last (all_pages ex_service ex_session 2 False [(300, st_sessions ex_opened)])) = None"
  using cursor_walk_complete [of ex_session 7 ex_service 2 "[(300, st_sessions ex_opened)]" False] ex_live
  by (simp add: ex_session_fields ex_service_def)

definition ex_continue :: search_request where
  "ex_continue = \<lparr>rq_query = None, rq_cursor = Some (encode_cursor (uuid_text 7) 2), rq_page_size = 2\<rparr>"

lemma ex_opened_run: "\<exists>opened. service_run 600 opened ex_opened"
proof -
  have "service_run 600 [] ex_service_start"
    unfolding ex_service_start_def
    by (rule service_up [of 600 2]) (simp add: session_store_init_def ex_service_store_def)
  moreover have "snd (service_search ex_answer ex_service (ex_env 10 7) ex_query ex_service_start) = ex_opened"
    by (simp add: service_search_def ex_query_def ex_start)
  ultimately show ?thesis using service_request [OF _ surjective_pairing] by metis
qed

lemma ex_continued:
  obtains r where "fst (service_search ex_answer ex_service (ex_env 400 8) ex_continue ex_opened) = Inr r"
    "re_items r = [ex_item 4 ''bike'']" "re_query r = ''car''"
proof -
  have "session_live ex_session (400, st_sessions ex_opened)"
    by (simp add: session_live_def ex_opened_def ex_service_store_def ex_session_fields)
  from continue_live [OF this ex_session_fields(1), of ex_service 2 2]
  have "fst (continue_search ex_service 400 (encode_cursor (uuid_text 7) 2) 2 (st_sessions ex_opened))
      = page_of_session ex_session 2 2 True"
    by (simp add: ex_session_fields ex_service_def)
  then have "fst (service_search ex_answer ex_service (ex_env 400 8) ex_continue ex_opened) = page_of_session ex_session 2 2 True"
    by (simp add: service_search_def ex_continue_def ex_env_def Let_def case_prod_beta)
  then show thesis using that by (simp add: page_of_session_def Let_def ex_session_fields)
qed

theorem continued_page_own_session_witness:
  "\<exists>opened r. service_run 600 opened ex_opened
     \<and> fst (service_search ex_answer ex_service (ex_env 400 8) ex_continue ex_opened) = Inr r
     \<and> re_items r = [ex_item 4 ''bike'']
     \<and> (\<exists>(t, sv', q, session) \<in> set opened. sv_company sv' = Some ''acme'' \<and> q = ''car'' \<and> 400 < t + of_int 600)"
proof -
  obtain opened where run: "service_run 600 opened ex_opened" using ex_opened_run ..
  obtain r where r: "fst (service_search ex_answer ex_service (ex_env 400 8) ex_continue ex_opened) = Inr r"
      "re_items r = [ex_item 4 ''bike'']" "re_query r = ''car''"
    by (rule ex_continued)
  have "service_search ex_answer ex_service (ex_env 400 8) ex_continue ex_opened
      = (Inr r, snd (service_search ex_answer ex_service (ex_env 400 8) ex_continue ex_opened))"
    using r(1) by (simp add: prod_eq_iff)
  from continued_page_own_session [OF run _ this] have
    "\<exists>(t, sv', q, session) \<in> set opened. sv_company sv' = Some ''acme'' \<and> q = ''car'' \<and> 400 < t + of_int 600"
    using r(3) by (fastforce simp: ex_continue_def ex_service_def ex_env_def)
  then show ?thesis using run r(1,2) by blast
qed

lemma ex_ledger:
  "case record_search_usage ''now'' ''2024-05'' (Some ''acme'') ex_result (Some []) of
     (Inr u, Some t) \<Rightarrow> up_total u = 42 \<and> list_all event_counts_ok (up_breakdown u) | _ \<Rightarrow> False"
  by code_simp

lemma ex_no_usage: "totals_of ''2024-05'' ''acme'' None [] = Inr \<lparr>us_requests = 0, us_searches = 0,
    us_model_requests = 0, us_input = 0, us_output = 0, us_total = 0\<rparr>"
  by code_simp


end
