(* ===== verification/Request_Slots.thy ===== *)
theory Request_Slots
  imports Prelude
begin

text \<open>
  \<open>run_engine_search\<close> and \<open>search_capacity_slot\<close> of \<open>api/service.py\<close> under concurrent requests: the
  bounded slots, the coalescing of identical searches behind one owner, and the monitor counters.
  A request is a process; each section under a lock is one step, timeouts and the ingestion check
  are choices of the environment. An event is a number; \<open>events_set\<close> are those that were set.
\<close>

named_theorems slot_facts \<open>facts of the request slots\<close>

subsection \<open>Processes and the shared state\<close>

datatype outcome = Success bool | Failure

datatype stage = Outside | Slotted | Counted | Waiting nat | Ready | Searching bool
  | Finished outcome | Reported | Cleaned | Leaving

record process =
  stage :: stage
  pre_acquired :: bool
  coalesce_key :: string
  owned_event :: "nat option"

definition idle :: process where
  "idle = \<lparr>stage = Outside, pre_acquired = False, coalesce_key = [], owned_event = None\<rparr>"

record monitor =
  free_slots :: nat
  mon_active :: int
  mon_started :: int
  mon_completed :: int
  mon_failed :: int
  mon_rejected :: int
  mon_degraded :: int
  recent :: "outcome list"
  inflight :: "(string, nat) dict"
  events_set :: "nat list"
  next_event :: nat
  processes :: "process list"

definition service_idle :: "nat \<Rightarrow> nat \<Rightarrow> monitor" where
  "service_idle slots n = \<lparr>free_slots = slots, mon_active = 0, mon_started = 0, mon_completed = 0, mon_failed = 0,
     mon_rejected = 0, mon_degraded = 0, recent = [], inflight = [], events_set = [], next_event = 0,
     processes = replicate n idle\<rparr>"

definition put :: "nat \<Rightarrow> process \<Rightarrow> monitor \<Rightarrow> monitor" where
  "put i p s = s\<lparr>processes := (processes s)[i := p]\<rparr>"

subsection \<open>The steps\<close>

text \<open>\<open>search_capacity_slot\<close> around a whole request, or the entry of \<open>run_engine_search\<close> without it.\<close>

definition take_slot :: "monitor \<Rightarrow> monitor" where "take_slot s = s\<lparr>free_slots := free_slots s - 1\<rparr>"

definition release_slot :: "monitor \<Rightarrow> monitor" where "release_slot s = s\<lparr>free_slots := Suc (free_slots s)\<rparr>"

definition reject :: "monitor \<Rightarrow> monitor" where "reject s = s\<lparr>mon_rejected := mon_rejected s + 1\<rparr>"

definition count_in :: "monitor \<Rightarrow> monitor" where
  "count_in s = s\<lparr>mon_active := mon_active s + 1, mon_started := mon_started s + 1\<rparr>"

definition count_out :: "monitor \<Rightarrow> monitor" where "count_out s = s\<lparr>mon_active := mon_active s - 1\<rparr>"

definition register_owner :: "string \<Rightarrow> monitor \<Rightarrow> monitor" where
  "register_owner k s = s\<lparr>inflight := AList.update k (next_event s) (inflight s), next_event := Suc (next_event s)\<rparr>"

text \<open>The counters and the deque of the last 100 events.\<close>

definition report :: "outcome \<Rightarrow> monitor \<Rightarrow> monitor" where
  "report r s = (case r of
     Failure \<Rightarrow> s\<lparr>mon_failed := mon_failed s + 1, recent := take 100 (r # recent s)\<rparr>
   | Success degraded \<Rightarrow> s\<lparr>mon_completed := mon_completed s + 1,
       mon_degraded := (if degraded then mon_degraded s + 1 else mon_degraded s), recent := take 100 (r # recent s)\<rparr>)"

text \<open>\<open>record_external_search\<close>: a search that ran elsewhere, counted as started and completed.\<close>

definition record_external :: "monitor \<Rightarrow> monitor" where
  "record_external s = s\<lparr>mon_started := mon_started s + 1, mon_completed := mon_completed s + 1,
     recent := take 100 (Success False # recent s)\<rparr>"

definition finish_owner :: "string \<Rightarrow> nat \<Rightarrow> monitor \<Rightarrow> monitor" where
  "finish_owner k ev s = s\<lparr>inflight := (if map_of (inflight s) k = Some ev
       then filter (\<lambda>kv. fst kv \<noteq> k) (inflight s) else inflight s), events_set := ev # events_set s\<rparr>"

definition at_stage :: "nat \<Rightarrow> stage \<Rightarrow> monitor \<Rightarrow> bool" where
  "at_stage i st s \<longleftrightarrow> i < length (processes s) \<and> stage (processes s ! i) = st"

abbreviation move :: "nat \<Rightarrow> stage \<Rightarrow> monitor \<Rightarrow> monitor" where
  "move i st s \<equiv> put i ((processes s ! i)\<lparr>stage := st\<rparr>) s"

inductive arrival :: "monitor \<Rightarrow> monitor \<Rightarrow> bool" where
  arrive_slotted: "at_stage i Outside s \<Longrightarrow> 0 < free_slots s \<Longrightarrow>
    arrival s (put i (idle\<lparr>stage := Slotted, pre_acquired := True\<rparr>) (take_slot s))"
| arrive_rejected: "at_stage i Outside s \<Longrightarrow> free_slots s = 0 \<Longrightarrow> arrival s (reject s)"
| arrive_plain: "at_stage i Outside s \<Longrightarrow>
    arrival s (put i (idle\<lparr>stage := Counted, coalesce_key := k\<rparr>) (count_in s))"
| arrive_external: "arrival s (record_external s)"

inductive work :: "monitor \<Rightarrow> monitor \<Rightarrow> bool" where
  enter_slotted: "at_stage i Slotted s \<Longrightarrow>
    work s (put i ((processes s ! i)\<lparr>stage := Counted, coalesce_key := k\<rparr>) (count_in s))"
| refuse_slotted: "at_stage i Slotted s \<Longrightarrow> work s (move i Leaving s)"
| become_owner: "at_stage i Counted s \<Longrightarrow> map_of (inflight s) (coalesce_key (processes s ! i)) = None \<Longrightarrow>
    work s (put i ((processes s ! i)\<lparr>stage := Ready, owned_event := Some (next_event s)\<rparr>)
      (register_owner (coalesce_key (processes s ! i)) s))"
| become_waiter: "at_stage i Counted s \<Longrightarrow> map_of (inflight s) (coalesce_key (processes s ! i)) = Some ev \<Longrightarrow>
    work s (move i (Waiting ev) s)"
| wake: "at_stage i (Waiting ev) s \<Longrightarrow> ev \<in> set (events_set s) \<Longrightarrow> work s (move i Ready s)"
| wait_timeout: "at_stage i (Waiting ev) s \<Longrightarrow> ev \<notin> set (events_set s) \<Longrightarrow>
    work s (move i (Finished Failure) (reject s))"
| search_slotted: "at_stage i Ready s \<Longrightarrow> pre_acquired (processes s ! i) \<Longrightarrow> work s (move i (Searching False) s)"
| search_acquire: "at_stage i Ready s \<Longrightarrow> \<not> pre_acquired (processes s ! i) \<Longrightarrow> 0 < free_slots s \<Longrightarrow>
    work s (move i (Searching True) (take_slot s))"
| search_busy: "at_stage i Ready s \<Longrightarrow> \<not> pre_acquired (processes s ! i) \<Longrightarrow> free_slots s = 0 \<Longrightarrow>
    work s (move i (Finished Failure) (reject s))"
| search_refreshing: "at_stage i Ready s \<Longrightarrow> \<not> pre_acquired (processes s ! i) \<Longrightarrow> work s (move i (Finished Failure) s)"
| search_done: "at_stage i (Searching own_slot) s \<Longrightarrow>
    work s (move i (Finished r) (if own_slot then release_slot s else s))"
| reporting: "at_stage i (Finished r) s \<Longrightarrow> work s (move i Reported (report r s))"
| clean_owner: "at_stage i Reported s \<Longrightarrow> owned_event (processes s ! i) = Some ev \<Longrightarrow>
    work s (move i Cleaned (finish_owner (coalesce_key (processes s ! i)) ev s))"
| clean_other: "at_stage i Reported s \<Longrightarrow> owned_event (processes s ! i) = None \<Longrightarrow> work s (move i Cleaned s)"
| leave: "at_stage i Cleaned s \<Longrightarrow>
    work s (put i (if pre_acquired (processes s ! i) then idle\<lparr>stage := Leaving, pre_acquired := True\<rparr> else idle) (count_out s))"
| release: "at_stage i Leaving s \<Longrightarrow> work s (put i idle (release_slot s))"

inductive service_reach :: "nat \<Rightarrow> monitor \<Rightarrow> bool" where
  reach_idle: "service_reach slots (service_idle slots n)"
| reach_arrival: "service_reach slots s \<Longrightarrow> arrival s s' \<Longrightarrow> service_reach slots s'"
| reach_work: "service_reach slots s \<Longrightarrow> work s s' \<Longrightarrow> service_reach slots s'"

subsection \<open>Counting processes\<close>

definition count_of :: "(process \<Rightarrow> bool) \<Rightarrow> monitor \<Rightarrow> int" where
  "count_of P s = int (length (filter P (processes s)))"

lemma count_update:
  "i < length xs \<Longrightarrow> int (length (filter P (xs[i := x]))) = int (length (filter P xs)) - of_bool (P (xs ! i)) + of_bool (P x)"
proof (induction xs arbitrary: i)
  case (Cons y ys)
  then show ?case by (cases i) auto
qed simp

lemma count_put:
  "i < length (processes s) \<Longrightarrow> count_of P (put i p s) = count_of P s - of_bool (P (processes s ! i)) + of_bool (P p)"
  by (simp add: count_of_def put_def count_update)

definition in_run :: "process \<Rightarrow> bool" where
  "in_run p \<longleftrightarrow> (case stage p of Outside \<Rightarrow> False | Slotted \<Rightarrow> False | Leaving \<Rightarrow> False | _ \<Rightarrow> True)"

definition unreported :: "process \<Rightarrow> bool" where
  "unreported p \<longleftrightarrow> in_run p \<and> stage p \<noteq> Reported \<and> stage p \<noteq> Cleaned"

definition holds_slot :: "process \<Rightarrow> bool" where
  "holds_slot p \<longleftrightarrow> pre_acquired p \<or> stage p = Searching True"

definition is_searching :: "process \<Rightarrow> bool" where
  "is_searching p \<longleftrightarrow> (case stage p of Searching _ \<Rightarrow> True | _ \<Rightarrow> False)"

text \<open>The owner of an event, from its registration to its cleanup.\<close>

definition owns :: "process \<Rightarrow> string \<Rightarrow> nat \<Rightarrow> bool" where
  "owns p k ev \<longleftrightarrow> owned_event p = Some ev \<and> coalesce_key p = k \<and> in_run p \<and> stage p \<noteq> Cleaned"

definition process_ok :: "process \<Rightarrow> bool" where
  "process_ok p \<longleftrightarrow> (stage p = Outside \<longrightarrow> p = idle)
     \<and> (stage p = Slotted \<or> stage p = Leaving \<longrightarrow> pre_acquired p)
     \<and> (stage p = Searching True \<longrightarrow> \<not> pre_acquired p) \<and> (stage p = Searching False \<longrightarrow> pre_acquired p)"

definition counters_ok :: "nat \<Rightarrow> monitor \<Rightarrow> bool" where
  "counters_ok slots s \<longleftrightarrow> mon_active s = count_of in_run s
     \<and> mon_started s = mon_completed s + mon_failed s + count_of unreported s
     \<and> int (free_slots s) + count_of holds_slot s = int slots
     \<and> list_all process_ok (processes s)"

lemma put_simps [simp]:
  "free_slots (put i p s) = free_slots s" "mon_active (put i p s) = mon_active s"
  "mon_started (put i p s) = mon_started s" "mon_completed (put i p s) = mon_completed s"
  "mon_failed (put i p s) = mon_failed s" "inflight (put i p s) = inflight s"
  "events_set (put i p s) = events_set s" "next_event (put i p s) = next_event s"
  "processes (put i p s) = (processes s)[i := p]"
  by (simp_all add: put_def)

lemmas step_defs = take_slot_def release_slot_def reject_def count_in_def count_out_def register_owner_def
  report_def finish_owner_def at_stage_def

lemma processes_kept [simp]:
  "processes (take_slot s) = processes s" "processes (release_slot s) = processes s" "processes (reject s) = processes s"
  "processes (count_in s) = processes s" "processes (count_out s) = processes s"
  "processes (register_owner k s) = processes s" "processes (report r s) = processes s"
  "processes (finish_owner k ev s) = processes s"
  by (simp_all add: step_defs split: outcome.split)

lemma counters_put:
  assumes "counters_ok slots s" and "at_stage i st s" and "processes s' = processes s"
    and "mon_active s' = mon_active s - of_bool (in_run (processes s ! i)) + of_bool (in_run p)"
    and "mon_started s' - mon_completed s' - mon_failed s' = mon_started s - mon_completed s - mon_failed s
      - of_bool (unreported (processes s ! i)) + of_bool (unreported p)"
    and "int (free_slots s') = int (free_slots s) + of_bool (holds_slot (processes s ! i)) - of_bool (holds_slot p)"
    and "process_ok p"
  shows "counters_ok slots (put i p s')"
proof -
  have i: "i < length (processes s')" using assms(2,3) by (simp add: at_stage_def)
  have "count_of P s' = count_of P s" for P by (simp add: count_of_def assms(3))
  then have "count_of P (put i p s') = count_of P s - of_bool (P (processes s ! i)) + of_bool (P p)" for P
    using count_put [OF i] assms(3) by simp
  moreover have "list_all process_ok ((processes s)[i := p])"
    using assms(1,7) by (auto simp: counters_ok_def list_all_iff dest!: set_update_subset_insert [THEN subsetD])
  ultimately show ?thesis using assms(1,4-6) by (auto simp: counters_ok_def assms(3))
qed

lemma counters_process: "counters_ok slots s \<Longrightarrow> at_stage i st s \<Longrightarrow> process_ok (processes s ! i)"
  by (simp add: counters_ok_def at_stage_def list_all_length)

lemmas process_defs = in_run_def unreported_def holds_slot_def process_ok_def idle_def

lemma arrival_counters: "arrival s s' \<Longrightarrow> counters_ok slots s \<Longrightarrow> counters_ok slots s'"
proof (induction rule: arrival.induct)
  case (arrive_rejected i s)
  then show ?case by (simp add: counters_ok_def reject_def count_of_def)
next
  case (arrive_external s)
  then show ?case by (simp add: counters_ok_def record_external_def count_of_def)
next
  case (arrive_slotted i s)
  then show ?case using counters_process [OF arrive_slotted.prems arrive_slotted.hyps(1)]
    by (intro counters_put) (auto simp: at_stage_def take_slot_def process_defs)
next
  case (arrive_plain i s k)
  then show ?case using counters_process [OF arrive_plain.prems arrive_plain.hyps(1)]
    by (intro counters_put) (auto simp: at_stage_def count_in_def process_defs)
qed

lemma work_counters: "work s s' \<Longrightarrow> counters_ok slots s \<Longrightarrow> counters_ok slots s'"
proof (induction rule: work.induct)
  case (search_done i own_slot s r)
  then show ?case using counters_process [OF search_done.prems search_done.hyps(1)]
    by (intro counters_put [OF search_done.prems search_done.hyps(1)]) (auto simp: at_stage_def release_slot_def process_defs)
next
  case (leave i s)
  then show ?case using counters_process [OF leave.prems leave.hyps(1)]
    by (intro counters_put) (auto simp: at_stage_def count_out_def process_defs)
qed ((frule (1) counters_process; erule (1) counters_put;
  auto simp: step_defs process_defs split: outcome.split)+)

subsection \<open>Owners and waiters\<close>

definition owner_ok :: "monitor \<Rightarrow> process \<Rightarrow> bool" where
  "owner_ok s p \<longleftrightarrow>
     (\<forall>ev. owned_event p = Some ev \<longrightarrow> ev < next_event s \<and> (stage p = Cleaned \<or> owns p (coalesce_key p) ev))
     \<and> (\<forall>k ev. owns p k ev \<longrightarrow> map_of (inflight s) k = Some ev)
     \<and> (stage p = Counted \<longrightarrow> owned_event p = None)"

definition wait_ok :: "monitor \<Rightarrow> process \<Rightarrow> bool" where
  "wait_ok s p \<longleftrightarrow> (\<forall>ev. stage p = Waiting ev \<longrightarrow>
     ev \<in> set (events_set s) \<or> (\<exists>j < length (processes s). \<exists>k. owns (processes s ! j) k ev))"

definition owners_ok :: "monitor \<Rightarrow> bool" where
  "owners_ok s \<longleftrightarrow> (\<forall>i < length (processes s). owner_ok s (processes s ! i) \<and> wait_ok s (processes s ! i))
     \<and> (\<forall>k ev. map_of (inflight s) k = Some ev \<longrightarrow> (\<exists>i < length (processes s). owns (processes s ! i) k ev))
     \<and> (\<forall>i < length (processes s). \<forall>j < length (processes s). \<forall>ev. owned_event (processes s ! i) = Some ev
          \<longrightarrow> owned_event (processes s ! j) = Some ev \<longrightarrow> i = j)"

lemma owners_process:
  assumes "owners_ok s" and "i < length (processes s)"
  shows "owner_ok s (processes s ! i)" "wait_ok s (processes s ! i)"
  using assms unfolding owners_ok_def by blast+

lemma owners_inflight:
  assumes "owners_ok s" and "map_of (inflight s) k = Some ev"
  obtains j where "j < length (processes s)" "owns (processes s ! j) k ev"
  using assms unfolding owners_ok_def by blast

lemma owners_unique:
  assumes "owners_ok s" and "i < length (processes s)" and "j < length (processes s)"
    and "owned_event (processes s ! i) = Some ev" and "owned_event (processes s ! j) = Some ev"
  shows "i = j"
  using assms unfolding owners_ok_def by blast

lemma owns_event: "owns p k ev \<Longrightarrow> owned_event p = Some ev \<and> coalesce_key p = k"
  by (simp add: owns_def)

text \<open>A step that leaves the table and the ownership of the process as they are.\<close>

lemma owners_put:
  assumes "owners_ok s" and "i < length (processes s)" and "processes s' = processes s"
    and "inflight s' = inflight s" and "next_event s' = next_event s" and "events_set s' = events_set s"
    and "owned_event p = owned_event (processes s ! i)" and "\<And>k ev. owns p k ev = owns (processes s ! i) k ev"
    and "owner_ok s p" and "wait_ok s p"
  shows "owners_ok (put i p s')"
proof -
  have owns: "owns ((processes s)[i := p] ! j) k ev = owns (processes s ! j) k ev" for j k ev
    using assms(2,8) by (cases "i = j") simp_all
  have owned: "owned_event ((processes s)[i := p] ! j) = owned_event (processes s ! j)" for j
    using assms(2,7) by (cases "i = j") simp_all
  have wait: "wait_ok (put i p s') q = wait_ok s q" for q by (simp add: wait_ok_def assms(3,6) owns)
  have own: "owner_ok (put i p s') q = owner_ok s q" for q by (simp add: owner_ok_def assms(4,5))
  have "owner_ok s ((processes s)[i := p] ! j) \<and> wait_ok s ((processes s)[i := p] ! j)" if "j < length (processes s)" for j
    using assms(2,9,10) owners_process [OF assms(1) that] by (cases "i = j") simp_all
  then show ?thesis
    using assms(1) unfolding owners_ok_def wait own put_simps by (simp add: assms(3,4) owns owned)
qed

lemma owners_shared:
  assumes "owners_ok s" and "processes s' = processes s" and "inflight s' = inflight s"
    and "next_event s' = next_event s" and "events_set s' = events_set s"
  shows "owners_ok s'"
  using assms by (simp add: owners_ok_def owner_ok_def wait_ok_def)

lemma arrival_owners: "arrival s s' \<Longrightarrow> counters_ok slots s \<Longrightarrow> owners_ok s \<Longrightarrow> owners_ok s'"
proof (induction rule: arrival.induct)
  case (arrive_slotted i s)
  have "processes s ! i = idle"
    using counters_process [OF arrive_slotted.prems(1) arrive_slotted.hyps(1)] arrive_slotted.hyps(1)
    by (simp add: process_ok_def at_stage_def)
  then show ?case using arrive_slotted
    by (intro owners_put [OF arrive_slotted.prems(2)])
      (auto simp: at_stage_def take_slot_def owns_def in_run_def idle_def owner_ok_def wait_ok_def)
next
  case (arrive_rejected i s)
  then show ?case by (intro owners_shared [OF arrive_rejected.prems(2)]) (simp_all add: reject_def)
next
  case (arrive_external s)
  then show ?case by (intro owners_shared [OF arrive_external.prems(2)]) (simp_all add: record_external_def)
next
  case (arrive_plain i s k)
  have "processes s ! i = idle"
    using counters_process [OF arrive_plain.prems(1) arrive_plain.hyps(1)] arrive_plain.hyps(1)
    by (simp add: process_ok_def at_stage_def)
  then show ?case using arrive_plain
    by (intro owners_put [OF arrive_plain.prems(2)])
      (auto simp: at_stage_def count_in_def owns_def in_run_def idle_def owner_ok_def wait_ok_def)
qed

lemma become_owner_owners:
  assumes "owners_ok s" and "at_stage i Counted s" and "map_of (inflight s) (coalesce_key (processes s ! i)) = None"
  shows "owners_ok (put i ((processes s ! i)\<lparr>stage := Ready, owned_event := Some (next_event s)\<rparr>)
           (register_owner (coalesce_key (processes s ! i)) s))"
proof -
  define t where "t = put i ((processes s ! i)\<lparr>stage := Ready, owned_event := Some (next_event s)\<rparr>)
           (register_owner (coalesce_key (processes s ! i)) s)"
  let ?p = "processes s ! i" and ?n = "next_event s"
  let ?q = "?p\<lparr>stage := Ready, owned_event := Some ?n\<rparr>"
  have i: "i < length (processes s)" "stage ?p = Counted" using assms(2) by (simp_all add: at_stage_def)
  have none: "owned_event ?p = None" using owners_process(1) [OF assms(1) i(1)] i(2) by (simp add: owner_ok_def)
  have fresh: "owned_event (processes s ! j) = Some ev \<Longrightarrow> j < length (processes s) \<Longrightarrow> ev < ?n" for j ev
    using owners_process(1) [OF assms(1)] by (auto simp: owner_ok_def)
  have nth: "processes t ! j = (if j = i then ?q else processes s ! j)" for j
    using i(1) by (simp add: t_def register_owner_def)
  have table: "map_of (inflight t) = (map_of (inflight s))(coalesce_key ?p \<mapsto> ?n)"
    by (simp add: t_def register_owner_def update_conv')
  have next_n: "next_event t = Suc ?n" and events: "events_set t = events_set s"
    and len: "length (processes t) = length (processes s)" by (simp_all add: t_def register_owner_def)
  have q: "owns ?q k ev \<longleftrightarrow> k = coalesce_key ?p \<and> ev = ?n" for k ev by (auto simp: owns_def in_run_def)
  have p: "\<not> owns ?p k ev" for k ev using none by (simp add: owns_def)
  have still: "\<exists>j < length (processes t). owns (processes t ! j) k ev"
    if "j < length (processes s)" "owns (processes s ! j) k ev" for j k ev
    using that p by (intro exI [of _ j]) (auto simp: len nth)
  have "owners_ok t"
    unfolding owners_ok_def
  proof (intro conjI allI impI)
    fix j assume j: "j < length (processes t)"
    then have old: "owner_ok s (processes s ! j)" "wait_ok s (processes s ! j)"
      using owners_process [OF assms(1)] by (simp_all add: len)
    show "owner_ok t (processes t ! j)"
    proof (cases "j = i")
      case True
      then have "processes t ! j = ?q" unfolding nth by simp
      then show ?thesis unfolding owner_ok_def table next_n by (simp only: q) simp
    next
      case False
      have "map_of (inflight s) k = Some ev \<Longrightarrow> k \<noteq> coalesce_key ?p" for k ev using assms(3) by auto
      then show ?thesis using old(1) False by (auto simp: nth owner_ok_def table next_n intro: less_SucI)
    qed
    show "wait_ok t (processes t ! j)"
    proof (cases "j = i")
      case False
      then have same: "processes t ! j = processes s ! j" by (simp add: nth)
      show ?thesis unfolding wait_ok_def events same using old(2) still unfolding wait_ok_def by blast
    qed (simp add: nth wait_ok_def)
  next
    fix k ev assume m: "map_of (inflight t) k = Some ev"
    show "\<exists>j < length (processes t). owns (processes t ! j) k ev"
    proof (cases "k = coalesce_key ?p")
      case True
      then show ?thesis using m i(1) q by (intro exI [of _ i]) (simp add: nth table len)
    next
      case False
      then have "map_of (inflight s) k = Some ev" using m by (simp add: table)
      then show ?thesis by (rule owners_inflight [OF assms(1)]) (rule still)
    qed
  next
    fix j j' ev assume "j < length (processes t)" "j' < length (processes t)"
      "owned_event (processes t ! j) = Some ev" "owned_event (processes t ! j') = Some ev"
    then show "j = j'" using owners_unique [OF assms(1), of j j' ev] fresh
      by (auto simp: nth len split: if_splits)
  qed
  then show ?thesis by (simp add: t_def)
qed

text \<open>The owner's cleanup, and a process that leaves.\<close>

lemma clean_owner_owners:
  assumes "owners_ok s" and "at_stage i Reported s" and "owned_event (processes s ! i) = Some ev"
  shows "owners_ok (move i Cleaned (finish_owner (coalesce_key (processes s ! i)) ev s))"
proof -
  let ?p = "processes s ! i" and ?k = "coalesce_key (processes s ! i)"
  define t where "t = move i Cleaned (finish_owner ?k ev s)"
  have i: "i < length (processes s)" "stage ?p = Reported" using assms(2) by (simp_all add: at_stage_def)
  have ok: "owner_ok s ?p" by (rule owners_process(1) [OF assms(1) i(1)])
  have p: "owns ?p ?k ev" using ok assms(3) i(2) by (auto simp: owner_ok_def)
  then have mine: "map_of (inflight s) ?k = Some ev" using ok by (simp add: owner_ok_def)
  have nth: "processes t ! j = (if j = i then ?p\<lparr>stage := Cleaned\<rparr> else processes s ! j)" for j
    using i(1) by (simp add: t_def)
  have "map_of (filter (\<lambda>kv. fst kv \<noteq> ?k) m) k = (if k = ?k then None else map_of m k)" for m :: "(string, nat) dict" and k
    by (induction m) auto
  then have table: "map_of (inflight t) k = (if k = ?k then None else map_of (inflight s) k)" for k
    by (simp add: t_def finish_owner_def mine)
  have rest: "next_event t = next_event s" "events_set t = ev # events_set s" "length (processes t) = length (processes s)"
    by (simp_all add: t_def finish_owner_def)
  have q: "\<not> owns (?p\<lparr>stage := Cleaned\<rparr>) k e" for k e by (simp add: owns_def)
  have others: "k \<noteq> ?k \<and> e \<noteq> ev" if "j < length (processes s)" "j \<noteq> i" "owns (processes s ! j) k e" for j k e
  proof -
    have "map_of (inflight s) k = Some e" using owners_process(1) [OF assms(1) that(1)] that(3) by (auto simp: owner_ok_def)
    then show ?thesis
      using owners_unique [OF assms(1) that(1) i(1)] owns_event [OF that(3)] that(2) assms(3) mine by auto
  qed
  have "owners_ok t"
    unfolding owners_ok_def
  proof (intro conjI allI impI)
    fix j assume j: "j < length (processes t)"
    then have old: "owner_ok s (processes s ! j)" "wait_ok s (processes s ! j)"
      using owners_process [OF assms(1)] by (simp_all add: rest)
    show "owner_ok t (processes t ! j)"
    proof (cases "j = i")
      case True
      then show ?thesis using ok unfolding nth owner_ok_def by (simp add: q rest)
    next
      case False
      then show ?thesis using old(1) others j unfolding nth owner_ok_def by (simp add: rest table)
    qed
    show "wait_ok t (processes t ! j)"
    proof (cases "j = i")
      case False
      then have same: "processes t ! j = processes s ! j" by (simp add: nth)
      have "owns (processes s ! l) k e \<Longrightarrow> l < length (processes s) \<Longrightarrow>
          e \<in> set (ev # events_set s) \<or> (\<exists>l < length (processes t). \<exists>k. owns (processes t ! l) k e)" for l k e
        using owns_event assms(3) nth by (cases "l = i") (auto simp: rest intro!: exI [of _ l])
      then show ?thesis unfolding wait_ok_def rest(2) same using old(2) unfolding wait_ok_def by fastforce
    qed (simp add: nth wait_ok_def)
  next
    fix k e assume "map_of (inflight t) k = Some e"
    then have m: "map_of (inflight s) k = Some e" "k \<noteq> ?k" by (auto simp: table split: if_splits)
    obtain j where j: "j < length (processes s)" "owns (processes s ! j) k e" by (rule owners_inflight [OF assms(1) m(1)])
    then have "j \<noteq> i" using m(2) owns_event by blast
    then show "\<exists>j < length (processes t). owns (processes t ! j) k e"
      using nth j by (intro exI [of _ j]) (simp add: rest)
  next
    fix j j' e assume "j < length (processes t)" "j' < length (processes t)"
      "owned_event (processes t ! j) = Some e" "owned_event (processes t ! j') = Some e"
    then show "j = j'" using owners_unique [OF assms(1), of j j' e] by (auto simp: nth rest split: if_splits)
  qed
  then show ?thesis by (simp add: t_def)
qed

lemma leave_owners:
  assumes "owners_ok s" and "at_stage i Cleaned s" and "owned_event p = None" and "stage p \<in> {Outside, Leaving}"
  shows "owners_ok (put i p (count_out s))"
proof -
  define t where "t = put i p (count_out s)"
  have i: "i < length (processes s)" "stage (processes s ! i) = Cleaned" using assms(2) by (simp_all add: at_stage_def)
  have nth: "processes t ! j = (if j = i then p else processes s ! j)" for j using i(1) by (simp add: t_def)
  have rest: "next_event t = next_event s" "events_set t = events_set s" "inflight t = inflight s"
      "length (processes t) = length (processes s)" by (simp_all add: t_def count_out_def)
  have owns: "owns (processes t ! j) k e = owns (processes s ! j) k e" for j k e
    using assms(3) i(2) unfolding nth by (simp add: owns_def)
  have "owner_ok t (processes t ! j) \<and> wait_ok t (processes t ! j)" if "j < length (processes s)" for j
  proof (cases "j = i")
    case True
    then show ?thesis using assms(3,4) unfolding nth by (auto simp: owner_ok_def wait_ok_def owns_def)
  next
    case False
    then have same: "processes t ! j = processes s ! j" by (simp add: nth)
    show ?thesis unfolding same using owners_process [OF assms(1) that]
      unfolding owner_ok_def wait_ok_def rest owns by blast
  qed
  moreover have "j = j'" if "j < length (processes s)" "j' < length (processes s)"
      "owned_event (processes t ! j) = Some e" "owned_event (processes t ! j') = Some e" for j j' e
    using that owners_unique [OF assms(1), of j j' e] assms(3) by (auto simp: nth split: if_splits)
  ultimately have "owners_ok t" using assms(1) unfolding owners_ok_def rest owns by blast
  then show ?thesis by (simp add: t_def)
qed

lemma work_owners: "work s s' \<Longrightarrow> counters_ok slots s \<Longrightarrow> owners_ok s \<Longrightarrow> owners_ok s'"
proof (induction rule: work.induct)
  case (become_owner i s)
  then show ?case by (intro become_owner_owners)
next
  case (clean_owner i s ev)
  then show ?case by (intro clean_owner_owners)
next
  case (leave i s)
  then show ?case by (intro leave_owners) (auto simp: idle_def)
next
  case (become_waiter i s ev)
  obtain j where "j < length (processes s)" "owns (processes s ! j) (coalesce_key (processes s ! i)) ev"
    by (rule owners_inflight [OF become_waiter.prems(2) become_waiter.hyps(2)])
  then show ?case
    using become_waiter.hyps(1) owners_process(1) [OF become_waiter.prems(2), of i]
    by (intro owners_put [OF become_waiter.prems(2)])
      (auto simp: at_stage_def owner_ok_def wait_ok_def owns_def in_run_def)
next
  case (release i s)
  have "owned_event (processes s ! i) = None"
    using owners_process(1) [OF release.prems(2), of i] release.hyps
    by (cases "owned_event (processes s ! i)") (auto simp: at_stage_def owner_ok_def owns_def in_run_def)
  then show ?case using release
    by (intro owners_put [OF release.prems(2)])
      (auto simp: at_stage_def release_slot_def owner_ok_def wait_ok_def owns_def in_run_def idle_def)
next
  case (enter_slotted i s k)
  have "owned_event (processes s ! i) = None"
    using owners_process(1) [OF enter_slotted.prems(2), of i] enter_slotted.hyps
    by (cases "owned_event (processes s ! i)") (auto simp: at_stage_def owner_ok_def owns_def in_run_def)
  then show ?case using enter_slotted
    by (intro owners_put [OF enter_slotted.prems(2)])
      (auto simp: at_stage_def count_in_def owner_ok_def wait_ok_def owns_def in_run_def)
next
  case (refuse_slotted i s)
  have "owned_event (processes s ! i) = None"
    using owners_process(1) [OF refuse_slotted.prems(2), of i] refuse_slotted.hyps
    by (cases "owned_event (processes s ! i)") (auto simp: at_stage_def owner_ok_def owns_def in_run_def)
  then show ?case using refuse_slotted
    by (intro owners_put [OF refuse_slotted.prems(2)])
      (auto simp: at_stage_def owner_ok_def wait_ok_def owns_def in_run_def)
qed ((frule (1) owners_process(1) [OF _ conjunct1 [OF at_stage_def [THEN iffD1]]]; erule owners_put;
  auto simp: step_defs owner_ok_def wait_ok_def owns_def in_run_def split: outcome.split)+)

subsection \<open>In every reachable state\<close>

lemma reach_ok [slot_facts]: "service_reach slots s \<Longrightarrow> counters_ok slots s \<and> owners_ok s"
proof (induction rule: service_reach.induct)
  case (reach_idle slots n)
  have none: "\<not> P idle \<Longrightarrow> count_of P (service_idle slots n) = 0" for P
    by (simp add: count_of_def service_idle_def)
  have idle: "\<not> in_run idle" "\<not> unreported idle" "\<not> holds_slot idle" "process_ok idle" "\<not> owns idle k ev" for k ev
    by (simp_all add: process_defs owns_def)
  then show ?case
    using none by (auto simp: counters_ok_def owners_ok_def owner_ok_def wait_ok_def service_idle_def list_all_iff)
      (auto simp: idle_def)
next
  case (reach_arrival slots s s')
  then show ?case using arrival_counters arrival_owners by blast
next
  case (reach_work slots s s')
  then show ?case using work_counters work_owners by blast
qed

lemma length_filter_mono: "(\<And>x. x \<in> set xs \<Longrightarrow> P x \<Longrightarrow> Q x) \<Longrightarrow> length (filter P xs) \<le> length (filter Q xs)"
  by (induction xs) (simp, metis (full_types) filter.simps(2) le_SucI length_Cons list.set_intros not_less_eq_eq)

lemma count_mono: "(\<And>p. p \<in> set (processes s) \<Longrightarrow> P p \<Longrightarrow> Q p) \<Longrightarrow> count_of P s \<le> count_of Q s"
  unfolding count_of_def of_nat_le_iff by (rule length_filter_mono)

theorem monitor_counts_requests:
  assumes "service_reach slots s"
  shows "mon_active s = count_of in_run s
    \<and> mon_started s = mon_completed s + mon_failed s + count_of unreported s
    \<and> int (free_slots s) = int slots - count_of holds_slot s
    \<and> count_of is_searching s \<le> int slots"
proof -
  have c: "counters_ok slots s" using reach_ok [OF assms] by blast
  have "count_of is_searching s \<le> count_of holds_slot s"
  proof (rule count_mono)
    fix p assume "p \<in> set (processes s)" "is_searching p"
    moreover then have "process_ok p" using c by (auto simp: counters_ok_def list_all_iff)
    ultimately show "holds_slot p"
      by (auto simp: is_searching_def holds_slot_def process_ok_def split: stage.splits)
  qed
  then show ?thesis using c by (auto simp: counters_ok_def)
qed


subsection \<open>Requests drain\<close>

fun rank :: "stage \<Rightarrow> nat" where
  "rank Outside = 0" | "rank Leaving = 1" | "rank Cleaned = 2" | "rank Reported = 3" | "rank (Finished r) = 4"
| "rank (Searching b) = 5" | "rank Ready = 6" | "rank (Waiting ev) = 7" | "rank Counted = 8" | "rank Slotted = 9"

definition pending :: "monitor \<Rightarrow> nat" where
  "pending s = sum_list (map (\<lambda>p. rank (stage p)) (processes s))"

lemma pending_put:
  assumes "at_stage i st s" and "processes s' = processes s" and "rank (stage p) < rank st"
  shows "pending (put i p s') < pending s"
proof -
  let ?r = "\<lambda>p. rank (stage p)"
  have i: "i < length (map ?r (processes s))" "map ?r (processes s) ! i = rank st"
    using assms(1) by (simp_all add: at_stage_def)
  have "pending (put i p s') = pending s + rank (stage p) - rank st"
    unfolding pending_def put_simps assms(2) map_update sum_list_update [OF i(1)] i(2) ..
  moreover have "rank st \<le> pending s"
    unfolding pending_def i(2) [symmetric] by (rule elem_le_sum_list [OF i(1)])
  ultimately show ?thesis using assms(3) by linarith
qed

lemma work_pending: "work s s' \<Longrightarrow> pending s' < pending s"
  by (induction rule: work.induct) (erule pending_put; simp add: idle_def)+

lemma rank_bound: "rank st \<le> 9"
  by (cases st) simp_all

lemma sum_list_bound: "(\<And>x. f x \<le> b) \<Longrightarrow> sum_list (map f xs) \<le> b * length xs" for f :: "'a \<Rightarrow> nat"
  by (induction xs) (simp_all add: add_mono)

lemma pending_bound: "pending s \<le> 9 * length (processes s)"
  unfolding pending_def by (rule sum_list_bound) (rule rank_bound)

lemma work_progress:
  assumes "counters_ok slots s" and "i < length (processes s)" and "stage (processes s ! i) \<noteq> Outside"
  shows "\<exists>s'. work s s'"
proof -
  let ?p = "processes s ! i"
  have at: "at_stage i (stage ?p) s" using assms(2) by (simp add: at_stage_def)
  show ?thesis
  proof (cases "stage ?p")
    case Counted
    then show ?thesis
      using at work.become_owner [of i s] work.become_waiter [of i s]
      by (cases "map_of (inflight s) (coalesce_key ?p)") auto
  next
    case (Waiting ev)
    then show ?thesis using at work.wake [of i ev s] work.wait_timeout [of i ev s] by auto
  next
    case Ready
    then show ?thesis
      using at work.search_slotted [of i s] work.search_busy [of i s] work.search_acquire [of i s]
      by (cases "pre_acquired ?p"; cases "free_slots s = 0") auto
  next
    case Reported
    then show ?thesis
      using at work.clean_owner [of i s] work.clean_other [of i s] by (cases "owned_event ?p") auto
  qed (use at assms(3) in \<open>auto intro: work.intros\<close>)
qed

definition all_answered :: "nat \<Rightarrow> monitor \<Rightarrow> bool" where
  "all_answered slots s \<longleftrightarrow> list_all (\<lambda>p. p = idle) (processes s) \<and> mon_active s = 0 \<and> inflight s = []
     \<and> free_slots s = slots \<and> mon_started s = mon_completed s + mon_failed s"

lemma work_steps_pending: "(work ^^ k) s t \<Longrightarrow> k + pending t \<le> pending s"
proof (induction k arbitrary: t)
  case (Suc k)
  then obtain u where "(work ^^ k) s u" "work u t" by (auto simp: relcompp_apply)
  then show ?case using Suc.IH [of u] work_pending [of u t] by simp
qed simp

text \<open>
  C27: Without new arrivals every schedule ends within nine steps per request, and it can only
  end with every request answered: all slots free, no in-flight key left, nothing active and
  every started search counted as completed or failed. So no interleaving deadlocks.
\<close>

theorem requests_drain:
  assumes "service_reach slots s"
  shows "((work ^^ k) s t \<longrightarrow> k \<le> 9 * length (processes s)) \<and> ((\<forall>t. \<not> work s t) \<longrightarrow> all_answered slots s)"
proof -
  have ok: "counters_ok slots s" "owners_ok s" using reach_ok [OF assms] by blast+
  have "all_answered slots s" if stuck: "\<forall>t. \<not> work s t"
  proof -
    have outside: "stage p = Outside" if "p \<in> set (processes s)" for p
      using that work_progress [OF ok(1)] stuck by (auto simp: in_set_conv_nth)
    then have idle: "\<forall>p \<in> set (processes s). p = idle"
      using ok(1) by (auto simp: counters_ok_def list_all_iff process_ok_def)
    then have none: "\<not> P idle \<Longrightarrow> count_of P s = 0" for P by (auto simp: count_of_def filter_empty_conv)
    have "inflight s = []"
    proof (cases "inflight s")
      case (Cons x m)
      then have "map_of (inflight s) (fst x) = Some (snd x)" by simp
      then obtain j where "j < length (processes s)" "owns (processes s ! j) (fst x) (snd x)"
        by (rule owners_inflight [OF ok(2)])
      moreover from this have "processes s ! j = idle" using idle nth_mem by blast
      ultimately show ?thesis by (simp add: owns_def idle_def)
    qed simp
    then show ?thesis
      using ok(1) idle none by (simp add: all_answered_def counters_ok_def list_all_iff)
        (simp add: process_defs)
  qed
  then show ?thesis using work_steps_pending [of k s t] pending_bound [of s] by force
qed


subsection \<open>Two identical requests\<close>

text \<open>One slot, two requests for the same key: the first searches, the second waits for its event.\<close>

definition first_arrived :: monitor where
  "first_arrived = put 0 (idle\<lparr>stage := Counted, coalesce_key := ''red cup''\<rparr>) (count_in (service_idle 1 2))"

definition first_owner :: monitor where
  "first_owner = put 0 ((processes first_arrived ! 0)\<lparr>stage := Ready, owned_event := Some (next_event first_arrived)\<rparr>)
     (register_owner (coalesce_key (processes first_arrived ! 0)) first_arrived)"

definition first_searching :: monitor where
  "first_searching = move 0 (Searching True) (take_slot first_owner)"

definition second_arrived :: monitor where
  "second_arrived = put 1 (idle\<lparr>stage := Counted, coalesce_key := ''red cup''\<rparr>) (count_in first_searching)"

definition shared_run :: monitor where
  "shared_run = put 1 ((processes second_arrived ! 1)\<lparr>stage := Waiting 0\<rparr>) second_arrived"

lemmas run_defs = first_arrived_def first_owner_def first_searching_def second_arrived_def shared_run_def
  service_idle_def step_defs idle_def put_def numeral_2_eq_2 update_conv'

lemma shared_run_reach: "service_reach 1 shared_run"
proof -
  have "service_reach 1 first_arrived"
    unfolding first_arrived_def
    by (rule reach_arrival [OF reach_idle]) (rule arrive_plain, simp add: at_stage_def service_idle_def idle_def)
  then have "service_reach 1 first_owner"
    unfolding first_owner_def by (rule reach_work) (rule become_owner; simp add: run_defs)
  then have "service_reach 1 first_searching"
    unfolding first_searching_def by (rule reach_work) (rule search_acquire; simp add: run_defs)
  then have "service_reach 1 second_arrived"
    unfolding second_arrived_def by (rule reach_arrival) (rule arrive_plain; simp add: run_defs)
  then show ?thesis
    unfolding shared_run_def by (rule reach_work) (rule become_waiter; simp add: run_defs)
qed

lemma shared_run_state:
  "processes shared_run = [\<lparr>stage = Searching True, pre_acquired = False, coalesce_key = ''red cup'', owned_event = Some 0\<rparr>,
     \<lparr>stage = Waiting 0, pre_acquired = False, coalesce_key = ''red cup'', owned_event = None\<rparr>]"
  "events_set shared_run = []" "mon_active shared_run = 2"
  by (simp_all add: run_defs)

theorem monitor_counts_requests_witness:
  "mon_active shared_run = 2 \<and> count_of in_run shared_run = 2
     \<and> mon_started shared_run = mon_completed shared_run + mon_failed shared_run + count_of unreported shared_run"
  using monitor_counts_requests [OF shared_run_reach] by (simp add: shared_run_state(3))


theorem requests_drain_witness: "service_reach 1 shared_run \<and> (\<forall>t. \<not> (work ^^ 19) shared_run t)"
proof -
  have "\<not> (work ^^ 19) shared_run t" for t
  proof
    assume "(work ^^ 19) shared_run t"
    then have "19 \<le> 9 * length (processes shared_run)" using requests_drain [OF shared_run_reach, of 19 t] by blast
    then show False by (simp add: shared_run_state(1))
  qed
  then show ?thesis using shared_run_reach by simp
qed

end
