(* ===== verification/Auth_Store.thy ===== *)
theory Auth_Store
  imports Search_Sessions
begin

text \<open>
  \<open>analytics_service/auth.py\<close>: password hashes, and the SQLite store of analytics users, opaque
  sessions and sign-in events. A table is the list of its rows; an instant is a number of
  microseconds; each method is one transaction. \<open>hashlib.scrypt\<close>, SHA-256 of a token, the clock,
  and the random token, salt and user id are arguments. Opening the database and migrating older
  schemas are not modelled.
\<close>

named_theorems auth_facts \<open>facts of the sign-in store\<close>

subsection \<open>Passwords\<close>

type_synonym scrypt = "nat list \<Rightarrow> nat list \<Rightarrow> int \<Rightarrow> int \<Rightarrow> int \<Rightarrow> int \<Rightarrow> nat \<Rightarrow> py_error + nat list"

definition SCRYPT_N :: int where "SCRYPT_N = 2 ^ 15"
definition SCRYPT_R :: int where "SCRYPT_R = 8"
definition SCRYPT_P :: int where "SCRYPT_P = 3"
definition SCRYPT_MAXMEM :: int where "SCRYPT_MAXMEM = 128 * 1024 * 1024"

fun bytes_hex :: "nat list \<Rightarrow> string" where
  "bytes_hex [] = []"
| "bytes_hex (b # bs) = hex_fixed 2 b @ bytes_hex bs"

definition ascii_space :: "char \<Rightarrow> bool" where
  "ascii_space c = (let n = code_of c in (9 \<le> n \<and> n \<le> 13) \<or> n = (32 :: nat))"

text \<open>\<open>bytes.fromhex\<close>; spaces may stand between bytes.\<close>

fun bytes_fromhex :: "string \<Rightarrow> nat list option" where
  "bytes_fromhex [] = Some []"
| "bytes_fromhex (c # cs) =
     (if ascii_space c then bytes_fromhex cs
      else (case cs of
          [] \<Rightarrow> None
        | d # ds \<Rightarrow> (case (hex_value c, hex_value d) of
              (Some h, Some l) \<Rightarrow> map_option ((#) (h * 16 + l)) (bytes_fromhex ds)
            | _ \<Rightarrow> None)))"

text \<open>\<open>s.split(d, k)\<close>\<close>

fun split_max :: "nat \<Rightarrow> char \<Rightarrow> string \<Rightarrow> string list" where
  "split_max 0 d s = [s]"
| "split_max (Suc k) d s =
     (let w = takeWhile (\<lambda>c. c \<noteq> d) s in
      if length w = length s then [s] else w # split_max k d (drop (Suc (length w)) s))"

definition password_hash :: "scrypt \<Rightarrow> nat list \<Rightarrow> string \<Rightarrow> py_error + string" where
  "password_hash scrypt salt password =
     and_then (scrypt (utf8_encode password) salt SCRYPT_N SCRYPT_R SCRYPT_P SCRYPT_MAXMEM 32) (\<lambda>digest.
       Inr (join ''$'' [''scrypt'', show_int SCRYPT_N, show_int SCRYPT_R, show_int SCRYPT_P, bytes_hex salt, bytes_hex digest]))"

definition verify_password :: "scrypt \<Rightarrow> string \<Rightarrow> string \<Rightarrow> py_error + bool" where
  "verify_password scrypt encoded password =
     (case split_max 5 CHR ''$'' encoded of
        [algorithm, raw_n, raw_r, raw_p, raw_salt, raw_digest] \<Rightarrow>
          if algorithm \<noteq> ''scrypt'' then Inr False
          else (case (int_text raw_n, int_text raw_r, int_text raw_p, bytes_fromhex raw_salt, bytes_fromhex raw_digest) of
              (Some n, Some r, Some p, Some salt, Some expected) \<Rightarrow>
                (case scrypt (utf8_encode password) salt n r p SCRYPT_MAXMEM (length expected) of
                   Inr actual \<Rightarrow> Inr (actual = expected)
                 | Inl (ValueError _) \<Rightarrow> Inr False
                 | Inl (TypeError _) \<Rightarrow> Inr False
                 | Inl err \<Rightarrow> Inl err)
            | _ \<Rightarrow> Inr False)
      | _ \<Rightarrow> Inr False)"

definition password_needs_rehash :: "string \<Rightarrow> bool" where
  "password_needs_rehash encoded =
     (let parts = split_max 5 CHR ''$'' encoded
      in length parts \<noteq> 6 \<or> parts ! 0 \<noteq> ''scrypt''
         \<or> take 3 (drop 1 parts) \<noteq> [show_int SCRYPT_N, show_int SCRYPT_R, show_int SCRYPT_P])"

subsection \<open>Rows\<close>

text \<open>A stored instant: the ISO text of one, or a text that does not parse (and sorts low or high).\<close>

datatype stamp = Iso int | Garbled bool

fun stamp_until :: "stamp \<Rightarrow> int \<Rightarrow> bool" where
  "stamp_until (Iso t) now = (t \<le> now)"
| "stamp_until (Garbled low) now = low"

record auth_user =
  us_id :: string
  us_name :: string
  us_normalized :: string
  us_password :: string
  us_role :: string
  us_company :: "string option"
  us_active :: bool
  us_failed :: int
  us_locked_until :: "stamp option"
  us_created :: stamp
  us_updated :: stamp
  us_password_changed :: stamp
  us_last_login :: "stamp option"

record auth_session =
  se_hash :: string
  se_user :: string
  se_portal :: string
  se_role :: string
  se_company :: "string option"
  se_created :: stamp
  se_expires :: stamp
  se_last_seen :: stamp
  se_idle_expires :: stamp
  se_absolute_expires :: stamp
  se_revoked :: "stamp option"

record auth_event =
  ev_user :: "string option"
  ev_name :: string
  ev_company :: "string option"
  ev_type :: string
  ev_remote :: string
  ev_created :: stamp

record auth_db =
  users :: "auth_user list"
  sessions :: "auth_session list"
  events :: "auth_event list"

definition auth_empty :: auth_db where
  "auth_empty = \<lparr>users = [], sessions = [], events = []\<rparr>"

text \<open>The settings, after the defaults of \<open>__init__\<close>; and what a call reads from outside: the
  clock (again, for the event), and the fresh token, salt and user id.\<close>

record auth_config =
  company_idle :: int
  company_absolute :: int
  internal_idle :: int
  internal_absolute :: int
  max_login_attempts :: int
  lock_seconds :: int
  password_min_length :: int
  dummy_hash :: string

definition auth_config_of ::
    "int \<Rightarrow> int option \<Rightarrow> int option \<Rightarrow> int option \<Rightarrow> int option \<Rightarrow> int \<Rightarrow> int \<Rightarrow> int \<Rightarrow> string \<Rightarrow> py_error + auth_config" where
  "auth_config_of ttl ci ca ii ia attempts lock min_length dummy =
     (let pick = (\<lambda>x. case x of None \<Rightarrow> ttl | Some v \<Rightarrow> v);
          bad = (\<lambda>idle absolute. idle \<le> 0 \<or> absolute < idle);
          policy_error = (\<lambda>label. Inl (ValueError (''Invalid '' @ label @ '' analytics session expiration policy'')))
      in if bad (pick ci) (pick ca) then policy_error ''company''
         else if bad (pick ii) (pick ia) then policy_error ''internal''
         else Inr \<lparr>company_idle = pick ci, company_absolute = pick ca, internal_idle = pick ii, internal_absolute = pick ia,
           max_login_attempts = attempts, lock_seconds = lock, password_min_length = min_length, dummy_hash = dummy\<rparr>)"

record auth_env =
  env_now :: int
  env_later :: int
  env_token :: string
  env_salt :: "nat list"
  env_uuid :: string

definition seconds :: "int \<Rightarrow> int" where "seconds n = n * 1000000"

record principal =
  pr_user :: string
  pr_name :: string
  pr_role :: string
  pr_company :: "string option"
  pr_portal :: string
  pr_expires :: stamp
  pr_max_age :: int

definition internal :: "principal \<Rightarrow> bool" where
  "internal p \<longleftrightarrow> pr_role p = ''internal_admin''"


subsection \<open>Users\<close>

text \<open>\<open>repr\<close> of a text without quotes or escapes, for messages.\<close>

definition quoted :: "string \<Rightarrow> string" where
  "quoted s = CHR 0x27 # s @ [CHR 0x27]"

definition normalize_username :: "string \<Rightarrow> py_error + string" where
  "normalize_username username =
     (let normalized = casefold (strip username)
      in if normalized = [] \<or> 191 < length normalized
         then Inl (ValueError ''Username must contain between 1 and 191 characters'') else Inr normalized)"

text \<open>\<open>company_id.strip().casefold() if company_id else None\<close>\<close>

definition normalize_company :: "string option \<Rightarrow> string option" where
  "normalize_company company = (case company of None \<Rightarrow> None | Some c \<Rightarrow> if c = [] then None else Some (casefold (strip c)))"

definition session_policy :: "auth_config \<Rightarrow> string \<Rightarrow> py_error + string \<times> int \<times> int" where
  "session_policy cfg role =
     (if role = ''company_user'' then Inr (''company'', company_idle cfg, company_absolute cfg)
      else if role = ''internal_admin'' then Inr (''internal'', internal_idle cfg, internal_absolute cfg)
      else Inl (ValueError ''Unsupported analytics session role''))"

definition validate_password :: "auth_config \<Rightarrow> string \<Rightarrow> py_error + unit" where
  "validate_password cfg password =
     (if int (length password) < password_min_length cfg
      then Inl (ValueError (''Password must contain at least '' @ show_int (password_min_length cfg) @ '' characters''))
      else if 1024 < length password then Inl (ValueError ''Password is too long'') else Inr ())"

definition validate_binding :: "string \<Rightarrow> string option \<Rightarrow> py_error + string option" where
  "validate_binding role company =
     (let normalized = normalize_company company
      in if role \<notin> {''internal_admin'', ''company_user''} then Inl (ValueError (''Unsupported analytics role '' @ quoted role))
         else if role = ''internal_admin'' \<and> normalized \<noteq> None
         then Inl (ValueError ''Internal users cannot be bound to a company'')
         else if role = ''company_user'' \<and> normalized = None
         then Inl (ValueError ''Company users must be bound to a company'') else Inr normalized)"

text \<open>The primary key and the two unique indexes.\<close>

definition user_clash :: "auth_user \<Rightarrow> auth_user \<Rightarrow> bool" where
  "user_clash u v \<longleftrightarrow> us_id u = us_id v
     \<or> (us_role u = ''internal_admin'' \<and> us_role v = ''internal_admin'' \<and> us_normalized u = us_normalized v)
     \<or> (us_role u = ''company_user'' \<and> us_role v = ''company_user'' \<and> us_company u = us_company v
         \<and> us_normalized u = us_normalized v)"

definition fresh_user ::
    "scrypt \<Rightarrow> auth_config \<Rightarrow> auth_env \<Rightarrow> string \<Rightarrow> string \<Rightarrow> string \<Rightarrow> string option \<Rightarrow> py_error + auth_user" where
  "fresh_user scrypt cfg env username password role company =
     and_then (normalize_username username) (\<lambda>normalized.
     and_then (validate_binding role company) (\<lambda>bound.
     and_then (validate_password cfg password) (\<lambda>_.
     and_then (password_hash scrypt (env_salt env) password) (\<lambda>hash.
       Inr \<lparr>us_id = env_uuid env, us_name = strip username, us_normalized = normalized, us_password = hash,
         us_role = role, us_company = bound, us_active = True, us_failed = 0, us_locked_until = None,
         us_created = Iso (env_now env), us_updated = Iso (env_now env),
         us_password_changed = Iso (env_now env), us_last_login = None\<rparr>))))"

definition create_user ::
    "scrypt \<Rightarrow> auth_config \<Rightarrow> auth_env \<Rightarrow> string \<Rightarrow> string \<Rightarrow> string \<Rightarrow> string option \<Rightarrow> auth_db \<Rightarrow> (py_error + auth_user) \<times> auth_db" where
  "create_user scrypt cfg env username password role company db =
     (case fresh_user scrypt cfg env username password role company of
        Inl err \<Rightarrow> (Inl err, db)
      | Inr u \<Rightarrow>
          if list_ex (user_clash u) (users db) then (Inl (ValueError ''Analytics username already exists''), db)
          else (Inr u, db\<lparr>users := users db @ [u]\<rparr>))"

definition resolve_user_id :: "string \<Rightarrow> string option \<Rightarrow> auth_db \<Rightarrow> py_error + string" where
  "resolve_user_id normalized company db =
     (let rows = filter (\<lambda>u. us_normalized u = normalized \<and> (case company of
            None \<Rightarrow> us_role u = ''internal_admin''
          | Some c \<Rightarrow> us_company u = Some (casefold (strip c)))) (users db)
      in case rows of
           [] \<Rightarrow> Inl (ValueError ''Analytics user does not exist'')
         | [u] \<Rightarrow> Inr (us_id u)
         | _ \<Rightarrow> Inl (ValueError ''Analytics username is ambiguous; specify company_id''))"

definition update_user :: "string \<Rightarrow> (auth_user \<Rightarrow> auth_user) \<Rightarrow> auth_db \<Rightarrow> auth_db" where
  "update_user uid f db = db\<lparr>users := map (\<lambda>u. if us_id u = uid then f u else u) (users db)\<rparr>"

definition update_session :: "(auth_session \<Rightarrow> bool) \<Rightarrow> (auth_session \<Rightarrow> auth_session) \<Rightarrow> auth_db \<Rightarrow> auth_db" where
  "update_session P f db = db\<lparr>sessions := map (\<lambda>s. if P s then f s else s) (sessions db)\<rparr>"

definition revoke_user :: "string \<Rightarrow> int \<Rightarrow> auth_db \<Rightarrow> auth_db" where
  "revoke_user uid now = update_session (\<lambda>s. se_user s = uid \<and> se_revoked s = None) (\<lambda>s. s\<lparr>se_revoked := Some (Iso now)\<rparr>)"

definition set_password ::
    "scrypt \<Rightarrow> auth_config \<Rightarrow> auth_env \<Rightarrow> string \<Rightarrow> string \<Rightarrow> string option \<Rightarrow> auth_db \<Rightarrow> (py_error + string) \<times> auth_db" where
  "set_password scrypt cfg env username password company db =
     (case and_then (normalize_username username) (\<lambda>normalized.
           and_then (validate_password cfg password) (\<lambda>_.
           and_then (password_hash scrypt (env_salt env) password) (\<lambda>hash.
           and_then (resolve_user_id normalized company db) (\<lambda>uid. Inr (hash, uid))))) of
        Inl err \<Rightarrow> (Inl err, db)
      | Inr (hash, uid) \<Rightarrow>
          (Inr uid, revoke_user uid (env_now env) (update_user uid (\<lambda>u. u\<lparr>us_password := hash,
             us_password_changed := Iso (env_now env), us_updated := Iso (env_now env), us_failed := 0,
             us_locked_until := None\<rparr>) db)))"

definition set_active ::
    "auth_env \<Rightarrow> string \<Rightarrow> bool \<Rightarrow> string option \<Rightarrow> auth_db \<Rightarrow> (py_error + string) \<times> auth_db" where
  "set_active env username active company db =
     (case and_then (normalize_username username) (\<lambda>normalized. resolve_user_id normalized company db) of
        Inl err \<Rightarrow> (Inl err, db)
      | Inr uid \<Rightarrow>
          (let db' = update_user uid (\<lambda>u. u\<lparr>us_active := active, us_updated := Iso (env_now env)\<rparr>) db
           in (Inr uid, if active then db' else revoke_user uid (env_now env) db')))"

subsection \<open>Signing in\<close>

definition add_event :: "auth_user option \<Rightarrow> string \<Rightarrow> string \<Rightarrow> string option \<Rightarrow> int \<Rightarrow> auth_db \<Rightarrow> auth_db" where
  "add_event row username event remote at_time db = db\<lparr>events := events db @
     [\<lparr>ev_user = map_option us_id row, ev_name = username, ev_company = Option.bind row us_company, ev_type = event,
       ev_remote = take 191 (case remote of None \<Rightarrow> [] | Some a \<Rightarrow> a), ev_created = Iso at_time\<rparr>]\<rparr>"

definition find_login :: "string \<Rightarrow> string option \<Rightarrow> string option \<Rightarrow> auth_db \<Rightarrow> auth_user option" where
  "find_login normalized role company db =
     (case filter (\<lambda>u. us_normalized u = normalized \<and> (role = None \<or> us_role u = the role)
                  \<and> (company = None \<or> us_company u = company)) (users db) of
        [u] \<Rightarrow> Some u | _ \<Rightarrow> None)"

definition user_locked :: "int \<Rightarrow> auth_user \<Rightarrow> bool" where
  "user_locked now u = (case us_locked_until u of None \<Rightarrow> False | Some (Iso t) \<Rightarrow> now < t | Some (Garbled _) \<Rightarrow> True)"

text \<open>A wrong password of an active and unlocked account counts, and locks it at the limit.\<close>

definition failed_login :: "auth_config \<Rightarrow> int \<Rightarrow> auth_user \<Rightarrow> auth_user" where
  "failed_login cfg now u =
     (let failed = us_failed u + 1
      in u\<lparr>us_failed := failed,
           us_locked_until := (if max_login_attempts cfg \<le> failed then Some (Iso (now + seconds (lock_seconds cfg))) else None),
           us_updated := Iso now\<rparr>)"

definition reject_login ::
    "auth_config \<Rightarrow> auth_env \<Rightarrow> string \<Rightarrow> string option \<Rightarrow> auth_user option \<Rightarrow> bool \<Rightarrow> auth_db \<Rightarrow> auth_db" where
  "reject_login cfg env normalized remote row verified db =
     (case row of
        None \<Rightarrow> add_event None normalized ''login_rejected'' remote (env_later env) db
      | Some u \<Rightarrow>
          if \<not> user_locked (env_now env) u \<and> us_active u \<and> \<not> verified
          then add_event row normalized
                 (if max_login_attempts cfg \<le> us_failed u + 1 then ''account_locked'' else ''login_rejected'') remote
                 (env_later env) (update_user (us_id u) (failed_login cfg (env_now env)) db)
          else add_event row normalized ''login_rejected'' remote (env_later env) db)"

definition max_age :: "int \<Rightarrow> int \<Rightarrow> int" where
  "max_age expires now = max 0 (- ((now - expires) div 1000000))"

definition principal_of :: "auth_user \<Rightarrow> string \<Rightarrow> int \<Rightarrow> int \<Rightarrow> principal" where
  "principal_of u portal expires now = \<lparr>pr_user = us_id u, pr_name = us_name u, pr_role = us_role u,
     pr_company = us_company u, pr_portal = portal, pr_expires = Iso expires, pr_max_age = max_age expires now\<rparr>"

definition new_session :: "string \<Rightarrow> auth_user \<Rightarrow> string \<Rightarrow> int \<Rightarrow> int \<Rightarrow> int \<Rightarrow> auth_session" where
  "new_session hash u portal idle absolute now =
     \<lparr>se_hash = hash, se_user = us_id u, se_portal = portal, se_role = us_role u, se_company = us_company u,
       se_created = Iso now, se_expires = Iso (min (now + seconds idle) (now + seconds absolute)), se_last_seen = Iso now,
       se_idle_expires = Iso (now + seconds idle), se_absolute_expires = Iso (now + seconds absolute), se_revoked = None\<rparr>"


text \<open>The rest of the transaction of an accepted sign-in; an error rolls it back.\<close>

definition sign_in ::
    "scrypt \<Rightarrow> (string \<Rightarrow> string) \<Rightarrow> auth_config \<Rightarrow> auth_env \<Rightarrow> string \<Rightarrow> string \<Rightarrow> string option \<Rightarrow> auth_user \<Rightarrow> auth_db
      \<Rightarrow> py_error + (string \<times> principal) \<times> auth_db" where
  "sign_in scrypt sha256 cfg env normalized password remote u db =
     (let now = env_now env
      in and_then (if password_needs_rehash (us_password u)
             then and_then (password_hash scrypt (env_salt env) password) (\<lambda>h.
               Inr (update_user (us_id u) (\<lambda>u. u\<lparr>us_password := h, us_password_changed := Iso now\<rparr>) db))
             else Inr db) (\<lambda>db1.
         and_then (session_policy cfg (us_role u)) (\<lambda>(portal, idle, absolute).
           (let db2 = update_user (us_id u) (\<lambda>u. u\<lparr>us_failed := 0, us_locked_until := None,
                  us_last_login := Some (Iso now), us_updated := Iso now\<rparr>) db1;
                session = new_session (sha256 (env_token env)) u portal idle absolute now
            in if se_hash session \<in> set (map se_hash (sessions db2))
               then Inl (OtherError ''UNIQUE constraint failed: analytics_sessions.session_hash'')
               else Inr ((env_token env, principal_of u portal (min (now + seconds idle) (now + seconds absolute)) now),
                 add_event (Some u) normalized ''login_success'' remote (env_later env)
                   (db2\<lparr>sessions := sessions db2 @ [session]\<rparr>))))))"

definition authenticate ::
    "scrypt \<Rightarrow> (string \<Rightarrow> string) \<Rightarrow> auth_config \<Rightarrow> auth_env \<Rightarrow> string \<Rightarrow> string \<Rightarrow> string option \<Rightarrow> string option \<Rightarrow> string option
      \<Rightarrow> auth_db \<Rightarrow> (py_error + (string \<times> principal) option) \<times> auth_db" where
  "authenticate scrypt sha256 cfg env username password required_role required_company remote db =
     (let company = normalize_company required_company
      in if required_role \<notin> {None, Some ''internal_admin'', Some ''company_user''}
         then (Inl (ValueError ''Unsupported required analytics role''), db)
         else if company \<noteq> None \<and> required_role \<noteq> Some ''company_user''
         then (Inl (ValueError ''Company-bound authentication requires company_user role''), db)
         else
           (let normalized = (case normalize_username username of Inl _ \<Rightarrow> [] | Inr n \<Rightarrow> n);
                row = find_login normalized required_role company db
            in case verify_password scrypt (case row of None \<Rightarrow> dummy_hash cfg | Some u \<Rightarrow> us_password u) password of
                 Inl err \<Rightarrow> (Inl err, db)
               | Inr verified \<Rightarrow>
                   (case row of
                      None \<Rightarrow> (Inr None, reject_login cfg env normalized remote row verified db)
                    | Some u \<Rightarrow>
                        if \<not> us_active u \<or> user_locked (env_now env) u \<or> \<not> verified
                           \<or> \<not> (required_role = None \<or> required_role = Some (us_role u))
                        then (Inr None, reject_login cfg env normalized remote row verified db)
                        else (case sign_in scrypt sha256 cfg env normalized password remote u db of
                            Inl err \<Rightarrow> (Inl err, db)
                          | Inr (answer, db') \<Rightarrow> (Inr (Some answer), db')))))"

subsection \<open>Sessions\<close>

text \<open>A session joined with its user.\<close>

definition session_row :: "string \<Rightarrow> auth_db \<Rightarrow> (auth_session \<times> auth_user) option" where
  "session_row hash db =
     (case find (\<lambda>s. se_hash s = hash) (sessions db) of
        None \<Rightarrow> None
      | Some s \<Rightarrow> (case find (\<lambda>u. us_id u = se_user s) (users db) of None \<Rightarrow> None | Some u \<Rightarrow> Some (s, u)))"

definition resolve_session ::
    "(string \<Rightarrow> string) \<Rightarrow> auth_config \<Rightarrow> auth_env \<Rightarrow> string option \<Rightarrow> string option \<Rightarrow> auth_db \<Rightarrow> (py_error + principal option) \<times> auth_db" where
  "resolve_session sha256 cfg env token portal db =
     (let now = env_now env; none = (Inr None, db)
      in case token of
           None \<Rightarrow> none
         | Some tok \<Rightarrow>
             if tok = [] then none
             else (case session_row (sha256 tok) db of
                 None \<Rightarrow> none
               | Some (s, u) \<Rightarrow>
                   if \<not> us_active u \<or> se_revoked s \<noteq> None \<or> se_role s \<noteq> us_role u \<or> se_company s \<noteq> us_company u then none
                   else (case (se_idle_expires s, se_absolute_expires s) of
                       (Iso idle_expires, Iso absolute_expires) \<Rightarrow>
                         (case session_policy cfg (us_role u) of
                            Inl err \<Rightarrow> (Inl err, db)
                          | Inr (expected, idle, _) \<Rightarrow>
                              if se_portal s \<noteq> expected \<or> (portal \<noteq> None \<and> portal \<noteq> Some (se_portal s))
                                 \<or> idle_expires \<le> now \<or> absolute_expires \<le> now then none
                              else (let refreshed = min (now + seconds idle) absolute_expires;
                                        expires = min refreshed absolute_expires
                                    in (Inr (Some (principal_of u (se_portal s) expires now)),
                                        update_session (\<lambda>s. se_hash s = sha256 tok)
                                          (\<lambda>s. s\<lparr>se_last_seen := Iso now, se_idle_expires := Iso refreshed, se_expires := Iso expires\<rparr>) db)))
                     | _ \<Rightarrow> none)))"

definition revoke_session ::
    "(string \<Rightarrow> string) \<Rightarrow> auth_env \<Rightarrow> string option \<Rightarrow> string option \<Rightarrow> string option \<Rightarrow> auth_db \<Rightarrow> auth_db" where
  "revoke_session sha256 env token portal remote db =
     (case token of
        None \<Rightarrow> db
      | Some tok \<Rightarrow>
          if tok = [] then db
          else (let row = session_row (sha256 tok) db;
                    revoked = update_session (\<lambda>s. se_hash s = sha256 tok \<and> se_revoked s = None)
                      (\<lambda>s. s\<lparr>se_revoked := Some (Iso (env_now env))\<rparr>) db
                in case row of
                     None \<Rightarrow> revoked
                   | Some (s, u) \<Rightarrow>
                       if portal \<noteq> None \<and> portal \<noteq> Some (se_portal s) then db
                       else add_event (Some u) (us_normalized u) ''logout'' remote (env_later env) revoked))"

definition prune_expired_sessions :: "auth_env \<Rightarrow> auth_db \<Rightarrow> int \<times> auth_db" where
  "prune_expired_sessions env db =
     (let now = env_now env;
          keep = filter (\<lambda>s. \<not> (stamp_until (se_idle_expires s) now \<or> stamp_until (se_absolute_expires s) now
                                \<or> se_revoked s \<noteq> None)) (sessions db)
      in (int (length (sessions db)) - int (length keep), db\<lparr>sessions := keep\<rparr>))"


subsection \<open>A password hash verifies its own password\<close>

lemma bytes_fromhex_hex: "list_all (\<lambda>b. b < 256) bs \<Longrightarrow> bytes_fromhex (bytes_hex bs) = Some bs"
proof (induction bs)
  case (Cons b bs)
  have d: "b div 16 < 16" "b mod 16 < 16" using Cons.prems by auto
  have h: "\<not> ascii_space (hex_char x)" if "x < 16" for x
    using that hex_char_code [of x] by (auto simp: ascii_space_def Let_def split: if_splits)
  have "hex_fixed 2 b = [hex_char (b div 16), hex_char (b mod 16)]" using d(1) by (simp add: numeral_2_eq_2)
  moreover have "b div 16 * 16 + b mod 16 = b" by simp
  ultimately show ?case using Cons h [OF d(1)] hex_value_char [OF d(1)] hex_value_char [OF d(2)] by simp
qed simp

lemma split_max_last: "d \<notin> set s \<Longrightarrow> split_max k d s = [s]"
proof (cases k)
  case (Suc j)
  assume "d \<notin> set s"
  then have "takeWhile (\<lambda>c. c \<noteq> d) s = s" by (auto simp: takeWhile_eq_all_conv)
  then show ?thesis by (simp only: Suc split_max.simps Let_def refl if_True)
qed simp

lemma split_max_cons: "d \<notin> set w \<Longrightarrow> split_max (Suc k) d (w @ d # t) = w # split_max k d t"
  by (simp add: takeWhile_append2 takeWhile_append)


text \<open>\<open>scrypt\<close> returns as many bytes as it is asked for.\<close>

definition scrypt_sized :: "scrypt \<Rightarrow> bool" where
  "scrypt_sized sc \<longleftrightarrow> (\<forall>pw salt n r p m k. \<exists>d. sc pw salt n r p m k = Inr d \<and> length d = k \<and> list_all (\<lambda>b. b < 256) d)"

lemma hex_no_dollar: "CHR ''$'' \<notin> set (bytes_hex bs)"
proof (induction bs)
  case (Cons b bs)
  have "CHR ''$'' \<notin> set (hex_fixed 2 b)" by (rule hex_not_in) simp
  then show ?case using Cons by simp
qed simp

lemma show_no_dollar: "0 \<le> i \<Longrightarrow> CHR ''$'' \<notin> set (show_int i)"
  using show_nat_digits by (fastforce simp: show_int_def is_digit_def)

lemma split_hash:
  assumes "0 \<le> n" "0 \<le> r" "0 \<le> p"
  shows "split_max 5 CHR ''$'' (join ''$'' [''scrypt'', show_int n, show_int r, show_int p, bytes_hex salt, bytes_hex digest])
     = [''scrypt'', show_int n, show_int r, show_int p, bytes_hex salt, bytes_hex digest]"
proof -
  have five: "(5 :: nat) = Suc (Suc (Suc (Suc (Suc 0))))" by simp
  have "CHR ''$'' \<notin> set ''scrypt''" by simp
  then show ?thesis
    unfolding five join.simps append_Cons append_Nil
    using split_max_cons [of "CHR ''$''" "''scrypt''"]
    by (simp only: append.assoc append_Cons append_Nil split_max_cons split_max_last show_no_dollar [OF assms(1)]
        show_no_dollar [OF assms(2)] show_no_dollar [OF assms(3)] hex_no_dollar not_False_eq_True)
qed

lemma hash_params [simp]: "0 \<le> SCRYPT_N" "0 \<le> SCRYPT_R" "0 \<le> SCRYPT_P"
  by (simp_all add: SCRYPT_N_def SCRYPT_R_def SCRYPT_P_def)

lemma verify_own_hash [auth_facts]:
  assumes "scrypt_sized sc" and "list_all (\<lambda>b. b < 256) salt" and "password_hash sc salt pw = Inr h"
  shows "verify_password sc h q = Inr (sc (utf8_encode q) salt SCRYPT_N SCRYPT_R SCRYPT_P SCRYPT_MAXMEM 32
           = sc (utf8_encode pw) salt SCRYPT_N SCRYPT_R SCRYPT_P SCRYPT_MAXMEM 32)
     \<and> \<not> password_needs_rehash h"
proof -
  obtain digest where d: "sc (utf8_encode pw) salt SCRYPT_N SCRYPT_R SCRYPT_P SCRYPT_MAXMEM 32 = Inr digest"
      "length digest = 32" "list_all (\<lambda>b. b < 256) digest"
    using assms(1) unfolding scrypt_sized_def by blast
  obtain digest' where d': "sc (utf8_encode q) salt SCRYPT_N SCRYPT_R SCRYPT_P SCRYPT_MAXMEM 32 = Inr digest'"
    using assms(1) unfolding scrypt_sized_def by blast
  have h: "h = join ''$'' [''scrypt'', show_int SCRYPT_N, show_int SCRYPT_R, show_int SCRYPT_P, bytes_hex salt, bytes_hex digest]"
    using assms(3) by (simp only: password_hash_def d(1) and_then_simps sum.inject)
  have parts: "split_max 5 CHR ''$'' h =
      [''scrypt'', show_int SCRYPT_N, show_int SCRYPT_R, show_int SCRYPT_P, bytes_hex salt, bytes_hex digest]"
    unfolding h by (rule split_hash) simp_all
  show ?thesis
    unfolding verify_password_def password_needs_rehash_def Let_def parts
    by (simp add: int_text_show bytes_fromhex_hex assms(2) d d' eq_commute)
qed

lemma password_hash_some [auth_facts]:
  assumes "scrypt_sized sc" and "list_all (\<lambda>b. b < 256) salt"
  shows "\<exists>h. password_hash sc salt pw = Inr h \<and> verify_password sc h pw = Inr True \<and> \<not> password_needs_rehash h"
proof -
  obtain digest where "sc (utf8_encode pw) salt SCRYPT_N SCRYPT_R SCRYPT_P SCRYPT_MAXMEM 32 = Inr digest"
    using assms(1) unfolding scrypt_sized_def by blast
  then obtain h where "password_hash sc salt pw = Inr h" by (simp add: password_hash_def)
  then show ?thesis using verify_own_hash [OF assms] by simp
qed

theorem password_reads_back:
  assumes "scrypt_sized sc" and "list_all (\<lambda>b. b < 256) salt"
  shows "\<exists>h. password_hash sc salt pw = Inr h \<and> verify_password sc h pw = Inr True \<and> \<not> password_needs_rehash h
     \<and> (verify_password sc h q = Inr True \<longleftrightarrow>
         sc (utf8_encode q) salt SCRYPT_N SCRYPT_R SCRYPT_P SCRYPT_MAXMEM 32
         = sc (utf8_encode pw) salt SCRYPT_N SCRYPT_R SCRYPT_P SCRYPT_MAXMEM 32)"
  using password_hash_some [OF assms, of pw] verify_own_hash [OF assms, of pw] by auto

text \<open>A stand-in for \<open>scrypt\<close>: the password's bytes, padded to the length.\<close>

definition sample_scrypt :: scrypt where
  "sample_scrypt pw salt n r p m k = Inr (map (\<lambda>b. b mod 256) (take k (pw @ replicate k 0)))"

lemma sample_scrypt_sized: "scrypt_sized sample_scrypt"
  unfolding scrypt_sized_def sample_scrypt_def by (auto simp: list_all_iff)

theorem password_reads_back_witness:
  "\<exists>h. password_hash sample_scrypt [7] ''secret'' = Inr h \<and> verify_password sample_scrypt h ''secret'' = Inr True
     \<and> verify_password sample_scrypt h ''Secret'' \<noteq> Inr True"
  using password_reads_back [OF sample_scrypt_sized, of "[7]" "''secret''" "''Secret''"]
  by (auto simp: sample_scrypt_def utf8_encode_def)

end
