(* ===== verification/Auth_Sessions.thy ===== *)
theory Auth_Sessions
  imports Auth_Store
begin

text \<open>
  The sign-in store under any sequence of operations: its table invariants, and the machine of
  grants that its sessions implement. A grant is what a login gave and nothing has taken away.
\<close>

subsection \<open>Operations\<close>

datatype auth_op =
    Create auth_env string string string "string option"
  | Password auth_env string string "string option"
  | Active auth_env string bool "string option"
  | Login auth_env string string "string option" "string option" "string option"
  | Resolve auth_env "string option" "string option"
  | Logout auth_env "string option" "string option" "string option"
  | Prune auth_env

datatype auth_answer = Failed py_error | User string | Signed "(string \<times> principal) option" | Who "principal option" | Quiet

text \<open>The functions and settings that the store is opened with.\<close>

record auth_setup =
  scrypt_of :: scrypt
  sha_of :: "string \<Rightarrow> string"
  config_of :: auth_config

fun answer_of :: "('a \<Rightarrow> auth_answer) \<Rightarrow> (py_error + 'a) \<times> auth_db \<Rightarrow> auth_answer \<times> auth_db" where
  "answer_of f (Inl err, db) = (Failed err, db)"
| "answer_of f (Inr x, db) = (f x, db)"

fun auth_step :: "auth_setup \<Rightarrow> auth_op \<Rightarrow> auth_db \<Rightarrow> auth_answer \<times> auth_db" where
  "auth_step w (Create env name pw role company) db =
     answer_of (\<lambda>u. User (us_id u)) (create_user (scrypt_of w) (config_of w) env name pw role company db)"
| "auth_step w (Password env name pw company) db =
     answer_of User (set_password (scrypt_of w) (config_of w) env name pw company db)"
| "auth_step w (Active env name active company) db = answer_of User (set_active env name active company db)"
| "auth_step w (Login env name pw role company remote) db =
     answer_of Signed (authenticate (scrypt_of w) (sha_of w) (config_of w) env name pw role company remote db)"
| "auth_step w (Resolve env token portal) db =
     answer_of Who (resolve_session (sha_of w) (config_of w) env token portal db)"
| "auth_step w (Logout env token portal remote) db = (Quiet, revoke_session (sha_of w) env token portal remote db)"
| "auth_step w (Prune env) db = (Quiet, snd (prune_expired_sessions env db))"

fun auth_run :: "auth_setup \<Rightarrow> auth_op list \<Rightarrow> auth_db \<Rightarrow> (auth_op \<times> auth_answer) list \<times> auth_db" where
  "auth_run w [] db = ([], db)"
| "auth_run w (x # xs) db =
     (let (a, db1) = auth_step w x db; (rest, db2) = auth_run w xs db1 in ((x, a) # rest, db2))"

subsection \<open>Grants\<close>

record grant =
  g_user :: string
  g_name :: string
  g_role :: string
  g_company :: "string option"
  g_portal :: string
  g_idle_until :: int
  g_until :: int

type_synonym grants = "string \<Rightarrow> grant option"

definition idle_of :: "auth_config \<Rightarrow> string \<Rightarrow> int" where
  "idle_of cfg role = seconds (if role = ''company_user'' then company_idle cfg else internal_idle cfg)"

definition absolute_of :: "auth_config \<Rightarrow> string \<Rightarrow> int" where
  "absolute_of cfg role = seconds (if role = ''company_user'' then company_absolute cfg else internal_absolute cfg)"

definition portal_of :: "string \<Rightarrow> string" where
  "portal_of role = (if role = ''company_user'' then ''company'' else ''internal'')"

definition login_grant :: "auth_config \<Rightarrow> int \<Rightarrow> principal \<Rightarrow> grant" where
  "login_grant cfg now p = \<lparr>g_user = pr_user p, g_name = pr_name p, g_role = pr_role p, g_company = pr_company p,
     g_portal = portal_of (pr_role p), g_idle_until = now + idle_of cfg (pr_role p), g_until = now + absolute_of cfg (pr_role p)\<rparr>"

text \<open>A grant opens the portal of its role until it idles out or ends; each use renews it.\<close>

definition grant_open :: "int \<Rightarrow> string option \<Rightarrow> grant \<Rightarrow> bool" where
  "grant_open now portal g \<longleftrightarrow> (portal = None \<or> portal = Some (g_portal g)) \<and> now < g_idle_until g \<and> now < g_until g"

definition renewed :: "auth_config \<Rightarrow> int \<Rightarrow> grant \<Rightarrow> grant" where
  "renewed cfg now g = g\<lparr>g_idle_until := min (now + idle_of cfg (g_role g)) (g_until g)\<rparr>"

definition grant_principal :: "int \<Rightarrow> grant \<Rightarrow> principal" where
  "grant_principal now g = \<lparr>pr_user = g_user g, pr_name = g_name g, pr_role = g_role g, pr_company = g_company g,
     pr_portal = g_portal g, pr_expires = Iso (g_idle_until g), pr_max_age = max_age (g_idle_until g) now\<rparr>"

definition drop_user :: "string \<Rightarrow> grants \<Rightarrow> grants" where
  "drop_user uid G h = (case G h of None \<Rightarrow> None | Some g \<Rightarrow> if g_user g = uid then None else Some g)"

definition grant_lookup :: "auth_setup \<Rightarrow> int \<Rightarrow> string option \<Rightarrow> string option \<Rightarrow> grants \<Rightarrow> grant option" where
  "grant_lookup w now token portal G = (case token of None \<Rightarrow> None | Some tok \<Rightarrow> if tok = [] then None else
     (case G (sha_of w tok) of None \<Rightarrow> None | Some g \<Rightarrow> if grant_open now portal g then Some (renewed (config_of w) now g) else None))"

fun grant_step :: "auth_setup \<Rightarrow> auth_op \<times> auth_answer \<Rightarrow> grants \<Rightarrow> grants" where
  "grant_step w (Password env name pw company, User uid) G = drop_user uid G"
| "grant_step w (Active env name active company, User uid) G = (if active then G else drop_user uid G)"
| "grant_step w (Login env name pw role company remote, Signed (Some (tok, p))) G =
     G(sha_of w tok \<mapsto> login_grant (config_of w) (env_now env) p)"
| "grant_step w (Resolve env token portal, a) G =
     (case grant_lookup w (env_now env) token portal G of None \<Rightarrow> G | Some g \<Rightarrow> G(sha_of w (the token) \<mapsto> g))"
| "grant_step w (Logout env token portal remote, a) G =
     (case token of None \<Rightarrow> G | Some tok \<Rightarrow>
        (case G (sha_of w tok) of None \<Rightarrow> G | Some g \<Rightarrow>
           if tok = [] \<or> (portal \<noteq> None \<and> portal \<noteq> Some (g_portal g)) then G else G(sha_of w tok := None)))"
| "grant_step w (Prune env, a) G =
     (\<lambda>h. case G h of None \<Rightarrow> None | Some g \<Rightarrow>
        if env_now env < g_idle_until g \<and> env_now env < g_until g then Some g else None)"
| "grant_step w _ G = G"

fun grant_run :: "auth_setup \<Rightarrow> (auth_op \<times> auth_answer) list \<Rightarrow> grants \<Rightarrow> grants" where
  "grant_run w [] G = G"
| "grant_run w (x # xs) G = grant_run w xs (grant_step w x G)"

text \<open>The grants that the tables hold.\<close>

fun instant :: "stamp \<Rightarrow> int" where
  "instant (Iso t) = t"
| "instant (Garbled low) = 0"

definition grants_of :: "auth_db \<Rightarrow> grants" where
  "grants_of db h = (case session_row h db of None \<Rightarrow> None | Some (s, u) \<Rightarrow>
     if se_revoked s = None then Some \<lparr>g_user = us_id u, g_name = us_name u, g_role = us_role u, g_company = us_company u,
       g_portal = se_portal s, g_idle_until = instant (se_idle_expires s), g_until = instant (se_absolute_expires s)\<rparr>
     else None)"

subsection \<open>Rows after an update\<close>

lemma find_map_same: "(\<And>x. x \<in> set xs \<Longrightarrow> P (f x) = P x) \<Longrightarrow> find P (map f xs) = map_option f (find P xs)"
  by (induction xs) auto

lemma find_append: "find P (xs @ ys) = (case find P xs of None \<Rightarrow> find P ys | Some x \<Rightarrow> Some x)"
  by (induction xs) auto

lemma find_distinct: "distinct (map f xs) \<Longrightarrow> x \<in> set xs \<Longrightarrow> find (\<lambda>y. f y = f x) xs = Some x"
  by (induction xs) (auto simp: image_iff)

lemma session_row_update_user [simp]:
  assumes "\<And>u. us_id (f u) = us_id u"
  shows "session_row h (update_user uid f db) =
     map_option (\<lambda>(s, u). (s, if us_id u = uid then f u else u)) (session_row h db)"
  using assms by (auto simp: session_row_def update_user_def find_map_same split: option.split)

lemma session_row_update_session [simp]:
  assumes "\<And>s. se_hash (f s) = se_hash s" and "\<And>s. se_user (f s) = se_user s"
  shows "session_row h (update_session P f db) = map_option (\<lambda>(s, u). (if P s then f s else s, u)) (session_row h db)"
  using assms by (auto simp: session_row_def update_session_def find_map_same split: option.split)

lemma session_row_event [simp]: "session_row h (add_event row n e r t db) = session_row h db"
  by (simp add: session_row_def add_event_def split: option.split)

lemma session_row_SomeD:
  assumes "session_row h db = Some (s, u)"
  shows "s \<in> set (sessions db)" "se_hash s = h" "u \<in> set (users db)" "us_id u = se_user s"
  using assms by (auto simp: session_row_def dest!: find_SomeD split: option.splits)

lemma session_row_new:
  assumes "se_hash s \<notin> set (map se_hash (sessions db))"
  shows "session_row h (db\<lparr>sessions := sessions db @ [s]\<rparr>) =
     (if h = se_hash s then (case find (\<lambda>u. us_id u = se_user s) (users db) of None \<Rightarrow> None | Some u \<Rightarrow> Some (s, u))
      else session_row h db)"
proof -
  have "find (\<lambda>x. se_hash x = se_hash s) (sessions db) = None"
    using assms by (auto simp: find_None_iff image_iff)
  then show ?thesis by (auto simp: session_row_def find_append split: option.split)
qed


subsection \<open>The tables stay sound\<close>

definition user_ok :: "auth_user \<Rightarrow> bool" where
  "user_ok u \<longleftrightarrow> us_normalized u \<noteq> []
     \<and> ((us_role u = ''internal_admin'' \<and> us_company u = None) \<or> (us_role u = ''company_user'' \<and> us_company u \<noteq> None))"

definition users_ok :: "auth_db \<Rightarrow> bool" where
  "users_ok db \<longleftrightarrow> distinct (map us_id (users db)) \<and> (\<forall>u \<in> set (users db). user_ok u)
     \<and> (\<forall>u \<in> set (users db). \<forall>v \<in> set (users db). user_clash u v \<longrightarrow> u = v)"

definition session_ok :: "auth_db \<Rightarrow> auth_session \<Rightarrow> bool" where
  "session_ok db s \<longleftrightarrow> (\<exists>u \<in> set (users db). us_id u = se_user s \<and> se_role s = us_role u \<and> se_company s = us_company u
     \<and> se_portal s = portal_of (us_role u) \<and> (se_revoked s = None \<longrightarrow> us_active u))
     \<and> se_idle_expires s \<in> range Iso \<and> se_absolute_expires s \<in> range Iso"

definition session_rows_ok :: "auth_db \<Rightarrow> bool" where
  "session_rows_ok db \<longleftrightarrow> distinct (map se_hash (sessions db)) \<and> (\<forall>s \<in> set (sessions db). session_ok db s)"

definition auth_ok :: "auth_db \<Rightarrow> bool" where
  "auth_ok db \<longleftrightarrow> users_ok db \<and> session_rows_ok db"

text \<open>An update that keeps who a user is.\<close>

definition same_identity :: "auth_user \<Rightarrow> auth_user \<Rightarrow> bool" where
  "same_identity u v \<longleftrightarrow> us_id u = us_id v \<and> us_role u = us_role v \<and> us_company u = us_company v
     \<and> us_normalized u = us_normalized v \<and> us_name u = us_name v"

lemma users_ok_update:
  assumes "users_ok db" and "\<And>u. same_identity (f u) u"
  shows "users_ok (update_user uid f db)"
proof -
  define g where "g u = (if us_id u = uid then f u else u)" for u
  have same: "same_identity (g u) u" for u using assms(2) by (simp add: same_identity_def g_def)
  then have ids: "map us_id (map g (users db)) = map us_id (users db)" by (simp add: same_identity_def)
  have ok: "user_ok (g u) = user_ok u" for u using same [of u] by (simp add: user_ok_def same_identity_def)
  have clash: "user_clash (g u) (g v) = user_clash u v" for u v
    using same [of u] same [of v] by (simp only: user_clash_def same_identity_def)
  have "users (update_user uid f db) = map g (users db)" by (simp add: update_user_def g_def)
  then show ?thesis
    using assms(1) unfolding users_ok_def ids by (simp add: ids ok clash del: map_map) blast
qed

lemma user_same [simp]: "users (update_session P f db) = users db" "users (add_event row n e r t db) = users db"
  "sessions (update_user uid g db) = sessions db" "sessions (add_event row n e r t db) = sessions db"
  by (simp_all add: update_session_def add_event_def update_user_def)

text \<open>What sessions need of their users.\<close>

lemma session_rows_ok_update:
  assumes "session_rows_ok db" and "\<And>u. same_identity (f u) u"
    and "\<And>s u. s \<in> set (sessions db) \<Longrightarrow> u \<in> set (users db) \<Longrightarrow> us_id u = uid \<Longrightarrow> us_id u = se_user s \<Longrightarrow> us_active u
      \<Longrightarrow> us_active (f u) \<or> se_revoked s \<noteq> None"
  shows "session_rows_ok (update_user uid f db)"
proof -
  define g where "g u = (if us_id u = uid then f u else u)" for u
  have same: "same_identity (g u) u" for u using assms(2) by (simp add: same_identity_def g_def)
  have "session_ok (update_user uid f db) s" if s: "s \<in> set (sessions db)" for s
  proof -
    have ok: "session_ok db s" using assms(1) s by (simp add: session_rows_ok_def)
    then obtain u where u: "u \<in> set (users db)" "us_id u = se_user s" "se_role s = us_role u" "se_company s = us_company u"
      "se_portal s = portal_of (us_role u)" "se_revoked s = None \<longrightarrow> us_active u" by (auto simp: session_ok_def)
    have "g u \<in> set (users (update_user uid f db))" using u(1) by (auto simp: update_user_def g_def)
    moreover have "se_revoked s = None \<longrightarrow> us_active (g u)" using assms(3) [OF s u(1)] u(2,6) by (auto simp: g_def)
    moreover have "us_id (g u) = se_user s" "us_role (g u) = us_role u" "us_company (g u) = us_company u"
      using same [of u] u(2) by (simp_all add: same_identity_def)
    ultimately show ?thesis using ok u(3-5) unfolding session_ok_def by (intro conjI bexI [of _ "g u"]) simp_all
  qed
  then show ?thesis using assms(1) by (simp add: session_rows_ok_def)
qed

lemma session_rows_ok_sessions:
  assumes "session_rows_ok db" and "\<And>s. se_hash (f s) = se_hash s"
    and "\<And>s. session_ok db s \<Longrightarrow> P s \<Longrightarrow> session_ok db (f s)"
  shows "session_rows_ok (update_session P f db)"
proof -
  define g where "g s = (if P s then f s else s)" for s
  have ids: "map se_hash (map g (sessions db)) = map se_hash (sessions db)" using assms(2) by (simp add: g_def)
  have keep: "session_ok db s \<Longrightarrow> session_ok db (g s)" for s using assms(3) by (simp add: g_def)
  have "session_ok (update_session P f db) s = session_ok db s" for s by (simp add: session_ok_def)
  moreover have "sessions (update_session P f db) = map g (sessions db)" by (simp add: update_session_def g_def)
  ultimately show ?thesis
    using assms(1) keep unfolding session_rows_ok_def by (simp add: ids del: map_map)
qed

lemma session_rows_ok_revoke [intro]: "session_rows_ok db \<Longrightarrow> session_rows_ok (revoke_user uid now db)"
  unfolding revoke_user_def by (rule session_rows_ok_sessions) (auto simp: session_ok_def)

lemma users_ok_same: "users db' = users db \<Longrightarrow> users_ok db' = users_ok db"
  by (simp add: users_ok_def)

lemma session_rows_ok_same: "users db' = users db \<Longrightarrow> sessions db' = sessions db \<Longrightarrow> session_rows_ok db' = session_rows_ok db"
  by (simp add: session_rows_ok_def session_ok_def)

lemma auth_ok_event [simp]: "auth_ok (add_event row n e r t db) = auth_ok db"
  by (simp add: auth_ok_def users_ok_def session_rows_ok_def session_ok_def)


subsection \<open>Each operation on the grants\<close>

lemma grants_same: "users db' = users db \<Longrightarrow> sessions db' = sessions db \<Longrightarrow> grants_of db' = grants_of db"
  by (rule ext) (simp add: grants_of_def session_row_def cong: option.case_cong)

lemma grants_event [simp]: "grants_of (add_event row n e r t db) = grants_of db"
  by (rule grants_same) simp_all

lemma grants_update_user:
  assumes "\<And>u. same_identity (f u) u"
  shows "grants_of (update_user uid f db) = grants_of db"
proof
  fix h
  have "us_id (f u) = us_id u" "us_name (f u) = us_name u" "us_role (f u) = us_role u" "us_company (f u) = us_company u" for u
    using assms [of u] by (simp_all add: same_identity_def)
  then show "grants_of (update_user uid f db) h = grants_of db h"
    by (cases "session_row h db") (auto simp: grants_of_def)
qed

lemma grants_revoke_user: "grants_of (revoke_user uid now db) = drop_user uid (grants_of db)"
proof
  fix h
  show "grants_of (revoke_user uid now db) h = drop_user uid (grants_of db) h"
  proof (cases "session_row h db")
    case (Some su)
    then show ?thesis
      using session_row_SomeD(4) [of h db "fst su" "snd su"]
      by (cases su) (auto simp: grants_of_def drop_user_def revoke_user_def)
  qed (simp add: grants_of_def drop_user_def revoke_user_def)
qed

text \<open>Creating a user.\<close>

lemma username_nonempty: "normalize_username name = Inr n \<Longrightarrow> n \<noteq> []"
  by (auto simp: normalize_username_def Let_def split: if_splits)

lemma binding_ok: "validate_binding role company = Inr b \<Longrightarrow>
    (role = ''internal_admin'' \<and> b = None) \<or> (role = ''company_user'' \<and> b \<noteq> None)"
  by (cases "role = ''internal_admin''"; cases "role = ''company_user''")
    (simp_all add: validate_binding_def Let_def split: if_splits)

lemma fresh_user_ok: "fresh_user sc cfg env name pw role company = Inr u \<Longrightarrow> user_ok u"
  unfolding fresh_user_def and_then_Inr
  by (elim exE conjE, drule username_nonempty, drule binding_ok) (auto simp: user_ok_def)

lemma create_user_ok:
  assumes "auth_ok db" and "create_user sc cfg env name pw role company db = (Inr u, db')"
  shows "auth_ok db' \<and> grants_of db' = grants_of db"
proof -
  have new: "fresh_user sc cfg env name pw role company = Inr u"
      and fresh: "\<not> list_ex (user_clash u) (users db)" and db': "db' = db\<lparr>users := users db @ [u]\<rparr>"
    using assms(2) unfolding create_user_def by (auto split: sum.splits if_splits)
  have ok: "user_ok u" by (rule fresh_user_ok [OF new])
  have apart: "\<not> user_clash u v \<and> \<not> user_clash v u" if "v \<in> set (users db)" for v
    using fresh that by (auto simp: list_ex_iff user_clash_def)
  then have "us_id v \<noteq> us_id u" if "v \<in> set (users db)" for v using that by (auto simp: user_clash_def)
  then have id: "us_id u \<notin> us_id ` set (users db)" by (metis imageE)
  have "users_ok db'"
    using assms(1) ok apart id unfolding auth_ok_def users_ok_def db' by auto
  moreover have "session_ok db s \<Longrightarrow> session_ok db' s" for s unfolding session_ok_def db' by auto
  then have "session_rows_ok db'" using assms(1) by (simp add: auth_ok_def session_rows_ok_def db')
  moreover have "session_row h db' = session_row h db" for h
  proof (cases "find (\<lambda>s. se_hash s = h) (sessions db)")
    case (Some s)
    then have "session_ok db s" using assms(1) find_SomeD by (fastforce simp: auth_ok_def session_rows_ok_def)
    then obtain v where "v \<in> set (users db)" "us_id v = se_user s" by (auto simp: session_ok_def)
    then obtain x where "find (\<lambda>u. us_id u = se_user s) (users db) = Some x"
      by (cases "find (\<lambda>u. us_id u = se_user s) (users db)") (auto simp: find_None_iff)
    then show ?thesis using Some by (simp add: session_row_def db' find_append)
  qed (simp add: session_row_def db')
  then have "grants_of db' = grants_of db" by (simp add: grants_of_def fun_eq_iff)
  ultimately show ?thesis by (simp add: auth_ok_def)
qed

text \<open>Changing a password, deactivating and activating a user.\<close>

lemma update_user_ok:
  assumes "auth_ok db" and "\<And>u. same_identity (f u) u" and "\<And>u. us_active u \<Longrightarrow> us_active (f u)"
  shows "auth_ok (update_user uid f db) \<and> grants_of (update_user uid f db) = grants_of db"
  using assms users_ok_update [of db f uid] session_rows_ok_update [of db f uid] grants_update_user [of f uid db]
  by (auto simp: auth_ok_def)

lemma revoke_user_ok: "users_ok db \<Longrightarrow> session_rows_ok db \<Longrightarrow> auth_ok (revoke_user uid now db)"
  using users_ok_same [of "revoke_user uid now db" db] session_rows_ok_revoke [of db uid now]
  by (simp add: auth_ok_def revoke_user_def)

lemma revoked_sessions:
  assumes "s \<in> set (sessions (revoke_user uid now db))" and "se_user s = uid"
  shows "se_revoked s \<noteq> None"
proof -
  define g where "g s = (if se_user s = uid \<and> se_revoked s = None then s\<lparr>se_revoked := Some (Iso now)\<rparr> else s)" for s :: auth_session
  have "sessions (revoke_user uid now db) = map g (sessions db)"
    by (simp add: revoke_user_def update_session_def g_def)
  then obtain s0 where "s = g s0" using assms(1) by auto
  then show ?thesis using assms(2) by (cases "se_user s0 = uid \<and> se_revoked s0 = None") (auto simp: g_def)
qed

lemma set_password_ok:
  assumes "auth_ok db" and "set_password sc cfg env name pw company db = (Inr uid, db')"
  shows "auth_ok db' \<and> grants_of db' = drop_user uid (grants_of db)"
proof -
  obtain h where db': "db' = revoke_user uid (env_now env) (update_user uid (\<lambda>u. u\<lparr>us_password := h,
             us_password_changed := Iso (env_now env), us_updated := Iso (env_now env), us_failed := 0,
             us_locked_until := None\<rparr>) db)"
    using assms(2) unfolding set_password_def by (auto split: sum.splits)
  define db1 where "db1 = update_user uid (\<lambda>u. u\<lparr>us_password := h,
             us_password_changed := Iso (env_now env), us_updated := Iso (env_now env), us_failed := 0,
             us_locked_until := None\<rparr>) db"
  have "auth_ok db1 \<and> grants_of db1 = grants_of db"
    unfolding db1_def by (rule update_user_ok [OF assms(1)]) (simp_all add: same_identity_def)
  moreover have "db' = revoke_user uid (env_now env) db1" by (simp add: db' db1_def)
  ultimately show ?thesis using revoke_user_ok grants_revoke_user by (simp add: auth_ok_def)
qed

lemma set_active_ok:
  assumes "auth_ok db" and "set_active env name active company db = (Inr uid, db')"
  shows "auth_ok db' \<and> grants_of db' = (if active then grants_of db else drop_user uid (grants_of db))"
proof -
  define f where "f u = u\<lparr>us_active := active, us_updated := Iso (env_now env)\<rparr>" for u :: auth_user
  have db': "db' = (if active then update_user uid f db else revoke_user uid (env_now env) (update_user uid f db))"
    using assms(2) unfolding set_active_def f_def by (auto split: sum.splits simp: Let_def)
  have same: "same_identity (f u) u" "us_active (f u) = active" for u by (simp_all add: f_def same_identity_def)
  show ?thesis
  proof (cases active)
    case True
    then show ?thesis using db' same update_user_ok [OF assms(1), of f uid] by simp
  next
    case False
    have swap: "revoke_user uid now (update_user uid f db) = update_user uid f (revoke_user uid now db)" for now
      by (simp add: revoke_user_def update_user_def update_session_def)
    define db1 where "db1 = revoke_user uid (env_now env) db"
    have ok: "users_ok db1" "session_rows_ok db1"
      using assms(1) revoke_user_ok unfolding auth_ok_def db1_def by blast+
    have "se_revoked s \<noteq> None" if "s \<in> set (sessions db1)" "se_user s = uid" for s
      using that revoked_sessions unfolding db1_def by blast
    then have "auth_ok (update_user uid f db1)"
      unfolding auth_ok_def
      by (intro conjI users_ok_update [OF ok(1) same(1)] session_rows_ok_update [OF ok(2) same(1)]) auto
    then have "auth_ok (update_user uid f (revoke_user uid (env_now env) db))" by (simp add: db1_def)
    moreover have "db' = update_user uid f (revoke_user uid (env_now env) db)" by (simp only: db' swap False if_False)
    ultimately show ?thesis by (simp only: grants_update_user [OF same(1)] grants_revoke_user False if_False)
  qed
qed


text \<open>Signing in.\<close>

lemma find_login_SomeD: "find_login n role company db = Some u \<Longrightarrow> u \<in> set (users db)
    \<and> us_normalized u = n \<and> (role = None \<or> role = Some (us_role u)) \<and> (company = None \<or> us_company u = company)"
proof -
  assume a: "find_login n role company db = Some u"
  define P where "P u \<longleftrightarrow> us_normalized u = n \<and> (role = None \<or> us_role u = the role)
                  \<and> (company = None \<or> us_company u = company)" for u :: auth_user
  have "filter P (users db) = [u]"
    using a unfolding find_login_def P_def [symmetric] by (auto split: list.splits)
  then have "u \<in> set (filter P (users db))" by (simp only: list.set_intros)
  then show ?thesis by (cases role) (auto simp: P_def)
qed

lemma session_policy_ok:
  assumes "user_ok u" and "session_policy cfg (us_role u) = Inr (portal, idle, absolute)"
  shows "portal = portal_of (us_role u)" "seconds idle = idle_of cfg (us_role u)" "seconds absolute = absolute_of cfg (us_role u)"
  using assms by (auto simp: user_ok_def session_policy_def portal_of_def idle_of_def absolute_of_def)

lemma user_in: "users_ok db \<Longrightarrow> u \<in> set (users db) \<Longrightarrow> find (\<lambda>v. us_id v = us_id u) (users db) = Some u"
  by (simp add: users_ok_def find_distinct)

lemma reject_login_ok:
  assumes "auth_ok db"
  shows "auth_ok (reject_login cfg env n r row v db) \<and> grants_of (reject_login cfg env n r row v db) = grants_of db"
  using assms update_user_ok [OF assms, of "failed_login cfg (env_now env)"]
  by (cases row) (simp_all add: reject_login_def failed_login_def same_identity_def Let_def)

lemma new_session_ok:
  fixes idle absolute now :: int
  assumes "auth_ok db" and "u \<in> set (users db)" and "us_active u" and "user_ok u"
    and "portal = portal_of (us_role u)" and "hash \<notin> set (map se_hash (sessions db))"
  defines "db' \<equiv> db\<lparr>sessions := sessions db @ [new_session hash u portal idle absolute now]\<rparr>"
  shows "auth_ok db' \<and> grants_of db' = (grants_of db)(hash \<mapsto> \<lparr>g_user = us_id u, g_name = us_name u,
     g_role = us_role u, g_company = us_company u, g_portal = portal, g_idle_until = now + seconds idle,
     g_until = now + seconds absolute\<rparr>)"
proof -
  let ?s = "new_session hash u portal idle absolute now"
  have s: "se_hash ?s = hash" "se_user ?s = us_id u" "se_revoked ?s = None" by (simp_all add: new_session_def)
  have "session_ok db ?s"
    unfolding session_ok_def using assms(2-5) by (auto simp: new_session_def intro!: bexI [of _ u])
  moreover have "session_ok db' x = session_ok db x" for x by (simp add: session_ok_def db'_def)
  ultimately have "session_rows_ok db'"
    using assms(1,6) by (auto simp: auth_ok_def session_rows_ok_def db'_def s)
  moreover have "users_ok db'" using assms(1) by (simp add: auth_ok_def users_ok_def db'_def)
  moreover have "session_row h db' = (if h = hash then Some (?s, u) else session_row h db)" for h
    using session_row_new [of ?s db h] assms(1,2,6) user_in [of db u] by (simp add: s db'_def auth_ok_def)
  then have "grants_of db' h = (if h = hash then Some \<lparr>g_user = us_id u, g_name = us_name u,
     g_role = us_role u, g_company = us_company u, g_portal = portal, g_idle_until = now + seconds idle,
     g_until = now + seconds absolute\<rparr> else grants_of db h)" for h
    by (simp add: grants_of_def new_session_def)
  ultimately show ?thesis by (auto simp: auth_ok_def)
qed

lemma signed_user:
  assumes "auth_ok db" and "u \<in> set (users db)" and "us_active u"
    and "\<And>v. same_identity (f v) v" and "\<And>v. us_active v \<Longrightarrow> us_active (f v)"
  shows "auth_ok (update_user (us_id u) f db) \<and> grants_of (update_user (us_id u) f db) = grants_of db
    \<and> (\<exists>v \<in> set (users (update_user (us_id u) f db)). same_identity v u \<and> us_active v)"
proof -
  have "f u \<in> set (users (update_user (us_id u) f db))"
    using assms(2) by (auto simp: update_user_def intro!: rev_image_eqI [of u])
  then show ?thesis using update_user_ok [OF assms(1,4,5)] assms(3-5) by blast
qed

lemma sign_in_ok:
  assumes "auth_ok db" and "u \<in> set (users db)" and "us_active u"
    and "sign_in sc sha cfg env n pw r u db = Inr ((tok, p), db')"
  shows "auth_ok db' \<and> tok = env_token env \<and> grants_of db' = (grants_of db)(sha tok \<mapsto> login_grant cfg (env_now env) p)"
proof -
  have uok: "user_ok u" using assms(1,2) by (simp add: auth_ok_def users_ok_def)
  obtain db1 portal idle absolute where
      db1: "(if password_needs_rehash (us_password u)
             then and_then (password_hash sc (env_salt env) pw) (\<lambda>h.
               Inr (update_user (us_id u) (\<lambda>u. u\<lparr>us_password := h, us_password_changed := Iso (env_now env)\<rparr>) db))
             else Inr db) = Inr db1"
    and policy: "session_policy cfg (us_role u) = Inr (portal, idle, absolute)"
    using assms(4) unfolding sign_in_def Let_def and_then_Inr by auto
  define f where "f v = v\<lparr>us_failed := 0, us_locked_until := None, us_last_login := Some (Iso (env_now env)),
      us_updated := Iso (env_now env)\<rparr>" for v :: auth_user
  define db2 where "db2 = update_user (us_id u) f db1"
  define s where "s = new_session (sha (env_token env)) u portal idle absolute (env_now env)"
  have fresh: "sha (env_token env) \<notin> set (map se_hash (sessions db2))" and tok: "tok = env_token env"
    and p: "p = principal_of u portal (min (env_now env + seconds idle) (env_now env + seconds absolute)) (env_now env)"
    and db': "db' = add_event (Some u) n ''login_success'' r (env_later env) (db2\<lparr>sessions := sessions db2 @ [s]\<rparr>)"
    using assms(4) unfolding sign_in_def Let_def db1 policy and_then_simps prod.case f_def [symmetric] db2_def [symmetric] s_def [symmetric]
    by (auto simp: s_def new_session_def split: if_splits)
  have step1: "auth_ok db1 \<and> grants_of db1 = grants_of db \<and> (\<exists>v \<in> set (users db1). same_identity v u \<and> us_active v)"
  proof (cases "password_needs_rehash (us_password u)")
    case True
    then obtain h where "db1 = update_user (us_id u) (\<lambda>u. u\<lparr>us_password := h, us_password_changed := Iso (env_now env)\<rparr>) db"
      using db1 by (auto simp: and_then_Inr)
    then show ?thesis using signed_user [OF assms(1-3)] by (simp add: same_identity_def)
  next
    case False
    then show ?thesis using db1 assms(1-3) by (auto simp: same_identity_def)
  qed
  then obtain v where v: "v \<in> set (users db1)" "same_identity v u" "us_active v" by blast
  have f: "same_identity (f x) x" "us_active x \<Longrightarrow> us_active (f x)" for x by (simp_all add: f_def same_identity_def)
  have step2: "auth_ok db2 \<and> grants_of db2 = grants_of db \<and> (\<exists>v' \<in> set (users db2). same_identity v' v \<and> us_active v')"
    using signed_user [of db1 v f] step1 v f unfolding db2_def by (simp add: same_identity_def)
  then obtain v' where v': "v' \<in> set (users db2)" "same_identity v' u" "us_active v'"
    using v(2) by (auto simp: same_identity_def)
  have same: "us_id v' = us_id u" "us_name v' = us_name u" "us_role v' = us_role u" "us_company v' = us_company u"
      "us_normalized v' = us_normalized u" using v'(2) by (simp_all add: same_identity_def)
  have s: "s = new_session (sha (env_token env)) v' portal idle absolute (env_now env)"
    by (simp add: s_def new_session_def same)
  have "portal = portal_of (us_role v')" "user_ok v'"
    using session_policy_ok [OF uok policy] uok by (simp_all add: same user_ok_def)
  then have "auth_ok (db2\<lparr>sessions := sessions db2 @ [s]\<rparr>)
      \<and> grants_of (db2\<lparr>sessions := sessions db2 @ [s]\<rparr>) = (grants_of db2)(sha (env_token env) \<mapsto> login_grant cfg (env_now env) p)"
    using new_session_ok [OF _ v'(1,3) _ _ fresh, of portal idle absolute "env_now env"] step2
      session_policy_ok [OF uok policy] unfolding s
    by (simp add: login_grant_def p principal_of_def same)
  then show ?thesis using step2 tok by (simp add: db')
qed


lemma authenticate_ok:
  assumes "auth_ok db" and "authenticate sc sha cfg env name pw role company remote db = (Inr a, db')"
  shows "auth_ok db' \<and> (case a of
      None \<Rightarrow> grants_of db' = grants_of db
    | Some (tok, p) \<Rightarrow> tok = env_token env \<and> grants_of db' = (grants_of db)(sha tok \<mapsto> login_grant cfg (env_now env) p))"
proof (cases a)
  case None
  then obtain n row v where "db' = reject_login cfg env n remote row v db"
    using assms(2) unfolding authenticate_def Let_def by (auto split: if_splits sum.splits option.splits)
  then show ?thesis using None reject_login_ok [OF assms(1)] by simp
next
  case (Some tp)
  obtain tok p where tp: "tp = (tok, p)" by (cases tp)
  let ?n = "case normalize_username name of Inl _ \<Rightarrow> [] | Inr n \<Rightarrow> n"
  obtain u where u: "find_login ?n role (normalize_company company) db = Some u" "us_active u"
      and s: "sign_in sc sha cfg env ?n pw remote u db = Inr ((tok, p), db')"
    using assms(2) unfolding authenticate_def Let_def Some tp
    by (auto split: if_splits sum.splits option.splits)
  show ?thesis using sign_in_ok [OF assms(1) _ u(2) s] find_login_SomeD [OF u(1)] by (simp add: Some tp)
qed

text \<open>Using, ending and pruning sessions.\<close>

lemma touched_ok:
  assumes "auth_ok db"
  shows "auth_ok (update_session (\<lambda>s. se_hash s = h)
     (\<lambda>s. s\<lparr>se_last_seen := Iso now, se_idle_expires := Iso i, se_expires := Iso e\<rparr>) db)"
  using assms session_rows_ok_sessions [of db "\<lambda>s. s\<lparr>se_last_seen := Iso now, se_idle_expires := Iso i, se_expires := Iso e\<rparr>"
      "\<lambda>s. se_hash s = h"]
    users_ok_same [of "update_session (\<lambda>s. se_hash s = h)
     (\<lambda>s. s\<lparr>se_last_seen := Iso now, se_idle_expires := Iso i, se_expires := Iso e\<rparr>) db" db]
  by (auto simp: auth_ok_def session_ok_def)

lemma session_row_ok:
  assumes "auth_ok db" and "session_row h db = Some (s, u)"
  shows "user_ok u" "se_role s = us_role u" "se_company s = us_company u" "se_portal s = portal_of (us_role u)"
    "se_revoked s = None \<Longrightarrow> us_active u" "se_idle_expires s = Iso (instant (se_idle_expires s))"
    "se_absolute_expires s = Iso (instant (se_absolute_expires s))"
proof -
  note row = session_row_SomeD [OF assms(2)]
  have s: "session_ok db s" using assms(1) row(1) by (simp add: auth_ok_def session_rows_ok_def)
  then obtain v where v: "v \<in> set (users db)" "us_id v = se_user s" "se_role s = us_role v" "se_company s = us_company v"
      "se_portal s = portal_of (us_role v)" "se_revoked s = None \<longrightarrow> us_active v" by (auto simp: session_ok_def)
  have "find (\<lambda>x. us_id x = se_user s) (users db) = Some v" using user_in [of db v] v assms(1) by (simp add: auth_ok_def)
  moreover have "find (\<lambda>x. us_id x = se_user s) (users db) = Some u" using user_in [of db u] row assms(1) by (simp add: auth_ok_def)
  ultimately have "v = u" by simp
  then show "user_ok u" "se_role s = us_role u" "se_company s = us_company u" "se_portal s = portal_of (us_role u)"
      "se_revoked s = None \<Longrightarrow> us_active u"
    using v assms(1) by (simp_all add: auth_ok_def users_ok_def)
  show "se_idle_expires s = Iso (instant (se_idle_expires s))" "se_absolute_expires s = Iso (instant (se_absolute_expires s))"
    using s by (auto simp: session_ok_def)
qed

lemma resolve_ok:
  assumes "auth_ok db"
  shows "resolve_session (sha_of w) (config_of w) env token portal db =
      (Inr (map_option (grant_principal (env_now env)) (grant_lookup w (env_now env) token portal (grants_of db))),
       snd (resolve_session (sha_of w) (config_of w) env token portal db))
    \<and> auth_ok (snd (resolve_session (sha_of w) (config_of w) env token portal db))
    \<and> grants_of (snd (resolve_session (sha_of w) (config_of w) env token portal db)) =
       grant_step w (Resolve env token portal, ans) (grants_of db)"
proof (cases "token = None \<or> token = Some [] \<or> session_row (sha_of w (the token)) db = None")
  case True
  then show ?thesis using assms by (auto simp: resolve_session_def grant_lookup_def grants_of_def split: option.splits)
next
  case False
  then obtain tok s u where tok: "token = Some tok" "tok \<noteq> []" and row: "session_row (sha_of w tok) db = Some (s, u)"
    by (cases token) auto
  note ok = session_row_ok [OF assms row]
  obtain i a where iso: "se_idle_expires s = Iso i" "se_absolute_expires s = Iso a" using ok(6,7) by metis
  let ?now = "env_now env"
  obtain idle absolute where policy: "session_policy (config_of w) (us_role u) = Inr (portal_of (us_role u), idle, absolute)"
    using ok(1) by (auto simp: user_ok_def session_policy_def portal_of_def)
  note times = session_policy_ok [OF ok(1) policy]
  define g where "g = \<lparr>g_user = us_id u, g_name = us_name u, g_role = us_role u, g_company = us_company u,
       g_portal = se_portal s, g_idle_until = i, g_until = a\<rparr>"
  have grant: "grants_of db (sha_of w tok) = (if se_revoked s = None then Some g else None)"
    by (simp add: grants_of_def row g_def iso)
  show ?thesis
  proof (cases "se_revoked s = None \<and> grant_open ?now portal g")
    case False
    then have "resolve_session (sha_of w) (config_of w) env token portal db = (Inr None, db)"
      using ok(5) by (simp add: resolve_session_def Let_def tok row ok(2-4) policy iso
        grant_open_def g_def) (auto simp: not_less)
    then show ?thesis using assms False by (auto simp: grant_lookup_def tok grant)
  next
    case True
    define r where "r = min (?now + seconds idle) a"
    define db' where "db' = update_session (\<lambda>s. se_hash s = sha_of w tok)
      (\<lambda>s. s\<lparr>se_last_seen := Iso ?now, se_idle_expires := Iso r, se_expires := Iso r\<rparr>) db"
    have opened: "se_revoked s = None" "us_active u" "portal = None \<or> portal = Some (se_portal s)" "\<not> i \<le> ?now" "\<not> a \<le> ?now"
      using True ok(5) by (auto simp: grant_open_def g_def)
    have "resolve_session (sha_of w) (config_of w) env token portal db =
        (Inr (Some (principal_of u (se_portal s) r ?now)), db')"
      using opened(3-5) by (simp add: resolve_session_def Let_def tok row ok(2-4) policy opened(1,2) iso r_def db'_def)
    moreover have "principal_of u (se_portal s) r ?now = grant_principal ?now (renewed (config_of w) ?now g)"
      by (simp add: principal_of_def grant_principal_def renewed_def g_def r_def times)
    moreover have "auth_ok db'" unfolding db'_def by (rule touched_ok [OF assms])
    moreover have "grants_of db' = (grants_of db)(sha_of w tok \<mapsto> renewed (config_of w) ?now g)"
    proof
      fix h
      show "grants_of db' h = ((grants_of db)(sha_of w tok \<mapsto> renewed (config_of w) ?now g)) h"
        using row session_row_SomeD(2) [of h db] opened(1)
        by (cases "session_row h db") (auto simp: grants_of_def db'_def g_def renewed_def r_def times iso)
    qed
    ultimately show ?thesis using True by (simp add: grant_lookup_def tok grant)
  qed
qed


lemma revoked_ok:
  assumes "auth_ok db"
  shows "auth_ok (update_session (\<lambda>s. se_hash s = h \<and> se_revoked s = None) (\<lambda>s. s\<lparr>se_revoked := Some (Iso now)\<rparr>) db)
    \<and> grants_of (update_session (\<lambda>s. se_hash s = h \<and> se_revoked s = None) (\<lambda>s. s\<lparr>se_revoked := Some (Iso now)\<rparr>) db)
       = (grants_of db)(h := None)"
proof -
  define db' where "db' = update_session (\<lambda>s. se_hash s = h \<and> se_revoked s = None) (\<lambda>s. s\<lparr>se_revoked := Some (Iso now)\<rparr>) db"
  have "session_rows_ok db'"
    unfolding db'_def using assms
    by (intro session_rows_ok_sessions) (auto simp: auth_ok_def session_ok_def)
  moreover have "users db' = users db" by (simp add: db'_def)
  ultimately have "auth_ok db'" using assms users_ok_same [of db' db] by (simp add: auth_ok_def)
  moreover have "grants_of db' = (grants_of db)(h := None)"
  proof
    fix x
    show "grants_of db' x = ((grants_of db)(h := None)) x"
      using session_row_SomeD(2) [of x db] by (cases "session_row x db") (auto simp: grants_of_def db'_def)
  qed
  ultimately show ?thesis by (simp add: db'_def)
qed

lemma logout_ok:
  assumes "auth_ok db"
  shows "auth_ok (revoke_session (sha_of w) env token portal remote db)
    \<and> grants_of (revoke_session (sha_of w) env token portal remote db)
       = grant_step w (Logout env token portal remote, a) (grants_of db)"
proof (cases token)
  case (Some tok)
  show ?thesis
  proof (cases "session_row (sha_of w tok) db")
    case None
    then show ?thesis
      using Some assms revoked_ok [OF assms, of "sha_of w tok" "env_now env"]
      by (auto simp: revoke_session_def grants_of_def)
  next
    case (Some su)
    then show ?thesis
      using \<open>token = Some tok\<close> assms revoked_ok [OF assms, of "sha_of w tok" "env_now env"]
      by (cases su) (auto simp: revoke_session_def Let_def grants_of_def [of db "sha_of w tok"] fun_upd_idem)
  qed
qed (use assms in \<open>simp add: revoke_session_def\<close>)

lemma find_filter:
  "distinct (map f xs) \<Longrightarrow> find (\<lambda>x. f x = h) (filter K xs) =
     (case find (\<lambda>x. f x = h) xs of None \<Rightarrow> None | Some x \<Rightarrow> if K x then Some x else None)"
proof (induction xs)
  case (Cons x xs)
  have "find (\<lambda>y. f y = h) xs = None" if "f x = h" using Cons.prems that by (auto simp: find_None_iff image_iff)
  then show ?case using Cons by (auto split: option.splits)
qed simp

lemma prune_ok:
  assumes "auth_ok db"
  shows "auth_ok (snd (prune_expired_sessions env db))
    \<and> grants_of (snd (prune_expired_sessions env db)) = grant_step w (Prune env, a) (grants_of db)"
proof -
  define K where "K s \<longleftrightarrow> \<not> (stamp_until (se_idle_expires s) (env_now env) \<or> stamp_until (se_absolute_expires s) (env_now env)
                                \<or> se_revoked s \<noteq> None)" for s :: auth_session
  define db' where "db' = db\<lparr>sessions := filter K (sessions db)\<rparr>"
  have db': "snd (prune_expired_sessions env db) = db'" by (simp add: prune_expired_sessions_def Let_def db'_def K_def [abs_def])
  have rows: "session_rows_ok db" "distinct (map se_hash (sessions db))" using assms by (simp_all add: auth_ok_def session_rows_ok_def)
  have "session_ok db' s = session_ok db s" for s by (simp add: session_ok_def db'_def)
  then have "auth_ok db'" using assms rows
    by (auto simp: auth_ok_def session_rows_ok_def users_ok_def db'_def distinct_map_filter)
  moreover have "session_row h db' = (case session_row h db of None \<Rightarrow> None | Some (s, u) \<Rightarrow> if K s then Some (s, u) else None)" for h
    using find_filter [OF rows(2), of h K] by (auto simp: session_row_def db'_def split: option.split)
  then have "grants_of db' h = grant_step w (Prune env, a) (grants_of db) h" for h
  proof (cases "session_row h db")
    case (Some su)
    obtain s u where su: "su = (s, u)" by (cases su)
    obtain i a where "se_idle_expires s = Iso i" "se_absolute_expires s = Iso a"
      using session_row_ok(6,7) [OF assms, of h s u] Some su by metis
    moreover have "session_row h db' = (if K s then Some (s, u) else None)"
      using find_filter [OF rows(2), of h K] Some su by (auto simp: session_row_def db'_def split: option.splits)
    ultimately show ?thesis using Some su by (simp add: grants_of_def K_def not_le)
  qed (use find_filter [OF rows(2), of h K] in \<open>auto simp: grants_of_def session_row_def db'_def split: option.splits\<close>)
  ultimately show ?thesis by (simp add: db' fun_eq_iff)
qed


subsection \<open>Any sequence of operations\<close>

lemma failed_keeps:
  "create_user sc cfg env name pw role company db = (Inl err, db') \<Longrightarrow> db' = db"
  "set_password sc cfg env name pw company db = (Inl err, db') \<Longrightarrow> db' = db"
  "set_active env name active company db = (Inl err, db') \<Longrightarrow> db' = db"
  "authenticate sc sha cfg env name pw wanted company remote db = (Inl err, db') \<Longrightarrow> db' = db"
  by (auto simp: create_user_def set_password_def set_active_def authenticate_def Let_def
      split: sum.splits if_splits option.splits)

lemma answer_ofE:
  assumes "answer_of f r = (a, db')"
  obtains err where "r = (Inl err, db')" "a = Failed err" | x where "r = (Inr x, db')" "a = f x"
  using assms by (cases r; cases "fst r") auto

lemma auth_step_ok [auth_facts]:
  assumes "auth_ok db" and "auth_step w x db = (a, db')"
  shows "auth_ok db' \<and> grants_of db' = grant_step w (x, a) (grants_of db)"
proof (cases x)
  case (Create env name pw role company)
  then show ?thesis
    using assms by (auto elim!: answer_ofE dest!: failed_keeps(1) create_user_ok [OF assms(1)])
next
  case (Password env name pw company)
  then show ?thesis
    using assms by (auto elim!: answer_ofE dest!: failed_keeps(2) set_password_ok [OF assms(1)])
next
  case (Active env name active company)
  then show ?thesis
    using assms by (auto elim!: answer_ofE dest!: failed_keeps(3) set_active_ok [OF assms(1)])
next
  case (Login env name pw role company remote)
  then have "answer_of Signed (authenticate (scrypt_of w) (sha_of w) (config_of w) env name pw role company remote db) = (a, db')"
    using assms(2) by simp
  then show ?thesis
  proof (rule answer_ofE)
    fix err assume "authenticate (scrypt_of w) (sha_of w) (config_of w) env name pw role company remote db = (Inl err, db')"
      "a = Failed err"
    then show ?thesis using assms(1) Login by (auto dest!: failed_keeps(4))
  next
    fix r assume r: "authenticate (scrypt_of w) (sha_of w) (config_of w) env name pw role company remote db = (Inr r, db')"
      "a = Signed r"
    then show ?thesis using authenticate_ok [OF assms(1) r(1)] Login by (cases r) auto
  qed
next
  case (Resolve env token portal)
  then show ?thesis using assms resolve_ok [OF assms(1), of w env token portal a]
    by (auto elim!: answer_ofE)
next
  case (Logout env token portal remote)
  then show ?thesis using assms logout_ok [OF assms(1), of w env token portal remote a] by auto
next
  case (Prune env)
  then show ?thesis using assms prune_ok [OF assms(1), of env w a] by auto
qed

lemma auth_run_ok [auth_facts]:
  "auth_ok db \<Longrightarrow> auth_run w ops db = (answers, db') \<Longrightarrow>
     auth_ok db' \<and> grants_of db' = grant_run w answers (grants_of db)"
proof (induction ops arbitrary: db answers)
  case (Cons x xs)
  obtain a db1 where step: "auth_step w x db = (a, db1)" by (cases "auth_step w x db")
  obtain rest where "auth_run w xs db1 = (rest, db')" "answers = (x, a) # rest"
    using Cons.prems(2) step by (auto split: prod.splits)
  then show ?case using Cons.IH auth_step_ok [OF Cons.prems(1) step] by auto
qed simp

lemma auth_empty_ok [simp]: "auth_ok auth_empty" "grants_of auth_empty = (\<lambda>_. None)"
  by (simp_all add: auth_ok_def users_ok_def session_rows_ok_def auth_empty_def grants_of_def session_row_def fun_eq_iff)

theorem auth_tables_sound:
  "case auth_run w ops auth_empty of (answers, db) \<Rightarrow>
     distinct (map us_id (users db)) \<and> list_all user_ok (users db)
     \<and> distinct (map (\<lambda>u. (us_role u, us_company u, us_normalized u)) (users db))
     \<and> distinct (map se_hash (sessions db)) \<and> list_all (session_ok db) (sessions db)"
proof -
  obtain answers db where run: "auth_run w ops auth_empty = (answers, db)" by (cases "auth_run w ops auth_empty")
  have ok: "auth_ok db" using auth_run_ok [OF auth_empty_ok(1) run] by blast
  let ?k = "\<lambda>u. (us_role u, us_company u, us_normalized u)"
  have "inj_on ?k (set (users db))"
  proof (rule inj_onI)
    fix u v assume uv: "u \<in> set (users db)" "v \<in> set (users db)" "?k u = ?k v"
    then have "user_ok u" using ok by (simp add: auth_ok_def users_ok_def)
    then have "user_clash u v" using uv(3) by (auto simp: user_clash_def user_ok_def)
    then show "u = v" using ok uv(1,2) by (simp add: auth_ok_def users_ok_def)
  qed
  moreover have "distinct (users db)" using ok by (simp add: auth_ok_def users_ok_def distinct_map)
  ultimately have "distinct (map ?k (users db))" by (simp add: distinct_map)
  then show ?thesis using ok run by (simp add: auth_ok_def users_ok_def session_rows_ok_def list_all_iff)
qed

text \<open>
  C11: The user and session tables implement a map of grants: a login adds one, password
  change and deactivation drop the grants of the user, logout and expiry drop one, each use
  renews the idle limit up to the absolute one, and a token resolves exactly when its grant is
  open, to exactly its principal.
\<close>

theorem sessions_refine_grants:
  "case auth_run w ops auth_empty of (answers, db) \<Rightarrow>
     grants_of db = grant_run w answers (\<lambda>_. None)
     \<and> fst (auth_step w (Resolve env token portal) db) =
         Who (map_option (grant_principal (env_now env))
               (grant_lookup w (env_now env) token portal (grant_run w answers (\<lambda>_. None))))"
proof -
  obtain answers db where run: "auth_run w ops auth_empty = (answers, db)" by (cases "auth_run w ops auth_empty")
  have ok: "auth_ok db" "grants_of db = grant_run w answers (\<lambda>_. None)" using auth_run_ok [OF auth_empty_ok(1) run] by simp_all
  have "fst (auth_step w (Resolve env token portal) db) =
      Who (map_option (grant_principal (env_now env)) (grant_lookup w (env_now env) token portal (grants_of db)))"
    using resolve_ok [OF ok(1), of w env token portal] by (metis answer_of.simps(2) auth_step.simps(5) fst_conv)
  then show ?thesis using run ok(2) by simp
qed


subsection \<open>Where an accepted session comes from\<close>

text \<open>What ends the grants of a user, or of a token hash.\<close>

fun ends_grant :: "auth_setup \<Rightarrow> string \<Rightarrow> string \<Rightarrow> string \<Rightarrow> auth_op \<times> auth_answer \<Rightarrow> bool" where
  "ends_grant w uid role h (Password env name pw company, User u) = (u = uid)"
| "ends_grant w uid role h (Active env name active company, User u) = (u = uid \<and> \<not> active)"
| "ends_grant w uid role h (Logout env token portal remote, a) =
     (\<exists>tok. token = Some tok \<and> tok \<noteq> [] \<and> sha_of w tok = h \<and> (portal = None \<or> portal = Some (portal_of role)))"
| "ends_grant w uid role h _ = False"

definition comes_from_login :: "auth_setup \<Rightarrow> (auth_op \<times> auth_answer) list \<Rightarrow> string \<Rightarrow> grant \<Rightarrow> bool" where
  "comes_from_login w answers h g \<longleftrightarrow> (\<exists>earlier env name pw role company remote tok p later.
     answers = earlier @ (Login env name pw role company remote, Signed (Some (tok, p))) # later
     \<and> sha_of w tok = h \<and> g_user g = pr_user p \<and> g_role g = pr_role p \<and> g_company g = pr_company p
     \<and> g_portal g = portal_of (pr_role p) \<and> g_until g = env_now env + absolute_of (config_of w) (pr_role p)
     \<and> list_all (\<lambda>y. \<not> ends_grant w (pr_user p) (pr_role p) h y) later)"

lemma comes_from_login_later:
  assumes "comes_from_login w answers h g" and "\<not> ends_grant w (g_user g) (g_role g) h y"
    and "g_user g' = g_user g" "g_role g' = g_role g" "g_company g' = g_company g" "g_portal g' = g_portal g" "g_until g' = g_until g"
  shows "comes_from_login w (answers @ [y]) h g'"
proof -
  obtain earlier env name pw role company remote tok p later where
    l: "answers = earlier @ (Login env name pw role company remote, Signed (Some (tok, p))) # later"
     "sha_of w tok = h \<and> g_user g = pr_user p \<and> g_role g = pr_role p \<and> g_company g = pr_company p
     \<and> g_portal g = portal_of (pr_role p) \<and> g_until g = env_now env + absolute_of (config_of w) (pr_role p)"
     "list_all (\<lambda>y. \<not> ends_grant w (pr_user p) (pr_role p) h y) later"
    using assms(1) unfolding comes_from_login_def by blast
  have "answers @ [y] = earlier @ (Login env name pw role company remote, Signed (Some (tok, p))) # (later @ [y])"
    using l(1) by simp
  moreover have "list_all (\<lambda>y. \<not> ends_grant w (pr_user p) (pr_role p) h y) (later @ [y])" using l(2,3) assms(2) by simp
  ultimately show ?thesis unfolding comes_from_login_def using l(2) assms(3-7) by metis
qed

lemma grant_run_append [simp]: "grant_run w (xs @ ys) G = grant_run w ys (grant_run w xs G)"
  by (induction xs arbitrary: G) simp_all

lemma login_grant_from:
  "comes_from_login w (answers @ [(Login env name pw role company remote, Signed (Some (tok, p)))]) (sha_of w tok)
     (login_grant (config_of w) (env_now env) p)"
  unfolding comes_from_login_def login_grant_def by (rule exI [of _ answers]) fastforce

lemma grant_step_cases:
  obtains (password) env name pw company uid where "y = (Password env name pw company, User uid)"
  | (active) env name active company uid where "y = (Active env name active company, User uid)"
  | (login) env name pw role company remote tok p where "y = (Login env name pw role company remote, Signed (Some (tok, p)))"
  | (resolve) env token portal a where "y = (Resolve env token portal, a)"
  | (logout) env token portal remote a where "y = (Logout env token portal remote, a)"
  | (prune) env a where "y = (Prune env, a)"
  | (other) "\<And>G. grant_step w y G = G" "\<And>uid role h. \<not> ends_grant w uid role h y"
proof -
  obtain x a where y: "y = (x, a)" by (cases y)
  show thesis
    using that unfolding y by (cases x; cases a; cases "case a of Signed r \<Rightarrow> r | _ \<Rightarrow> None") auto
qed

lemma grants_from_login: "grant_run w answers (\<lambda>_. None) h = Some g \<Longrightarrow> comes_from_login w answers h g"
proof (induction answers arbitrary: g rule: rev_induct)
  case (snoc y answers)
  let ?G = "grant_run w answers (\<lambda>_. None)"
  have kept: "comes_from_login w (answers @ [y]) h g" if "?G h = Some g" "\<not> ends_grant w (g_user g) (g_role g) h y" for g
    using comes_from_login_later [OF snoc.IH [OF that(1)] that(2)] by simp
  have portal: "g_portal g = portal_of (g_role g)" if "?G h = Some g" for g
    using snoc.IH [OF that] by (auto simp: comes_from_login_def)
  have step: "grant_step w y ?G h = Some g" using snoc.prems by simp
  obtain x a where y: "y = (x, a)" by (cases y)
  show ?case
  proof (cases "\<exists>env token portal. x = Resolve env token portal")
    case True
    then obtain env token portal where x: "x = Resolve env token portal" by blast
    show ?thesis
    proof (cases "grant_lookup w (env_now env) token portal ?G")
      case None
      then show ?thesis using step kept by (simp add: y x)
    next
      case (Some g')
      then obtain tok g0 where t: "token = Some tok" "?G (sha_of w tok) = Some g0" "g' = renewed (config_of w) (env_now env) g0"
        by (auto simp: grant_lookup_def split: option.splits if_splits)
      show ?thesis
      proof (cases "h = sha_of w tok")
        case True
        then have "comes_from_login w answers h g0" using snoc.IH t(2) by simp
        moreover have "g = renewed (config_of w) (env_now env) g0" using step Some t True by (simp add: y x)
        ultimately show ?thesis by (intro comes_from_login_later) (simp_all add: y x renewed_def)
      next
        case False
        then show ?thesis using step kept Some t by (simp add: y x)
      qed
    qed
  next
    case False
    show ?thesis
    proof (cases "?G h = Some g \<and> \<not> ends_grant w (g_user g) (g_role g) h y")
      case True
      then show ?thesis using kept by blast
    next
      case False
      have "\<exists>env name pw role company remote tok p. y = (Login env name pw role company remote, Signed (Some (tok, p)))
          \<and> h = sha_of w tok \<and> g = login_grant (config_of w) (env_now env) p"
        using step False \<open>\<not> (\<exists>env token portal. x = Resolve env token portal)\<close> portal
        unfolding y by (cases "(x, a)" rule: grant_step_cases [where w = w])
          (auto simp: drop_user_def split: option.splits if_splits)
      then show ?thesis using login_grant_from by blast
    qed
  qed
qed simp


text \<open>A login of the same user with the same token hash stands behind the principal: not too long
  ago, and nothing has ended its grant since.\<close>

definition login_behind :: "auth_setup \<Rightarrow> (auth_op \<times> auth_answer) list \<Rightarrow> int \<Rightarrow> string \<Rightarrow> principal \<Rightarrow> bool" where
  "login_behind w answers now token p \<longleftrightarrow>
     (\<exists>earlier env0 name pw role company remote tok p0 later.
        answers = earlier @ (Login env0 name pw role company remote, Signed (Some (tok, p0))) # later
        \<and> sha_of w tok = sha_of w token
        \<and> pr_user p = pr_user p0 \<and> pr_role p = pr_role p0 \<and> pr_company p = pr_company p0
        \<and> now < env_now env0 + absolute_of (config_of w) (pr_role p)
        \<and> list_all (\<lambda>y. \<not> ends_grant w (pr_user p) (pr_role p) (sha_of w token) y) later)"

lemma resolved_has_login:
  assumes "auth_run w ops auth_empty = (answers, db)"
    and "fst (resolve_session (sha_of w) (config_of w) env (Some token) portal db) = Inr (Some p)"
  shows "login_behind w answers (env_now env) token p \<and> pr_portal p = portal_of (pr_role p)
     \<and> portal \<in> {None, Some (portal_of (pr_role p))}"
proof -
  have ok: "auth_ok db" "grants_of db = grant_run w answers (\<lambda>_. None)"
    using auth_run_ok [OF auth_empty_ok(1) assms(1)] by simp_all
  have "fst (resolve_session (sha_of w) (config_of w) env (Some token) portal db) =
      Inr (map_option (grant_principal (env_now env)) (grant_lookup w (env_now env) (Some token) portal (grants_of db)))"
    using resolve_ok [OF ok(1), of w env "Some token" portal] by (metis fst_conv)
  then obtain g where g: "grants_of db (sha_of w token) = Some g" "grant_open (env_now env) portal g"
      "p = grant_principal (env_now env) (renewed (config_of w) (env_now env) g)"
    using assms(2) by (auto simp: grant_lookup_def split: option.splits if_splits)
  have "comes_from_login w answers (sha_of w token) g"
    using g(1) grants_from_login unfolding ok(2) by blast
  moreover have "pr_user p = g_user g" "pr_role p = g_role g" "pr_company p = g_company g" "pr_portal p = g_portal g"
    by (simp_all add: g(3) grant_principal_def renewed_def)
  ultimately obtain earlier env0 name pw role company remote tok p0 later where
    l: "answers = earlier @ (Login env0 name pw role company remote, Signed (Some (tok, p0))) # later"
      "sha_of w tok = sha_of w token" "g_user g = pr_user p0 \<and> g_role g = pr_role p0 \<and> g_company g = pr_company p0
       \<and> g_portal g = portal_of (pr_role p0)" "g_until g = env_now env0 + absolute_of (config_of w) (pr_role p0)"
      "list_all (\<lambda>y. \<not> ends_grant w (pr_user p0) (pr_role p0) (sha_of w token) y) later"
      and p: "pr_user p = g_user g" "pr_role p = g_role g" "pr_company p = g_company g" "pr_portal p = g_portal g"
    unfolding comes_from_login_def by blast
  have o: "portal \<in> {None, Some (portal_of (pr_role p))}" "env_now env < env_now env0 + absolute_of (config_of w) (pr_role p)"
    using g(2) l(3,4) p unfolding grant_open_def by auto
  have kept: "list_all (\<lambda>y. \<not> ends_grant w (pr_user p) (pr_role p) (sha_of w token) y) later"
    using l(3,5) p by simp
  have "login_behind w answers (env_now env) token p"
    unfolding login_behind_def by (intro exI conjI, rule l(1), rule l(2)) (use l(3) p o kept in simp_all)
  then show ?thesis using o(1) l(3) p by simp
qed

text \<open>
  C8: Whatever sequence of operations ran on the store, a session token that is accepted has
  the hash of a token that a successful login of the very same user, role and company was
  given within the absolute lifetime of that role, for the portal of the role, and since then
  no password change, deactivation or logout ended it.
\<close>

theorem accepted_session_has_login:
  assumes "auth_run w ops auth_empty = (answers, db)"
    and "fst (auth_step w (Resolve env (Some token) portal) db) = Who (Some p)"
  shows "login_behind w answers (env_now env) token p \<and> pr_portal p = portal_of (pr_role p)
     \<and> portal \<in> {None, Some (portal_of (pr_role p))}"
proof -
  have "fst (resolve_session (sha_of w) (config_of w) env (Some token) portal db) = Inr (Some p)"
    using assms(2) by (cases "resolve_session (sha_of w) (config_of w) env (Some token) portal db";
      cases "fst (resolve_session (sha_of w) (config_of w) env (Some token) portal db)") auto
  then show ?thesis by (rule resolved_has_login [OF assms(1)])
qed

subsection \<open>A sample store\<close>

text \<open>The stand-in for scrypt, and one for SHA-256 that returns the token.\<close>

definition sample_setup :: auth_setup where
  "sample_setup = \<lparr>scrypt_of = sample_scrypt, sha_of = (\<lambda>t. t),
     config_of = \<lparr>company_idle = 3600, company_absolute = 28800, internal_idle = 900, internal_absolute = 3600,
       max_login_attempts = 3, lock_seconds = 900, password_min_length = 4, dummy_hash = []\<rparr>\<rparr>"

definition sample_env :: "int \<Rightarrow> string \<Rightarrow> auth_env" where
  "sample_env t token = \<lparr>env_now = seconds t, env_later = seconds t, env_token = token, env_salt = [7], env_uuid = ''u1''\<rparr>"

definition sample_ops :: "auth_op list" where
  "sample_ops = [Create (sample_env 0 []) '' Ann '' ''secret'' ''company_user'' (Some ''acme''),
     Login (sample_env 10 ''t1'') ''ANN'' ''secret'' (Some ''company_user'') (Some ''acme'') None]"

definition sample_principal :: principal where
  "sample_principal = \<lparr>pr_user = ''u1'', pr_name = ''Ann'', pr_role = ''company_user'', pr_company = Some ''acme'',
     pr_portal = ''company'', pr_expires = Iso (seconds 3700), pr_max_age = 3600\<rparr>"

lemma sample_names:
  "normalize_username '' Ann '' = Inr ''ann''" "normalize_username ''ANN'' = Inr ''ann''" "strip '' Ann '' = ''Ann''"
  "validate_binding ''company_user'' (Some ''acme'') = Inr (Some ''acme'')" "normalize_company (Some ''acme'') = Some ''acme''"
  by code_simp+

lemma sample_resolves:
  "fst (auth_step sample_setup (Resolve (sample_env 100 []) (Some ''t1'') (Some ''company'')) (snd (auth_run sample_setup sample_ops auth_empty)))
     = Who (Some sample_principal)"
proof -
  obtain h where h: "password_hash sample_scrypt [7] ''secret'' = Inr h" "verify_password sample_scrypt h ''secret'' = Inr True"
      "\<not> password_needs_rehash h"
    using password_hash_some [OF sample_scrypt_sized, of "[7]" "''secret''"] by auto
  show ?thesis
    by (simp add: sample_ops_def sample_setup_def sample_env_def auth_empty_def create_user_def fresh_user_def sample_names h
      validate_password_def authenticate_def find_login_def user_locked_def sign_in_def session_policy_def update_user_def
      new_session_def principal_of_def add_event_def resolve_session_def session_row_def update_session_def seconds_def
      max_age_def sample_principal_def Let_def)
qed


theorem accepted_session_has_login_witness:
  "fst (auth_step sample_setup (Resolve (sample_env 100 []) (Some ''t1'') (Some ''company'')) (snd (auth_run sample_setup sample_ops auth_empty)))
     = Who (Some sample_principal)
   \<and> login_behind sample_setup (fst (auth_run sample_setup sample_ops auth_empty)) (seconds 100) ''t1'' sample_principal"
proof -
  obtain answers db where run: "auth_run sample_setup sample_ops auth_empty = (answers, db)"
    by (cases "auth_run sample_setup sample_ops auth_empty")
  have "fst (auth_step sample_setup (Resolve (sample_env 100 []) (Some ''t1'') (Some ''company'')) db) = Who (Some sample_principal)"
    using sample_resolves run by simp
  from accepted_session_has_login [OF run this] show ?thesis using sample_resolves run by (simp add: sample_env_def)
qed

end
