(* ===== verification/Auth_Logins.thy ===== *)
theory Auth_Logins
  imports Auth_Sessions
begin

text \<open>
  Repeated sign-ins to one account: the wrong passwords that lock it, and how long the lock refuses
  every password.
\<close>

definition logins :: "string \<Rightarrow> string option \<Rightarrow> string option \<Rightarrow> string option \<Rightarrow> (auth_env \<times> string) list \<Rightarrow> auth_op list" where
  "logins name role company remote tries = map (\<lambda>(env, pw). Login env name pw role company remote) tries"

text \<open>The row that a sign-in with these arguments finds.\<close>

definition login_row :: "string \<Rightarrow> string option \<Rightarrow> string option \<Rightarrow> auth_db \<Rightarrow> auth_user option" where
  "login_row name role company db =
     (if role \<in> {None, Some ''internal_admin'', Some ''company_user''}
         \<and> (normalize_company company = None \<or> role = Some ''company_user'')
      then find_login (case normalize_username name of Inl _ \<Rightarrow> [] | Inr n \<Rightarrow> n) role (normalize_company company) db
      else None)"

lemma find_login_update:
  assumes "find_login n role company db = Some u" and "\<And>v. same_identity (f v) v"
  shows "find_login n role company (update_user (us_id u) f db) = Some (f u)"
proof -
  define P where "P u \<longleftrightarrow> us_normalized u = n \<and> (role = None \<or> us_role u = the role)
                  \<and> (company = None \<or> us_company u = company)" for u :: auth_user
  define g where "g v = (if us_id v = us_id u then f v else v)" for v :: auth_user
  have "filter P (users db) = [u]"
    using assms(1) unfolding find_login_def P_def [symmetric] by (auto split: list.splits)
  moreover have "P (g v) = P v" for v using assms(2) [of v] by (simp add: P_def g_def same_identity_def)
  then have "filter P (map g (users db)) = map g (filter P (users db))" by (simp add: filter_map comp_def)
  moreover have "users (update_user (us_id u) f db) = map g (users db)" by (simp add: update_user_def g_def [abs_def])
  ultimately have "filter P (users (update_user (us_id u) f db)) = [g u]" by simp
  then show ?thesis unfolding find_login_def P_def [symmetric] by (simp add: g_def)
qed

lemma find_login_event [simp]: "find_login n role company (add_event row e t r at_time db) = find_login n role company db"
  by (simp add: find_login_def)

lemma wrong_password:
  assumes "login_row name role company db = Some u" and "us_active u" and "\<not> user_locked (env_now env) u"
    and "verify_password (scrypt_of w) (us_password u) pw = Inr False"
  shows "\<exists>db'. auth_step w (Login env name pw role company remote) db = (Signed None, db')
     \<and> login_row name role company db' = Some (failed_login (config_of w) (env_now env) u)"
proof -
  let ?n = "case normalize_username name of Inl _ \<Rightarrow> [] | Inr n \<Rightarrow> n"
  have args: "role \<in> {None, Some ''internal_admin'', Some ''company_user''}"
      "\<not> (normalize_company company \<noteq> None \<and> role \<noteq> Some ''company_user'')"
    and row: "find_login ?n role (normalize_company company) db = Some u"
    using assms(1) by (auto simp: login_row_def split: if_splits)
  have "same_identity (failed_login (config_of w) (env_now env) v) v" for v
    by (simp add: failed_login_def same_identity_def Let_def)
  note upd = find_login_update [OF row this]
  have "authenticate (scrypt_of w) (sha_of w) (config_of w) env name pw role company remote db
      = (Inr None, reject_login (config_of w) env ?n remote (Some u) False db)"
    using args assms(4) by (simp add: authenticate_def Let_def row)
  moreover have "find_login ?n role (normalize_company company) (reject_login (config_of w) env ?n remote (Some u) False db)
      = Some (failed_login (config_of w) (env_now env) u)"
    using upd assms(2,3) by (simp add: reject_login_def)
  ultimately show ?thesis using args by (auto simp: login_row_def)
qed

lemma locked_out:
  assumes "login_row name role company db = Some u" and "user_locked (env_now env) u"
    and "verify_password (scrypt_of w) (us_password u) pw = Inr v"
  shows "\<exists>db'. auth_step w (Login env name pw role company remote) db = (Signed None, db')
     \<and> login_row name role company db' = Some u"
proof -
  let ?n = "case normalize_username name of Inl _ \<Rightarrow> [] | Inr n \<Rightarrow> n"
  have args: "role \<in> {None, Some ''internal_admin'', Some ''company_user''}"
      "\<not> (normalize_company company \<noteq> None \<and> role \<noteq> Some ''company_user'')"
    and row: "find_login ?n role (normalize_company company) db = Some u"
    using assms(1) by (auto simp: login_row_def split: if_splits)
  have "authenticate (scrypt_of w) (sha_of w) (config_of w) env name pw role company remote db
      = (Inr None, add_event (Some u) ?n ''login_rejected'' remote (env_later env) db)"
    using args assms(2,3) by (simp add: authenticate_def Let_def row reject_login_def)
  then show ?thesis using args row by (auto simp: login_row_def)
qed

lemma right_password:
  assumes "login_row name role company db = Some u" and "us_active u" and "\<not> user_locked (env_now env) u"
    and "verify_password (scrypt_of w) (us_password u) pw = Inr True"
  shows "fst (auth_step w (Login env name pw role company remote) db) \<noteq> Signed None"
proof -
  let ?n = "case normalize_username name of Inl _ \<Rightarrow> [] | Inr n \<Rightarrow> n"
  have args: "role \<in> {None, Some ''internal_admin'', Some ''company_user''}"
      "\<not> (normalize_company company \<noteq> None \<and> role \<noteq> Some ''company_user'')"
    and row: "find_login ?n role (normalize_company company) db = Some u"
    using assms(1) by (auto simp: login_row_def split: if_splits)
  have "role = None \<or> role = Some (us_role u)" using find_login_SomeD [OF row] by blast
  then show ?thesis
    using args assms(2-4) by (auto simp: authenticate_def Let_def row split: sum.split)
qed

text \<open>A list of refused tries.\<close>

definition refused :: "(auth_op \<times> auth_answer) list \<Rightarrow> bool" where
  "refused answers \<longleftrightarrow> list_all (\<lambda>(x, a). a = Signed None) answers"

lemma refused_simps [simp]: "refused []" "refused ((x, a) # xs) \<longleftrightarrow> a = Signed None \<and> refused xs"
  by (simp_all add: refused_def)

lemma logins_simps [simp]: "logins name role company remote [] = []"
  "logins name role company remote ((env, pw) # xs) = Login env name pw role company remote # logins name role company remote xs"
  by (simp_all add: logins_def)

lemma locked_tries:
  assumes "login_row name role company db = Some u" and "us_locked_until u = Some (Iso t)"
    and "\<And>pw. verify_password (scrypt_of w) (us_password u) pw \<in> range Inr"
    and "list_all (\<lambda>(env, pw). env_now env < t) tries"
  shows "refused (fst (auth_run w (logins name role company remote tries) db))"
  using assms(1,4)
proof (induction tries arbitrary: db)
  case (Cons x xs)
  obtain env pw where x: "x = (env, pw)" by (cases x)
  have "user_locked (env_now env) u" using Cons.prems(2) assms(2) by (simp add: user_locked_def x)
  moreover obtain v where "verify_password (scrypt_of w) (us_password u) pw = Inr v" using assms(3) by blast
  ultimately obtain db' where s: "auth_step w (Login env name pw role company remote) db = (Signed None, db')"
      "login_row name role company db' = Some u" using locked_out [OF Cons.prems(1)] by blast
  then show ?case using Cons.IH [OF s(2)] Cons.prems(2) by (auto simp: x split: prod.split)
qed simp


lemma auth_run_append: "auth_run w (xs @ ys) db =
    (let (a, db1) = auth_run w xs db; (b, db2) = auth_run w ys db1 in (a @ b, db2))"
  by (induction xs arbitrary: db) (simp_all add: Let_def split: prod.split)

lemma wrong_tries:
  assumes "login_row name role company db = Some u" and "us_active u" and "us_locked_until u = None"
    and "list_all (\<lambda>(env, pw). verify_password (scrypt_of w) (us_password u) pw = Inr False) tries"
    and "us_failed u + int (length tries) \<le> max_login_attempts (config_of w)"
  shows "\<exists>answers db' v. auth_run w (logins name role company remote tries) db = (answers, db') \<and> refused answers
     \<and> login_row name role company db' = Some v \<and> us_active v \<and> us_password v = us_password u
     \<and> us_failed v = us_failed u + int (length tries)
     \<and> us_locked_until v = (if tries \<noteq> [] \<and> max_login_attempts (config_of w) \<le> us_failed u + int (length tries)
          then Some (Iso (env_now (fst (last tries)) + seconds (lock_seconds (config_of w)))) else None)"
  using assms
proof (induction tries arbitrary: db u)
  case (Cons x xs)
  obtain env pw where x: "x = (env, pw)" by (cases x)
  let ?v = "failed_login (config_of w) (env_now env) u"
  have v: "us_active ?v" "us_password ?v = us_password u" "us_failed ?v = us_failed u + 1"
    using Cons.prems(2) by (simp_all add: failed_login_def Let_def)
  have "\<not> user_locked (env_now env) u" using Cons.prems(3) by (simp add: user_locked_def)
  then obtain db1 where s: "auth_step w (Login env name pw role company remote) db = (Signed None, db1)"
      "login_row name role company db1 = Some ?v"
    using wrong_password [OF Cons.prems(1,2), of env w pw remote] Cons.prems(4) by (auto simp: x simp del: auth_step.simps)
  show ?case
  proof (cases xs)
    case Nil
    then show ?thesis using s v by (simp add: x) (simp add: failed_login_def Let_def)
  next
    case (Cons y ys)
    then have "us_locked_until ?v = None" using Cons.prems(5) by (simp add: failed_login_def Let_def)
    then obtain answers db' z where r: "auth_run w (logins name role company remote xs) db1 = (answers, db')" "refused answers"
        "login_row name role company db' = Some z" "us_active z" "us_password z = us_password ?v"
        "us_failed z = us_failed ?v + int (length xs)"
        "us_locked_until z = (if xs \<noteq> [] \<and> max_login_attempts (config_of w) \<le> us_failed ?v + int (length xs)
          then Some (Iso (env_now (fst (last xs)) + seconds (lock_seconds (config_of w)))) else None)"
      using Cons.IH [OF s(2) v(1)] Cons.prems(4,5) v by auto
    then show ?thesis using s v Cons by (simp add: x)
  qed
qed simp

text \<open>
  C10: Starting from a clean account, fewer wrong passwords than the limit never refuse the
  right one, and as many as the limit lock it: for the lock time every further try is refused,
  the right password included, however many tries there are.
\<close>

theorem lockout_exact:
  assumes "login_row name role company db = Some u" and "us_active u" and "us_failed u = 0" and "us_locked_until u = None"
    and "\<And>pw. verify_password (scrypt_of w) (us_password u) pw \<in> range Inr"
    and "list_all (\<lambda>(env, pw). verify_password (scrypt_of w) (us_password u) pw = Inr False) wrong"
    and "auth_run w (logins name role company remote wrong) db = (answers, db')"
  shows "(int (length wrong) < max_login_attempts (config_of w)
        \<and> verify_password (scrypt_of w) (us_password u) right = Inr True \<longrightarrow>
      refused answers \<and> fst (auth_step w (Login env name right role company remote) db') \<noteq> Signed None)
    \<and> (int (length wrong) = max_login_attempts (config_of w) \<and> wrong \<noteq> []
        \<and> list_all (\<lambda>(env, pw). env_now env < env_now (fst (last wrong)) + seconds (lock_seconds (config_of w))) tries \<longrightarrow>
      refused (answers @ fst (auth_run w (logins name role company remote tries) db')))"
proof -
  have tries: "\<exists>v. refused answers \<and> login_row name role company db' = Some v \<and> us_active v \<and> us_password v = us_password u
     \<and> us_locked_until v = (if wrong \<noteq> [] \<and> max_login_attempts (config_of w) \<le> int (length wrong)
          then Some (Iso (env_now (fst (last wrong)) + seconds (lock_seconds (config_of w)))) else None)"
    if "int (length wrong) \<le> max_login_attempts (config_of w)"
    using wrong_tries [OF assms(1,2,4,6), of remote] that assms(3,7) by auto
  have "refused answers \<and> fst (auth_step w (Login env name right role company remote) db') \<noteq> Signed None"
    if less: "int (length wrong) < max_login_attempts (config_of w)"
      and right: "verify_password (scrypt_of w) (us_password u) right = Inr True"
  proof -
    obtain v where "refused answers" "login_row name role company db' = Some v" "us_active v" "us_password v = us_password u"
        "us_locked_until v = None" using tries [OF less_imp_le [OF less]] less by auto
    then show ?thesis using right_password [of name role company db' v] right by (simp add: user_locked_def)
  qed
  moreover have "refused (answers @ fst (auth_run w (logins name role company remote tries) db'))"
    if full: "int (length wrong) = max_login_attempts (config_of w)" "wrong \<noteq> []"
      and early: "list_all (\<lambda>(env, pw). env_now env < env_now (fst (last wrong)) + seconds (lock_seconds (config_of w))) tries"
  proof -
    obtain v where v: "refused answers" "login_row name role company db' = Some v" "us_password v = us_password u"
        "us_locked_until v = Some (Iso (env_now (fst (last wrong)) + seconds (lock_seconds (config_of w))))"
      using tries [OF eq_refl [OF full(1)]] full by auto
    then show ?thesis using locked_tries [OF v(2,4) _ early] assms(5) by (simp add: refused_def)
  qed
  ultimately show ?thesis by blast
qed


definition sample_user_db :: auth_db where
  "sample_user_db = snd (auth_step sample_setup (Create (sample_env 0 []) '' Ann '' ''secret'' ''company_user'' (Some ''acme'')) auth_empty)"

definition sample_guesses :: "(auth_env \<times> string) list" where
  "sample_guesses = [(sample_env 10 [], ''guess1''), (sample_env 11 [], ''guess2''), (sample_env 12 [], ''guess3'')]"

lemma sample_account:
  "\<exists>u. login_row ''ann'' (Some ''company_user'') (Some ''acme'') sample_user_db = Some u \<and> us_active u \<and> us_failed u = 0
     \<and> us_locked_until u = None \<and> password_hash sample_scrypt [7] ''secret'' = Inr (us_password u)"
proof -
  obtain h where h: "password_hash sample_scrypt [7] ''secret'' = Inr h"
    using password_hash_some [OF sample_scrypt_sized, of "[7]" "''secret''"] by auto
  have "normalize_username ''ann'' = Inr ''ann''" by code_simp
  then show ?thesis
    by (simp add: sample_user_db_def sample_setup_def sample_env_def auth_empty_def create_user_def fresh_user_def
      sample_names h validate_password_def login_row_def find_login_def)
qed

theorem lockout_exact_witness:
  "refused (fst (auth_run sample_setup (logins ''ann'' (Some ''company_user'') (Some ''acme'') None sample_guesses) sample_user_db)
     @ fst (auth_run sample_setup (logins ''ann'' (Some ''company_user'') (Some ''acme'') None [(sample_env 100 ''t1'', ''secret'')])
         (snd (auth_run sample_setup (logins ''ann'' (Some ''company_user'') (Some ''acme'') None sample_guesses) sample_user_db))))"
proof -
  obtain u where u: "login_row ''ann'' (Some ''company_user'') (Some ''acme'') sample_user_db = Some u" "us_active u" "us_failed u = 0"
      "us_locked_until u = None" "password_hash sample_scrypt [7] ''secret'' = Inr (us_password u)"
    using sample_account by blast
  have v: "verify_password (scrypt_of sample_setup) (us_password u) q =
      Inr (sample_scrypt (utf8_encode q) [7] SCRYPT_N SCRYPT_R SCRYPT_P SCRYPT_MAXMEM 32
        = sample_scrypt (utf8_encode ''secret'') [7] SCRYPT_N SCRYPT_R SCRYPT_P SCRYPT_MAXMEM 32)" for q
    using verify_own_hash [OF sample_scrypt_sized _ u(5)] by (simp add: sample_setup_def)
  have total: "verify_password (scrypt_of sample_setup) (us_password u) q \<in> range Inr" for q
    using v by simp
  have wrong: "list_all (\<lambda>(env, pw). verify_password (scrypt_of sample_setup) (us_password u) pw = Inr False) sample_guesses"
    using v by (simp add: sample_guesses_def sample_scrypt_def utf8_encode_def)
  have limit: "int (length sample_guesses) = max_login_attempts (config_of sample_setup)" "sample_guesses \<noteq> []"
    by (simp_all add: sample_guesses_def sample_setup_def)
  have early: "list_all (\<lambda>(env, pw). env_now env < env_now (fst (last sample_guesses)) + seconds (lock_seconds (config_of sample_setup)))
      [(sample_env 100 ''t1'', ''secret'')]"
    by (simp add: sample_guesses_def sample_setup_def sample_env_def seconds_def)
  obtain answers db' where run: "auth_run sample_setup (logins ''ann'' (Some ''company_user'') (Some ''acme'') None sample_guesses)
      sample_user_db = (answers, db')" by (cases "auth_run sample_setup (logins ''ann'' (Some ''company_user'') (Some ''acme'') None
      sample_guesses) sample_user_db")
  show ?thesis
    using lockout_exact [OF u(1-4) total wrong run, where tries = "[(sample_env 100 ''t1'', ''secret'')]"] limit early
    unfolding run fst_conv snd_conv by blast
qed

end
