(* ===== verification/Analytics_Access.thy ===== *)
theory Analytics_Access
  imports Auth_Sessions
begin

text \<open>
  Who may read analytics: the registry of companies with its API keys and dataset tables
  (\<open>analytics_service/config.py\<close>) and the guards of the HTTP handlers (\<open>analytics_service/api.py\<close>).
  What a handler reads once it is authorised, from the snapshot store through the company's
  adapter, is an argument; so are the environment variables and SHA-256.
\<close>

named_theorems access_facts \<open>facts of the registry and the guards\<close>

subsection \<open>The registry\<close>

record database_target =
  db_backend :: string
  db_host :: string
  db_port :: int
  db_name :: string
  db_schema :: string

record company_config =
  co_id :: string
  co_slug :: string
  co_key_envs :: "string list"
  co_database :: database_target
  co_telemetry :: database_target
  co_tables :: "(string, string) dict"
  co_spec_database :: "(string, string) dict"

record registry =
  companies :: "(string, company_config) dict"
  endpoints :: "(string, company_config) dict"
  key_owners :: "(string, string) dict"

type_synonym table_identity = "string \<times> string \<times> int \<times> string \<times> string \<times> string"

definition database_identity :: "database_target \<Rightarrow> string \<Rightarrow> table_identity" where
  "database_identity t table_name = (db_backend t, casefold (db_host t), db_port t, db_name t,
     (if db_backend t = ''postgres'' then db_schema t else []), table_name)"

definition dataset_identity :: "company_config \<Rightarrow> string \<times> string \<Rightarrow> py_error + table_identity" where
  "dataset_identity c d =
     (case map_of (co_spec_database c) (fst d) of
        None \<Rightarrow> Inl (KeyError (fst d))
      | Some database \<Rightarrow> Inr (database_identity (if database = ''telemetry'' then co_telemetry c else co_database c) (snd d)))"

fun claim_tables ::
    "(company_config \<times> string \<times> string) list \<Rightarrow> (table_identity, string \<times> string) dict \<Rightarrow> py_error + (table_identity, string \<times> string) dict" where
  "claim_tables [] owners = Inr owners"
| "claim_tables ((c, d) # rest) owners =
     and_then (dataset_identity c d) (\<lambda>identity.
       case map_of owners identity of
         Some (owner, dataset) \<Rightarrow>
           if owner \<noteq> co_id c
           then Inl (ValueError (''Analytics companies '' @ quoted owner @ '' and '' @ quoted (co_id c) @ '' share dataset table ''
                  @ quoted (snd d) @ '' ('' @ quoted dataset @ '' and '' @ quoted (fst d) @ '')''))
           else claim_tables rest (AList.update identity (co_id c, fst d) owners)
       | None \<Rightarrow> claim_tables rest (AList.update identity (co_id c, fst d) owners))"

definition company_datasets :: "company_config list \<Rightarrow> (company_config \<times> string \<times> string) list" where
  "company_datasets cs = concat (map (\<lambda>c. map (Pair c) (co_tables c)) cs)"

fun claim_keys ::
    "(string \<Rightarrow> string) \<Rightarrow> (string \<Rightarrow> string) \<Rightarrow> (company_config \<times> string) list \<Rightarrow> (string, string) dict \<Rightarrow> py_error + (string, string) dict" where
  "claim_keys getenv sha [] owners = Inr owners"
| "claim_keys getenv sha ((c, name) # rest) owners =
     (let key = strip (getenv name)
      in if key = [] then claim_keys getenv sha rest owners
         else (case map_of owners (sha key) of
             Some owner \<Rightarrow> Inl (ValueError (''Companies '' @ quoted owner @ '' and '' @ quoted (co_id c) @ '' share an analytics API key''))
           | None \<Rightarrow> claim_keys getenv sha rest (AList.update (sha key) (co_id c) owners)))"

definition company_keys :: "company_config list \<Rightarrow> (company_config \<times> string) list" where
  "company_keys cs = concat (map (\<lambda>c. map (Pair c) (co_key_envs c)) cs)"

definition make_registry ::
    "(string \<Rightarrow> string) \<Rightarrow> (string \<Rightarrow> string) \<Rightarrow> (string, company_config) dict \<Rightarrow> py_error + registry" where
  "make_registry getenv sha cs =
     (let by_slug = foldl (\<lambda>d c. AList.update (co_slug c) c d) [] (map snd cs)
      in if length by_slug \<noteq> length cs then Inl (ValueError ''Analytics company endpoint slugs must be unique'')
         else and_then (claim_tables (company_datasets (map snd cs)) []) (\<lambda>_.
           and_then (claim_keys getenv sha (company_keys (map snd cs)) []) (\<lambda>owners.
             Inr \<lparr>companies = cs, endpoints = by_slug, key_owners = owners\<rparr>)))"

definition resolve_endpoint :: "registry \<Rightarrow> string \<Rightarrow> company_config option" where
  "resolve_endpoint reg slug = map_of (endpoints reg) (casefold (strip slug))"

definition resolve_company :: "registry \<Rightarrow> string \<Rightarrow> company_config option" where
  "resolve_company reg company = map_of (companies reg) (casefold (strip company))"

definition key_authenticates :: "(string \<Rightarrow> string) \<Rightarrow> registry \<Rightarrow> string \<Rightarrow> string \<Rightarrow> company_config option" where
  "key_authenticates sha reg slug api_key =
     (case resolve_endpoint reg slug of
        None \<Rightarrow> None
      | Some c \<Rightarrow> if api_key = [] then None
          else (case map_of (key_owners reg) (sha api_key) of
              None \<Rightarrow> None
            | Some owner \<Rightarrow> if owner \<noteq> co_id c then None else Some c))"

text \<open>\<open>load_analytics_registry\<close>: the companies of the configuration files in their order; files
  without an analytics section give none.\<close>

fun load_companies :: "company_config option list \<Rightarrow> (string, company_config) dict \<Rightarrow> py_error + (string, company_config) dict" where
  "load_companies [] cs = Inr cs"
| "load_companies (None # rest) cs = load_companies rest cs"
| "load_companies (Some c # rest) cs =
     (if map_of cs (co_id c) \<noteq> None then Inl (ValueError (''Duplicate analytics company '' @ quoted (co_id c)))
      else load_companies rest (AList.update (co_id c) c cs))"

definition load_registry :: "(string \<Rightarrow> string) \<Rightarrow> (string \<Rightarrow> string) \<Rightarrow> company_config option list \<Rightarrow> py_error + registry" where
  "load_registry getenv sha files = and_then (load_companies files []) (make_registry getenv sha)"

subsection \<open>Guards of the handlers\<close>

datatype http_error = Http nat string

datatype cookie = Set_Cookie string string int stamp | Delete_Cookie string

record analytics_settings =
  cors_origins :: "string list"
  company_cookie :: string
  internal_cookie :: string

record access =
  auth_setup_of :: auth_setup
  registry_of :: registry
  settings_of :: analytics_settings

definition validate_browser_origin :: "analytics_settings \<Rightarrow> string option \<Rightarrow> http_error + unit" where
  "validate_browser_origin st origin =
     (case origin of None \<Rightarrow> Inr ()
      | Some o' \<Rightarrow> if o' \<notin> set (cors_origins st) then Inl (Http 403 ''Request origin is not allowed.'') else Inr ())"

definition portal_cookie_name :: "analytics_settings \<Rightarrow> string \<Rightarrow> string" where
  "portal_cookie_name st portal = (if portal = ''company'' then company_cookie st else internal_cookie st)"

definition portal_cookie :: "analytics_settings \<Rightarrow> string \<Rightarrow> principal \<Rightarrow> cookie" where
  "portal_cookie st token p = Set_Cookie (portal_cookie_name st (pr_portal p)) token (pr_max_age p) (pr_expires p)"

definition unavailable :: http_error where
  "unavailable = Http 503 ''Authentication service is unavailable.''"

definition session_principal ::
    "access \<Rightarrow> auth_env \<Rightarrow> string option \<Rightarrow> string option \<Rightarrow> auth_db \<Rightarrow> (http_error + principal option) \<times> auth_db" where
  "session_principal ac env token portal db =
     (case resolve_session (sha_of (auth_setup_of ac)) (config_of (auth_setup_of ac)) env token portal db of
        (Inl _, db') \<Rightarrow> (Inl unavailable, db') | (Inr p, db') \<Rightarrow> (Inr p, db'))"

definition require_user ::
    "access \<Rightarrow> auth_env \<Rightarrow> string option \<Rightarrow> string option \<Rightarrow> auth_db \<Rightarrow> (http_error + principal) \<times> auth_db" where
  "require_user ac env token portal db =
     (case session_principal ac env token portal db of
        (Inl e, db') \<Rightarrow> (Inl e, db')
      | (Inr None, db') \<Rightarrow> (Inl (Http 401 ''Authentication required.''), db')
      | (Inr (Some p), db') \<Rightarrow> (Inr p, db'))"

definition token_text :: "string option \<Rightarrow> string" where
  "token_text token = (case token of None \<Rightarrow> [] | Some t \<Rightarrow> t)"

definition require_admin :: "access \<Rightarrow> auth_env \<Rightarrow> string option \<Rightarrow> auth_db \<Rightarrow> (http_error + principal \<times> cookie) \<times> auth_db" where
  "require_admin ac env token db =
     (case require_user ac env token (Some ''internal'') db of
        (Inl e, db') \<Rightarrow> (Inl e, db')
      | (Inr p, db') \<Rightarrow>
          if \<not> internal p then (Inl (Http 403 ''Internal analytics access is required.''), db')
          else (Inr (p, portal_cookie (settings_of ac) (token_text token) p), db'))"

definition require_company ::
    "access \<Rightarrow> auth_env \<Rightarrow> string \<Rightarrow> string option \<Rightarrow> string option \<Rightarrow> auth_db \<Rightarrow> (http_error + company_config \<times> cookie option) \<times> auth_db" where
  "require_company ac env endpoint api_key token db =
     (case resolve_endpoint (registry_of ac) endpoint of
        None \<Rightarrow> (Inl (Http 404 ''Unknown company analytics endpoint.''), db)
      | Some c \<Rightarrow>
          (case session_principal ac env token (Some ''company'') db of
             (Inl e, db') \<Rightarrow> (Inl e, db')
           | (Inr (Some p), db') \<Rightarrow>
               if internal p \<or> pr_company p \<noteq> Some (co_id c)
               then (Inl (Http 403 ''Session is not authorized for this company.''), db')
               else (Inr (c, Some (portal_cookie (settings_of ac) (token_text token) p)), db')
           | (Inr None, db') \<Rightarrow>
               (case api_key of
                  None \<Rightarrow> (Inl (Http 401 ''Authentication required.''), db')
                | Some key \<Rightarrow>
                    if key = [] then (Inl (Http 401 ''Authentication required.''), db')
                    else (case key_authenticates (sha_of (auth_setup_of ac)) (registry_of ac) endpoint key of
                        Some c' \<Rightarrow> (Inr (c', None), db')
                      | None \<Rightarrow> (Inl (Http 403 ''API key does not match the company endpoint.''), db')))))"

definition require_admin_company ::
    "access \<Rightarrow> auth_env \<Rightarrow> string \<Rightarrow> string option \<Rightarrow> auth_db \<Rightarrow> (http_error + company_config \<times> cookie) \<times> auth_db" where
  "require_admin_company ac env endpoint token db =
     (case require_admin ac env token db of
        (Inl e, db') \<Rightarrow> (Inl e, db')
      | (Inr (p, ck), db') \<Rightarrow>
          (case resolve_endpoint (registry_of ac) endpoint of
             None \<Rightarrow> (Inl (Http 404 ''Unknown company analytics endpoint.''), db')
           | Some c \<Rightarrow> (Inr (c, ck), db')))"


subsection \<open>The handlers\<close>

text \<open>Requests of either portal; \<open>'q\<close> is a data request (dashboard, queries, facets or status with its
  parameters). \<open>reader company internal q\<close> is the answer to an authorised one.\<close>

datatype 'q api_request =
    Company_Login string "string option" string string "string option"
  | Internal_Login "string option" string string "string option"
  | Company_Me "string option"
  | Internal_Me "string option"
  | Company_Logout "string option" "string option" "string option"
  | Internal_Logout "string option" "string option" "string option"
  | Company_Data string "string option" "string option" 'q
  | Admin_Data string "string option" 'q
  | Admin_Companies "string option"

datatype 'r api_response = Session_Payload principal | Logged_Out | Data 'r | Company_List "(string \<times> string) list"

text \<open>The constraints of \<open>LoginRequest\<close>.\<close>

definition login_request_ok :: "string \<Rightarrow> string \<Rightarrow> bool" where
  "login_request_ok name pw \<longleftrightarrow> 1 \<le> length name \<and> length name \<le> 191 \<and> 1 \<le> length pw \<and> length pw \<le> 1024"

definition role_login ::
    "access \<Rightarrow> auth_env \<Rightarrow> string option \<Rightarrow> string \<Rightarrow> string \<Rightarrow> string option \<Rightarrow> string \<Rightarrow> string option \<Rightarrow> auth_db
      \<Rightarrow> (http_error + 'r api_response \<times> cookie option) \<times> auth_db" where
  "role_login ac env origin name pw remote role company db =
     (case validate_browser_origin (settings_of ac) origin of
        Inl e \<Rightarrow> (Inl e, db)
      | Inr _ \<Rightarrow>
          (case authenticate (scrypt_of (auth_setup_of ac)) (sha_of (auth_setup_of ac)) (config_of (auth_setup_of ac))
                  env name pw (Some role) company remote db of
             (Inl _, db') \<Rightarrow> (Inl unavailable, db')
           | (Inr None, db') \<Rightarrow> (Inl (Http 401 ''Invalid username or password.''), db')
           | (Inr (Some (token, p)), db') \<Rightarrow>
               (Inr (Session_Payload p, Some (portal_cookie (settings_of ac) token p)), db')))"

definition current_user ::
    "access \<Rightarrow> auth_env \<Rightarrow> string option \<Rightarrow> string \<Rightarrow> auth_db \<Rightarrow> (http_error + 'r api_response \<times> cookie option) \<times> auth_db" where
  "current_user ac env token portal db =
     (case require_user ac env token (Some portal) db of
        (Inl e, db') \<Rightarrow> (Inl e, db')
      | (Inr p, db') \<Rightarrow> (Inr (Session_Payload p, Some (portal_cookie (settings_of ac) (token_text token) p)), db'))"

definition portal_logout ::
    "access \<Rightarrow> auth_env \<Rightarrow> string option \<Rightarrow> string option \<Rightarrow> string option \<Rightarrow> string \<Rightarrow> auth_db
      \<Rightarrow> (http_error + 'r api_response \<times> cookie option) \<times> auth_db" where
  "portal_logout ac env origin token remote portal db =
     (case validate_browser_origin (settings_of ac) origin of
        Inl e \<Rightarrow> (Inl e, db)
      | Inr _ \<Rightarrow>
          (Inr (Logged_Out, Some (Delete_Cookie (portal_cookie_name (settings_of ac) portal))),
           revoke_session (sha_of (auth_setup_of ac)) env token (Some portal) remote db))"

fun analytics_api ::
    "(string \<Rightarrow> bool \<Rightarrow> 'q \<Rightarrow> http_error + 'r) \<Rightarrow> access \<Rightarrow> auth_env \<Rightarrow> 'q api_request \<Rightarrow> auth_db
      \<Rightarrow> (http_error + 'r api_response \<times> cookie option) \<times> auth_db" where
  "analytics_api reader ac env (Company_Login endpoint origin name pw remote) db =
     (if \<not> login_request_ok name pw then (Inl (Http 422 ''''), db)
      else (case resolve_endpoint (registry_of ac) endpoint of
          None \<Rightarrow> (Inl (Http 404 ''Unknown company analytics endpoint.''), db)
        | Some c \<Rightarrow> role_login ac env origin name pw remote ''company_user'' (Some (co_id c)) db))"
| "analytics_api reader ac env (Internal_Login origin name pw remote) db =
     (if \<not> login_request_ok name pw then (Inl (Http 422 ''''), db)
      else role_login ac env origin name pw remote ''internal_admin'' None db)"
| "analytics_api reader ac env (Company_Me token) db = current_user ac env token ''company'' db"
| "analytics_api reader ac env (Internal_Me token) db = current_user ac env token ''internal'' db"
| "analytics_api reader ac env (Company_Logout origin token remote) db = portal_logout ac env origin token remote ''company'' db"
| "analytics_api reader ac env (Internal_Logout origin token remote) db = portal_logout ac env origin token remote ''internal'' db"
| "analytics_api reader ac env (Company_Data endpoint api_key token q) db =
     (case require_company ac env endpoint api_key token db of
        (Inl e, db') \<Rightarrow> (Inl e, db')
      | (Inr (c, ck), db') \<Rightarrow> (map_sum id (\<lambda>r. (Data r, ck)) (reader (co_id c) False q), db'))"
| "analytics_api reader ac env (Admin_Data endpoint token q) db =
     (case require_admin_company ac env endpoint token db of
        (Inl e, db') \<Rightarrow> (Inl e, db')
      | (Inr (c, ck), db') \<Rightarrow> (map_sum id (\<lambda>r. (Data r, Some ck)) (reader (co_id c) True q), db'))"
| "analytics_api reader ac env (Admin_Companies token) db =
     (case require_admin ac env token db of
        (Inl e, db') \<Rightarrow> (Inl e, db')
      | (Inr (p, ck), db') \<Rightarrow>
          (Inr (Company_List (map (\<lambda>(k, c). (co_id c, co_slug c)) (companies (registry_of ac))), Some ck), db'))"

subsection \<open>Registered companies are apart\<close>

lemma claim_keys_owners:
  assumes "claim_keys getenv sha ks owners = Inr owners'"
  shows "map_of owners' d = Some o' \<longleftrightarrow> map_of owners d = Some o'
     \<or> (\<exists>(c, name) \<in> set ks. strip (getenv name) \<noteq> [] \<and> sha (strip (getenv name)) = d \<and> o' = co_id c)"
  using assms
proof (induction ks arbitrary: owners)
  case (Cons k ks)
  obtain c name where k: "k = (c, name)" by (cases k)
  show ?case
  proof (cases "strip (getenv name) = []")
    case True
    then show ?thesis using Cons by (auto simp: k)
  next
    case False
    then have "map_of owners (sha (strip (getenv name))) = None"
      and "claim_keys getenv sha ks (AList.update (sha (strip (getenv name))) (co_id c) owners) = Inr owners'"
      using Cons.prems by (auto simp: k Let_def split: option.splits)
    then show ?thesis using Cons.IH False by (auto simp: k update_conv')
  qed
qed simp


lemma claim_tables_Cons:
  assumes "claim_tables ((c, d) # ds) owners = Inr owners'"
  obtains i where "dataset_identity c d = Inr i" "claim_tables ds (AList.update i (co_id c, fst d) owners) = Inr owners'"
    "\<And>p. map_of owners i = Some p \<Longrightarrow> fst p = co_id c"
proof -
  obtain i where i: "dataset_identity c d = Inr i" using assms by (cases "dataset_identity c d") auto
  show thesis
  proof (rule that [OF i])
    show "claim_tables ds (AList.update i (co_id c, fst d) owners) = Inr owners'"
      using assms by (auto simp: i split: option.splits if_splits prod.splits)
    show "fst p = co_id c" if "map_of owners i = Some p" for p
      using assms that by (auto simp: i split: if_splits prod.splits)
  qed
qed

lemma claim_tables_keep:
  "claim_tables ds owners = Inr owners' \<Longrightarrow> map_of owners i = Some p \<Longrightarrow> \<exists>dataset. map_of owners' i = Some (fst p, dataset)"
proof (induction ds arbitrary: owners p)
  case (Cons k ds)
  obtain c d where k: "k = (c, d)" by (cases k)
  obtain j where j: "claim_tables ds (AList.update j (co_id c, fst d) owners) = Inr owners'"
      "\<And>p. map_of owners j = Some p \<Longrightarrow> fst p = co_id c"
    using claim_tables_Cons Cons.prems(1) unfolding k by metis
  show ?case
  proof (cases "i = j")
    case True
    then show ?thesis using Cons.IH [OF j(1), of "(co_id c, fst d)"] j(2) [of p] Cons.prems(2) by (simp add: update_conv')
  next
    case False
    then show ?thesis using Cons.IH [OF j(1), of p] Cons.prems(2) by (simp add: update_conv')
  qed
qed (metis claim_tables.simps(1) prod.collapse sum.inject(2))

lemma claim_tables_owners:
  "claim_tables ds owners = Inr owners' \<Longrightarrow> (c, d) \<in> set ds \<Longrightarrow>
     \<exists>i dataset. dataset_identity c d = Inr i \<and> map_of owners' i = Some (co_id c, dataset)"
proof (induction ds arbitrary: owners)
  case (Cons k ds)
  obtain c' d' where k: "k = (c', d')" by (cases k)
  obtain j where j: "dataset_identity c' d' = Inr j" "claim_tables ds (AList.update j (co_id c', fst d') owners) = Inr owners'"
    using claim_tables_Cons Cons.prems(1) unfolding k by metis
  have "\<exists>dataset. map_of owners' j = Some (co_id c', dataset)"
    using claim_tables_keep [OF j(2), of j "(co_id c', fst d')"] by (simp add: update_conv')
  then show ?case using Cons.IH [OF j(2)] Cons.prems(2) j(1) unfolding k by (cases "(c, d) = (c', d')") auto
qed simp

lemma update_new: "map_of d k = None \<Longrightarrow> AList.update k v d = d @ [(k, v)]"
  by (induction d) auto

lemma load_companies_ids:
  assumes "load_companies files cs = Inr cs'" and "list_all (\<lambda>(k, c). k = co_id c) cs" and "distinct (map fst cs)"
  shows "list_all (\<lambda>(k, c). k = co_id c) cs' \<and> distinct (map fst cs')"
  using assms
proof (induction files cs rule: load_companies.induct)
  case (3 c rest cs)
  have none: "map_of cs (co_id c) = None" and rest: "load_companies rest (cs @ [(co_id c, c)]) = Inr cs'"
    using 3(2) by (auto simp: update_new split: if_splits)
  have "distinct (map fst (cs @ [(co_id c, c)]))" using 3(4) none by (auto simp: map_of_eq_None_iff)
  then show ?case using 3(1,3) none rest by (simp add: update_new)
qed simp_all

text \<open>Equal lengths: no slug was written twice.\<close>

lemma slugs_keys: "fst ` set (foldl (\<lambda>d c. AList.update (co_slug c) c d) d cs) = fst ` set d \<union> co_slug ` set cs"
  by (induction cs arbitrary: d) (auto simp: dom_update)

lemma slugs_distinct: "distinct (map fst d) \<Longrightarrow> distinct (map fst (foldl (\<lambda>d c. AList.update (co_slug c) c d) d cs))"
  by (induction cs arbitrary: d) (simp_all add: distinct_update)

lemma slugs_map_of:
  assumes "distinct (map co_slug cs)"
  shows "map_of (foldl (\<lambda>d c. AList.update (co_slug c) c d) d cs) s =
     (case find (\<lambda>c. co_slug c = s) cs of None \<Rightarrow> map_of d s | Some c \<Rightarrow> Some c)"
  using assms
proof (induction cs arbitrary: d)
  case (Cons c cs)
  have "find (\<lambda>x. co_slug x = co_slug c) cs = None" using Cons.prems by (auto simp: find_None_iff image_iff)
  then show ?case using Cons by (auto simp: update_conv' split: option.split)
qed simp

lemma slugs_unique:
  assumes "length (foldl (\<lambda>d c. AList.update (co_slug c) c d) [] cs) = length cs"
  shows "distinct (map co_slug cs)"
proof -
  have "card (co_slug ` set cs) = length cs"
    using distinct_card [OF slugs_distinct [of "[]" cs]] slugs_keys [of "[]" cs] assms by simp
  then show ?thesis by (simp add: card_distinct)
qed


lemma registry_facts [access_facts]:
  assumes "load_registry getenv sha files = Inr reg"
  shows "distinct (map co_id (map snd (companies reg)))" "distinct (map co_slug (map snd (companies reg)))"
    "resolve_endpoint reg slug = Some c \<Longrightarrow> c \<in> set (map snd (companies reg)) \<and> co_slug c = casefold (strip slug)"
    "map_of (key_owners reg) h = Some o' \<longleftrightarrow> (\<exists>c \<in> set (map snd (companies reg)). co_id c = o'
       \<and> (\<exists>name \<in> set (co_key_envs c). strip (getenv name) \<noteq> [] \<and> sha (strip (getenv name)) = h))"
    "\<lbrakk>c1 \<in> set (map snd (companies reg)); c2 \<in> set (map snd (companies reg)); d1 \<in> set (co_tables c1);
      d2 \<in> set (co_tables c2); dataset_identity c1 d1 = dataset_identity c2 d2\<rbrakk> \<Longrightarrow> co_id c1 = co_id c2"
proof -
  obtain cs where cs: "load_companies files [] = Inr cs" and make: "make_registry getenv sha cs = Inr reg"
    using assms by (auto simp: load_registry_def and_then_Inr)
  let ?slugs = "foldl (\<lambda>d c. AList.update (co_slug c) c d) [] (map snd cs)"
  obtain tables owners where len: "length ?slugs = length cs" and tables: "claim_tables (company_datasets (map snd cs)) [] = Inr tables"
    and owners: "claim_keys getenv sha (company_keys (map snd cs)) [] = Inr owners"
    and reg: "reg = \<lparr>companies = cs, endpoints = ?slugs, key_owners = owners\<rparr>"
    using make by (auto simp: make_registry_def Let_def and_then_Inr split: if_splits)
  have "list_all (\<lambda>(k, c). k = co_id c) cs" "distinct (map fst cs)" using load_companies_ids [OF cs] by simp_all
  moreover from this(1) have "map fst cs = map co_id (map snd cs)" by (induction cs) auto
  ultimately show "distinct (map co_id (map snd (companies reg)))" by (simp add: reg)
  have slugs: "distinct (map co_slug (map snd cs))" by (rule slugs_unique) (simp add: len)
  then show "distinct (map co_slug (map snd (companies reg)))" by (simp add: reg)
  show "c \<in> set (map snd (companies reg)) \<and> co_slug c = casefold (strip slug)" if "resolve_endpoint reg slug = Some c"
    using that slugs_map_of [OF slugs, of "[]"] find_SomeD by (fastforce simp: resolve_endpoint_def reg split: option.splits)
  show "map_of (key_owners reg) h = Some o' \<longleftrightarrow> (\<exists>c \<in> set (map snd (companies reg)). co_id c = o'
       \<and> (\<exists>name \<in> set (co_key_envs c). strip (getenv name) \<noteq> [] \<and> sha (strip (getenv name)) = h))"
    using claim_keys_owners [OF owners, of h o'] by (auto simp: reg company_keys_def)
  have table: "\<exists>i dataset. dataset_identity c d = Inr i \<and> map_of tables i = Some (co_id c, dataset)"
    if "c \<in> set (map snd cs)" "d \<in> set (co_tables c)" for c d
    by (rule claim_tables_owners [OF tables]) (use that in \<open>auto simp: company_datasets_def\<close>)
  show "co_id c1 = co_id c2" if "c1 \<in> set (map snd (companies reg))" "c2 \<in> set (map snd (companies reg))"
      "d1 \<in> set (co_tables c1)" "d2 \<in> set (co_tables c2)" "dataset_identity c1 d1 = dataset_identity c2 d2"
    using table [of c1 d1] table [of c2 d2] that by (auto simp: reg)
qed

lemma distinct_ids: "distinct (map co_id cs) \<Longrightarrow> a \<in> set cs \<Longrightarrow> b \<in> set cs \<Longrightarrow> co_id a = co_id b \<Longrightarrow> a = b"
  by (simp add: distinct_map inj_on_def)

lemma key_authenticates_iff [access_facts]:
  assumes "load_registry getenv sha files = Inr reg"
  shows "key_authenticates sha reg slug key = Some c \<longleftrightarrow> resolve_endpoint reg slug = Some c \<and> key \<noteq> []
    \<and> (\<exists>name \<in> set (co_key_envs c). strip (getenv name) \<noteq> [] \<and> sha (strip (getenv name)) = sha key)"
proof -
  note facts = registry_facts [OF assms]
  have "map_of (key_owners reg) (sha key) = Some (co_id c) \<longleftrightarrow>
      (\<exists>name \<in> set (co_key_envs c). strip (getenv name) \<noteq> [] \<and> sha (strip (getenv name)) = sha key)"
    if "resolve_endpoint reg slug = Some c"
    using facts(4) [of "sha key" "co_id c"] facts(3) [OF that] distinct_ids [OF facts(1)] by metis
  then show ?thesis by (auto simp: key_authenticates_def split: option.splits)
qed

theorem registry_isolated:
  assumes "load_registry getenv sha files = Inr reg"
  shows "distinct (map co_id (map snd (companies reg))) \<and> distinct (map co_slug (map snd (companies reg)))
    \<and> (key_authenticates sha reg slug key = Some c \<longleftrightarrow> resolve_endpoint reg slug = Some c \<and> key \<noteq> []
        \<and> (\<exists>name \<in> set (co_key_envs c). strip (getenv name) \<noteq> [] \<and> sha (strip (getenv name)) = sha key))
    \<and> (c1 \<in> set (map snd (companies reg)) \<and> c2 \<in> set (map snd (companies reg)) \<and> d1 \<in> set (co_tables c1)
        \<and> d2 \<in> set (co_tables c2) \<and> dataset_identity c1 d1 = dataset_identity c2 d2 \<longrightarrow> c1 = c2)"
  using registry_facts(1,2,5) [OF assms] key_authenticates_iff [OF assms] distinct_ids [OF registry_facts(1) [OF assms], of c1 c2]
  by blast


subsection \<open>Only authorised data\<close>

lemma principal_has_login:
  assumes "auth_run (auth_setup_of ac) ops auth_empty = (answers, db)"
    and "session_principal ac env token (Some portal) db = (Inr (Some p), db')"
  shows "\<exists>tok. token = Some tok \<and> login_behind (auth_setup_of ac) answers (env_now env) tok p \<and> portal = portal_of (pr_role p)"
proof -
  have r: "resolve_session (sha_of (auth_setup_of ac)) (config_of (auth_setup_of ac)) env token (Some portal) db = (Inr (Some p), db')"
    using assms(2) by (auto simp: session_principal_def split: prod.splits sum.splits)
  then obtain tok where "token = Some tok" by (cases token) (simp_all add: resolve_session_def)
  then show ?thesis using resolved_has_login [OF assms(1), of env tok "Some portal" p] r by auto
qed

lemma company_right:
  assumes "auth_run (auth_setup_of ac) ops auth_empty = (answers, db)"
    and "require_company ac env endpoint api_key token db = (Inr (c, ck), db')"
  shows "resolve_endpoint (registry_of ac) endpoint = Some c
    \<and> ((\<exists>tok p. token = Some tok \<and> pr_role p = ''company_user'' \<and> pr_company p = Some (co_id c)
          \<and> login_behind (auth_setup_of ac) answers (env_now env) tok p)
       \<or> (\<exists>key. api_key = Some key \<and> key_authenticates (sha_of (auth_setup_of ac)) (registry_of ac) endpoint key = Some c))"
proof -
  obtain c' where c': "resolve_endpoint (registry_of ac) endpoint = Some c'"
    using assms(2) by (auto simp: require_company_def split: option.splits)
  obtain r db1 where s: "session_principal ac env token (Some ''company'') db = (r, db1)"
    by (cases "session_principal ac env token (Some ''company'') db")
  show ?thesis
  proof (cases "\<exists>p. r = Inr (Some p)")
    case True
    then obtain p where p: "r = Inr (Some p)" by blast
    then have "\<not> internal p" "pr_company p = Some (co_id c')" "c = c'"
      using assms(2) by (auto simp: require_company_def c' s split: if_splits)
    moreover obtain tok where "token = Some tok" "login_behind (auth_setup_of ac) answers (env_now env) tok p"
        "''company'' = portal_of (pr_role p)"
      using principal_has_login [OF assms(1) s [unfolded p]] by blast
    moreover from this(3) have "pr_role p = ''company_user''" by (simp add: portal_of_def split: if_splits)
    ultimately show ?thesis using c' by blast
  next
    case False
    then obtain key where "api_key = Some key" "key_authenticates (sha_of (auth_setup_of ac)) (registry_of ac) endpoint key = Some c"
      using assms(2) by (auto simp: require_company_def c' s split: sum.splits option.splits if_splits)
    moreover from this(2) have "c = c'" using c' by (auto simp: key_authenticates_def split: option.splits if_splits)
    ultimately show ?thesis using c' by blast
  qed
qed

lemma admin_right:
  assumes "auth_run (auth_setup_of ac) ops auth_empty = (answers, db)"
    and "require_admin_company ac env endpoint token db = (Inr (c, ck), db')"
  shows "resolve_endpoint (registry_of ac) endpoint = Some c
    \<and> (\<exists>tok p. token = Some tok \<and> pr_role p = ''internal_admin'' \<and> login_behind (auth_setup_of ac) answers (env_now env) tok p)"
proof -
  obtain p db1 where p: "session_principal ac env token (Some ''internal'') db = (Inr (Some p), db1)" "internal p"
      "resolve_endpoint (registry_of ac) endpoint = Some c"
    using assms(2) unfolding require_admin_company_def require_admin_def require_user_def
    by (auto split: prod.splits sum.splits option.splits if_splits)
  then show ?thesis using principal_has_login [OF assms(1) p(1)] by (auto simp: internal_def)
qed

text \<open>
  C9: A company endpoint only ever returns data read for its own company and the company
  audience, and only to a live session of a user bound to that company or to the bearer of one
  of its own API keys; internal data needs the live session of an internal admin.
\<close>

theorem analytics_data_authorised:
  assumes "auth_run w ops auth_empty = (answers, db)" and "load_registry getenv (sha_of w) files = Inr reg"
    and "ac = \<lparr>auth_setup_of = w, registry_of = reg, settings_of = st\<rparr>"
  shows "(fst (analytics_api reader ac env (Company_Data endpoint api_key token q) db) = Inr (Data r, ck) \<longrightarrow>
      (\<exists>c. resolve_endpoint reg endpoint = Some c \<and> reader (co_id c) False q = Inr r
        \<and> ((\<exists>tok p. token = Some tok \<and> pr_role p = ''company_user'' \<and> pr_company p = Some (co_id c)
               \<and> login_behind w answers (env_now env) tok p)
           \<or> (\<exists>key name. api_key = Some key \<and> name \<in> set (co_key_envs c) \<and> strip (getenv name) \<noteq> []
               \<and> sha_of w (strip (getenv name)) = sha_of w key))))
    \<and> (fst (analytics_api reader ac env (Admin_Data endpoint token q) db) = Inr (Data r, ck) \<longrightarrow>
      (\<exists>c tok p. resolve_endpoint reg endpoint = Some c \<and> reader (co_id c) True q = Inr r
        \<and> token = Some tok \<and> pr_role p = ''internal_admin'' \<and> login_behind w answers (env_now env) tok p))"
proof (intro conjI impI)
  have run: "auth_run (auth_setup_of ac) ops auth_empty = (answers, db)" using assms(1,3) by simp
  have parts: "auth_setup_of ac = w" "registry_of ac = reg" by (simp_all add: assms(3))
  {
    assume a: "fst (analytics_api reader ac env (Company_Data endpoint api_key token q) db) = Inr (Data r, ck)"
    obtain c ck' db' where c: "require_company ac env endpoint api_key token db = (Inr (c, ck'), db')"
        "reader (co_id c) False q = Inr r"
      using a by (auto split: prod.splits sum.splits elim!: map_sum_InrE)
    note right = company_right [OF run c(1)]
    have key: "key_authenticates (sha_of w) reg endpoint key = Some c \<Longrightarrow>
        \<exists>name. name \<in> set (co_key_envs c) \<and> strip (getenv name) \<noteq> [] \<and> sha_of w (strip (getenv name)) = sha_of w key" for key
      using key_authenticates_iff [OF assms(2)] by blast
    show "\<exists>c. resolve_endpoint reg endpoint = Some c \<and> reader (co_id c) False q = Inr r
        \<and> ((\<exists>tok p. token = Some tok \<and> pr_role p = ''company_user'' \<and> pr_company p = Some (co_id c)
               \<and> login_behind w answers (env_now env) tok p)
           \<or> (\<exists>key name. api_key = Some key \<and> name \<in> set (co_key_envs c) \<and> strip (getenv name) \<noteq> []
               \<and> sha_of w (strip (getenv name)) = sha_of w key))"
      using right c(2) key unfolding parts by blast
  next
    assume a: "fst (analytics_api reader ac env (Admin_Data endpoint token q) db) = Inr (Data r, ck)"
    obtain c ck' db' where c: "require_admin_company ac env endpoint token db = (Inr (c, ck'), db')" "reader (co_id c) True q = Inr r"
      using a by (auto split: prod.splits sum.splits elim!: map_sum_InrE)
    then show "\<exists>c tok p. resolve_endpoint reg endpoint = Some c \<and> reader (co_id c) True q = Inr r
        \<and> token = Some tok \<and> pr_role p = ''internal_admin'' \<and> login_behind w answers (env_now env) tok p"
      using admin_right [OF run c(1)] unfolding parts by blast
  }
qed


subsection \<open>A sample registry\<close>

definition sample_company :: "string \<Rightarrow> company_config" where
  "sample_company name = (let target = \<lparr>db_backend = ''mysql'', db_host = ''db'', db_port = 1, db_name = name, db_schema = []\<rparr>
     in \<lparr>co_id = name, co_slug = name, co_key_envs = [name], co_database = target, co_telemetry = target,
       co_tables = [(''ads'', ''ads'')], co_spec_database = [(''ads'', ''company'')]\<rparr>)"

definition sample_getenv :: "string \<Rightarrow> string" where
  "sample_getenv name = (if name = ''acme'' then ''key1'' else if name = ''bolt'' then ''key2'' else '''')"

definition sample_registry :: registry where
  "sample_registry = \<lparr>companies = [(''acme'', sample_company ''acme''), (''bolt'', sample_company ''bolt'')],
     endpoints = [(''acme'', sample_company ''acme''), (''bolt'', sample_company ''bolt'')],
     key_owners = [(''key1'', ''acme''), (''key2'', ''bolt'')]\<rparr>"

lemma sample_registry_loads:
  "load_registry sample_getenv (sha_of sample_setup) [Some (sample_company ''acme''), None, Some (sample_company ''bolt'')] = Inr sample_registry"
  by code_simp

theorem registry_isolated_witness:
  "key_authenticates (sha_of sample_setup) sample_registry ''acme'' ''key1'' = Some (sample_company ''acme'')
   \<and> key_authenticates (sha_of sample_setup) sample_registry ''bolt'' ''key1'' \<noteq> Some (sample_company ''bolt'')"
proof -
  have c: "resolve_endpoint sample_registry ''acme'' = Some (sample_company ''acme'')"
      "resolve_endpoint sample_registry ''bolt'' = Some (sample_company ''bolt'')" by code_simp+
  have k: "strip (sample_getenv ''acme'') = ''key1''" "strip (sample_getenv ''bolt'') = ''key2''" by code_simp+
  have envs: "set (co_key_envs (sample_company n)) = {n}" for n by (simp add: sample_company_def Let_def)
  show ?thesis
    using registry_isolated [OF sample_registry_loads, of "''acme''" "''key1''" "sample_company ''acme''",
        THEN conjunct2, THEN conjunct2, THEN conjunct1]
      registry_isolated [OF sample_registry_loads, of "''bolt''" "''key1''" "sample_company ''bolt''",
        THEN conjunct2, THEN conjunct2, THEN conjunct1]
    unfolding c envs by (simp add: k) (simp add: sample_setup_def)
qed

definition sample_access :: access where
  "sample_access = \<lparr>auth_setup_of = sample_setup, registry_of = sample_registry,
     settings_of = \<lparr>cors_origins = [], company_cookie = ''c'', internal_cookie = ''i''\<rparr>\<rparr>"

theorem analytics_data_authorised_witness:
  "fst (analytics_api (\<lambda>company internal q. Inr (company, internal)) sample_access (sample_env 5 [])
      (Company_Data ''acme'' (Some ''key1'') None ()) auth_empty) = Inr (Data (''acme'', False), None)
   \<and> (\<exists>c name. resolve_endpoint sample_registry ''acme'' = Some c \<and> name \<in> set (co_key_envs c)
       \<and> strip (sample_getenv name) = ''key1'')"
proof -
  have run: "auth_run sample_setup [] auth_empty = ([], auth_empty)" by simp
  have a: "fst (analytics_api (\<lambda>company internal q. Inr (company, internal)) sample_access (sample_env 5 [])
      (Company_Data ''acme'' (Some ''key1'') None ()) auth_empty) = Inr (Data (''acme'', False), None)"
  proof -
    have "resolve_endpoint sample_registry ''acme'' = Some (sample_company ''acme'')"
        "key_authenticates (\<lambda>t. t) sample_registry ''acme'' ''key1'' = Some (sample_company ''acme'')"
        "co_id (sample_company ''acme'') = ''acme''" by code_simp+
    then show ?thesis
      by (simp add: sample_access_def sample_setup_def require_company_def session_principal_def resolve_session_def)
  qed
  have "\<exists>c. resolve_endpoint sample_registry ''acme'' = Some c \<and> (\<exists>name. name \<in> set (co_key_envs c)
       \<and> sha_of sample_setup (strip (sample_getenv name)) = sha_of sample_setup ''key1'')"
    using analytics_data_authorised [OF run sample_registry_loads sample_access_def,
      where reader = "\<lambda>company internal q. Inr (company, internal)" and token = None and q = "()" and r = "(''acme'', False)"
        and ck = None and env = "sample_env 5 []" and endpoint = "''acme''" and api_key = "Some ''key1''"] a
    by auto
  then show ?thesis using a by (auto simp: sample_setup_def)
qed

end
