(* ===== verification/Analytics_Events.thy ===== *)
theory Analytics_Events
  imports Search_Service
begin

text \<open>
  \<open>storage/search_analytics.py\<close> and the first part of \<open>storage/search_analytics_spool.py\<close>: the
  analytics event of a search, the sanitised context, and its JSON payload in the local spool. A
  payload is the JSON value (\<open>json.loads\<close> after \<open>json.dumps\<close> is the identity on it); an instant is its
  UTC ISO text, and \<open>is_iso\<close> says which texts \<open>datetime.fromisoformat\<close> accepts. The frozen sets of
  field names are read in a fixed order, and text of containers is abbreviated.
\<close>

named_theorems event_facts \<open>facts of analytics events\<close>

subsection \<open>Events\<close>

record api_usage =
  au_provider :: string
  au_model :: string
  au_operation :: string
  au_status :: string
  au_calls :: int
  au_input :: int
  au_output :: int
  au_thought :: int
  au_total :: int
  au_duration :: pyfloat
  au_reason :: string

record analytics_event =
  ae_company :: string
  ae_query :: string
  ae_path :: string
  ae_duration :: pyfloat
  ae_results :: int
  ae_total_results :: int
  ae_status :: string
  ae_usage :: "api_usage list"
  ae_plan_hit :: pyval
  ae_result_hit :: pyval
  ae_timings :: "(string, pyfloat) dict"
  ae_context :: pyval
  ae_request :: string
  ae_created :: string

definition usage_sum :: "(api_usage \<Rightarrow> int) \<Rightarrow> analytics_event \<Rightarrow> int" where
  "usage_sum f e = sum_list (map (\<lambda>u. max (f u) 0) (ae_usage e))"

definition SEARCH_ANALYTICS_TIMING_FIELDS :: "string list" where
  "SEARCH_ANALYTICS_TIMING_FIELDS = [''total_server_ms'', ''planning_ms'', ''query_model_ms'', ''query_model_load_ms'', ''engine_total_ms'', ''result_cache_ms'', ''embedding_ms'',
     ''embedding_load_ms'', ''vector_search_ms'', ''bm25_search_ms'', ''retrieval_ms'', ''parallel_retrieval_ms'', ''fusion_ms'',
     ''type_lookup_ms'', ''reranker_load_ms'', ''reranking_ms'', ''related_tail_ms'', ''database_filter_ms'', ''eligibility_ms'',
     ''hydration_ms'', ''response_mapping_ms'', ''session_storage_ms'', ''usage_recording_ms'', ''recent_search_ms'',
     ''filter_diagnostics_ms'']"

definition SEARCH_ANALYTICS_CONTEXT_FIELDS :: "string list" where
  "SEARCH_ANALYTICS_CONTEXT_FIELDS = [''main_category'', ''main_category_id'', ''subcategory_id'', ''subcategory'', ''state'',
     ''city_id'', ''city'', ''locality_id'', ''locality'', ''rental_duration'', ''min_rental_fee'', ''max_rental_fee'',
     ''target_ad_type'', ''route_reason'', ''retrieved_candidates'', ''eligible_candidates'', ''hydrated_results'',
     ''returned_results'']"

definition NESTED_FILTER_FIELDS :: "string list" where
  "NESTED_FILTER_FIELDS = [''main_category'', ''main_category_id'', ''subcategory'', ''subcategory_id'', ''state'', ''city'',
     ''city_id'', ''locality'', ''locality_id'', ''rental_duration'', ''min_rental_fee'', ''max_rental_fee'',
     ''target_ad_type'', ''fee'', ''sort_by'']"

subsection \<open>The sanitised context\<close>

fun sanitize_scalar :: "pyval \<Rightarrow> pyval option" where
  "sanitize_scalar (VStr s) = (let t = take 191 (strip s) in if t = [] then None else Some (VStr t))"
| "sanitize_scalar (VBool b) = Some (VBool b)"
| "sanitize_scalar (VInt i) = Some (VInt i)"
| "sanitize_scalar (VFloat q) = Some (VFloat q)"
| "sanitize_scalar _ = None"

fun plain_scalar :: "pyval \<Rightarrow> bool" where
  "plain_scalar (VStr s) = True" | "plain_scalar (VBool b) = True" | "plain_scalar (VInt i) = True"
| "plain_scalar (VFloat q) = True" | "plain_scalar _ = False"

definition sanitize_nested :: "pyval \<Rightarrow> pyval option" where
  "sanitize_nested v = (case v of
     VList xs \<Rightarrow> (let safe = filter plain_scalar (take 20 xs) in if safe = [] then None else Some (VList safe))
   | _ \<Rightarrow> sanitize_scalar v)"

definition sanitize_items :: "(pyval \<Rightarrow> pyval option) \<Rightarrow> string list \<Rightarrow> pydict \<Rightarrow> pydict" where
  "sanitize_items f names d = concat (map (\<lambda>k. case f (dget d k) of None \<Rightarrow> [] | Some v \<Rightarrow> [(k, v)]) names)"

definition sanitize_container :: "pydict \<Rightarrow> string \<Rightarrow> pydict" where
  "sanitize_container d k = (case dget d k of
     VDict c \<Rightarrow> (let nested = sanitize_items sanitize_nested NESTED_FILTER_FIELDS c in if nested = [] then [] else [(k, VDict nested)])
   | _ \<Rightarrow> [])"

text \<open>\<open>[str(x).strip()[:n] for x in xs if str(x).strip()]\<close>\<close>

definition short_texts :: "nat \<Rightarrow> pyval list \<Rightarrow> pyval list" where
  "short_texts n xs = concat (map (\<lambda>x. let s = strip (py_str x) in if s = [] then [] else [VStr (take n s)]) xs)"

definition sanitize_ignored :: "pydict \<Rightarrow> pydict" where
  "sanitize_ignored d = (case dget d ''ignored_filter_names'' of
     VList xs \<Rightarrow> (let names = short_texts 64 (take 32 xs) in if names = [] then [] else [(''ignored_filter_names'', VList names)])
   | _ \<Rightarrow> [])"

definition int_or_float :: "pyval \<Rightarrow> int option" where
  "int_or_float v = (case v of VBool b \<Rightarrow> to_int v | VInt i \<Rightarrow> to_int v | VFloat q \<Rightarrow> to_int v | _ \<Rightarrow> None)"

definition counterfactual_counts :: "pydict \<Rightarrow> pydict" where
  "counterfactual_counts c = fold (\<lambda>(k, v) out. case int_or_float v of
       Some i \<Rightarrow> if strip k = [] then out else AList.update (take 64 (strip k)) (VInt (max i 0)) out | None \<Rightarrow> out) c []"

definition sanitize_diagnostics :: "pydict \<Rightarrow> py_error + pydict" where
  "sanitize_diagnostics d = (case dget d ''filter_diagnostics'' of
     VDict a \<Rightarrow>
       and_then (case or_else (dget a ''counterfactual_counts'') (VDict []) of
           VDict c \<Rightarrow> Inr c | _ \<Rightarrow> Inl (TypeError ''dict'')) (\<lambda>c.
       and_then (elements_of (or_else (dget a ''blocking_filters'') (VList []))) (\<lambda>blocking.
         Inr [(''filter_diagnostics'', VDict [
           (''evidence_complete'', VBool (truthy (dget a ''evidence_complete''))),
           (''diagnosis'', VStr (take 128 (py_str (or_else (dget a ''diagnosis'') (VStr []))))),
           (''counterfactual_counts'', VDict (counterfactual_counts c)),
           (''blocking_filters'', VList (take 16 (short_texts 64 blocking)))])]))
   | _ \<Rightarrow> Inr [])"

definition sanitize_context :: "pyval \<Rightarrow> py_error + pydict" where
  "sanitize_context v = (case v of
     VDict d \<Rightarrow> and_then (sanitize_diagnostics d) (\<lambda>diagnostics.
       Inr (sanitize_items sanitize_scalar SEARCH_ANALYTICS_CONTEXT_FIELDS d
         @ sanitize_container d ''explicit_filters'' @ sanitize_container d ''inferred_filters''
         @ sanitize_ignored d @ diagnostics))
   | _ \<Rightarrow> Inr [])"

subsection \<open>The payload of an event\<close>

definition usage_payload :: "api_usage \<Rightarrow> pyval" where
  "usage_payload u = VDict [(''provider'', VStr (au_provider u)), (''model'', VStr (au_model u)),
     (''operation'', VStr (au_operation u)), (''status'', VStr (au_status u)), (''api_calls'', VInt (au_calls u)),
     (''input_tokens'', VInt (au_input u)), (''output_tokens'', VInt (au_output u)), (''thought_tokens'', VInt (au_thought u)),
     (''total_tokens'', VInt (au_total u)), (''duration_ms'', VFloat (au_duration u)), (''failure_reason'', VStr (au_reason u))]"

definition spool_timings :: "analytics_event \<Rightarrow> (string, pyfloat) dict" where
  "spool_timings e = filter (\<lambda>t. fst t \<in> set SEARCH_ANALYTICS_TIMING_FIELDS) (ae_timings e)"

definition serialize_event :: "analytics_event \<Rightarrow> py_error + pydict" where
  "serialize_event e = and_then (sanitize_context (ae_context e)) (\<lambda>context. Inr [
     (''schema_version'', VInt 4), (''request_id'', VStr (ae_request e)), (''company_id'', VStr (ae_company e)),
     (''query_text'', VStr (ae_query e)), (''execution_path'', VStr (ae_path e)), (''result_count'', VInt (ae_results e)),
     (''total_results'', VInt (ae_total_results e)), (''status'', VStr (ae_status e)), (''duration_ms'', VFloat (ae_duration e)),
     (''plan_cache_hit'', ae_plan_hit e), (''result_cache_hit'', ae_result_hit e),
     (''timings_ms'', VDict (map (\<lambda>(k, q). (k, VFloat q)) (spool_timings e))), (''context'', VDict context),
     (''created_at'', VStr (ae_created e)), (''api_usage'', VList (map usage_payload (ae_usage e)))])"

text \<open>\<open>int(d.get(k, 0))\<close> and \<open>float(d.get(k, 0.0))\<close>; \<open>None\<close> and containers are refused.\<close>

definition int_at :: "pydict \<Rightarrow> string \<Rightarrow> py_error + int" where
  "int_at d k = (case to_int (dget_or d k (VInt 0)) of None \<Rightarrow> Inl (ValueError ''int'') | Some i \<Rightarrow> Inr i)"

definition float_of :: "pyval \<Rightarrow> py_error + pyfloat" where
  "float_of v = (case to_float v of None \<Rightarrow> Inl (ValueError ''float'') | Some q \<Rightarrow> Inr q)"

definition read_usage :: "pyval \<Rightarrow> py_error + api_usage" where
  "read_usage v = and_then (as_dict v) (\<lambda>d.
     and_then (int_at d ''api_calls'') (\<lambda>calls. and_then (int_at d ''input_tokens'') (\<lambda>i.
     and_then (int_at d ''output_tokens'') (\<lambda>out. and_then (int_at d ''thought_tokens'') (\<lambda>thought.
     and_then (int_at d ''total_tokens'') (\<lambda>total_tokens.
     and_then (float_of (dget_or d ''duration_ms'' (VFloat 0))) (\<lambda>duration.
       Inr \<lparr>au_provider = text_or d ''provider'' [], au_model = text_or d ''model'' [], au_operation = text_or d ''operation'' [],
         au_status = text_or d ''status'' ''success'', au_calls = calls, au_input = i, au_output = out, au_thought = thought,
         au_total = total_tokens, au_duration = duration, au_reason = text_or d ''failure_reason'' []\<rparr>)))))))"

definition deserialize_event :: "(string \<Rightarrow> bool) \<Rightarrow> pydict \<Rightarrow> py_error + analytics_event" where
  "deserialize_event is_iso d =
     and_then (int_at d ''schema_version'') (\<lambda>version.
     if version \<notin> {1, 2, 3, 4} then Inl (ValueError ''Unsupported search analytics spool schema'')
     else
     and_then (dict_item d ''request_id'') (\<lambda>request. and_then (dict_item d ''company_id'') (\<lambda>company.
     and_then (dict_item d ''query_text'') (\<lambda>query. and_then (dict_item d ''execution_path'') (\<lambda>path.
     and_then (int_at d ''result_count'') (\<lambda>results. and_then (int_at d ''total_results'') (\<lambda>totals.
     and_then (float_of (dget_or d ''duration_ms'' (VFloat 0))) (\<lambda>duration.
     and_then (as_dict (or_else (dget d ''timings_ms'') (VDict []))) (\<lambda>timings.
     and_then (map_ok (\<lambda>(k, v). and_then (float_of v) (\<lambda>q. Inr (k, q))) timings) (\<lambda>timing_values.
     and_then (sanitize_context (dget d ''context'')) (\<lambda>context.
     and_then (dict_item d ''created_at'') (\<lambda>created.
     if \<not> is_iso (py_str created) then Inl (ValueError ''Invalid isoformat string'')
     else
     and_then (elements_of (or_else (dget d ''api_usage'') (VList []))) (\<lambda>rows.
     and_then (map_ok read_usage rows) (\<lambda>usages.
       Inr \<lparr>ae_company = py_str company, ae_query = py_str query, ae_path = py_str path, ae_duration = duration,
         ae_results = results, ae_total_results = totals, ae_status = text_or d ''status'' ''success'', ae_usage = usages,
         ae_plan_hit = dget d ''plan_cache_hit'', ae_result_hit = dget d ''result_cache_hit'', ae_timings = timing_values,
         ae_context = VDict context, ae_request = py_str request, ae_created = py_str created\<rparr>))))))))))))))"


subsection \<open>A payload reads back\<close>

lemma map_ok_all: "(\<And>x. x \<in> set xs \<Longrightarrow> f x = Inr (g x)) \<Longrightarrow> map_ok f xs = Inr (map g xs)"
  by (induction xs) auto

lemma read_usage_payload: "au_status u \<noteq> [] \<Longrightarrow> read_usage (usage_payload u) = Inr u"
  by (simp add: read_usage_def usage_payload_def as_dict_def int_at_def float_of_def dget_or_def text_or_def dget_def or_else_def)

lemma sanitize_items_keys: "fst ` set (sanitize_items f names d) \<subseteq> set names"
  by (auto simp: sanitize_items_def split: option.splits)

lemma sanitized_keys:
  "''filter_diagnostics'' \<notin> fst ` set (sanitize_items f SEARCH_ANALYTICS_CONTEXT_FIELDS d)"
  "''filter_diagnostics'' \<notin> fst ` set (sanitize_container d ''explicit_filters'')"
  "''filter_diagnostics'' \<notin> fst ` set (sanitize_container d ''inferred_filters'')"
  "''filter_diagnostics'' \<notin> fst ` set (sanitize_ignored d)"
  using sanitize_items_keys [of f SEARCH_ANALYTICS_CONTEXT_FIELDS d]
  by (auto simp: SEARCH_ANALYTICS_CONTEXT_FIELDS_def sanitize_container_def sanitize_ignored_def Let_def split: pyval.splits if_splits)

lemma dget_append: "k \<notin> fst ` set xs \<Longrightarrow> dget (xs @ ys) k = dget ys k"
  by (auto simp: dget_def map_add_def map_of_eq_None_iff [symmetric] split: option.split)

lemma sanitize_total:
  assumes "sanitize_context v = Inr c"
  shows "\<exists>c'. sanitize_context (VDict c) = Inr c'"
proof -
  have "\<exists>x. sanitize_diagnostics c = Inr x"
  proof (cases v)
    case (VDict d)
    then obtain g where g: "sanitize_diagnostics d = Inr g"
      and c: "c = sanitize_items sanitize_scalar SEARCH_ANALYTICS_CONTEXT_FIELDS d
         @ sanitize_container d ''explicit_filters'' @ sanitize_container d ''inferred_filters'' @ sanitize_ignored d @ g"
      using assms by (auto simp: sanitize_context_def and_then_Inr)
    have "dget c ''filter_diagnostics'' = dget g ''filter_diagnostics''" unfolding c by (simp add: dget_append sanitized_keys)
    moreover have "dget g ''filter_diagnostics'' = VNone \<or> (\<exists>a x y z w. dget g ''filter_diagnostics'' = VDict
        [(''evidence_complete'', x), (''diagnosis'', y), (''counterfactual_counts'', VDict z), (''blocking_filters'', VList w)])"
      using g by (cases "dget d ''filter_diagnostics''") (auto simp: sanitize_diagnostics_def dget_def and_then_Inr)
    ultimately show ?thesis
      by (auto simp: sanitize_diagnostics_def dget_def [of "(_, _) # _"] or_else_def elements_of_def)
  qed (use assms in \<open>auto simp: sanitize_context_def sanitize_diagnostics_def dget_def\<close>)
  then show ?thesis by (auto simp: sanitize_context_def)
qed

definition readable_event :: "(string \<Rightarrow> bool) \<Rightarrow> analytics_event \<Rightarrow> bool" where
  "readable_event is_iso e \<longleftrightarrow> is_iso (ae_created e) \<and> ae_status e \<noteq> [] \<and> list_all (\<lambda>u. au_status u \<noteq> []) (ae_usage e)"

lemma event_reads_back:
  assumes "serialize_event e = Inr payload" and "readable_event is_iso e"
  shows "\<exists>context again. sanitize_context (ae_context e) = Inr context \<and> sanitize_context (VDict context) = Inr again
    \<and> deserialize_event is_iso payload = Inr (e\<lparr>ae_timings := spool_timings e, ae_context := VDict again\<rparr>)"
proof -
  obtain ctx where c: "sanitize_context (ae_context e) = Inr ctx"
    using assms(1) by (auto simp: serialize_event_def and_then_Inr)
  obtain again where a: "sanitize_context (VDict ctx) = Inr again" using sanitize_total [OF c] by blast
  have "list_all (\<lambda>u. au_status u \<noteq> []) us \<Longrightarrow> map_ok read_usage (map usage_payload us) = Inr us" for us
    by (induction us) (auto simp: read_usage_payload)
  then have usages: "map_ok read_usage (map usage_payload (ae_usage e)) = Inr (ae_usage e)" using assms(2) by (simp add: readable_event_def)
  have timings: "map_ok (\<lambda>(k, v). and_then (float_of v) (\<lambda>q. Inr (k, q))) (map (\<lambda>(k, q). (k, VFloat q)) ts) = Inr ts" for ts
    by (induction ts) (auto simp: float_of_def)
  have parts: "or_else (VDict xs) (VDict []) = VDict xs" "or_else (VList ys) (VList []) = VList ys" for xs ys
    by (simp_all add: or_else_def)
  have p: "payload = [
     (''schema_version'', VInt 4), (''request_id'', VStr (ae_request e)), (''company_id'', VStr (ae_company e)),
     (''query_text'', VStr (ae_query e)), (''execution_path'', VStr (ae_path e)), (''result_count'', VInt (ae_results e)),
     (''total_results'', VInt (ae_total_results e)), (''status'', VStr (ae_status e)), (''duration_ms'', VFloat (ae_duration e)),
     (''plan_cache_hit'', ae_plan_hit e), (''result_cache_hit'', ae_result_hit e),
     (''timings_ms'', VDict (map (\<lambda>(k, q). (k, VFloat q)) (spool_timings e))), (''context'', VDict ctx),
     (''created_at'', VStr (ae_created e)), (''api_usage'', VList (map usage_payload (ae_usage e)))]"
    using assms(1) by (simp add: serialize_event_def c)
  have "deserialize_event is_iso payload = Inr (e\<lparr>ae_timings := spool_timings e, ae_context := VDict again\<rparr>)"
    using assms(2) unfolding deserialize_event_def p readable_event_def
    by (simp add: int_at_def dget_or_def dict_item_def float_of_def dget_def text_or_def parts as_dict_def elements_of_def
        timings [unfolded float_of_def] usages a) (simp add: or_else_def)
  then show ?thesis using c a by blast
qed


text \<open>What a service spools is what the delivery reads: an event with a status reads back from its
  payload as itself, but for the timings that are not tracked and the context, which is sanitised twice.\<close>

text \<open>
  C37: What a service spools is what the delivery reads: an event with its statuses reads back
  from its payload as itself, but for timings that are not tracked and the context, which is
  sanitised once more.
\<close>

theorem spooled_event_reads_back:
  assumes "serialize_event e = Inr payload" and "readable_event is_iso e"
  shows "\<exists>context again. sanitize_context (ae_context e) = Inr context \<and> sanitize_context (VDict context) = Inr again
    \<and> deserialize_event is_iso payload = Inr (e\<lparr>ae_timings := spool_timings e, ae_context := VDict again\<rparr>)"
  by (rule event_reads_back [OF assms])

definition sample_event :: analytics_event where
  "sample_event = \<lparr>ae_company = ''acme'', ae_query = ''red cup'', ae_path = ''semantic'', ae_duration = 12, ae_results = 3,
     ae_total_results = 9, ae_status = ''success'', ae_usage = [], ae_plan_hit = VBool True, ae_result_hit = VNone,
     ae_timings = [(''planning_ms'', 5), (''secret_ms'', 1)], ae_context = VDict [(''city'', VStr '' Pune ''), (''x'', VInt 1)],
     ae_request = ''r1'', ae_created = ''2026-01-01T00:00:00+00:00''\<rparr>"

theorem spooled_event_reads_back_witness:
  "\<exists>payload. serialize_event sample_event = Inr payload \<and> deserialize_event (\<lambda>t. True) payload =
     Inr (sample_event\<lparr>ae_timings := [(''planning_ms'', 5)], ae_context := VDict [(''city'', VStr ''Pune'')]\<rparr>)"
proof -
  have c: "sanitize_context (ae_context sample_event) = Inr [(''city'', VStr ''Pune'')]"
      "sanitize_context (VDict [(''city'', VStr ''Pune'')]) = Inr [(''city'', VStr ''Pune'')]"
    by code_simp+
  then obtain payload where p: "serialize_event sample_event = Inr payload" by (simp add: serialize_event_def)
  have t: "spool_timings sample_event = [(''planning_ms'', 5)]"
    by (simp add: spool_timings_def sample_event_def SEARCH_ANALYTICS_TIMING_FIELDS_def)
  have "readable_event (\<lambda>t. True) sample_event" by (simp add: sample_event_def readable_event_def)
  from spooled_event_reads_back [OF p this] show ?thesis using c p t by auto
qed

end
