(* ===== verification/Analytics_Spool.thy ===== *)
theory Analytics_Spool
  imports Analytics_Events
begin

text \<open>
  The path of an analytics event: the bounded queue and worker of \<open>SQLiteSearchAnalyticsSpoolStore\<close>,
  the spool table that companies share, and \<open>deliver_search_analytics_spool\<close> with the idempotent batch
  write into the company's MySQL tables. Each transaction is one step; failures, crashes and their
  moments are choices of the environment.
\<close>

named_theorems spool_facts \<open>facts of the analytics spool\<close>

subsection \<open>The batch write\<close>

record usage_record =
  ur_company :: string
  ur_path :: string
  ur_results :: int
  ur_total_results :: int
  ur_status :: string
  ur_calls :: int
  ur_input :: int
  ur_output :: int
  ur_thought :: int
  ur_total :: int
  ur_duration :: pyfloat
  ur_attempts :: "(nat \<times> api_usage) list"
  ur_plan_hit :: pyval
  ur_result_hit :: pyval
  ur_timings :: "(string, pyfloat) dict"
  ur_context :: pydict
  ur_created :: string

record analytics_db =
  history :: "(string, string \<times> string) dict"
  usage_rows :: "(string, usage_record) dict"

definition attempt_of :: "api_usage \<Rightarrow> api_usage" where
  "attempt_of u = \<lparr>au_provider = take 64 (au_provider u), au_model = take 191 (au_model u),
     au_operation = take 64 (au_operation u), au_status = take 32 (au_status u), au_calls = max (au_calls u) 0,
     au_input = max (au_input u) 0, au_output = max (au_output u) 0, au_thought = max (au_thought u) 0,
     au_total = max (au_total u) 0, au_duration = max (au_duration u) 0, au_reason = take 255 (au_reason u)\<rparr>"

definition round3 :: "pyfloat \<Rightarrow> pyfloat" where
  "round3 q = of_int (round_half_even (q * 1000)) / 1000"

definition event_key :: "analytics_event \<Rightarrow> string" where
  "event_key e = take 32 (ae_request e)"

definition usage_record_of :: "analytics_event \<Rightarrow> py_error + usage_record" where
  "usage_record_of e = and_then (sanitize_context (ae_context e)) (\<lambda>ctx.
     Inr \<lparr>ur_company = take 63 (ae_company e), ur_path = take 32 (ae_path e), ur_results = max (ae_results e) 0,
       ur_total_results = max (ae_total_results e) 0, ur_status = take 32 (ae_status e), ur_calls = usage_sum au_calls e,
       ur_input = usage_sum au_input e, ur_output = usage_sum au_output e, ur_thought = usage_sum au_thought e,
       ur_total = usage_sum au_total e, ur_duration = max (ae_duration e) 0,
       ur_attempts = zip [1 ..< Suc (length (ae_usage e))] (map attempt_of (ae_usage e)),
       ur_plan_hit = ae_plan_hit e, ur_result_hit = ae_result_hit e,
       ur_timings = map (\<lambda>(k, q). (k, round3 q))
         (filter (\<lambda>(k, q). k \<in> set SEARCH_ANALYTICS_TIMING_FIELDS \<and> 0 \<le> q) (ae_timings e)),
       ur_context = ctx, ur_created = ae_created e\<rparr>)"

text \<open>\<open>ON DUPLICATE KEY UPDATE\<close>: the history keeps its first row, the usage row is replaced.\<close>

definition write_event :: "analytics_event \<Rightarrow> analytics_db \<Rightarrow> py_error + analytics_db" where
  "write_event e db = and_then (usage_record_of e) (\<lambda>row.
     Inr (db\<lparr>history := (if map_of (history db) (event_key e) = None
           then AList.update (event_key e) (take 1000 (join '' '' (split_ws (ae_query e))), ae_created e) (history db)
           else history db),
         usage_rows := AList.update (event_key e) row (usage_rows db)\<rparr>))"

fun write_search_analytics_events :: "analytics_event list \<Rightarrow> analytics_db \<Rightarrow> py_error + analytics_db" where
  "write_search_analytics_events [] db = Inr db"
| "write_search_analytics_events (e # es) db = and_then (write_event e db) (write_search_analytics_events es)"

subsection \<open>Queue, spool and delivery\<close>

record spool_row =
  sr_id :: int
  sr_request :: string
  sr_company :: string
  sr_payload :: pydict

datatype delivery = Resting | Selecting int | Writing int "spool_row list" "analytics_event list" | Deleting int "spool_row list"

record spool_state =
  sp_queue :: "analytics_event list"
  sp_closed :: bool
  sp_submitted :: int
  sp_spooled :: int
  sp_failed :: int
  sp_dropped :: int
  sp_rows :: "spool_row list"
  sp_next :: int
  sp_delivery :: delivery
  sp_target :: analytics_db

record spool_setup =
  st_company :: string
  st_capacity :: nat
  st_batch :: nat
  st_iso :: "string \<Rightarrow> bool"
  st_foreign :: "string \<Rightarrow> bool"

definition submit_event :: "spool_setup \<Rightarrow> analytics_event \<Rightarrow> spool_state \<Rightarrow> bool \<times> spool_state" where
  "submit_event w e s =
     (if ae_company e \<noteq> st_company w \<or> sp_closed s then (False, s)
      else let s1 = s\<lparr>sp_submitted := sp_submitted s + 1\<rparr>
           in if length (sp_queue s) < st_capacity w then (True, s1\<lparr>sp_queue := sp_queue s @ [e]\<rparr>)
              else (False, s1\<lparr>sp_dropped := sp_dropped s + 1\<rparr>))"

definition insert_or_ignore :: "analytics_event \<Rightarrow> pydict \<Rightarrow> spool_state \<Rightarrow> spool_state" where
  "insert_or_ignore e payload s =
     (if ae_request e \<in> set (map sr_request (sp_rows s)) then s
      else s\<lparr>sp_rows := sp_rows s @ [\<lparr>sr_id = sp_next s, sr_request = ae_request e, sr_company = ae_company e, sr_payload = payload\<rparr>],
             sp_next := sp_next s + 1\<rparr>)"

definition company_rows :: "spool_setup \<Rightarrow> int \<Rightarrow> spool_state \<Rightarrow> spool_row list" where
  "company_rows w cutoff s = filter (\<lambda>r. sr_company r = st_company w \<and> sr_id r \<le> cutoff) (sp_rows s)"

definition cutoff_id :: "spool_setup \<Rightarrow> spool_state \<Rightarrow> int" where
  "cutoff_id w s = foldl max 0 (map sr_id (filter (\<lambda>r. sr_company r = st_company w) (sp_rows s)))"

definition batch_events :: "spool_setup \<Rightarrow> spool_row list \<Rightarrow> py_error + analytics_event list" where
  "batch_events w rows = and_then (map_ok (\<lambda>r. deserialize_event (st_iso w) (sr_payload r)) rows) (\<lambda>es.
     if list_ex (\<lambda>e. ae_company e \<noteq> st_company w) es then Inl (ValueError ''Search analytics spool contains a tenant mismatch'')
     else Inr es)"

text \<open>Steps of the service and its worker; the label is the event that was spooled. Other companies
  spool to the same file; their request ids (random UUIDs) are those of \<open>st_foreign\<close>.\<close>

inductive spool_step :: "spool_setup \<Rightarrow> analytics_event option \<Rightarrow> spool_state \<Rightarrow> spool_state \<Rightarrow> bool" where
  submit: "spool_step w None s (snd (submit_event w e s))"
| close_store: "spool_step w None s (s\<lparr>sp_closed := True\<rparr>)"
| spool_event: "sp_queue s = e # rest \<Longrightarrow> serialize_event e = Inr payload \<Longrightarrow>
    spool_step w (Some e) s ((insert_or_ignore e payload s)\<lparr>sp_queue := rest, sp_spooled := sp_spooled s + 1\<rparr>)"
| spool_failed: "sp_queue s = e # rest \<Longrightarrow> spool_step w None s (s\<lparr>sp_queue := rest, sp_failed := sp_failed s + 1\<rparr>)"
| other_store: "sr_id r = sp_next s \<Longrightarrow> sr_company r \<noteq> st_company w \<Longrightarrow> st_foreign w (sr_request r) \<Longrightarrow>
    sr_request r \<notin> set (map sr_request (sp_rows s)) \<Longrightarrow>
    spool_step w None s (s\<lparr>sp_rows := sp_rows s @ [r], sp_next := sp_next s + 1\<rparr>)"
| other_delivery: "spool_step w None s (s\<lparr>sp_rows := filter (\<lambda>r. sr_company r = st_company w \<or> sr_id r \<notin> ids) (sp_rows s)\<rparr>)"
| restart: "spool_step w None s (s\<lparr>sp_queue := [], sp_closed := False\<rparr>)"

text \<open>Steps of a delivery run; it may fail or be killed at any of them.\<close>

inductive deliver_step :: "spool_setup \<Rightarrow> spool_state \<Rightarrow> spool_state \<Rightarrow> bool" where
  select_batch: "sp_delivery s = Selecting cutoff \<Longrightarrow> take (st_batch w) (company_rows w cutoff s) = rows \<Longrightarrow> rows \<noteq> [] \<Longrightarrow>
    batch_events w rows = Inr es \<Longrightarrow> deliver_step w s (s\<lparr>sp_delivery := Writing cutoff rows es\<rparr>)"
| write_batch: "sp_delivery s = Writing cutoff rows es \<Longrightarrow> write_search_analytics_events es (sp_target s) = Inr db \<Longrightarrow>
    deliver_step w s (s\<lparr>sp_target := db, sp_delivery := Deleting cutoff rows\<rparr>)"
| delete_batch: "sp_delivery s = Deleting cutoff rows \<Longrightarrow>
    deliver_step w s (s\<lparr>sp_rows := filter (\<lambda>r. sr_id r \<notin> set (map sr_id rows)) (sp_rows s), sp_delivery := Selecting cutoff\<rparr>)"
| all_delivered: "sp_delivery s = Selecting cutoff \<Longrightarrow> company_rows w cutoff s = [] \<Longrightarrow> deliver_step w s (s\<lparr>sp_delivery := Resting\<rparr>)"
| delivery_dies: "sp_delivery s \<noteq> Resting \<Longrightarrow> deliver_step w s (s\<lparr>sp_delivery := Resting\<rparr>)"

definition start_delivery :: "spool_setup \<Rightarrow> spool_state \<Rightarrow> spool_state" where
  "start_delivery w s = (if cutoff_id w s = 0 then s else s\<lparr>sp_delivery := Selecting (cutoff_id w s)\<rparr>)"

definition spool_empty :: spool_state where
  "spool_empty = \<lparr>sp_queue = [], sp_closed = False, sp_submitted = 0, sp_spooled = 0, sp_failed = 0, sp_dropped = 0,
     sp_rows = [], sp_next = 1, sp_delivery = Resting, sp_target = \<lparr>history = [], usage_rows = []\<rparr>\<rparr>"

text \<open>The reachable states, with the events spooled so far.\<close>

inductive spool_reach :: "spool_setup \<Rightarrow> analytics_event list \<Rightarrow> spool_state \<Rightarrow> bool" where
  spool_start: "spool_reach w [] spool_empty"
| spool_serve: "spool_reach w es s \<Longrightarrow> spool_step w l s s' \<Longrightarrow> spool_reach w (es @ (case l of None \<Rightarrow> [] | Some e \<Rightarrow> [e])) s'"
| spool_run: "spool_reach w es s \<Longrightarrow> sp_delivery s = Resting \<Longrightarrow> spool_reach w es (start_delivery w s)"
| spool_deliver: "spool_reach w es s \<Longrightarrow> deliver_step w s s' \<Longrightarrow> spool_reach w es s'"


subsection \<open>What a batch writes\<close>

definition delivered_as :: "spool_setup \<Rightarrow> analytics_event \<Rightarrow> usage_record \<Rightarrow> bool" where
  "delivered_as w e row \<longleftrightarrow> (\<exists>payload e'. serialize_event e = Inr payload \<and> deserialize_event (st_iso w) payload = Inr e'
     \<and> usage_record_of e' = Inr row)"

definition landed :: "analytics_db \<Rightarrow> string \<Rightarrow> bool" where
  "landed db k \<longleftrightarrow> map_of (history db) k \<noteq> None \<and> map_of (usage_rows db) k \<noteq> None"

definition rows_from :: "(string \<Rightarrow> usage_record \<Rightarrow> bool) \<Rightarrow> analytics_db \<Rightarrow> bool" where
  "rows_from P db \<longleftrightarrow> distinct (map fst (history db)) \<and> distinct (map fst (usage_rows db))
     \<and> (\<forall>k row. map_of (usage_rows db) k = Some row \<longrightarrow> P k row)"

lemma payload_request:
  assumes "serialize_event e = Inr payload" and "deserialize_event is_iso payload = Inr e'"
  shows "ae_request e' = ae_request e" "ae_company e' = ae_company e"
proof -
  obtain ctx where p: "payload = [
     (''schema_version'', VInt 4), (''request_id'', VStr (ae_request e)), (''company_id'', VStr (ae_company e)),
     (''query_text'', VStr (ae_query e)), (''execution_path'', VStr (ae_path e)), (''result_count'', VInt (ae_results e)),
     (''total_results'', VInt (ae_total_results e)), (''status'', VStr (ae_status e)), (''duration_ms'', VFloat (ae_duration e)),
     (''plan_cache_hit'', ae_plan_hit e), (''result_cache_hit'', ae_result_hit e),
     (''timings_ms'', VDict (map (\<lambda>(k, q). (k, VFloat q)) (spool_timings e))), (''context'', VDict ctx),
     (''created_at'', VStr (ae_created e)), (''api_usage'', VList (map usage_payload (ae_usage e)))]"
    using assms(1) by (auto simp: serialize_event_def and_then_Inr)
  have items: "dict_item payload ''request_id'' = Inr (VStr (ae_request e))"
      "dict_item payload ''company_id'' = Inr (VStr (ae_company e))"
    by (simp_all add: p dict_item_def)
  show "ae_request e' = ae_request e" "ae_company e' = ae_company e"
    using assms(2) unfolding deserialize_event_def
    by (auto simp: and_then_Inr items split: if_splits)
qed

lemma write_event_ok:
  assumes "write_event e db = Inr db'" and "rows_from P db" and "\<And>row. usage_record_of e = Inr row \<Longrightarrow> P (event_key e) row"
  shows "rows_from P db' \<and> landed db' (event_key e) \<and> (\<forall>k. landed db k \<longrightarrow> landed db' k)"
proof -
  obtain row where row: "usage_record_of e = Inr row"
    and db': "db' = db\<lparr>history := (if map_of (history db) (event_key e) = None
           then AList.update (event_key e) (take 1000 (join '' '' (split_ws (ae_query e))), ae_created e) (history db)
           else history db), usage_rows := AList.update (event_key e) row (usage_rows db)\<rparr>"
    using assms(1) by (auto simp: write_event_def and_then_Inr)
  have h: "map_of (history db') k = None \<longleftrightarrow> map_of (history db) k = None \<and> k \<noteq> event_key e" for k
    by (simp add: db' update_conv' del: map_of_eq_None_iff)
  have u: "map_of (usage_rows db') k = (if k = event_key e then Some row else map_of (usage_rows db) k)" for k
    by (simp add: db' update_conv' del: map_of_eq_None_iff)
  have "distinct (map fst (history db'))" "distinct (map fst (usage_rows db'))"
    using assms(2) by (simp_all add: db' rows_from_def distinct_update)
  moreover have "P k r" if "map_of (usage_rows db') k = Some r" for k r
    using that assms(2) assms(3) [OF row] by (cases "k = event_key e") (simp_all add: u rows_from_def)
  moreover have "landed db' k" if "landed db k \<or> k = event_key e" for k
    using that unfolding landed_def h u by (cases "k = event_key e") simp_all
  ultimately show ?thesis unfolding rows_from_def by blast
qed

lemma write_events_ok:
  assumes "write_search_analytics_events es db = Inr db'" and "rows_from P db"
    and "\<And>e row. e \<in> set es \<Longrightarrow> usage_record_of e = Inr row \<Longrightarrow> P (event_key e) row"
  shows "rows_from P db' \<and> (\<forall>e \<in> set es. landed db' (event_key e)) \<and> (\<forall>k. landed db k \<longrightarrow> landed db' k)"
  using assms
proof (induction es arbitrary: db)
  case (Cons e es)
  obtain db1 where db1: "write_event e db = Inr db1" "write_search_analytics_events es db1 = Inr db'"
    using Cons.prems(1) by (auto simp: and_then_Inr)
  have one: "rows_from P db1 \<and> landed db1 (event_key e) \<and> (\<forall>k. landed db k \<longrightarrow> landed db1 k)"
    using Cons.prems(3) by (intro write_event_ok [OF db1(1) Cons.prems(2)]) simp
  then show ?case using Cons.IH [OF db1(2)] Cons.prems(3) by auto
qed simp

lemma batch_events_rows:
  "batch_events w rows = Inr es \<Longrightarrow> list_all2 (\<lambda>r e. deserialize_event (st_iso w) (sr_payload r) = Inr e) rows es"
  by (auto simp: batch_events_def and_then_Inr map_ok_Inr split: if_splits)


subsection \<open>The invariant\<close>

definition own_row :: "spool_setup \<Rightarrow> spool_row \<Rightarrow> bool" where
  "own_row w r \<longleftrightarrow> sr_company r = st_company w"

definition row_of :: "analytics_event list \<Rightarrow> spool_row \<Rightarrow> bool" where
  "row_of es r \<longleftrightarrow> (\<exists>e\<in>set es. sr_request r = ae_request e \<and> serialize_event e = Inr (sr_payload r))"

definition rows_ok :: "spool_setup \<Rightarrow> analytics_event list \<Rightarrow> spool_row list \<Rightarrow> int \<Rightarrow> bool" where
  "rows_ok w es rows n \<longleftrightarrow> distinct (map sr_id rows) \<and> distinct (map sr_request rows)
     \<and> (\<forall>r\<in>set rows. 0 < sr_id r \<and> sr_id r < n \<and> (if own_row w r then row_of es r else st_foreign w (sr_request r)))"

definition events_kept :: "spool_setup \<Rightarrow> analytics_event list \<Rightarrow> spool_row list \<Rightarrow> analytics_db \<Rightarrow> bool" where
  "events_kept w es rows db \<longleftrightarrow> (\<forall>e\<in>set es. st_foreign w (ae_request e)
     \<or> (\<exists>r\<in>set rows. own_row w r \<and> sr_request r = ae_request e) \<or> landed db (event_key e))"

definition from_events :: "spool_setup \<Rightarrow> analytics_event list \<Rightarrow> string \<Rightarrow> usage_record \<Rightarrow> bool" where
  "from_events w es k row \<longleftrightarrow> (\<exists>e\<in>set es. event_key e = k \<and> delivered_as w e row)"

fun delivery_ok :: "spool_setup \<Rightarrow> int \<Rightarrow> spool_row list \<Rightarrow> analytics_db \<Rightarrow> delivery \<Rightarrow> bool" where
  "delivery_ok w n rows db Resting \<longleftrightarrow> True"
| "delivery_ok w n rows db (Selecting c) \<longleftrightarrow> c < n"
| "delivery_ok w n rows db (Writing c batch es) \<longleftrightarrow> c < n \<and> batch \<noteq> [] \<and> set batch \<subseteq> set rows
     \<and> (\<forall>r\<in>set batch. own_row w r \<and> sr_id r \<le> c) \<and> batch_events w batch = Inr es"
| "delivery_ok w n rows db (Deleting c batch) \<longleftrightarrow> c < n \<and> batch \<noteq> [] \<and> set batch \<subseteq> set rows
     \<and> (\<forall>r\<in>set batch. own_row w r \<and> sr_id r \<le> c \<and> landed db (take 32 (sr_request r)))"

definition spool_ok :: "spool_setup \<Rightarrow> analytics_event list \<Rightarrow> spool_state \<Rightarrow> bool" where
  "spool_ok w es s \<longleftrightarrow> 0 < sp_next s \<and> (\<forall>e\<in>set (sp_queue s) \<union> set es. ae_company e = st_company w)
     \<and> rows_ok w es (sp_rows s) (sp_next s) \<and> events_kept w es (sp_rows s) (sp_target s)
     \<and> rows_from (from_events w es) (sp_target s) \<and> delivery_ok w (sp_next s) (sp_rows s) (sp_target s) (sp_delivery s)"

lemma rows_ok_filter: "rows_ok w es rows n \<Longrightarrow> rows_ok w es (filter P rows) n"
  by (auto simp: rows_ok_def distinct_map_filter)

lemma rows_ok_grow: "rows_ok w es rows n \<Longrightarrow> rows_ok w (es @ added) rows n"
  unfolding rows_ok_def row_of_def by (auto split: if_splits; metis)

lemma rows_ok_add:
  assumes "rows_ok w es rows n" "sr_id r = n" "0 < n" "sr_request r \<notin> set (map sr_request rows)"
    and "if own_row w r then row_of es r else st_foreign w (sr_request r)"
  shows "rows_ok w es (rows @ [r]) (n + 1)"
proof -
  have "sr_id r \<notin> set (map sr_id rows)" using assms(1,2) by (auto simp: rows_ok_def)
  moreover have "0 < sr_id q \<and> sr_id q < n + 1 \<and> (if own_row w q then row_of es q else st_foreign w (sr_request q))"
    if "q \<in> set (rows @ [r])" for q
  proof (cases "q = r")
    case False
    with that assms(1) have "0 < sr_id q \<and> sr_id q < n \<and> (if own_row w q then row_of es q else st_foreign w (sr_request q))"
      by (auto simp: rows_ok_def)
    then show ?thesis by (intro conjI) auto
  qed (use assms in auto)
  ultimately show ?thesis using assms(1,4) unfolding rows_ok_def by simp
qed

lemma events_kept_mono:
  assumes "events_kept w es rows db" and "\<And>r. r \<in> set rows \<Longrightarrow> own_row w r \<Longrightarrow> r \<in> set rows'" and "\<And>k. landed db k \<Longrightarrow> landed db' k"
  shows "events_kept w es rows' db'"
  using assms unfolding events_kept_def by metis

lemma delivery_ok_mono:
  "delivery_ok w n rows db d \<Longrightarrow> n \<le> n' \<Longrightarrow> (\<And>r. r \<in> set rows \<Longrightarrow> own_row w r \<Longrightarrow> r \<in> set rows') \<Longrightarrow> delivery_ok w n' rows' db d"
  by (cases d) auto

lemma from_events_grow: "rows_from (from_events w es) db \<Longrightarrow> rows_from (from_events w (es @ added)) db"
  unfolding rows_from_def from_events_def set_append by blast

lemma company_rows_own: "r \<in> set (company_rows w c s) \<longleftrightarrow> r \<in> set (sp_rows s) \<and> own_row w r \<and> sr_id r \<le> c"
  by (simp add: company_rows_def own_row_def)

lemma serve_keeps:
  assumes ok: "spool_ok w es s" and step: "spool_step w l s s'"
  shows "spool_ok w (es @ (case l of None \<Rightarrow> [] | Some e \<Rightarrow> [e])) s'"
  using step
proof cases
  case (submit e)
  then show ?thesis using ok by (auto simp: spool_ok_def submit_event_def Let_def)
next
  case close_store
  then show ?thesis using ok by (simp add: spool_ok_def)
next
  case (spool_failed e rest)
  then show ?thesis using ok by (simp add: spool_ok_def)
next
  case restart
  then show ?thesis using ok by (simp add: spool_ok_def)
next
  case (other_store r)
  then show ?thesis using ok
    by (auto simp: spool_ok_def own_row_def intro: rows_ok_add events_kept_mono delivery_ok_mono)
next
  case (other_delivery ids)
  then show ?thesis using ok
    by (auto simp: spool_ok_def own_row_def intro: rows_ok_filter elim: events_kept_mono delivery_ok_mono)
next
  case (spool_event e rest payload)
  let ?es = "es @ [e]"
  have old: "rows_ok w ?es (sp_rows s) (sp_next s)" "events_kept w es (sp_rows s) (sp_target s)"
      "rows_from (from_events w ?es) (sp_target s)" and e: "ae_company e = st_company w" and pos: "0 < sp_next s"
    using ok spool_event by (auto simp: spool_ok_def intro: rows_ok_grow from_events_grow)
  show ?thesis
  proof (cases "ae_request e \<in> set (map sr_request (sp_rows s))")
    case True
    then obtain r where r: "r \<in> set (sp_rows s)" "sr_request r = ae_request e" by auto
    have "own_row w r \<or> st_foreign w (ae_request e)" using old(1) r unfolding rows_ok_def by metis
    then have "events_kept w ?es (sp_rows s) (sp_target s)"
      using old(2) r unfolding events_kept_def by auto
    then show ?thesis using True ok old spool_event by (simp add: spool_ok_def insert_or_ignore_def)
  next
    case False
    define r where "r = \<lparr>sr_id = sp_next s, sr_request = ae_request e, sr_company = st_company w, sr_payload = payload\<rparr>"
    have own: "own_row w r" by (simp add: r_def own_row_def)
    have "row_of ?es r" using spool_event(4) by (auto simp: row_of_def r_def)
    then have "rows_ok w ?es (sp_rows s @ [r]) (sp_next s + 1)"
      using False own by (intro rows_ok_add old(1) pos) (simp_all add: r_def)
    moreover have "events_kept w ?es (sp_rows s @ [r]) (sp_target s)"
      using old(2) own unfolding events_kept_def by (auto simp: r_def)
    moreover have "delivery_ok w (sp_next s + 1) (sp_rows s @ [r]) (sp_target s) (sp_delivery s)"
      using ok by (auto simp: spool_ok_def elim: delivery_ok_mono)
    ultimately show ?thesis
      using False ok old spool_event by (simp add: spool_ok_def insert_or_ignore_def flip: r_def)
  qed
qed

lemma rows_ok_delivered: "rows_ok w es rows n \<Longrightarrow> r \<in> set rows \<Longrightarrow> own_row w r \<Longrightarrow>
    \<exists>e\<in>set es. sr_request r = ae_request e \<and> serialize_event e = Inr (sr_payload r)"
  by (auto simp: rows_ok_def row_of_def)

lemma list_all2_members:
  "list_all2 P xs ys \<Longrightarrow> (\<forall>x\<in>set xs. \<exists>y\<in>set ys. P x y) \<and> (\<forall>y\<in>set ys. \<exists>x\<in>set xs. P x y)"
  by (induction rule: list_all2_induct) auto

text \<open>A written batch lands, row by row, under the keys of its requests.\<close>

lemma batch_lands:
  assumes ok: "rows_ok w es rows n" and batch: "set batch \<subseteq> set rows" "\<forall>r\<in>set batch. own_row w r"
    and evs: "batch_events w batch = Inr evs" and wrote: "write_search_analytics_events evs db = Inr db'"
    and old: "rows_from (from_events w es) db"
  shows "rows_from (from_events w es) db' \<and> (\<forall>r\<in>set batch. landed db' (take 32 (sr_request r))) \<and> (\<forall>k. landed db k \<longrightarrow> landed db' k)"
proof -
  have two: "list_all2 (\<lambda>r e. deserialize_event (st_iso w) (sr_payload r) = Inr e) batch evs"
    by (rule batch_events_rows [OF evs])
  have source: "\<exists>e\<in>set es. sr_request r = ae_request e \<and> serialize_event e = Inr (sr_payload r)" if "r \<in> set batch" for r
    using that batch by (intro rows_ok_delivered [OF ok]) auto
  have "from_events w es (event_key e') row" if ev: "e' \<in> set evs" "usage_record_of e' = Inr row" for e' row
  proof -
    obtain r where r: "r \<in> set batch" "deserialize_event (st_iso w) (sr_payload r) = Inr e'"
      using list_all2_members [OF two] ev(1) by blast
    obtain e where e: "e \<in> set es" "serialize_event e = Inr (sr_payload r)" using source [OF r(1)] by blast
    have "event_key e = event_key e'" using payload_request(1) [OF e(2) r(2)] by (simp add: event_key_def)
    then show ?thesis using e r(2) ev(2) unfolding from_events_def delivered_as_def by blast
  qed
  then have res: "rows_from (from_events w es) db' \<and> (\<forall>e\<in>set evs. landed db' (event_key e)) \<and> (\<forall>k. landed db k \<longrightarrow> landed db' k)"
    by (intro write_events_ok [OF wrote old])
  have "landed db' (take 32 (sr_request r))" if mem: "r \<in> set batch" for r
  proof -
    obtain e' where e': "e' \<in> set evs" "deserialize_event (st_iso w) (sr_payload r) = Inr e'"
      using list_all2_members [OF two] mem by blast
    obtain e where "sr_request r = ae_request e" "serialize_event e = Inr (sr_payload r)" using source [OF mem] by blast
    then show ?thesis using e' res payload_request(1) by (metis event_key_def)
  qed
  then show ?thesis using res by blast
qed

lemma deliver_keeps:
  assumes ok: "spool_ok w es s" and step: "deliver_step w s s'"
  shows "spool_ok w es s'"
  using step
proof cases
  case (select_batch cutoff rows evs)
  have "set rows \<subseteq> set (company_rows w cutoff s)" using select_batch(3) by (auto dest: in_set_takeD)
  then show ?thesis using ok select_batch by (auto simp: spool_ok_def company_rows_own)
next
  case (write_batch cutoff rows evs db)
  have parts: "rows_ok w es (sp_rows s) (sp_next s)" "set rows \<subseteq> set (sp_rows s)" "\<forall>r\<in>set rows. own_row w r"
      "batch_events w rows = Inr evs" "rows_from (from_events w es) (sp_target s)" "events_kept w es (sp_rows s) (sp_target s)"
    using ok write_batch by (simp_all add: spool_ok_def)
  note landing = batch_lands [OF parts(1-4) write_batch(3) parts(5)]
  have "events_kept w es (sp_rows s) db" using landing by (intro events_kept_mono [OF parts(6)]) auto
  then show ?thesis using ok landing write_batch by (simp add: spool_ok_def)
next
  case (delete_batch cutoff rows)
  let ?rest = "filter (\<lambda>r. sr_id r \<notin> set (map sr_id rows)) (sp_rows s)"
  have parts: "rows_ok w es (sp_rows s) (sp_next s)" "events_kept w es (sp_rows s) (sp_target s)"
      "\<forall>r\<in>set rows. r \<in> set (sp_rows s) \<and> landed (sp_target s) (take 32 (sr_request r))"
    using ok delete_batch by (auto simp: spool_ok_def)
  have "landed (sp_target s) (take 32 (sr_request r))" if mem: "r \<in> set (sp_rows s)" and gone: "sr_id r \<in> set (map sr_id rows)" for r
  proof -
    obtain q where q: "q \<in> set rows" "sr_id r = sr_id q" using gone unfolding set_map by blast
    have "inj_on sr_id (set (sp_rows s))" using parts(1) by (simp add: rows_ok_def distinct_map)
    then have "r = q" using q mem parts(3) by (blast dest: inj_onD)
    then show ?thesis using parts(3) q(1) by blast
  qed
  then have "events_kept w es ?rest (sp_target s)"
    using parts(2) unfolding events_kept_def event_key_def by force
  then show ?thesis using ok delete_batch by (simp add: spool_ok_def rows_ok_filter)
next
  case (all_delivered cutoff)
  then show ?thesis using ok by (simp add: spool_ok_def)
next
  case delivery_dies
  then show ?thesis using ok by (simp add: spool_ok_def)
qed

lemma cutoff_id_eq: "cutoff_id w s = Max (insert 0 (sr_id ` set (filter (own_row w) (sp_rows s))))"
proof -
  have *: "foldl max a xs = Max (insert a (set xs))" for a :: int and xs
    using Max.set_eq_fold [of a xs] by (simp add: foldl_conv_fold max.commute)
  show ?thesis unfolding cutoff_id_def * own_row_def by simp
qed

lemma cutoff_below: "spool_ok w es s \<Longrightarrow> cutoff_id w s < sp_next s"
  unfolding cutoff_id_eq by (subst Max_less_iff) (auto simp: spool_ok_def rows_ok_def)

lemma cutoff_above: "r \<in> set (sp_rows s) \<Longrightarrow> own_row w r \<Longrightarrow> sr_id r \<le> cutoff_id w s"
  unfolding cutoff_id_eq by (intro Max_ge) auto

lemma spool_reach_ok: "spool_reach w es s \<Longrightarrow> spool_ok w es s"
proof (induction rule: spool_reach.induct)
  case (spool_start w)
  show ?case by (simp add: spool_ok_def spool_empty_def rows_ok_def events_kept_def rows_from_def)
next
  case (spool_serve w es s l s')
  then show ?case by (blast intro: serve_keeps)
next
  case (spool_run w es s)
  then show ?case using cutoff_below [OF spool_run.IH] by (simp add: spool_ok_def start_delivery_def)
next
  case (spool_deliver w es s s')
  then show ?case by (blast intro: deliver_keeps)
qed

text \<open>Between a search and the company's database no spooled event is lost or counted twice: whatever
  steps, failures, restarts and killed deliveries come in between, every event written to the spool is
  still a row of it or has a history row and a usage row under its request id; a request id has at most
  one row of each; and every usage row is the record of one of the spooled events.\<close>

text \<open>
  C22: Whatever the services, other companies, failures, restarts and killed deliveries do in
  between, an event written to the spool is still a row of it or has its history and usage
  row, a request has at most one of each, and every usage row is the record of a spooled
  event.
\<close>

theorem spool_exactly_once:
  assumes "spool_reach w es s" and "\<forall>e\<in>set es. \<not> st_foreign w (ae_request e)"
  shows "(\<forall>e\<in>set es. ae_request e \<in> set (map sr_request (company_rows w (sp_next s) s)) \<or> landed (sp_target s) (event_key e))
    \<and> distinct (map fst (history (sp_target s))) \<and> distinct (map fst (usage_rows (sp_target s)))
    \<and> (\<forall>k row. map_of (usage_rows (sp_target s)) k = Some row \<longrightarrow> (\<exists>e\<in>set es. event_key e = k \<and> delivered_as w e row))"
proof (intro conjI)
  have ok: "spool_ok w es s" by (rule spool_reach_ok [OF assms(1)])
  show "distinct (map fst (history (sp_target s)))" "distinct (map fst (usage_rows (sp_target s)))"
    and "\<forall>k row. map_of (usage_rows (sp_target s)) k = Some row \<longrightarrow> (\<exists>e\<in>set es. event_key e = k \<and> delivered_as w e row)"
    using ok unfolding spool_ok_def rows_from_def from_events_def by blast+
  have "r \<in> set (company_rows w (sp_next s) s)" if "r \<in> set (sp_rows s)" "own_row w r" for r
    using ok that unfolding spool_ok_def rows_ok_def own_row_def by (simp add: company_rows_def less_imp_le)
  then show "\<forall>e\<in>set es. ae_request e \<in> set (map sr_request (company_rows w (sp_next s) s)) \<or> landed (sp_target s) (event_key e)"
    using ok assms(2) unfolding spool_ok_def events_kept_def by force
qed

subsection \<open>Delivery ends\<close>

text \<open>What is left of a run: three steps for each batch of the rows up to its cut-off.\<close>

fun work_left :: "spool_setup \<Rightarrow> spool_state \<Rightarrow> delivery \<Rightarrow> nat" where
  "work_left w s Resting = 0"
| "work_left w s (Selecting c) = 3 * length (company_rows w c s) + 1"
| "work_left w s (Writing c batch es) = 3 * length (company_rows w c s)"
| "work_left w s (Deleting c batch) = 3 * length (company_rows w c s) - 1"


lemma batch_counted:
  assumes "spool_ok w es s" and "sp_delivery s = Writing c batch evs \<or> sp_delivery s = Deleting c batch"
  shows "batch \<noteq> []" "set batch \<subseteq> set (company_rows w c s)" "1 \<le> length (company_rows w c s)"
proof -
  show *: "batch \<noteq> []" "set batch \<subseteq> set (company_rows w c s)"
    using assms by (auto simp: spool_ok_def company_rows_own)
  show "1 \<le> length (company_rows w c s)" using * by (cases "company_rows w c s") auto
qed

lemma serve_company_rows:
  assumes step: "spool_step w l s s'" and queue: "\<forall>e\<in>set (sp_queue s). ae_company e = st_company w" and c: "c < sp_next s"
  shows "company_rows w c s' = company_rows w c s"
  using step
proof cases
  case (submit e)
  then show ?thesis by (simp add: submit_event_def Let_def company_rows_def)
next
  case (other_delivery ids)
  then show ?thesis by (auto simp: company_rows_def intro: filter_cong)
qed (use c in \<open>simp_all add: company_rows_def insert_or_ignore_def\<close>)

lemma deletes_some:
  assumes "batch \<noteq> []" "set batch \<subseteq> set xs"
  shows "length (filter (\<lambda>r. sr_id r \<notin> set (map sr_id batch)) xs) < length xs"
proof (rule length_filter_less)
  show "hd batch \<in> set xs" "\<not> sr_id (hd batch) \<notin> set (map sr_id batch)" using assms by (auto intro: hd_in_set)
qed

lemma delivery_progress:
  assumes ok: "spool_ok w es s" and step: "deliver_step w s s'"
  shows "work_left w s' (sp_delivery s') < work_left w s (sp_delivery s)"
  using step
proof cases
  case (select_batch cutoff rows evs)
  then show ?thesis by (simp add: company_rows_def)
next
  case (write_batch cutoff rows evs db)
  then show ?thesis using batch_counted(3) [OF ok, of cutoff rows evs] by (simp add: company_rows_def)
next
  case (delete_batch cutoff rows)
  then have "length (company_rows w cutoff s') < length (company_rows w cutoff s)"
    using deletes_some [OF batch_counted(1,2) [OF ok, of cutoff rows]] by (simp add: company_rows_def conj_commute)
  then show ?thesis using delete_batch by simp
next
  case (all_delivered cutoff)
  then show ?thesis by simp
next
  case delivery_dies
  then show ?thesis using batch_counted(3) [OF ok] by (cases "sp_delivery s") auto
qed

lemma serve_delivery: "spool_step w l s s' \<Longrightarrow> sp_delivery s' = sp_delivery s"
  by (erule spool_step.cases) (simp_all add: submit_event_def insert_or_ignore_def Let_def)

lemma serve_progress:
  assumes ok: "spool_ok w es s" and step: "spool_step w l s s'"
  shows "work_left w s' (sp_delivery s') = work_left w s (sp_delivery s)"
proof -
  have "company_rows w c s' = company_rows w c s" if "c < sp_next s" for c
    using ok that by (intro serve_company_rows [OF step]) (auto simp: spool_ok_def)
  then show ?thesis using ok serve_delivery [OF step] by (cases "sp_delivery s") (auto simp: spool_ok_def)
qed

text \<open>\<open>n\<close> steps of one delivery, with any steps of the services in between.\<close>

inductive delivery_run :: "spool_setup \<Rightarrow> nat \<Rightarrow> spool_state \<Rightarrow> spool_state \<Rightarrow> bool" where
  run_here: "delivery_run w 0 s s"
| run_step: "deliver_step w s s1 \<Longrightarrow> delivery_run w n s1 s' \<Longrightarrow> delivery_run w (Suc n) s s'"
| run_serve: "spool_step w l s s1 \<Longrightarrow> delivery_run w n s1 s' \<Longrightarrow> delivery_run w n s s'"

lemma run_bounded: "delivery_run w n s s' \<Longrightarrow> spool_reach w es s \<Longrightarrow> n \<le> work_left w s (sp_delivery s)"
proof (induction arbitrary: es rule: delivery_run.induct)
  case (run_step w s s1 n s')
  have "n \<le> work_left w s1 (sp_delivery s1)"
    by (rule run_step.IH [OF spool_deliver [OF run_step.prems run_step.hyps(1)]])
  then show ?case using delivery_progress [OF spool_reach_ok [OF run_step.prems] run_step.hyps(1)] by simp
next
  case (run_serve w l s s1 n s')
  have "n \<le> work_left w s1 (sp_delivery s1)"
    by (rule run_serve.IH [OF spool_serve [OF run_serve.prems run_serve.hyps(1)]])
  then show ?case using serve_progress [OF spool_reach_ok [OF run_serve.prems] run_serve.hyps(1)] by simp
qed simp

text \<open>A delivery run ends: it takes at most three steps for every row the company had in the spool when
  it started, and one to see that nothing is left. What the services spool meanwhile adds nothing.\<close>

text \<open>
  C36: A delivery run takes at most three steps for each row the company had in the spool when
  it started, plus one: what the services spool during the run adds nothing to it.
\<close>

theorem delivery_terminates:
  assumes "spool_reach w es s" and "sp_delivery s = Resting" and "delivery_run w n (start_delivery w s) s'"
  shows "n \<le> 3 * length (company_rows w (cutoff_id w s) s) + 1"
proof -
  have "n \<le> work_left w (start_delivery w s) (sp_delivery (start_delivery w s))"
    by (rule run_bounded [OF assms(3) spool_run [OF assms(1,2)]])
  also have "\<dots> \<le> 3 * length (company_rows w (cutoff_id w s) s) + 1"
    using assms(2) by (simp add: start_delivery_def company_rows_def)
  finally show ?thesis .
qed

subsection \<open>An undisturbed run delivers everything\<close>

lemma write_events_total:
  "(\<And>e. e \<in> set es \<Longrightarrow> \<exists>row. usage_record_of e = Inr row) \<Longrightarrow> \<exists>db'. write_search_analytics_events es db = Inr db'"
proof (induction es arbitrary: db)
  case (Cons e es)
  obtain row where "usage_record_of e = Inr row" using Cons.prems by fastforce
  then obtain db1 where "write_event e db = Inr db1" by (simp add: write_event_def)
  then show ?case using Cons.IH [of db1] Cons.prems by simp
qed simp

lemma readable_delivered:
  assumes "serialize_event e = Inr payload" and "readable_event (st_iso w) e"
  shows "\<exists>row. delivered_as w e row"
proof -
  from event_reads_back [OF assms] obtain ctx again where c: "sanitize_context (VDict ctx) = Inr again"
    and e: "deserialize_event (st_iso w) payload = Inr (e\<lparr>ae_timings := spool_timings e, ae_context := VDict again\<rparr>)"
    by (elim exE conjE)
  define e' where "e' = e\<lparr>ae_timings := spool_timings e, ae_context := VDict again\<rparr>"
  obtain final where "sanitize_context (ae_context e') = Inr final" using sanitize_total [OF c] by (auto simp: e'_def)
  then obtain row where "usage_record_of e' = Inr row" by (simp add: usage_record_of_def)
  then show ?thesis using assms(1) e unfolding delivered_as_def e'_def [symmetric] by blast
qed

lemma batch_readable:
  assumes ok: "spool_ok w es s" and sound: "\<forall>e\<in>set es. readable_event (st_iso w) e"
    and batch: "set rows \<subseteq> set (company_rows w c s)"
  shows "\<exists>evs. batch_events w rows = Inr evs \<and> (\<forall>e\<in>set evs. \<exists>row. usage_record_of e = Inr row)"
proof -
  have one: "\<exists>e'. deserialize_event (st_iso w) (sr_payload r) = Inr e' \<and> ae_company e' = st_company w \<and> (\<exists>row. usage_record_of e' = Inr row)"
    if mem: "r \<in> set rows" for r
  proof -
    have r: "rows_ok w es (sp_rows s) (sp_next s)" "r \<in> set (sp_rows s)" "own_row w r"
      using ok mem batch by (auto simp: spool_ok_def company_rows_own)
    obtain e where e: "e \<in> set es" "serialize_event e = Inr (sr_payload r)" using rows_ok_delivered [OF r] by blast
    obtain e' row where "deserialize_event (st_iso w) (sr_payload r) = Inr e'" "usage_record_of e' = Inr row"
      using readable_delivered [OF e(2)] sound e unfolding delivered_as_def e(2) sum.inject by blast
    moreover have "ae_company e = st_company w" using ok e(1) by (simp add: spool_ok_def)
    ultimately show ?thesis using payload_request(2) [OF e(2)] by auto
  qed
  have "\<exists>evs. map_ok (\<lambda>r. deserialize_event (st_iso w) (sr_payload r)) rows = Inr evs
      \<and> (\<forall>e\<in>set evs. ae_company e = st_company w \<and> (\<exists>row. usage_record_of e = Inr row))"
    using one by (induction rows) (fastforce simp: and_then_Inr)+
  then show ?thesis unfolding batch_events_def by (auto simp: list_ex_iff)
qed

lemma run_drains:
  assumes "spool_reach w es s" and "\<forall>e\<in>set es. readable_event (st_iso w) e" and "0 < st_batch w" and "sp_delivery s = Selecting c"
  shows "\<exists>s'. (deliver_step w)\<^sup>*\<^sup>* s s' \<and> sp_delivery s' = Resting \<and> company_rows w c s' = [] \<and> sp_next s' = sp_next s"
  using assms(1,4)
proof (induction "work_left w s (sp_delivery s)" arbitrary: s rule: less_induct)
  case less
  show ?case
  proof (cases "company_rows w c s = []")
    case True
    then have "deliver_step w s (s\<lparr>sp_delivery := Resting\<rparr>)" using less.prems(2) by (intro all_delivered)
    then show ?thesis using True by (intro exI [of _ "s\<lparr>sp_delivery := Resting\<rparr>"]) (auto simp: company_rows_def)
  next
    case False
    define rows where "rows = take (st_batch w) (company_rows w c s)"
    have rows: "rows \<noteq> []" "set rows \<subseteq> set (company_rows w c s)"
      using False assms(3) by (auto simp: rows_def dest: in_set_takeD)
    obtain evs where evs: "batch_events w rows = Inr evs" "\<forall>e\<in>set evs. \<exists>row. usage_record_of e = Inr row"
      using batch_readable [OF spool_reach_ok [OF less.prems(1)] assms(2) rows(2)] by blast
    obtain db where db: "write_search_analytics_events evs (sp_target s) = Inr db"
      using write_events_total [of evs] evs(2) by blast
    define s1 s2 s3 where s1: "s1 = s\<lparr>sp_delivery := Writing c rows evs\<rparr>"
      and s2: "s2 = s1\<lparr>sp_target := db, sp_delivery := Deleting c rows\<rparr>"
      and s3: "s3 = s2\<lparr>sp_rows := filter (\<lambda>r. sr_id r \<notin> set (map sr_id rows)) (sp_rows s2), sp_delivery := Selecting c\<rparr>"
    have "deliver_step w s s1"
      unfolding s1 by (rule select_batch [OF less.prems(2) _ rows(1) evs(1)]) (simp add: rows_def)
    moreover have "deliver_step w s1 s2"
      unfolding s2 by (rule write_batch [where es = evs]) (simp_all add: s1 db)
    moreover have "deliver_step w s2 s3"
      unfolding s3 by (rule delete_batch) (simp add: s2)
    ultimately have steps: "deliver_step w s s1" "deliver_step w s1 s2" "deliver_step w s2 s3" .
    have reach: "spool_reach w es s1" "spool_reach w es s2" "spool_reach w es s3"
      using less.prems(1) steps by (blast intro: spool_deliver)+
    have "work_left w s3 (sp_delivery s3) < work_left w s (sp_delivery s)"
      using delivery_progress [OF spool_reach_ok steps(1)] delivery_progress [OF spool_reach_ok steps(2)]
        delivery_progress [OF spool_reach_ok steps(3)] less.prems(1) reach by fastforce
    then obtain s' where s': "(deliver_step w)\<^sup>*\<^sup>* s3 s'" "sp_delivery s' = Resting" "company_rows w c s' = []" "sp_next s' = sp_next s3"
      using less.hyps [of s3] reach(3) by (auto simp: s3)
    then show ?thesis using steps by (intro exI [of _ s']) (auto simp: s1 s2 s3 intro: converse_rtranclp_into_rtranclp)
  qed
qed

lemma reach_run: "(deliver_step w)\<^sup>*\<^sup>* s s' \<Longrightarrow> spool_reach w es s \<Longrightarrow> spool_reach w es s'"
  by (induction rule: rtranclp_induct) (blast intro: spool_deliver)+

text \<open>A delivery that nothing disturbs empties the company's part of the spool: when the spooled events
  have statuses and instants, the run ends with no row of the company left and every event in its tables.\<close>

text \<open>
  C23: A delivery run that nothing disturbs ends with no row of the company left in the spool
  and with every spooled event in the tables of the company, whatever happened before it.
\<close>

theorem delivery_drains:
  assumes "spool_reach w es s" and "\<forall>e\<in>set es. readable_event (st_iso w) e \<and> \<not> st_foreign w (ae_request e)"
    and "0 < st_batch w" and "sp_delivery s = Resting"
  shows "\<exists>s'. (deliver_step w)\<^sup>*\<^sup>* (start_delivery w s) s' \<and> sp_delivery s' = Resting
     \<and> company_rows w (sp_next s') s' = [] \<and> (\<forall>e\<in>set es. landed (sp_target s') (event_key e))"
proof -
  have ok: "spool_ok w es s" by (rule spool_reach_ok [OF assms(1)])
  have drained: "(deliver_step w)\<^sup>*\<^sup>* (start_delivery w s) s' \<and> sp_delivery s' = Resting
     \<and> company_rows w (sp_next s') s' = [] \<and> (\<forall>e\<in>set es. landed (sp_target s') (event_key e))"
    if run: "(deliver_step w)\<^sup>*\<^sup>* (start_delivery w s) s'" and rest: "sp_delivery s' = Resting"
      and none: "\<forall>r\<in>set (sp_rows s'). \<not> own_row w r" for s'
  proof -
    have "spool_reach w es s'" by (rule reach_run [OF run spool_run [OF assms(1,4)]])
    then have "events_kept w es (sp_rows s') (sp_target s')" using spool_reach_ok by (simp add: spool_ok_def)
    then have "\<forall>e\<in>set es. landed (sp_target s') (event_key e)"
      using assms(2) none unfolding events_kept_def by blast
    moreover have "company_rows w (sp_next s') s' = []"
      using none by (auto simp: company_rows_def own_row_def filter_empty_conv)
    ultimately show ?thesis using run rest by blast
  qed
  show ?thesis
  proof (cases "cutoff_id w s = 0")
    case True
    have "\<not> own_row w r" if "r \<in> set (sp_rows s)" for r
      using cutoff_above [OF that, of w] ok that True by (auto simp: spool_ok_def rows_ok_def)
    then show ?thesis using True assms(4) by (intro exI [of _ s] drained) (auto simp: start_delivery_def)
  next
    case False
    obtain s' where s': "(deliver_step w)\<^sup>*\<^sup>* (start_delivery w s) s'" "sp_delivery s' = Resting"
        "company_rows w (cutoff_id w s) s' = []" 
      using run_drains [OF spool_run [OF assms(1,4)], of "cutoff_id w s"] assms(2,3) False
      by (auto simp: start_delivery_def)
    have "set (sp_rows s') \<subseteq> set (sp_rows (start_delivery w s))"
      using s'(1) by (induction rule: rtranclp_induct) (auto elim!: deliver_step.cases)
    then have "\<forall>r\<in>set (sp_rows s'). \<not> own_row w r"
      using s'(3) cutoff_above [of _ s w] by (auto simp: start_delivery_def False company_rows_def own_row_def filter_empty_conv)
    then show ?thesis using s'(1,2) by (intro exI [of _ s'] drained)
  qed
qed

subsection \<open>A concrete spool\<close>

definition sample_spool :: spool_setup where
  "sample_spool = \<lparr>st_company = ''acme'', st_capacity = 5, st_batch = 2, st_iso = (\<lambda>t. True), st_foreign = (\<lambda>r. r = ''r9'')\<rparr>"

definition sample_queued :: spool_state where
  "sample_queued = snd (submit_event sample_spool sample_event spool_empty)"

lemma sample_payload: "\<exists>payload. serialize_event sample_event = Inr payload"
proof -
  have "sanitize_context (ae_context sample_event) = Inr [(''city'', VStr ''Pune'')]" by code_simp
  then show ?thesis by (simp add: serialize_event_def)
qed

definition sample_spooled :: spool_state where
  "sample_spooled = (insert_or_ignore sample_event (case serialize_event sample_event of Inr p \<Rightarrow> p | Inl _ \<Rightarrow> []) sample_queued)
     \<lparr>sp_queue := [], sp_spooled := sp_spooled sample_queued + 1\<rparr>"

lemma sample_reach: "spool_reach sample_spool [sample_event] sample_spooled"
proof -
  have queued: "spool_reach sample_spool [] sample_queued"
    using spool_serve [OF spool_start submit, of sample_spool sample_event] by (simp add: sample_queued_def)
  obtain payload where p: "serialize_event sample_event = Inr payload" using sample_payload by blast
  have "sp_queue sample_queued = [sample_event]"
    by (simp add: sample_queued_def submit_event_def sample_spool_def spool_empty_def sample_event_def)
  from spool_serve [OF queued spool_event [OF this p]] show ?thesis by (simp add: sample_spooled_def p)
qed

lemma sample_rows: "sp_delivery sample_spooled = Resting" "length (company_rows sample_spool 1 sample_spooled) = 1"
  "cutoff_id sample_spool sample_spooled = 1"
  by (simp_all add: sample_spooled_def sample_queued_def insert_or_ignore_def submit_event_def sample_spool_def spool_empty_def
      sample_event_def company_rows_def cutoff_id_def Let_def)

lemma sample_readable: "readable_event (st_iso sample_spool) sample_event" "\<not> st_foreign sample_spool (ae_request sample_event)"
  by (simp_all add: readable_event_def sample_spool_def sample_event_def)

theorem delivery_drains_witness:
  "\<exists>s'. (deliver_step sample_spool)\<^sup>*\<^sup>* (start_delivery sample_spool sample_spooled) s' \<and> sp_delivery s' = Resting
     \<and> company_rows sample_spool (sp_next s') s' = [] \<and> landed (sp_target s') ''r1''"
proof -
  have "\<forall>e\<in>set [sample_event]. readable_event (st_iso sample_spool) e \<and> \<not> st_foreign sample_spool (ae_request e)"
      "0 < st_batch sample_spool" "event_key sample_event = ''r1''"
    using sample_readable by (simp_all add: sample_spool_def event_key_def sample_event_def)
  then show ?thesis using delivery_drains [OF sample_reach _ _ sample_rows(1)] by auto
qed

theorem spool_exactly_once_witness:
  "\<exists>s. spool_reach sample_spool [sample_event] s \<and> company_rows sample_spool (sp_next s) s = []
     \<and> landed (sp_target s) ''r1'' \<and> distinct (map fst (usage_rows (sp_target s)))"
proof -
  have start: "spool_reach sample_spool [sample_event] (start_delivery sample_spool sample_spooled)"
    by (rule spool_run [OF sample_reach sample_rows(1)])
  have "\<forall>e\<in>set [sample_event]. readable_event (st_iso sample_spool) e" "0 < st_batch sample_spool"
    "sp_delivery (start_delivery sample_spool sample_spooled) = Selecting 1"
    using sample_readable(1) by (simp, simp add: sample_spool_def, simp add: start_delivery_def sample_rows)
  from run_drains [OF start this] obtain s where
    s: "(deliver_step sample_spool)\<^sup>*\<^sup>* (start_delivery sample_spool sample_spooled) s"
      "company_rows sample_spool 1 s = []" "sp_next s = sp_next (start_delivery sample_spool sample_spooled)"
    by blast
  have reach: "spool_reach sample_spool [sample_event] s" by (rule reach_run [OF s(1) start])
  have "sp_next s = 2"
    by (simp add: s(3) start_delivery_def sample_rows sample_spooled_def sample_queued_def insert_or_ignore_def
        submit_event_def sample_spool_def spool_empty_def sample_event_def Let_def)
  then have none: "company_rows sample_spool (sp_next s) s = []"
    using s(2) spool_reach_ok [OF reach] by (force simp: company_rows_def spool_ok_def rows_ok_def filter_empty_conv)
  have "\<forall>e\<in>set [sample_event]. \<not> st_foreign sample_spool (ae_request e)" "event_key sample_event = ''r1''"
    using sample_readable(2) by (simp_all add: event_key_def sample_event_def)
  then show ?thesis using spool_exactly_once [OF reach] reach none by auto
qed

theorem delivery_terminates_witness:
  "\<exists>s' n. delivery_run sample_spool n (start_delivery sample_spool sample_spooled) s' \<and> 0 < n \<and> n \<le> 4"
proof -
  let ?s = "start_delivery sample_spool sample_spooled"
  have "sp_delivery ?s = Selecting 1" by (simp add: start_delivery_def sample_rows)
  then have "deliver_step sample_spool ?s (?s\<lparr>sp_delivery := Resting\<rparr>)" by (intro delivery_dies) simp
  then have run: "delivery_run sample_spool (Suc 0) ?s (?s\<lparr>sp_delivery := Resting\<rparr>)" by (rule run_step [OF _ run_here])
  show ?thesis using delivery_terminates [OF sample_reach sample_rows(1) run] run sample_rows(2,3) by fastforce
qed

end
