(* ===== verification/Gainr_Requests.thy ===== *)
theory Gainr_Requests
  imports Engine
begin

text \<open>
  The requests of the gainr compatibility API: the validators of \<open>tenants/gainr/models.py\<close>, the
  compatibility section of \<open>core/tenant_config.py\<close>, and the request side of
  \<open>tenants/gainr/compatibility.py\<close>: parsing, the merge of explicit and inferred filters and the
  numeric category filters. What pydantic itself does with a field (its conversion to the declared
  type) is the argument \<open>pydantic\<close>; which keys a model accepts is written out.
\<close>

named_theorems gainr_facts \<open>facts of the gainr adapter\<close>

subsection \<open>TenantCompatibilityConfig\<close>

record compat_config =
  cc_adapter :: string
  cc_users_table :: string
  cc_page_size :: int
  cc_ranked_window :: int
  cc_suggestions_limit :: int
  cc_recent_limit :: int
  cc_recent_ttl :: int
  cc_min_fee_field :: string
  cc_max_fee_field :: string
  cc_fixed_fee_id :: int
  cc_negotiable_fee_id :: int
  cc_emit_meta :: bool
  cc_image_path :: string
  cc_serves_ready :: bool

definition compat_problem :: "string list \<Rightarrow> compat_config \<Rightarrow> string option" where
  "compat_problem supported c =
     (if cc_adapter c \<noteq> [] \<and> cc_adapter c \<notin> set supported then Some ''Unsupported compatibility adapter''
      else if cc_users_table c = [] then Some ''Compatibility users_table must not be empty''
      else if cc_page_size c \<le> 0 \<or> 100 < cc_page_size c then Some ''Compatibility page_size must be between 1 and 100''
      else if cc_ranked_window c < cc_page_size c \<or> 100 < cc_ranked_window c
        then Some ''Compatibility semantic_ranked_window must be between page_size and 100''
      else if cc_suggestions_limit c \<le> 0 \<or> 50 < cc_suggestions_limit c
        then Some ''Compatibility suggestions_limit must be between 1 and 50''
      else if cc_recent_limit c \<le> 0 \<or> 50 < cc_recent_limit c then Some ''Compatibility recent_limit must be between 1 and 50''
      else if cc_recent_ttl c \<le> 0 then Some ''Compatibility recent_ttl_seconds must be greater than zero''
      else if cc_min_fee_field c = [] \<or> cc_max_fee_field c = [] then Some ''Compatibility fee field names must not be empty''
      else if cc_min_fee_field c = cc_max_fee_field c then Some ''Compatibility fee field names must be different''
      else if cc_fixed_fee_id c = cc_negotiable_fee_id c then Some ''Fixed and negotiable fee IDs must be different''
      else if cc_image_path c \<noteq> [] \<and> last (cc_image_path c) \<noteq> CHR ''/'' then Some ''Compatibility image_path must end with /''
      else None)"

subsection \<open>The request models\<close>

text \<open>pydantic's conversions to \<open>int\<close>, \<open>float\<close>, \<open>str\<close> and \<open>int | str\<close>; \<open>None\<close> is a validation error.\<close>

record pydantic =
  co_int :: "pyval \<Rightarrow> int option"
  co_float :: "pyval \<Rightarrow> pyfloat option"
  co_str :: "pyval \<Rightarrow> string option"
  co_int_str :: "pyval \<Rightarrow> pyval option"

record search_filter =
  sf_city :: "int option"
  sf_category :: pyval
  sf_subcategory :: pyval
  sf_category_type :: pyval
  sf_localities :: "int list"
  sf_durations :: "string list"
  sf_ad_types :: "int list"
  sf_fees :: "int list"
  sf_attributes :: "pyval list"
  sf_sort :: pyval
  sf_min :: "pyfloat option"
  sf_max :: "pyfloat option"

record filter_request =
  fr_term :: string
  fr_filter :: search_filter
  fr_page :: int

definition no_filter :: search_filter where
  "no_filter = \<lparr>sf_city = None, sf_category = VStr [], sf_subcategory = VStr [], sf_category_type = VStr [],
     sf_localities = [], sf_durations = [], sf_ad_types = [], sf_fees = [], sf_attributes = [], sf_sort = VStr [],
     sf_min = None, sf_max = None\<rparr>"

definition invalid :: "string \<Rightarrow> py_error + 'a" where
  "invalid msg = Inl (ValueError msg)"

definition coerced :: "'a option \<Rightarrow> py_error + 'a" where
  "coerced v = (case v of None \<Rightarrow> invalid ''validation'' | Some x \<Rightarrow> Inr x)"

text \<open>A field that is not given keeps its default, which is not validated.\<close>

definition given :: "pydict \<Rightarrow> string list \<Rightarrow> 'a \<Rightarrow> (pyval \<Rightarrow> py_error + 'a) \<Rightarrow> py_error + 'a" where
  "given d names v0 f = (case List.map_filter (map_of d) names of [] \<Rightarrow> Inr v0 | v # _ \<Rightarrow> f v)"

definition blank_text :: "pyval \<Rightarrow> bool" where
  "blank_text v = (case v of VStr s \<Rightarrow> strip s = [] | _ \<Rightarrow> False)"

definition read_city :: "pydantic \<Rightarrow> pyval \<Rightarrow> py_error + int option" where
  "read_city py v = (if v = VNone \<or> blank_text v then Inr None
     else and_then (coerced (co_int py v)) (\<lambda>i. if 0 < i then Inr (Some i) else invalid ''greater_than''))"

definition read_numeric_id :: "pydantic \<Rightarrow> pyval \<Rightarrow> py_error + pyval" where
  "read_numeric_id py v =
     (case v of
        VNone \<Rightarrow> Inr (VStr [])
      | VStr s \<Rightarrow> (let t = strip s in
          if t = [] then Inr (VStr [])
          else if \<not> is_digit_str t then invalid ''filter IDs must be numeric or an empty string''
          else (case parse_int t of None \<Rightarrow> invalid ''int'' | Some i \<Rightarrow> coerced (co_int_str py (VInt i))))
      | _ \<Rightarrow> coerced (co_int_str py v))"

definition read_list :: "(pyval \<Rightarrow> 'a option) \<Rightarrow> pyval \<Rightarrow> py_error + 'a list" where
  "read_list f v = (case v of VList xs \<Rightarrow> map_ok (\<lambda>x. coerced (f x)) xs | _ \<Rightarrow> invalid ''list_type'')"

definition read_localities :: "pydantic \<Rightarrow> pyval \<Rightarrow> py_error + int list" where
  "read_localities py v = (if v = VNone \<or> blank_text v then Inr []
     else and_then (read_list (co_int py) v) (\<lambda>is.
       if list_ex (\<lambda>i. i \<le> 0) is then invalid ''locality_id values must be positive'' else Inr (dedup is)))"

definition read_durations :: "pydantic \<Rightarrow> pyval \<Rightarrow> py_error + string list" where
  "read_durations py v = and_then (read_list (co_str py) v) (\<lambda>ts. let normal = map squash ts in
     if [] \<in> set normal then invalid ''rental_duration values must not be blank'' else Inr (dedup normal))"

definition read_ad_types :: "pydantic \<Rightarrow> pyval \<Rightarrow> py_error + int list" where
  "read_ad_types py v = and_then (read_list (co_int py) v) (\<lambda>is.
     if list_ex (\<lambda>i. i \<notin> {1, 2}) (dedup is) then invalid ''ad_type supports only 1 (offer) and 2 (need)'' else Inr (dedup is))"

definition read_fees :: "pydantic \<Rightarrow> pyval \<Rightarrow> py_error + int list" where
  "read_fees py v = map_sum id dedup (read_list (co_int py) v)"

definition read_fee :: "pydantic \<Rightarrow> pyval \<Rightarrow> py_error + pyfloat option" where
  "read_fee py v = (if v = VNone \<or> v = VStr [] then Inr None
     else and_then (coerced (co_float py v)) (\<lambda>q. if 0 \<le> q then Inr (Some q) else invalid ''greater_than_equal''))"

text \<open>Texts of digits become numbers, blank texts are dropped; the order of first occurrence stays.\<close>

fun normal_attributes :: "pyval list \<Rightarrow> py_error + pyval list" where
  "normal_attributes [] = Inr []"
| "normal_attributes (VStr s # vs) =
     (if strip s = [] then normal_attributes vs
      else if is_digit_str (strip s)
      then (case parse_int (strip s) of None \<Rightarrow> invalid ''int'' | Some i \<Rightarrow> map_sum id ((#) (VInt i)) (normal_attributes vs))
      else map_sum id ((#) (VStr (strip s))) (normal_attributes vs))"
| "normal_attributes (v # vs) = map_sum id ((#) v) (normal_attributes vs)"

text \<open>\<open>dict.fromkeys\<close> refuses a container.\<close>

definition unhashable :: "pyval \<Rightarrow> bool" where
  "unhashable v = (case v of VList _ \<Rightarrow> True | VDict _ \<Rightarrow> True | _ \<Rightarrow> False)"

definition read_attributes :: "pydantic \<Rightarrow> pyval \<Rightarrow> py_error + pyval list" where
  "read_attributes py v =
     (if v = VNone \<or> v = VStr [] then Inr []
      else (case v of
        VList xs \<Rightarrow> and_then (normal_attributes xs) (\<lambda>ys.
          if list_ex unhashable ys then Inl (TypeError ''unhashable type'')
          else map_ok (\<lambda>y. coerced (co_int_str py y)) (py_dedup ys))
      | _ \<Rightarrow> invalid ''attribute_value must be a list''))"

definition filter_fields :: "string list" where
  "filter_fields = [''city_id'', ''category_id'', ''subcategory_id'', ''category_type'', ''locality_id'', ''rental_duration'',
     ''ad_type'', ''fee'', ''attribute_value'', ''sort_by'']"

text \<open>\<open>extra="forbid"\<close>: of two aliases of a fee only the first one given is a field.\<close>

definition fee_key :: "pydict \<Rightarrow> string list \<Rightarrow> string list" where
  "fee_key d names = take 1 (filter (\<lambda>n. map_of d n \<noteq> None) names)"

definition unknown_fields :: "pydict \<Rightarrow> bool" where
  "unknown_fields d \<longleftrightarrow> \<not> fst ` set d \<subseteq> set (filter_fields @ fee_key d [''min_fee'', ''fee_min''] @ fee_key d [''max_fee'', ''fee_max''])"

definition validate_fee_range :: "search_filter \<Rightarrow> py_error + search_filter" where
  "validate_fee_range f = (if (case (sf_min f, sf_max f) of (Some a, Some b) \<Rightarrow> b < a | _ \<Rightarrow> False)
     then invalid ''min_fee must not be greater than max_fee'' else Inr f)"

definition read_filter :: "pydantic \<Rightarrow> pyval \<Rightarrow> py_error + search_filter" where
  "read_filter py v = (case v of
     VDict d \<Rightarrow> if unknown_fields d then invalid ''extra_forbidden'' else
       and_then (given d [''city_id''] None (read_city py)) (\<lambda>city.
       and_then (given d [''category_id''] (VStr []) (read_numeric_id py)) (\<lambda>category.
       and_then (given d [''subcategory_id''] (VStr []) (read_numeric_id py)) (\<lambda>subcategory.
       and_then (given d [''category_type''] (VStr []) (read_numeric_id py)) (\<lambda>category_type.
       and_then (given d [''locality_id''] [] (read_localities py)) (\<lambda>localities.
       and_then (given d [''rental_duration''] [] (read_durations py)) (\<lambda>durations.
       and_then (given d [''ad_type''] [] (read_ad_types py)) (\<lambda>ad_types.
       and_then (given d [''fee''] [] (read_fees py)) (\<lambda>fees.
       and_then (given d [''attribute_value''] [] (read_attributes py)) (\<lambda>attributes.
       and_then (given d [''sort_by''] (VStr []) (read_numeric_id py)) (\<lambda>sort_by.
       and_then (given d [''min_fee'', ''fee_min''] None (read_fee py)) (\<lambda>low.
       and_then (given d [''max_fee'', ''fee_max''] None (read_fee py)) (\<lambda>high.
         validate_fee_range \<lparr>sf_city = city, sf_category = category, sf_subcategory = subcategory, sf_category_type = category_type,
           sf_localities = localities, sf_durations = durations, sf_ad_types = ad_types, sf_fees = fees,
           sf_attributes = attributes, sf_sort = sort_by, sf_min = low, sf_max = high\<rparr>))))))))))))
   | _ \<Rightarrow> invalid ''model_type'')"

definition read_term :: "pydantic \<Rightarrow> nat \<Rightarrow> nat \<Rightarrow> pyval \<Rightarrow> py_error + string" where
  "read_term py low high v = and_then (coerced (co_str py v)) (\<lambda>s.
     if length s < low then invalid ''string_too_short'' else if high < length s then invalid ''string_too_long'' else Inr (squash s))"

definition read_filter_request :: "pydantic \<Rightarrow> pydict \<Rightarrow> py_error + filter_request" where
  "read_filter_request py d =
     (if \<not> fst ` set d \<subseteq> {''searchTerm'', ''filter'', ''page''} then invalid ''extra_forbidden'' else
      and_then (given d [''searchTerm''] [] (read_term py 0 1000)) (\<lambda>t.
      and_then (given d [''filter''] no_filter (read_filter py)) (\<lambda>f.
      and_then (given d [''page''] 1 (\<lambda>v. and_then (coerced (co_int py v)) (\<lambda>i. if 1 \<le> i then Inr i else invalid ''greater_than_equal''))) (\<lambda>p.
        Inr \<lparr>fr_term = t, fr_filter = f, fr_page = p\<rparr>))))"

definition parse_search_suggestions :: "pydantic \<Rightarrow> pydict \<Rightarrow> py_error + string" where
  "parse_search_suggestions py d =
     (if \<not> fst ` set d \<subseteq> {''term''} then invalid ''extra_forbidden''
      else and_then (given d [''term''] (invalid ''missing'') (\<lambda>v. Inr (read_term py 1 250 v))) (\<lambda>r.
        and_then r (\<lambda>t. if t = [] then invalid ''term must not be blank'' else Inr t)))"

definition parse_filter_data :: "pydantic \<Rightarrow> pydict \<Rightarrow> py_error + int" where
  "parse_filter_data py d =
     (if \<not> fst ` set d \<subseteq> {''city_id''} then invalid ''extra_forbidden''
      else and_then (given d [''city_id''] (invalid ''missing'') (\<lambda>v. Inr (and_then (coerced (co_int py v)) (\<lambda>i.
        if 0 < i then Inr i else invalid ''greater_than'')))) (\<lambda>r. r))"

subsection \<open>parse_filter_result\<close>

text \<open>The configured name of a fee limit is renamed; a limit under its canonical name wins.\<close>

definition rename_fee :: "string \<Rightarrow> string \<Rightarrow> pydict \<Rightarrow> pydict" where
  "rename_fee configured canonical d =
     (case map_of d configured of
        None \<Rightarrow> d
      | Some v \<Rightarrow> (let rest = AList.delete configured d in
          if map_of rest canonical = None then rest @ [(canonical, v)] else rest))"

definition rename_fees :: "compat_config \<Rightarrow> pydict \<Rightarrow> pydict" where
  "rename_fees c payload =
     (case dget payload ''filter'' of
        VDict d \<Rightarrow> AList.update ''filter''
          (VDict (rename_fee (cc_max_fee_field c) ''max_fee'' (rename_fee (cc_min_fee_field c) ''min_fee'' d))) payload
      | _ \<Rightarrow> payload)"

definition parse_filter_result :: "compat_config \<Rightarrow> pydantic \<Rightarrow> pydict \<Rightarrow> py_error + filter_request" where
  "parse_filter_result c py payload =
     and_then (read_filter_request py (rename_fees c payload)) (\<lambda>r.
       if set (sf_fees (fr_filter r)) \<subseteq> {cc_fixed_fee_id c, cc_negotiable_fee_id c} then Inr r
       else invalid ''Unsupported fee filter IDs'')"

subsection \<open>Explicit filters and inferred filters\<close>

text \<open>The filters of the frontend are authoritative: each one removes the inferred fields it rivals.\<close>

definition pop_key :: "string \<Rightarrow> pydict \<times> pydict \<Rightarrow> pydict \<times> pydict" where
  "pop_key k ci = (case map_of (fst ci) k of
     None \<Rightarrow> ci
   | Some v \<Rightarrow> (AList.delete k (fst ci), AList.update k v (snd ci)))"

definition replace_filter :: "pyval option \<times> string list \<times> string \<Rightarrow> pydict \<times> pydict \<Rightarrow> pydict \<times> pydict" where
  "replace_filter r ci = (case r of (value, rivals, key) \<Rightarrow>
     (case value of
        None \<Rightarrow> ci
      | Some v \<Rightarrow> (case fold pop_key rivals ci of (c, i) \<Rightarrow> (AList.update key v c, i))))"

definition LOCATION_NAMES :: "string list" where
  "LOCATION_NAMES = [''state_name'', ''city_name'', ''locality_name'']"

definition CATEGORY_NAMES :: "string list" where
  "CATEGORY_NAMES = [''main_category_name'', ''subcategory_name'']"

definition set_id :: "pyval \<Rightarrow> pyval option" where
  "set_id v = (if v = VStr [] \<or> v = VNone then None else Some v)"

definition set_list :: "('a \<Rightarrow> pyval) \<Rightarrow> 'a list \<Rightarrow> pyval option" where
  "set_list f xs = (if xs = [] then None else Some (VList (map f xs)))"

definition replacements :: "search_filter \<Rightarrow> (pyval option \<times> string list \<times> string) list" where
  "replacements f = [
     (map_option VInt (sf_city f), LOCATION_NAMES, ''city_id''),
     (set_id (sf_category f), CATEGORY_NAMES, ''main_category_id''),
     (set_id (sf_subcategory f), CATEGORY_NAMES, ''subcategory_id''),
     (set_list VInt (sf_localities f), LOCATION_NAMES, ''locality_id''),
     (set_list VStr (sf_durations f), [''rental_duration''], ''rental_duration'')]"

definition empty_plan :: planned where
  "empty_plan = \<lparr>pd_plan = (new_plan (default_query_plan [] None))\<lparr>inferred_categories := [],
       execution_path := Some ''deterministic_filter''\<rparr>,
     pd_resolved = \<lparr>categorical = [], min_fee = None, max_fee = None\<rparr>, pd_unresolved = []\<rparr>"

definition take_limit :: "string \<Rightarrow> pyfloat option \<Rightarrow> pyfloat option \<Rightarrow> pydict \<Rightarrow> pyfloat option \<times> pydict" where
  "take_limit name explicit inferred ignored =
     (case explicit of
        None \<Rightarrow> (inferred, ignored)
      | Some q \<Rightarrow> (Some q, (case inferred of None \<Rightarrow> ignored | Some p \<Rightarrow> AList.update name (VFloat p) ignored)))"

definition merge_filters :: "search_filter \<Rightarrow> filters \<Rightarrow> filters \<times> pydict" where
  "merge_filters f auto =
     (let ci = fold replace_filter (replacements f) (fold pop_key LOCATION_NAMES (categorical auto, []));
          low = take_limit ''min_rental_fee'' (sf_min f) (min_fee auto) (snd ci);
          high = take_limit ''max_rental_fee'' (sf_max f) (max_fee auto) (snd low)
      in (\<lparr>categorical = fst ci, min_fee = fst low, max_fee = fst high\<rparr>, snd high))"

text \<open>\<open>plan\<close> is \<open>engine.plan\<close>; the result is the plan, the effective filters and the ignored ones.\<close>

definition effective_plan :: "(string \<Rightarrow> py_error + planned) \<Rightarrow> filter_request \<Rightarrow> py_error + (planned \<times> filters \<times> pydict)" where
  "effective_plan plan r =
     and_then (if fr_term r = [] then Inr empty_plan else plan (fr_term r)) (\<lambda>pd.
       let merged = merge_filters (fr_filter r) (pd_resolved pd)
       in Inr (pd, fst merged, if sf_ad_types (fr_filter r) = [] then snd merged
            else AList.update ''target_ad_type'' (VStr (target_ad_type (pd_plan pd))) (snd merged)))"

definition explicit_sort :: "search_filter \<Rightarrow> string option" where
  "explicit_sort f = (if py_eq (sf_sort f) (VInt 1) then Some ''price_asc''
     else if py_eq (sf_sort f) (VInt 2) then Some ''price_desc'' else None)"

definition with_explicit_sort :: "search_filter \<Rightarrow> planned \<Rightarrow> planned" where
  "with_explicit_sort f pd = (case explicit_sort f of None \<Rightarrow> pd
     | Some s \<Rightarrow> pd\<lparr>pd_plan := (pd_plan pd)\<lparr>sort_order := Some s\<rparr>\<rparr>)"

definition allowed_types :: "search_filter \<Rightarrow> planned \<Rightarrow> string list" where
  "allowed_types f pd = (if sf_ad_types f = []
     then [if target_ad_type (pd_plan pd) = ''wanted'' then ''2'' else ''1''] else map show_int (sf_ad_types f))"

text \<open>\<open>_indexed_catalog_filters\<close>: a name with a known number is replaced by the number.\<close>

definition index_name :: "(string \<times> (string, int) dict) list \<Rightarrow> string \<times> string \<Rightarrow> pydict \<Rightarrow> pydict" where
  "index_name ids nk cat = (case nk of (name_key, id_key) \<Rightarrow>
     if map_of cat id_key \<noteq> None then cat
     else (case map_of cat name_key of
         Some (VStr raw) \<Rightarrow>
           (case map_of (case map_of ids name_key of None \<Rightarrow> [] | Some m \<Rightarrow> m) (norm_text raw) of
              None \<Rightarrow> cat
            | Some i \<Rightarrow> AList.update id_key (VInt i) (AList.delete name_key cat))
       | _ \<Rightarrow> cat))"

definition indexed_catalog_filters :: "(string \<times> (string, int) dict) list \<Rightarrow> filters \<Rightarrow> filters" where
  "indexed_catalog_filters ids fs = fs\<lparr>categorical :=
     fold (index_name ids) [(''main_category_name'', ''main_category_id''), (''subcategory_name'', ''subcategory_id'')]
       (categorical fs)\<rparr>"

text \<open>\<open>analytics_failure_context\<close>, the safe explicit filters of a request.\<close>

definition failure_context :: "search_filter \<Rightarrow> pydict" where
  "failure_context f = filter (\<lambda>(k, v). v \<notin> {VNone, VStr [], VList [], VDict []}) [
     (''main_category_id'', sf_category f), (''subcategory_id'', sf_subcategory f),
     (''city_id'', case sf_city f of None \<Rightarrow> VNone | Some i \<Rightarrow> VInt i), (''locality_id'', VList (map VInt (sf_localities f))),
     (''rental_duration'', VList (map VStr (sf_durations f))),
     (''min_rental_fee'', case sf_min f of None \<Rightarrow> VNone | Some q \<Rightarrow> VFloat q),
     (''max_rental_fee'', case sf_max f of None \<Rightarrow> VNone | Some q \<Rightarrow> VFloat q), (''sort_by'', sf_sort f)]
   @ (if sf_ad_types f = [] then [] else [(''target_ad_type'', VList (map VInt (sf_ad_types f)))])"

subsection \<open>A parsed request is well formed\<close>

definition filter_ok :: "search_filter \<Rightarrow> bool" where
  "filter_ok f \<longleftrightarrow> (case sf_city f of None \<Rightarrow> True | Some i \<Rightarrow> 0 < i)
     \<and> distinct (sf_localities f) \<and> (\<forall>i\<in>set (sf_localities f). 0 < i)
     \<and> distinct (sf_durations f) \<and> (\<forall>t\<in>set (sf_durations f). t \<noteq> [] \<and> squash t = t)
     \<and> distinct (sf_ad_types f) \<and> set (sf_ad_types f) \<subseteq> {1, 2} \<and> distinct (sf_fees f)
     \<and> (case sf_min f of None \<Rightarrow> True | Some q \<Rightarrow> 0 \<le> q) \<and> (case sf_max f of None \<Rightarrow> True | Some q \<Rightarrow> 0 \<le> q)
     \<and> (case (sf_min f, sf_max f) of (Some a, Some b) \<Rightarrow> a \<le> b | _ \<Rightarrow> True)"

definition request_ok :: "compat_config \<Rightarrow> filter_request \<Rightarrow> bool" where
  "request_ok c r \<longleftrightarrow> 1 \<le> fr_page r \<and> squash (fr_term r) = fr_term r \<and> filter_ok (fr_filter r)
     \<and> set (sf_fees (fr_filter r)) \<subseteq> {cc_fixed_fee_id c, cc_negotiable_fee_id c}"

lemma coerced_Inr [simp]: "coerced v = Inr x \<longleftrightarrow> v = Some x"
  by (simp add: coerced_def invalid_def split: option.splits)

lemma invalid_not [simp]: "invalid msg \<noteq> Inr x"
  by (simp add: invalid_def)

lemma given_keeps: "given d names v0 f = Inr x \<Longrightarrow> (\<And>v y. f v = Inr y \<Longrightarrow> P y) \<Longrightarrow> P v0 \<Longrightarrow> P x"
  by (auto simp: given_def split: list.splits)

lemma read_parts:
  "read_city py v = Inr city \<Longrightarrow> case city of None \<Rightarrow> True | Some i \<Rightarrow> 0 < i"
  "read_localities py v = Inr is \<Longrightarrow> distinct is \<and> (\<forall>i\<in>set is. 0 < i)"
  "read_durations py v = Inr ts \<Longrightarrow> distinct ts \<and> (\<forall>t\<in>set ts. t \<noteq> [] \<and> squash t = t)"
  "read_ad_types py v = Inr is \<Longrightarrow> distinct is \<and> set is \<subseteq> {1, 2}"
  "read_fees py v = Inr is \<Longrightarrow> distinct is"
  "read_fee py v = Inr q \<Longrightarrow> case q of None \<Rightarrow> True | Some x \<Rightarrow> 0 \<le> x"
  by (auto simp: read_city_def read_localities_def read_durations_def read_ad_types_def read_fees_def read_fee_def
      and_then_Inr squash_idem Let_def list_ex_iff not_le split: if_splits elim!: map_sum_InrE)

lemma read_filter_ok:
  assumes "read_filter py v = Inr f"
  shows "filter_ok f"
proof -
  obtain d where v: "v = VDict d" using assms by (cases v) (auto simp: read_filter_def)
  obtain city category subcategory category_type localities durations ad_types fees attributes sort_by low high where parts:
      "given d [''city_id''] None (read_city py) = Inr city"
      "given d [''locality_id''] [] (read_localities py) = Inr localities"
      "given d [''rental_duration''] [] (read_durations py) = Inr durations"
      "given d [''ad_type''] [] (read_ad_types py) = Inr ad_types"
      "given d [''fee''] [] (read_fees py) = Inr fees"
      "given d [''min_fee'', ''fee_min''] None (read_fee py) = Inr low"
      "given d [''max_fee'', ''fee_max''] None (read_fee py) = Inr high"
    and range: "validate_fee_range f = Inr f"
    and f: "f = \<lparr>sf_city = city, sf_category = category, sf_subcategory = subcategory, sf_category_type = category_type,
           sf_localities = localities, sf_durations = durations, sf_ad_types = ad_types, sf_fees = fees,
           sf_attributes = attributes, sf_sort = sort_by, sf_min = low, sf_max = high\<rparr>"
    using assms unfolding v read_filter_def pyval.case
  proof (simp only: and_then_Inr split: if_split_asm, simp, elim exE conjE)
    fix city category subcategory category_type localities durations ad_types fees attributes sort_by low high
    assume parts:
      "given d [''city_id''] None (read_city py) = Inr city"
      "given d [''locality_id''] [] (read_localities py) = Inr localities"
      "given d [''rental_duration''] [] (read_durations py) = Inr durations"
      "given d [''ad_type''] [] (read_ad_types py) = Inr ad_types"
      "given d [''fee''] [] (read_fees py) = Inr fees"
      "given d [''min_fee'', ''fee_min''] None (read_fee py) = Inr low"
      "given d [''max_fee'', ''fee_max''] None (read_fee py) = Inr high"
      and valid: "validate_fee_range \<lparr>sf_city = city, sf_category = category, sf_subcategory = subcategory, sf_category_type = category_type,
           sf_localities = localities, sf_durations = durations, sf_ad_types = ad_types, sf_fees = fees,
           sf_attributes = attributes, sf_sort = sort_by, sf_min = low, sf_max = high\<rparr> = Inr f"
    then have "f = \<lparr>sf_city = city, sf_category = category, sf_subcategory = subcategory, sf_category_type = category_type,
           sf_localities = localities, sf_durations = durations, sf_ad_types = ad_types, sf_fees = fees,
           sf_attributes = attributes, sf_sort = sort_by, sf_min = low, sf_max = high\<rparr>"
      by (simp add: validate_fee_range_def split: if_split_asm)
    then show thesis using that parts valid by blast
  qed
  have "case city of None \<Rightarrow> True | Some i \<Rightarrow> 0 < i" by (rule given_keeps [OF parts(1) read_parts(1)]) simp_all
  moreover have "distinct localities \<and> (\<forall>i\<in>set localities. 0 < i)" by (rule given_keeps [OF parts(2) read_parts(2)]) simp_all
  moreover have "distinct durations \<and> (\<forall>t\<in>set durations. t \<noteq> [] \<and> squash t = t)"
    by (rule given_keeps [OF parts(3) read_parts(3)]) simp_all
  moreover have "distinct ad_types \<and> set ad_types \<subseteq> {1, 2}" by (rule given_keeps [OF parts(4) read_parts(4)]) simp_all
  moreover have "distinct fees" by (rule given_keeps [OF parts(5) read_parts(5)]) simp_all
  moreover have "case low of None \<Rightarrow> True | Some q \<Rightarrow> 0 \<le> q" by (rule given_keeps [OF parts(6) read_parts(6)]) simp_all
  moreover have "case high of None \<Rightarrow> True | Some q \<Rightarrow> 0 \<le> q" by (rule given_keeps [OF parts(7) read_parts(6)]) simp_all
  ultimately show ?thesis using range
    by (auto simp: f filter_ok_def validate_fee_range_def not_less split: option.splits if_split_asm)
qed

lemma read_request_ok:
  assumes "read_filter_request py d = Inr r"
  shows "1 \<le> fr_page r \<and> squash (fr_term r) = fr_term r \<and> filter_ok (fr_filter r)"
proof -
  obtain t f p where t: "given d [''searchTerm''] [] (read_term py 0 1000) = Inr t"
    and f: "given d [''filter''] no_filter (read_filter py) = Inr f"
    and p: "given d [''page''] 1 (\<lambda>v. and_then (coerced (co_int py v)) (\<lambda>i. if 1 \<le> i then Inr i else invalid ''greater_than_equal'')) = Inr p"
    and r: "r = \<lparr>fr_term = t, fr_filter = f, fr_page = p\<rparr>"
    using assms unfolding read_filter_request_def by (auto simp: and_then_Inr split: if_splits)
  have "squash ([] :: string) = []" by (simp add: squash_def split_ws_def)
  then have "squash t = t"
    by (intro given_keeps [OF t, where P = "\<lambda>t. squash t = t"]) (auto simp: read_term_def and_then_Inr squash_idem split: if_splits)
  moreover have "filter_ok f" by (rule given_keeps [OF f read_filter_ok]) (simp_all add: no_filter_def filter_ok_def)
  moreover have "1 \<le> p" by (rule given_keeps [OF p]) (auto simp: and_then_Inr split: if_splits)
  ultimately show ?thesis by (simp add: r)
qed


subsection \<open>Explicit filters win\<close>

lemma pop_keys_map: "map_of (fst (fold pop_key ks ci)) x = (if x \<in> set ks then None else map_of (fst ci) x)"
proof (induction ks arbitrary: ci)
  case (Cons k ks)
  have "map_of (fst (pop_key k ci)) y = (if y = k then None else map_of (fst ci) y)" for y
    by (auto simp: pop_key_def delete_conv' split: option.split)
  then show ?case unfolding fold.simps comp_apply Cons.IH by simp
qed simp

lemma replace_filter_map:
  "map_of (fst (replace_filter (value, rivals, key) ci)) x = (case value of
     None \<Rightarrow> map_of (fst ci) x
   | Some v \<Rightarrow> if x = key then Some v else if x \<in> set rivals then None else map_of (fst ci) x)"
proof (cases "fold pop_key rivals ci")
  case (Pair c i)
  then have "map_of c x = (if x \<in> set rivals then None else map_of (fst ci) x)" using pop_keys_map [of rivals ci x] by simp
  then show ?thesis by (simp add: replace_filter_def Pair update_conv' split: option.split)
qed

definition explicit_value :: "search_filter \<Rightarrow> string \<Rightarrow> pyval option" where
  "explicit_value f k = (if k = ''city_id'' then map_option VInt (sf_city f)
     else if k = ''main_category_id'' then set_id (sf_category f)
     else if k = ''subcategory_id'' then set_id (sf_subcategory f)
     else if k = ''locality_id'' then set_list VInt (sf_localities f)
     else if k = ''rental_duration'' then set_list VStr (sf_durations f)
     else None)"

lemma effective_filters:
  assumes "effective_plan plan r = Inr (pd, eff, ignored)"
  shows "map_of (categorical eff) k = (case explicit_value (fr_filter r) k of
       Some v \<Rightarrow> Some v
     | None \<Rightarrow> if k \<in> set LOCATION_NAMES \<or> (k \<in> set CATEGORY_NAMES
            \<and> (explicit_value (fr_filter r) ''main_category_id'' \<noteq> None \<or> explicit_value (fr_filter r) ''subcategory_id'' \<noteq> None))
         then None else map_of (categorical (pd_resolved pd)) k)
     \<and> min_fee eff = (case sf_min (fr_filter r) of None \<Rightarrow> min_fee (pd_resolved pd) | Some q \<Rightarrow> Some q)
     \<and> max_fee eff = (case sf_max (fr_filter r) of None \<Rightarrow> max_fee (pd_resolved pd) | Some q \<Rightarrow> Some q)"
proof -
  let ?ci = "fold pop_key LOCATION_NAMES (categorical (pd_resolved pd), [])"
  let ?ci' = "fold replace_filter (replacements (fr_filter r)) ?ci"
  have eff: "categorical eff = fst ?ci'"
    and limits: "min_fee eff = (case sf_min (fr_filter r) of None \<Rightarrow> min_fee (pd_resolved pd) | Some q \<Rightarrow> Some q)"
      "max_fee eff = (case sf_max (fr_filter r) of None \<Rightarrow> max_fee (pd_resolved pd) | Some q \<Rightarrow> Some q)"
    using assms unfolding effective_plan_def merge_filters_def
    by (auto simp: and_then_Inr Let_def take_limit_def split: option.split)
  have step: "map_of (fst (replace_filter (val, rivals, key) ci)) x =
      (if val \<noteq> None \<and> x = key then val else if val \<noteq> None \<and> x \<in> set rivals then None else map_of (fst ci) x)"
    for val rivals key ci x by (simp add: replace_filter_map split: option.split)
  let ?names = "[''city_id'', ''main_category_id'', ''subcategory_id'', ''locality_id'', ''rental_duration'', ''state_name'', ''city_name'',
      ''locality_name'', ''main_category_name'', ''subcategory_name'']"
  have "map_of (fst ?ci') k = (case explicit_value (fr_filter r) k of
       Some v \<Rightarrow> Some v
     | None \<Rightarrow> if k \<in> set LOCATION_NAMES \<or> (k \<in> set CATEGORY_NAMES
            \<and> (explicit_value (fr_filter r) ''main_category_id'' \<noteq> None \<or> explicit_value (fr_filter r) ''subcategory_id'' \<noteq> None))
         then None else map_of (categorical (pd_resolved pd)) k)"
  proof (cases "k \<in> set ?names")
    case True
    then show ?thesis unfolding replacements_def fold.simps comp_apply step pop_keys_map id_apply explicit_value_def
      by (simp only: list.set insert_iff empty_iff) (elim disjE; simp add: LOCATION_NAMES_def CATEGORY_NAMES_def split: option.split)
  next
    case False
    then show ?thesis unfolding replacements_def fold.simps comp_apply step pop_keys_map id_apply explicit_value_def
      by (simp add: LOCATION_NAMES_def CATEGORY_NAMES_def)
  qed
  then show ?thesis unfolding eff limits by blast
qed

text \<open>
  C21: The effective filters carry exactly the explicit ones: each explicit filter is set as
  the client sent it, no inferred rival of it and no inferred location survives, and nothing
  else of the plan is lost.
\<close>

theorem explicit_filters_authoritative:
  assumes "effective_plan plan r = Inr (pd, eff, ignored)"
  shows "map_of (categorical eff) k = (case explicit_value (fr_filter r) k of
       Some v \<Rightarrow> Some v
     | None \<Rightarrow> if k \<in> set LOCATION_NAMES \<or> (k \<in> set CATEGORY_NAMES
            \<and> (explicit_value (fr_filter r) ''main_category_id'' \<noteq> None \<or> explicit_value (fr_filter r) ''subcategory_id'' \<noteq> None))
         then None else map_of (categorical (pd_resolved pd)) k)
     \<and> min_fee eff = (case sf_min (fr_filter r) of None \<Rightarrow> min_fee (pd_resolved pd) | Some q \<Rightarrow> Some q)
     \<and> max_fee eff = (case sf_max (fr_filter r) of None \<Rightarrow> max_fee (pd_resolved pd) | Some q \<Rightarrow> Some q)"
  by (rule effective_filters [OF assms])

subsection \<open>A concrete request\<close>

definition sample_pydantic :: pydantic where
  "sample_pydantic = \<lparr>co_int = (\<lambda>v. case v of VInt i \<Rightarrow> Some i | _ \<Rightarrow> None), co_float = to_float,
     co_str = (\<lambda>v. case v of VStr s \<Rightarrow> Some s | _ \<Rightarrow> None),
     co_int_str = (\<lambda>v. case v of VInt i \<Rightarrow> Some v | VStr s \<Rightarrow> Some v | _ \<Rightarrow> None)\<rparr>"

definition sample_compat :: compat_config where
  "sample_compat = \<lparr>cc_adapter = ''gainr_legacy'', cc_users_table = ''users'', cc_page_size = 2, cc_ranked_window = 40,
     cc_suggestions_limit = 8, cc_recent_limit = 10, cc_recent_ttl = 60, cc_min_fee_field = ''min_fee'', cc_max_fee_field = ''top_fee'',
     cc_fixed_fee_id = 1, cc_negotiable_fee_id = 0, cc_emit_meta = True, cc_image_path = '''', cc_serves_ready = True\<rparr>"

definition sample_payload :: pydict where
  "sample_payload = [(''searchTerm'', VStr '' red   car ''), (''page'', VInt 2),
     (''filter'', VDict [(''city_id'', VInt 5), (''locality_id'', VList [VInt 3, VInt 3]), (''category_id'', VStr ''12''),
        (''fee'', VList [VInt 1]), (''top_fee'', VInt 500)])]"

definition sample_request :: filter_request where
  "sample_request = \<lparr>fr_term = ''red car'', fr_filter = no_filter\<lparr>sf_city := Some 5, sf_localities := [3],
     sf_category := VInt 12, sf_fees := [1], sf_max := Some 500\<rparr>, fr_page = 2\<rparr>"

lemma sample_parsed: "parse_filter_result sample_compat sample_pydantic sample_payload = Inr sample_request"
  by code_simp


definition sample_planned :: planned where
  "sample_planned = empty_plan\<lparr>pd_resolved := \<lparr>categorical = [(''city_name'', VStr ''Pune''), (''main_category_name'', VStr ''Bikes''),
     (''rental_duration'', VStr ''Per Day'')], min_fee = Some 10, max_fee = Some 90\<rparr>\<rparr>"

theorem explicit_filters_authoritative_witness:
  "\<exists>pd eff ignored. effective_plan (\<lambda>q. Inr sample_planned) sample_request = Inr (pd, eff, ignored)
     \<and> map_of (categorical eff) ''city_id'' = Some (VInt 5) \<and> map_of (categorical eff) ''city_name'' = None
     \<and> map_of (categorical eff) ''rental_duration'' = Some (VStr ''Per Day'') \<and> max_fee eff = Some 500 \<and> min_fee eff = Some 10"
proof -
  obtain pd eff ignored where run: "effective_plan (\<lambda>q. Inr sample_planned) sample_request = Inr (pd, eff, ignored)"
    by (simp add: effective_plan_def Let_def sample_request_def)
  have pd: "pd = sample_planned" using run by (simp add: effective_plan_def Let_def sample_request_def)
  show ?thesis using run explicit_filters_authoritative [OF run, of "''city_id''"] explicit_filters_authoritative [OF run, of "''city_name''"]
      explicit_filters_authoritative [OF run, of "''rental_duration''"]
    unfolding pd by (simp add: explicit_value_def LOCATION_NAMES_def CATEGORY_NAMES_def sample_request_def sample_planned_def no_filter_def set_list_def)
qed

end
