(* ===== verification/Gainr_Catalog.thy ===== *)
theory Gainr_Catalog
  imports Gainr_Requests Engine_Facts
begin

text \<open>
  \<open>tenants/gainr/repository.py\<close>: the reads of the gainr catalogue over its search-ready table and the
  live ads. A WHERE clause is a list of conditions with their meaning on a row; what MySQL decides
  (equality under the collation, LIKE, JSON_CONTAINS, numbers and order of values) is the argument
  \<open>mysql\<close>. Each statement reads one state of the tables; connections, pools and timings are left out.
\<close>

record mysql =
  my_eq :: "pyval \<Rightarrow> pyval \<Rightarrow> bool"
  my_contains :: "pyval \<Rightarrow> string \<Rightarrow> bool"
  my_prefix :: "pyval \<Rightarrow> string \<Rightarrow> bool"
  my_lower_eq :: "pyval \<Rightarrow> string \<Rightarrow> bool"
  my_json_value :: "pyval \<Rightarrow> pyval \<Rightarrow> bool"
  my_num :: "pyval \<Rightarrow> pyfloat option"
  my_order :: "pyval \<Rightarrow> pyfloat option"

record gainr_repo =
  gr_compat :: compat_config
  gr_active :: "string option"
  gr_id_column :: string

record gainr_db =
  gd_ready :: "pydict list"
  gd_ads :: "pydict list"
  gd_attributes :: "pydict list"
  gd_users :: "pydict list"
  gd_subcategories :: "pydict list"
  gd_locations :: "pydict list"

subsection \<open>Conditions\<close>

datatype sql_condition =
    ActiveRow string
  | LiveAd
  | CardLive
  | ReadyIn string "pyval list"
  | CardIn string "pyval list"
  | Boosted
  | HasAttribute "pyval list"
  | Priced "pyfloat option" "pyfloat option"
  | WantedOrPriced "pyfloat option" "pyfloat option"
  | Mentions string
  | Never

definition my_in :: "mysql \<Rightarrow> pyval \<Rightarrow> pyval list \<Rightarrow> bool" where
  "my_in my v vs \<longleftrightarrow> v \<noteq> VNone \<and> list_ex (\<lambda>x. x \<noteq> VNone \<and> my_eq my v x) vs"

text \<open>\<open>deleted_at IS NULL OR TRIM(deleted_at) = ''\<close>, and an ad that is shown\<close>

definition undeleted :: "pyval \<Rightarrow> bool" where
  "undeleted v = (case v of VNone \<Rightarrow> True | VStr s \<Rightarrow> list_all (\<lambda>c. c = CHR '' '') s | _ \<Rightarrow> False)"

definition ad_live :: "mysql \<Rightarrow> pydict \<Rightarrow> bool" where
  "ad_live my ad \<longleftrightarrow> my_in my (dget ad ''status'') [VInt 1] \<and> undeleted (dget ad ''deleted_at'')"

definition unpriced_row :: "mysql \<Rightarrow> pydict \<Rightarrow> bool" where
  "unpriced_row my row = (case my_num my (dget row ''rental_fee'') of None \<Rightarrow> True | Some q \<Rightarrow> q \<le> 1)"

definition priced_row :: "mysql \<Rightarrow> pyfloat option \<Rightarrow> pyfloat option \<Rightarrow> pydict \<Rightarrow> bool" where
  "priced_row my low high row = (case my_num my (dget row ''rental_fee'') of None \<Rightarrow> False
     | Some q \<Rightarrow> 1 < q \<and> (case low of None \<Rightarrow> True | Some a \<Rightarrow> a \<le> q) \<and> (case high of None \<Rightarrow> True | Some b \<Rightarrow> q \<le> b))"

text \<open>A condition on a search-ready row and the card row it is shown with.\<close>

fun holds :: "mysql \<Rightarrow> gainr_db \<Rightarrow> pydict \<times> pydict \<Rightarrow> sql_condition \<Rightarrow> bool" where
  "holds my db (sr, shown) (ActiveRow c) \<longleftrightarrow> my_in my (dget sr c) [VInt 1]"
| "holds my db (sr, shown) LiveAd \<longleftrightarrow> list_ex (\<lambda>ad. my_in my (dget ad ''id'') [dget sr ''id''] \<and> ad_live my ad) (gd_ads db)"
| "holds my db (sr, shown) CardLive \<longleftrightarrow> ad_live my shown"
| "holds my db (sr, shown) (ReadyIn c vs) \<longleftrightarrow> my_in my (dget sr c) vs"
| "holds my db (sr, shown) (CardIn c vs) \<longleftrightarrow> my_in my (dget shown c) vs"
| "holds my db (sr, shown) Boosted \<longleftrightarrow> (case my_num my (dget sr ''boost_ad_count'') of None \<Rightarrow> False | Some q \<Rightarrow> 0 < q)"
| "holds my db (sr, shown) (HasAttribute vs) \<longleftrightarrow> list_ex (my_json_value my (dget sr ''ads_attributes_json'')) vs"
| "holds my db (sr, shown) (Priced low high) \<longleftrightarrow> priced_row my low high sr"
| "holds my db (sr, shown) (WantedOrPriced low high) \<longleftrightarrow>
     my_in my (dget shown ''type'') [VStr ''2''] \<and> unpriced_row my sr \<or> priced_row my low high sr"
| "holds my db (sr, shown) (Mentions t) \<longleftrightarrow> my_contains my (dget sr ''title'') t \<or> my_contains my (dget sr ''bm25_content'') t"
| "holds my db (sr, shown) Never \<longleftrightarrow> False"

subsection \<open>_where_clause\<close>

definition COLUMN_MAP :: "string list" where
  "COLUMN_MAP = [''main_category_name'', ''subcategory_name'', ''state_name'', ''city_name'', ''locality_name'', ''rental_duration'',
     ''main_category_id'', ''subcategory_id'', ''state_id'', ''city_id'', ''locality_id'', ''user_gender'']"

definition append_condition :: "(pyval list \<Rightarrow> sql_condition) \<Rightarrow> pyval \<Rightarrow> sql_condition list" where
  "append_condition mk v = (case v of
     VList vs \<Rightarrow> if vs = [] then [] else [mk (py_dedup vs)]
   | _ \<Rightarrow> [mk [v]])"

definition category_conditions :: "pydict \<Rightarrow> sql_condition list" where
  "category_conditions cat = concat (map (\<lambda>(k, v). if k \<in> set COLUMN_MAP then append_condition (ReadyIn k) v else []) cat)"

definition type_conditions :: "pyval \<Rightarrow> sql_condition list" where
  "type_conditions v =
     (if v = VStr [] \<or> v = VNone then []
      else if py_in v [VInt 1, VInt 2] then append_condition (ReadyIn ''category_type'') v
      else if py_eq v (VInt 3) then [Boosted] else [])"

definition price_conditions :: "pyfloat option \<Rightarrow> pyfloat option \<Rightarrow> string list option \<Rightarrow> sql_condition list" where
  "price_conditions low high types =
     (if low = None \<and> high = None then []
      else if (case types of None \<Rightarrow> False | Some ts \<Rightarrow> ''2'' \<in> set ts) then [WantedOrPriced low high]
      else [Priced low high])"

definition fee_conditions :: "compat_config \<Rightarrow> int list \<Rightarrow> sql_condition list" where
  "fee_conditions c fees =
     (let values = concat (map (\<lambda>v. if v = cc_fixed_fee_id c then [VInt 0] else if v = cc_negotiable_fee_id c then [VInt 1] else []) fees)
      in append_condition (CardIn ''is_rent_negotiable'') (VList values))"

definition id_conditions :: "pyval list option \<Rightarrow> string \<Rightarrow> pydict \<Rightarrow> sql_condition list" where
  "id_conditions ids fallback cat = (case ids of
     Some is \<Rightarrow> if is = [] then [Never] else append_condition (ReadyIn ''id'') (VList is)
   | None \<Rightarrow> if fallback \<noteq> [] \<and> cat = [] then [Mentions fallback] else [])"

definition where_clause ::
    "gainr_repo \<Rightarrow> filters \<Rightarrow> search_filter \<Rightarrow> pyval list option \<Rightarrow> string \<Rightarrow> string list option \<Rightarrow> sql_condition list" where
  "where_clause repo fs f ids fallback types =
     (case gr_active repo of None \<Rightarrow> [] | Some c \<Rightarrow> [ActiveRow c])
     @ [if cc_serves_ready (gr_compat repo) then LiveAd else CardLive]
     @ category_conditions (categorical fs)
     @ type_conditions (sf_category_type f)
     @ (if sf_attributes f = [] then [] else [HasAttribute (sf_attributes f)])
     @ price_conditions (min_fee fs) (max_fee fs) types
     @ (case types of None \<Rightarrow> [] | Some ts \<Rightarrow> append_condition (CardIn ''type'') (VList (map VStr (sort ts))))
     @ (if sf_fees f = [] then [] else fee_conditions (gr_compat repo) (sf_fees f))
     @ id_conditions ids fallback (categorical fs)"

subsection \<open>Reads\<close>

definition joined :: "mysql \<Rightarrow> gainr_repo \<Rightarrow> gainr_db \<Rightarrow> (pydict \<times> pydict) list" where
  "joined my repo db =
     (if cc_serves_ready (gr_compat repo) then map (\<lambda>r. (r, r)) (gd_ready db)
      else concat (map (\<lambda>r. map (Pair r) (filter (\<lambda>a. my_in my (dget a ''id'') [dget r ''id'']) (gd_ads db))) (gd_ready db)))"

definition matching :: "mysql \<Rightarrow> gainr_repo \<Rightarrow> sql_condition list \<Rightarrow> gainr_db \<Rightarrow> (pydict \<times> pydict) list" where
  "matching my repo conds db = filter (\<lambda>x. list_all (holds my db x) conds) (joined my repo db)"

definition card_row :: "pydict \<times> pydict \<Rightarrow> pydict" where
  "card_row x = AList.update ''__city_name'' (dget (fst x) ''city_name'')
     (AList.update ''__locality_name'' (dget (fst x) ''locality_name'') (snd x))"

definition count_distinct :: "mysql \<Rightarrow> pyval list \<Rightarrow> nat" where
  "count_distinct my vs = length (fold (\<lambda>v acc. if v = VNone \<or> list_ex (my_eq my v) acc then acc else acc @ [v]) vs [])"

definition down :: "mysql \<Rightarrow> pyval \<Rightarrow> bool \<times> pyfloat" where
  "down my v = (case my_order my v of None \<Rightarrow> (True, 0) | Some q \<Rightarrow> (False, - q))"

definition up :: "mysql \<Rightarrow> pyval \<Rightarrow> bool \<times> pyfloat" where
  "up my v = (case my_order my v of None \<Rightarrow> (False, 0) | Some q \<Rightarrow> (True, q))"

definition catalog_order :: "mysql \<Rightarrow> string option \<Rightarrow> pydict \<times> pydict \<Rightarrow> bool \<times> (bool \<times> pyfloat) \<times> (bool \<times> pyfloat)" where
  "catalog_order my order x = (let sr = fst x in
     if order = Some ''price_asc'' then (unpriced_row my sr, up my (dget sr ''rental_fee''), down my (dget sr ''id''))
     else if order = Some ''price_desc'' then (unpriced_row my sr, down my (dget sr ''rental_fee''), down my (dget sr ''id''))
     else (False, down my (dget sr ''updated_at''), down my (dget sr ''id'')))"

definition slice_of :: "nat \<Rightarrow> nat \<Rightarrow> 'a list \<Rightarrow> 'a list" where
  "slice_of page per xs = take per (drop ((page - 1) * per) xs)"

text \<open>The count and the page are two statements; a pool may run them on two connections.\<close>

definition search_catalog ::
    "mysql \<Rightarrow> gainr_repo \<Rightarrow> filters \<Rightarrow> search_filter \<Rightarrow> string \<Rightarrow> nat \<Rightarrow> nat \<Rightarrow> string option \<Rightarrow> string list option
      \<Rightarrow> gainr_db \<Rightarrow> gainr_db \<Rightarrow> pydict list \<times> nat" where
  "search_catalog my repo fs f term page per order types db_total db_rows =
     (let conds = where_clause repo fs f None term types;
          counted = matching my repo conds db_total
      in (map card_row (slice_of page per (sort_key (catalog_order my order) (matching my repo conds db_rows))),
          if cc_serves_ready (gr_compat repo) then length counted
          else count_distinct my (map (\<lambda>x. dget (fst x) ''id'') counted)))"

definition count_filter_variants ::
    "mysql \<Rightarrow> gainr_repo \<Rightarrow> (string \<times> filters \<times> search_filter \<times> string list option) list \<Rightarrow> pyval list option \<Rightarrow> string
      \<Rightarrow> gainr_db \<Rightarrow> (string \<times> nat) list" where
  "count_filter_variants my repo variants ids fallback db =
     map (\<lambda>(label, fs, f, types). (label, count_distinct my (map (\<lambda>x. dget (fst x) ''id'')
        (matching my repo (where_clause repo fs f ids fallback types) db)))) variants"

definition hydrate_filtered ::
    "mysql \<Rightarrow> gainr_repo \<Rightarrow> pyval list \<Rightarrow> filters \<Rightarrow> search_filter \<Rightarrow> string list option \<Rightarrow> gainr_db \<Rightarrow> pydict list" where
  "hydrate_filtered my repo ids fs f types db =
     (if ids = [] then []
      else (let rows = map card_row (matching my repo (where_clause repo fs f (Some ids) [] types) db);
                by_id = map (\<lambda>r. (py_str (dget r (gr_id_column repo)), r)) (rev rows)
            in List.map_filter (\<lambda>i. map_of by_id (py_str i)) ids))"

text \<open>\<open>FIELD(id, ...)\<close>: the position of the first equal value, from one; zero without one.\<close>

fun field_from :: "mysql \<Rightarrow> nat \<Rightarrow> pyval \<Rightarrow> pyval list \<Rightarrow> nat" where
  "field_from my n v [] = 0"
| "field_from my n v (x # xs) = (if my_in my v [x] then n else field_from my (Suc n) v xs)"

definition ranked_rows :: "mysql \<Rightarrow> gainr_repo \<Rightarrow> gainr_db \<Rightarrow> pydict \<times> pydict \<Rightarrow> pydict list" where
  "ranked_rows my repo db x =
     (if cc_serves_ready (gr_compat repo) then [card_row x]
      else map (\<lambda>a. card_row (fst x, a)) (filter (\<lambda>a. my_in my (dget a ''id'') [dget (fst x) ''id'']) (gd_ads db)))"

text \<open>The page after the last one has no row to carry the total: it is counted by a second statement.\<close>

definition hydrate_ranked_page ::
    "mysql \<Rightarrow> gainr_repo \<Rightarrow> pyval list \<Rightarrow> filters \<Rightarrow> search_filter \<Rightarrow> string list option \<Rightarrow> nat \<Rightarrow> nat
      \<Rightarrow> gainr_db \<Rightarrow> gainr_db \<Rightarrow> pydict list \<times> nat" where
  "hydrate_ranked_page my repo ids fs f types page per db db_count =
     (let ranked = py_dedup ids; conds = where_clause repo fs f (Some ranked) [] types in
      if ranked = [] then ([], 0)
      else (let eligible = matching my repo conds db;
                chosen = slice_of page per (sort_key (\<lambda>x. field_from my 1 (dget (fst x) ''id'') ranked) eligible);
                rows = concat (map (ranked_rows my repo db) chosen)
            in (rows, if rows \<noteq> [] then length eligible
                  else if (page - 1) * per \<noteq> 0 then length (matching my repo conds db_count) else 0)))"

subsection \<open>Relations of a row\<close>

text \<open>\<open>_json_list\<close>; \<open>json_loads\<close> reads the text of the column.\<close>

definition json_list :: "(string \<Rightarrow> py_error + pyval) \<Rightarrow> pyval \<Rightarrow> pydict list" where
  "json_list json_loads v =
     (let dicts = (\<lambda>x. case x of VList xs \<Rightarrow> List.map_filter (\<lambda>i. case i of VDict d \<Rightarrow> Some d | _ \<Rightarrow> None) xs | _ \<Rightarrow> []) in
      case v of
        VList xs \<Rightarrow> dicts v
      | VStr s \<Rightarrow> if strip s = [] then [] else (case json_loads s of Inl _ \<Rightarrow> [] | Inr parsed \<Rightarrow> dicts parsed)
      | _ \<Rightarrow> [])"

definition blank_id :: "pyval \<Rightarrow> bool" where
  "blank_id v \<longleftrightarrow> v = VNone \<or> v = VStr []"

definition attach_ready_relations :: "(string \<Rightarrow> py_error + pyval) \<Rightarrow> pydict \<Rightarrow> pydict" where
  "attach_ready_relations json_loads row =
     (let r1 = AList.update ''__ads_attributes'' (VList (map VDict (json_list json_loads (dget row ''ads_attributes_json''))))
            (AList.delete ''ads_attributes_json'' row);
          user = dget r1 ''user_id''
      in if blank_id user then AList.update ''__user'' VNone r1
         else AList.update ''__user'' (VDict [(''id'', user), (''prosper_id'', dget r1 ''user_prosper_id''), (''name'', dget r1 ''user_name''),
             (''photo'', dget r1 ''user_photo''), (''is_aadhaar_gst_verified'', dget r1 ''user_is_aadhaar_gst_verified'')])
           (fold AList.delete [''user_prosper_id'', ''user_name'', ''user_photo'', ''user_is_aadhaar_gst_verified''] r1))"

text \<open>The three relation reads of the other mode; each may fail, and a missing users table is remembered.\<close>

datatype read_failure = MissingTable | OtherFailure

record relation_reads =
  rr_attributes :: "read_failure option"
  rr_counts :: "read_failure option"
  rr_users :: "read_failure option"
  rr_pooled :: bool

definition attribute_rows :: "mysql \<Rightarrow> pyval list \<Rightarrow> gainr_db \<Rightarrow> pydict list" where
  "attribute_rows my ids db = sort_key (\<lambda>a. up my (dget a ''id''))
     (filter (\<lambda>a. my_in my (dget a ''ads_id'') ids \<and> undeleted (dget a ''deleted_at'')) (gd_attributes db))"

definition service_count :: "mysql \<Rightarrow> gainr_db \<Rightarrow> pyval \<Rightarrow> nat" where
  "service_count my db user = length (filter (\<lambda>ad. my_in my (dget ad ''user_id'') [user]
     \<and> my_in my (dget ad ''category_type'') [VInt 2] \<and> ad_live my ad) (gd_ads db))"

definition user_rows :: "mysql \<Rightarrow> pyval list \<Rightarrow> gainr_db \<Rightarrow> pydict list" where
  "user_rows my users db = map (\<lambda>u. map (\<lambda>k. (k, dget u k)) [''id'', ''prosper_id'', ''name'', ''photo'', ''is_aadhaar_gst_verified''])
     (filter (\<lambda>u. my_in my (dget u ''id'') users) (gd_users db))"

definition attach_attributes ::
    "mysql \<Rightarrow> gainr_repo \<Rightarrow> (string \<Rightarrow> py_error + pyval) \<Rightarrow> gainr_db \<Rightarrow> relation_reads \<Rightarrow> bool option \<Rightarrow> pydict list
      \<Rightarrow> pydict list \<times> bool option" where
  "attach_attributes my repo json_loads db reads available rows =
     (if cc_serves_ready (gr_compat repo) then (map (attach_ready_relations json_loads) rows, available)
      else (let ids = filter (\<lambda>v. v \<noteq> VNone) (map (\<lambda>r. dget r (gr_id_column repo)) rows);
                users = py_dedup (filter (\<lambda>v. \<not> blank_id v) (map (\<lambda>r. dget r ''user_id'') rows))
            in if ids = [] then (rows, available)
               else (let asked = (users \<noteq> [] \<and> available \<noteq> Some False);
                         attributes = (if rr_attributes reads = None then attribute_rows my ids db else []);
                         counted = (rr_counts reads = None \<and> (rr_pooled reads \<or> rr_attributes reads = None));
                         found = (if asked \<and> rr_users reads = None then user_rows my users db else []);
                         available' = (if \<not> asked then available
                           else (case rr_users reads of None \<Rightarrow> Some True | Some MissingTable \<Rightarrow> Some False | Some OtherFailure \<Rightarrow> available))
                     in (map (\<lambda>r. AList.update ''__user'' (case List.find (\<lambda>u. py_str (dget u ''id'') = py_str (dget r ''user_id'')) (rev found) of
                               None \<Rightarrow> VNone | Some u \<Rightarrow> VDict u)
                             (AList.update ''service_ad_count'' (VInt (if counted \<and> list_ex (\<lambda>u. py_str u = py_str (dget r ''user_id'')) users
                                 then int (service_count my db (dget r ''user_id'')) else 0))
                             (AList.update ''__ads_attributes'' (VList (map VDict
                               (filter (\<lambda>a. py_str (dget a ''ads_id'') = py_str (dget r (gr_id_column repo))) attributes))) r))) rows,
                         available'))))"

text \<open>\<open>retry_transient_mysql_read\<close>: a lost connection (2006, 2013) is tried once more.\<close>

datatype mysql_error = Operational int | Failure string

definition retry_transient_read :: "mysql_error + 'a \<Rightarrow> mysql_error + 'a \<Rightarrow> mysql_error + 'a" where
  "retry_transient_read first second = (case first of
     Inl (Operational code) \<Rightarrow> if code \<in> {2006, 2013} then second else first
   | _ \<Rightarrow> first)"

subsection \<open>Suggestions and filter data\<close>

definition distinct_values :: "mysql \<Rightarrow> pyval list \<Rightarrow> pyval list" where
  "distinct_values my vs = fold (\<lambda>v acc. if list_ex (my_eq my v) acc then acc else acc @ [v]) vs []"

definition row_active :: "mysql \<Rightarrow> gainr_repo \<Rightarrow> pydict \<Rightarrow> bool" where
  "row_active my repo row \<longleftrightarrow> (case gr_active repo of None \<Rightarrow> True | Some c \<Rightarrow> my_in my (dget row c) [VInt 1])"

definition nonblank :: "pyval \<Rightarrow> bool" where
  "nonblank v \<longleftrightarrow> \<not> undeleted v"

definition DURATION_ORDER :: "string list" where
  "DURATION_ORDER = [''Per Hour'', ''Per Day'', ''Per Week'', ''Per Month'', ''Per Ride'']"

definition duration_key :: "string \<Rightarrow> nat \<times> string" where
  "duration_key t = (length (takeWhile (\<lambda>d. d \<noteq> t) DURATION_ORDER), casefold t)"

definition durations_of :: "mysql \<Rightarrow> gainr_repo \<Rightarrow> int \<Rightarrow> gainr_db \<Rightarrow> string list" where
  "durations_of my repo city db = sort_key duration_key (dedup (map py_str (distinct_values my
     (filter nonblank (map (\<lambda>r. dget r ''rental_duration'')
       (filter (\<lambda>r. my_in my (dget r ''city_id'') [VInt city] \<and> row_active my repo r) (gd_ready db)))))))"

definition suggestions :: "mysql \<Rightarrow> gainr_repo \<Rightarrow> string \<Rightarrow> nat \<Rightarrow> gainr_db \<Rightarrow> string list" where
  "suggestions my repo term limit db =
     (let names = (if cc_serves_ready (gr_compat repo)
            then map (\<lambda>r. dget r ''subcategory_name'') (filter (row_active my repo) (gd_ready db))
            else map (\<lambda>r. dget r ''name'') (filter (ad_live my) (gd_subcategories db)));
          found = distinct_values my (filter (\<lambda>v. nonblank v \<and> my_prefix my v term) names)
      in map py_str (filter truthy (take limit (sort_key (\<lambda>v. (\<not> my_lower_eq my v term, up my v)) found))))"

definition locality_pairs :: "mysql \<Rightarrow> gainr_repo \<Rightarrow> int \<Rightarrow> gainr_db \<Rightarrow> (pyval \<times> pyval) list" where
  "locality_pairs my repo city db =
     (if cc_serves_ready (gr_compat repo)
      then map (\<lambda>r. (dget r ''locality_id'', dget r ''locality_name''))
        (filter (\<lambda>r. my_in my (dget r ''city_id'') [VInt city] \<and> row_active my repo r) (gd_ready db))
      else map (\<lambda>r. (dget r ''id'', dget r ''area''))
        (filter (\<lambda>r. my_in my (dget r ''city_id'') [VInt city] \<and> undeleted (dget r ''deleted_at'')) (gd_locations db)))"

definition distinct_pairs :: "mysql \<Rightarrow> (pyval \<times> pyval) list \<Rightarrow> (pyval \<times> pyval) list" where
  "distinct_pairs my ps = fold (\<lambda>p acc. if list_ex (\<lambda>q. my_eq my (fst p) (fst q) \<and> my_eq my (snd p) (snd q)) acc then acc else acc @ [p]) ps []"

definition localities_of :: "mysql \<Rightarrow> gainr_repo \<Rightarrow> int \<Rightarrow> gainr_db \<Rightarrow> py_error + pydict list" where
  "localities_of my repo city db = map_ok (\<lambda>(i, name). case to_int i of
       None \<Rightarrow> Inl (ValueError ''int'') | Some n \<Rightarrow> Inr [(''id'', VInt n), (''area'', VStr (py_str name))])
     (sort_key (\<lambda>p. up my (snd p)) (distinct_pairs my
       (filter (\<lambda>p. fst p \<noteq> VNone \<and> nonblank (snd p)) (locality_pairs my repo city db))))"

subsection \<open>What the WHERE clause selects\<close>

definition limits_ok :: "mysql \<Rightarrow> filters \<Rightarrow> string list option \<Rightarrow> pydict \<times> pydict \<Rightarrow> bool" where
  "limits_ok my fs types x \<longleftrightarrow> min_fee fs = None \<and> max_fee fs = None \<or> priced_row my (min_fee fs) (max_fee fs) (fst x)
     \<or> (\<exists>ts. types = Some ts \<and> ''2'' \<in> set ts) \<and> my_in my (dget (snd x) ''type'') [VStr ''2''] \<and> unpriced_row my (fst x)"

definition wanted_values :: "pyval \<Rightarrow> pyval list" where
  "wanted_values v = (case v of VList vs \<Rightarrow> vs | _ \<Rightarrow> [v])"

definition category_ok :: "mysql \<Rightarrow> pydict \<Rightarrow> pydict \<Rightarrow> bool" where
  "category_ok my cat sr \<longleftrightarrow> (\<forall>(k, v)\<in>set cat. k \<in> set COLUMN_MAP \<longrightarrow> v = VList [] \<or> my_in my (dget sr k) (wanted_values v))"

definition fees_ok :: "mysql \<Rightarrow> compat_config \<Rightarrow> int list \<Rightarrow> pydict \<Rightarrow> bool" where
  "fees_ok my c fees shown \<longleftrightarrow> fees = []
     \<or> my_in my (dget shown ''is_rent_negotiable'')
         ((if cc_fixed_fee_id c \<in> set fees then [VInt 0] else []) @ (if cc_negotiable_fee_id c \<in> set fees then [VInt 1] else []))"

definition shown_live :: "mysql \<Rightarrow> gainr_repo \<Rightarrow> gainr_db \<Rightarrow> pydict \<times> pydict \<Rightarrow> bool" where
  "shown_live my repo db x \<longleftrightarrow> (if cc_serves_ready (gr_compat repo)
     then \<exists>ad\<in>set (gd_ads db). my_in my (dget ad ''id'') [dget (fst x) ''id''] \<and> ad_live my ad else ad_live my (snd x))"

definition eligible_row ::
    "mysql \<Rightarrow> gainr_repo \<Rightarrow> filters \<Rightarrow> search_filter \<Rightarrow> string list option \<Rightarrow> gainr_db \<Rightarrow> pydict \<times> pydict \<Rightarrow> bool" where
  "eligible_row my repo fs f types db x \<longleftrightarrow> row_active my repo (fst x) \<and> shown_live my repo db x
     \<and> category_ok my (categorical fs) (fst x) \<and> limits_ok my fs types x
     \<and> list_all (holds my db x) (type_conditions (sf_category_type f))
     \<and> (sf_attributes f = [] \<or> list_ex (my_json_value my (dget (fst x) ''ads_attributes_json'')) (sf_attributes f))
     \<and> (case types of None \<Rightarrow> True | Some ts \<Rightarrow> ts = [] \<or> my_in my (dget (snd x) ''type'') (map VStr ts))
     \<and> fees_ok my (gr_compat repo) (sf_fees f) (snd x)"

lemma my_in_subset: "my_in my v vs \<Longrightarrow> set vs \<subseteq> set ws \<Longrightarrow> my_in my v ws"
  by (auto simp: my_in_def list_ex_iff)

lemma append_holds: "list_all P (append_condition mk (VList vs)) \<Longrightarrow> vs \<noteq> [] \<Longrightarrow> P (mk (py_dedup vs))"
  by (simp add: append_condition_def)

lemma category_conditions_sound:
  assumes "list_all (holds my db x) (category_conditions cat)"
  shows "category_ok my cat (fst x)"
proof -
  have "my_in my (dget (fst x) k) (wanted_values v)" if kv: "(k, v) \<in> set cat" "k \<in> set COLUMN_MAP" "v \<noteq> VList []" for k v
  proof -
    have conds: "list_all (holds my db x) (append_condition (ReadyIn k) v)"
      using assms kv(1,2) by (force simp: category_conditions_def list_all_iff)
    obtain vs where vs: "append_condition (ReadyIn k) v = [ReadyIn k vs]" "set vs \<subseteq> set (wanted_values v)"
      using kv(3) py_dedup_facts(1) by (cases v) (auto simp: append_condition_def wanted_values_def)
    then show ?thesis using conds by (cases x) (auto intro: my_in_subset)
  qed
  then show ?thesis unfolding category_ok_def by blast
qed

lemma price_conditions_sound: "list_all (holds my db x) (price_conditions (min_fee fs) (max_fee fs) types) \<Longrightarrow> limits_ok my fs types x"
  by (cases x) (auto simp: price_conditions_def limits_ok_def split: if_splits option.splits)

lemma fee_values: "set (concat (map (\<lambda>v. if v = a then [VInt 0] else if v = b then [VInt 1] else []) fees))
    \<subseteq> set ((if a \<in> set fees then [VInt 0] else []) @ (if b \<in> set fees then [VInt 1] else []))"
  by (auto split: if_splits)

lemma fee_conditions_sound:
  assumes "list_all (holds my db x) (fee_conditions c fees)" and "set fees \<subseteq> {cc_fixed_fee_id c, cc_negotiable_fee_id c}"
  shows "fees_ok my c fees (snd x)"
proof (cases fees)
  case (Cons v rest)
  let ?vs = "concat (map (\<lambda>v. if v = cc_fixed_fee_id c then [VInt 0] else if v = cc_negotiable_fee_id c then [VInt 1] else []) fees)"
  have "?vs \<noteq> []" using Cons assms(2) by auto
  from append_holds [OF assms(1) [unfolded fee_conditions_def Let_def] this]
  have "my_in my (dget (snd x) ''is_rent_negotiable'') (py_dedup ?vs)" by (cases x) simp
  from my_in_subset [OF this order_trans [OF py_dedup_facts(1) fee_values]] show ?thesis
    unfolding fees_ok_def by (rule disjI2)
qed (simp add: fees_ok_def)

lemma where_clause_sound:
  assumes holds: "list_all (holds my db x) (where_clause repo fs f ids fallback types)"
    and fees: "set (sf_fees f) \<subseteq> {cc_fixed_fee_id (gr_compat repo), cc_negotiable_fee_id (gr_compat repo)}"
  shows "eligible_row my repo fs f types db x"
proof -
  have parts: "list_all (holds my db x) (case gr_active repo of None \<Rightarrow> [] | Some c \<Rightarrow> [ActiveRow c])"
      "holds my db x (if cc_serves_ready (gr_compat repo) then LiveAd else CardLive)"
      "list_all (holds my db x) (category_conditions (categorical fs))"
      "list_all (holds my db x) (type_conditions (sf_category_type f))"
      "list_all (holds my db x) (if sf_attributes f = [] then [] else [HasAttribute (sf_attributes f)])"
      "list_all (holds my db x) (price_conditions (min_fee fs) (max_fee fs) types)"
      "list_all (holds my db x) (case types of None \<Rightarrow> [] | Some ts \<Rightarrow> append_condition (CardIn ''type'') (VList (map VStr (sort ts))))"
      "list_all (holds my db x) (if sf_fees f = [] then [] else fee_conditions (gr_compat repo) (sf_fees f))"
    using holds unfolding where_clause_def by simp_all
  have "row_active my repo (fst x)" using parts(1) by (cases x) (auto simp: row_active_def split: option.splits)
  moreover have "shown_live my repo db x" using parts(2) by (cases x) (auto simp: shown_live_def list_ex_iff split: if_splits)
  moreover have "category_ok my (categorical fs) (fst x)" by (rule category_conditions_sound [OF parts(3)])
  moreover have "limits_ok my fs types x" by (rule price_conditions_sound [OF parts(6)])
  moreover have "sf_attributes f = [] \<or> list_ex (my_json_value my (dget (fst x) ''ads_attributes_json'')) (sf_attributes f)"
    using parts(5) by (cases x) (auto split: if_splits)
  moreover have "case types of None \<Rightarrow> True | Some ts \<Rightarrow> ts = [] \<or> my_in my (dget (snd x) ''type'') (map VStr ts)"
  proof (cases types)
    case (Some ts)
    have "my_in my (dget (snd x) ''type'') (py_dedup (map VStr (sort ts)))" if "ts \<noteq> []"
    proof -
      have "map VStr (sort ts) \<noteq> []" using that by (metis map_is_Nil_conv set_empty set_sort)
      from append_holds [OF parts(7) [unfolded Some option.case] this] show ?thesis by (cases x) simp
    qed
    moreover have "set (py_dedup (map VStr (sort ts))) \<subseteq> set (map VStr ts)"
      using py_dedup_facts(1) [of "map VStr (sort ts)"] by simp
    ultimately show ?thesis using Some my_in_subset by fastforce
  qed simp
  moreover have "fees_ok my (gr_compat repo) (sf_fees f) (snd x)"
  proof (cases "sf_fees f = []")
    case False
    then show ?thesis using parts(8) by (intro fee_conditions_sound [OF _ fees]) simp
  qed (simp add: fees_ok_def)
  ultimately show ?thesis using parts(4) by (simp add: eligible_row_def)
qed

subsection \<open>The ranked page\<close>

text \<open>The reference: the ranked ids one by one, each with the row it names, a row at its first id.\<close>

definition ranked_reference :: "mysql \<Rightarrow> (pydict \<times> pydict) list \<Rightarrow> pyval list \<Rightarrow> (pydict \<times> pydict) list" where
  "ranked_reference my eligible ids =
     dedup (List.map_filter (\<lambda>i. List.find (\<lambda>x. my_in my (dget (fst x) ''id'') [i]) eligible) ids)"

text \<open>\<open>id\<close> is a key: no value is the id of two rows.\<close>

definition id_key :: "mysql \<Rightarrow> pydict list \<Rightarrow> bool" where
  "id_key my rows \<longleftrightarrow> distinct rows \<and> (\<forall>r\<in>set rows. \<forall>q\<in>set rows. \<forall>v. my_in my (dget r ''id'') [v] \<and> my_in my (dget q ''id'') [v] \<longrightarrow> r = q)"

lemma field_from_range: "field_from my n v ids = 0 \<or> n \<le> field_from my n v ids"
proof (induction ids arbitrary: n)
  case (Cons i ids)
  then show ?case using Cons [of "Suc n"] by (auto dest: Suc_leD)
qed simp

lemma field_from_0: "0 < n \<Longrightarrow> field_from my n v ids = 0 \<longleftrightarrow> \<not> (\<exists>i\<in>set ids. my_in my v [i])"
  by (induction ids arbitrary: n) auto

lemma reference_sorted:
  assumes key: "\<And>x y i. x \<in> set xs \<Longrightarrow> y \<in> set xs \<Longrightarrow> my_in my (dget (fst x) ''id'') [i] \<Longrightarrow> my_in my (dget (fst y) ''id'') [i] \<Longrightarrow> x = y"
    and "0 < n"
  shows "sorted_wrt (<) (map (\<lambda>x. field_from my n (dget (fst x) ''id'') ids)
      (dedup_from seen (List.map_filter (\<lambda>i. List.find (\<lambda>x. my_in my (dget (fst x) ''id'') [i]) xs) ids)))"
  using assms(2)
proof (induction ids arbitrary: n seen)
  case Nil
  then show ?case by (simp add: map_filter_simps)
next
  case (Cons i ids)
  let ?f = "\<lambda>n ids x. field_from my n (dget (fst x) ''id'') ids"
  let ?rows = "\<lambda>ids. List.map_filter (\<lambda>i. List.find (\<lambda>x. my_in my (dget (fst x) ''id'') [i]) xs) ids"
  have member: "x \<in> set xs \<and> (\<exists>i\<in>set ids. my_in my (dget (fst x) ''id'') [i])" if "x \<in> set (?rows ids)" for x
    using that by (auto simp: in_map_filter dest!: find_SomeD)
  show ?case
  proof (cases "List.find (\<lambda>x. my_in my (dget (fst x) ''id'') [i]) xs")
    case None
    then have "\<not> my_in my (dget (fst x) ''id'') [i]" if "x \<in> set xs" for x by (rule find_NoneD [OF _ that])
    then have maps: "map (?f n (i # ids)) (dedup_from seen (?rows ids)) = map (?f (Suc n) ids) (dedup_from seen (?rows ids))"
      using member by (auto simp: set_dedup_from)
    have rows: "?rows (i # ids) = ?rows ids" using None by (simp add: map_filter_simps)
    show ?thesis unfolding rows maps by (rule Cons.IH) simp
  next
    case (Some y)
    have y: "y \<in> set xs" "my_in my (dget (fst y) ''id'') [i]" using find_SomeD [OF Some] by auto
    have other: "?f n (i # ids) x = ?f (Suc n) ids x \<and> n < ?f (Suc n) ids x" if "x \<in> set (?rows ids)" "x \<noteq> y" for x
    proof -
      have "\<not> my_in my (dget (fst x) ''id'') [i]" using key [of x y i] member [OF that(1)] y that(2) by blast
      moreover have "?f (Suc n) ids x \<noteq> 0" using member [OF that(1)] field_from_0 [of "Suc n"] by blast
      ultimately show ?thesis using field_from_range [of my "Suc n" "dget (fst x) ''id''" ids] by auto
    qed
    show ?thesis
    proof (cases "y \<in> set seen")
      case True
      then have "?f n (i # ids) x = ?f (Suc n) ids x" if "x \<in> set (dedup_from seen (?rows ids))" for x
        using that other [of x] by (auto simp: set_dedup_from simp del: field_from.simps)
      then have maps: "map (?f n (i # ids)) (dedup_from seen (?rows ids)) = map (?f (Suc n) ids) (dedup_from seen (?rows ids))"
        by (intro map_cong) (simp_all del: field_from.simps)
      have rows: "dedup_from seen (?rows (i # ids)) = dedup_from seen (?rows ids)" using Some True by (simp add: map_filter_simps)
      show ?thesis unfolding rows maps by (rule Cons.IH) simp
    next
      case False
      have rest: "x \<in> set (?rows ids) \<and> x \<noteq> y" if "x \<in> set (dedup_from (y # seen) (?rows ids))" for x
        using that by (simp add: set_dedup_from)
      have maps: "map (?f n (i # ids)) (dedup_from (y # seen) (?rows ids)) = map (?f (Suc n) ids) (dedup_from (y # seen) (?rows ids))"
        using other rest by (intro map_cong) (simp_all del: field_from.simps)
      have rows: "dedup_from seen (?rows (i # ids)) = y # dedup_from (y # seen) (?rows ids)"
        using Some False by (simp add: map_filter_simps)
      have "\<forall>x\<in>set (dedup_from (y # seen) (?rows ids)). ?f n (i # ids) y < ?f (Suc n) ids x"
        using other rest y(2) by simp
      then have "\<forall>k\<in>set (map (?f (Suc n) ids) (dedup_from (y # seen) (?rows ids))). ?f n (i # ids) y < k" by simp
      then show ?thesis unfolding rows list.map(2) maps sorted_wrt.simps by (intro conjI Cons.IH) simp_all
    qed
  qed
qed

lemma reference_eq_sorted:
  assumes key: "\<And>x y i. x \<in> set xs \<Longrightarrow> y \<in> set xs \<Longrightarrow> my_in my (dget (fst x) ''id'') [i] \<Longrightarrow> my_in my (dget (fst y) ''id'') [i] \<Longrightarrow> x = y"
    and "distinct xs" and named: "\<And>x. x \<in> set xs \<Longrightarrow> \<exists>i\<in>set ids. my_in my (dget (fst x) ''id'') [i]"
  shows "sort_key (\<lambda>x. field_from my 1 (dget (fst x) ''id'') ids) xs = ranked_reference my xs ids"
proof -
  let ?f = "\<lambda>x. field_from my 1 (dget (fst x) ''id'') ids"
  have strict: "sorted_wrt (<) (map ?f (ranked_reference my xs ids))"
    unfolding ranked_reference_def dedup_def by (rule reference_sorted [OF key]) simp_all
  have same: "set (ranked_reference my xs ids) = set xs"
  proof -
    have "x \<in> set (ranked_reference my xs ids)" if x: "x \<in> set xs" for x
    proof -
      obtain i where i: "i \<in> set ids" "my_in my (dget (fst x) ''id'') [i]" using named [OF x] by blast
      have "List.find (\<lambda>x. my_in my (dget (fst x) ''id'') [i]) xs = Some x"
      proof (cases "List.find (\<lambda>x. my_in my (dget (fst x) ''id'') [i]) xs")
        case None
        then show ?thesis using find_NoneD [OF None x] i(2) by simp
      next
        case (Some y)
        then have "y = x" using key [OF _ x, of y i] i(2) find_SomeD [OF Some] by simp
        then show ?thesis using Some by simp
      qed
      then show ?thesis using i(1) unfolding ranked_reference_def set_dedup in_map_filter by blast
    qed
    moreover have "x \<in> set xs" if "x \<in> set (ranked_reference my xs ids)" for x
      using that unfolding ranked_reference_def set_dedup in_map_filter by (blast dest: find_SomeD)
    ultimately show ?thesis by blast
  qed
  have sorted: "sorted (map ?f (ranked_reference my xs ids))" and inj: "distinct (map ?f (ranked_reference my xs ids))"
    using strict by (simp_all add: strict_sorted_iff)
  have "mset xs = mset (ranked_reference my xs ids)"
    using assms(2) same by (simp add: set_eq_iff_mset_eq_distinct [symmetric] ranked_reference_def distinct_dedup)
  then show ?thesis using inj same sorted by (intro sort_key_inj_key_eq) (simp_all add: distinct_map)
qed

lemma where_ids:
  assumes "list_all (holds my db x) (where_clause repo fs f (Some ids) t types)"
  shows "\<exists>i\<in>set ids. my_in my (dget (fst x) ''id'') [i]"
proof -
  have conds: "list_all (holds my db x) (id_conditions (Some ids) t (categorical fs))"
    using assms unfolding where_clause_def by simp
  then have "ids \<noteq> []" by (cases x) (auto simp: id_conditions_def)
  with conds have "my_in my (dget (fst x) ''id'') ids"
    using append_holds [of "holds my db x" "ReadyIn ''id''" ids] my_in_subset [OF _ py_dedup_facts(1)]
    by (cases x) (auto simp: id_conditions_def)
  then show ?thesis by (auto simp: my_in_def list_ex_iff)
qed


subsection \<open>Every row that is read is eligible\<close>

lemma matching_eligible:
  assumes "x \<in> set (matching my repo (where_clause repo fs f ids t types) db)"
    and "set (sf_fees f) \<subseteq> {cc_fixed_fee_id (gr_compat repo), cc_negotiable_fee_id (gr_compat repo)}"
  shows "x \<in> set (joined my repo db) \<and> eligible_row my repo fs f types db x"
  using assms(1) where_clause_sound [OF _ assms(2)] unfolding matching_def set_filter by blast

definition reads_eligible ::
    "mysql \<Rightarrow> gainr_repo \<Rightarrow> filters \<Rightarrow> search_filter \<Rightarrow> string list option \<Rightarrow> gainr_db \<Rightarrow> pydict \<Rightarrow> bool" where
  "reads_eligible my repo fs f types db row \<longleftrightarrow> (\<exists>x\<in>set (joined my repo db). row = card_row x \<and> eligible_row my repo fs f types db x)"

lemma slice_subset: "set (slice_of page per xs) \<subseteq> set xs"
  using set_take_subset set_drop_subset unfolding slice_of_def by fast

lemma rows_eligible:
  assumes "set (sf_fees f) \<subseteq> {cc_fixed_fee_id (gr_compat repo), cc_negotiable_fee_id (gr_compat repo)}"
  shows "row \<in> set (fst (search_catalog my repo fs f term page per order types db_total db)) \<Longrightarrow> reads_eligible my repo fs f types db row"
    and "row \<in> set (hydrate_filtered my repo ids fs f types db) \<Longrightarrow> reads_eligible my repo fs f types db row"
    and "cc_serves_ready (gr_compat repo) \<Longrightarrow> row \<in> set (fst (hydrate_ranked_page my repo ids fs f types page per db db_count))
      \<Longrightarrow> reads_eligible my repo fs f types db row"
proof -
  assume "row \<in> set (fst (search_catalog my repo fs f term page per order types db_total db))"
  then obtain x where "x \<in> set (matching my repo (where_clause repo fs f None term types) db)" "row = card_row x"
    using slice_subset by (fastforce simp: search_catalog_def Let_def)
  then show "reads_eligible my repo fs f types db row" using matching_eligible [OF _ assms] unfolding reads_eligible_def by blast
next
  assume row: "row \<in> set (hydrate_filtered my repo ids fs f types db)"
  then have "row \<in> set (map card_row (matching my repo (where_clause repo fs f (Some ids) [] types) db))"
    by (fastforce simp: hydrate_filtered_def Let_def in_map_filter dest: map_of_SomeD split: if_splits)
  then obtain x where "x \<in> set (matching my repo (where_clause repo fs f (Some ids) [] types) db)" "row = card_row x" by auto
  then show "reads_eligible my repo fs f types db row" using matching_eligible [OF _ assms] unfolding reads_eligible_def by blast
next
  assume serves: "cc_serves_ready (gr_compat repo)"
    and row: "row \<in> set (fst (hydrate_ranked_page my repo ids fs f types page per db db_count))"
  have rows: "concat (map (ranked_rows my repo db) xs) = map card_row xs" for xs
    using serves by (induction xs) (simp_all add: ranked_rows_def)
  obtain x where "x \<in> set (matching my repo (where_clause repo fs f (Some (py_dedup ids)) [] types) db)" "row = card_row x"
    using row slice_subset unfolding hydrate_ranked_page_def Let_def rows by (fastforce split: if_splits)
  then show "reads_eligible my repo fs f types db row" using matching_eligible [OF _ assms] unfolding reads_eligible_def by blast
qed

end
