(* ===== verification/Gainr_Service.thy ===== *)
theory Gainr_Service
  imports Gainr_Catalog Redis_Cache
begin

text \<open>
  \<open>GainrCompatibilityService\<close>: a compatibility search from its parsed request to its response, the
  card of a row, the diagnosis of an empty result, the cached suggestions and filter data and the
  recent searches. The engine's planner and search are arguments; the search capacity slot, timings and
  logs are left out, and a hashed cache key is the namespace with the text that is hashed.
\<close>

subsection \<open>Cards\<close>

definition int_value :: "pyval \<Rightarrow> pyval" where
  "int_value v = (if v = VNone \<or> v = VStr [] then VNone else (case to_int v of None \<Rightarrow> v | Some i \<Rightarrow> VInt i))"

definition number_value :: "pyval \<Rightarrow> pyval" where
  "number_value v = (if v = VNone \<or> v = VStr [] then VNone
     else (case to_float v of None \<Rightarrow> v | Some q \<Rightarrow> if of_int \<lfloor>q\<rfloor> = q then VInt \<lfloor>q\<rfloor> else VFloat q))"

definition GAINR_USER_FIELDS :: "string list" where
  "GAINR_USER_FIELDS = [''id'', ''prosper_id'', ''name'', ''photo'', ''is_aadhaar_gst_verified'']"

definition GAINR_USER_INTEGER_FIELDS :: "string list" where
  "GAINR_USER_INTEGER_FIELDS = [''id'', ''is_aadhaar_gst_verified'']"

definition GAINR_CARD_FIELDS :: "string list" where
  "GAINR_CARD_FIELDS = [''id'', ''type'', ''user_id'', ''category_type'', ''parent_id'', ''slug'', ''category_id'', ''title'',
     ''rental_duration'', ''rental_fee'', ''is_rent_negotiable'', ''city_id'', ''locality_id'', ''description'', ''photos'',
     ''total_favorite'', ''total_like'', ''status'', ''service_ad_count'', ''users_rating_count'', ''rating_avg'', ''boost_ad_count'',
     ''is_aadhar_gst_verified_count'']"

definition GAINR_CARD_INTEGER_FIELDS :: "string list" where
  "GAINR_CARD_INTEGER_FIELDS = [''id'', ''type'', ''user_id'', ''category_type'', ''parent_id'', ''category_id'', ''is_rent_negotiable'',
     ''city_id'', ''locality_id'', ''total_favorite'', ''total_like'', ''status'', ''service_ad_count'', ''boost_ad_count'',
     ''is_aadhar_gst_verified_count'']"

definition user_field :: "pydict \<Rightarrow> string \<Rightarrow> pyval" where
  "user_field raw k =
     (let v = (case dget raw k of VStr s \<Rightarrow> if casefold (strip s) = ''null'' then VNone else VStr s | v \<Rightarrow> v)
      in if k \<in> set GAINR_USER_INTEGER_FIELDS then int_value v else v)"

definition user_payload :: "pyval \<Rightarrow> pydict option" where
  "user_payload v = (case v of
     VDict d \<Rightarrow> if d = [] then None else Some (map (\<lambda>k. (k, user_field d k)) GAINR_USER_FIELDS)
   | _ \<Rightarrow> None)"

definition card_field :: "pydict \<Rightarrow> string \<Rightarrow> pyval" where
  "card_field row k =
     (let v = dget row k;
          w = (if k \<in> set GAINR_CARD_INTEGER_FIELDS then int_value v
               else if k \<in> {''rental_fee'', ''rating_avg''} then number_value v else v)
      in if k \<in> {''service_ad_count'', ''boost_ad_count'', ''is_aadhar_gst_verified_count''} then or_else w (VInt 0) else w)"

definition place :: "string \<Rightarrow> pyval \<Rightarrow> pyval \<Rightarrow> pyval" where
  "place key i name = (if i \<noteq> VNone \<and> truthy name then VDict [(''id'', i), (key, name)] else VNone)"

definition card_attributes :: "pydict \<Rightarrow> pyval" where
  "card_attributes row = VList (List.map_filter (\<lambda>a. case a of
       VDict d \<Rightarrow> Some (VDict (map (\<lambda>k. (k, int_value (dget d k))) [''ads_id'', ''attribute_id'', ''value''])) | _ \<Rightarrow> None)
     (case dget_or row ''__ads_attributes'' (VList []) of VList xs \<Rightarrow> xs | _ \<Rightarrow> []))"

definition gainr_card :: "pydict \<Rightarrow> pydict" where
  "gainr_card row =
     (let base = map (\<lambda>k. (k, card_field row k)) GAINR_CARD_FIELDS;
          user = user_payload (dget row ''__user'');
          verified = (case user of None \<Rightarrow> False | Some u \<Rightarrow> py_eq (int_value (dget u ''is_aadhaar_gst_verified'')) (VInt 1));
          counted = (if user = None then base else AList.update ''is_aadhar_gst_verified_count'' (VInt (if verified then 1 else 0)) base)
      in counted @ [
        (''ads_attributes'', card_attributes row),
        (''city'', place ''city'' (dget base ''city_id'') (dget row ''__city_name'')),
        (''locality'', place ''area'' (dget base ''locality_id'') (dget row ''__locality_name'')),
        (''favorites'', VNone), (''ads_likes'', VNone),
        (''user'', case user of None \<Rightarrow> VNone
           | Some u \<Rightarrow> VDict (map (\<lambda>k. (k, dget u k)) [''prosper_id'', ''id'', ''is_aadhaar_gst_verified''])),
        (''boost_ad'', VNone),
        (''is_aadhar_gst_verified'', case user of None \<Rightarrow> VNone | Some u \<Rightarrow> if verified then VDict u else VNone)])"

subsection \<open>filter_results\<close>

record gainr_service =
  gs_repo :: gainr_repo
  gs_my :: mysql
  gs_json :: "string \<Rightarrow> py_error + pyval"
  gs_ids :: "(string \<times> (string, int) dict) list"
  gs_max_results :: int

abbreviation gs_compat :: "gainr_service \<Rightarrow> compat_config" where
  "gs_compat g \<equiv> gr_compat (gs_repo g)"

record gainr_meta =
  gm_route :: string
  gm_ignored :: pydict
  gm_explicit :: search_filter
  gm_effective :: filters
  gm_total :: nat
  gm_limited :: bool

record gainr_response =
  gp_cards :: "pydict list"
  gp_page :: int
  gp_last :: int
  gp_image :: string
  gp_meta :: "gainr_meta option"

text \<open>What the relations of a page need: the failures of their reads and the remembered users table.\<close>

record gainr_reads =
  rd_total :: gainr_db
  rd_rows :: gainr_db
  rd_relations :: relation_reads
  rd_users :: "bool option"

definition attach :: "gainr_service \<Rightarrow> gainr_reads \<Rightarrow> pydict list \<Rightarrow> pydict list" where
  "attach g rd rows = fst (attach_attributes (gs_my g) (gs_repo g) (gs_json g) (rd_rows rd) (rd_relations rd) (rd_users rd) rows)"

definition per_page :: "gainr_service \<Rightarrow> nat" where
  "per_page g = nat (cc_page_size (gs_compat g))"

definition path_of :: "planned \<Rightarrow> string" where
  "path_of pd = (case execution_path (pd_plan pd) of None \<Rightarrow> ''semantic'' | Some p \<Rightarrow> p)"

definition database_only :: "search_filter \<Rightarrow> filters \<Rightarrow> bool" where
  "database_only f eff \<longleftrightarrow> categorical eff \<noteq> [] \<or> min_fee eff \<noteq> None \<or> max_fee eff \<noteq> None \<or> sf_fees f \<noteq> [] \<or> sf_attributes f \<noteq> []"

definition engine_request :: "gainr_service \<Rightarrow> filter_request \<Rightarrow> planned \<Rightarrow> filters \<Rightarrow> string list \<Rightarrow> unit search_request" where
  "engine_request g r pd eff types = \<lparr>rq_query = fr_term r, rq_limit = Some (gs_max_results g), rq_planned = Some pd,
     rq_filters = Some eff, rq_types = Some types, rq_window = Some (cc_ranked_window (gs_compat g)),
     rq_hydrate = (sort_order (pd_plan pd) \<in> {Some ''price_asc'', Some ''price_desc''}), rq_embedding = None\<rparr>"

text \<open>The engine hydrated rows itself: its current rows decide, in its order.\<close>

definition live_product :: "pydict \<Rightarrow> bool" where
  "live_product row = (case dget row ''deleted_at'' of VNone \<Rightarrow> True | v \<Rightarrow> strip (py_str v) = [])"

definition engine_eligible :: "gainr_repo \<Rightarrow> string list \<Rightarrow> search_result \<Rightarrow> pyval list" where
  "engine_eligible repo types res =
     (let current = map (\<lambda>row. (py_str (dget row (gr_id_column repo)), row))
            (rev (filter (\<lambda>row. dget row (gr_id_column repo) \<noteq> VNone) (sr_products res)))
      in filter (\<lambda>i. case map_of current (py_str i) of None \<Rightarrow> False
           | Some row \<Rightarrow> live_product row \<and> py_str (dget row ''type'') \<in> set types) (sr_ids res))"

definition semantic_rows ::
    "gainr_service \<Rightarrow> gainr_reads \<Rightarrow> filter_request \<Rightarrow> filters \<Rightarrow> string list \<Rightarrow> search_result \<Rightarrow> pydict list \<times> nat" where
  "semantic_rows g rd r eff types res =
     (let f = fr_filter r; page = nat (fr_page r) in
      if database_only f eff \<or> sr_products res = []
      then (case hydrate_ranked_page (gs_my g) (gs_repo g) (sr_ids res) eff f (Some types) page (per_page g) (rd_rows rd) (rd_total rd) of
              (rows, found) \<Rightarrow> (attach g rd rows, found))
      else (let ids = engine_eligible (gs_repo g) types res
            in (attach g rd (hydrate_filtered (gs_my g) (gs_repo g) (slice_of page (per_page g) ids) eff f (Some types) (rd_rows rd)),
                length ids)))"

definition catalog_rows ::
    "gainr_service \<Rightarrow> gainr_reads \<Rightarrow> filter_request \<Rightarrow> planned \<Rightarrow> filters \<Rightarrow> string list \<Rightarrow> pydict list \<times> nat" where
  "catalog_rows g rd r pd eff types =
     (case search_catalog (gs_my g) (gs_repo g) (indexed_catalog_filters (gs_ids g) eff) (fr_filter r) (fr_term r) (nat (fr_page r))
        (per_page g) (sort_order (pd_plan pd)) (Some types) (rd_total rd) (rd_rows rd) of (rows, found) \<Rightarrow> (attach g rd rows, found))"

definition last_page :: "nat \<Rightarrow> nat \<Rightarrow> int" where
  "last_page n per = max 1 (\<lceil>(of_nat n :: pyfloat) / of_nat per\<rceil>)"

definition gainr_answer ::
    "gainr_service \<Rightarrow> filter_request \<Rightarrow> string \<Rightarrow> pydict \<Rightarrow> filters \<Rightarrow> pydict list \<Rightarrow> nat \<Rightarrow> bool \<Rightarrow> gainr_response" where
  "gainr_answer g r route ignored eff rows found limited =
     \<lparr>gp_cards = map gainr_card rows, gp_page = fr_page r, gp_last = last_page found (per_page g),
      gp_image = cc_image_path (gs_compat g),
      gp_meta = (if cc_emit_meta (gs_compat g)
        then Some \<lparr>gm_route = route, gm_ignored = ignored, gm_explicit = fr_filter r, gm_effective = eff, gm_total = found,
          gm_limited = (route \<in> {''semantic'', ''direct_semantic''} \<and> limited)\<rparr> else None)\<rparr>"

definition filter_results ::
    "gainr_service \<Rightarrow> (string \<Rightarrow> py_error + planned) \<Rightarrow> (unit search_request \<Rightarrow> py_error + search_result) \<Rightarrow> gainr_reads
      \<Rightarrow> filter_request \<Rightarrow> py_error + gainr_response" where
  "filter_results g plan engine rd r =
     and_then (effective_plan plan r) (\<lambda>(planned, eff, ignored).
       let pd = with_explicit_sort (fr_filter r) planned; types = allowed_types (fr_filter r) pd in
       if path_of pd = ''deterministic_filter''
       then (case catalog_rows g rd r pd eff types of (rows, found) \<Rightarrow>
          Inr (gainr_answer g r ''deterministic'' ignored eff rows found False))
       else and_then (engine (engine_request g r pd eff types)) (\<lambda>res.
          case semantic_rows g rd r eff types res of (rows, found) \<Rightarrow>
            Inr (gainr_answer g r (path_of pd) ignored eff rows found (gs_max_results g \<le> int (length (sr_ids res))))))"

subsection \<open>Every card meets the request\<close>

text \<open>What a client asked for, read off the request alone: \<open>x\<close> is a search-ready row with the row shown.\<close>

definition fee_within :: "mysql \<Rightarrow> search_filter \<Rightarrow> pydict \<Rightarrow> bool" where
  "fee_within my f row \<longleftrightarrow> (\<exists>q. my_num my (dget row ''rental_fee'') = Some q
     \<and> (\<forall>a. sf_min f = Some a \<longrightarrow> a \<le> q) \<and> (\<forall>b. sf_max f = Some b \<longrightarrow> q \<le> b))"

definition meets_request :: "mysql \<Rightarrow> gainr_repo \<Rightarrow> gainr_db \<Rightarrow> search_filter \<Rightarrow> pydict \<times> pydict \<Rightarrow> bool" where
  "meets_request my repo db f x \<longleftrightarrow> row_active my repo (fst x) \<and> shown_live my repo db x
     \<and> (\<forall>k v. explicit_value f k = Some v \<longrightarrow> v = VList [] \<or> my_in my (dget (fst x) k) (wanted_values v))
     \<and> (sf_min f = None \<and> sf_max f = None \<or> fee_within my f (fst x)
        \<or> my_in my (dget (snd x) ''type'') [VStr ''2''] \<and> unpriced_row my (fst x))
     \<and> (sf_ad_types f = [] \<or> my_in my (dget (snd x) ''type'') (map (\<lambda>t. VStr (show_int t)) (sf_ad_types f)))
     \<and> fees_ok my (gr_compat repo) (sf_fees f) (snd x)
     \<and> (sf_attributes f = [] \<or> list_ex (my_json_value my (dget (fst x) ''ads_attributes_json'')) (sf_attributes f))"

lemma explicit_keys: "explicit_value f k = Some v \<Longrightarrow> k \<in> set COLUMN_MAP \<and> k \<notin> set CATEGORY_NAMES"
  by (auto simp: explicit_value_def COLUMN_MAP_def CATEGORY_NAMES_def set_id_def set_list_def split: if_splits)

definition carries :: "search_filter \<Rightarrow> filters \<Rightarrow> bool" where
  "carries f fs \<longleftrightarrow> (\<forall>k v. explicit_value f k = Some v \<longrightarrow> map_of (categorical fs) k = Some v)
     \<and> (\<forall>a. sf_min f = Some a \<longrightarrow> min_fee fs = Some a) \<and> (\<forall>b. sf_max f = Some b \<longrightarrow> max_fee fs = Some b)"

lemma eligible_meets:
  assumes elig: "eligible_row my repo fs f (Some types) db x" and "carries f fs" and "types \<noteq> []"
    and "sf_ad_types f = [] \<or> types = map show_int (sf_ad_types f)"
  shows "meets_request my repo db f x"
proof -
  have "v = VList [] \<or> my_in my (dget (fst x) k) (wanted_values v)" if ex: "explicit_value f k = Some v" for k v
  proof -
    have "(k, v) \<in> set (categorical fs)" using assms(2) ex by (auto simp: carries_def dest: map_of_SomeD)
    then show ?thesis using elig explicit_keys [OF ex] by (fastforce simp: eligible_row_def category_ok_def)
  qed
  moreover have "sf_min f = None \<and> sf_max f = None \<or> fee_within my f (fst x)
      \<or> my_in my (dget (snd x) ''type'') [VStr ''2''] \<and> unpriced_row my (fst x)"
  proof (cases "sf_min f = None \<and> sf_max f = None")
    case False
    then have "\<not> (min_fee fs = None \<and> max_fee fs = None)" using assms(2) by (auto simp: carries_def)
    then have "priced_row my (min_fee fs) (max_fee fs) (fst x) \<or> my_in my (dget (snd x) ''type'') [VStr ''2''] \<and> unpriced_row my (fst x)"
      using elig by (auto simp: eligible_row_def limits_ok_def)
    then show ?thesis using assms(2) by (auto simp: priced_row_def fee_within_def carries_def split: option.splits)
  qed simp
  ultimately show ?thesis using elig assms(3,4)
    by (auto simp: meets_request_def eligible_row_def comp_def)
qed

lemma index_name_keeps:
  "map_of cat k = Some v \<Longrightarrow> k \<noteq> name_key \<Longrightarrow> map_of (index_name ids (name_key, number_key) cat) k = Some v"
  by (auto simp: index_name_def update_conv' delete_conv' split: option.splits pyval.splits)

lemma indexed_carries: "carries f fs \<Longrightarrow> carries f (indexed_catalog_filters ids fs)"
  unfolding carries_def indexed_catalog_filters_def
  by (auto intro!: index_name_keeps dest: explicit_keys simp: CATEGORY_NAMES_def)

lemma effective_carries:
  assumes "effective_plan plan r = Inr (pd, eff, ignored)"
  shows "carries (fr_filter r) eff"
  using effective_filters [OF assms] by (simp add: carries_def)

lemma serves_rows:
  assumes "cc_serves_ready (gs_compat g)"
  shows "attach g rd rows = map (attach_ready_relations (gs_json g)) rows"
  using assms by (simp add: attach_def attach_attributes_def)

lemma allowed_types_facts: "allowed_types f pd \<noteq> []" "sf_ad_types f = [] \<or> allowed_types f pd = map show_int (sf_ad_types f)"
  by (auto simp: allowed_types_def)

text \<open>The row behind a card, as the reads give it.\<close>

definition card_from :: "gainr_service \<Rightarrow> pydict \<times> pydict \<Rightarrow> pydict" where
  "card_from g x = gainr_card (attach_ready_relations (gs_json g) (card_row x))"


subsection \<open>A concrete catalogue\<close>

definition sample_mysql :: mysql where
  "sample_mysql = \<lparr>my_eq = py_eq, my_contains = (\<lambda>v t. False), my_prefix = (\<lambda>v t. False), my_lower_eq = (\<lambda>v t. v = VStr t),
     my_json_value = (\<lambda>d v. False), my_num = num_of, my_order = num_of\<rparr>"

definition sample_ready :: "int \<Rightarrow> int \<Rightarrow> int \<Rightarrow> pydict" where
  "sample_ready i city fee = [(''id'', VInt i), (''city_id'', VInt city), (''locality_id'', VInt 3), (''main_category_id'', VInt 12),
     (''rental_duration'', VStr ''Per Day''), (''type'', VStr ''1''), (''rental_fee'', VInt fee), (''is_rent_negotiable'', VInt 0), (''updated_at'', VInt i)]"

definition sample_ad :: "int \<Rightarrow> int \<Rightarrow> pydict" where
  "sample_ad i status = [(''id'', VInt i), (''status'', VInt status), (''deleted_at'', VNone)]"

definition sample_gainr_db :: gainr_db where
  "sample_gainr_db = \<lparr>gd_ready = [sample_ready 1 5 20, sample_ready 2 5 30, sample_ready 3 5 40, sample_ready 4 6 50, sample_ready 5 5 900],
     gd_ads = [sample_ad 1 1, sample_ad 2 0, sample_ad 3 1, sample_ad 4 1, sample_ad 5 1],
     gd_attributes = [], gd_users = [], gd_subcategories = [], gd_locations = []\<rparr>"

definition sample_gainr :: gainr_service where
  "sample_gainr = \<lparr>gs_repo = \<lparr>gr_compat = sample_compat, gr_active = None, gr_id_column = ''id''\<rparr>, gs_my = sample_mysql,
     gs_json = (\<lambda>t. Inl (ValueError '''')), gs_ids = [], gs_max_results = 100\<rparr>"

definition sample_reads :: gainr_reads where
  "sample_reads = \<lparr>rd_total = sample_gainr_db, rd_rows = sample_gainr_db,
     rd_relations = \<lparr>rr_attributes = None, rr_counts = None, rr_users = None, rr_pooled = False\<rparr>, rd_users = None\<rparr>"

definition sample_first :: filter_request where
  "sample_first = sample_request\<lparr>fr_page := 1\<rparr>"

lemma sample_first_ok: "request_ok sample_compat sample_first"
proof -
  have "request_ok sample_compat sample_request" using read_request_ok sample_parsed
    by (auto simp: parse_filter_result_def and_then_Inr request_ok_def split: if_splits)
  then show ?thesis by (simp add: request_ok_def sample_first_def)
qed

definition sample_effective :: filters where
  "sample_effective = \<lparr>categorical = [(''rental_duration'', VStr ''Per Day''), (''city_id'', VInt 5), (''main_category_id'', VInt 12),
     (''locality_id'', VList [VInt 3])], min_fee = Some 10, max_fee = Some 500\<rparr>"

lemma sample_merge: "fst (merge_filters (fr_filter sample_first) (pd_resolved sample_planned)) = sample_effective"
  by (simp add: merge_filters_def Let_def sample_first_def sample_request_def sample_planned_def sample_effective_def no_filter_def
      replacements_def replace_filter_def pop_key_def LOCATION_NAMES_def CATEGORY_NAMES_def set_id_def set_list_def take_limit_def)

lemma sample_where: "where_clause (gs_repo sample_gainr) sample_effective (fr_filter sample_first) None ''red car'' (Some [''1''])
    = [LiveAd, ReadyIn ''rental_duration'' [VStr ''Per Day''], ReadyIn ''city_id'' [VInt 5], ReadyIn ''main_category_id'' [VInt 12],
       ReadyIn ''locality_id'' [VInt 3], Priced (Some 10) (Some 500), CardIn ''type'' [VStr ''1''], CardIn ''is_rent_negotiable'' [VInt 0]]"
  by (simp add: where_clause_def sample_gainr_def sample_compat_def sample_effective_def sample_first_def sample_request_def no_filter_def
      category_conditions_def append_condition_def type_conditions_def price_conditions_def fee_conditions_def id_conditions_def
      COLUMN_MAP_def py_dedup_def py_in_def)

lemma sample_matching: "matching sample_mysql (gs_repo sample_gainr)
     [LiveAd, ReadyIn ''rental_duration'' [VStr ''Per Day''], ReadyIn ''city_id'' [VInt 5], ReadyIn ''main_category_id'' [VInt 12],
       ReadyIn ''locality_id'' [VInt 3], Priced (Some 10) (Some 500), CardIn ''type'' [VStr ''1''], CardIn ''is_rent_negotiable'' [VInt 0]]
     sample_gainr_db = map (\<lambda>r. (r, r)) [sample_ready 1 5 20, sample_ready 3 5 40]"
  by (simp add: matching_def joined_def sample_gainr_def sample_compat_def sample_gainr_db_def sample_ready_def sample_ad_def sample_mysql_def
      my_in_def dget_def ad_live_def undeleted_def priced_row_def)

lemma sample_types: "allowed_types (fr_filter sample_first) sample_planned = [''1'']" "with_explicit_sort (fr_filter sample_first) sample_planned = sample_planned"
  "path_of sample_planned = ''deterministic_filter''" "indexed_catalog_filters [] sample_effective = sample_effective"
  by (simp_all add: allowed_types_def sample_first_def sample_request_def no_filter_def sample_planned_def empty_plan_def new_plan_def
      query_plan.extend_def default_query_plan_def with_explicit_sort_def explicit_sort_def py_eq.simps path_of_def
      indexed_catalog_filters_def index_name_def sample_effective_def)

lemma sample_page: "map (\<lambda>row. dget row ''id'') (fst (search_catalog sample_mysql (gs_repo sample_gainr) sample_effective (fr_filter sample_first)
     ''red car'' 1 2 (sort_order (pd_plan sample_planned)) (Some [''1'']) sample_gainr_db sample_gainr_db)) = [VInt 3, VInt 1]"
  unfolding search_catalog_def Let_def sample_where sample_matching
  by (simp add: slice_of_def catalog_order_def Let_def down_def sample_ready_def dget_def sample_mysql_def card_row_def
      sample_planned_def empty_plan_def new_plan_def query_plan.extend_def default_query_plan_def insort_key_def less_prod_def)

lemma gainr_card_id: "dget (gainr_card row) ''id'' = int_value (dget row ''id'')"
  by (simp add: gainr_card_def Let_def dget_def GAINR_CARD_FIELDS_def update_conv' map_of_append card_field_def GAINR_CARD_INTEGER_FIELDS_def)

lemma dget_delete: "dget (AList.delete k d) k' = (if k' = k then VNone else dget d k')"
  by (simp add: dget_def delete_conv')

lemma attach_ready_id: "dget (attach_ready_relations json_loads row) ''id'' = dget row ''id''"
  by (simp add: attach_ready_relations_def Let_def dget_delete)


subsection \<open>The pages of the deterministic path\<close>

lemma slices_take: "concat (map (\<lambda>p. slice_of p per xs) [1..<Suc n]) = take (n * per) xs"
proof (induction n)
  case (Suc n)
  have "concat (map (\<lambda>p. slice_of p per xs) [1..<Suc (Suc n)]) = take (n * per) xs @ slice_of (Suc n) per xs"
    using Suc by simp
  also have "\<dots> = take (n * per + per) xs" by (simp add: slice_of_def take_add)
  finally show ?case by (simp add: add.commute)
qed simp

lemma last_page_covers:
  assumes "0 < per"
  shows "n \<le> nat (last_page n per) * per"
proof -
  have "(of_nat n :: pyfloat) / of_nat per \<le> of_int \<lceil>(of_nat n :: pyfloat) / of_nat per\<rceil>" by simp
  also have "\<dots> \<le> of_int (last_page n per)" by (simp add: last_page_def)
  finally have "(of_nat n :: pyfloat) / of_nat per \<le> of_int (last_page n per)" .
  then have "(of_nat n :: pyfloat) \<le> of_int (last_page n per) * of_nat per" using assms by (simp add: pos_divide_le_eq)
  moreover have "of_int (last_page n per) = (of_nat (nat (last_page n per)) :: pyfloat)" by (simp add: last_page_def)
  ultimately have "(of_nat n :: pyfloat) \<le> of_nat (nat (last_page n per) * per)" by (simp only: of_nat_mult)
  then show ?thesis by (simp only: of_nat_le_iff)
qed



lemma py_eq_num: "py_eq (VInt i) v \<Longrightarrow> num_of v = Some (of_int i)"
  by (cases "num_of v") (auto simp: py_eq.simps [of "VInt i" v])

lemma sample_key: "id_key sample_mysql (gd_ready sample_gainr_db)"
proof -
  have "i = j" if "my_in sample_mysql (VInt i) [v]" "my_in sample_mysql (VInt j) [v]" for i j v
    using that py_eq_num [of i v] py_eq_num [of j v] by (simp add: my_in_def sample_mysql_def)
  moreover have "\<exists>i. dget r ''id'' = VInt i" if "r \<in> set (gd_ready sample_gainr_db)" for r
    using that by (auto simp: sample_gainr_db_def sample_ready_def dget_def)
  moreover have "r = q" if "r \<in> set (gd_ready sample_gainr_db)" "q \<in> set (gd_ready sample_gainr_db)" "dget r ''id'' = dget q ''id''" for r q
    using that by (auto simp: sample_gainr_db_def sample_ready_def dget_def)
  moreover have "distinct (gd_ready sample_gainr_db)" by (simp add: sample_gainr_db_def sample_ready_def)
  ultimately show ?thesis unfolding id_key_def by metis
qed

definition sample_ranking :: "pyval list" where
  "sample_ranking = [VInt 3, VInt 2, VInt 1, VInt 3]"


end
