(* ===== verification/Gainr_Support.thy ===== *)
theory Gainr_Support
  imports Gainr_Service
begin

text \<open>
  The rest of \<open>GainrCompatibilityService\<close>: the counterfactual diagnosis of an empty result, the bounded
  queue and worker that record the analytics of empty searches outside the request, the response cache
  of suggestions and filter data, and the recent searches of a user. An operation under the lock is one
  step; the shared cache's answers are arguments.
\<close>

subsection \<open>_zero_result_filter_diagnostics\<close>

type_synonym variant = "filters \<times> search_filter \<times> string list option"

definition drop_names :: "string list \<Rightarrow> filters \<Rightarrow> filters" where
  "drop_names names fs = fs\<lparr>categorical := fold AList.delete names (categorical fs)\<rparr>"

definition DIAGNOSED_CATEGORY :: "string list" where
  "DIAGNOSED_CATEGORY = [''main_category_name'', ''main_category_id'', ''subcategory_name'', ''subcategory_id'']"

definition DIAGNOSED_LOCATION :: "string list" where
  "DIAGNOSED_LOCATION = [''state_name'', ''state_id'', ''city_name'', ''city_id'', ''locality_name'', ''locality_id'']"

definition names_used :: "string list \<Rightarrow> filters \<Rightarrow> bool" where
  "names_used names fs \<longleftrightarrow> list_ex (\<lambda>n. map_of (categorical fs) n \<noteq> None) names"

definition diagnosis_variants :: "search_filter \<Rightarrow> filters \<Rightarrow> string list \<Rightarrow> (string \<times> variant) list" where
  "diagnosis_variants f eff types =
     (if names_used DIAGNOSED_CATEGORY eff \<or> \<not> blank_id (sf_category f) \<or> \<not> blank_id (sf_subcategory f)
      then [(''category'', drop_names DIAGNOSED_CATEGORY eff,
             f\<lparr>sf_category := VStr [], sf_subcategory := VStr [], sf_category_type := VStr []\<rparr>, Some types)] else [])
   @ (if names_used DIAGNOSED_LOCATION eff \<or> sf_city f \<noteq> None \<or> sf_localities f \<noteq> []
      then [(''location'', drop_names DIAGNOSED_LOCATION eff, f\<lparr>sf_city := None, sf_localities := []\<rparr>, Some types)] else [])
   @ (if set types \<noteq> {''1'', ''2''} \<or> sf_ad_types f \<noteq> []
      then [(''ad_type'', eff, f\<lparr>sf_ad_types := []\<rparr>, Some [''1'', ''2''])] else [])
   @ (if min_fee eff \<noteq> None \<or> max_fee eff \<noteq> None \<or> sf_fees f \<noteq> []
      then [(''price'', eff\<lparr>min_fee := None, max_fee := None\<rparr>, f\<lparr>sf_min := None, sf_max := None, sf_fees := []\<rparr>, Some types)] else [])
   @ (if sf_attributes f \<noteq> [] then [(''attributes'', eff, f\<lparr>sf_attributes := []\<rparr>, Some types)] else [])"

record diagnosis =
  dg_complete :: bool
  dg_text :: string
  dg_counts :: "(string \<times> nat) list"
  dg_blocking :: "string list"

definition incomplete_diagnosis :: "string \<Rightarrow> diagnosis" where
  "incomplete_diagnosis t = \<lparr>dg_complete = False, dg_text = t, dg_counts = [], dg_blocking = []\<rparr>"

text \<open>The labels of the code have the prefix \<open>without_\<close>, which the blocking names lose again.\<close>

definition zero_result_diagnosis ::
    "mysql \<Rightarrow> gainr_repo \<Rightarrow> gainr_db \<Rightarrow> filter_request \<Rightarrow> filters \<Rightarrow> string list \<Rightarrow> pyval list option \<Rightarrow> diagnosis" where
  "zero_result_diagnosis my repo db r eff types ids =
     (let variants = diagnosis_variants (fr_filter r) eff types in
      if variants = [] then \<lparr>dg_complete = True, dg_text = ''no_structured_filter_blocker'', dg_counts = [], dg_blocking = []\<rparr>
      else (let counts = count_filter_variants my repo variants ids (if ids = None then fr_term r else []) db;
                blocking = map fst (filter (\<lambda>(name, n). 0 < n) counts)
            in \<lparr>dg_complete = True,
                dg_text = (if blocking \<noteq> [] then ''filter_blocked_candidates'' else ''no_candidates_after_relaxing_single_filters''),
                dg_counts = map (\<lambda>(name, n). (''without_'' @ name, n)) counts, dg_blocking = blocking\<rparr>))"

subsection \<open>Deferred analytics\<close>

text \<open>A search that is answered, and what is recorded of it: the diagnosis for an empty first page.\<close>

record answered =
  an_id :: nat
  an_empty_first :: bool

record deferral =
  df_queue :: "answered list"
  df_flight :: "answered option"
  df_started :: bool
  df_closed :: bool
  df_recorded :: "(nat \<times> diagnosis option) list"

definition QUEUE_CAPACITY :: nat where
  "QUEUE_CAPACITY = 64"

definition record_analytics :: "answered \<Rightarrow> diagnosis option \<Rightarrow> deferral \<Rightarrow> deferral" where
  "record_analytics a d s = s\<lparr>df_recorded := df_recorded s @ [(an_id a, d)]\<rparr>"

definition defer_zero_result :: "bool \<Rightarrow> answered \<Rightarrow> deferral \<Rightarrow> bool \<times> deferral" where
  "defer_zero_result has_store a s =
     (if \<not> has_store \<or> df_closed s then (False, s)
      else let s1 = s\<lparr>df_started := True\<rparr> in
        if length (df_queue s) < QUEUE_CAPACITY then (True, s1\<lparr>df_queue := df_queue s @ [a]\<rparr>)
        else (True, record_analytics a (Some (incomplete_diagnosis ''diagnostics_queue_full'')) s1))"

definition answer_search :: "bool \<Rightarrow> answered \<Rightarrow> deferral \<Rightarrow> deferral" where
  "answer_search has_store a s =
     (let (deferred, s') = (if an_empty_first a then defer_zero_result has_store a s else (False, s))
      in if deferred then s' else record_analytics a None s')"

definition take_job :: "deferral \<Rightarrow> deferral" where
  "take_job s = (case (df_flight s, df_queue s) of
     (None, a # rest) \<Rightarrow> if df_started s then s\<lparr>df_queue := rest, df_flight := Some a\<rparr> else s
   | _ \<Rightarrow> s)"

text \<open>\<open>d\<close> is the diagnosis, \<open>None\<close> when its queries failed.\<close>

definition finish_job :: "diagnosis option \<Rightarrow> deferral \<Rightarrow> deferral" where
  "finish_job d s = (case df_flight s of
     None \<Rightarrow> s
   | Some a \<Rightarrow> (record_analytics a (Some (case d of None \<Rightarrow> incomplete_diagnosis ''diagnostic_query_failed'' | Some x \<Rightarrow> x)) s)
       \<lparr>df_flight := None\<rparr>)"

definition close_deferral :: "deferral \<Rightarrow> deferral" where
  "close_deferral s = s\<lparr>df_closed := True\<rparr>"

datatype deferral_op = Answer bool | TakeJob | FinishJob "diagnosis option" | CloseDeferral

definition deferral_start :: deferral where
  "deferral_start = \<lparr>df_queue = [], df_flight = None, df_started = False, df_closed = False, df_recorded = []\<rparr>"

text \<open>The searches are numbered in the order they are answered.\<close>

fun deferral_run :: "bool \<Rightarrow> deferral_op list \<Rightarrow> nat \<times> deferral \<Rightarrow> nat \<times> deferral" where
  "deferral_run has_store [] ns = ns"
| "deferral_run has_store (p # ps) (n, s) = deferral_run has_store ps (case p of
     Answer none_found \<Rightarrow> (Suc n, answer_search has_store \<lparr>an_id = n, an_empty_first = none_found\<rparr> s)
   | TakeJob \<Rightarrow> (n, take_job s)
   | FinishJob d \<Rightarrow> (n, finish_job d s)
   | CloseDeferral \<Rightarrow> (n, close_deferral s))"

definition pending_ids :: "deferral \<Rightarrow> nat list" where
  "pending_ids s = map an_id (df_queue s) @ (case df_flight s of None \<Rightarrow> [] | Some a \<Rightarrow> [an_id a])"

definition deferral_ok :: "nat \<Rightarrow> deferral \<Rightarrow> bool" where
  "deferral_ok n s \<longleftrightarrow> mset (map fst (df_recorded s) @ pending_ids s) = mset [0..<n] \<and> length (df_queue s) \<le> QUEUE_CAPACITY
     \<and> (df_queue s \<noteq> [] \<longrightarrow> df_started s)"

lemma answer_ok: "deferral_ok n s \<Longrightarrow> deferral_ok (Suc n) (answer_search has_store \<lparr>an_id = n, an_empty_first = none_found\<rparr> s)"
  by (auto simp: deferral_ok_def answer_search_def defer_zero_result_def record_analytics_def pending_ids_def Let_def split: option.splits)

lemma take_ok: "deferral_ok n s \<Longrightarrow> deferral_ok n (take_job s)"
  by (auto simp: deferral_ok_def take_job_def pending_ids_def split: option.splits list.splits)

lemma finish_ok: "deferral_ok n s \<Longrightarrow> deferral_ok n (finish_job d s)"
  by (auto simp: deferral_ok_def finish_job_def record_analytics_def pending_ids_def split: option.splits)

lemma close_ok: "deferral_ok n s \<Longrightarrow> deferral_ok n (close_deferral s)"
  by (simp add: close_deferral_def deferral_ok_def pending_ids_def)

lemma deferral_run_ok: "deferral_ok n s \<Longrightarrow> deferral_run has_store ps (n, s) = (n', s') \<Longrightarrow> deferral_ok n' s'"
proof (induction ps arbitrary: n s)
  case (Cons p ps)
  then show ?case by (cases p) (auto intro: answer_ok take_ok finish_ok close_ok)
qed simp

lemma deferral_run_append: "deferral_run st (ps @ qs) ns = deferral_run st qs (deferral_run st ps ns)"
  by (induction st ps ns rule: deferral_run.induct) auto

lemma worker_drains:
  assumes "deferral_ok n s"
  shows "\<exists>ps s'. set ps \<subseteq> {TakeJob, FinishJob None} \<and> deferral_run has_store ps (n, s) = (n, s') \<and> pending_ids s' = []"
  using assms
proof (induction "length (df_queue s)" arbitrary: s)
  case 0
  then show ?case
    by (intro exI [of _ "[FinishJob None]"]) (auto simp: finish_job_def pending_ids_def record_analytics_def split: option.split)
next
  case (Suc m)
  define s1 where "s1 = take_job (finish_job None s)"
  have ok: "deferral_ok n s1" unfolding s1_def by (intro take_ok finish_ok Suc.prems)
  obtain a rest where q: "df_queue s = a # rest" using Suc.hyps(2) by (cases "df_queue s") auto
  have "df_started s" using Suc.prems q by (simp add: deferral_ok_def)
  then have "m = length (df_queue s1)"
    using Suc.hyps(2) q by (auto simp: s1_def take_job_def finish_job_def record_analytics_def split: option.split)
  then obtain ps s' where ps: "set ps \<subseteq> {TakeJob, FinishJob None}" "deferral_run has_store ps (n, s1) = (n, s')" "pending_ids s' = []"
    using Suc.hyps(1) [OF _ ok] by blast
  then show ?case by (intro exI [of _ "FinishJob None # TakeJob # ps"] exI [of _ s']) (simp add: s1_def)
qed

text \<open>No answered search is recorded twice or forgotten, the queue stays within its bound, and the worker
  alone, even with failing diagnoses, records all that is pending.\<close>


definition sample_deferral :: "deferral_op list" where
  "sample_deferral = [Answer False, Answer True, TakeJob, Answer True, FinishJob None, CloseDeferral, Answer True]"


subsection \<open>The response cache\<close>

type_synonym response_cache = "(string \<times> string, pyfloat \<times> pydict) dict"

text \<open>\<open>shared\<close> is what the shared cache answers, \<open>None\<close> for a miss or without one.\<close>

definition get_cached :: "pydict option \<Rightarrow> pyfloat \<Rightarrow> string \<times> string \<Rightarrow> response_cache \<Rightarrow> pydict option \<times> response_cache" where
  "get_cached shared now key mem = (case shared of
     Some v \<Rightarrow> (Some v, mem)
   | None \<Rightarrow> (case map_of mem key of
       None \<Rightarrow> (None, mem)
     | Some (expires, v) \<Rightarrow> if expires \<le> now then (None, AList.delete key mem) else (Some v, mem)))"

definition set_memory_cached :: "pyfloat \<Rightarrow> string \<times> string \<Rightarrow> pydict \<Rightarrow> pyfloat \<Rightarrow> response_cache \<Rightarrow> response_cache" where
  "set_memory_cached now key v ttl mem = AList.update key (now + ttl, v) mem"

definition search_suggestions ::
    "mysql \<Rightarrow> gainr_repo \<Rightarrow> gainr_db \<Rightarrow> pydict option \<Rightarrow> pyfloat \<Rightarrow> string \<Rightarrow> response_cache \<Rightarrow> pydict \<times> response_cache" where
  "search_suggestions my repo db shared now term mem =
     (let key = (''suggestions'', casefold term) in
      case get_cached shared now key mem of
        (Some v, mem1) \<Rightarrow> (v, mem1)
      | (None, mem1) \<Rightarrow>
          (let v = [(''status'', VBool True), (''data'', VList (map (\<lambda>s. VDict [(''value'', VStr s)])
                 (suggestions my repo term (nat (cc_suggestions_limit (gr_compat repo))) db)))]
           in (v, set_memory_cached now key v 300 mem1)))"

definition choice :: "int \<Rightarrow> string \<Rightarrow> pyval" where
  "choice i t = VDict [(''id'', VInt i), (''value'', VStr t)]"

definition titled :: "string \<Rightarrow> pyval list \<Rightarrow> pyval" where
  "titled t vs = VDict [(''title'', VStr t), (''value'', VList vs)]"

definition filter_data ::
    "mysql \<Rightarrow> gainr_repo \<Rightarrow> gainr_db \<Rightarrow> pydict option \<Rightarrow> pyfloat \<Rightarrow> int \<Rightarrow> response_cache \<Rightarrow> (py_error + pydict) \<times> response_cache" where
  "filter_data my repo db shared now city mem =
     (let key = (''filter_data'', show_int city); c = gr_compat repo in
      case get_cached shared now key mem of
        (Some v, mem1) \<Rightarrow> (Inr v, mem1)
      | (None, mem1) \<Rightarrow>
          (case localities_of my repo city db of
             Inl e \<Rightarrow> (Inl e, mem1)
           | Inr places \<Rightarrow>
               (let v = [(''data'', VDict [
                  (''rental_duration'', titled ''Duration'' (map VStr (durations_of my repo city db))),
                  (''ad_type'', titled ''Ad Type'' [choice 1 ''Offer Ads'', choice 2 ''Need Ads'']),
                  (''fee'', titled ''Fee Type'' [choice (cc_fixed_fee_id c) ''Fixed'', choice (cc_negotiable_fee_id c) ''Negotiable'']),
                  (''localityList'', titled ''Locality'' (map VDict places))])]
                in (Inr v, set_memory_cached now key v 900 mem1))))"

subsection \<open>Recent searches\<close>

definition recent_scope :: "string option \<Rightarrow> string option" where
  "recent_scope user = (case user of None \<Rightarrow> None
     | Some u \<Rightarrow> let s = strip u in if s = [] \<or> 128 < length s then None else Some s)"

definition is_letter :: "char \<Rightarrow> bool" where
  "is_letter c \<longleftrightarrow> 65 \<le> code_of c \<and> code_of c \<le> 90 \<or> 97 \<le> code_of c \<and> code_of c \<le> 122"

definition prosper_value :: "string \<Rightarrow> bool" where
  "prosper_value s \<longleftrightarrow> 2 < length s \<and> list_all is_letter (take 2 s) \<and> list_all is_digit (drop 2 s)"

definition recent_item :: "int \<Rightarrow> string \<Rightarrow> pydict" where
  "recent_item millis s = [(''id'', VInt millis), (''value'', VStr s), (''is_prosper'', VInt (if prosper_value s then 1 else 0))]"

definition cached_items :: "pydict option \<Rightarrow> pydict list" where
  "cached_items v = (case v of None \<Rightarrow> [] | Some d \<Rightarrow> (case dget_or d ''items'' (VList []) of
     VList xs \<Rightarrow> List.map_filter (\<lambda>x. case x of VDict i \<Rightarrow> Some i | _ \<Rightarrow> None) xs | _ \<Rightarrow> []))"

definition items_payload :: "pydict list \<Rightarrow> pydict" where
  "items_payload items = [(''items'', VList (map VDict items))]"

text \<open>\<open>atomic\<close> is the answer of the shared cache's atomic prepend, \<open>shared\<close> what it answers to a read.\<close>

definition remember_search ::
    "compat_config \<Rightarrow> pydict option \<Rightarrow> pydict option \<Rightarrow> pyfloat \<Rightarrow> int \<Rightarrow> string option \<Rightarrow> string \<Rightarrow> response_cache \<Rightarrow> response_cache" where
  "remember_search c atomic shared now millis user text_value mem =
     (case recent_scope user of
        None \<Rightarrow> mem
      | Some scope \<Rightarrow>
          (let s = squash text_value; key = (''recent'', scope); ttl = of_int (cc_recent_ttl c) in
           if s = [] then mem
           else (case atomic of
               Some payload \<Rightarrow> set_memory_cached now key payload ttl mem
             | None \<Rightarrow> (case get_cached shared now key mem of (cached, mem1) \<Rightarrow>
                 set_memory_cached now key (items_payload (prepend_item ''value'' (nat (cc_recent_limit c)) (recent_item millis s) (cached_items cached))) ttl mem1))))"

definition recent_searches :: "pydict option \<Rightarrow> pyfloat \<Rightarrow> string option \<Rightarrow> response_cache \<Rightarrow> pydict list \<times> response_cache" where
  "recent_searches shared now user mem =
     (case recent_scope user of
        None \<Rightarrow> ([], mem)
      | Some scope \<Rightarrow> (case get_cached shared now (''recent'', scope) mem of (cached, mem1) \<Rightarrow> (cached_items cached, mem1)))"

text \<open>The searches of many users, one after the other, without a shared cache.\<close>

record remembered =
  rm_now :: pyfloat
  rm_millis :: int
  rm_user :: "string option"
  rm_text :: string

definition remember_run :: "compat_config \<Rightarrow> remembered list \<Rightarrow> response_cache" where
  "remember_run c es = fold (\<lambda>e. remember_search c None None (rm_now e) (rm_millis e) (rm_user e) (rm_text e)) es []"

definition items_of_user :: "string \<Rightarrow> remembered list \<Rightarrow> pydict list" where
  "items_of_user scope es = map (\<lambda>e. recent_item (rm_millis e) (squash (rm_text e)))
     (filter (\<lambda>e. recent_scope (rm_user e) = Some scope \<and> squash (rm_text e) \<noteq> []) es)"

lemma cached_items_payload [simp]: "cached_items (Some (items_payload items)) = items"
  by (induction items) (simp_all add: cached_items_def items_payload_def dget_or_def map_filter_simps)

definition recent_entry :: "compat_config \<Rightarrow> pyfloat \<Rightarrow> pydict list \<Rightarrow> (pyfloat \<times> pydict) option \<Rightarrow> bool" where
  "recent_entry c t0 items entry \<longleftrightarrow> (case entry of
       None \<Rightarrow> items = []
     | Some (expires, v) \<Rightarrow> t0 + of_int (cc_recent_ttl c) \<le> expires
         \<and> cached_items (Some v) = fold (prepend_item ''value'' (nat (cc_recent_limit c))) items [])"

definition recent_ok :: "compat_config \<Rightarrow> pyfloat \<Rightarrow> remembered list \<Rightarrow> response_cache \<Rightarrow> bool" where
  "recent_ok c t0 es mem \<longleftrightarrow> (\<forall>scope. recent_entry c t0 (items_of_user scope es) (map_of mem (''recent'', scope)))"

lemma get_recent:
  assumes "recent_ok c t0 es mem" and "now < t0 + of_int (cc_recent_ttl c)"
  shows "\<exists>cached. get_cached None now (''recent'', scope) mem = (cached, mem)
    \<and> cached_items cached = fold (prepend_item ''value'' (nat (cc_recent_limit c))) (items_of_user scope es) []"
proof (cases "map_of mem (''recent'', scope)")
  case None
  then have "items_of_user scope es = []" using assms(1) by (auto simp: recent_ok_def recent_entry_def dest: spec [of _ scope])
  then show ?thesis using None by (simp add: get_cached_def cached_items_def)
next
  case (Some x)
  then obtain expires v where x: "map_of mem (''recent'', scope) = Some (expires, v)" by (cases x) auto
  have "t0 + of_int (cc_recent_ttl c) \<le> expires
      \<and> cached_items (Some v) = fold (prepend_item ''value'' (nat (cc_recent_limit c))) (items_of_user scope es) []"
    using assms(1) x unfolding recent_ok_def recent_entry_def by (auto dest: spec [of _ scope])
  then show ?thesis using assms(2) x by (simp add: get_cached_def)
qed

lemma recent_ok_same:
  assumes "\<And>s. items_of_user s es' = items_of_user s es"
  shows "recent_ok c t0 es' mem \<longleftrightarrow> recent_ok c t0 es mem"
  unfolding recent_ok_def assms by (rule refl)

lemma remember_ok:
  assumes ok: "recent_ok c t0 es mem" and window: "t0 \<le> rm_now e" "rm_now e < t0 + of_int (cc_recent_ttl c)"
  shows "recent_ok c t0 (es @ [e]) (remember_search c None None (rm_now e) (rm_millis e) (rm_user e) (rm_text e) mem)"
proof (cases "recent_scope (rm_user e)")
  case None
  then have "items_of_user scope (es @ [e]) = items_of_user scope es" for scope by (simp add: items_of_user_def)
  then have "recent_ok c t0 (es @ [e]) mem" using ok recent_ok_same by blast
  then show ?thesis using None by (simp add: remember_search_def)
next
  case (Some scope)
  show ?thesis
  proof (cases "squash (rm_text e) = []")
    case True
    then have "items_of_user scope (es @ [e]) = items_of_user scope es" for scope by (simp add: items_of_user_def)
    then have "recent_ok c t0 (es @ [e]) mem" using ok recent_ok_same by blast
    then show ?thesis using Some True by (simp add: remember_search_def Let_def)
  next
    case False
    obtain cached where cached: "get_cached None (rm_now e) (''recent'', scope) mem = (cached, mem)"
      "cached_items cached = fold (prepend_item ''value'' (nat (cc_recent_limit c))) (items_of_user scope es) []"
      using get_recent [OF ok window(2)] by blast
    have other: "items_of_user s (es @ [e]) = items_of_user s es" if "s \<noteq> scope" for s
      using that Some by (simp add: items_of_user_def)
    have own: "items_of_user scope (es @ [e]) = items_of_user scope es @ [recent_item (rm_millis e) (squash (rm_text e))]"
      using Some False by (simp add: items_of_user_def)
    define new where "new = recent_item (rm_millis e) (squash (rm_text e))"
    define kept where "kept = prepend_item ''value'' (nat (cc_recent_limit c)) new (cached_items cached)"
    have step: "remember_search c None None (rm_now e) (rm_millis e) (rm_user e) (rm_text e) mem
        = set_memory_cached (rm_now e) (''recent'', scope) (items_payload kept) (of_int (cc_recent_ttl c)) mem"
      using Some False cached(1) by (simp add: remember_search_def Let_def kept_def new_def)
    have "recent_entry c t0 (items_of_user s (es @ [e]))
        (map_of (set_memory_cached (rm_now e) (''recent'', scope) (items_payload kept) (of_int (cc_recent_ttl c)) mem) (''recent'', s))" for s
    proof (cases "s = scope")
      case True
      then show ?thesis using own window(1) cached(2)
        by (simp add: recent_entry_def set_memory_cached_def update_conv' kept_def new_def)
    next
      case False
      then show ?thesis using other ok by (simp add: recent_ok_def set_memory_cached_def update_conv')
    qed
    then show ?thesis unfolding recent_ok_def step by blast
  qed
qed

lemma remember_run_ok:
  assumes "\<forall>e\<in>set es. t0 \<le> rm_now e \<and> rm_now e < t0 + of_int (cc_recent_ttl c)"
  shows "recent_ok c t0 es (remember_run c es)"
  using assms
proof (induction es rule: rev_induct)
  case Nil
  then show ?case by (simp add: remember_run_def recent_ok_def recent_entry_def items_of_user_def)
next
  case (snoc e es)
  then have "recent_ok c t0 es (remember_run c es)" by simp
  then show ?case using snoc.prems remember_ok by (simp add: remember_run_def)
qed

theorem recent_searches_lru:
  assumes "\<forall>e\<in>set es. t0 \<le> rm_now e \<and> rm_now e < t0 + of_int (cc_recent_ttl c)" and "now < t0 + of_int (cc_recent_ttl c)"
    and "0 < cc_recent_limit c" and "recent_scope user = Some scope"
  shows "map (item_identity ''value'') (fst (recent_searches None now user (remember_run c es)))
    = take (nat (cc_recent_limit c)) (dedup (rev (map (\<lambda>e. casefold (squash (rm_text e)))
        (filter (\<lambda>e. recent_scope (rm_user e) = Some scope \<and> squash (rm_text e) \<noteq> []) es))))"
proof -
  obtain cached where cached: "get_cached None now (''recent'', scope) (remember_run c es) = (cached, remember_run c es)"
    "cached_items cached = fold (prepend_item ''value'' (nat (cc_recent_limit c))) (items_of_user scope es) []"
    using get_recent [OF remember_run_ok [OF assms(1)] assms(2)] by blast
  have "item_identity ''value'' (recent_item i s) = casefold s" for i s
    by (simp add: item_identity_def recent_item_def dget_or_def)
  then have "map (item_identity ''value'') (rev (items_of_user scope es)) = rev (map (\<lambda>e. casefold (squash (rm_text e)))
        (filter (\<lambda>e. recent_scope (rm_user e) = Some scope \<and> squash (rm_text e) \<noteq> []) es))"
    by (simp add: items_of_user_def rev_map [symmetric] comp_def)
  then show ?thesis
    using recent_items_run [of "''value''" "nat (cc_recent_limit c)" "items_of_user scope es"] assms(3,4) cached
    by (simp add: recent_searches_def)
qed

definition sample_remembered :: "remembered list" where
  "sample_remembered =
     [\<lparr>rm_now = 0, rm_millis = 0, rm_user = Some ''7'', rm_text = ''Yoga ''\<rparr>,
      \<lparr>rm_now = 1, rm_millis = 1000, rm_user = Some ''8'', rm_text = ''Dance''\<rparr>,
      \<lparr>rm_now = 2, rm_millis = 2000, rm_user = Some ''7'', rm_text = ''Piano''\<rparr>,
      \<lparr>rm_now = 3, rm_millis = 3000, rm_user = Some ''7'', rm_text = '' yoga''\<rparr>]"

theorem recent_searches_lru_witness:
  "map (item_identity ''value'') (fst (recent_searches None 5 (Some ''7'') (remember_run sample_compat sample_remembered)))
    = [''yoga'', ''piano'']"
proof -
  have window: "\<forall>e\<in>set sample_remembered. 0 \<le> rm_now e \<and> rm_now e < 0 + of_int (cc_recent_ttl sample_compat)"
    and later: "5 < (0 :: pyfloat) + of_int (cc_recent_ttl sample_compat)" and limit: "0 < cc_recent_limit sample_compat"
    by (simp_all add: sample_remembered_def sample_compat_def)
  have scopes: "recent_scope (Some ''7'') = Some ''7''" "recent_scope (Some ''8'') = Some ''8''" by code_simp+
  have words: "squash ''Yoga '' = ''Yoga''" "squash ''Piano'' = ''Piano''" "squash '' yoga'' = ''yoga''" by code_simp+
  have folded: "casefold ''Yoga'' = ''yoga''" "casefold ''Piano'' = ''piano''" "casefold ''yoga'' = ''yoga''" by code_simp+
  have latest: "dedup [''yoga'', ''piano'', ''yoga''] = [''yoga'', ''piano'']" by code_simp
  show ?thesis
    using recent_searches_lru [OF window later limit scopes(1)]
    by (simp add: sample_remembered_def scopes words folded latest) (simp add: sample_compat_def)
qed

end
