(* ===== verification/Query_Provider.thy ===== *)
theory Query_Provider
  imports Request_Limit Py_Value
begin

text \<open>
  The hosted query models of \<open>providers/gemini.py\<close>: the route of a model id, the requests that are
  sent to Google and Groq, and how an exchange is read: HTTP errors, blocked and cut answers, the
  text of an answer and its JSON fence. The exchange itself is an argument (\<open>requests\<close> is not code
  of the repository), and so are \<open>json.loads\<close> and \<open>json.dumps\<close>. Measured durations are left out.
\<close>

named_theorems provider_facts \<open>facts of the query providers\<close>

subsection \<open>Settings and errors\<close>

record query_settings =
  qm_models :: "string list"
  qm_groq_rpm :: int
  qm_google_rpm :: int
  qm_groq_tpm :: int
  qm_max_output :: int
  qm_total_timeout :: pyfloat
  qm_google_timeout :: pyfloat
  qm_groq_timeout :: pyfloat
  qm_google_key :: string
  qm_groq_key :: string
  qm_google_url :: string
  qm_groq_url :: string
  qm_thinking :: string
  qm_redis :: bool
  qm_dumps :: "pyval \<Rightarrow> string"
  qm_loads :: "string \<Rightarrow> py_error + pyval"

text \<open>\<open>QueryModelUnavailableError\<close> with its provider and reason, or any other exception.\<close>

datatype query_error =
    Unavailable "string option" string
  | Raised py_error

definition unavailable :: "string \<Rightarrow> string \<Rightarrow> query_error + 'a" where
  "unavailable provider reason = Inl (Unavailable (Some provider) reason)"

text \<open>What \<open>requests\<close> gives for a post: a response, or one of its exceptions.\<close>

record http_response =
  re_status :: int
  re_json :: "pyval option"

datatype exchange =
    Response http_response
  | TimedOut
  | Disconnected
  | RequestFailed

record chat_request =
  cq_url :: string
  cq_body :: pyval
  cq_timeout :: pyfloat

subsection \<open>query_model_route\<close>

definition split_provider :: "string \<Rightarrow> string \<Rightarrow> string" where
  "split_provider prefix s = drop (length prefix) s"

definition query_model_route :: "string \<Rightarrow> py_error + (string \<times> string)" where
  "query_model_route model =
     (let s = strip model;
          route = (if starts_with s ''groq:'' then Inr (''groq'', split_provider ''groq:'' s)
            else if starts_with s ''google:'' then Inr (''google'', split_provider ''google:'' s)
            else if CHR '':'' \<in> set s then Inl (ValueError ''Unsupported query model provider prefix'')
            else Inr (''google'', s))
      in and_then route (\<lambda>r. if snd r = [] then Inl (ValueError ''Query model has no model ID'') else Inr r))"

subsection \<open>estimate_groq_request_tokens\<close>

definition ceil_quarter :: "nat \<Rightarrow> int" where
  "ceil_quarter n = \<lceil>(of_nat n :: pyfloat) / 4\<rceil>"

definition estimate_groq_request_tokens :: "query_settings \<Rightarrow> string \<Rightarrow> string \<Rightarrow> pyval \<Rightarrow> int" where
  "estimate_groq_request_tokens cfg system user schema =
     (let request = system @ user @ qm_dumps cfg schema;
          ascii = length (filter (\<lambda>c. code_of c < 128) request);
          other = length request - ascii
      in ceil_quarter ascii + int other * 3 + 64 + qm_max_output cfg)"

subsection \<open>Timeouts and HTTP errors\<close>

definition effective_timeout :: "pyfloat option \<Rightarrow> pyfloat \<Rightarrow> pyfloat \<Rightarrow> query_error + pyfloat" where
  "effective_timeout deadline now default_seconds =
     (case deadline of
        None \<Rightarrow> Inr default_seconds
      | Some d \<Rightarrow> if d - now \<le> 0 then Inl (Unavailable None ''total_deadline'') else Inr (min default_seconds (d - now)))"

definition timeout_reason :: "pyfloat option \<Rightarrow> pyfloat \<Rightarrow> string" where
  "timeout_reason deadline now = (case deadline of
     Some d \<Rightarrow> if d \<le> now then ''total_deadline'' else ''timeout'' | None \<Rightarrow> ''timeout'')"

definition FALLBACK_HTTP_STATUSES :: "int list" where
  "FALLBACK_HTTP_STATUSES = [404, 408, 429, 500, 502, 503, 504]"

definition http_status_error :: "string \<Rightarrow> string \<Rightarrow> int option \<Rightarrow> query_error" where
  "http_status_error model provider status =
     (let code = (case status of None \<Rightarrow> 0 | Some c \<Rightarrow> c) in
      if code \<in> set FALLBACK_HTTP_STATUSES \<or> provider = ''groq'' \<and> code = 400
      then Unavailable (Some provider) (''http_'' @ show_int code)
      else Raised (RuntimeError (''Cannot extract a structured query with '' @ provider @ '' model '' @ model
        @ '' (HTTP '' @ show_int code @ '').'')))"

definition http_error_metrics :: "http_response option \<Rightarrow> pydict" where
  "http_error_metrics response = (case response of
     None \<Rightarrow> [(''http_status'', VInt 0)]
   | Some r \<Rightarrow> (''http_status'', VInt (re_status r)) #
       (case re_json r of
          Some (VDict payload) \<Rightarrow> (case dget payload ''error'' of
              VDict e \<Rightarrow> List.map_filter (\<lambda>(source, target). if dget e source = VNone then None
                  else Some (target, VStr (take 128 (py_str (dget e source)))))
                [(''type'', ''provider_error_type''), (''code'', ''provider_error_code''), (''param'', ''provider_error_param'')]
            | _ \<Rightarrow> [])
        | _ \<Rightarrow> []))"

subsection \<open>Structured text\<close>

definition fence :: string where
  "fence = ''```''"

definition strip_json_fence :: "string \<Rightarrow> string" where
  "strip_json_fence t =
     (let s = strip t;
          opened = (if starts_with s fence
            then (case dropWhile (\<lambda>c. c \<noteq> CHR 0x0A) s of [] \<Rightarrow> s | _ # rest \<Rightarrow> rest) else s);
          closed = (if ends_with opened fence then take (length opened - 3) opened else opened)
      in strip closed)"

definition structured_json_text :: "(string \<Rightarrow> py_error + pyval) \<Rightarrow> string \<Rightarrow> string \<Rightarrow> query_error + string" where
  "structured_json_text loads provider t =
     (let cleaned = strip_json_fence t in
      case loads cleaned of
        Inr (VDict d) \<Rightarrow> Inr cleaned
      | Inr _ \<Rightarrow> unavailable provider ''invalid_response_shape''
      | Inl (TypeError m) \<Rightarrow> unavailable provider ''invalid_json''
      | Inl (ValueError m) \<Rightarrow> unavailable provider ''invalid_json''
      | Inl e \<Rightarrow> Inl (Raised e))"

definition response_payload :: "string \<Rightarrow> http_response \<Rightarrow> query_error + pydict" where
  "response_payload provider r = (case re_json r of
     None \<Rightarrow> unavailable provider ''invalid_response_json''
   | Some (VDict d) \<Rightarrow> Inr d
   | Some _ \<Rightarrow> unavailable provider ''invalid_response_shape'')"

definition metric_int :: "pyval \<Rightarrow> pyval" where
  "metric_int v = VInt (case to_int (or_else v (VInt 0)) of None \<Rightarrow> 0 | Some i \<Rightarrow> i)"

definition dict_or_empty :: "pyval \<Rightarrow> pydict" where
  "dict_or_empty v = (case v of VDict d \<Rightarrow> d | _ \<Rightarrow> [])"

text \<open>\<open>for x in v\<close> over a JSON value; a number or a truth value is not iterable.\<close>

definition py_iter :: "pyval \<Rightarrow> py_error + pyval list" where
  "py_iter v = (case v of
     VList xs \<Rightarrow> Inr xs
   | VStr s \<Rightarrow> Inr (map (\<lambda>c. VStr [c]) s)
   | VDict d \<Rightarrow> Inr (map (\<lambda>kv. VStr (fst kv)) d)
   | _ \<Rightarrow> Inl (TypeError ''not iterable''))"

definition put_all :: "pydict \<Rightarrow> pydict \<Rightarrow> pydict" where
  "put_all new m = fold (\<lambda>(k, v). AList.update k v) new m"

text \<open>\<open>str.upper\<close> on ASCII and Latin-1 letters\<close>

definition upper_char :: "char \<Rightarrow> string" where
  "upper_char c = (let n = code_of c in
     if 97 \<le> n \<and> n \<le> 122 \<or> 224 \<le> n \<and> n \<le> 254 \<and> n \<noteq> 247 then [char_of (n - 32)]
     else if n = 223 then ''SS'' else [c])"

definition upper :: "string \<Rightarrow> string" where
  "upper s = concat (map upper_char s)"

subsection \<open>GeminiProvider.structured_chat\<close>

text \<open>\<open>urllib.parse.quote(model, safe=".-")\<close>: the bytes of the UTF-8 text that are not safe, in hexadecimal.\<close>

definition url_safe :: "char \<Rightarrow> bool" where
  "url_safe c \<longleftrightarrow> (let n = code_of c in 48 \<le> n \<and> n \<le> 57 \<or> 65 \<le> n \<and> n \<le> 90 \<or> 97 \<le> n \<and> n \<le> 122) \<or> c \<in> set ''_.-~''"

definition utf8 :: "char \<Rightarrow> nat list" where
  "utf8 c = (let n = code_of c in if n < 128 then [n] else [192 + n div 64, 128 + n mod 64])"

definition hex2 :: "nat \<Rightarrow> string" where
  "hex2 n = CHR ''%'' # map (\<lambda>d. if d < 10 then char_of (48 + d) else char_of (55 + d)) [n div 16, n mod 16]"

definition url_quote :: "string \<Rightarrow> string" where
  "url_quote s = concat (map (\<lambda>c. if url_safe c then [c] else concat (map hex2 (utf8 c))) s)"

definition gemini_request :: "query_settings \<Rightarrow> string \<Rightarrow> string \<Rightarrow> string \<Rightarrow> pyval \<Rightarrow> pyfloat \<Rightarrow> pyfloat \<Rightarrow> chat_request" where
  "gemini_request cfg model system user schema temperature timeout =
     \<lparr>cq_url = qm_google_url cfg @ ''/models/'' @ url_quote model @ '':generateContent'',
      cq_body = VDict [
        (''systemInstruction'', VDict [(''parts'', VList [VDict [(''text'', VStr system)]])]),
        (''contents'', VList [VDict [(''role'', VStr ''user''), (''parts'', VList [VDict [(''text'', VStr user)]])]]),
        (''generationConfig'', VDict [
          (''temperature'', VFloat temperature),
          (''maxOutputTokens'', VInt (qm_max_output cfg)),
          (''responseFormat'', VDict [(''text'', VDict [(''mimeType'', VStr ''APPLICATION_JSON''), (''schema'', schema)])]),
          (''thinkingConfig'', VDict [(''thinkingLevel'', VStr (qm_thinking cfg))])])],
      cq_timeout = timeout\<rparr>"

text \<open>The parts of a candidate that are text and no thought.\<close>

definition part_text :: "pyval \<Rightarrow> string" where
  "part_text p = (case p of
     VDict d \<Rightarrow> if truthy (dget d ''thought'') \<or> dget d ''text'' = VNone then [] else py_str (dget d ''text'')
   | _ \<Rightarrow> [])"

definition google_failed :: "string \<Rightarrow> query_error" where
  "google_failed model = Raised (RuntimeError (''Cannot extract a structured query with Google model '' @ model @ ''.''))"

definition read_candidate :: "(string \<Rightarrow> py_error + pyval) \<Rightarrow> string \<Rightarrow> pydict \<Rightarrow> pydict \<Rightarrow> (query_error + string) \<times> pydict" where
  "read_candidate loads model candidate m =
     (let finish = upper (py_str (or_else (dget candidate ''finishReason'') (VStr []))) in
      if finish \<noteq> [] \<and> finish \<notin> {''STOP'', ''UNSPECIFIED''}
      then (unavailable ''google'' (''finish_'' @ casefold finish), AList.update ''finish_reason'' (VStr finish) m)
      else ((case dget candidate ''content'' of
          VDict body \<Rightarrow>
            (case py_iter (or_else (dget body ''parts'') (VList [])) of
               Inl e \<Rightarrow> Inl (google_failed model)
             | Inr parts \<Rightarrow>
                 (let t = strip (concat (map part_text parts)) in
                  if t = [] then unavailable ''google'' ''empty_response'' else structured_json_text loads ''google'' t))
        | _ \<Rightarrow> unavailable ''google'' ''invalid_candidate_content''), m))"

definition block_reason :: "pydict \<Rightarrow> string" where
  "block_reason payload =
     (let b = dget (dict_or_empty (or_else (dget payload ''promptFeedback'') (VDict []))) ''blockReason''
      in if truthy b then ''blocked_'' @ casefold (py_str b) else ''empty_candidates'')"

definition gemini_usage :: "pydict \<Rightarrow> pydict" where
  "gemini_usage payload =
     (let usage = dict_or_empty (or_else (dget payload ''usageMetadata'') (VDict [])) in
      [(''input_tokens'', metric_int (dget usage ''promptTokenCount'')), (''output_tokens'', metric_int (dget usage ''candidatesTokenCount'')),
       (''thought_tokens'', metric_int (dget usage ''thoughtsTokenCount'')), (''total_tokens'', metric_int (dget usage ''totalTokenCount''))])"

definition gemini_read :: "(string \<Rightarrow> py_error + pyval) \<Rightarrow> string \<Rightarrow> pydict \<Rightarrow> pydict \<Rightarrow> (query_error + string) \<times> pydict" where
  "gemini_read loads model payload m0 =
     (let m = put_all (gemini_usage payload) m0 in
      case dget payload ''candidates'' of
        VList (VDict candidate # _) \<Rightarrow> read_candidate loads model candidate m
      | VList (_ # _) \<Rightarrow> (unavailable ''google'' ''invalid_candidate'', m)
      | _ \<Rightarrow> (unavailable ''google'' (block_reason payload), m))"

definition first_metrics :: "string \<Rightarrow> string \<Rightarrow> pydict" where
  "first_metrics provider model = [(''load_ms'', VFloat 0), (''model'', VStr model), (''provider'', VStr provider)]"

text \<open>
  One exchange: \<open>before\<close> and \<open>after\<close> are the clock readings of the timeout and of the failure.
  \<open>raise_for_status\<close> raises for the statuses 400 to 599.
\<close>

definition read_exchange ::
    "string \<Rightarrow> string \<Rightarrow> query_error \<Rightarrow> pyfloat option \<Rightarrow> pyfloat \<Rightarrow> (pydict \<Rightarrow> pydict \<Rightarrow> (query_error + string) \<times> pydict)
      \<Rightarrow> pydict \<Rightarrow> exchange \<Rightarrow> (query_error + string) \<times> pydict" where
  "read_exchange provider model failed deadline after reader m x =
     (case x of
        TimedOut \<Rightarrow> (unavailable provider (timeout_reason deadline after), m)
      | Disconnected \<Rightarrow> (unavailable provider ''connection_error'', m)
      | RequestFailed \<Rightarrow> (Inl failed, m)
      | Response r \<Rightarrow>
          if 400 \<le> re_status r \<and> re_status r < 600
          then (Inl (http_status_error model provider (Some (re_status r))), put_all (http_error_metrics (Some r)) m)
          else (case response_payload provider r of Inl e \<Rightarrow> (Inl e, m) | Inr payload \<Rightarrow> reader payload m))"

definition gemini_chat ::
    "query_settings \<Rightarrow> pyfloat option \<Rightarrow> pyfloat \<Rightarrow> pyfloat \<Rightarrow> (chat_request \<Rightarrow> exchange)
      \<Rightarrow> string \<Rightarrow> string \<Rightarrow> string \<Rightarrow> pyval \<Rightarrow> pyfloat \<Rightarrow> (query_error + string) \<times> pydict" where
  "gemini_chat cfg deadline before after post model system user schema temperature =
     (let m = first_metrics ''google'' model in
      if qm_google_key cfg = [] then (unavailable ''google'' ''missing_api_key'', m)
      else (case effective_timeout deadline before (qm_google_timeout cfg) of
          Inl e \<Rightarrow> (Inl e, m)
        | Inr timeout \<Rightarrow> read_exchange ''google'' model (google_failed model) deadline after (gemini_read (qm_loads cfg) model) m
            (post (gemini_request cfg model system user schema temperature timeout))))"

subsection \<open>GroqProvider.structured_chat\<close>

definition groq_request :: "query_settings \<Rightarrow> string \<Rightarrow> string \<Rightarrow> string \<Rightarrow> pyval \<Rightarrow> pyfloat \<Rightarrow> pyfloat \<Rightarrow> chat_request" where
  "groq_request cfg model system user schema temperature timeout =
     \<lparr>cq_url = qm_groq_url cfg @ ''/responses'',
      cq_body = VDict ([
        (''model'', VStr model), (''instructions'', VStr system), (''input'', VStr user),
        (''text'', VDict [(''format'', VDict [(''type'', VStr ''json_schema''), (''name'', VStr ''query_plan''), (''strict'', VBool True),
           (''schema'', schema)])]),
        (''max_output_tokens'', VInt (qm_max_output cfg))]
        @ (if starts_with model ''openai/gpt-oss-'' then [(''reasoning'', VDict [(''effort'', VStr ''low'')])]
           else if 0 < temperature then [(''temperature'', VFloat temperature)] else [])),
      cq_timeout = timeout\<rparr>"

definition output_text_of :: "pyval \<Rightarrow> string" where
  "output_text_of c = (case c of
     VDict d \<Rightarrow> if py_eq (dget d ''type'') (VStr ''output_text'') then py_str (dget_or d ''text'' (VStr [])) else []
   | _ \<Rightarrow> [])"

fun output_parts :: "pyval list \<Rightarrow> py_error + string" where
  "output_parts [] = Inr []"
| "output_parts (VDict d # items) =
     and_then (py_iter (or_else (dget d ''content'') (VList []))) (\<lambda>cs.
       map_sum id ((@) (concat (map output_text_of cs))) (output_parts items))"
| "output_parts (_ # items) = output_parts items"

definition groq_output_text :: "pydict \<Rightarrow> py_error + string" where
  "groq_output_text payload =
     (let direct = (case dget payload ''output_text'' of VStr s \<Rightarrow> strip s | _ \<Rightarrow> []) in
      if direct \<noteq> [] then Inr direct
      else and_then (py_iter (or_else (dget payload ''output'') (VList []))) (\<lambda>items.
        and_then (output_parts items) (\<lambda>t.
          if strip t = [] then Inl (ValueError ''Groq returned an empty response.'') else Inr (strip t))))"

definition groq_failed :: "string \<Rightarrow> query_error" where
  "groq_failed model = Raised (RuntimeError (''Cannot extract a structured query with Groq model '' @ model @ ''.''))"

definition groq_usage :: "pydict \<Rightarrow> pydict" where
  "groq_usage payload =
     (let usage = dict_or_empty (or_else (dget payload ''usage'') (VDict [])) in
      map (\<lambda>k. (k, metric_int (dget usage k))) [''input_tokens'', ''output_tokens'', ''total_tokens''])"

definition groq_times :: "pydict \<Rightarrow> pydict" where
  "groq_times payload = List.map_filter (\<lambda>(k, v). if ends_with k ''_time''
       then map_option (\<lambda>q. (''groq_'' @ k @ ''_ms'', VFloat (q * 1000))) (to_float v) else None)
     (dict_or_empty (or_else (dget payload ''metadata'') (VDict [])))"

definition groq_read :: "(string \<Rightarrow> py_error + pyval) \<Rightarrow> string \<Rightarrow> pydict \<Rightarrow> pydict \<Rightarrow> (query_error + string) \<times> pydict" where
  "groq_read loads model payload m0 =
     (let m = put_all (groq_times payload) (put_all (groq_usage payload) m0);
          status = casefold (py_str (or_else (dget payload ''status'') (VStr [])))
      in ((if status \<noteq> [] \<and> status \<noteq> ''completed'' then unavailable ''groq'' (''status_'' @ status)
           else (case groq_output_text payload of
               Inr t \<Rightarrow> structured_json_text loads ''groq'' t
             | Inl (ValueError e) \<Rightarrow> unavailable ''groq'' ''empty_response''
             | Inl e \<Rightarrow> Inl (groq_failed model))), m))"

definition groq_chat ::
    "query_settings \<Rightarrow> pyfloat option \<Rightarrow> pyfloat \<Rightarrow> pyfloat \<Rightarrow> (chat_request \<Rightarrow> exchange)
      \<Rightarrow> string \<Rightarrow> string \<Rightarrow> string \<Rightarrow> pyval \<Rightarrow> pyfloat \<Rightarrow> (query_error + string) \<times> pydict" where
  "groq_chat cfg deadline before after post model system user schema temperature =
     (let m = first_metrics ''groq'' model in
      if qm_groq_key cfg = [] then (unavailable ''groq'' ''missing_api_key'', m)
      else (case effective_timeout deadline before (qm_groq_timeout cfg) of
          Inl e \<Rightarrow> (Inl e, m)
        | Inr timeout \<Rightarrow> read_exchange ''groq'' model (groq_failed model) deadline after (groq_read (qm_loads cfg) model) m
            (post (groq_request cfg model system user schema temperature timeout))))"

end
