(* ===== verification/Query_Models.thy ===== *)
theory Query_Models
  imports Query_Provider Planner
begin

text \<open>
  \<open>structured_chat\<close> of \<open>providers/gemini.py\<close>: the configured models are tried in order, each behind
  the request budget of its provider (and the token budget of Groq) and all of them behind one
  deadline. The limiters are those of \<open>Request_Limit\<close>, made when a provider is first used. The
  readings of the clock, the answers of the Redis coordinator and the exchanges are arguments, one
  set for each model in the order of the attempts.
\<close>

subsection \<open>State\<close>

text \<open>\<open>qs_posts\<close> is no state of the code: it records each exchange for the specification.\<close>

record post_log =
  po_provider :: string
  po_admitted :: pyfloat
  po_started :: pyfloat
  po_timeout :: pyfloat
  po_tokens :: int

record query_state =
  qs_windows :: "(string, window_limiter) dict"
  qs_tokens :: "(string, token_limiter) dict"
  qs_metrics :: pydict
  qs_posts :: "post_log list"

record attempt_env =
  ae_start :: pyfloat
  ae_window :: "(bool \<times> pyfloat) answer \<times> pyfloat"
  ae_tokens :: "(bool \<times> pyfloat) answer \<times> pyfloat"
  ae_before :: pyfloat
  ae_post :: "chat_request \<Rightarrow> exchange"
  ae_after :: pyfloat

subsection \<open>The limiters of the providers\<close>

definition provider_rpm :: "query_settings \<Rightarrow> string \<Rightarrow> int" where
  "provider_rpm cfg provider = (if provider = ''groq'' then qm_groq_rpm cfg else qm_google_rpm cfg)"

definition query_model_limiter :: "query_settings \<Rightarrow> string \<Rightarrow> query_state \<Rightarrow> py_error + window_limiter" where
  "query_model_limiter cfg provider s = (case map_of (qs_windows s) provider of
     Some l \<Rightarrow> Inr l
   | None \<Rightarrow> window_limiter_init (provider_rpm cfg provider) 60 (qm_redis cfg) (Some (''query:'' @ provider)))"

definition query_model_token_limiter :: "query_settings \<Rightarrow> string \<Rightarrow> pyfloat \<Rightarrow> query_state \<Rightarrow> py_error + token_limiter option" where
  "query_model_token_limiter cfg provider now s =
     (if provider \<noteq> ''groq'' then Inr None
      else (case map_of (qs_tokens s) provider of
          Some l \<Rightarrow> Inr (Some l)
        | None \<Rightarrow> map_sum id Some (token_limiter_init (qm_groq_tpm cfg) (qm_redis cfg) (Some (''query:'' @ provider)) now)))"

text \<open>\<open>limiter.allow()\<close> of the attempt, with the limiter stored again.\<close>

definition admit_request :: "query_settings \<Rightarrow> string \<Rightarrow> attempt_env \<Rightarrow> query_state \<Rightarrow> py_error + (bool \<times> pyfloat) \<times> query_state" where
  "admit_request cfg provider env s = and_then (query_model_limiter cfg provider s) (\<lambda>l.
     case window_allow (fst (ae_window env)) (snd (ae_window env)) l of
       (result, l') \<Rightarrow> Inr (result, s\<lparr>qs_windows := AList.update provider l' (qs_windows s)\<rparr>))"

definition admit_tokens :: "query_settings \<Rightarrow> string \<Rightarrow> int \<Rightarrow> attempt_env \<Rightarrow> query_state \<Rightarrow> py_error + (bool \<times> pyfloat) option \<times> query_state" where
  "admit_tokens cfg provider estimated env s =
     and_then (query_model_token_limiter cfg provider (snd (ae_tokens env)) s) (\<lambda>limiter. case limiter of
       None \<Rightarrow> Inr (None, s)
     | Some l \<Rightarrow> and_then (token_allow (fst (ae_tokens env)) estimated (snd (ae_tokens env)) l) (\<lambda>(result, l').
         Inr (Some result, s\<lparr>qs_tokens := AList.update provider l' (qs_tokens s)\<rparr>)))"

subsection \<open>structured_chat\<close>

definition publish_metrics :: "pydict \<Rightarrow> string list \<Rightarrow> pydict list \<Rightarrow> string option \<Rightarrow> query_state \<Rightarrow> query_state" where
  "publish_metrics current attempted attempts failure s =
     s\<lparr>qs_metrics := put_all ([(''attempted_models'', VList (map VStr attempted)), (''attempts'', VList (map VDict attempts))]
        @ (case failure of None \<Rightarrow> [] | Some r \<Rightarrow> [(''failure_reason'', VStr r)])) current\<rparr>"

definition skipped :: "string \<Rightarrow> string \<Rightarrow> string \<Rightarrow> pydict \<Rightarrow> pydict" where
  "skipped model provider reason rest = [(''load_ms'', VFloat 0), (''total_ms'', VFloat 0), (''model'', VStr model), (''provider'', VStr provider),
     (''status'', VStr ''fallback''), (''reason'', VStr reason)] @ rest"

definition token_metrics :: "query_settings \<Rightarrow> int option \<Rightarrow> pydict" where
  "token_metrics cfg estimated = (case estimated of None \<Rightarrow> []
     | Some n \<Rightarrow> [(''estimated_tokens'', VInt n), (''token_budget_per_minute'', VInt (qm_groq_tpm cfg))])"

definition attempted_metrics :: "string \<Rightarrow> string \<Rightarrow> string \<Rightarrow> string option \<Rightarrow> nat \<Rightarrow> pydict \<Rightarrow> pydict \<Rightarrow> pydict" where
  "attempted_metrics model provider status reason position rest metrics =
     put_all ([(''model'', VStr model), (''provider'', VStr provider), (''status'', VStr status)]
        @ (case reason of None \<Rightarrow> [] | Some r \<Rightarrow> [(''reason'', VStr r)])
        @ [(''attempt_number'', VInt (int position))] @ rest) metrics"

record chat_call =
  ch_system :: string
  ch_user :: string
  ch_schema :: pyval
  ch_temperature :: pyfloat

definition provider_chat ::
    "query_settings \<Rightarrow> pyfloat \<Rightarrow> attempt_env \<Rightarrow> string \<Rightarrow> string \<Rightarrow> chat_call \<Rightarrow> (query_error + string) \<times> pydict" where
  "provider_chat cfg deadline env provider model c =
     (if provider = ''groq'' then groq_chat else gemini_chat) cfg (Some deadline) (ae_before env) (ae_after env) (ae_post env)
       model (ch_system c) (ch_user c) (ch_schema c) (ch_temperature c)"

text \<open>
  The metrics of a chat with Google are where the last metrics are read from, and each exchange is
  recorded with its timeout: without a key, or after the deadline, there is none.
\<close>

definition exchange_timeout :: "query_settings \<Rightarrow> pyfloat \<Rightarrow> attempt_env \<Rightarrow> string \<Rightarrow> pyfloat option" where
  "exchange_timeout cfg deadline env provider =
     (let (key, seconds) = (if provider = ''groq'' then (qm_groq_key cfg, qm_groq_timeout cfg) else (qm_google_key cfg, qm_google_timeout cfg))
      in if key = [] then None
         else (case effective_timeout (Some deadline) (ae_before env) seconds of Inl e \<Rightarrow> None | Inr t \<Rightarrow> Some t))"

definition after_chat :: "query_settings \<Rightarrow> pyfloat \<Rightarrow> attempt_env \<Rightarrow> string \<Rightarrow> int \<Rightarrow> pydict \<Rightarrow> query_state \<Rightarrow> query_state" where
  "after_chat cfg deadline env provider estimated metrics s =
     s\<lparr>qs_metrics := (if provider = ''groq'' then qs_metrics s else metrics),
       qs_posts := qs_posts s @ (case exchange_timeout cfg deadline env provider of None \<Rightarrow> []
         | Some t \<Rightarrow> [\<lparr>po_provider = provider, po_admitted = snd (ae_window env), po_started = ae_before env, po_timeout = t,
             po_tokens = estimated\<rparr>])\<rparr>"

text \<open>
  One model of the chain: it answers, it falls back with a reason (to the next model, or to none
  when the deadline is over), or it raises. The metrics of the attempt come with the first two.
\<close>

datatype attempt_result =
    Answered string pydict
  | FellBack string pydict
  | DeadlineOver pydict
  | Failed py_error "pydict option"

definition over_deadline :: "string \<Rightarrow> string \<Rightarrow> attempt_result" where
  "over_deadline model provider = DeadlineOver (skipped model provider ''total_deadline'' [])"

definition rate_limited :: "string \<Rightarrow> string \<Rightarrow> pyfloat \<Rightarrow> attempt_result" where
  "rate_limited model provider retry =
     FellBack ''local_rate_limit'' (skipped model provider ''local_rate_limit'' [(''retry_after_seconds'', VFloat retry)])"

definition token_limited :: "query_settings \<Rightarrow> string \<Rightarrow> string \<Rightarrow> int \<Rightarrow> pyfloat \<Rightarrow> attempt_result" where
  "token_limited cfg model provider estimated retry =
     FellBack ''local_token_limit'' (skipped model provider ''local_token_limit''
       (token_metrics cfg (Some estimated) @ [(''retry_after_seconds'', VFloat retry)]))"

definition chat_result :: "query_settings \<Rightarrow> nat \<Rightarrow> string \<Rightarrow> string \<Rightarrow> int option \<Rightarrow> (query_error + string) \<times> pydict \<Rightarrow> attempt_result" where
  "chat_result cfg position model provider estimated answer =
     (case answer of (result, metrics) \<Rightarrow>
        (case result of
           Inr body \<Rightarrow> Answered body
             (attempted_metrics model provider ''success'' None position (token_metrics cfg estimated) metrics)
         | Inl (Unavailable p reason) \<Rightarrow> FellBack reason
             (attempted_metrics model (case p of None \<Rightarrow> provider | Some q \<Rightarrow> q) ''fallback'' (Some reason) position (token_metrics cfg estimated) metrics)
         | Inl (Raised (RuntimeError m)) \<Rightarrow> Failed (RuntimeError m)
             (Some (attempted_metrics model provider ''failed'' (Some ''provider_error'') position [] metrics))
         | Inl (Raised e) \<Rightarrow> Failed e None))"

definition try_model ::
    "query_settings \<Rightarrow> pyfloat \<Rightarrow> nat \<Rightarrow> string \<Rightarrow> attempt_env \<Rightarrow> chat_call \<Rightarrow> query_state \<Rightarrow> attempt_result \<times> query_state" where
  "try_model cfg deadline position model env c s =
     (case query_model_route model of
        Inl e \<Rightarrow> (Failed e None, s)
      | Inr (provider, provider_model) \<Rightarrow>
          if deadline \<le> ae_start env then (over_deadline model provider, s)
          else (case admit_request cfg provider env s of
              Inl e \<Rightarrow> (Failed e None, s)
            | Inr ((allowed, retry), s1) \<Rightarrow>
                if \<not> allowed then (rate_limited model provider retry, s1)
                else (let estimated = estimate_groq_request_tokens cfg (ch_system c) (ch_user c) (ch_schema c) in
                  case admit_tokens cfg provider estimated env s1 of
                    Inl e \<Rightarrow> (Failed e None, s1)
                  | Inr (Some (False, retry2), s2) \<Rightarrow> (token_limited cfg model provider estimated retry2, s2)
                  | Inr (tokens, s2) \<Rightarrow>
                      (let answer = provider_chat cfg deadline env provider provider_model c in
                       (chat_result cfg position model provider (if tokens = None then None else Some estimated) answer,
                        after_chat cfg deadline env provider estimated (snd answer) s2)))))"

definition all_unavailable :: "string option \<Rightarrow> py_error" where
  "all_unavailable reason = RuntimeError (''All configured query models are unavailable (last_reason=''
     @ (case reason of None \<Rightarrow> ''unknown'' | Some r \<Rightarrow> r) @ '').'')"

fun chain ::
    "query_settings \<Rightarrow> pyfloat \<Rightarrow> chat_call \<Rightarrow> nat \<Rightarrow> (string \<times> attempt_env) list \<Rightarrow> string list \<Rightarrow> pydict list \<Rightarrow> string option
      \<Rightarrow> query_state \<Rightarrow> (py_error + string) \<times> query_state" where
  "chain cfg deadline c position [] attempted attempts last_reason s = (Inl (all_unavailable last_reason), s)"
| "chain cfg deadline c position ((model, env) # rest) attempted attempts last_reason s =
     (case try_model cfg deadline position model env c s of
        (Answered body m, s1) \<Rightarrow> (Inr body, publish_metrics m (attempted @ [model]) (attempts @ [m]) None s1)
      | (FellBack reason m, s1) \<Rightarrow>
          chain cfg deadline c (Suc position) rest (attempted @ [model]) (attempts @ [m]) (Some reason)
            (publish_metrics m (attempted @ [model]) (attempts @ [m]) (Some reason) s1)
      | (DeadlineOver m, s1) \<Rightarrow> (Inl (all_unavailable (Some ''total_deadline'')),
          publish_metrics m (attempted @ [model]) (attempts @ [m]) (Some ''total_deadline'') s1)
      | (Failed e m, s1) \<Rightarrow> (Inl e, (case m of None \<Rightarrow> s1
          | Some d \<Rightarrow> publish_metrics d (attempted @ [model]) (attempts @ [d]) (Some ''provider_error'') s1)))"

text \<open>\<open>envs\<close> gives what each position of the chain meets, \<open>now\<close> the start of the call.\<close>

definition models_for :: "query_settings \<Rightarrow> string \<Rightarrow> string list" where
  "models_for cfg model = (if model = hd (qm_models cfg) then qm_models cfg else [model])"

definition structured_chat ::
    "query_settings \<Rightarrow> pyfloat \<Rightarrow> (nat \<Rightarrow> attempt_env) \<Rightarrow> string \<Rightarrow> chat_call \<Rightarrow> query_state \<Rightarrow> (py_error + string) \<times> query_state" where
  "structured_chat cfg now envs model c s =
     (if qm_models cfg = [] then (Inl (RuntimeError ''No query extraction models are configured.''), s)
      else (let ms = models_for cfg model in
        chain cfg (now + qm_total_timeout cfg) c 1 (zip ms (map envs [1..<Suc (length ms)])) [] [] None s))"

subsection \<open>The window of a provider\<close>

text \<open>\<open>hist\<close> are all the requests that were admitted up to \<open>now\<close>.\<close>

definition window_history :: "window_limiter \<Rightarrow> pyfloat list \<Rightarrow> pyfloat \<Rightarrow> bool" where
  "window_history l hist now \<longleftrightarrow> window_ok l \<and> (\<forall>a\<in>set hist. a \<le> now) \<and> (\<forall>a\<in>set (window_requests l). a \<le> now)
     \<and> (\<forall>u\<ge>now. filter (\<lambda>a. u - window_seconds l < a) hist = filter (\<lambda>a. u - window_seconds l < a) (window_requests l))
     \<and> (\<forall>u. int (length (filter (in_window u (window_seconds l)) hist)) \<le> requests_per_window l)"

lemma window_history_init: "window_limiter_init n w r sc = Inr l \<Longrightarrow> window_history l [] now"
  using window_init_ok [of n w r sc l] by (auto simp: window_history_def window_limiter_init_def split: if_splits)

lemma window_history_step:
  assumes h: "window_history l hist t" and le: "t \<le> now" and step: "window_allow_memory now l = ((ok, retry), l')"
  shows "window_history l' (hist @ (if ok then [now] else [])) now"
    and "requests_per_window l' = requests_per_window l" and "window_seconds l' = window_seconds l"
proof -
  let ?w = "window_seconds l"
  have ok: "window_ok l" and old: "\<forall>a\<in>set hist. a \<le> now" "\<forall>a\<in>set (window_requests l). a \<le> now"
    and same: "filter (\<lambda>a. u - ?w < a) hist = filter (\<lambda>a. u - ?w < a) (window_requests l)" if "now \<le> u" for u
    using h le that by (auto simp: window_history_def)
  have srt: "sorted (window_requests l)" using ok [of now] by (simp add: window_ok_def)
  note req = window_allow_requests [OF srt step]
  show f: "requests_per_window l' = requests_per_window l" "window_seconds l' = ?w" using step by auto
  have run: "window_run l [now] = (if ok then [now] else [], l')" using step by simp
  have count: "int (length (filter (in_window u ?w) (hist @ (if ok then [now] else [])))) \<le> requests_per_window l" for u
    by (rule window_run_budget [OF ok [of now] _ _ _ _ _ run])
      (use same [of now] old [of now] h in \<open>auto simp: window_history_def\<close>)
  have keep: "filter (\<lambda>a. u - ?w < a) (hist @ (if ok then [now] else [])) = filter (\<lambda>a. u - ?w < a) (window_requests l')"
    if u: "now \<le> u" for u
  proof -
    have "filter (\<lambda>a. u - ?w < a) (window_requests l)
        = filter (\<lambda>a. u - ?w < a) (filter (\<lambda>a. now - ?w < a) (window_requests l))"
      using u by (auto intro!: filter_cong)
    then show ?thesis using same [OF u] req(1) by simp
  qed
  show "window_history l' (hist @ (if ok then [now] else [])) now"
    unfolding window_history_def f
    using window_allow_ok [OF ok [of now] old(2) [of now] step] old(1) [of now] keep count by (auto split: if_splits)
qed

subsection \<open>The tokens of a provider\<close>

definition token_history :: "int \<Rightarrow> pyfloat \<Rightarrow> token_limiter \<Rightarrow> int \<Rightarrow> pyfloat \<Rightarrow> bool" where
  "token_history n t0 l spent now \<longleftrightarrow> token_ok l \<and> tokens_per_minute l = n \<and> token_updated l \<le> now \<and> t0 \<le> token_updated l
     \<and> of_int spent + token_level l \<le> of_int n + (token_updated l - t0) * (of_int n / 60)"

lemma token_history_init:
  assumes "token_limiter_init n r sc now = Inr l" and "t0 \<le> now"
  shows "token_history n t0 l 0 now"
proof -
  have l: "0 < n" "l = \<lparr>tokens_per_minute = n, token_level = of_int n, token_updated = now\<rparr>"
    using assms(1) by (auto simp: token_limiter_init_def split: if_splits)
  then have "0 \<le> (now - t0) * (of_int n / 60 :: pyfloat)" using assms(2) by simp
  then show ?thesis using l assms(2) by (simp add: token_history_def token_ok_def)
qed

lemma token_history_step:
  assumes h: "token_history n t0 l spent t" and le: "t \<le> now" and cost: "0 < k"
    and step: "token_allow_memory (of_int k) now l = ((ok, retry), l')"
  shows "token_history n t0 l' (spent + (if ok then k else 0)) now"
proof -
  have good: "token_ok l \<and> tokens_per_minute l = n" and st: "token_updated l \<le> now" "t0 \<le> token_updated l"
    and bound: "of_int spent + token_level l \<le> of_int n + (token_updated l - t0) * (of_int n / 60)"
    using h le by (auto simp: token_history_def)
  have run: "token_take (of_int k) now l = (ok, l')" using step by (simp add: token_take_def)
  have pos: "0 < (of_int k :: pyfloat)" using cost by simp
  have good': "token_ok l' \<and> tokens_per_minute l' = n" "token_updated l' = now"
    and level: "token_level l' = min (of_int n) (token_level l + (now - token_updated l) * (of_int n / 60)) - (if ok then of_int k else 0)"
    using token.spend_good [OF good st(1) pos] token.spend_stamp [OF good st(1) pos] token.spend_level [OF good st(1) pos]
    by (simp_all add: run)
  define r where "r = (of_int n / 60 :: pyfloat)"
  have "token_level l' \<le> token_level l + (now - token_updated l) * r - of_int (if ok then k else 0)"
    using level by (simp add: r_def)
  moreover have "(now - t0) * r = (now - token_updated l) * r + (token_updated l - t0) * r"
    by (simp add: distrib_right [symmetric])
  moreover have "of_int spent + token_level l \<le> of_int n + (token_updated l - t0) * r" using bound by (simp add: r_def)
  ultimately have "of_int (spent + (if ok then k else 0)) + token_level l' \<le> of_int n + (now - t0) * r"
    unfolding of_int_add by linarith
  then show ?thesis using good' st by (simp add: token_history_def r_def)
qed

subsection \<open>Every provider keeps its budgets\<close>

lemma window_history_later: "window_history l hist t \<Longrightarrow> t \<le> u \<Longrightarrow> window_history l hist u"
  by (fastforce simp: window_history_def)

lemma token_history_later: "token_history n t0 l spent t \<Longrightarrow> t \<le> u \<Longrightarrow> token_history n t0 l spent u"
  by (auto simp: token_history_def)

definition posts_of :: "string \<Rightarrow> post_log list \<Rightarrow> post_log list" where
  "posts_of provider ps = filter (\<lambda>x. po_provider x = provider) ps"

definition window_part :: "query_settings \<Rightarrow> post_log list \<Rightarrow> pyfloat \<Rightarrow> (string, window_limiter) dict \<Rightarrow> bool" where
  "window_part cfg ps now ws \<longleftrightarrow> (\<forall>p. (map_of ws p = None \<longrightarrow> posts_of p ps = [])
     \<and> (\<forall>l. map_of ws p = Some l \<longrightarrow> requests_per_window l = provider_rpm cfg p \<and> window_seconds l = 60
        \<and> (\<exists>hist. window_history l hist now \<and> (\<forall>P. length (filter P (map po_admitted (posts_of p ps))) \<le> length (filter P hist)))))"

definition token_part :: "query_settings \<Rightarrow> pyfloat \<Rightarrow> post_log list \<Rightarrow> pyfloat \<Rightarrow> (string, token_limiter) dict \<Rightarrow> bool" where
  "token_part cfg t0 ps now ts \<longleftrightarrow> (map_of ts ''groq'' = None \<longrightarrow> posts_of ''groq'' ps = [])
     \<and> (\<forall>l. map_of ts ''groq'' = Some l \<longrightarrow> (\<exists>spent. token_history (qm_groq_tpm cfg) t0 l spent now
          \<and> sum_list (map po_tokens (posts_of ''groq'' ps)) \<le> spent))"

definition local_env :: "attempt_env \<Rightarrow> bool" where
  "local_env env \<longleftrightarrow> fst (ae_window env) \<in> {None, Some None} \<and> fst (ae_tokens env) \<in> {None, Some None}"

lemma window_part_later: "window_part cfg ps t ws \<Longrightarrow> t \<le> u \<Longrightarrow> window_part cfg ps u ws"
  unfolding window_part_def by (meson window_history_later)

lemma token_part_later: "token_part cfg t0 ps t ts \<Longrightarrow> t \<le> u \<Longrightarrow> token_part cfg t0 ps u ts"
  unfolding token_part_def by (meson token_history_later)

lemma window_part_other: "window_part cfg ps t ws \<Longrightarrow> po_provider x \<noteq> p \<Longrightarrow> posts_of p (ps @ [x]) = posts_of p ps"
  by (simp add: posts_of_def)

lemma admit_request_part:
  assumes part: "window_part cfg ps t (qs_windows s)" and le: "t \<le> snd (ae_window env)" and loc: "local_env env"
    and step: "admit_request cfg provider env s = Inr ((allowed, retry), s1)"
  shows "qs_tokens s1 = qs_tokens s" "qs_posts s1 = qs_posts s"
    and "window_part cfg ps (snd (ae_window env)) (qs_windows s1)"
    and "allowed \<Longrightarrow> po_provider x = provider \<Longrightarrow> po_admitted x = snd (ae_window env)
      \<Longrightarrow> window_part cfg (ps @ [x]) (snd (ae_window env)) (qs_windows s1)"
proof -
  let ?now = "snd (ae_window env)"
  obtain l where l: "query_model_limiter cfg provider s = Inr l"
    using step by (auto simp: admit_request_def and_then_Inr)
  obtain r l' where mem: "window_allow_memory ?now l = (r, l')" by (metis prod.exhaust)
  have "window_allow (fst (ae_window env)) ?now l = (r, l')" using loc mem by (auto simp: window_allow_def local_env_def)
  then have s1: "s1 = s\<lparr>qs_windows := AList.update provider l' (qs_windows s)\<rparr>" and allow: "window_allow_memory ?now l = ((allowed, retry), l')"
    using step l mem by (simp_all add: admit_request_def)
  show "qs_tokens s1 = qs_tokens s" "qs_posts s1 = qs_posts s" by (simp_all add: s1)
  obtain hist where hist: "window_history l hist t" "\<forall>P. length (filter P (map po_admitted (posts_of provider ps))) \<le> length (filter P hist)"
    and fields: "requests_per_window l = provider_rpm cfg provider" "window_seconds l = 60"
  proof (cases "map_of (qs_windows s) provider")
    case None
    then have init: "window_limiter_init (provider_rpm cfg provider) 60 (qm_redis cfg) (Some (''query:'' @ provider)) = Inr l"
      using l by (simp add: query_model_limiter_def)
    have "posts_of provider ps = []" using part None by (simp add: window_part_def)
    then show thesis using that [of "[]"] window_history_init [OF init] init by (auto simp: window_limiter_init_def split: if_splits)
  next
    case (Some k)
    then have "k = l" using l by (simp add: query_model_limiter_def)
    then show thesis using that part Some unfolding window_part_def by blast
  qed
  define hist' where "hist' = hist @ (if allowed then [?now] else [])"
  have new: "window_history l' hist' ?now" "requests_per_window l' = provider_rpm cfg provider" "window_seconds l' = 60"
    using window_history_step [OF hist(1) le allow] fields by (simp_all add: hist'_def)
  have others: "window_part cfg qs ?now (qs_windows s1)"
    if "\<And>p. p \<noteq> provider \<Longrightarrow> posts_of p qs = posts_of p ps"
      and "\<forall>P. length (filter P (map po_admitted (posts_of provider qs))) \<le> length (filter P hist')" for qs
    unfolding window_part_def
  proof (intro allI conjI)
    fix p
    show "map_of (qs_windows s1) p = None \<longrightarrow> posts_of p qs = []"
      using part that(1) by (auto simp: s1 update_conv' window_part_def)
    fix k
    show "map_of (qs_windows s1) p = Some k \<longrightarrow> requests_per_window k = provider_rpm cfg p \<and> window_seconds k = 60
        \<and> (\<exists>hist. window_history k hist ?now \<and> (\<forall>P. length (filter P (map po_admitted (posts_of p qs))) \<le> length (filter P hist)))"
    proof (cases "p = provider")
      case True
      then show ?thesis using new that(2) by (auto simp: s1 update_conv')
    next
      case False
      then show ?thesis using window_part_later [OF part le] that(1) unfolding window_part_def s1 by (simp add: update_conv')
    qed
  qed
  have shorter: "length (filter P hist) \<le> length (filter P hist')" for P by (simp add: hist'_def)
  show "window_part cfg ps ?now (qs_windows s1)"
    by (rule others) (use hist(2) shorter le_trans in blast)+
  assume ok: "allowed" and x: "po_provider x = provider" "po_admitted x = ?now"
  show "window_part cfg (ps @ [x]) ?now (qs_windows s1)"
    by (rule others) (use hist(2) ok x in \<open>auto simp: posts_of_def hist'_def\<close>)
qed


lemma admit_tokens_part:
  assumes part: "token_part cfg t0 ps t (qs_tokens s)" and le: "t \<le> snd (ae_tokens env)" "t0 \<le> t" and loc: "local_env env"
    and step: "admit_tokens cfg provider estimated env s = Inr (answer, s1)"
  shows "qs_windows s1 = qs_windows s" "qs_posts s1 = qs_posts s"
    and "token_part cfg t0 ps (snd (ae_tokens env)) (qs_tokens s1)"
    and "answer = None \<or> (\<exists>retry. answer = Some (True, retry)) \<Longrightarrow> po_provider x = provider \<Longrightarrow> po_tokens x = estimated
      \<Longrightarrow> token_part cfg t0 (ps @ [x]) (snd (ae_tokens env)) (qs_tokens s1)"
proof -
  let ?now = "snd (ae_tokens env)"
  have "(qs_windows s1 = qs_windows s \<and> qs_posts s1 = qs_posts s) \<and> token_part cfg t0 ps ?now (qs_tokens s1)
    \<and> (answer = None \<or> (\<exists>retry. answer = Some (True, retry)) \<longrightarrow> po_provider x = provider \<longrightarrow> po_tokens x = estimated
      \<longrightarrow> token_part cfg t0 (ps @ [x]) ?now (qs_tokens s1))"
  proof (cases "provider = ''groq''")
    case False
    then have "s1 = s" using step by (simp add: admit_tokens_def query_model_token_limiter_def)
    moreover have "posts_of ''groq'' (ps @ [x]) = posts_of ''groq'' ps" if "po_provider x = provider"
      using that False by (simp add: posts_of_def)
    ultimately show ?thesis using token_part_later [OF part le(1)] by (auto simp: token_part_def)
  next
    case True
    obtain l where l: "query_model_token_limiter cfg provider ?now s = Inr (Some l)"
      using step True by (auto simp: admit_tokens_def and_then_Inr query_model_token_limiter_def split: option.splits elim!: map_sum_InrE)
    obtain res l' where allow: "token_allow (fst (ae_tokens env)) estimated ?now l = Inr (res, l')"
      using step l by (auto simp: admit_tokens_def and_then_Inr split: prod.splits)
    have s1: "s1 = s\<lparr>qs_tokens := AList.update provider l' (qs_tokens s)\<rparr>" and answer: "answer = Some res"
      using step l allow by (simp_all add: admit_tokens_def)
    obtain spent where hist: "token_history (qm_groq_tpm cfg) t0 l spent ?now"
      and count: "sum_list (map po_tokens (posts_of ''groq'' ps)) \<le> spent"
    proof (cases "map_of (qs_tokens s) ''groq''")
      case None
      then have init: "token_limiter_init (qm_groq_tpm cfg) (qm_redis cfg) (Some (''query:'' @ provider)) ?now = Inr l"
        using l True by (auto simp: query_model_token_limiter_def elim!: map_sum_InrE)
      have "posts_of ''groq'' ps = []" using part None by (simp add: token_part_def)
      then show thesis using that [of 0] token_history_init [OF init, of t0] le by simp
    next
      case (Some k)
      then have "k = l" using l True by (simp add: query_model_token_limiter_def)
      then show thesis using that token_part_later [OF part le(1)] Some unfolding token_part_def by blast
    qed
    obtain ok retry where res: "res = (ok, retry)" by (metis prod.exhaust)
    have "\<exists>spent'. token_history (qm_groq_tpm cfg) t0 l' spent' ?now \<and> spent + (if ok then estimated else 0) \<le> spent'"
    proof (cases "estimated > tokens_per_minute l")
      case True
      then show ?thesis using allow res hist by (auto simp: token_allow_def split: if_splits)
    next
      case False
      then have mem: "0 < estimated" "token_allow_memory (of_int estimated) ?now l = ((ok, retry), l')"
        using allow res loc by (auto simp: token_allow_def local_env_def split: if_splits)
      show ?thesis using token_history_step [OF hist order_refl mem] by auto
    qed
    then obtain spent' where new: "token_history (qm_groq_tpm cfg) t0 l' spent' ?now" "spent + (if ok then estimated else 0) \<le> spent'" by blast
    have pos: "0 < estimated" using allow by (auto simp: token_allow_def split: if_splits)
    have part': "token_part cfg t0 qs ?now (qs_tokens s1)" if "sum_list (map po_tokens (posts_of ''groq'' qs)) \<le> spent'" for qs
      using new(1) that True by (auto simp: token_part_def s1 update_conv')
    have "token_part cfg t0 ps ?now (qs_tokens s1)"
      by (rule part') (use count new(2) pos in \<open>auto split: if_splits\<close>)
    moreover have "token_part cfg t0 (ps @ [x]) ?now (qs_tokens s1)" if "ok" "po_provider x = provider" "po_tokens x = estimated"
      by (rule part') (use count new(2) that True in \<open>auto simp: posts_of_def\<close>)
    ultimately show ?thesis by (simp add: s1 answer res)
  qed
  then show "qs_windows s1 = qs_windows s" "qs_posts s1 = qs_posts s" "token_part cfg t0 ps ?now (qs_tokens s1)"
    "answer = None \<or> (\<exists>retry. answer = Some (True, retry)) \<Longrightarrow> po_provider x = provider \<Longrightarrow> po_tokens x = estimated
      \<Longrightarrow> token_part cfg t0 (ps @ [x]) ?now (qs_tokens s1)" by blast+
qed

definition budgets_kept :: "query_settings \<Rightarrow> pyfloat \<Rightarrow> pyfloat \<Rightarrow> query_state \<Rightarrow> bool" where
  "budgets_kept cfg t0 now s \<longleftrightarrow> window_part cfg (qs_posts s) now (qs_windows s) \<and> token_part cfg t0 (qs_posts s) now (qs_tokens s)"

lemma budgets_kept_later: "budgets_kept cfg t0 t s \<Longrightarrow> t \<le> u \<Longrightarrow> budgets_kept cfg t0 u s"
  by (auto simp: budgets_kept_def intro: window_part_later token_part_later)

lemma budgets_kept_metrics [simp]: "budgets_kept cfg t0 now (publish_metrics m ms as r s) = budgets_kept cfg t0 now s"
  by (simp add: budgets_kept_def publish_metrics_def)

definition env_ordered :: "pyfloat \<Rightarrow> attempt_env \<Rightarrow> bool" where
  "env_ordered t env \<longleftrightarrow> t \<le> snd (ae_window env) \<and> snd (ae_window env) \<le> snd (ae_tokens env)"

lemma try_model_budgets:
  assumes inv: "budgets_kept cfg t0 t s" and le: "t0 \<le> t" "env_ordered t env" and loc: "local_env env"
    and run: "try_model cfg deadline position model env c s = (r, s')"
  shows "budgets_kept cfg t0 (snd (ae_tokens env)) s'"
proof -
  let ?u = "snd (ae_window env)" and ?v = "snd (ae_tokens env)"
  have tu: "t \<le> ?u" and uv: "?u \<le> ?v" using le by (auto simp: env_ordered_def)
  have same: ?thesis if "s' = s" using budgets_kept_later [OF inv] tu uv that by simp
  show ?thesis
  proof (cases "query_model_route model")
    case (Inl e)
    then show ?thesis using run same by (simp add: try_model_def)
  next
    case (Inr pm)
    obtain provider pmodel where pm: "pm = (provider, pmodel)" by (metis prod.exhaust)
    show ?thesis
    proof (cases "deadline \<le> ae_start env")
      case True
      then show ?thesis using run same Inr pm by (simp add: try_model_def)
    next
      case early: False
      show ?thesis
      proof (cases "admit_request cfg provider env s")
        case (Inl e)
        then show ?thesis using run same Inr pm early by (simp add: try_model_def)
      next
        case adm: (Inr a)
        obtain allowed retry s1 where a: "a = ((allowed, retry), s1)" by (metis prod.exhaust)
        note part = admit_request_part [OF _ tu loc adm [unfolded a]]
        have w: "window_part cfg (qs_posts s) t (qs_windows s)" and k: "token_part cfg t0 (qs_posts s) t (qs_tokens s)"
          using inv by (auto simp: budgets_kept_def)
        have w1: "window_part cfg (qs_posts s) ?u (qs_windows s1)" and s1: "qs_tokens s1 = qs_tokens s" "qs_posts s1 = qs_posts s"
          using part [OF w] by blast+
        have k1: "token_part cfg t0 (qs_posts s) ?u (qs_tokens s1)" using token_part_later [OF k tu] s1 by simp
        have stay: "budgets_kept cfg t0 ?v s1"
          using window_part_later [OF w1 uv] token_part_later [OF k1 uv] s1 by (simp add: budgets_kept_def)
        show ?thesis
        proof (cases allowed)
          case False
          then show ?thesis using run stay Inr pm early adm a by (simp add: try_model_def)
        next
          case ok: True
          define estimated where "estimated = estimate_groq_request_tokens cfg (ch_system c) (ch_user c) (ch_schema c)"
          show ?thesis
          proof (cases "admit_tokens cfg provider estimated env s1")
            case (Inl e)
            then show ?thesis using run stay Inr pm early adm a ok by (simp add: try_model_def Let_def estimated_def)
          next
            case tok: (Inr b)
            obtain answer s2 where b: "b = (answer, s2)" by (metis prod.exhaust)
            have t0u: "t0 \<le> ?u" using le(1) tu by simp
            note tp = admit_tokens_part [OF k1 uv t0u loc tok [unfolded b]]
            have s2: "qs_windows s2 = qs_windows s1" "qs_posts s2 = qs_posts s" using tp s1 by simp_all
            show ?thesis
            proof (cases "answer = None \<or> (\<exists>retry. answer = Some (True, retry))")
              case False
              then obtain retry2 where "answer = Some (False, retry2)" by (cases answer) auto
              then have "s' = s2" using run Inr pm early adm a ok tok b by (simp add: try_model_def Let_def estimated_def)
              then show ?thesis using window_part_later [OF w1 uv] tp(3) s2 by (simp add: budgets_kept_def)
            next
              case True
              define answered where "answered = provider_chat cfg deadline env provider pmodel c"
              have s': "s' = after_chat cfg deadline env provider estimated (snd answered) s2"
                using run Inr pm early adm a ok tok b True
                by (auto simp: try_model_def Let_def estimated_def answered_def)
              show ?thesis
              proof (cases "exchange_timeout cfg deadline env provider")
                case None
                then show ?thesis using window_part_later [OF w1 uv] tp(3) s2 by (simp add: budgets_kept_def s' after_chat_def)
              next
                case (Some timeout)
                define x where "x = \<lparr>po_provider = provider, po_admitted = ?u, po_started = ae_before env, po_timeout = timeout, po_tokens = estimated\<rparr>"
                have "window_part cfg (qs_posts s @ [x]) ?u (qs_windows s1)" by (rule part(4) [OF w ok]) (simp_all add: x_def)
                moreover have "token_part cfg t0 (qs_posts s @ [x]) ?v (qs_tokens s2)" by (rule tp(4) [OF True]) (simp_all add: x_def)
                ultimately show ?thesis using window_part_later [OF _ uv] s2 Some
                  by (simp add: budgets_kept_def s' after_chat_def x_def)
              qed
            qed
          qed
        qed
      qed
    qed
  qed
qed

fun ordered_envs :: "pyfloat \<Rightarrow> attempt_env list \<Rightarrow> bool" where
  "ordered_envs t [] \<longleftrightarrow> True"
| "ordered_envs t (env # es) \<longleftrightarrow> env_ordered t env \<and> ordered_envs (snd (ae_tokens env)) es"

definition end_time :: "pyfloat \<Rightarrow> attempt_env list \<Rightarrow> pyfloat" where
  "end_time t es = fold (\<lambda>env _. snd (ae_tokens env)) es t"

lemma end_time_simps [simp]: "end_time t [] = t" "end_time t (env # es) = end_time (snd (ae_tokens env)) es"
  "end_time t (es @ fs) = end_time (end_time t es) fs"
  by (simp_all add: end_time_def)

lemma ordered_append [simp]: "ordered_envs t (es @ fs) \<longleftrightarrow> ordered_envs t es \<and> ordered_envs (end_time t es) fs"
  by (induction es arbitrary: t) auto

lemma end_time_le: "ordered_envs t es \<Longrightarrow> t \<le> end_time t es"
  by (induction es arbitrary: t) (fastforce simp: env_ordered_def)+

lemma chain_budgets:
  assumes "budgets_kept cfg t0 t s" and "t0 \<le> t" and "ordered_envs t (map snd xs)" and "\<forall>x\<in>set xs. local_env (snd x)"
  shows "budgets_kept cfg t0 (end_time t (map snd xs)) (snd (chain cfg deadline c position xs attempted attempts reason s))"
  using assms
proof (induction xs arbitrary: t s position attempted attempts reason)
  case (Cons x xs)
  obtain model env where x: "x = (model, env)" by (metis prod.exhaust)
  obtain r s1 where run: "try_model cfg deadline position model env c s = (r, s1)" by (metis prod.exhaust)
  have ord: "env_ordered t env" "ordered_envs (snd (ae_tokens env)) (map snd xs)" and loc: "local_env env" using Cons.prems(3,4) x by auto
  have inv: "budgets_kept cfg t0 (snd (ae_tokens env)) s1" by (rule try_model_budgets [OF Cons.prems(1,2) ord(1) loc run])
  have t0: "t0 \<le> snd (ae_tokens env)" using Cons.prems(2) ord(1) by (auto simp: env_ordered_def)
  have stay: "budgets_kept cfg t0 (end_time t (map snd (x # xs))) s1"
    using budgets_kept_later [OF inv] end_time_le [OF ord(2)] by (simp add: x)
  show ?case
  proof (cases r)
    case (FellBack why m)
    have inv': "budgets_kept cfg t0 (snd (ae_tokens env)) (publish_metrics m (attempted @ [model]) (attempts @ [m]) (Some why) s1)"
      using inv by simp
    have "\<forall>x\<in>set xs. local_env (snd x)" using Cons.prems(4) by simp
    from Cons.IH [OF inv' t0 ord(2) this] show ?thesis using run FellBack by (simp add: x)
  qed (use run stay x in \<open>auto split: option.splits\<close>)
qed simp

text \<open>A run of queries, each with its start, what its attempts meet, its model and its prompts.\<close>

type_synonym query_call = "pyfloat \<times> (nat \<Rightarrow> attempt_env) \<times> string \<times> chat_call"

definition call_envs :: "query_settings \<Rightarrow> query_call \<Rightarrow> attempt_env list" where
  "call_envs cfg q = (case q of (now, envs, model, c) \<Rightarrow> map envs [1..<Suc (length (models_for cfg model))])"

definition chats :: "query_settings \<Rightarrow> query_call list \<Rightarrow> query_state \<Rightarrow> query_state" where
  "chats cfg calls s = fold (\<lambda>(now, envs, model, c) s. snd (structured_chat cfg now envs model c s)) calls s"

definition query_start :: query_state where
  "query_start = \<lparr>qs_windows = [], qs_tokens = [], qs_metrics = [], qs_posts = []\<rparr>"

lemma start_budgets: "budgets_kept cfg t0 now query_start"
  by (simp add: budgets_kept_def window_part_def token_part_def query_start_def posts_of_def)

lemma structured_chat_budgets:
  assumes inv: "budgets_kept cfg t0 t s" and t0: "t0 \<le> t" and "ordered_envs t (call_envs cfg (now, envs, model, c))"
    and "\<forall>env\<in>set (call_envs cfg (now, envs, model, c)). local_env env"
  shows "budgets_kept cfg t0 (end_time t (call_envs cfg (now, envs, model, c))) (snd (structured_chat cfg now envs model c s))"
proof -
  let ?ms = "models_for cfg model"
  let ?es = "map envs [1..<Suc (length ?ms)]"
  have es: "call_envs cfg (now, envs, model, c) = map snd (zip ?ms ?es)" by (simp add: call_envs_def)
  have loc: "\<forall>x\<in>set (zip ?ms ?es). local_env (snd x)" using assms(4) unfolding es by auto
  show ?thesis
  proof (cases "qm_models cfg = []")
    case True
    then show ?thesis using budgets_kept_later [OF inv end_time_le [OF assms(3)]] by (simp add: structured_chat_def)
  next
    case False
    then show ?thesis using chain_budgets [OF inv t0 assms(3) [unfolded es] loc] unfolding es structured_chat_def Let_def by simp
  qed
qed

lemma chats_budgets:
  assumes "budgets_kept cfg t0 t s" and "t0 \<le> t" and "ordered_envs t (concat (map (call_envs cfg) calls))"
    and "\<forall>env\<in>set (concat (map (call_envs cfg) calls)). local_env env"
  shows "budgets_kept cfg t0 (end_time t (concat (map (call_envs cfg) calls))) (chats cfg calls s)"
  using assms
proof (induction calls arbitrary: t s)
  case (Cons q calls)
  obtain now envs model c where q: "q = (now, envs, model, c)" by (metis prod.exhaust)
  have ord: "ordered_envs t (call_envs cfg q)" "ordered_envs (end_time t (call_envs cfg q)) (concat (map (call_envs cfg) calls))"
    using Cons.prems(3) by auto
  have inv: "budgets_kept cfg t0 (end_time t (call_envs cfg q)) (snd (structured_chat cfg now envs model c s))"
    using structured_chat_budgets [OF Cons.prems(1,2), of now envs model c] ord(1) Cons.prems(4) by (simp add: q)
  have t0: "t0 \<le> end_time t (call_envs cfg q)" using Cons.prems(2) end_time_le [OF ord(1)] by simp
  have "\<forall>env\<in>set (concat (map (call_envs cfg) calls)). local_env env" using Cons.prems(4) by simp
  from Cons.IH [OF inv t0 ord(2) this] show ?case by (simp add: q chats_def)
qed (simp add: chats_def)

text \<open>What \<open>settings.py\<close> insists on when it is imported.\<close>

definition foreign_prefix :: "string \<Rightarrow> bool" where
  "foreign_prefix m \<longleftrightarrow> CHR '':'' \<in> set m \<and> takeWhile (\<lambda>c. c \<noteq> CHR '':'') m \<notin> {''google'', ''groq''}"

definition query_settings_problem :: "query_settings \<Rightarrow> string option" where
  "query_settings_problem cfg =
     (if qm_groq_timeout cfg \<le> 0 then Some ''GROQ_TIMEOUT_SECONDS must be greater than zero.''
      else if qm_groq_rpm cfg \<le> 0 \<or> qm_groq_tpm cfg \<le> 0 \<or> qm_google_rpm cfg \<le> 0
        then Some ''GROQ_QUERY_RPM, GROQ_QUERY_TPM, and GEMINI_QUERY_RPM must be greater than zero.''
      else if qm_models cfg = [] then Some ''query_extraction.models must contain at least one model.''
      else if list_ex foreign_prefix (qm_models cfg) then Some ''Unsupported query model provider prefix''
      else if qm_max_output cfg < 64 \<or> 4096 < qm_max_output cfg then Some ''query_extraction.max_output_tokens must be between 64 and 4096.''
      else if qm_thinking cfg \<notin> {''minimal'', ''low'', ''medium'', ''high''}
        then Some ''query_extraction.gemini_thinking_level must be minimal, low, medium, or high.''
      else if qm_google_timeout cfg \<le> 0 then Some ''GEMINI_TIMEOUT_SECONDS must be greater than zero.''
      else if qm_total_timeout cfg \<le> 0 then Some ''QUERY_EXTRACT_TOTAL_TIMEOUT_SECONDS must be greater than zero.''
      else None)"

abbreviation query_settings_ok :: "query_settings \<Rightarrow> bool" where
  "query_settings_ok cfg \<equiv> query_settings_problem cfg = None"

lemma query_settings_okD:
  assumes "query_settings_ok cfg"
  shows "0 < qm_groq_rpm cfg" "0 < qm_groq_tpm cfg" "0 < qm_google_rpm cfg" "qm_models cfg \<noteq> []"
    "0 < qm_total_timeout cfg" "0 < qm_google_timeout cfg" "0 < qm_groq_timeout cfg" "64 \<le> qm_max_output cfg"
  using assms by (auto simp: query_settings_problem_def split: if_splits)


subsection \<open>What an answer is\<close>

lemma structured_json_text_ok:
  assumes "structured_json_text loads provider t = Inr u"
  shows "u = strip_json_fence t \<and> (\<exists>d. loads u = Inr (VDict d))"
  using assms by (auto simp: structured_json_text_def unavailable_def Let_def split: sum.splits pyval.splits py_error.splits)

lemma gemini_read_ok:
  assumes "gemini_read loads model payload m = (Inr u, m')"
  shows "\<exists>t d. u = strip_json_fence t \<and> loads u = Inr (VDict d)"
  using assms by (auto simp: gemini_read_def read_candidate_def unavailable_def Let_def
      dest!: structured_json_text_ok split: if_splits pyval.splits list.splits sum.splits)

lemma groq_read_ok:
  assumes "groq_read loads model payload m = (Inr u, m')"
  shows "\<exists>t d. u = strip_json_fence t \<and> loads u = Inr (VDict d)"
  using assms by (auto simp: groq_read_def unavailable_def Let_def
      dest!: structured_json_text_ok split: if_splits sum.splits py_error.splits)

lemma read_exchange_ok:
  assumes "read_exchange provider model failed deadline after reader m x = (Inr u, m')"
  shows "\<exists>r payload. x = Response r \<and> re_json r = Some (VDict payload) \<and> \<not> (400 \<le> re_status r \<and> re_status r < 600)
    \<and> reader payload m = (Inr u, m')"
  using assms by (auto simp: read_exchange_def response_payload_def unavailable_def split: exchange.splits if_splits sum.splits option.splits pyval.splits)

lemma provider_chat_ok:
  assumes "provider_chat cfg deadline env provider model c = (Inr u, m)"
  shows "(\<exists>t. exchange_timeout cfg deadline env provider = Some t \<and> ae_before env + t \<le> deadline) \<and> (\<exists>d. qm_loads cfg u = Inr (VDict d))"
proof (cases "provider = ''groq''")
  case True
  then have run: "groq_chat cfg (Some deadline) (ae_before env) (ae_after env) (ae_post env) model (ch_system c) (ch_user c) (ch_schema c) (ch_temperature c) = (Inr u, m)"
    using assms by (simp add: provider_chat_def)
  then obtain t where t: "qm_groq_key cfg \<noteq> []" "effective_timeout (Some deadline) (ae_before env) (qm_groq_timeout cfg) = Inr t"
    by (auto simp: groq_chat_def unavailable_def Let_def split: if_splits sum.splits)
  then have "\<exists>d. qm_loads cfg u = Inr (VDict d)"
    using run by (auto simp: groq_chat_def Let_def dest!: read_exchange_ok groq_read_ok)
  then show ?thesis using t True by (auto simp: exchange_timeout_def effective_timeout_def split: if_splits)
next
  case False
  then have run: "gemini_chat cfg (Some deadline) (ae_before env) (ae_after env) (ae_post env) model (ch_system c) (ch_user c) (ch_schema c) (ch_temperature c) = (Inr u, m)"
    using assms by (simp add: provider_chat_def)
  then obtain t where t: "qm_google_key cfg \<noteq> []" "effective_timeout (Some deadline) (ae_before env) (qm_google_timeout cfg) = Inr t"
    by (auto simp: gemini_chat_def unavailable_def Let_def split: if_splits sum.splits)
  then have "\<exists>d. qm_loads cfg u = Inr (VDict d)"
    using run by (auto simp: gemini_chat_def Let_def dest!: read_exchange_ok gemini_read_ok)
  then show ?thesis using t False by (auto simp: exchange_timeout_def effective_timeout_def split: if_splits)
qed

lemma admit_keeps_posts:
  "admit_request cfg provider env s = Inr (x, s1) \<Longrightarrow> qs_posts s1 = qs_posts s"
  "admit_tokens cfg provider n env s = Inr (y, s2) \<Longrightarrow> qs_posts s2 = qs_posts s"
  by (auto simp: admit_request_def admit_tokens_def and_then_Inr case_prod_beta split: option.splits)

lemma attempted_status:
  "dget (attempted_metrics model provider status reason position (token_metrics cfg n) m) ''status'' = VStr status"
  "dget (attempted_metrics model provider status reason position [] m) ''status'' = VStr status"
  by (auto simp: attempted_metrics_def put_all_def token_metrics_def dget_upd split: option.splits)

lemma skipped_status: "dget (skipped model provider reason rest) ''status'' = VStr ''fallback''"
  by (simp add: skipped_def dget_def)

text \<open>The exchanges of one attempt: at most one, started before the deadline with a timeout that ends by it.\<close>

definition exchange_ok :: "query_settings \<Rightarrow> pyfloat \<Rightarrow> post_log \<Rightarrow> bool" where
  "exchange_ok cfg deadline x \<longleftrightarrow> po_started x < deadline \<and> po_started x + po_timeout x \<le> deadline
     \<and> po_timeout x \<le> (if po_provider x = ''groq'' then qm_groq_timeout cfg else qm_google_timeout cfg)"

lemma exchange_timeout_ok:
  assumes "exchange_timeout cfg deadline env provider = Some t"
  shows "exchange_ok cfg deadline \<lparr>po_provider = provider, po_admitted = a, po_started = ae_before env, po_timeout = t, po_tokens = n\<rparr>"
  using assms by (auto simp: exchange_ok_def exchange_timeout_def effective_timeout_def split: if_splits sum.splits)

lemma try_model_posts:
  assumes "try_model cfg deadline position model env c s = (r, s')"
  shows "\<exists>xs. qs_posts s' = qs_posts s @ xs \<and> length xs \<le> 1 \<and> (\<forall>x\<in>set xs. exchange_ok cfg deadline x)"
  using assms by (auto simp: try_model_def after_chat_def Let_def exchange_timeout_ok
      split: sum.splits prod.splits if_splits option.splits bool.splits dest!: admit_keeps_posts)

lemma try_model_answered:
  assumes "try_model cfg deadline position model env c s = (Answered u m, s')"
  shows "\<exists>provider pmodel d. query_model_route model = Inr (provider, pmodel) \<and> ae_start env < deadline
    \<and> fst (provider_chat cfg deadline env provider pmodel c) = Inr u \<and> qm_loads cfg u = Inr (VDict d)"
    and "dget m ''status'' = VStr ''success''"
proof -
  obtain provider pmodel where route: "query_model_route model = Inr (provider, pmodel)" and early: "ae_start env < deadline"
    using assms by (auto simp: try_model_def over_deadline_def split: sum.splits if_splits)
  define answer where "answer = provider_chat cfg deadline env provider pmodel c"
  obtain n where res: "chat_result cfg position model provider n answer = Answered u m"
    using assms route early by (auto simp: try_model_def answer_def Let_def rate_limited_def token_limited_def
        split: sum.splits prod.splits if_splits option.splits bool.splits)
  obtain metrics where answer: "answer = (Inr u, metrics)"
    and m: "m = attempted_metrics model provider ''success'' None position (token_metrics cfg n) metrics"
    using res by (auto simp: chat_result_def split: prod.splits sum.splits query_error.splits py_error.splits)
  show "\<exists>provider pmodel d. query_model_route model = Inr (provider, pmodel) \<and> ae_start env < deadline
    \<and> fst (provider_chat cfg deadline env provider pmodel c) = Inr u \<and> qm_loads cfg u = Inr (VDict d)"
    using route early answer provider_chat_ok unfolding answer_def by fastforce
  show "dget m ''status'' = VStr ''success''" unfolding m by (rule attempted_status)
qed

lemma try_model_fell_back:
  assumes "try_model cfg deadline position model env c s = (FellBack why m, s')"
  shows "dget m ''status'' = VStr ''fallback''"
  using assms by (auto simp: try_model_def over_deadline_def rate_limited_def token_limited_def chat_result_def Let_def attempted_status skipped_status
      split: sum.splits prod.splits if_splits option.splits bool.splits query_error.splits py_error.splits)

subsection \<open>The chain\<close>

lemma publish_fields [simp]:
  "qs_posts (publish_metrics m ms as r s) = qs_posts s"
  "dget (qs_metrics (publish_metrics m ms as r s)) ''attempted_models'' = VList (map VStr ms)"
  "dget (qs_metrics (publish_metrics m ms as r s)) ''attempts'' = VList (map VDict as)"
  by (auto simp: publish_metrics_def put_all_def dget_upd split: option.split)

lemma chain_posts:
  assumes "chain cfg deadline c position xs attempted attempts reason s = (r, s')"
  shows "\<exists>ps. qs_posts s' = qs_posts s @ ps \<and> length ps \<le> length xs \<and> (\<forall>x\<in>set ps. exchange_ok cfg deadline x)"
  using assms
proof (induction xs arbitrary: s position attempted attempts reason)
  case Nil
  then show ?case by (intro exI [of _ "[]"]) simp
next
  case (Cons x xs)
  obtain model env where x: "x = (model, env)" by (metis prod.exhaust)
  obtain a s1 where run: "try_model cfg deadline position model env c s = (a, s1)" by (metis prod.exhaust)
  obtain ps where ps: "qs_posts s1 = qs_posts s @ ps" "length ps \<le> 1" "\<forall>x\<in>set ps. exchange_ok cfg deadline x"
    using try_model_posts [OF run] by blast
  show ?case
  proof (cases a)
    case (FellBack why m)
    then have "chain cfg deadline c (Suc position) xs (attempted @ [model]) (attempts @ [m]) (Some why)
        (publish_metrics m (attempted @ [model]) (attempts @ [m]) (Some why) s1) = (r, s')"
      using Cons.prems run by (simp add: x)
    from Cons.IH [OF this] obtain qs where "qs_posts s' = qs_posts s1 @ qs" "length qs \<le> length xs" "\<forall>x\<in>set qs. exchange_ok cfg deadline x"
      by auto
    then show ?thesis using ps by (intro exI [of _ "ps @ qs"]) auto
  qed (use Cons.prems run ps x in \<open>auto intro!: exI [of _ ps] split: option.splits\<close>)
qed

definition answered_by :: "query_settings \<Rightarrow> pyfloat \<Rightarrow> chat_call \<Rightarrow> string \<Rightarrow> attempt_env \<Rightarrow> string \<Rightarrow> bool" where
  "answered_by cfg deadline c model env u \<longleftrightarrow> (\<exists>provider pmodel d. query_model_route model = Inr (provider, pmodel) \<and> ae_start env < deadline
     \<and> fst (provider_chat cfg deadline env provider pmodel c) = Inr u \<and> qm_loads cfg u = Inr (VDict d))"

lemma chain_answered:
  assumes "chain cfg deadline c position xs attempted attempts reason s = (Inr u, s')"
  shows "\<exists>i<length xs. \<exists>ms. answered_by cfg deadline c (fst (xs ! i)) (snd (xs ! i)) u
    \<and> dget (qs_metrics s') ''attempted_models'' = VList (map VStr (attempted @ take (Suc i) (map fst xs)))
    \<and> dget (qs_metrics s') ''attempts'' = VList (map VDict (attempts @ ms)) \<and> length ms = Suc i
    \<and> dget (ms ! i) ''status'' = VStr ''success'' \<and> (\<forall>j<i. dget (ms ! j) ''status'' = VStr ''fallback'')"
  using assms
proof (induction xs arbitrary: s position attempted attempts reason)
  case (Cons x xs)
  obtain model env where x: "x = (model, env)" by (metis prod.exhaust)
  obtain a s1 where run: "try_model cfg deadline position model env c s = (a, s1)" by (metis prod.exhaust)
  show ?case
  proof (cases a)
    case (Answered body m)
    then have u: "body = u" "s' = publish_metrics m (attempted @ [model]) (attempts @ [m]) None s1"
      using Cons.prems run by (simp_all add: x)
    have "answered_by cfg deadline c model env u"
      using try_model_answered(1) [OF run [unfolded Answered]] unfolding answered_by_def u by blast
    moreover have "dget m ''status'' = VStr ''success''" using try_model_answered(2) [OF run [unfolded Answered]] .
    ultimately show ?thesis by (intro exI [of _ 0] conjI exI [of _ "[m]"]) (simp_all add: x u)
  next
    case (FellBack why m)
    then have "chain cfg deadline c (Suc position) xs (attempted @ [model]) (attempts @ [m]) (Some why)
        (publish_metrics m (attempted @ [model]) (attempts @ [m]) (Some why) s1) = (Inr u, s')"
      using Cons.prems run by (simp add: x)
    from Cons.IH [OF this] obtain i ms where i: "i < length xs" "answered_by cfg deadline c (fst (xs ! i)) (snd (xs ! i)) u"
      "dget (qs_metrics s') ''attempted_models'' = VList (map VStr ((attempted @ [model]) @ take (Suc i) (map fst xs)))"
      "dget (qs_metrics s') ''attempts'' = VList (map VDict ((attempts @ [m]) @ ms))" "length ms = Suc i"
      "dget (ms ! i) ''status'' = VStr ''success''" "\<forall>j<i. dget (ms ! j) ''status'' = VStr ''fallback''"
      by blast
    have "dget ((m # ms) ! j) ''status'' = VStr ''fallback''" if "j < Suc i" for j
      using that i(7) try_model_fell_back [OF run [unfolded FellBack]] by (cases j) auto
    then show ?thesis using i by (intro exI [of _ "Suc i"] conjI exI [of _ "m # ms"]) (simp_all add: x)
  qed (use Cons.prems run x in \<open>auto split: option.splits\<close>)
qed simp

lemma structured_chat_answered:
  assumes "structured_chat cfg now envs model c s = (Inr u, s')"
  shows "\<exists>i<length (models_for cfg model). \<exists>ms. answered_by cfg (now + qm_total_timeout cfg) c (models_for cfg model ! i) (envs (Suc i)) u
    \<and> dget (qs_metrics s') ''attempted_models'' = VList (map VStr (take (Suc i) (models_for cfg model)))
    \<and> dget (qs_metrics s') ''attempts'' = VList (map VDict ms) \<and> length ms = Suc i
    \<and> dget (ms ! i) ''status'' = VStr ''success'' \<and> (\<forall>j<i. dget (ms ! j) ''status'' = VStr ''fallback'')"
proof -
  let ?ms = "models_for cfg model"
  let ?xs = "zip ?ms (map envs [1..<Suc (length ?ms)])"
  have run: "chain cfg (now + qm_total_timeout cfg) c 1 ?xs [] [] None s = (Inr u, s')"
    using assms by (simp add: structured_chat_def Let_def del: upt_Suc split: if_splits)
  have len: "length ?xs = length ?ms" "map fst ?xs = ?ms" by (simp_all del: upt_Suc)
  have at: "fst (?xs ! i) = ?ms ! i" "snd (?xs ! i) = envs (Suc i)" if "i < length ?ms" for i using that by (simp_all del: upt_Suc)
  show ?thesis using chain_answered [OF run] unfolding len append_Nil by (metis at)
qed


theorem query_exchanges_bounded:
  assumes "structured_chat cfg now envs model c s = (r, s')"
  shows "\<exists>ps. qs_posts s' = qs_posts s @ ps \<and> length ps \<le> length (models_for cfg model)
    \<and> (\<forall>x\<in>set ps. exchange_ok cfg (now + qm_total_timeout cfg) x)"
proof (cases "qm_models cfg = []")
  case True
  then show ?thesis using assms by (intro exI [of _ "[]"]) (simp add: structured_chat_def)
next
  case False
  let ?ms = "models_for cfg model"
  let ?xs = "zip ?ms (map envs [1..<Suc (length ?ms)])"
  have "chain cfg (now + qm_total_timeout cfg) c 1 ?xs [] [] None s = (r, s')"
    using assms False by (simp add: structured_chat_def Let_def del: upt_Suc)
  from chain_posts [OF this] show ?thesis by (simp del: upt_Suc)
qed

subsection \<open>Planning survives the models\<close>

text \<open>What \<open>json.loads\<close> raises is caught by the planner.\<close>

definition loads_caught :: "query_settings \<Rightarrow> bool" where
  "loads_caught cfg \<longleftrightarrow> (\<forall>t e. qm_loads cfg t = Inl e \<longrightarrow> planner_catches e)"

lemma limiter_errors_caught:
  "admit_request cfg provider env s = Inl e \<Longrightarrow> planner_catches e"
  "admit_tokens cfg provider n env s = Inl e \<Longrightarrow> planner_catches e"
  by (auto simp: admit_request_def admit_tokens_def query_model_limiter_def query_model_token_limiter_def and_then_def
      window_limiter_init_def token_limiter_init_def token_allow_def planner_catches_def map_sum_def
      split: option.splits if_splits sum.splits prod.splits)

lemma structured_json_caught: "loads_caught cfg \<Longrightarrow> structured_json_text (qm_loads cfg) p t = Inl (Raised e) \<Longrightarrow> planner_catches e"
  by (auto simp: structured_json_text_def unavailable_def loads_caught_def Let_def split: sum.splits pyval.splits py_error.splits)

lemma planner_catches_simps [simp]:
  "planner_catches (RuntimeError m)" "planner_catches (ValueError m)" "planner_catches (TypeError m)"
  by (simp_all add: planner_catches_def)

lemma readers_caught:
  assumes "loads_caught cfg"
  shows "gemini_read (qm_loads cfg) model payload m = (Inl (Raised e), m') \<Longrightarrow> planner_catches e"
    and "groq_read (qm_loads cfg) model payload m = (Inl (Raised e), m') \<Longrightarrow> planner_catches e"
  by (auto simp: gemini_read_def read_candidate_def groq_read_def unavailable_def google_failed_def groq_failed_def Let_def
      intro: structured_json_caught [OF assms] split: if_splits pyval.splits list.splits sum.splits py_error.splits)

lemma exchange_caught:
  assumes "read_exchange provider model failed deadline after reader m x = (Inl (Raised e), m')"
    and "\<And>payload m m'. reader payload m = (Inl (Raised e), m') \<Longrightarrow> planner_catches e"
    and "\<And>f. failed = Raised f \<Longrightarrow> planner_catches f"
  shows "planner_catches e"
  using assms by (auto simp: read_exchange_def response_payload_def http_status_error_def unavailable_def Let_def
      split: exchange.splits if_splits sum.splits option.splits pyval.splits)

lemma chat_caught:
  assumes "loads_caught cfg" and "fst (provider_chat cfg deadline env provider model c) = Inl (Raised e)"
  shows "planner_catches e"
proof -
  obtain m where run: "provider_chat cfg deadline env provider model c = (Inl (Raised e), m)" using assms(2) by (metis prod.collapse)
  have google: "google_failed model = Raised f \<Longrightarrow> planner_catches f" and groq: "groq_failed model = Raised f \<Longrightarrow> planner_catches f" for f
    by (auto simp: google_failed_def groq_failed_def)
  show ?thesis
  proof (cases "provider = ''groq''")
    case True
    then show ?thesis using run
      by (auto simp: provider_chat_def groq_chat_def unavailable_def effective_timeout_def Let_def split: if_splits
          dest!: exchange_caught [OF _ readers_caught(2) [OF assms(1)] groq])
  next
    case False
    then show ?thesis using run
      by (auto simp: provider_chat_def gemini_chat_def unavailable_def effective_timeout_def Let_def split: if_splits
          dest!: exchange_caught [OF _ readers_caught(1) [OF assms(1)] google])
  qed
qed

lemma route_caught: "query_model_route model = Inl e \<Longrightarrow> planner_catches e"
  by (auto simp: query_model_route_def and_then_def Let_def split: sum.splits if_splits)

lemma chat_result_caught:
  assumes "loads_caught cfg" and "chat_result cfg position model provider n (provider_chat cfg deadline env provider pm c) = Failed e m"
  shows "planner_catches e"
  using assms(2) chat_caught [OF assms(1), of deadline env provider pm c]
  by (auto simp: chat_result_def split: prod.splits sum.splits query_error.splits py_error.splits)

lemma try_model_caught:
  assumes "loads_caught cfg" and "try_model cfg deadline position model env c s = (Failed e m, s')"
  shows "planner_catches e"
  using assms(2) by (auto simp: try_model_def over_deadline_def rate_limited_def token_limited_def Let_def
      dest: route_caught limiter_errors_caught chat_result_caught [OF assms(1)] split: sum.splits prod.splits if_splits option.splits bool.splits)

lemma chain_caught:
  assumes "loads_caught cfg" and "chain cfg deadline c position xs attempted attempts reason s = (Inl e, s')"
  shows "planner_catches e"
  using assms(2)
proof (induction xs arbitrary: s position attempted attempts reason)
  case (Cons x xs)
  obtain model env where x: "x = (model, env)" by (metis prod.exhaust)
  obtain a s1 where run: "try_model cfg deadline position model env c s = (a, s1)" by (metis prod.exhaust)
  show ?case
  proof (cases a)
    case (Failed f m)
    then show ?thesis using Cons.prems run try_model_caught [OF assms(1)] by (auto simp: x)
  qed (use Cons run x in \<open>auto simp: all_unavailable_def\<close>)
qed (auto simp: all_unavailable_def)

text \<open>The model the planner asks: \<open>structured_chat\<close> with the first configured model.\<close>

definition hosted_model :: "query_settings \<Rightarrow> pyfloat \<Rightarrow> (nat \<Rightarrow> attempt_env) \<Rightarrow> pyval \<Rightarrow> pyfloat \<Rightarrow> query_state \<Rightarrow> string \<Rightarrow> string \<Rightarrow> py_error + string" where
  "hosted_model cfg now envs schema temperature s system user = fst (structured_chat cfg now envs (hd (qm_models cfg))
     \<lparr>ch_system = system, ch_user = user, ch_schema = schema, ch_temperature = temperature\<rparr> s)"

lemma structured_chat_caught:
  "loads_caught cfg \<Longrightarrow> structured_chat cfg now envs model c s = (Inl e, s') \<Longrightarrow> planner_catches e"
  by (auto simp: structured_chat_def Let_def simp del: upt_Suc split: if_splits dest: chain_caught)

lemma parsed_when_hashable:
  "loads body = Inr (VDict d) \<Longrightarrow> \<not> Planner_Catalog.unhashable (dget d ''target_ad_type'')
    \<Longrightarrow> \<exists>p. parse_query_plan loads body query = Inr p \<and> fallback_reason p = None"
  by (simp add: parse_query_plan_def Let_def split: prod.split)


subsection \<open>A concrete chain\<close>

text \<open>Groq is down (HTTP 503) and Google answers with a fenced object.\<close>

definition sample_query_settings :: query_settings where
  "sample_query_settings = \<lparr>qm_models = [''groq:oss'', ''flash''], qm_groq_rpm = 1, qm_google_rpm = 5, qm_groq_tpm = 8000, qm_max_output = 64,
     qm_total_timeout = 10, qm_google_timeout = 8, qm_groq_timeout = 3, qm_google_key = ''k'', qm_groq_key = ''k'',
     qm_google_url = ''https://google'', qm_groq_url = ''https://groq'', qm_thinking = ''minimal'', qm_redis = False,
     qm_dumps = (\<lambda>v. ''{}''), qm_loads = (\<lambda>t. if t = ''{}'' then Inr (VDict []) else Inl (ValueError ''json''))\<rparr>"

definition sample_exchange :: "chat_request \<Rightarrow> exchange" where
  "sample_exchange r = (if starts_with (cq_url r) ''https://groq'' then Response \<lparr>re_status = 503, re_json = None\<rparr>
     else Response \<lparr>re_status = 200, re_json = Some (VDict [(''candidates'', VList [VDict [(''content'',
       VDict [(''parts'', VList [VDict [(''text'', VStr (''```json'' @ [CHR 0x0A] @ ''{}'' @ [CHR 0x0A] @ ''```''))]])])]])])\<rparr>)"

definition sample_env :: "pyfloat \<Rightarrow> nat \<Rightarrow> attempt_env" where
  "sample_env now i = \<lparr>ae_start = now + of_nat i, ae_window = (None, now + of_nat i), ae_tokens = (None, now + of_nat i),
     ae_before = now + of_nat i, ae_post = sample_exchange, ae_after = now + of_nat i\<rparr>"

definition sample_chat :: chat_call where
  "sample_chat = \<lparr>ch_system = ''s'', ch_user = ''u'', ch_schema = VDict [], ch_temperature = 0\<rparr>"

lemma sample_estimate: "estimate_groq_request_tokens sample_query_settings ''s'' ''u'' (VDict []) = 129"
  by (simp add: estimate_groq_request_tokens_def sample_query_settings_def ceil_quarter_def Let_def)

lemma sample_routes: "query_model_route ''groq:oss'' = Inr (''groq'', ''oss'')" "query_model_route ''flash'' = Inr (''google'', ''flash'')"
  by code_simp+

definition sample_queries :: "query_call list" where
  "sample_queries = [(0, sample_env 0, ''groq:oss'', sample_chat), (5, sample_env 5, ''groq:oss'', sample_chat)]"

lemma sample_envs: "concat (map (call_envs sample_query_settings) sample_queries) = [sample_env 0 1, sample_env 0 2, sample_env 5 1, sample_env 5 2]"
  by (simp add: sample_queries_def call_envs_def models_for_def sample_query_settings_def upt_conv_Cons numeral_2_eq_2)

lemma sample_settings_ok: "query_settings_ok sample_query_settings"
  by code_simp


lemma sample_run:
  "\<exists>s'. structured_chat sample_query_settings 0 (sample_env 0) ''groq:oss'' sample_chat query_start = (Inr ''{}'', s') \<and> length (qs_posts s') = 2"
proof -
  have "fst (structured_chat sample_query_settings 0 (sample_env 0) ''groq:oss'' sample_chat query_start) = Inr ''{}''"
    "length (qs_posts (snd (structured_chat sample_query_settings 0 (sample_env 0) ''groq:oss'' sample_chat query_start))) = 2"
    by code_simp+
  then show ?thesis by (metis prod.collapse)
qed


theorem query_exchanges_bounded_witness:
  "\<exists>s' ps. snd (structured_chat sample_query_settings 0 (sample_env 0) ''groq:oss'' sample_chat query_start) = s' \<and> qs_posts s' = ps
     \<and> length ps = 2 \<and> (\<forall>x\<in>set ps. exchange_ok sample_query_settings 10 x)"
proof -
  obtain s' where run: "structured_chat sample_query_settings 0 (sample_env 0) ''groq:oss'' sample_chat query_start = (Inr ''{}'', s')"
    and two: "length (qs_posts s') = 2" using sample_run by blast
  have start: "qs_posts query_start = []" "0 + qm_total_timeout sample_query_settings = 10"
    by (simp_all add: query_start_def sample_query_settings_def)
  show ?thesis using query_exchanges_bounded [OF run] run two unfolding start by auto
qed


end
