(* ===== verification/Tenant_Config.thy ===== *)
theory Tenant_Config
  imports Gainr_Requests Query_Provider
begin

text \<open>
  The tenant profiles of \<open>core/tenant_config.py\<close>: a parsed YAML document and the environment become a
  profile or an error, section by section in the order of the code, with the checks of the
  configuration classes (also those of \<open>storage/mysql.py\<close> and \<open>storage/postgres.py\<close>) and the tenant
  plugins of \<open>tenants/registry.py\<close>. Keys of a document are texts; a path stays the text that was
  configured; every float is finite.
\<close>

named_theorems config_facts \<open>facts of the tenant configuration\<close>

text \<open>A sequence of checks is evaluated one by one: the rest is looked at once the first has its value.\<close>

declare and_then_def [code_unfold]

subsection \<open>Reading a section\<close>

type_synonym environment = "string \<Rightarrow> string option"

text \<open>\<open>dict(v)\<close>\<close>

definition pair_of :: "pyval \<Rightarrow> py_error + string \<times> pyval" where
  "pair_of v = (case v of
     VList [VStr k, w] \<Rightarrow> Inr (k, w)
   | VStr [a, b] \<Rightarrow> Inr ([a], VStr [b])
   | VList _ \<Rightarrow> Inl (ValueError ''dictionary update sequence'')
   | VStr _ \<Rightarrow> Inl (ValueError ''dictionary update sequence'')
   | _ \<Rightarrow> Inl (TypeError ''cannot convert dictionary update sequence element''))"

definition dict_of :: "pyval \<Rightarrow> py_error + pydict" where
  "dict_of v = (case v of
     VDict d \<Rightarrow> Inr d
   | VList xs \<Rightarrow> map_sum id (\<lambda>ps. put_all ps []) (map_ok pair_of xs)
   | VStr s \<Rightarrow> if s = [] then Inr [] else Inl (ValueError ''dictionary update sequence'')
   | _ \<Rightarrow> Inl (TypeError ''object is not iterable''))"

definition section_of :: "pydict \<Rightarrow> string \<Rightarrow> py_error + pydict" where
  "section_of raw key = dict_of (dget_or raw key (VDict []))"

definition yaml_text :: "pydict \<Rightarrow> string \<Rightarrow> string \<Rightarrow> string" where
  "yaml_text d key default_text = strip (py_str (dget_or d key (VStr default_text)))"

definition yaml_bool :: "pydict \<Rightarrow> string \<Rightarrow> bool \<Rightarrow> bool" where
  "yaml_bool d key default_value = truthy (dget_or d key (VBool default_value))"

definition int_of :: "pyval \<Rightarrow> py_error + int" where
  "int_of v = (case to_int v of Some i \<Rightarrow> Inr i
     | None \<Rightarrow> Inl (case v of VStr _ \<Rightarrow> ValueError ''invalid literal for int()'' | _ \<Rightarrow> TypeError ''int()''))"

definition float_of :: "pyval \<Rightarrow> py_error + pyfloat" where
  "float_of v = (case to_float v of Some q \<Rightarrow> Inr q
     | None \<Rightarrow> Inl (case v of VStr _ \<Rightarrow> ValueError ''could not convert string to float'' | _ \<Rightarrow> TypeError ''float()''))"

definition yaml_int :: "pydict \<Rightarrow> string \<Rightarrow> int \<Rightarrow> py_error + int" where
  "yaml_int d key default_value = int_of (dget_or d key (VInt default_value))"

definition yaml_float :: "pydict \<Rightarrow> string \<Rightarrow> pyfloat \<Rightarrow> py_error + pyfloat" where
  "yaml_float d key default_value = float_of (dget_or d key (VFloat default_value))"

definition env_name :: "pydict \<Rightarrow> string \<Rightarrow> string \<Rightarrow> py_error + string" where
  "env_name d key default_name = (let v = yaml_text d key default_name in
     if v = [] then Inl (ValueError ''Environment-variable name must not be empty'') else Inr v)"

definition env_value :: "environment \<Rightarrow> pydict \<Rightarrow> string \<Rightarrow> string \<Rightarrow> string \<Rightarrow> py_error + string" where
  "env_value env d key default_name default_value =
     map_sum id (\<lambda>name. case env name of None \<Rightarrow> default_value | Some v \<Rightarrow> v) (env_name d key default_name)"

definition db_identifier :: "pydict \<Rightarrow> string \<Rightarrow> string \<Rightarrow> py_error + string" where
  "db_identifier d key default_name = (let v = yaml_text d key default_name in
     if v = [] \<or> CHR 0x00 \<in> set v then Inl (ValueError ''Database identifier must not be empty'') else Inr v)"

definition optional_identifier :: "pydict \<Rightarrow> string \<Rightarrow> py_error + string" where
  "optional_identifier d key = (let v = yaml_text d key [] in
     if CHR 0x00 \<in> set v then Inl (ValueError ''Database identifier is invalid'') else Inr v)"

definition as_dict :: "pyval \<Rightarrow> string \<Rightarrow> py_error + pydict" where
  "as_dict v message = (case v of VDict d \<Rightarrow> Inr d | _ \<Rightarrow> Inl (ValueError message))"

definition check :: "bool \<Rightarrow> string \<Rightarrow> py_error + unit" where
  "check ok message = (if ok then Inr () else Inl (ValueError message))"

subsection \<open>Names\<close>

definition is_lower :: "char \<Rightarrow> bool" where
  "is_lower c \<longleftrightarrow> 97 \<le> code_of c \<and> code_of c \<le> 122"

definition is_upper :: "char \<Rightarrow> bool" where
  "is_upper c \<longleftrightarrow> 65 \<le> code_of c \<and> code_of c \<le> 90"

text \<open>\<open>TENANT_ID_RE\<close> and the pattern of a safe identifier\<close>

definition tenant_id_ok :: "string \<Rightarrow> bool" where
  "tenant_id_ok s \<longleftrightarrow> (case s of [] \<Rightarrow> False
     | c # cs \<Rightarrow> (is_lower c \<or> is_digit c) \<and> length cs \<le> 62
         \<and> list_all (\<lambda>x. is_lower x \<or> is_digit x \<or> x = CHR ''_'' \<or> x = CHR ''-'') cs)"

definition safe_identifier :: "string \<Rightarrow> bool" where
  "safe_identifier s \<longleftrightarrow> (case s of [] \<Rightarrow> False
     | c # cs \<Rightarrow> (is_lower c \<or> is_upper c \<or> c = CHR ''_'') \<and> length cs \<le> 62
         \<and> list_all (\<lambda>x. is_lower x \<or> is_upper x \<or> is_digit x \<or> x = CHR ''_'') cs)"

definition validate_tenant_id :: "string \<Rightarrow> py_error + string" where
  "validate_tenant_id v = (let t = casefold (strip v) in
     if tenant_id_ok t then Inr t else Inl (ValueError ''Unsafe company id''))"

subsection \<open>Tenant plugins\<close>

record tenant_plugin =
  pl_name :: string
  pl_planner_adapter :: string
  pl_search_policy :: string
  pl_policies :: "string list"
  pl_adapters :: "string list"

definition tenant_plugins :: "(string, tenant_plugin) dict" where
  "tenant_plugins = [
     (''default'', \<lparr>pl_name = ''default'', pl_planner_adapter = ''default'', pl_search_policy = ''default'',
        pl_policies = [''default''], pl_adapters = []\<rparr>),
     (''gainr'', \<lparr>pl_name = ''gainr'', pl_planner_adapter = ''gainr'', pl_search_policy = ''gainr'',
        pl_policies = [''gainr''], pl_adapters = [''gainr_legacy'']\<rparr>)]"

definition supported_compatibility_adapters :: "string list" where
  "supported_compatibility_adapters = sort (concat (map (\<lambda>(n, p). pl_adapters p) tenant_plugins))"

definition get_tenant_plugin :: "string \<Rightarrow> py_error + tenant_plugin" where
  "get_tenant_plugin name = (let n = casefold (strip name); key = (if n = [] then ''default'' else n) in
     case map_of tenant_plugins key of None \<Rightarrow> Inl (ValueError ''Unsupported tenant plugin'') | Some p \<Rightarrow> Inr p)"

definition plugin_for_search_policy :: "string \<Rightarrow> py_error + tenant_plugin option" where
  "plugin_for_search_policy name =
     (case filter (\<lambda>p. casefold (strip name) \<in> set (pl_policies p)) (map snd tenant_plugins) of
        [] \<Rightarrow> Inr None
      | [p] \<Rightarrow> Inr (Some p)
      | _ \<Rightarrow> Inl (RuntimeError ''Search policy is registered by multiple plugins''))"

definition plugin_of :: "pydict \<Rightarrow> py_error + tenant_plugin" where
  "plugin_of company =
     (let plugin = casefold (yaml_text company ''plugin'' []); policy = casefold (yaml_text company ''search_policy'' []) in
      if plugin \<noteq> [] then get_tenant_plugin plugin
      else if policy \<noteq> []
      then and_then (plugin_for_search_policy policy) (\<lambda>p. case p of
          None \<Rightarrow> Inl (ValueError ''Tenant has unsupported search_policy'') | Some q \<Rightarrow> Inr q)
      else get_tenant_plugin ''default'')"

record company_part =
  cp_id :: string
  cp_plugin :: tenant_plugin
  cp_adapter :: string
  cp_policy :: string

definition load_company :: "string \<Rightarrow> pydict \<Rightarrow> py_error + company_part" where
  "load_company stem raw =
     and_then (section_of raw ''company'') (\<lambda>company.
     and_then (validate_tenant_id (py_str (dget_or company ''id'' (VStr stem)))) (\<lambda>cid.
     and_then (check (cid = stem) ''Tenant profile declares another company.id'') (\<lambda>_.
     and_then (plugin_of company) (\<lambda>plugin.
       let adapter = yaml_text company ''planner_adapter'' (pl_planner_adapter plugin);
           configured = casefold (yaml_text company ''search_policy'' []);
           policy = (if configured = [] then pl_search_policy plugin else configured) in
     and_then (check (adapter \<noteq> []) ''Tenant must configure planner_adapter'') (\<lambda>_.
     and_then (check (tenant_id_ok policy) ''Tenant has invalid search_policy'') (\<lambda>_.
     and_then (check (policy \<in> set (pl_policies plugin)) ''Tenant plugin does not own search_policy'') (\<lambda>_.
       Inr \<lparr>cp_id = cid, cp_plugin = plugin, cp_adapter = adapter, cp_policy = policy\<rparr>)))))))"

subsection \<open>The planner section\<close>

record planner_part =
  pn_enabled :: bool
  pn_context :: string
  pn_aliases :: "(string, string) dict"

definition read_alias :: "string \<times> pyval \<Rightarrow> py_error + string \<times> string" where
  "read_alias kv = (let source = norm_text (fst kv); target = norm_text (py_str (snd kv)) in
     if source = [] \<or> target = [] \<or> 100 < length source \<or> 200 < length target
     then Inl (ValueError ''Tenant has an invalid planner query alias'') else Inr (source, target))"

definition put_texts :: "(string \<times> string) list \<Rightarrow> (string, string) dict \<Rightarrow> (string, string) dict" where
  "put_texts new m = fold (\<lambda>(k, v). AList.update k v) new m"

definition load_planner :: "pydict \<Rightarrow> py_error + planner_part" where
  "load_planner raw =
     and_then (section_of raw ''planner'') (\<lambda>planner.
       let prompt = yaml_text planner ''prompt_context'' [] in
     and_then (check (length prompt \<le> 4000) ''Tenant planner prompt context exceeds 4000 characters'') (\<lambda>_.
     and_then (as_dict (dget_or planner ''query_aliases'' (VDict [])) ''Tenant planner query_aliases must be an object'') (\<lambda>aliases.
     and_then (check (length aliases \<le> 500) ''Tenant planner query_aliases exceeds 500 entries'') (\<lambda>_.
     and_then (map_ok read_alias aliases) (\<lambda>pairs.
       Inr \<lparr>pn_enabled = yaml_bool planner ''enabled'' True, pn_context = prompt, pn_aliases = put_texts pairs []\<rparr>)))))"

subsection \<open>The database section\<close>

text \<open>The fields that \<open>MySQLRuntimeConfig\<close> and \<open>PostgresRuntimeConfig\<close> share, and the two classes\<close>

record db_values =
  db_host :: string
  db_port :: int
  db_database :: string
  db_user :: string
  db_password :: string
  db_search_table :: string
  db_content_column :: string
  db_bm25_column :: string
  db_search_id_column :: string
  db_result_table :: string
  db_result_id_column :: string
  db_result_type_column :: string
  db_connect_timeout :: int
  db_read_timeout :: int
  db_write_timeout :: int
  db_statement_ms :: int
  db_pool_min :: int
  db_pool_max :: int
  db_pool_timeout :: pyfloat
  db_pool_validation :: pyfloat
  db_tls_mode :: string
  db_tls_ca :: string
  db_tls_cert :: string
  db_tls_key :: string
  db_namespace :: string

datatype company_database =
    MySQL (database_values: db_values) (active_column: string)
  | Postgres (database_values: db_values) (schema_name: string)

fun is_postgres :: "company_database \<Rightarrow> bool" where
  "is_postgres (Postgres v s) = True"
| "is_postgres (MySQL v a) = False"

definition mysql_tls_modes :: "string list" where
  "mysql_tls_modes = [''disable'', ''prefer'', ''require'', ''verify-ca'', ''verify-full'']"

definition postgres_tls_modes :: "string list" where
  "postgres_tls_modes = [''disable'', ''allow'', ''prefer'', ''require'', ''verify-ca'', ''verify-full'']"

definition db_problem :: "string list \<Rightarrow> db_values \<Rightarrow> string option" where
  "db_problem modes v =
     (if min (min (db_connect_timeout v) (db_read_timeout v)) (db_write_timeout v) \<le> 0
      then Some ''connection timeouts must be greater than zero''
      else if db_statement_ms v < 0 then Some ''statement_timeout_ms must not be negative''
      else if db_pool_min v < 0 \<or> db_pool_max v \<le> 0 \<or> db_pool_max v < db_pool_min v
      then Some ''Invalid connection pool size''
      else if db_pool_timeout v \<le> 0 then Some ''pool_timeout_seconds must be greater than zero''
      else if db_pool_validation v \<le> 0 then Some ''pool_validation_interval_seconds must be greater than zero''
      else if db_tls_mode v \<notin> set modes then Some ''Unsupported TLS mode''
      else None)"

definition no_problem :: "string option \<Rightarrow> py_error + unit" where
  "no_problem r = (case r of None \<Rightarrow> Inr () | Some m \<Rightarrow> Inl (ValueError m))"

definition make_mysql :: "db_values \<Rightarrow> string \<Rightarrow> py_error + company_database" where
  "make_mysql v active = and_then (no_problem (db_problem mysql_tls_modes v)) (\<lambda>_. Inr (MySQL v active))"

definition make_postgres :: "db_values \<Rightarrow> string \<Rightarrow> py_error + company_database" where
  "make_postgres v sch = and_then (no_problem (db_problem postgres_tls_modes v)) (\<lambda>_. Inr (Postgres v sch))"

definition read_database_values :: "environment \<Rightarrow> pydict \<Rightarrow> bool \<Rightarrow> py_error + db_values" where
  "read_database_values env d postgres =
     (let prefix = (if postgres then ''POSTGRES'' else ''MYSQL'') in
      and_then (section_of d ''timeouts'') (\<lambda>timeouts.
      and_then (section_of d ''pool'') (\<lambda>pool.
      and_then (section_of d ''tls'') (\<lambda>tls.
      and_then (env_value env d ''port_env'' (prefix @ ''_PORT'') (if postgres then ''5432'' else ''3306'')) (\<lambda>port_text.
      and_then (int_of (VStr port_text)) (\<lambda>port.
      and_then (env_value env d ''host_env'' (prefix @ ''_HOST'') ''localhost'') (\<lambda>host.
      and_then (env_value env d ''database_env'' (prefix @ ''_DATABASE'') []) (\<lambda>database.
      and_then (env_value env d ''user_env'' (prefix @ ''_USER'') []) (\<lambda>user.
      and_then (env_value env d ''password_env'' (prefix @ ''_PASSWORD'') []) (\<lambda>password.
      and_then (db_identifier d ''search_ready_table'' ''ads_search_ready'') (\<lambda>search_table.
      and_then (db_identifier d ''content_column'' ''embedding_content'') (\<lambda>content_column.
      and_then (db_identifier d ''bm25_column'' ''bm25_content'') (\<lambda>bm25_column.
      and_then (db_identifier d ''search_id_column'' ''id'') (\<lambda>search_id.
      and_then (db_identifier d ''result_table'' ''ads'') (\<lambda>result_table.
      and_then (db_identifier d ''result_id_column'' ''id'') (\<lambda>result_id.
      and_then (db_identifier d ''result_type_column'' ''type'') (\<lambda>result_type.
      and_then (yaml_int timeouts ''connect_seconds'' 10) (\<lambda>connect.
      and_then (yaml_int timeouts ''read_seconds'' 300) (\<lambda>reads.
      and_then (yaml_int timeouts ''write_seconds'' 300) (\<lambda>writes.
      and_then (yaml_int timeouts ''statement_timeout_ms'' 0) (\<lambda>statement.
      and_then (yaml_int pool ''min_size'' 0) (\<lambda>pool_min.
      and_then (yaml_int pool ''max_size'' 4) (\<lambda>pool_max.
      and_then (yaml_float pool ''timeout_seconds'' 5) (\<lambda>pool_timeout.
      and_then (yaml_float pool ''validation_interval_seconds'' 30) (\<lambda>validation.
      and_then (env_value env tls ''mode_env'' (prefix @ ''_TLS_MODE'')
          (py_str (dget_or tls ''mode'' (VStr (if postgres then ''prefer'' else ''disable''))))) (\<lambda>mode.
      and_then (env_value env tls ''ca_file_env'' (prefix @ ''_TLS_CA_FILE'') []) (\<lambda>ca.
      and_then (env_value env tls ''cert_file_env'' (prefix @ ''_TLS_CERT_FILE'') []) (\<lambda>cert.
      and_then (env_value env tls ''key_file_env'' (prefix @ ''_TLS_KEY_FILE'') []) (\<lambda>key.
      and_then (env_value env d ''index_namespace_env'' (prefix @ ''_INDEX_NAMESPACE'')
          (py_str (dget_or d ''index_namespace'' (VStr [])))) (\<lambda>namespace.
      Inr \<lparr>db_host = host, db_port = port, db_database = database, db_user = user, db_password = password,
           db_search_table = search_table, db_content_column = content_column, db_bm25_column = bm25_column,
           db_search_id_column = search_id, db_result_table = result_table, db_result_id_column = result_id,
           db_result_type_column = result_type, db_connect_timeout = connect, db_read_timeout = reads,
           db_write_timeout = writes, db_statement_ms = statement, db_pool_min = pool_min, db_pool_max = pool_max,
           db_pool_timeout = pool_timeout, db_pool_validation = validation, db_tls_mode = casefold (strip mode),
           db_tls_ca = ca, db_tls_cert = cert, db_tls_key = key, db_namespace = strip namespace\<rparr>))))))))))))))))))))))))))))))"

definition load_database :: "environment \<Rightarrow> pydict \<Rightarrow> py_error + company_database" where
  "load_database env raw =
     and_then (section_of raw ''database'') (\<lambda>d.
       let backend = casefold (yaml_text d ''backend'' ''mysql''); postgres = (backend = ''postgres'') in
     and_then (check (backend \<in> {''mysql'', ''postgres''}) ''Tenant has unsupported database backend'') (\<lambda>_.
     and_then (read_database_values env d postgres) (\<lambda>v.
     and_then (if postgres then and_then (db_identifier d ''schema'' ''public'') (make_postgres v)
               else and_then (optional_identifier d ''active_column'') (make_mysql v)) (\<lambda>db.
     and_then (check (db_database v \<noteq> []) ''Tenant database environment variable is empty'') (\<lambda>_.
     and_then (check (db_user v \<noteq> []) ''Tenant database user is empty'') (\<lambda>_.
       Inr db))))))"

subsection \<open>The storage section\<close>

record storage_config =
  sg_bm25_path :: string
  sg_vector_backend :: string
  sg_database :: "company_database option"
  sg_table :: string
  sg_dimensions :: int
  sg_hnsw_m :: int
  sg_hnsw_construction :: int
  sg_hnsw_search :: int
  sg_query_mode :: string
  sg_prewarm :: bool
  sg_prewarm_mode :: string

text \<open>\<open>_path(v)\<close> over the text of a path, given the project directory\<close>

definition path_of :: "string \<Rightarrow> pyval \<Rightarrow> py_error + string" where
  "path_of project v = (case v of
     VStr s \<Rightarrow> Inr (if starts_with s ''/'' then s else project @ ''/'' @ s)
   | _ \<Rightarrow> Inl (TypeError ''expected str, bytes or os.PathLike object''))"

text \<open>The dataclass defaults of \<open>PostgresRuntimeConfig\<close>\<close>

definition postgres_defaults :: "string \<Rightarrow> int \<Rightarrow> string \<Rightarrow> string \<Rightarrow> string \<Rightarrow> db_values" where
  "postgres_defaults host port database user password =
     \<lparr>db_host = host, db_port = port, db_database = database, db_user = user, db_password = password,
      db_search_table = ''ads_search_ready'', db_content_column = ''embedding_content'',
      db_bm25_column = ''bm25_content'', db_search_id_column = ''id'', db_result_table = ''ads'',
      db_result_id_column = ''id'', db_result_type_column = ''type'', db_connect_timeout = 10,
      db_read_timeout = 300, db_write_timeout = 300, db_statement_ms = 0, db_pool_min = 0, db_pool_max = 4,
      db_pool_timeout = 5, db_pool_validation = 30, db_tls_mode = ''prefer'', db_tls_ca = [], db_tls_cert = [],
      db_tls_key = [], db_namespace = []\<rparr>"

definition vector_database :: "environment \<Rightarrow> company_database \<Rightarrow> pydict \<Rightarrow> py_error + company_database" where
  "vector_database env company_db pg =
     (if truthy (dget_or pg ''use_company_database'' (VBool (is_postgres company_db)))
      then and_then (check (is_postgres company_db) ''pgvector use_company_database requires PostgreSQL'') (\<lambda>_.
             Inr company_db)
      else
        and_then (env_value env pg ''host_env'' ''PGVECTOR_HOST'' ''localhost'') (\<lambda>host.
        and_then (env_value env pg ''port_env'' ''PGVECTOR_PORT'' ''5432'') (\<lambda>port_text.
        and_then (int_of (VStr port_text)) (\<lambda>port.
        and_then (env_value env pg ''database_env'' ''PGVECTOR_DATABASE'' []) (\<lambda>database.
        and_then (env_value env pg ''user_env'' ''PGVECTOR_USER'' []) (\<lambda>user.
        and_then (env_value env pg ''password_env'' ''PGVECTOR_PASSWORD'' []) (\<lambda>password.
        and_then (db_identifier pg ''schema'' ''public'') (\<lambda>sch.
          make_postgres (postgres_defaults host port database user password) sch))))))))"

definition load_storage :: "string \<Rightarrow> environment \<Rightarrow> string \<Rightarrow> company_database \<Rightarrow> pydict \<Rightarrow> py_error + storage_config" where
  "load_storage project env cid company_db raw =
     and_then (section_of raw ''storage'') (\<lambda>storage.
       let backend = casefold (yaml_text storage ''vector_backend'' ''pgvector'') in
     and_then (check (backend = ''pgvector'') ''Tenant must use vector_backend pgvector'') (\<lambda>_.
     and_then (yaml_int storage ''vector_dimensions'' 768) (\<lambda>dims.
     and_then (check (0 < dims \<and> dims \<le> 2000) ''vector_dimensions must be between 1 and 2000'') (\<lambda>_.
     and_then (section_of storage ''pgvector'') (\<lambda>pg.
     and_then (vector_database env company_db pg) (\<lambda>vdb.
     and_then (db_identifier pg ''table'' (cid @ ''_search_vectors'')) (\<lambda>table.
     and_then (section_of pg ''hnsw'') (\<lambda>hnsw.
     and_then (yaml_int hnsw ''m'' 16) (\<lambda>m.
     and_then (yaml_int hnsw ''ef_construction'' 64) (\<lambda>construction.
     and_then (yaml_int hnsw ''ef_search'' 100) (\<lambda>ef_search.
       let query_mode = casefold (yaml_text pg ''query_mode'' ''legacy'');
           prewarm = yaml_bool pg ''prewarm_on_startup'' False;
           prewarm_mode = casefold (yaml_text pg ''prewarm_mode'' ''read'') in
     and_then (check (0 < m) ''pgvector hnsw.m must be positive'') (\<lambda>_.
     and_then (check (0 < construction) ''pgvector hnsw.ef_construction must be positive'') (\<lambda>_.
     and_then (check (0 < ef_search) ''pgvector hnsw.ef_search must be positive'') (\<lambda>_.
     and_then (check (query_mode \<in> {''legacy'', ''shadow'', ''optimized''}) ''pgvector query_mode'') (\<lambda>_.
     and_then (check (prewarm_mode \<in> {''buffer'', ''read'', ''prefetch''}) ''pgvector prewarm_mode'') (\<lambda>_.
     and_then (check (db_database (database_values vdb) \<noteq> [] \<and> db_user (database_values vdb) \<noteq> [])
         ''pgvector database and user must be configured'') (\<lambda>_.
     and_then (path_of project (dget_or storage ''bm25_path'' (VStr (''storage/companies/'' @ cid @ ''/bm25.sqlite3'')))) (\<lambda>path.
       Inr \<lparr>sg_bm25_path = path, sg_vector_backend = backend, sg_database = Some vdb, sg_table = table,
            sg_dimensions = dims, sg_hnsw_m = m, sg_hnsw_construction = construction, sg_hnsw_search = ef_search,
            sg_query_mode = query_mode, sg_prewarm = prewarm, sg_prewarm_mode = prewarm_mode\<rparr>))))))))))))))))))"

subsection \<open>The payload section\<close>

record payload_config =
  py_public_fields :: "string list"
  py_field_mapping :: "(string, string) dict"
  py_filter_schema :: "(string, string) dict"
  py_request_mapping :: "(string, string) dict"

text \<open>\<open>tuple(str(v).strip() for v in values if str(v).strip())\<close> and the dictionaries of such texts\<close>

definition text_list :: "pyval \<Rightarrow> py_error + string list" where
  "text_list v = map_sum id (\<lambda>xs. filter (\<lambda>t. t \<noteq> []) (map (\<lambda>x. strip (py_str x)) xs)) (py_iter v)"

definition text_pairs :: "(string \<Rightarrow> string) \<Rightarrow> pydict \<Rightarrow> (string \<times> string) list" where
  "text_pairs f d = filter (\<lambda>(k, v). k \<noteq> [] \<and> v \<noteq> []) (map (\<lambda>(k, v). (strip k, f (strip (py_str v)))) d)"

definition request_keys :: "string list" where
  "request_keys = [''query'', ''cursor'', ''page_size'']"

definition filter_types :: "string list" where
  "filter_types = [''keyword'', ''number'', ''datetime'', ''boolean'']"

definition read_filter_schema :: "pydict \<Rightarrow> py_error + (string, string) dict" where
  "read_filter_schema payload =
     and_then (section_of payload ''filter_schema'') (\<lambda>declared.
       let filter_schema = put_texts (text_pairs casefold declared) [] in
     and_then (check (\<forall>(k, v) \<in> set filter_schema. v \<in> set filter_types)
         ''Tenant has unsupported filter types'') (\<lambda>_.
       Inr filter_schema))"

definition read_request_mapping :: "pydict \<Rightarrow> py_error + (string, string) dict" where
  "read_request_mapping payload =
     and_then (section_of payload ''request_mapping'') (\<lambda>renamed.
       let request_mapping = put_texts (text_pairs id renamed) (map (\<lambda>k. (k, k)) request_keys) in
     and_then (check (set (map fst request_mapping) \<subseteq> set request_keys)
         ''Tenant has unsupported request mappings'') (\<lambda>_.
     and_then (check (distinct (map snd request_mapping)) ''Tenant request payload fields must be unique'') (\<lambda>_.
       Inr request_mapping)))"

definition load_payload :: "company_database \<Rightarrow> pydict \<Rightarrow> py_error + payload_config" where
  "load_payload db raw =
     and_then (section_of raw ''payload'') (\<lambda>payload.
     and_then (text_list (dget_or payload ''public_fields'' (VList []))) (\<lambda>public.
     and_then (check (db_result_id_column (database_values db) \<in> set public)
         ''payload.public_fields must include the result id column'') (\<lambda>_.
     and_then (section_of payload ''field_mapping'') (\<lambda>mapping.
     and_then (read_filter_schema payload) (\<lambda>filter_schema.
     and_then (read_request_mapping payload) (\<lambda>request_mapping.
       Inr \<lparr>py_public_fields = public, py_field_mapping = put_texts (text_pairs id mapping) [],
            py_filter_schema = filter_schema, py_request_mapping = request_mapping\<rparr>))))))"

subsection \<open>Rate limit and retrieval\<close>

record rate_config =
  rl_per_minute :: int
  rl_burst :: int

definition load_rate :: "pydict \<Rightarrow> py_error + rate_config" where
  "load_rate raw =
     and_then (section_of raw ''rate_limit'') (\<lambda>rate.
     and_then (yaml_int rate ''requests_per_minute'' 60) (\<lambda>rpm.
     and_then (yaml_int rate ''burst'' 10) (\<lambda>burst.
     and_then (check (0 < rpm) ''requests_per_minute must be greater than zero'') (\<lambda>_.
     and_then (check (0 < burst) ''rate-limit burst must be greater than zero'') (\<lambda>_.
       Inr \<lparr>rl_per_minute = rpm, rl_burst = burst\<rparr>)))))"

record retrieval_config =
  rc_adaptive_filter :: bool
  rc_tail :: bool
  rc_tail_explicit :: bool
  rc_floor :: pyfloat
  rc_min_scores :: "(string, pyfloat) dict"

definition read_min_score :: "string \<times> pyval \<Rightarrow> py_error + string \<times> pyfloat" where
  "read_min_score kv = map_sum id (\<lambda>q. (casefold (strip (fst kv)), q)) (float_of (snd kv))"

definition put_scores :: "(string \<times> pyfloat) list \<Rightarrow> (string, pyfloat) dict" where
  "put_scores new = fold (\<lambda>(k, v). AList.update k v) new []"

definition load_retrieval :: "pydict \<Rightarrow> py_error + retrieval_config" where
  "load_retrieval raw =
     and_then (section_of raw ''retrieval'') (\<lambda>retrieval.
     and_then (as_dict (dget_or retrieval ''reranker_min_score_by_provider'' (VDict []))
         ''Tenant reranker_min_score_by_provider must be a mapping'') (\<lambda>scores.
     and_then (yaml_float retrieval ''reranker_relative_score_floor'' 0) (\<lambda>floor_score.
     and_then (map_ok read_min_score scores) (\<lambda>pairs.
     and_then (check (0 \<le> floor_score \<and> floor_score \<le> 1) ''reranker_relative_score_floor must be between 0 and 1'') (\<lambda>_.
     and_then (check ([] \<notin> set (map fst (put_scores pairs))) ''reranker_min_score_by_provider keys must not be empty'') (\<lambda>_.
       Inr \<lparr>rc_adaptive_filter = yaml_bool retrieval ''adaptive_vector_post_filter_metadata'' False,
            rc_tail = yaml_bool retrieval ''semantic_related_tail_enabled'' True,
            rc_tail_explicit = yaml_bool retrieval ''semantic_related_tail_requires_explicit_category'' False,
            rc_floor = floor_score, rc_min_scores = put_scores pairs\<rparr>))))))"

subsection \<open>Endpoint, compatibility, analytics and ingestion\<close>

record api_part =
  ap_slug :: string
  ap_key_envs :: "string list"

definition load_api :: "string \<Rightarrow> pydict \<Rightarrow> py_error + api_part" where
  "load_api cid raw =
     and_then (section_of raw ''api'') (\<lambda>api.
     and_then (validate_tenant_id (py_str (dget_or api ''endpoint_slug'' (VStr cid)))) (\<lambda>slug.
     and_then (text_list (dget_or api ''key_envs'' (VList []))) (\<lambda>envs.
       Inr \<lparr>ap_slug = slug, ap_key_envs = (if envs = [] then [upper cid @ ''_API_KEY''] else envs)\<rparr>)))"

definition load_compatibility :: "tenant_plugin \<Rightarrow> pydict \<Rightarrow> py_error + compat_config" where
  "load_compatibility plugin raw =
     and_then (section_of raw ''compatibility'') (\<lambda>c.
     and_then (yaml_int c ''page_size'' 20) (\<lambda>page_size.
     and_then (yaml_int c ''semantic_ranked_window'' 40) (\<lambda>ranked_window.
     and_then (yaml_int c ''suggestions_limit'' 8) (\<lambda>suggestions.
     and_then (yaml_int c ''recent_limit'' 10) (\<lambda>recent.
     and_then (yaml_int c ''recent_ttl_seconds'' (60 * 60 * 24 * 90)) (\<lambda>ttl.
     and_then (yaml_int c ''fixed_fee_id'' 1) (\<lambda>fixed.
     and_then (yaml_int c ''negotiable_fee_id'' 0) (\<lambda>negotiable.
       let config = \<lparr>cc_adapter = casefold (yaml_text c ''adapter'' []), cc_users_table = yaml_text c ''users_table'' ''users'',
             cc_page_size = page_size, cc_ranked_window = ranked_window, cc_suggestions_limit = suggestions,
             cc_recent_limit = recent, cc_recent_ttl = ttl, cc_min_fee_field = yaml_text c ''min_fee_field'' ''min_fee'',
             cc_max_fee_field = yaml_text c ''max_fee_field'' ''max_fee'', cc_fixed_fee_id = fixed,
             cc_negotiable_fee_id = negotiable, cc_emit_meta = yaml_bool c ''emit_search_meta'' True,
             cc_image_path = yaml_text c ''image_path'' [],
             cc_serves_ready = yaml_bool c ''serves_cards_from_search_ready'' False\<rparr> in
     and_then (no_problem (compat_problem supported_compatibility_adapters config)) (\<lambda>_.
     and_then (check (cc_adapter config = [] \<or> cc_adapter config \<in> set (pl_adapters plugin))
         ''Tenant plugin does not own compatibility adapter'') (\<lambda>_.
       Inr config))))))))))"

record analytics_config =
  an_enabled :: bool
  an_history_table :: string
  an_usage_table :: string
  an_capacity :: int

definition load_analytics :: "company_database \<Rightarrow> pydict \<Rightarrow> py_error + analytics_config" where
  "load_analytics db raw =
     and_then (section_of raw ''analytics'') (\<lambda>a.
     and_then (yaml_int a ''queue_capacity'' 1000) (\<lambda>capacity.
       let enabled = yaml_bool a ''enabled'' False;
           history = yaml_text a ''search_history_table'' ''semantic_search_history'';
           usage = yaml_text a ''api_usage_table'' ''semantic_search_api_usage'' in
     and_then (check (safe_identifier history \<and> safe_identifier usage) ''Analytics table must be a safe MySQL identifier'') (\<lambda>_.
     and_then (check (history \<noteq> usage) ''Analytics table names must be different'') (\<lambda>_.
     and_then (check (0 < capacity \<and> capacity \<le> 10000) ''Analytics queue_capacity must be between 1 and 10000'') (\<lambda>_.
     and_then (check (\<not> enabled \<or> \<not> is_postgres db) ''analytics requires a MySQL company database'') (\<lambda>_.
       Inr \<lparr>an_enabled = enabled, an_history_table = history, an_usage_table = usage, an_capacity = capacity\<rparr>))))))"

record ingestion_config =
  ig_mapping :: "(string, string) dict"
  ig_defaults :: pydict

definition CANONICAL_INDEX_FIELDS :: "string list" where
  "CANONICAL_INDEX_FIELDS = [''ad_type'', ''city_id'', ''city_name'', ''is_rent_negotiable'', ''locality_id'',
     ''locality_name'', ''main_category_id'', ''main_category_name'', ''rental_duration'', ''rental_fee'',
     ''state_id'', ''state_name'', ''subcategory_id'', ''subcategory_name'', ''user_gender'',
     ''user_is_aadhaar_gst_verified'']"

fun is_scalar :: "pyval \<Rightarrow> bool" where
  "is_scalar (VList xs) = False"
| "is_scalar (VDict d) = False"
| "is_scalar _ = True"

definition load_ingestion :: "pydict \<Rightarrow> py_error + ingestion_config" where
  "load_ingestion raw =
     and_then (section_of raw ''ingestion'') (\<lambda>s.
     and_then (as_dict (dget_or s ''field_mapping'' (VDict [])) ''Tenant ingestion mapping/defaults must be objects'') (\<lambda>mapping.
     and_then (as_dict (dget_or s ''field_defaults'' (VDict [])) ''Tenant ingestion mapping/defaults must be objects'') (\<lambda>defaults.
       let m = put_texts (text_pairs id mapping) [];
           ds = put_all (filter (\<lambda>kv. fst kv \<noteq> []) (map (\<lambda>(k, v). (strip k, v)) defaults)) [] in
     and_then (check (set (map fst m) \<union> set (map fst ds) \<subseteq> set CANONICAL_INDEX_FIELDS)
         ''Unsupported canonical ingestion fields'') (\<lambda>_.
     and_then (check (list_all safe_identifier (map snd m)) ''Ingestion source fields must be safe identifiers'') (\<lambda>_.
     and_then (check (list_all is_scalar (map snd ds)) ''Ingestion defaults must be scalar values'') (\<lambda>_.
       Inr \<lparr>ig_mapping = m, ig_defaults = ds\<rparr>))))))"

subsection \<open>A tenant profile\<close>

record tenant_profile =
  tp_company :: string
  tp_database :: company_database
  tp_storage :: storage_config
  tp_payload :: payload_config
  tp_rate :: rate_config
  tp_planner_adapter :: string
  tp_key_envs :: "string list"
  tp_slug :: string
  tp_policy :: string
  tp_planner :: planner_part
  tp_retrieval :: retrieval_config
  tp_compat :: compat_config
  tp_analytics :: analytics_config
  tp_plugin :: string
  tp_ingestion :: ingestion_config

text \<open>
  \<open>load_tenant_profile\<close> on the document of a file whose name without suffix is \<open>stem\<close>;
  \<open>raw\<close> is \<open>None\<close> when the text is not YAML.
\<close>

definition load_tenant_profile :: "string \<Rightarrow> environment \<Rightarrow> string \<Rightarrow> pyval option \<Rightarrow> py_error + tenant_profile" where
  "load_tenant_profile project env stem parsed =
     (case parsed of None \<Rightarrow> Inl (ValueError ''Invalid tenant YAML'')
      | Some v \<Rightarrow> (case or_else v (VDict []) of
          VDict raw \<Rightarrow>
            and_then (load_company stem raw) (\<lambda>company.
            and_then (load_planner raw) (\<lambda>planner.
            and_then (load_database env raw) (\<lambda>db.
            and_then (load_storage project env (cp_id company) db raw) (\<lambda>storage.
            and_then (load_payload db raw) (\<lambda>payload.
            and_then (load_rate raw) (\<lambda>rate.
            and_then (load_retrieval raw) (\<lambda>retrieval.
            and_then (load_api (cp_id company) raw) (\<lambda>api.
            and_then (load_compatibility (cp_plugin company) raw) (\<lambda>compat.
            and_then (load_analytics db raw) (\<lambda>analytics.
            and_then (load_ingestion raw) (\<lambda>ingestion.
              Inr \<lparr>tp_company = cp_id company, tp_database = db, tp_storage = storage, tp_payload = payload,
                   tp_rate = rate, tp_planner_adapter = cp_adapter company, tp_key_envs = ap_key_envs api,
                   tp_slug = ap_slug api, tp_policy = cp_policy company, tp_planner = planner,
                   tp_retrieval = retrieval, tp_compat = compat, tp_analytics = analytics,
                   tp_plugin = pl_name (cp_plugin company), tp_ingestion = ingestion\<rparr>)))))))))))
        | _ \<Rightarrow> Inl (ValueError ''Tenant profile must contain a YAML object'')))"

subsection \<open>What a profile that loads satisfies\<close>

definition database_ok :: "company_database \<Rightarrow> bool" where
  "database_ok db \<longleftrightarrow> (let v = database_values db in
     db_problem (if is_postgres db then postgres_tls_modes else mysql_tls_modes) v = None
     \<and> db_database v \<noteq> [] \<and> db_user v \<noteq> [])"

definition names_ok :: "db_values \<Rightarrow> bool" where
  "names_ok v \<longleftrightarrow> list_all (\<lambda>n. n \<noteq> [] \<and> CHR 0x00 \<notin> set n)
     [db_search_table v, db_content_column v, db_bm25_column v, db_search_id_column v,
      db_result_table v, db_result_id_column v, db_result_type_column v]"

definition storage_ok :: "company_database \<Rightarrow> storage_config \<Rightarrow> bool" where
  "storage_ok db s \<longleftrightarrow> 0 < sg_dimensions s \<and> sg_dimensions s \<le> 2000
     \<and> 0 < sg_hnsw_m s \<and> 0 < sg_hnsw_construction s \<and> 0 < sg_hnsw_search s
     \<and> sg_vector_backend s = ''pgvector'' \<and> sg_table s \<noteq> []
     \<and> sg_query_mode s \<in> {''legacy'', ''shadow'', ''optimized''}
     \<and> sg_prewarm_mode s \<in> {''buffer'', ''read'', ''prefetch''}
     \<and> (\<exists>vdb. sg_database s = Some vdb \<and> is_postgres vdb \<and> database_ok vdb)"

definition payload_ok :: "company_database \<Rightarrow> payload_config \<Rightarrow> bool" where
  "payload_ok db p \<longleftrightarrow> db_result_id_column (database_values db) \<in> set (py_public_fields p)
     \<and> [] \<notin> set (py_public_fields p)
     \<and> snd ` set (py_filter_schema p) \<subseteq> set filter_types
     \<and> map fst (py_request_mapping p) = request_keys
     \<and> distinct (map snd (py_request_mapping p)) \<and> [] \<notin> snd ` set (py_request_mapping p)"

definition planner_ok :: "planner_part \<Rightarrow> bool" where
  "planner_ok p \<longleftrightarrow> length (pn_context p) \<le> 4000 \<and> length (pn_aliases p) \<le> 500 \<and> distinct (map fst (pn_aliases p))
     \<and> (\<forall>(s, t) \<in> set (pn_aliases p). s \<noteq> [] \<and> t \<noteq> [] \<and> length s \<le> 100 \<and> length t \<le> 200
          \<and> norm_text s = s \<and> norm_text t = t)"

definition company_ok :: "string \<Rightarrow> company_part \<Rightarrow> bool" where
  "company_ok stem c \<longleftrightarrow> cp_id c = stem \<and> tenant_id_ok stem \<and> cp_plugin c \<in> snd ` set tenant_plugins
     \<and> cp_policy c \<in> set (pl_policies (cp_plugin c)) \<and> cp_adapter c \<noteq> []"

definition analytics_ok :: "company_database \<Rightarrow> analytics_config \<Rightarrow> bool" where
  "analytics_ok db a \<longleftrightarrow> safe_identifier (an_history_table a) \<and> safe_identifier (an_usage_table a)
     \<and> an_history_table a \<noteq> an_usage_table a \<and> 0 < an_capacity a \<and> an_capacity a \<le> 10000
     \<and> (an_enabled a \<longrightarrow> \<not> is_postgres db)"

definition ingestion_ok :: "ingestion_config \<Rightarrow> bool" where
  "ingestion_ok i \<longleftrightarrow> fst ` set (ig_mapping i) \<union> fst ` set (ig_defaults i) \<subseteq> set CANONICAL_INDEX_FIELDS
     \<and> (\<forall>(k, v) \<in> set (ig_mapping i). safe_identifier v) \<and> (\<forall>(k, v) \<in> set (ig_defaults i). is_scalar v)"

text \<open>The parts of the configuration that hold on their own, and the parts together\<close>

definition rate_ok :: "rate_config \<Rightarrow> bool" where
  "rate_ok r \<longleftrightarrow> 0 < rl_per_minute r \<and> 0 < rl_burst r"

definition retrieval_ok :: "retrieval_config \<Rightarrow> bool" where
  "retrieval_ok r \<longleftrightarrow> 0 \<le> rc_floor r \<and> rc_floor r \<le> 1 \<and> [] \<notin> fst ` set (rc_min_scores r)"

definition compat_ok :: "tenant_plugin \<Rightarrow> compat_config \<Rightarrow> bool" where
  "compat_ok plugin c \<longleftrightarrow> compat_problem supported_compatibility_adapters c = None
     \<and> (cc_adapter c = [] \<or> cc_adapter c \<in> set (pl_adapters plugin))"

definition profile_ok :: "string \<Rightarrow> tenant_profile \<Rightarrow> bool" where
  "profile_ok stem p \<longleftrightarrow>
     (\<exists>plugin. company_ok stem \<lparr>cp_id = tp_company p, cp_plugin = plugin, cp_adapter = tp_planner_adapter p,
                               cp_policy = tp_policy p\<rparr>
        \<and> tp_plugin p = pl_name plugin \<and> compat_ok plugin (tp_compat p))
     \<and> planner_ok (tp_planner p)
     \<and> database_ok (tp_database p) \<and> names_ok (database_values (tp_database p))
     \<and> storage_ok (tp_database p) (tp_storage p) \<and> payload_ok (tp_database p) (tp_payload p)
     \<and> rate_ok (tp_rate p) \<and> retrieval_ok (tp_retrieval p)
     \<and> tenant_id_ok (tp_slug p) \<and> tp_key_envs p \<noteq> [] \<and> [] \<notin> set (tp_key_envs p)
     \<and> analytics_ok (tp_database p) (tp_analytics p) \<and> ingestion_ok (tp_ingestion p)"

lemma check_Inr [simp]: "check b m = Inr u \<longleftrightarrow> b"
  by (simp add: check_def)

lemma no_problem_Inr [simp]: "no_problem r = Inr u \<longleftrightarrow> r = None"
  by (cases r) (simp_all add: no_problem_def)

lemma db_identifier_Inr: "db_identifier d k v = Inr n \<Longrightarrow> n \<noteq> [] \<and> CHR 0x00 \<notin> set n"
  by (auto simp: db_identifier_def Let_def split: if_splits)

lemma make_database_ok [config_facts]:
  "make_postgres v s = Inr db \<Longrightarrow> db = Postgres v s \<and> db_problem postgres_tls_modes v = None"
  "make_mysql v a = Inr db \<Longrightarrow> db = MySQL v a \<and> db_problem mysql_tls_modes v = None"
  by (auto simp: make_postgres_def make_mysql_def and_then_Inr)

lemma read_database_names [config_facts]:
  assumes "read_database_values env d pg = Inr v"
  shows "names_ok v"
  using assms unfolding read_database_values_def Let_def and_then_Inr
  by (elim exE conjE) (auto simp: names_ok_def dest: db_identifier_Inr)

lemma load_database_ok [config_facts]:
  assumes "load_database env raw = Inr db"
  shows "database_ok db" "names_ok (database_values db)"
proof -
  from assms obtain d v where v: "read_database_values env d (casefold (yaml_text d ''backend'' ''mysql'') = ''postgres'') = Inr v"
    and opened: "(if casefold (yaml_text d ''backend'' ''mysql'') = ''postgres''
            then and_then (db_identifier d ''schema'' ''public'') (make_postgres v)
            else and_then (optional_identifier d ''active_column'') (make_mysql v)) = Inr db"
    and ne: "db_database v \<noteq> []" "db_user v \<noteq> []"
    unfolding load_database_def Let_def and_then_Inr check_Inr by (elim exE conjE) (simp only: sum.inject)
  from opened have db: "(\<exists>s. make_postgres v s = Inr db) \<or> (\<exists>a. make_mysql v a = Inr db)"
    by (auto simp: and_then_Inr split: if_splits)
  from db have vals: "database_values db = v" by (auto dest: make_database_ok)
  from db ne show "database_ok db" by (auto simp: database_ok_def Let_def dest: make_database_ok)
  from read_database_names [OF v] vals show "names_ok (database_values db)" by simp
qed

lemma vector_database_ok [config_facts]:
  assumes "vector_database env cdb pg = Inr vdb" and "database_ok cdb"
    and "db_database (database_values vdb) \<noteq> []" "db_user (database_values vdb) \<noteq> []"
  shows "is_postgres vdb \<and> database_ok vdb"
  using assms unfolding vector_database_def
  by (auto simp: and_then_Inr database_ok_def Let_def dest!: make_database_ok(1) split: if_splits)

lemma load_storage_ok [config_facts]:
  assumes "load_storage project env cid db raw = Inr s" and "database_ok db"
  shows "storage_ok db s"
proof -
  from assms(1) obtain pg vdb where vdb: "vector_database env db pg = Inr vdb" "sg_database s = Some vdb"
      "db_database (database_values vdb) \<noteq> []" "db_user (database_values vdb) \<noteq> []"
    and rest: "0 < sg_dimensions s" "sg_dimensions s \<le> 2000" "0 < sg_hnsw_m s" "0 < sg_hnsw_construction s"
      "0 < sg_hnsw_search s" "sg_vector_backend s = ''pgvector''" "sg_table s \<noteq> []"
      "sg_query_mode s \<in> {''legacy'', ''shadow'', ''optimized''}"
      "sg_prewarm_mode s \<in> {''buffer'', ''read'', ''prefetch''}"
    unfolding load_storage_def Let_def and_then_Inr check_Inr sum.inject
    by (elim exE conjE, hypsubst) (simp add: db_identifier_Inr)
  from vector_database_ok [OF vdb(1) assms(2) vdb(3,4)] vdb(2) rest show ?thesis
    unfolding storage_ok_def by blast
qed

lemma text_list_Inr: "text_list v = Inr ts \<Longrightarrow> [] \<notin> set ts"
  by (auto simp: text_list_def elim!: map_sum_InrE)

lemma keys_AList_update: "set (map fst (AList.update k v d)) = insert k (set (map fst d))"
  by (induction d) auto

lemma keys_put_texts:
  "set (map fst (put_texts new m)) = set (map fst new) \<union> set (map fst m)"
  "distinct (map fst m) \<Longrightarrow> distinct (map fst (put_texts new m))"
  by (induction new arbitrary: m) (auto simp: put_texts_def keys_AList_update distinct_update simp del: set_map)

lemma AList_update_entries: "set (AList.update k v d) \<subseteq> insert (k, v) (set d)"
  by (induction d) auto

lemma put_texts_entries: "set (put_texts new m) \<subseteq> set new \<union> set m"
proof (induction new arbitrary: m)
  case (Cons p new)
  have "set (put_texts (p # new) m) \<subseteq> set new \<union> set (AList.update (fst p) (snd p) m)"
    using Cons [of "AList.update (fst p) (snd p) m"] by (simp add: put_texts_def case_prod_beta)
  then show ?case using AList_update_entries [of "fst p" "snd p" m] by auto
qed (simp add: put_texts_def)

lemma update_present_keys: "k \<in> set (map fst m) \<Longrightarrow> map fst (AList.update k v m) = map fst m"
  by (induction m) auto

lemma put_texts_present_keys:
  "set (map fst new) \<subseteq> set (map fst m) \<Longrightarrow> map fst (put_texts new m) = map fst m"
proof (induction new arbitrary: m)
  case (Cons p new)
  then show ?case
    using Cons.IH [of "AList.update (fst p) (snd p) m"] update_present_keys [of "fst p" m "snd p"]
    by (simp add: put_texts_def case_prod_beta del: set_map)
qed (simp add: put_texts_def)

lemma text_pairs_entries: "(k, v) \<in> set (text_pairs f d) \<Longrightarrow> k \<noteq> [] \<and> v \<noteq> []"
  by (auto simp: text_pairs_def)

text \<open>Request mapping: the three fields of the API stay, in their order, whatever the document renames.\<close>

lemma read_request_mapping_ok [config_facts]:
  assumes "read_request_mapping payload = Inr m"
  shows "map fst m = request_keys" "[] \<notin> snd ` set m" "distinct (map snd m)"
proof -
  from assms obtain d where m: "m = put_texts (text_pairs id d) (map (\<lambda>k. (k, k)) request_keys)"
    and sub: "set (map fst m) \<subseteq> set request_keys" and uniq: "distinct (map snd m)"
    unfolding read_request_mapping_def Let_def and_then_Inr check_Inr by blast
  have base: "map fst (map (\<lambda>k. (k, k)) request_keys) = request_keys" by (simp add: request_keys_def)
  from sub have "set (map fst (text_pairs id d)) \<subseteq> set (map fst (map (\<lambda>k. (k, k)) request_keys))"
    unfolding m keys_put_texts base by blast
  from put_texts_present_keys [OF this] show "map fst m = request_keys" unfolding base m .
  show "[] \<notin> snd ` set m"
    using put_texts_entries [of "text_pairs id d" "map (\<lambda>k. (k, k)) request_keys"] text_pairs_entries
    unfolding m by (force simp: request_keys_def)
  show "distinct (map snd m)" by (rule uniq)
qed

lemma read_filter_schema_ok:
  "read_filter_schema payload = Inr m \<Longrightarrow> snd ` set m \<subseteq> set filter_types"
  unfolding read_filter_schema_def Let_def and_then_Inr check_Inr by fastforce

lemma load_payload_ok [config_facts]:
  assumes "load_payload db raw = Inr p"
  shows "payload_ok db p"
  using assms unfolding load_payload_def and_then_Inr check_Inr sum.inject
  by (elim exE conjE, hypsubst)
    (unfold payload_ok_def payload_config.select_convs,
      intro conjI; (assumption | erule read_request_mapping_ok read_filter_schema_ok text_list_Inr))

lemma read_alias_ok:
  "read_alias kv = Inr (s, t) \<Longrightarrow>
     s \<noteq> [] \<and> t \<noteq> [] \<and> length s \<le> 100 \<and> length t \<le> 200 \<and> norm_text s = s \<and> norm_text t = t"
  by (auto simp: read_alias_def Let_def split: if_splits)

lemma length_AList_update: "length (AList.update k v m) \<le> Suc (length m)"
  by (induction m) auto

lemma length_put_texts: "length (put_texts new m) \<le> length new + length m"
proof (induction new arbitrary: m)
  case (Cons p new)
  have "length (put_texts (p # new) m) \<le> length new + length (AList.update (fst p) (snd p) m)"
    using Cons by (simp add: put_texts_def case_prod_beta)
  then show ?case using length_AList_update [of "fst p" "snd p" m] by simp
qed (simp add: put_texts_def)

lemma load_planner_ok [config_facts]:
  assumes "load_planner raw = Inr p"
  shows "planner_ok p"
proof -
  from assms obtain aliases pairs where pairs: "map_ok read_alias aliases = Inr pairs" "length aliases \<le> 500"
    and p: "pn_aliases p = put_texts pairs []" and prompt: "length (pn_context p) \<le> 4000"
    by (auto simp: load_planner_def Let_def and_then_Inr)
  have all2: "list_all2 (\<lambda>x y. read_alias x = Inr y) aliases pairs" using pairs(1) by (simp add: map_ok_Inr)
  have entries: "\<forall>(s, t) \<in> set pairs. s \<noteq> [] \<and> t \<noteq> [] \<and> length s \<le> 100 \<and> length t \<le> 200
      \<and> norm_text s = s \<and> norm_text t = t"
    using all2 by (auto simp: list_all2_conv_all_nth in_set_conv_nth dest!: read_alias_ok) (metis read_alias_ok)+
  have "length (pn_aliases p) \<le> 500"
    using length_put_texts [of pairs "[]"] list_all2_lengthD [OF all2] pairs(2) p by simp
  moreover have "set (pn_aliases p) \<subseteq> set pairs" using put_texts_entries [of pairs "[]"] p by simp
  moreover have "distinct (map fst (pn_aliases p))" using keys_put_texts(2) [of "[]" pairs] p by simp
  ultimately show ?thesis using entries prompt unfolding planner_ok_def by blast
qed

lemma tenant_plugins_named: "map_of tenant_plugins k = Some p \<Longrightarrow> p \<in> snd ` set tenant_plugins"
  by (auto dest!: map_of_SomeD simp del: set_map intro: rev_image_eqI)

lemma plugin_of_known:
  assumes "plugin_of company = Inr p"
  shows "p \<in> snd ` set tenant_plugins"
proof -
  have get: "get_tenant_plugin n = Inr p \<Longrightarrow> p \<in> snd ` set tenant_plugins" for n
    by (auto simp: get_tenant_plugin_def Let_def split: option.splits intro: tenant_plugins_named)
  have pol: "q \<in> snd ` set tenant_plugins" if found: "plugin_for_search_policy n = Inr (Some q)" for n q
  proof -
    have "q \<in> set (filter (\<lambda>p. casefold (strip n) \<in> set (pl_policies p)) (map snd tenant_plugins))"
      using found unfolding plugin_for_search_policy_def
      by (simp del: filter_set set_filter split: list.splits)
    then have "q \<in> set (map snd tenant_plugins)" by (rule subsetD [OF filter_is_subset])
    then show ?thesis by simp
  qed
  show ?thesis
    using assms get pol by (auto simp: plugin_of_def Let_def and_then_Inr split: if_splits option.splits)
qed

lemma load_company_ok [config_facts]:
  assumes "load_company stem raw = Inr c"
  shows "company_ok stem c"
proof -
  have tid: "validate_tenant_id v = Inr t \<Longrightarrow> tenant_id_ok t" for v t
    by (auto simp: validate_tenant_id_def Let_def split: if_splits)
  show ?thesis
    using assms unfolding load_company_def Let_def and_then_Inr check_Inr sum.inject
    by (elim exE conjE, hypsubst) (simp add: company_ok_def plugin_of_known tid)
qed

lemma load_rate_ok [config_facts]: "load_rate raw = Inr r \<Longrightarrow> rate_ok r"
  by (auto simp: load_rate_def rate_ok_def and_then_Inr)

lemma load_retrieval_ok [config_facts]: "load_retrieval raw = Inr r \<Longrightarrow> retrieval_ok r"
  by (auto simp: load_retrieval_def retrieval_ok_def and_then_Inr)

lemma load_api_ok [config_facts]:
  assumes "load_api cid raw = Inr a"
  shows "tenant_id_ok (ap_slug a)" "ap_key_envs a \<noteq> []" "[] \<notin> set (ap_key_envs a)"
  using assms
  by (auto simp: load_api_def and_then_Inr validate_tenant_id_def Let_def dest!: text_list_Inr split: if_splits)

lemma load_compatibility_ok [config_facts]:
  "load_compatibility plugin raw = Inr c \<Longrightarrow> compat_ok plugin c"
  unfolding load_compatibility_def Let_def and_then_Inr check_Inr sum.inject no_problem_Inr
  by (elim exE conjE, hypsubst) (simp add: compat_ok_def)

lemma load_analytics_ok [config_facts]: "load_analytics db raw = Inr a \<Longrightarrow> analytics_ok db a"
  unfolding load_analytics_def Let_def and_then_Inr check_Inr sum.inject
  by (elim exE conjE, hypsubst) (simp add: analytics_ok_def)

lemma load_ingestion_ok [config_facts]: "load_ingestion raw = Inr i \<Longrightarrow> ingestion_ok i"
  unfolding load_ingestion_def Let_def and_then_Inr check_Inr sum.inject
  by (elim exE conjE, hypsubst) (auto simp: ingestion_ok_def list_all_iff)

lemma company_part_eta:
  "\<lparr>cp_id = cp_id c, cp_plugin = cp_plugin c, cp_adapter = cp_adapter c, cp_policy = cp_policy c\<rparr> = c"
  by simp

text \<open>
  C18: Every tenant profile that loads is well formed: its id is the name of its file and is
  safe, its plugin owns its search policy and its compatibility adapter, its databases pass
  the checks of their classes and name a database and a user, its tables and columns have
  names, the three request fields are mapped to different names, and every number is in its
  range.
\<close>

theorem loaded_profile_wellformed:
  assumes "load_tenant_profile project env stem parsed = Inr p"
  shows "profile_ok stem p"
  using assms unfolding load_tenant_profile_def
  by (auto simp: and_then_Inr profile_ok_def config_facts company_part_eta
      split: option.splits pyval.splits intro!: exI)

subsection \<open>A profile that loads\<close>

text \<open>The document of \<open>configs/tenants/gainr.yaml\<close>, shortened, and another tenant of the default plugin\<close>

definition sample_env :: environment where
  "sample_env = map_of [(''MYSQL_DATABASE'', ''gainr''), (''MYSQL_USER'', ''reader''),
     (''PGVECTOR_DATABASE'', ''vectors''), (''PGVECTOR_USER'', ''search''),
     (''GAINR_API_KEY'', '' key-one ''), (''ACME_API_KEY'', ''key-two'')]"

definition gainr_document :: pyval where
  "gainr_document = VDict [
     (''company'', VDict [(''id'', VStr ''gainr''), (''plugin'', VStr ''Gainr''), (''search_policy'', VStr ''gainr'')]),
     (''retrieval'', VDict [(''reranker_relative_score_floor'', VFloat (3 / 10))]),
     (''api'', VDict [(''key_envs'', VList [VStr ''GAINR_API_KEY''])]),
     (''database'', VDict [(''backend'', VStr ''mysql''), (''active_column'', VStr ''is_search_active''),
        (''pool'', VDict [(''min_size'', VInt 4), (''max_size'', VInt 16)])]),
     (''storage'', VDict [(''pgvector'', VDict [(''table'', VStr ''gainr_search_vectors''), (''query_mode'', VStr ''optimized'')])]),
     (''payload'', VDict [(''public_fields'', VList [VStr ''id'', VStr ''title'']),
        (''filter_schema'', VDict [(''rental_fee'', VStr ''number'')])]),
     (''rate_limit'', VDict [(''requests_per_minute'', VInt 120), (''burst'', VInt 20)]),
     (''compatibility'', VDict [(''adapter'', VStr ''gainr_legacy'')]),
     (''analytics'', VDict [(''enabled'', VBool True)])]"

definition acme_document :: pyval where
  "acme_document = VDict [
     (''database'', VDict [(''search_ready_table'', VStr ''acme_ready''), (''result_table'', VStr ''acme_ads'')]),
     (''payload'', VDict [(''public_fields'', VList [VStr ''id''])])]"

definition load_sample :: "string \<Rightarrow> pyval \<Rightarrow> py_error + tenant_profile" where
  "load_sample stem d = load_tenant_profile ''/srv'' sample_env stem (Some d)"

lemma gainr_sample_loads: "\<not> isl (load_sample ''gainr'' gainr_document)"
  by code_simp

lemma acme_sample_loads: "\<not> isl (load_sample ''acme'' acme_document)"
  by code_simp

lemma samples_refused:
  "load_sample ''acme'' gainr_document = Inl (ValueError ''Tenant profile declares another company.id'')"
  "load_sample ''gainr'' (VList [VInt 1]) = Inl (ValueError ''Tenant profile must contain a YAML object'')"
  "load_sample ''acme'' (VDict []) = Inl (ValueError ''payload.public_fields must include the result id column'')"
  by code_simp+

theorem loaded_profile_wellformed_witness:
  "\<exists>p. load_sample ''gainr'' gainr_document = Inr p \<and> profile_ok ''gainr'' p"
proof -
  from gainr_sample_loads obtain p where p: "load_sample ''gainr'' gainr_document = Inr p"
    by (cases "load_sample ''gainr'' gainr_document") simp_all
  from loaded_profile_wellformed [OF p [unfolded load_sample_def]] p show ?thesis by blast
qed

end
