(* ===== verification/Tenant_Registry.thy ===== *)
theory Tenant_Registry
  imports Tenant_Config
begin

text \<open>
  Discovery, isolation and lookup of tenants: \<open>discover_tenant_profiles\<close>,
  \<open>validate_tenant_isolation\<close> and \<open>TenantRegistry\<close> of \<open>core/tenant_config.py\<close>. Arguments of the
  model: the documents of the directory, \<open>Path.resolve\<close> (\<open>resolve\<close>), the environment and
  \<open>api_key_digest\<close> (SHA-256, \<open>sha\<close>), of which the key claims use that two keys have different digests.
\<close>

named_theorems registry_facts \<open>facts of the tenant registry\<close>

fun fold_ok :: "('a \<Rightarrow> 's \<Rightarrow> 'e + 's) \<Rightarrow> 'a list \<Rightarrow> 's \<Rightarrow> 'e + 's" where
  "fold_ok f [] s = Inr s"
| "fold_ok f (x # xs) s = and_then (f x s) (fold_ok f xs)"

subsection \<open>validate_tenant_isolation\<close>

type_synonym source_key = "string \<times> string \<times> int \<times> string \<times> string \<times> string"
type_synonym vector_key = "string \<times> int \<times> string \<times> string \<times> string"

record owners =
  ow_slugs :: "(string, string) dict"
  ow_sources :: "(source_key, string \<times> string) dict"
  ow_vectors :: "(vector_key, string) dict"
  ow_paths :: "(string, string) dict"

definition no_owners :: owners where
  "no_owners = \<lparr>ow_slugs = [], ow_sources = [], ow_vectors = [], ow_paths = []\<rparr>"

definition slug_of :: "tenant_profile \<Rightarrow> string" where
  "slug_of p = (if tp_slug p = [] then tp_company p else tp_slug p)"

definition source_key_of :: "tenant_profile \<Rightarrow> string \<Rightarrow> source_key" where
  "source_key_of p table = (let db = tp_database p; v = database_values db in
     (if is_postgres db then ''postgres'' else ''mysql'', casefold (db_host v), db_port v, db_database v,
      if is_postgres db then schema_name db else [], table))"

definition resources_of :: "tenant_profile \<Rightarrow> (string \<times> string) list" where
  "resources_of p = (let v = database_values (tp_database p) in
     [(''search-data'', db_search_table v), (''result-data'', db_result_table v)])"

definition vector_key_of :: "tenant_profile \<Rightarrow> company_database \<Rightarrow> vector_key" where
  "vector_key_of p db = (let v = database_values db in
     (db_host v, db_port v, db_database v, if is_postgres db then schema_name db else [], sg_table (tp_storage p)))"

definition claim_source :: "tenant_profile \<Rightarrow> string \<times> string \<Rightarrow> owners \<Rightarrow> py_error + owners" where
  "claim_source p rt s = (let key = source_key_of p (snd rt) in
     case map_of (ow_sources s) key of
       Some owner \<Rightarrow>
         if fst owner \<noteq> tp_company p then Inl (ValueError ''Tenants share a company table'')
         else Inr (s\<lparr>ow_sources := AList.update key (tp_company p, fst rt) (ow_sources s)\<rparr>)
     | None \<Rightarrow> Inr (s\<lparr>ow_sources := AList.update key (tp_company p, fst rt) (ow_sources s)\<rparr>))"

definition claim_resources :: "(string \<Rightarrow> string) \<Rightarrow> tenant_profile \<Rightarrow> owners \<Rightarrow> py_error + owners" where
  "claim_resources resolve p s =
     (case map_of (ow_slugs s) (slug_of p) of
        Some _ \<Rightarrow> Inl (ValueError ''Tenants share API endpoint slug'')
      | None \<Rightarrow>
          and_then (fold_ok (claim_source p) (resources_of p)
              (s\<lparr>ow_slugs := AList.update (slug_of p) (tp_company p) (ow_slugs s)\<rparr>)) (\<lambda>s1.
          case sg_database (tp_storage p) of
            None \<Rightarrow> Inl (ValueError ''Tenant has no pgvector database'')
          | Some db \<Rightarrow>
              if map_of (ow_vectors s1) (vector_key_of p db) \<noteq> None
              then Inl (ValueError ''Tenants share pgvector table'')
              else
                let path = resolve (sg_bm25_path (tp_storage p)) in
                if map_of (ow_paths s1) path \<noteq> None then Inl (ValueError ''Tenants share BM25 path'')
                else Inr (s1\<lparr>ow_vectors := AList.update (vector_key_of p db) (tp_company p) (ow_vectors s1),
                             ow_paths := AList.update path (tp_company p) (ow_paths s1)\<rparr>)))"

definition validate_tenant_isolation :: "(string \<Rightarrow> string) \<Rightarrow> tenant_profile list \<Rightarrow> py_error + unit" where
  "validate_tenant_isolation resolve ps =
     and_then (fold_ok (claim_resources resolve) ps no_owners) (\<lambda>_. Inr ())"

subsection \<open>discover_tenant_profiles\<close>

definition add_profile ::
  "string \<Rightarrow> environment \<Rightarrow> string \<times> pyval option \<Rightarrow> (string, tenant_profile) dict
     \<Rightarrow> py_error + (string, tenant_profile) dict" where
  "add_profile project env doc ps =
     and_then (load_tenant_profile project env (fst doc) (snd doc)) (\<lambda>p.
       if map_of ps (tp_company p) \<noteq> None then Inl (ValueError ''Duplicate tenant profile'')
       else Inr (AList.update (tp_company p) p ps))"

definition discover_tenant_profiles ::
  "string \<Rightarrow> (string \<Rightarrow> string) \<Rightarrow> environment \<Rightarrow> (string \<times> pyval option) list option
     \<Rightarrow> py_error + (string, tenant_profile) dict" where
  "discover_tenant_profiles project resolve env docs =
     (case docs of
        None \<Rightarrow> Inr []
      | Some files \<Rightarrow>
          and_then (fold_ok (add_profile project env) (sort_key (\<lambda>d. fst d @ ''.yaml'') files) []) (\<lambda>profiles.
          and_then (validate_tenant_isolation resolve (map snd profiles)) (\<lambda>_.
            Inr profiles)))"

subsection \<open>TenantRegistry\<close>

record tenant_registry =
  rg_profiles :: "(string, tenant_profile) dict"
  rg_endpoints :: "(string, tenant_profile) dict"
  rg_keys :: "(string, string) dict"

definition tenant_keys :: "environment \<Rightarrow> (string, string list) dict \<Rightarrow> string \<Rightarrow> tenant_profile \<Rightarrow> string list" where
  "tenant_keys env supplied cid p =
     (let given_keys = filter (\<lambda>v. v \<noteq> []) (map strip (case map_of supplied cid of None \<Rightarrow> [] | Some ks \<Rightarrow> ks)) in
      if given_keys \<noteq> [] then given_keys
      else filter (\<lambda>v. v \<noteq> []) (map (\<lambda>name. strip (case env name of None \<Rightarrow> [] | Some v \<Rightarrow> v)) (tp_key_envs p)))"

definition own_key :: "(string \<Rightarrow> string) \<Rightarrow> string \<Rightarrow> string \<Rightarrow> (string, string) dict \<Rightarrow> py_error + (string, string) dict" where
  "own_key sha cid key owned =
     (case map_of owned (sha key) of
        Some _ \<Rightarrow> Inl (ValueError ''Tenants share an API key'')
      | None \<Rightarrow> Inr (AList.update (sha key) cid owned))"

definition own_keys ::
  "(string \<Rightarrow> string) \<Rightarrow> environment \<Rightarrow> (string, string list) dict \<Rightarrow> bool \<Rightarrow> string \<times> tenant_profile
     \<Rightarrow> (string, string) dict \<Rightarrow> py_error + (string, string) dict" where
  "own_keys sha env supplied required entry owned =
     (let keys = tenant_keys env supplied (fst entry) (snd entry) in
      if required \<and> keys = [] then Inl (ValueError ''Tenant has no configured API key'')
      else fold_ok (own_key sha (fst entry)) keys owned)"

definition registry_init ::
  "(string \<Rightarrow> string) \<Rightarrow> (string \<Rightarrow> string) \<Rightarrow> environment \<Rightarrow> (string, string list) dict \<Rightarrow> bool
     \<Rightarrow> (string, tenant_profile) dict \<Rightarrow> py_error + tenant_registry" where
  "registry_init sha resolve env supplied required profiles =
     (if profiles = [] then Inl (ValueError ''At least one tenant profile is required'')
      else and_then (validate_tenant_isolation resolve (map snd profiles)) (\<lambda>_.
           and_then (fold_ok (own_keys sha env supplied required) profiles []) (\<lambda>owned.
             Inr \<lparr>rg_profiles = profiles,
                  rg_endpoints = fold (\<lambda>(_, p). AList.update (slug_of p) p) profiles [],
                  rg_keys = owned\<rparr>)))"

definition load_tenant_registry ::
  "(string \<Rightarrow> string) \<Rightarrow> string \<Rightarrow> (string \<Rightarrow> string) \<Rightarrow> environment \<Rightarrow> bool
     \<Rightarrow> (string \<times> pyval option) list option \<Rightarrow> py_error + tenant_registry" where
  "load_tenant_registry sha project resolve env required docs =
     and_then (discover_tenant_profiles project resolve env docs) (registry_init sha resolve env [] required)"

definition registry_get :: "tenant_registry \<Rightarrow> string \<Rightarrow> py_error + tenant_profile" where
  "registry_get r company = and_then (validate_tenant_id company) (\<lambda>cid.
     case map_of (rg_profiles r) cid of None \<Rightarrow> Inl (KeyError ''Unknown tenant'') | Some p \<Rightarrow> Inr p)"

definition resolve_api_key :: "(string \<Rightarrow> string) \<Rightarrow> tenant_registry \<Rightarrow> string \<Rightarrow> tenant_profile option" where
  "resolve_api_key sha r key =
     (if key = [] then None
      else case map_of (rg_keys r) (sha key) of
        None \<Rightarrow> None
      | Some cid \<Rightarrow> if cid = [] then None else map_of (rg_profiles r) cid)"

definition resolve_endpoint :: "tenant_registry \<Rightarrow> string \<Rightarrow> tenant_profile option" where
  "resolve_endpoint r slug =
     (case validate_tenant_id slug of Inl _ \<Rightarrow> None | Inr s \<Rightarrow> map_of (rg_endpoints r) s)"

subsection \<open>Isolation\<close>

text \<open>What two tenants must not share\<close>

definition source_keys :: "tenant_profile \<Rightarrow> source_key list" where
  "source_keys p = map (\<lambda>rt. source_key_of p (snd rt)) (resources_of p)"

definition isolated :: "(string \<Rightarrow> string) \<Rightarrow> tenant_profile \<Rightarrow> tenant_profile \<Rightarrow> bool" where
  "isolated resolve p q \<longleftrightarrow> slug_of p \<noteq> slug_of q
     \<and> (tp_company p \<noteq> tp_company q \<longrightarrow> set (source_keys p) \<inter> set (source_keys q) = {})
     \<and> map_option (vector_key_of p) (sg_database (tp_storage p)) \<noteq> map_option (vector_key_of q) (sg_database (tp_storage q))
     \<and> resolve (sg_bm25_path (tp_storage p)) \<noteq> resolve (sg_bm25_path (tp_storage q))"

lemma isolated_sym: "isolated resolve p q \<Longrightarrow> isolated resolve q p"
  by (auto simp: isolated_def)

text \<open>The owner tables hold every resource of the tenants already looked at.\<close>

definition owned_by :: "(string \<Rightarrow> string) \<Rightarrow> owners \<Rightarrow> tenant_profile \<Rightarrow> bool" where
  "owned_by resolve s p \<longleftrightarrow> map_of (ow_slugs s) (slug_of p) \<noteq> None
     \<and> (\<forall>k \<in> set (source_keys p). \<exists>r. map_of (ow_sources s) k = Some (tp_company p, r))
     \<and> (\<forall>db. sg_database (tp_storage p) = Some db \<longrightarrow> map_of (ow_vectors s) (vector_key_of p db) \<noteq> None)
     \<and> map_of (ow_paths s) (resolve (sg_bm25_path (tp_storage p))) \<noteq> None"

lemma claim_source_Inr:
  assumes "claim_source p rt s = Inr t"
  shows "t = s\<lparr>ow_sources := AList.update (source_key_of p (snd rt)) (tp_company p, fst rt) (ow_sources s)\<rparr>"
    and "\<forall>o1. map_of (ow_sources s) (source_key_of p (snd rt)) = Some o1 \<longrightarrow> fst o1 = tp_company p"
  using assms by (auto simp: claim_source_def Let_def split: option.splits if_splits)

lemma fold_claim_source:
  assumes "fold_ok (claim_source p) rts s = Inr t"
  shows "ow_slugs t = ow_slugs s \<and> ow_vectors t = ow_vectors s \<and> ow_paths t = ow_paths s
     \<and> (\<forall>rt \<in> set rts. \<forall>o1. map_of (ow_sources s) (source_key_of p (snd rt)) = Some o1 \<longrightarrow> fst o1 = tp_company p)
     \<and> (\<forall>rt \<in> set rts. \<exists>r. map_of (ow_sources t) (source_key_of p (snd rt)) = Some (tp_company p, r))
     \<and> (\<forall>k c r. map_of (ow_sources s) k = Some (c, r) \<longrightarrow> (\<exists>r'. map_of (ow_sources t) k = Some (c, r')))"
  using assms
proof (induction rts arbitrary: s)
  case (Cons rt rts)
  from Cons.prems obtain u where u: "claim_source p rt s = Inr u" and rest: "fold_ok (claim_source p) rts u = Inr t"
    by (auto simp: and_then_Inr)
  note step = claim_source_Inr [OF u] and IH = Cons.IH [OF rest]
  define k0 where "k0 = source_key_of p (snd rt)"
  have mu: "map_of (ow_sources u) k = (if k = k0 then Some (tp_company p, fst rt) else map_of (ow_sources s) k)" for k
    by (simp add: step(1) update_conv' k0_def)
  have keep: "\<exists>r'. map_of (ow_sources t) k = Some (c, r')" if "map_of (ow_sources s) k = Some (c, r)" for k c r
  proof -
    have "\<exists>r1. map_of (ow_sources u) k = Some (c, r1)"
      using that step(2) mu [of k] by (auto simp: k0_def split: if_splits)
    then show ?thesis using IH by blast
  qed
  have "map_of (ow_sources u) k0 = Some (tp_company p, fst rt)" by (simp add: mu)
  then have here: "\<exists>r. map_of (ow_sources t) k0 = Some (tp_company p, r)" using IH by blast
  have early: "fst o1 = tp_company p"
    if "rt1 \<in> set rts" "map_of (ow_sources s) (source_key_of p (snd rt1)) = Some o1" for rt1 o1
  proof (cases "source_key_of p (snd rt1) = k0")
    case True
    then show ?thesis using that(2) step(2) by (simp add: k0_def)
  next
    case False
    then have "map_of (ow_sources u) (source_key_of p (snd rt1)) = Some o1" using that(2) mu by simp
    then show ?thesis using IH that(1) by blast
  qed
  have same: "ow_slugs u = ow_slugs s" "ow_vectors u = ow_vectors s" "ow_paths u = ow_paths s"
    by (simp_all add: step(1))
  have others: "ow_slugs t = ow_slugs u" "ow_vectors t = ow_vectors u" "ow_paths t = ow_paths u"
    and later: "\<forall>rt1 \<in> set rts. \<exists>r. map_of (ow_sources t) (source_key_of p (snd rt1)) = Some (tp_company p, r)"
    using IH by blast+
  show ?case
    unfolding set_simps ball_simps same others
    using step(2) keep here [unfolded k0_def] early later by blast
qed simp

lemma claim_resources_Inr:
  assumes step: "claim_resources resolve p s = Inr t"
  shows "owned_by resolve t p" and "\<forall>q. owned_by resolve s q \<longrightarrow> owned_by resolve t q \<and> isolated resolve q p"
    and "sg_database (tp_storage p) \<noteq> None"
proof -
  define s0 where "s0 = s\<lparr>ow_slugs := AList.update (slug_of p) (tp_company p) (ow_slugs s)\<rparr>"
  from step obtain u db where fresh: "map_of (ow_slugs s) (slug_of p) = None"
    and u: "fold_ok (claim_source p) (resources_of p) s0 = Inr u" and db: "sg_database (tp_storage p) = Some db"
    and vec: "map_of (ow_vectors u) (vector_key_of p db) = None"
    and path: "map_of (ow_paths u) (resolve (sg_bm25_path (tp_storage p))) = None"
    and t: "t = u\<lparr>ow_vectors := AList.update (vector_key_of p db) (tp_company p) (ow_vectors u),
                  ow_paths := AList.update (resolve (sg_bm25_path (tp_storage p))) (tp_company p) (ow_paths u)\<rparr>"
    by (auto simp: claim_resources_def s0_def Let_def and_then_Inr split: option.splits if_splits)
  note F = fold_claim_source [OF u]
  have slugs: "ow_slugs t = AList.update (slug_of p) (tp_company p) (ow_slugs s)" using F by (simp add: t s0_def)
  have srcs: "ow_sources t = ow_sources u" "ow_sources s0 = ow_sources s" by (simp_all add: t s0_def)
  have vps: "ow_vectors u = ow_vectors s" "ow_paths u = ow_paths s" using F by (simp_all add: s0_def)
  show "owned_by resolve t p"
    unfolding owned_by_def using F db by (auto simp: s0_def slugs srcs t update_conv' source_keys_def)
  show "sg_database (tp_storage p) \<noteq> None" using db by simp
  show "\<forall>q. owned_by resolve s q \<longrightarrow> owned_by resolve t q \<and> isolated resolve q p"
  proof (intro allI impI conjI)
    fix q assume q: "owned_by resolve s q"
    show "owned_by resolve t q"
      unfolding owned_by_def
    proof (intro conjI ballI allI impI)
      show "map_of (ow_slugs t) (slug_of q) \<noteq> None" using q by (simp add: slugs update_conv' owned_by_def)
      fix k assume "k \<in> set (source_keys q)"
      then obtain r where "map_of (ow_sources s0) k = Some (tp_company q, r)" using q srcs by (auto simp: owned_by_def)
      then show "\<exists>r. map_of (ow_sources t) k = Some (tp_company q, r)" unfolding srcs(1) using F by blast
    next
      fix db' assume "sg_database (tp_storage q) = Some db'"
      then show "map_of (ow_vectors t) (vector_key_of q db') \<noteq> None"
        using q vps by (simp add: t update_conv' owned_by_def)
    next
      show "map_of (ow_paths t) (resolve (sg_bm25_path (tp_storage q))) \<noteq> None"
        using q vps by (simp add: t update_conv' owned_by_def)
    qed
    have src: "tp_company q = tp_company p" if k: "k \<in> set (source_keys q)" "k \<in> set (source_keys p)" for k
    proof -
      from k(1) q obtain r where r: "map_of (ow_sources s0) k = Some (tp_company q, r)"
        using srcs by (auto simp: owned_by_def)
      from k(2) obtain rt where "rt \<in> set (resources_of p)" "k = source_key_of p (snd rt)"
        by (auto simp: source_keys_def)
      with F r show ?thesis by fastforce
    qed
    show "isolated resolve q p"
      unfolding isolated_def
    proof (intro conjI impI)
      show "slug_of q \<noteq> slug_of p" using q fresh by (auto simp: owned_by_def)
      show "set (source_keys q) \<inter> set (source_keys p) = {}" if "tp_company q \<noteq> tp_company p"
        using src that by blast
      show "map_option (vector_key_of q) (sg_database (tp_storage q)) \<noteq> map_option (vector_key_of p) (sg_database (tp_storage p))"
        using q vec vps db by (cases "sg_database (tp_storage q)") (auto simp: owned_by_def)
      show "resolve (sg_bm25_path (tp_storage q)) \<noteq> resolve (sg_bm25_path (tp_storage p))"
        using q path vps by (auto simp: owned_by_def)
    qed
  qed
qed

lemma fold_claims_isolate:
  assumes "fold_ok (claim_resources resolve) ps s = Inr t" and "\<forall>q \<in> set qs. owned_by resolve s q"
  shows "sorted_wrt (isolated resolve) ps \<and> (\<forall>q \<in> set qs. \<forall>p \<in> set ps. isolated resolve q p)"
  using assms
proof (induction ps arbitrary: s qs)
  case (Cons p ps)
  from Cons.prems(1) obtain u where u: "claim_resources resolve p s = Inr u" "fold_ok (claim_resources resolve) ps u = Inr t"
    by (auto simp: and_then_Inr)
  note C = claim_resources_Inr [OF u(1)]
  have "\<forall>q \<in> set (p # qs). owned_by resolve u q" using C Cons.prems(2) by simp
  from Cons.IH [OF u(2) this] C(2) Cons.prems(2) show ?case by auto
qed simp

lemma isolation_pairwise [registry_facts]:
  "validate_tenant_isolation resolve ps = Inr u \<Longrightarrow> sorted_wrt (isolated resolve) ps"
  using fold_claims_isolate [where qs = "[]"] by (force simp: validate_tenant_isolation_def and_then_Inr)

lemma sorted_wrt_sym_pair:
  assumes "sorted_wrt R xs" and "\<And>x y. R x y \<Longrightarrow> R y x" and "x \<in> set xs" "y \<in> set xs" "x \<noteq> y"
  shows "R x y"
  using assms by (induction xs) auto

subsection \<open>Discovery\<close>

lemma loaded_company:
  "load_tenant_profile project env stem parsed = Inr p \<Longrightarrow> tp_company p = stem \<and> tenant_id_ok stem"
  unfolding load_tenant_profile_def
  by (auto simp: and_then_Inr company_ok_def dest!: load_company_ok split: option.splits pyval.splits)

definition profiles_ok :: "(string, tenant_profile) dict \<Rightarrow> bool" where
  "profiles_ok ps \<longleftrightarrow> distinct (map fst ps) \<and> (\<forall>(c, p) \<in> set ps. tp_company p = c \<and> tenant_id_ok c)"

lemma AList_update_absent: "map_of m k = None \<Longrightarrow> AList.update k v m = m @ [(k, v)]"
  by (induction m) (auto split: if_splits)

lemma add_profiles_ok:
  assumes "fold_ok (add_profile project env) docs ps = Inr qs" and "profiles_ok ps"
  shows "profiles_ok qs"
  using assms
proof (induction docs arbitrary: ps)
  case (Cons d docs)
  from Cons.prems(1) obtain p where p: "load_tenant_profile project env (fst d) (snd d) = Inr p"
    and new: "map_of ps (tp_company p) = None"
    and rest: "fold_ok (add_profile project env) docs (AList.update (tp_company p) p ps) = Inr qs"
    by (auto simp: and_then_Inr add_profile_def [of _ _ d] split: if_splits)
  have "profiles_ok (AList.update (tp_company p) p ps)"
    using Cons.prems(2) loaded_company [OF p] new
    by (auto simp: profiles_ok_def AList_update_absent map_of_eq_None_iff)
  then show ?case by (rule Cons.IH [OF rest])
qed simp

lemma discovered_profiles_ok [registry_facts]:
  "discover_tenant_profiles project resolve env docs = Inr ps \<Longrightarrow> profiles_ok ps"
proof -
  have start: "profiles_ok []" by (simp add: profiles_ok_def)
  assume "discover_tenant_profiles project resolve env docs = Inr ps"
  then show "profiles_ok ps"
    using add_profiles_ok [OF _ start] start
    unfolding discover_tenant_profiles_def by (auto simp: and_then_Inr split: option.splits)
qed

lemma tenant_id_not_empty: "tenant_id_ok c \<Longrightarrow> c \<noteq> []"
  by (auto simp: tenant_id_ok_def)

subsection \<open>Keys and endpoints\<close>

lemma fold_own_key:
  assumes "fold_ok (own_key sha cid) keys owned = Inr owned'"
  shows "map_of owned' d = Some c \<longleftrightarrow> map_of owned d = Some c \<or> c = cid \<and> d \<in> sha ` set keys"
  using assms
proof (induction keys arbitrary: owned)
  case (Cons key keys)
  from Cons.prems have new: "map_of owned (sha key) = None"
    and rest: "fold_ok (own_key sha cid) keys (AList.update (sha key) cid owned) = Inr owned'"
    by (auto simp: own_key_def [of _ _ key] and_then_Inr split: option.splits)
  show ?case unfolding Cons.IH [OF rest] using new by (auto simp: update_conv')
qed simp

lemma fold_own_keys:
  assumes "fold_ok (own_keys sha env supplied required) ps owned = Inr owned'"
  shows "map_of owned' d = Some c \<longleftrightarrow>
      map_of owned d = Some c \<or> (\<exists>p. (c, p) \<in> set ps \<and> d \<in> sha ` set (tenant_keys env supplied c p))"
  using assms
proof (induction ps arbitrary: owned)
  case (Cons entry ps)
  obtain cid p where entry: "entry = (cid, p)" by fastforce
  from Cons.prems obtain u where u: "fold_ok (own_key sha cid) (tenant_keys env supplied cid p) owned = Inr u"
    and rest: "fold_ok (own_keys sha env supplied required) ps u = Inr owned'"
    by (auto simp: entry own_keys_def [of _ _ _ _ "(cid, p)"] Let_def and_then_Inr split: if_splits)
  show ?case unfolding Cons.IH [OF rest] fold_own_key [OF u] entry by auto
qed simp

lemma fold_update_distinct:
  assumes "distinct (map f xs)"
  shows "map_of (fold (\<lambda>x. AList.update (f x) (g x)) xs m) k = Some v \<longleftrightarrow>
     (\<exists>x \<in> set xs. f x = k \<and> g x = v) \<or> k \<notin> f ` set xs \<and> map_of m k = Some v"
  using assms
proof (induction xs arbitrary: m)
  case (Cons x xs)
  show ?case unfolding fold.simps o_apply Cons.IH [OF distinct_tl [OF Cons.prems, simplified]]
    using Cons.prems by (auto simp: update_conv')
qed simp

lemma isolated_slugs: "sorted_wrt (isolated resolve) ps \<Longrightarrow> distinct (map slug_of ps)"
  by (induction ps) (auto simp: isolated_def)

text \<open>What a registry that was loaded holds\<close>

lemma loaded_registry [registry_facts]:
  assumes "load_tenant_registry sha project resolve env required docs = Inr r"
  shows "profiles_ok (rg_profiles r)"
    and "sorted_wrt (isolated resolve) (map snd (rg_profiles r))"
    and "map_of (rg_keys r) d = Some c \<longleftrightarrow>
          (\<exists>p. map_of (rg_profiles r) c = Some p \<and> d \<in> sha ` set (tenant_keys env [] c p))"
    and "map_of (rg_endpoints r) s = Some p \<longleftrightarrow> (\<exists>c. map_of (rg_profiles r) c = Some p \<and> slug_of p = s)"
proof -
  from assms obtain u where ps: "discover_tenant_profiles project resolve env docs = Inr (rg_profiles r)"
    and iso: "validate_tenant_isolation resolve (map snd (rg_profiles r)) = Inr u"
    and keys: "fold_ok (own_keys sha env [] required) (rg_profiles r) [] = Inr (rg_keys r)"
    and ends: "rg_endpoints r = fold (\<lambda>(_, p). AList.update (slug_of p) p) (rg_profiles r) []"
    by (auto simp: load_tenant_registry_def registry_init_def and_then_Inr split: if_splits)
  show ok: "profiles_ok (rg_profiles r)" by (rule discovered_profiles_ok [OF ps])
  then have dist: "distinct (map fst (rg_profiles r))" by (simp add: profiles_ok_def)
  note in_map = map_of_eq_Some_iff [OF dist]
  show pair: "sorted_wrt (isolated resolve) (map snd (rg_profiles r))" by (rule isolation_pairwise [OF iso])
  show "map_of (rg_keys r) d = Some c \<longleftrightarrow>
      (\<exists>p. map_of (rg_profiles r) c = Some p \<and> d \<in> sha ` set (tenant_keys env [] c p))"
    using fold_own_keys [OF keys, of d c] in_map by auto
  have "distinct (map (\<lambda>x. slug_of (snd x)) (rg_profiles r))" using isolated_slugs [OF pair] by (simp add: o_def)
  from fold_update_distinct [OF this, of snd "[]" s p]
  show "map_of (rg_endpoints r) s = Some p \<longleftrightarrow> (\<exists>c. map_of (rg_profiles r) c = Some p \<and> slug_of p = s)"
    unfolding ends case_prod_beta in_map by force
qed

lemma registry_get_Inr:
  "registry_get r a = Inr p \<Longrightarrow> \<exists>c. map_of (rg_profiles r) c = Some p"
  by (auto simp: registry_get_def and_then_Inr split: option.splits)


lemma api_key_owner:
  assumes "load_tenant_registry sha project resolve env required docs = Inr r" and "inj sha"
  shows "resolve_api_key sha r key = Some p \<longleftrightarrow>
      (\<exists>c. map_of (rg_profiles r) c = Some p \<and> key \<in> set (tenant_keys env [] c p))"
proof
  note L = loaded_registry [OF assms(1)]
  have named: "c \<noteq> []" if "map_of (rg_profiles r) c = Some q" for c q
    using L(1) map_of_SomeD [OF that] by (auto simp: profiles_ok_def tenant_id_ok_def)
  have keys: "k \<noteq> []" if "k \<in> set (tenant_keys env [] c q)" for k c q
    using that by (auto simp: tenant_keys_def Let_def split: if_splits)
  {
    assume "resolve_api_key sha r key = Some p"
    then obtain c where "map_of (rg_keys r) (sha key) = Some c" "map_of (rg_profiles r) c = Some p"
      by (auto simp: resolve_api_key_def split: if_splits option.splits)
    then show "\<exists>c. map_of (rg_profiles r) c = Some p \<and> key \<in> set (tenant_keys env [] c p)"
      using L(3) inj_image_mem_iff [OF assms(2)] by (metis option.inject)
  next
    assume "\<exists>c. map_of (rg_profiles r) c = Some p \<and> key \<in> set (tenant_keys env [] c p)"
    then obtain c where c: "map_of (rg_profiles r) c = Some p" "key \<in> set (tenant_keys env [] c p)" by blast
    then have "map_of (rg_keys r) (sha key) = Some c" unfolding L(3) by blast
    then show "resolve_api_key sha r key = Some p"
      using c named keys by (auto simp: resolve_api_key_def)
  }
qed

lemma endpoint_owner:
  assumes "load_tenant_registry sha project resolve env required docs = Inr r"
  shows "resolve_endpoint r slug = Some p \<longleftrightarrow>
      (\<exists>c. map_of (rg_profiles r) c = Some p \<and> validate_tenant_id slug = Inr (slug_of p))"
  by (cases "validate_tenant_id slug") (auto simp: resolve_endpoint_def loaded_registry(4) [OF assms])

text \<open>
  C14: The key tables of a loaded registry agree with the configuration they are built from: a
  key of the API resolves to a profile exactly when it is configured for it, so it names one
  tenant, and an endpoint exactly to the profile with that slug (no two keys have the same
  digest).
\<close>

theorem credentials_identify_tenant:
  assumes "load_tenant_registry sha project resolve env required docs = Inr r" and "inj sha"
  shows "(resolve_api_key sha r key = Some p \<longleftrightarrow>
            (\<exists>c. map_of (rg_profiles r) c = Some p \<and> key \<in> set (tenant_keys env [] c p)))
     \<and> (resolve_endpoint r slug = Some p \<longleftrightarrow>
            (\<exists>c. map_of (rg_profiles r) c = Some p \<and> validate_tenant_id slug = Inr (slug_of p)))"
  using api_key_owner [OF assms] endpoint_owner [OF assms(1)] by blast

subsection \<open>Two tenants\<close>

text \<open>The sample tenants, with the identity for the digest and for \<open>Path.resolve\<close>\<close>

definition beta_document :: pyval where
  "beta_document = VDict [(''payload'', VDict [(''public_fields'', VList [VStr ''id''])]),
     (''api'', VDict [(''key_envs'', VList [VStr ''GAINR_API_KEY''])])]"

definition sample_docs :: "(string \<times> pyval option) list" where
  "sample_docs = [(''beta'', Some beta_document), (''acme'', Some acme_document)]"

definition load_samples :: "py_error + tenant_registry" where
  "load_samples = load_tenant_registry id ''/srv'' id sample_env True (Some sample_docs)"

lemma samples_registered: "map_sum (\<lambda>_. ()) (\<lambda>r. (map fst (rg_profiles r), rg_keys r, map (\<lambda>e. slug_of (snd e)) (rg_profiles r))) load_samples
    = Inr ([''acme'', ''beta''], [(''key-two'', ''acme''), (''key-one'', ''beta'')], [''acme'', ''beta''])"
  by code_simp

lemma map_sum_Inr_iff: "map_sum f g x = Inr y \<longleftrightarrow> (\<exists>r. x = Inr r \<and> g r = y)"
  by (cases x) auto

lemma samples_found:
  obtains r p q where "load_samples = Inr r" "map_of (rg_profiles r) ''acme'' = Some p" "tp_company p = ''acme''"
    "map_of (rg_profiles r) ''beta'' = Some q" "tp_company q = ''beta''" "map_of (rg_keys r) ''key-two'' = Some ''acme''"
    "slug_of p = ''acme''"
proof -
  obtain r where loaded: "load_samples = Inr r" and parts: "(map fst (rg_profiles r), rg_keys r, map (\<lambda>e. slug_of (snd e)) (rg_profiles r))
      = ([''acme'', ''beta''], [(''key-two'', ''acme''), (''key-one'', ''beta'')], [''acme'', ''beta''])"
    using samples_registered [unfolded map_sum_Inr_iff] by (elim exE conjE) (rule that)
  note r = loaded conjunct1 [OF parts [unfolded prod.inject]] conjunct2 [OF parts [unfolded prod.inject], THEN conjunct1]
    conjunct2 [OF parts [unfolded prod.inject], THEN conjunct2]
  from r(2) obtain p q where ps: "rg_profiles r = [(''acme'', p), (''beta'', q)]" by (auto simp: map_eq_Cons_conv)
  have "profiles_ok (rg_profiles r)" by (rule loaded_registry(1) [OF r(1) [unfolded load_samples_def]])
  then have "tp_company p = ''acme''" "tp_company q = ''beta''" by (simp_all add: ps profiles_ok_def)
  then show thesis using that [of r p q] r ps by simp
qed


theorem credentials_identify_tenant_witness:
  "\<exists>r p. load_samples = Inr r \<and> resolve_api_key id r ''key-two'' = Some p
     \<and> (\<exists>c. map_of (rg_profiles r) c = Some p \<and> ''key-two'' \<in> set (tenant_keys sample_env [] c p))
     \<and> (resolve_endpoint r ''acme'' = Some p \<longleftrightarrow>
          (\<exists>c. map_of (rg_profiles r) c = Some p \<and> validate_tenant_id ''acme'' = Inr (slug_of p)))"
proof -
  obtain r p q where s: "load_samples = Inr r" "map_of (rg_profiles r) ''acme'' = Some p"
    "map_of (rg_keys r) ''key-two'' = Some ''acme''" by (rule samples_found)
  then have found: "resolve_api_key id r ''key-two'' = Some p" by (simp add: resolve_api_key_def)
  from credentials_identify_tenant [OF s(1) [unfolded load_samples_def] inj_on_id, of "''key-two''" p "''acme''"]
    found s(1) show ?thesis by blast
qed

end
