(* ===== verification/Tenant_Pool.thy ===== *)
theory Tenant_Pool
  imports Tenant_Registry Index_Generations
begin

text \<open>
  The services of the tenants: \<open>TenantServicePool\<close> of \<open>api/tenants.py\<close>, with the manifests of
  \<open>Index_Generations\<close> it reads and changes, and the gate of \<open>api/__init__.py\<close> that leads a request to
  its service. What one lock protects is one step; a hot swap is two, since other requests run while its
  service is built, and the reload lock allows one swap at a time. Building a service, its readiness
  and its number of active requests are arguments; instants are microseconds, one per step.
\<close>

named_theorems pool_facts \<open>facts of the service pool\<close>

subsection \<open>State\<close>

record pool_service =
  ps_id :: nat
  ps_company :: string
  ps_slot :: string
  ps_generation :: string

datatype swap_kind = Reload | Activate | Rolling

record pool_swap =
  sw_kind :: swap_kind
  sw_company :: string
  sw_tenant :: string
  sw_service :: pool_service

text \<open>
  \<open>sp_pending\<close> is the holder of the reload lock. History: \<open>sp_leases\<close> says when a service was handed
  out, \<open>sp_closed\<close> when one was closed, why, and how many requests it had then.
\<close>

datatype close_reason = Collected | Rejected | Shutdown

record pool_close =
  ce_time :: int
  ce_service :: pool_service
  ce_reason :: close_reason
  ce_active :: nat

record service_pool =
  sp_services :: "(string, pool_service) dict"
  sp_retired :: "(int \<times> pool_service) list"
  sp_failures :: "(string, string) dict"
  sp_pending :: "pool_swap option"
  sp_files :: "string \<Rightarrow> manifest_file"
  sp_next :: nat
  sp_leases :: "(int \<times> nat) list"
  sp_closed :: "pool_close list"

definition new_pool :: service_pool where
  "new_pool = \<lparr>sp_services = [], sp_retired = [], sp_failures = [], sp_pending = None, sp_files = (\<lambda>_. Absent),
     sp_next = 0, sp_leases = [], sp_closed = []\<rparr>"

definition SERVICE_RETIRE_GRACE :: int where
  "SERVICE_RETIRE_GRACE = 300 * 1000000"

fun error_class :: "py_error \<Rightarrow> string" where
  "error_class (ValueError m) = ''ValueError''"
| "error_class (RuntimeError m) = ''RuntimeError''"
| "error_class (KeyError m) = ''KeyError''"
| "error_class (TypeError m) = ''TypeError''"
| "error_class (OtherError m) = m"

subsection \<open>Retiring and closing\<close>

definition retire :: "int \<Rightarrow> pool_service \<Rightarrow> service_pool \<Rightarrow> service_pool" where
  "retire now s pool = pool\<lparr>sp_retired := sp_retired pool @ [(now + SERVICE_RETIRE_GRACE, s)]\<rparr>"

definition close_service ::
  "int \<Rightarrow> (nat \<Rightarrow> nat) \<Rightarrow> close_reason \<Rightarrow> pool_service \<Rightarrow> service_pool \<Rightarrow> service_pool" where
  "close_service now active reason s pool = pool\<lparr>sp_closed := sp_closed pool @
     [\<lparr>ce_time = now, ce_service = s, ce_reason = reason, ce_active = active (ps_id s)\<rparr>]\<rparr>"

definition is_ready :: "int \<Rightarrow> (nat \<Rightarrow> nat) \<Rightarrow> int \<times> pool_service \<Rightarrow> bool" where
  "is_ready now active entry \<longleftrightarrow> fst entry \<le> now \<and> active (ps_id (snd entry)) = 0"

definition collect_retired ::
  "int \<Rightarrow> (nat \<Rightarrow> nat) \<Rightarrow> service_pool \<Rightarrow> pool_service list \<times> service_pool" where
  "collect_retired now active pool =
     (map snd (filter (is_ready now active) (sp_retired pool)),
      pool\<lparr>sp_retired := filter (\<lambda>e. \<not> is_ready now active e) (sp_retired pool)\<rparr>)"

fun evict :: "nat \<Rightarrow> int \<Rightarrow> (string, pool_service) dict \<Rightarrow> (int \<times> pool_service) list
    \<Rightarrow> (string, pool_service) dict \<times> (int \<times> pool_service) list" where
  "evict cap now [] retired = ([], retired)"
| "evict cap now (e # services) retired =
     (if cap < length (e # services)
      then evict cap now services (retired @ [(now + SERVICE_RETIRE_GRACE, snd e)])
      else (e # services, retired))"

subsection \<open>get\<close>

text \<open>\<open>_build_service\<close>: a new service, or the exception of its construction\<close>

definition build_service ::
  "string \<Rightarrow> string \<Rightarrow> string \<Rightarrow> py_error option \<Rightarrow> service_pool \<Rightarrow> py_error + pool_service \<times> service_pool" where
  "build_service tenant slot generation failure pool =
     (case failure of Some e \<Rightarrow> Inl e
      | None \<Rightarrow> Inr (\<lparr>ps_id = sp_next pool, ps_company = tenant, ps_slot = slot, ps_generation = generation\<rparr>,
                      pool\<lparr>sp_next := Suc (sp_next pool)\<rparr>))"

definition find_generation ::
  "tenant_registry \<Rightarrow> string \<Rightarrow> service_pool \<Rightarrow> py_error + tenant_profile \<times> resolved_generation" where
  "find_generation reg company pool =
     and_then (registry_get reg company) (\<lambda>p.
     and_then (resolve_generation (tp_company p) [] None (sp_files pool (tp_company p))) (\<lambda>g.
       Inr (p, g)))"

definition lend :: "int \<Rightarrow> pool_service \<Rightarrow> service_pool \<Rightarrow> service_pool" where
  "lend now s pool = pool\<lparr>sp_leases := sp_leases pool @ [(now, ps_id s)]\<rparr>"

definition touch_service :: "string \<Rightarrow> pool_service \<Rightarrow> service_pool \<Rightarrow> service_pool" where
  "touch_service company s pool = pool\<lparr>sp_services := move_to_end company s (sp_services pool)\<rparr>"

definition add_service :: "nat \<Rightarrow> int \<Rightarrow> string \<Rightarrow> pool_service \<Rightarrow> service_pool \<Rightarrow> service_pool" where
  "add_service max_services now company s pool =
     (case evict max_services now (AList.update company s (sp_services pool)) (sp_retired pool) of
        (services, retired) \<Rightarrow>
          pool\<lparr>sp_services := services, sp_retired := retired,
               sp_failures := AList.delete company (sp_failures pool)\<rparr>)"

definition pool_get ::
  "tenant_registry \<Rightarrow> nat \<Rightarrow> int \<Rightarrow> (nat \<Rightarrow> nat) \<Rightarrow> string \<Rightarrow> py_error option \<Rightarrow> service_pool
     \<Rightarrow> (py_error + pool_service) \<times> service_pool" where
  "pool_get reg max_services now active company failure pool =
     (case collect_retired now active pool of (ready, p1) \<Rightarrow>
        case map_of (sp_services p1) company of
          Some s \<Rightarrow>
            (Inr s, lend now s (fold (close_service now active Collected) ready (touch_service company s p1)))
        | None \<Rightarrow>
            (case and_then (find_generation reg company p1) (\<lambda>(profile, g).
                    build_service (tp_company profile) (rg_slot g) (rg_generation g) failure p1) of
               Inl e \<Rightarrow> (Inl e, p1\<lparr>sp_failures := AList.update company (error_class e) (sp_failures p1)\<rparr>)
             | Inr (s, p2) \<Rightarrow>
                 (Inr s, lend now s (fold (close_service now active Collected) ready
                    (add_service max_services now company s p2)))))"

text \<open>\<open>readiness_checks\<close>: (ok, loaded, error class); \<open>readiness\<close> is that of a loaded service\<close>

record pool_check =
  pk_ok :: bool
  pk_loaded :: bool
  pk_error :: "string option"

definition readiness_checks ::
  "tenant_registry \<Rightarrow> (pool_service \<Rightarrow> py_error + bool) \<Rightarrow> service_pool \<Rightarrow> (string \<times> pool_check) list" where
  "readiness_checks reg readiness pool = map (\<lambda>(company, _). (company,
     case map_of (sp_services pool) company of
       None \<Rightarrow> \<lparr>pk_ok = map_of (sp_failures pool) company = None, pk_loaded = False,
                pk_error = map_of (sp_failures pool) company\<rparr>
     | Some s \<Rightarrow> (case readiness s of
         Inr ok \<Rightarrow> \<lparr>pk_ok = ok, pk_loaded = True, pk_error = None\<rparr>
       | Inl e \<Rightarrow> \<lparr>pk_ok = False, pk_loaded = True, pk_error = Some (error_class e)\<rparr>))) (rg_profiles reg)"

subsection \<open>Hot swaps\<close>

record swap_report =
  sr_status :: string
  sr_slot :: string
  sr_generation :: string
  sr_previous :: "string option"

text \<open>
  The first half, with the reload lock taken: the service that shall serve next is built and asked
  whether it is ready. \<open>ready\<close> is the answer or the exception of \<open>readiness()\<close>.
\<close>

definition start_swap ::
  "int \<Rightarrow> (nat \<Rightarrow> nat) \<Rightarrow> swap_kind \<Rightarrow> string \<Rightarrow> string \<Rightarrow> string \<Rightarrow> string \<Rightarrow> py_error option \<Rightarrow> py_error + bool
     \<Rightarrow> service_pool \<Rightarrow> (py_error + swap_report option) \<times> service_pool" where
  "start_swap now active kind company tenant slot generation failure ready pool =
     (case build_service tenant slot generation failure pool of
        Inl e \<Rightarrow> (Inl e, pool)
      | Inr (s, p1) \<Rightarrow>
          (case ready of
             Inl e \<Rightarrow> (Inl e, p1)
           | Inr False \<Rightarrow> (Inl (RuntimeError ''Candidate index generation is not ready.''),
                            close_service now active Rejected s p1)
           | Inr True \<Rightarrow> (Inr None, p1\<lparr>sp_pending :=
               Some \<lparr>sw_kind = kind, sw_company = company, sw_tenant = tenant, sw_service = s\<rparr>\<rparr>)))"

definition begin_reload ::
  "tenant_registry \<Rightarrow> int \<Rightarrow> (nat \<Rightarrow> nat) \<Rightarrow> string \<Rightarrow> py_error option \<Rightarrow> py_error + bool \<Rightarrow> service_pool
     \<Rightarrow> (py_error + swap_report option) \<times> service_pool" where
  "begin_reload reg now active company failure ready pool =
     (case find_generation reg company pool of
        Inl e \<Rightarrow> (Inl e, pool)
      | Inr (profile, g) \<Rightarrow>
          (let start = start_swap now active Reload company (tp_company profile) (rg_slot g) (rg_generation g) failure ready pool
           in case map_of (sp_services pool) company of
                None \<Rightarrow> start
              | Some current \<Rightarrow>
                  if ps_generation current = rg_generation g \<and> ps_slot current = rg_slot g
                  then (Inr (Some \<lparr>sr_status = ''unchanged'', sr_slot = rg_slot g, sr_generation = rg_generation g,
                                   sr_previous = None\<rparr>), pool)
                  else start))"

definition check_candidate :: "string \<Rightarrow> string \<Rightarrow> pydict \<Rightarrow> py_error + unit" where
  "check_candidate slot generation state =
     (if py_eq (VStr slot) (dget state ''active_slot'') then Inl (RuntimeError ''Candidate slot is already active.'')
      else and_then (if map_of (slots_of state) slot = None then Inr [] else slot_dict (slots_of state) slot) (\<lambda>d.
        if \<not> py_eq (dget d ''status'') (VStr ''ready'')
        then Inl (RuntimeError ''Candidate index generation is not ready.'')
        else if \<not> py_eq (dget d ''generation'') (VStr generation)
        then Inl (RuntimeError ''Candidate generation does not match the manifest.'')
        else if slot \<notin> set SLOTS then Inl (ValueError ''Unsupported index-generation slot'')
        else Inr ()))"

definition begin_activate ::
  "tenant_registry \<Rightarrow> int \<Rightarrow> (nat \<Rightarrow> nat) \<Rightarrow> string \<Rightarrow> string \<Rightarrow> string \<Rightarrow> py_error option \<Rightarrow> py_error + bool
     \<Rightarrow> service_pool \<Rightarrow> (py_error + swap_report option) \<times> service_pool" where
  "begin_activate reg now active company slot generation failure ready pool =
     (case and_then (registry_get reg company) (\<lambda>p.
            and_then (read_generation_state (tp_company p) [] (sp_files pool (tp_company p))) (\<lambda>state.
            and_then (check_candidate slot generation state) (\<lambda>_. Inr p))) of
        Inl e \<Rightarrow> (Inl e, pool)
      | Inr p \<Rightarrow> start_swap now active Activate company (tp_company p) slot generation failure ready pool)"

text \<open>The slot and the generation a rollback goes back to\<close>

definition rollback_target :: "pydict \<Rightarrow> py_error + string \<times> string" where
  "rollback_target state =
     (case dget state ''previous_slot'' of
        VStr previous \<Rightarrow>
          if previous \<notin> {''a'', ''b''} \<or> previous = active_slot state
          then Inl (RuntimeError ''No previous index generation is available.'')
          else and_then (if map_of (slots_of state) previous = None then Inr [] else slot_dict (slots_of state) previous) (\<lambda>d.
            if \<not> truthy (dget d ''generation'')
            then Inl (RuntimeError ''Previous index generation is not initialized.'')
            else Inr (previous, py_str (dget d ''generation'')))
      | VList _ \<Rightarrow> Inl (TypeError ''unhashable type'')
      | VDict _ \<Rightarrow> Inl (TypeError ''unhashable type'')
      | _ \<Rightarrow> Inl (RuntimeError ''No previous index generation is available.''))"

definition begin_rollback ::
  "tenant_registry \<Rightarrow> int \<Rightarrow> (nat \<Rightarrow> nat) \<Rightarrow> string \<Rightarrow> py_error option \<Rightarrow> py_error + bool \<Rightarrow> service_pool
     \<Rightarrow> (py_error + swap_report option) \<times> service_pool" where
  "begin_rollback reg now active company failure ready pool =
     (case and_then (registry_get reg company) (\<lambda>p.
            and_then (read_generation_state (tp_company p) [] (sp_files pool (tp_company p))) (\<lambda>state.
            and_then (rollback_target state) (\<lambda>target. Inr (p, target)))) of
        Inl e \<Rightarrow> (Inl e, pool)
      | Inr (p, slot, generation) \<Rightarrow>
          start_swap now active Rolling company (tp_company p) slot generation failure ready pool)"

text \<open>The second half, under the lock of the pool: the manifest changes and new requests are routed.\<close>

definition install_service :: "int \<Rightarrow> string \<Rightarrow> pool_service \<Rightarrow> service_pool \<Rightarrow> service_pool" where
  "install_service now company s pool =
     (let p = pool\<lparr>sp_services := move_to_end company s (sp_services pool)\<rparr>
      in case map_of (sp_services pool) company of None \<Rightarrow> p | Some previous \<Rightarrow> retire now previous p)"

definition swap_manifest ::
  "string \<Rightarrow> pool_swap \<Rightarrow> manifest_file \<Rightarrow> (py_error + pydict) \<times> manifest_file" where
  "swap_manifest stamp w file =
     (case sw_kind w of
        Reload \<Rightarrow> (Inr [], file)
      | Activate \<Rightarrow> promote_candidate (sw_tenant w) stamp (ps_slot (sw_service w)) (ps_generation (sw_service w)) file
      | Rolling \<Rightarrow> restore_active_slot (sw_tenant w) stamp (ps_slot (sw_service w)) file)"

definition finish_swap ::
  "int \<Rightarrow> (nat \<Rightarrow> nat) \<Rightarrow> string \<Rightarrow> pool_swap \<Rightarrow> service_pool \<Rightarrow> (py_error + swap_report option) \<times> service_pool" where
  "finish_swap now active stamp w pool =
     (let s = sw_service w; c = sw_tenant w; p0 = pool\<lparr>sp_pending := None\<rparr>
      in case swap_manifest stamp w (sp_files pool c) of
           (Inl e, file1) \<Rightarrow> (Inl e, close_service now active Rejected s (p0\<lparr>sp_files := (sp_files p0)(c := file1)\<rparr>))
         | (Inr state, file1) \<Rightarrow>
             (Inr (Some \<lparr>sr_status = (case sw_kind w of Reload \<Rightarrow> ''reloaded'' | Activate \<Rightarrow> ''promoted'' | Rolling \<Rightarrow> ''rolled_back''),
                         sr_slot = ps_slot s, sr_generation = ps_generation s,
                         sr_previous = map_option ps_generation (map_of (sp_services pool) (sw_company w))\<rparr>),
              install_service now (sw_company w) s (p0\<lparr>sp_files := (sp_files p0)(c := file1)\<rparr>)))"

text \<open>\<open>close\<close>\<close>

definition close_pool :: "int \<Rightarrow> (nat \<Rightarrow> nat) \<Rightarrow> service_pool \<Rightarrow> service_pool" where
  "close_pool now active pool =
     fold (close_service now active Shutdown) (map snd (sp_services pool) @ map snd (sp_retired pool))
       (pool\<lparr>sp_services := [], sp_retired := []\<rparr>)"

subsection \<open>Runs\<close>

datatype pool_event =
    GetService string "py_error option"
  | BeginReload string "py_error option" "py_error + bool"
  | BeginActivate string string string "py_error option" "py_error + bool"
  | BeginRollback string "py_error option" "py_error + bool"
  | FinishSwap string
  | RecordCandidate string string slot string pydict
  | ClosePool

definition unless_pending :: "service_pool \<Rightarrow> service_pool \<Rightarrow> service_pool" where
  "unless_pending pool p = (if sp_pending pool = None then p else pool)"

text \<open>\<open>RecordCandidate\<close> is the ingestion process, which writes the manifest of its tenant.\<close>

fun pool_step :: "tenant_registry \<Rightarrow> nat \<Rightarrow> int \<Rightarrow> (nat \<Rightarrow> nat) \<Rightarrow> pool_event \<Rightarrow> service_pool \<Rightarrow> service_pool" where
  "pool_step reg cap now active (GetService c failure) pool = snd (pool_get reg cap now active c failure pool)"
| "pool_step reg cap now active (BeginReload c failure ready) pool =
     unless_pending pool (snd (begin_reload reg now active c failure ready pool))"
| "pool_step reg cap now active (BeginActivate c slot g failure ready) pool =
     unless_pending pool (snd (begin_activate reg now active c slot g failure ready pool))"
| "pool_step reg cap now active (BeginRollback c failure ready) pool =
     unless_pending pool (snd (begin_rollback reg now active c failure ready pool))"
| "pool_step reg cap now active (FinishSwap stamp) pool =
     (case sp_pending pool of None \<Rightarrow> pool | Some w \<Rightarrow> snd (finish_swap now active stamp w pool))"
| "pool_step reg cap now active (RecordCandidate tenant stamp slot g validation) pool =
     pool\<lparr>sp_files := (sp_files pool)(tenant :=
       snd (record_candidate_ready tenant stamp (slot_name slot) g validation (sp_files pool tenant)))\<rparr>"
| "pool_step reg cap now active ClosePool pool = close_pool now active pool"

text \<open>
  The runs for the routing claim: callers name tenants by the id of their profile, a recorded generation
  has a name, and no candidate is recorded for a tenant while its rollback is under way.
\<close>

fun event_ok :: "tenant_registry \<Rightarrow> service_pool \<Rightarrow> pool_event \<Rightarrow> bool" where
  "event_ok reg pool (GetService c failure) = (map_of (rg_profiles reg) c \<noteq> None)"
| "event_ok reg pool (BeginReload c failure ready) = (map_of (rg_profiles reg) c \<noteq> None)"
| "event_ok reg pool (BeginActivate c slot g failure ready) = (map_of (rg_profiles reg) c \<noteq> None)"
| "event_ok reg pool (BeginRollback c failure ready) = (map_of (rg_profiles reg) c \<noteq> None)"
| "event_ok reg pool (FinishSwap stamp) = True"
| "event_ok reg pool (RecordCandidate tenant stamp slot g validation) = (g \<noteq> []
     \<and> (\<forall>w. sp_pending pool = Some w \<longrightarrow> sw_kind w = Rolling \<longrightarrow> sw_tenant w \<noteq> tenant))"
| "event_ok reg pool ClosePool = True"

inductive pool_run :: "bool \<Rightarrow> tenant_registry \<Rightarrow> nat \<Rightarrow> int \<Rightarrow> service_pool \<Rightarrow> bool"
  for strict :: bool and reg :: tenant_registry and cap :: nat where
  pool_start: "pool_run strict reg cap now new_pool"
| pool_next: "pool_run strict reg cap clock pool \<Longrightarrow> clock \<le> now \<Longrightarrow> (strict \<Longrightarrow> event_ok reg pool ev) \<Longrightarrow>
    pool_run strict reg cap now (pool_step reg cap now active ev pool)"

subsection \<open>Every service is in one place\<close>

definition pending_services :: "service_pool \<Rightarrow> pool_service list" where
  "pending_services pool = (case sp_pending pool of None \<Rightarrow> [] | Some w \<Rightarrow> [sw_service w])"

definition all_services :: "service_pool \<Rightarrow> pool_service list" where
  "all_services pool = map snd (sp_services pool) @ map snd (sp_retired pool) @ pending_services pool
     @ map ce_service (sp_closed pool)"

text \<open>
  A service that was handed out is not collected before the grace time has passed, nor with requests in it.
\<close>

definition lease_ok :: "int \<Rightarrow> service_pool \<Rightarrow> int \<Rightarrow> nat \<Rightarrow> bool" where
  "lease_ok now pool t i \<longleftrightarrow> t \<le> now \<and> i < sp_next pool
     \<and> (\<forall>s \<in> set (pending_services pool). ps_id s \<noteq> i)
     \<and> (\<forall>(nb, s) \<in> set (sp_retired pool). ps_id s = i \<longrightarrow> t + SERVICE_RETIRE_GRACE \<le> nb)
     \<and> (\<forall>c \<in> set (sp_closed pool). ce_reason c \<noteq> Shutdown \<longrightarrow> ps_id (ce_service c) = i \<longrightarrow>
          t + SERVICE_RETIRE_GRACE \<le> ce_time c)"

definition lease_inv :: "int \<Rightarrow> service_pool \<Rightarrow> bool" where
  "lease_inv now pool \<longleftrightarrow> distinct (map ps_id (all_services pool))
     \<and> (\<forall>s \<in> set (all_services pool). ps_id s < sp_next pool)
     \<and> (\<forall>(t, i) \<in> set (sp_leases pool). lease_ok now pool t i)
     \<and> (\<forall>c \<in> set (sp_closed pool). ce_reason c = Collected \<longrightarrow> ce_active c = 0)"

lemma distinct_submultiset:
  assumes "distinct (map f xs)" and "mset ys \<subseteq># mset xs"
  shows "distinct (map f ys)"
proof -
  obtain M where "mset xs = mset ys + M" using assms(2) by (auto simp: mset_subset_eq_exists_conv)
  moreover obtain zs where "mset zs = M" using ex_mset by blast
  ultimately have "mset (map f xs) = mset (map f (ys @ zs))" by simp
  then have "distinct (map f (ys @ zs))" using assms(1) mset_eq_imp_distinct_iff by blast
  then show ?thesis by simp
qed

text \<open>What a step may do: create a service, and move the others on to the next place.\<close>

lemma pool_moves_inv:
  assumes inv: "lease_inv clock p" and le: "clock \<le> now"
    and fresh: "\<forall>s \<in> set fresh. ps_id s = sp_next p" "length fresh \<le> 1" "sp_next q = sp_next p + length fresh"
    and all: "mset (all_services q) \<subseteq># mset (all_services p) + mset fresh"
    and leases: "sp_leases q = sp_leases p"
    and retired: "\<And>nb s. (nb, s) \<in> set (sp_retired q) \<Longrightarrow>
        (nb, s) \<in> set (sp_retired p) \<or> now + SERVICE_RETIRE_GRACE \<le> nb"
    and pending: "\<And>s. s \<in> set (pending_services q) \<Longrightarrow> s \<in> set (pending_services p) \<or> s \<in> set fresh"
    and closed: "\<And>c. c \<in> set (sp_closed q) \<Longrightarrow> c \<in> set (sp_closed p)
        \<or> ce_reason c = Collected \<and> ce_active c = 0 \<and> (\<exists>nb \<le> ce_time c. (nb, ce_service c) \<in> set (sp_retired p))
        \<or> ce_reason c = Rejected \<and> (ce_service c \<in> set (pending_services p) \<or> ce_service c \<in> set fresh)
        \<or> ce_reason c = Shutdown"
  shows "lease_inv now q"
proof -
  note I = inv [unfolded lease_inv_def]
  have old: "ps_id s < sp_next p" if "s \<in> set (all_services p)" for s using I that by blast
  have members: "s \<in> set (all_services p) \<or> s \<in> set fresh" if "s \<in> set (all_services q)" for s
    using set_mset_mono [OF all] that by auto
  have dist: "distinct (map ps_id (all_services p @ fresh))"
    using conjunct1 [OF I] fresh(1,2) by (cases fresh) (auto dest!: old)
  have "distinct (map ps_id (all_services q))" by (rule distinct_submultiset [OF dist]) (use all in simp)
  moreover have "ps_id s < sp_next q" if "s \<in> set (all_services q)" for s
    using members [OF that] old fresh(1) fresh(3) by (cases fresh) (fastforce dest: old)+
  moreover have "lease_ok now q t i" if lease: "(t, i) \<in> set (sp_leases q)" for t i
  proof -
    have "lease_ok clock p t i" using I lease unfolding leases by blast
    note L = this [unfolded lease_ok_def, THEN conjunct1] this [unfolded lease_ok_def, THEN conjunct2, THEN conjunct1]
      this [unfolded lease_ok_def, THEN conjunct2, THEN conjunct2, THEN conjunct1]
      this [unfolded lease_ok_def, THEN conjunct2, THEN conjunct2, THEN conjunct2, THEN conjunct1]
      this [unfolded lease_ok_def, THEN conjunct2, THEN conjunct2, THEN conjunct2, THEN conjunct2]
    have fresh_new: "ps_id s \<noteq> i" if "s \<in> set fresh" for s using fresh(1) that L(2) by auto
    have "t + SERVICE_RETIRE_GRACE \<le> nb" if "(nb, s) \<in> set (sp_retired q)" "ps_id s = i" for nb s
      using retired [OF that(1)] L(1,4) le that(2) by auto
    moreover have "t + SERVICE_RETIRE_GRACE \<le> ce_time c"
      if "c \<in> set (sp_closed q)" "ce_reason c \<noteq> Shutdown" "ps_id (ce_service c) = i" for c
      using closed [OF that(1)] L(3-5) fresh_new that(2,3) by fastforce
    moreover have "ps_id s \<noteq> i" if "s \<in> set (pending_services q)" for s
      using pending [OF that] L(3) fresh_new by blast
    ultimately show ?thesis using L(1,2) le fresh(3) unfolding lease_ok_def by auto
  qed
  moreover have "ce_active c = 0" if "c \<in> set (sp_closed q)" "ce_reason c = Collected" for c
    using closed [OF that(1)] that(2) I by auto
  ultimately show ?thesis unfolding lease_inv_def by blast
qed

lemma lend_inv:
  assumes inv: "lease_inv now p" and s: "s \<in> snd ` set (sp_services p)"
  shows "lease_inv now (lend now s p)"
proof -
  note I = inv [unfolded lease_inv_def]
  from s have mem: "s \<in> set (all_services p)" by (auto simp: all_services_def)
  have apart: "ps_id x \<noteq> ps_id s"
    if "x \<in> set (map snd (sp_retired p) @ pending_services p @ map ce_service (sp_closed p))" for x
  proof -
    have "distinct (map ps_id (map snd (sp_services p)) @ map ps_id (map snd (sp_retired p) @ pending_services p @ map ce_service (sp_closed p)))"
      using I by (simp add: all_services_def)
    then have disj: "ps_id ` set (map snd (sp_services p)) \<inter> ps_id ` set (map snd (sp_retired p) @ pending_services p @ map ce_service (sp_closed p)) = {}"
      unfolding distinct_append set_map by blast
    have "ps_id s \<in> ps_id ` set (map snd (sp_services p))" using s by (intro imageI) simp
    moreover note imageI [OF that, of ps_id]
    ultimately show ?thesis using disj unfolding disjoint_iff by metis
  qed
  have same: "all_services (lend now s p) = all_services p" "pending_services (lend now s p) = pending_services p"
    by (simp_all add: lend_def all_services_def pending_services_def)
  have unchanged: "lease_ok now (lend now s p) t i = lease_ok now p t i" for t i
    by (simp add: lease_ok_def same(2)) (simp add: lend_def)
  have "ps_id s < sp_next p" using I mem by blast
  moreover have "\<forall>x \<in> set (pending_services p). ps_id x \<noteq> ps_id s" using apart by simp
  moreover have "\<forall>(nb, x) \<in> set (sp_retired p). ps_id x \<noteq> ps_id s" using apart by fastforce
  moreover have "\<forall>c \<in> set (sp_closed p). ps_id (ce_service c) \<noteq> ps_id s" using apart by simp
  ultimately have "lease_ok now p now (ps_id s)" unfolding lease_ok_def by blast
  then show ?thesis
    using I unfolding lease_inv_def same unchanged by (simp add: lend_def)
qed

subsection \<open>Each step keeps it\<close>

lemma closing_fields [simp]:
  "sp_services (close_service now active r s p) = sp_services p" "sp_retired (close_service now active r s p) = sp_retired p"
  "sp_pending (close_service now active r s p) = sp_pending p" "sp_next (close_service now active r s p) = sp_next p"
  "sp_leases (close_service now active r s p) = sp_leases p" "sp_files (close_service now active r s p) = sp_files p"
  "sp_failures (close_service now active r s p) = sp_failures p"
  by (simp_all add: close_service_def)

lemma closing_all [simp]:
  "sp_services (fold (close_service now active r) ss p) = sp_services p"
  "sp_retired (fold (close_service now active r) ss p) = sp_retired p"
  "sp_pending (fold (close_service now active r) ss p) = sp_pending p"
  "sp_next (fold (close_service now active r) ss p) = sp_next p"
  "sp_leases (fold (close_service now active r) ss p) = sp_leases p"
  "sp_files (fold (close_service now active r) ss p) = sp_files p"
  "sp_failures (fold (close_service now active r) ss p) = sp_failures p"
  "sp_closed (fold (close_service now active r) ss p) = sp_closed p @
     map (\<lambda>s. \<lparr>ce_time = now, ce_service = s, ce_reason = r, ce_active = active (ps_id s)\<rparr>) ss"
  by (induction ss arbitrary: p) (simp_all add: close_service_def)

lemma evict_eq:
  "evict cap now services retired = (drop (length services - cap) services,
     retired @ map (\<lambda>e. (now + SERVICE_RETIRE_GRACE, snd e)) (take (length services - cap) services))"
  by (induction services arbitrary: retired) (auto simp: Suc_diff_le not_less)

lemma mset_move_to_end:
  assumes "distinct (map fst d)" and "map_of d k = Some v"
  shows "mset (map snd (move_to_end k w d)) = mset (map snd d) - {#v#} + {#w#}"
  using assms
proof (induction d)
  case (Cons e d)
  show ?case
  proof (cases "fst e = k")
    case True
    have "fst x \<noteq> k" if "x \<in> set d" for x
      using Cons.prems(1) True that by (metis distinct.simps(2) imageI list.map(2) list.set_map)
    then have "filter (\<lambda>kv. fst kv \<noteq> k) d = d" by simp
    then show ?thesis using True Cons.prems by (simp add: move_to_end_def)
  next
    case False
    then have v: "map_of d k = Some v" using Cons.prems(2) by (cases e) simp
    then have "v \<in># mset (map snd d)" by (force dest: map_of_SomeD)
    then show ?thesis using False Cons v by (cases e) (auto simp: move_to_end_def)
  qed
qed simp

lemma move_to_end_absent: "map_of d k = None \<Longrightarrow> move_to_end k w d = d @ [(k, w)]"
  by (induction d) (auto simp: move_to_end_def split: if_splits)

definition keys_distinct :: "service_pool \<Rightarrow> bool" where
  "keys_distinct p \<longleftrightarrow> distinct (map fst (sp_services p))"

text \<open>\<open>get\<close>: retired services are closed, the service is found or built, and handed out.\<close>

lemma closing_eq: "fold (close_service now active r) ss p = p\<lparr>sp_closed := sp_closed p @
     map (\<lambda>s. \<lparr>ce_time = now, ce_service = s, ce_reason = r, ce_active = active (ps_id s)\<rparr>) ss\<rparr>"
  by (induction ss arbitrary: p) (simp_all add: close_service_def)

definition settle :: "int \<Rightarrow> (nat \<Rightarrow> nat) \<Rightarrow> service_pool \<Rightarrow> service_pool" where
  "settle now active p = (case collect_retired now active p of (ready, p1) \<Rightarrow> fold (close_service now active Collected) ready p1)"

lemma settle_fields [simp]:
  "sp_services (settle now active p) = sp_services p" "sp_next (settle now active p) = sp_next p"
  "sp_leases (settle now active p) = sp_leases p" "sp_pending (settle now active p) = sp_pending p"
  "sp_files (settle now active p) = sp_files p"
  "sp_retired (settle now active p) = filter (\<lambda>e. \<not> is_ready now active e) (sp_retired p)"
  by (simp_all add: settle_def collect_retired_def)

lemma settle_inv:
  assumes "lease_inv clock p" and "clock \<le> now"
  shows "lease_inv now (settle now active p)"
proof (rule pool_moves_inv [OF assms, where fresh = "[]"])
  have "mset (map snd (filter (is_ready now active) (sp_retired p)))
      + mset (map snd (filter (\<lambda>e. \<not> is_ready now active e) (sp_retired p))) = mset (map snd (sp_retired p))"
    by (simp flip: image_mset_union add: mset_filter)
  then show "mset (all_services (settle now active p)) \<subseteq># mset (all_services p) + mset []"
    by (simp add: all_services_def pending_services_def settle_def collect_retired_def o_def ac_simps)
next
  fix c assume "c \<in> set (sp_closed (settle now active p))"
  then show "c \<in> set (sp_closed p)
        \<or> ce_reason c = Collected \<and> ce_active c = 0 \<and> (\<exists>nb \<le> ce_time c. (nb, ce_service c) \<in> set (sp_retired p))
        \<or> ce_reason c = Rejected \<and> (ce_service c \<in> set (pending_services p) \<or> ce_service c \<in> set [])
        \<or> ce_reason c = Shutdown"
    by (auto simp: settle_def collect_retired_def is_ready_def)
qed (auto simp: pending_services_def)

lemma touch_inv:
  assumes "lease_inv now p" and "keys_distinct p" and s: "map_of (sp_services p) c = Some s"
  shows "lease_inv now (touch_service c s p) \<and> keys_distinct (touch_service c s p)
     \<and> s \<in> snd ` set (sp_services (touch_service c s p))"
proof (intro conjI)
  have "s \<in># mset (map snd (sp_services p))" using s by (force dest: map_of_SomeD)
  then have "mset (map snd (move_to_end c s (sp_services p))) = mset (map snd (sp_services p))"
    using mset_move_to_end [OF assms(2) [unfolded keys_distinct_def] s, of s] by simp
  then show "lease_inv now (touch_service c s p)"
    by (intro pool_moves_inv [OF assms(1) order_refl, where fresh = "[]"])
      (auto simp: touch_service_def all_services_def pending_services_def simp del: mset_map)
  show "keys_distinct (touch_service c s p)"
    using assms(2) move_to_end_facts(1) by (simp add: keys_distinct_def touch_service_def)
  show "s \<in> snd ` set (sp_services (touch_service c s p))" by (simp add: touch_service_def move_to_end_def)
qed

lemma add_service_eq:
  "map_of (sp_services p) c = None \<Longrightarrow> add_service cap now c s p =
     (let all = sp_services p @ [(c, s)]; n = length all - cap in
      p\<lparr>sp_services := drop n all,
        sp_retired := sp_retired p @ map (\<lambda>e. (now + SERVICE_RETIRE_GRACE, snd e)) (take n all),
        sp_failures := AList.delete c (sp_failures p)\<rparr>)"
  by (simp only: add_service_def AList_update_absent evict_eq Let_def prod.case)

lemma add_inv:
  assumes inv: "lease_inv now p" "keys_distinct p" and new: "map_of (sp_services p) c = None"
    and s: "ps_id s = sp_next p" and cap: "0 < cap" and q: "q = add_service cap now c s (p\<lparr>sp_next := Suc (sp_next p)\<rparr>)"
  shows "lease_inv now q \<and> keys_distinct q \<and> s \<in> snd ` set (sp_services q)"
proof -
  define all where "all = sp_services p @ [(c, s)]"
  define n where "n = length all - cap"
  have fields: "sp_services q = drop n all"
    "sp_retired q = sp_retired p @ map (\<lambda>e. (now + SERVICE_RETIRE_GRACE, snd e)) (take n all)"
    "sp_next q = Suc (sp_next p)" "sp_leases q = sp_leases p" "sp_closed q = sp_closed p" "sp_pending q = sp_pending p"
    using new by (simp_all add: q add_service_eq all_def n_def Let_def del: append_take_drop_id)
  have "mset (map snd (take n all)) + mset (map snd (drop n all)) = mset (map snd (sp_services p)) + {#s#}"
    unfolding mset_append [symmetric] map_append [symmetric] append_take_drop_id by (simp add: all_def)
  then have "mset (all_services q) = mset (all_services p) + mset [s]"
    by (simp add: all_services_def pending_services_def fields o_def ac_simps del: mset_map)
  then have "lease_inv now q"
    by (intro pool_moves_inv [OF inv(1) order_refl, where fresh = "[s]"])
      (auto simp: s fields pending_services_def)
  moreover have "distinct (map fst all)" using inv(2) new by (simp add: all_def keys_distinct_def map_of_eq_None_iff)
  then have "keys_distinct q" by (simp add: keys_distinct_def fields drop_map [symmetric])
  moreover have "n \<le> length (sp_services p)" using cap by (simp add: n_def all_def)
  then have "s \<in> snd ` set (sp_services q)" by (simp add: fields all_def)
  ultimately show ?thesis by blast
qed

lemma pool_get_cases:
  assumes "pool_get reg cap now active c failure p = (r, q)"
  obtains (hit) s where "map_of (sp_services p) c = Some s" "r = Inr s"
      "q = lend now s (touch_service c s (settle now active p))"
    | (failed) e fs where "map_of (sp_services p) c = None" "r = Inl e"
      "q = p\<lparr>sp_retired := filter (\<lambda>e. \<not> is_ready now active e) (sp_retired p), sp_failures := fs\<rparr>"
    | (built) s profile g where "map_of (sp_services p) c = None" "r = Inr s"
      "registry_get reg c = Inr profile" "resolve_generation (tp_company profile) [] None (sp_files p (tp_company profile)) = Inr g"
      "s = \<lparr>ps_id = sp_next p, ps_company = tp_company profile, ps_slot = rg_slot g, ps_generation = rg_generation g\<rparr>"
      "q = lend now s (add_service cap now c s ((settle now active p)\<lparr>sp_next := Suc (sp_next p)\<rparr>))"
proof (cases "map_of (sp_services p) c")
  case (Some s)
  define p1 where "p1 = p\<lparr>sp_retired := filter (\<lambda>e. \<not> is_ready now active e) (sp_retired p)\<rparr>"
  define ready where "ready = map snd (filter (is_ready now active) (sp_retired p))"
  have collected: "collect_retired now active p = (ready, p1)" by (simp add: collect_retired_def ready_def p1_def)
  have "fold (close_service now active Collected) ready (touch_service c s p1) = touch_service c s (settle now active p)"
    by (rule service_pool.equality) (simp_all add: touch_service_def settle_def collected)
  then have "q = lend now s (touch_service c s (settle now active p))" "r = Inr s"
    using assms Some by (simp_all add: pool_get_def collected p1_def)
  then show thesis using hit Some by blast
next
  case None
  define p1 where "p1 = p\<lparr>sp_retired := filter (\<lambda>e. \<not> is_ready now active e) (sp_retired p)\<rparr>"
  define ready where "ready = map snd (filter (is_ready now active) (sp_retired p))"
  have collected: "collect_retired now active p = (ready, p1)" by (simp add: collect_retired_def ready_def p1_def)
  have p1: "sp_services p1 = sp_services p" "sp_files p1 = sp_files p" "sp_next p1 = sp_next p" by (simp_all add: p1_def)
  show thesis
  proof (cases "and_then (find_generation reg c p1) (\<lambda>(profile, g).
                    build_service (tp_company profile) (rg_slot g) (rg_generation g) failure p1)")
    case (Inl e)
    then have "r = Inl e" "q = p1\<lparr>sp_failures := AList.update c (error_class e) (sp_failures p1)\<rparr>"
      using assms None by (simp_all add: pool_get_def collected p1)
    then show thesis using failed None by (simp add: p1_def)
  next
    case (Inr x)
    obtain s p2 where x: "x = (s, p2)" by fastforce
    from Inr x obtain profile g where g: "registry_get reg c = Inr profile"
      "resolve_generation (tp_company profile) [] None (sp_files p (tp_company profile)) = Inr g"
      and s: "s = \<lparr>ps_id = sp_next p, ps_company = tp_company profile, ps_slot = rg_slot g, ps_generation = rg_generation g\<rparr>"
      and p2: "p2 = p1\<lparr>sp_next := Suc (sp_next p)\<rparr>"
      by (auto simp: and_then_Inr find_generation_def build_service_def p1 split: option.splits)
    have "r = Inr s" "q = lend now s (fold (close_service now active Collected) ready (add_service cap now c s p2))"
      using assms None Inr by (simp_all add: pool_get_def collected p1 x)
    moreover have "fold (close_service now active Collected) ready (add_service cap now c s p2)
        = add_service cap now c s ((settle now active p)\<lparr>sp_next := Suc (sp_next p)\<rparr>)"
      using None by (simp add: add_service_eq p2 p1 settle_def collected closing_eq Let_def)
    ultimately show thesis using built None g s by simp
  qed
qed

lemma pool_get_inv:
  assumes inv: "lease_inv clock p" "keys_distinct p" and le: "clock \<le> now" and cap: "0 < cap"
    and got: "pool_get reg cap now active c failure p = (r, q)"
  shows "lease_inv now q \<and> keys_distinct q"
proof -
  have settled: "lease_inv now (settle now active p)" by (rule settle_inv [OF inv(1) le])
  have keys: "keys_distinct (settle now active p)" using inv(2) by (simp add: keys_distinct_def)
  have lent: "keys_distinct (lend now s x) = keys_distinct x" for s x by (simp add: lend_def keys_distinct_def)
  from got show ?thesis
  proof (cases rule: pool_get_cases)
    case (hit s)
    have "map_of (sp_services (settle now active p)) c = Some s" using hit(1) by simp
    from touch_inv [OF settled keys this] show ?thesis unfolding hit(3) lent using lend_inv by blast
  next
    case (failed e fs)
    have "lease_inv now q" unfolding failed(3)
      by (rule pool_moves_inv [OF inv(1) le, where fresh = "[]"])
        (auto simp: all_services_def pending_services_def intro!: image_mset_subseteq_mono multiset_filter_subset simp: mset_filter)
    then show ?thesis using inv(2) by (simp add: failed(3) keys_distinct_def)
  next
    case (built s profile g)
    have new: "map_of (sp_services (settle now active p)) c = None" "ps_id s = sp_next (settle now active p)"
      using built by simp_all
    from add_inv [OF settled keys new cap refl] show ?thesis unfolding built(6) lent using lend_inv by simp
  qed
qed

lemma same_places_inv:
  assumes "lease_inv clock p" and "clock \<le> now"
    and "sp_services q = sp_services p" "sp_retired q = sp_retired p" "sp_pending q = sp_pending p"
      "sp_next q = sp_next p" "sp_leases q = sp_leases p" "sp_closed q = sp_closed p"
  shows "lease_inv now q"
  by (rule pool_moves_inv [OF assms(1,2), where fresh = "[]"])
    (simp_all add: assms(3-) all_services_def pending_services_def)

lemma start_swap_inv:
  assumes inv: "lease_inv clock p" "keys_distinct p" and le: "clock \<le> now" and idle: "sp_pending p = None"
    and start: "start_swap now active kind c tenant slot g failure ready p = (r, q)"
  shows "lease_inv now q \<and> keys_distinct q"
proof -
  let ?s = "\<lparr>ps_id = sp_next p, ps_company = tenant, ps_slot = slot, ps_generation = g\<rparr>"
  let ?p1 = "p\<lparr>sp_next := Suc (sp_next p)\<rparr>"
  consider "q = p" | "q = ?p1" | "q = close_service now active Rejected ?s ?p1"
    | "q = ?p1\<lparr>sp_pending := Some \<lparr>sw_kind = kind, sw_company = c, sw_tenant = tenant, sw_service = ?s\<rparr>\<rparr>"
    using start by (auto simp: start_swap_def build_service_def split: option.splits sum.splits bool.splits)
  then show ?thesis
  proof cases
    case 1
    then show ?thesis using same_places_inv [OF inv(1) le] inv(2) by simp
  next
    case 2
    have "lease_inv now q" unfolding 2
      by (rule pool_moves_inv [OF inv(1) le, where fresh = "[?s]"])
        (auto simp: all_services_def pending_services_def)
    then show ?thesis using inv(2) by (simp add: 2 keys_distinct_def)
  next
    case 3
    have "lease_inv now q" unfolding 3
      by (rule pool_moves_inv [OF inv(1) le, where fresh = "[?s]"])
        (auto simp: all_services_def pending_services_def close_service_def)
    then show ?thesis using inv(2) by (simp add: 3 keys_distinct_def)
  next
    case 4
    have "lease_inv now q" unfolding 4
      by (rule pool_moves_inv [OF inv(1) le, where fresh = "[?s]"])
        (auto simp: all_services_def pending_services_def idle)
    then show ?thesis using inv(2) by (simp add: 4 keys_distinct_def)
  qed
qed

lemma finish_swap_inv:
  assumes inv: "lease_inv clock p" "keys_distinct p" and le: "clock \<le> now" and w: "sp_pending p = Some w"
    and fin: "finish_swap now active stamp w p = (r, q)"
  shows "lease_inv now q \<and> keys_distinct q"
proof -
  obtain res file1 where m: "swap_manifest stamp w (sp_files p (sw_tenant w)) = (res, file1)" by fastforce
  let ?p0 = "p\<lparr>sp_pending := None, sp_files := (sp_files p)(sw_tenant w := file1)\<rparr>"
  show ?thesis
  proof (cases res)
    case (Inl e)
    then have q: "q = close_service now active Rejected (sw_service w) ?p0"
      using fin m by (simp add: finish_swap_def Let_def)
    have "lease_inv now q" unfolding q
      by (rule pool_moves_inv [OF inv(1) le, where fresh = "[]"])
        (auto simp: all_services_def pending_services_def close_service_def w)
    then show ?thesis using inv(2) by (simp add: q keys_distinct_def)
  next
    case (Inr state)
    then have q: "q = install_service now (sw_company w) (sw_service w) ?p0"
      using fin m by (auto simp: finish_swap_def Let_def)
    have keys: "keys_distinct q"
      using inv(2) move_to_end_facts(1) [OF inv(2) [unfolded keys_distinct_def]]
      by (simp add: q install_service_def keys_distinct_def retire_def Let_def split: option.splits)
    have "lease_inv now q"
    proof (cases "map_of (sp_services p) (sw_company w)")
      case None
      then show ?thesis unfolding q
        by (intro pool_moves_inv [OF inv(1) le, where fresh = "[]"])
          (auto simp: install_service_def move_to_end_absent all_services_def pending_services_def w)
    next
      case (Some previous)
      have "previous \<in># mset (map snd (sp_services p))" using Some by (force dest: map_of_SomeD)
      then have moved: "mset (map snd (move_to_end (sw_company w) (sw_service w) (sp_services p))) + {#previous#}
          = mset (map snd (sp_services p)) + {#sw_service w#}"
        using mset_move_to_end [OF inv(2) [unfolded keys_distinct_def] Some, of "sw_service w"] by simp
      have "mset (all_services q) = mset (map snd (move_to_end (sw_company w) (sw_service w) (sp_services p))) + {#previous#}
          + mset (map snd (sp_retired p)) + mset (map ce_service (sp_closed p))"
        using Some by (simp add: q install_service_def retire_def Let_def all_services_def pending_services_def del: mset_map)
      also have "\<dots> = mset (all_services p)"
        unfolding moved by (simp add: all_services_def pending_services_def w del: mset_map)
      finally show ?thesis
        using Some by (intro pool_moves_inv [OF inv(1) le, where fresh = "[]"])
          (auto simp: q install_service_def retire_def Let_def pending_services_def)
    qed
    then show ?thesis using keys by blast
  qed
qed

lemma close_pool_inv:
  assumes inv: "lease_inv clock p" and le: "clock \<le> now"
  shows "lease_inv now (close_pool now active p) \<and> keys_distinct (close_pool now active p)"
proof
  show "lease_inv now (close_pool now active p)"
    by (rule pool_moves_inv [OF inv le, where fresh = "[]"])
      (auto simp: close_pool_def all_services_def pending_services_def o_def ac_simps)
  show "keys_distinct (close_pool now active p)" by (simp add: close_pool_def keys_distinct_def)
qed

lemma begin_swap_inv:
  assumes inv: "lease_inv clock p" "keys_distinct p" and le: "clock \<le> now" and idle: "sp_pending p = None"
  shows "lease_inv now (snd (begin_reload reg now active c failure ready p)) \<and> keys_distinct (snd (begin_reload reg now active c failure ready p))"
    and "lease_inv now (snd (begin_activate reg now active c slot g failure ready p)) \<and> keys_distinct (snd (begin_activate reg now active c slot g failure ready p))"
    and "lease_inv now (snd (begin_rollback reg now active c failure ready p)) \<and> keys_distinct (snd (begin_rollback reg now active c failure ready p))"
proof -
  have stay: "lease_inv now p \<and> keys_distinct p" using same_places_inv [OF inv(1) le] inv(2) by simp
  have start: "lease_inv now (snd (start_swap now active kind c tenant slot g failure ready p))
      \<and> keys_distinct (snd (start_swap now active kind c tenant slot g failure ready p))" for kind tenant slot g
    using start_swap_inv [OF inv le idle] by (metis prod.collapse)
  show "lease_inv now (snd (begin_reload reg now active c failure ready p)) \<and> keys_distinct (snd (begin_reload reg now active c failure ready p))"
    using stay start by (simp add: begin_reload_def Let_def split: sum.splits prod.splits option.splits)
  show "lease_inv now (snd (begin_activate reg now active c slot g failure ready p)) \<and> keys_distinct (snd (begin_activate reg now active c slot g failure ready p))"
    using stay start unfolding begin_activate_def by (simp split: sum.splits)
  show "lease_inv now (snd (begin_rollback reg now active c failure ready p)) \<and> keys_distinct (snd (begin_rollback reg now active c failure ready p))"
    using stay start unfolding begin_rollback_def by (simp split: sum.splits prod.splits)
qed

lemma pool_step_inv:
  assumes inv: "lease_inv clock p" "keys_distinct p" and le: "clock \<le> now" and cap: "0 < cap"
  shows "lease_inv now (pool_step reg cap now active ev p) \<and> keys_distinct (pool_step reg cap now active ev p)"
proof -
  have stay: "lease_inv now p \<and> keys_distinct p" using same_places_inv [OF inv(1) le] inv(2) by simp
  show ?thesis
  proof (cases ev)
    case (GetService c failure)
    then show ?thesis
      using pool_get_inv [OF inv le cap, of reg active c failure] by (metis pool_step.simps(1) prod.collapse)
  next
    case (FinishSwap stamp)
    then show ?thesis
      using stay finish_swap_inv [OF inv le, of _ active stamp]
      by (cases "sp_pending p") (simp_all, metis prod.collapse)
  next
    case (RecordCandidate tenant stamp slot g validation)
    then show ?thesis using same_places_inv [OF inv(1) le] inv(2) by (simp add: keys_distinct_def)
  next
    case ClosePool
    then show ?thesis using close_pool_inv [OF inv(1) le] by simp
  qed (use stay begin_swap_inv [OF inv le] in \<open>simp_all add: unless_pending_def\<close>)
qed

lemma pool_run_inv:
  assumes "pool_run strict reg cap now p" and "0 < cap"
  shows "lease_inv now p \<and> keys_distinct p"
  using assms(1)
proof (induction rule: pool_run.induct)
  case (pool_start now)
  show ?case by (simp add: lease_inv_def keys_distinct_def new_pool_def all_services_def pending_services_def)
next
  case (pool_next clock p now ev active)
  then show ?case using pool_step_inv [OF _ _ _ assms(2)] by blast
qed

text \<open>
  C30: In every run of the pool a service is in one place only (routed, retired, pending or
  closed), and short of shutting the pool down it is closed only when it has no active request
  and 300 seconds have passed since it was last handed out.
\<close>

theorem leased_service_open:
  assumes "pool_run strict reg cap now p" and "0 < cap"
  shows "distinct (map ps_id (all_services p))
     \<and> (\<forall>ce \<in> set (sp_closed p). ce_reason ce \<noteq> Shutdown \<longrightarrow>
          (ce_reason ce = Collected \<longrightarrow> ce_active ce = 0)
          \<and> (\<forall>(t, i) \<in> set (sp_leases p). i = ps_id (ce_service ce) \<longrightarrow> t + SERVICE_RETIRE_GRACE \<le> ce_time ce))"
  using pool_run_inv [OF assms] unfolding lease_inv_def lease_ok_def by blast

subsection \<open>The generation a request meets\<close>

text \<open>\<open>gen_view\<close>: the manifest shows a two-slot machine whose active slot has a generation.\<close>

definition gen_view :: "string \<Rightarrow> manifest_file \<Rightarrow> gens \<Rightarrow> bool" where
  "gen_view c file g \<longleftrightarrow> file_shows c file g \<and> (\<exists>recorded. gens_ok recorded g)"

lemma gen_view_start: "gen_view c Absent no_gens"
  using gens_ok_start by (auto simp: gen_view_def file_shows_def)

lemma gen_view_resolve:
  assumes "gen_view c file g"
  obtains v where "gs_generation (g_slot (g_active g) g) = Some v"
    "\<And>now. resolve_generation c now None file = Inr \<lparr>rg_slot = g_active g, rg_generation = v\<rparr>"
proof -
  obtain recorded where shown: "file_shows c file g" and ok: "gens_ok recorded g"
    using assms by (auto simp: gen_view_def)
  have slot: "g_active g \<in> set SLOTS" using ok by (simp add: gens_ok_def)
  obtain v where v: "gs_generation (g_slot (g_active g) g) = Some v" "v \<noteq> []"
    using ok unfolding gens_ok_def gen_known_def by blast
  have "resolve_generation c now None file = Inr \<lparr>rg_slot = g_active g, rg_generation = v\<rparr>" for now
  proof -
    obtain state where state: "read_generation_state c now file = Inr state" "state_shows c state g"
      by (rule shown_read [OF shown])
    obtain d where d: "map_of (slots_of state) (g_active g) = Some (VDict d)" "dget d ''generation'' = VStr v"
      by (rule shown_slot [OF state(2) slot]) (simp add: v(1))
    show ?thesis
      using slot v(2) d
      by (simp add: resolve_generation_def state(1) shown_active [OF state(2)] slot_dict_def Let_def or_else_def)
  qed
  with v(1) show thesis by (rule that)
qed

lemma gen_view_record:
  assumes "gen_view c file g" and "generation \<noteq> []"
  shows "gen_view c (snd (record_candidate_ready c stamp (slot_name s) generation validation file))
           (spec_gen (RecordReady s generation validation) g)"
proof -
  obtain recorded where shown: "file_shows c file g" and ok: "gens_ok recorded g"
    using assms(1) by (auto simp: gen_view_def)
  have "gens_ok recorded g \<or> slot_name s \<noteq> g_active g" using ok by blast
  then have "\<exists>rec1. gens_ok rec1 (spec_gen (RecordReady s generation validation) g)"
    using ok gens_ok_record [OF ok assms(2)] by (cases "slot_name s = g_active g") auto
  then show ?thesis
    using gen_step_refines [OF shown, of stamp "RecordReady s generation validation"] by (simp add: gen_view_def)
qed

lemma switched_generation:
  assumes "slot \<in> set SLOTS" and "g_active g \<in> set SLOTS"
  shows "gs_generation (g_slot slot (switch_to slot st g)) = gs_generation (g_slot slot g)"
  using assms by (auto simp: switch_to_def put_slot_def g_slot_def SLOTS_def Let_def)

lemma gen_view_promote:
  assumes view: "gen_view c file g" and promoted: "promote_candidate c stamp slot generation file = (r, file1)"
  shows "case r of Inl e \<Rightarrow> gen_view c file1 g
    | Inr state \<Rightarrow> gen_view c file1 (switch_to slot ''standby'' g) \<and> slot \<in> set SLOTS
        \<and> gs_generation (g_slot slot g) = Some generation"
proof -
  obtain recorded where shown: "file_shows c file g" and ok: "gens_ok recorded g"
    using view by (auto simp: gen_view_def)
  obtain state where state: "state_shows c state g" "ensure_generation_state c stamp file = Inr (state, Parsed (VDict state))"
    by (rule shown_read [OF shown])
  have refined: "file_shows c file1 (spec_gen (Promote slot generation) g)"
    using gen_step_refines [OF shown, of stamp "Promote slot generation"] promoted by simp
  have kept: "file_shows c (Parsed (VDict state)) g" using state(1) by (simp add: file_shows_def)
  show ?thesis
  proof (cases "slot \<in> set SLOTS \<and> slot \<noteq> g_active g")
    case False
    then have "(\<exists>e. r = Inl e) \<and> file1 = Parsed (VDict state)"
    proof (cases "slot = g_active g")
      case True
      then show ?thesis
        using promoted unfolding promote_candidate_def state(2) by (auto simp: Let_def shown_active [OF state(1)])
    next
      case other: False
      then have "map_of (slots_of state) slot = None" using False shown_no_other [OF state(1)] by blast
      then show ?thesis
        using promoted other unfolding promote_candidate_def state(2)
        by (auto simp: Let_def shown_active [OF state(1)] dget_def py_eq.simps)
    qed
    then show ?thesis using kept ok by (auto simp: gen_view_def)
  next
    case True
    obtain d where d: "map_of (slots_of state) slot = Some (VDict d)"
      "dget d ''generation'' = (case gs_generation (g_slot slot g) of None \<Rightarrow> VNone | Some v \<Rightarrow> VStr v)"
      "dget d ''status'' = VStr (gs_status (g_slot slot g))"
      by (rule shown_slot [OF state(1), of slot]) (use True in auto)
    have ready: "py_eq (dget d ''status'') (VStr ''ready'') \<longleftrightarrow> gs_status (g_slot slot g) = ''ready''"
      "py_eq (dget d ''generation'') (VStr generation) \<longleftrightarrow> gs_generation (g_slot slot g) = Some generation"
      unfolding d(2,3) by (simp_all add: py_eq.simps split: option.splits)
    show ?thesis
    proof (cases "gs_status (g_slot slot g) = ''ready'' \<and> gs_generation (g_slot slot g) = Some generation")
      case no: False
      then have "\<exists>e. r = Inl e" "file1 = Parsed (VDict state)"
        using promoted True unfolding promote_candidate_def state(2)
        by (auto simp: Let_def shown_active [OF state(1)] slot_dict_def d(1) ready split: if_splits)
      then show ?thesis using kept ok by (auto simp: gen_view_def)
    next
      case yes: True
      then have spec: "spec_gen (Promote slot generation) g = switch_to slot ''standby'' g" using True by simp
      have "gens_ok recorded (switch_to slot ''standby'' g)"
        using gens_ok_promote [OF ok, of slot generation] unfolding spec .
      moreover have "\<exists>u. r = Inr u"
      proof -
        obtain slots where slots: "slots_of state = slots" "slots_show slots g" by (rule shown_slots [OF state(1)])
        obtain slots1 slots2 where "set_status slot ''active'' slots = Inr slots1"
            "set_status (g_active g) ''standby'' slots1 = Inr slots2"
          by (rule switched_slots [OF slots(2), of slot "''standby''"]) (use True shown_fields(4) [OF state(1)] in auto)
        then show ?thesis
          using promoted True yes d(1) ready unfolding promote_candidate_def state(2)
          by (auto simp: Let_def shown_active [OF state(1)] slot_dict_def slots(1))
      qed
      ultimately show ?thesis using refined yes True unfolding spec by (auto simp: gen_view_def)
    qed
  qed
qed

lemma gen_view_restore:
  assumes view: "gen_view c file g" and slot: "slot \<in> set SLOTS" "slot \<noteq> g_active g"
    and gen: "gs_generation (g_slot slot g) = Some v" and restored: "restore_active_slot c stamp slot file = (r, file1)"
  shows "gen_view c file1 (switch_to slot ''ready'' g) \<and> (\<exists>state. r = Inr state)"
proof -
  obtain recorded where shown: "file_shows c file g" and ok: "gens_ok recorded g"
    using view by (auto simp: gen_view_def)
  obtain state where state: "state_shows c state g" "ensure_generation_state c stamp file = Inr (state, Parsed (VDict state))"
    by (rule shown_read [OF shown])
  obtain slots where slots: "slots_of state = slots" "slots_show slots g" by (rule shown_slots [OF state(1)])
  note f = shown_fields [OF state(1)]
  obtain slots1 slots2 where switched: "set_status slot ''active'' slots = Inr slots1"
      "set_status (g_active g) ''ready'' slots1 = Inr slots2" "slots_show slots2 (switch_to slot ''ready'' g)"
    by (rule switched_slots [OF slots(2), of slot "''ready''"]) (use slot f(4) in auto)
  let ?updated = "with_slots (AList.update ''updated_at'' (VStr stamp)
              (AList.update ''previous_slot'' (VStr (g_active g)) (AList.update ''active_slot'' (VStr slot) state))) slots2"
  have "file_shows c (Parsed (VDict ?updated)) (switch_to slot ''ready'' g)"
    by (rule state_shows_intro [OF state(1) _ _ _ _ _ _ _ switched(3)]) (use f(4) slot in \<open>simp_all add: with_slots_def\<close>)
  moreover have "r = Inr ?updated" "file1 = Parsed (VDict ?updated)"
    using restored slot switched(1,2)
    by (simp_all add: restore_active_slot_def state(2) Let_def shown_active [OF state(1)] slots(1))
  moreover have "gens_ok recorded (switch_to slot ''ready'' g)"
    by (rule gens_ok_switch [OF ok slot]) (simp_all add: gen)
  ultimately show ?thesis by (auto simp: gen_view_def)
qed

definition serves :: "gens \<Rightarrow> pool_service \<Rightarrow> bool" where
  "serves g s \<longleftrightarrow> ps_slot s = g_active g \<and> gs_generation (g_slot (g_active g) g) = Some (ps_generation s)"

definition rolls_to :: "gens \<Rightarrow> pool_service \<Rightarrow> bool" where
  "rolls_to g s \<longleftrightarrow> ps_slot s \<in> set SLOTS \<and> ps_slot s \<noteq> g_active g
     \<and> gs_generation (g_slot (ps_slot s) g) = Some (ps_generation s)"

definition swap_fits :: "gens \<Rightarrow> pool_swap \<Rightarrow> bool" where
  "swap_fits g w \<longleftrightarrow> ps_company (sw_service w) = sw_tenant w \<and> sw_company w = sw_tenant w
     \<and> (sw_kind w = Reload \<longrightarrow> serves g (sw_service w)) \<and> (sw_kind w = Rolling \<longrightarrow> rolls_to g (sw_service w))"

definition routed :: "service_pool \<Rightarrow> string \<Rightarrow> gens \<Rightarrow> bool" where
  "routed pool c g \<longleftrightarrow> gen_view c (sp_files pool c) g
     \<and> (\<forall>s. map_of (sp_services pool) c = Some s \<longrightarrow> ps_company s = c \<and> serves g s)
     \<and> (\<forall>w. sp_pending pool = Some w \<longrightarrow> sw_tenant w = c \<longrightarrow> swap_fits g w)"

text \<open>A step that leaves the manifest of a tenant alone and gives it no other service\<close>

lemma routed_keeps:
  assumes "routed p c g" and "sp_files q c = sp_files p c"
    and "\<And>s. map_of (sp_services q) c = Some s \<Longrightarrow> map_of (sp_services p) c = Some s \<or> ps_company s = c \<and> serves g s"
    and "\<And>w. sp_pending q = Some w \<Longrightarrow> sw_tenant w = c \<Longrightarrow> sp_pending p = Some w \<or> swap_fits g w"
  shows "routed q c g"
  unfolding routed_def
proof (intro conjI allI impI)
  show "gen_view c (sp_files q c) g" using assms(1,2) by (simp add: routed_def)
next
  fix s assume "map_of (sp_services q) c = Some s"
  then show "ps_company s = c" "serves g s" using assms(1) assms(3) [of s] by (auto simp: routed_def)
next
  fix w assume "sp_pending q = Some w" "sw_tenant w = c"
  then show "swap_fits g w" using assms(1) assms(4) [of w] by (auto simp: routed_def)
qed

lemma validated_id: "tenant_id_ok c \<Longrightarrow> validate_tenant_id c = Inr c"
proof -
  assume ok: "tenant_id_ok c"
  have chars: "is_lower x \<or> is_digit x \<or> x = CHR ''_'' \<or> x = CHR ''-''" if "x \<in> set c" for x
    using ok that by (cases c) (auto simp: tenant_id_ok_def list_all_iff)
  have "\<not> is_space x \<and> fold_char x = [x]" if "x \<in> set c" for x
    using chars [OF that] by (auto simp: is_lower_def is_digit_def is_space_def fold_char_def Let_def)
  then have plain: "strip c = c" "map fold_char c = map (\<lambda>x. [x]) c" by (auto intro: strip_none)
  have "concat (map (\<lambda>x. [x]) c) = c" by (induction c) simp_all
  then show ?thesis using ok unfolding validate_tenant_id_def casefold_def plain by simp
qed

lemma registry_get_own:
  assumes "profiles_ok (rg_profiles reg)" and "map_of (rg_profiles reg) c = Some p"
  shows "registry_get reg c = Inr p" and "tp_company p = c"
proof -
  from assms map_of_SomeD have own: "tp_company p = c" "tenant_id_ok c" by (fastforce simp: profiles_ok_def)+
  then show "registry_get reg c = Inr p" using assms(2) by (simp add: registry_get_def validated_id)
  show "tp_company p = c" by (rule own(1))
qed

lemma map_of_drop: "distinct (map fst xs) \<Longrightarrow> map_of (drop n xs) k = Some v \<Longrightarrow> map_of xs k = Some v"
  by (metis distinct_drop drop_map in_set_dropD map_of_SomeD map_of_eq_Some_iff)

lemma gen_view_active: "gen_view c file g \<Longrightarrow> g_active g \<in> set SLOTS"
  by (auto simp: gen_view_def gens_ok_def)

lemma get_routed:
  assumes "profiles_ok (rg_profiles reg)" and own: "map_of (rg_profiles reg) c = Some profile"
    and keys: "keys_distinct p" and all: "\<And>c. \<exists>g. routed p c g"
    and got: "pool_get reg cap now active c failure p = (r, q)"
  shows "\<exists>g. routed q c' g"
proof -
  obtain g' where g': "routed p c' g'" using all by blast
  note reg = registry_get_own [OF assms(1) own]
  from got show ?thesis
  proof (cases rule: pool_get_cases)
    case (hit s)
    have "routed q c' g'"
      by (rule routed_keeps [OF g']) (use hit(1) in \<open>auto simp: hit(3) lend_def touch_service_def split: if_splits\<close>)
    then show ?thesis by blast
  next
    case (failed e fs)
    have "routed q c' g'" by (rule routed_keeps [OF g']) (auto simp: failed(3))
    then show ?thesis by blast
  next
    case (built s profile' g)
    have profile: "tp_company profile' = c" using built(3) reg by simp
    let ?all = "sp_services p @ [(c, s)]"
    have distinct: "distinct (map fst ?all)" using keys built(1) by (simp add: keys_distinct_def map_of_eq_None_iff)
    have services: "sp_services q = drop (length ?all - cap) ?all" "sp_files q = sp_files p" "sp_pending q = sp_pending p"
      using built(1) by (simp_all add: built(6) lend_def add_service_eq Let_def)
    have fits: "ps_company s = c \<and> serves g' s" if "c' = c"
    proof -
      have "gen_view c (sp_files p c) g'" using g' that by (simp add: routed_def)
      then obtain v where "gs_generation (g_slot (g_active g') g') = Some v"
        "resolve_generation c [] None (sp_files p c) = Inr \<lparr>rg_slot = g_active g', rg_generation = v\<rparr>"
        by (rule gen_view_resolve) blast
      then show ?thesis using built(4,5) profile by (auto simp: serves_def)
    qed
    have "routed q c' g'"
    proof (rule routed_keeps [OF g'])
      fix x assume "map_of (sp_services q) c' = Some x"
      from map_of_drop [OF distinct this [unfolded services(1)]]
      show "map_of (sp_services p) c' = Some x \<or> ps_company x = c' \<and> serves g' x"
        using fits by (auto simp: map_add_def split: option.splits if_splits)
    qed (simp_all add: services)
    then show ?thesis by blast
  qed
qed

lemma start_swap_routed:
  assumes all: "\<And>c. \<exists>g. routed p c g" and idle: "sp_pending p = None"
    and fits: "\<And>g (s :: pool_service). routed p tenant g \<Longrightarrow> ps_company s = tenant \<Longrightarrow> ps_slot s = slot \<Longrightarrow> ps_generation s = generation
        \<Longrightarrow> swap_fits g \<lparr>sw_kind = kind, sw_company = c, sw_tenant = tenant, sw_service = s\<rparr>"
  shows "\<exists>g. routed (snd (start_swap now active kind c tenant slot generation failure ready p)) c' g"
proof -
  obtain g' where g': "routed p c' g'" using all by blast
  let ?q = "snd (start_swap now active kind c tenant slot generation failure ready p)"
  have "sp_services ?q = sp_services p" "sp_files ?q = sp_files p"
    by (simp_all add: start_swap_def build_service_def split: option.splits sum.splits bool.splits)
  moreover have "swap_fits g' w" if "sp_pending ?q = Some w" "sw_tenant w = c'" for w
    using that idle fits g'
    by (auto simp: start_swap_def build_service_def split: option.splits sum.splits bool.splits)
  ultimately have "routed ?q c' g'" by (intro routed_keeps [OF g']) auto
  then show ?thesis by blast
qed

lemma begin_reload_routed:
  assumes "profiles_ok (rg_profiles reg)" and own: "map_of (rg_profiles reg) c = Some profile"
    and all: "\<And>c. \<exists>g. routed p c g" and idle: "sp_pending p = None"
  shows "\<exists>g. routed (snd (begin_reload reg now active c failure ready p)) c' g"
proof (cases "find_generation reg c p")
  case (Inr x)
  note reg = registry_get_own [OF assms(1) own]
  from Inr reg obtain rg where x: "x = (profile, rg)" "resolve_generation c [] None (sp_files p c) = Inr rg"
    by (auto simp: find_generation_def and_then_Inr)
  have "\<exists>g. routed (snd (start_swap now active Reload c c (rg_slot rg) (rg_generation rg) failure ready p)) c' g"
  proof (rule start_swap_routed [OF all idle])
    fix g and s :: pool_service assume "routed p c g" and s: "ps_company s = c" "ps_slot s = rg_slot rg" "ps_generation s = rg_generation rg"
    then have "gen_view c (sp_files p c) g" by (simp add: routed_def)
    then obtain v where "gs_generation (g_slot (g_active g) g) = Some v"
      "resolve_generation c [] None (sp_files p c) = Inr \<lparr>rg_slot = g_active g, rg_generation = v\<rparr>"
      by (rule gen_view_resolve) blast
    then show "swap_fits g \<lparr>sw_kind = Reload, sw_company = c, sw_tenant = c, sw_service = s\<rparr>"
      using x(2) s by (simp add: swap_fits_def serves_def)
  qed
  then show ?thesis
    using all by (auto simp: begin_reload_def Inr x reg(2) Let_def split: option.splits)
qed (use all in \<open>simp add: begin_reload_def\<close>)

lemma begin_activate_routed:
  assumes "profiles_ok (rg_profiles reg)" and own: "map_of (rg_profiles reg) c = Some profile"
    and all: "\<And>c. \<exists>g. routed p c g" and idle: "sp_pending p = None"
  shows "\<exists>g. routed (snd (begin_activate reg now active c slot generation failure ready p)) c' g"
proof -
  note reg = registry_get_own [OF assms(1) own]
  have start: "\<exists>g. routed (snd (start_swap now active Activate c c slot generation failure ready p)) c' g"
    by (rule start_swap_routed [OF all idle]) (simp add: swap_fits_def)
  let ?r = "and_then (registry_get reg c) (\<lambda>p1.
      and_then (read_generation_state (tp_company p1) [] (sp_files p (tp_company p1))) (\<lambda>state.
      and_then (check_candidate slot generation state) (\<lambda>_. Inr p1)))"
  have "x = profile" if "?r = Inr x" for x using that by (auto simp: and_then_Inr reg(1))
  then show ?thesis
    using start all reg(2) unfolding begin_activate_def by (cases ?r) auto
qed

lemma rollback_target_shown:
  assumes shown: "state_shows c state g" and target: "rollback_target state = Inr (slot, generation)"
    and s: "ps_slot s = slot" "ps_generation s = generation"
  shows "rolls_to g s"
proof -
  obtain previous where previous: "dget state ''previous_slot'' = VStr previous"
    using target by (auto simp: rollback_target_def split: pyval.splits)
  then have "g_previous g = Some previous" using shown_fields(5) [OF shown] by (auto split: option.splits)
  then have slots: "previous \<in> set SLOTS" by (rule shown_fields(6) [OF shown])
  obtain d where d: "map_of (slots_of state) previous = Some (VDict d)"
    "dget d ''generation'' = (case gs_generation (g_slot previous g) of None \<Rightarrow> VNone | Some v \<Rightarrow> VStr v)"
    by (rule shown_slot [OF shown slots])
  have "previous \<noteq> g_active g \<and> slot = previous \<and> gs_generation (g_slot previous g) = Some generation"
    using target unfolding rollback_target_def previous
    by (auto simp: shown_active [OF shown] d slot_dict_def and_then_Inr split: if_splits option.splits)
  then show ?thesis using s slots by (simp add: rolls_to_def)
qed

lemma begin_rollback_routed:
  assumes "profiles_ok (rg_profiles reg)" and own: "map_of (rg_profiles reg) c = Some profile"
    and all: "\<And>c. \<exists>g. routed p c g" and idle: "sp_pending p = None"
  shows "\<exists>g. routed (snd (begin_rollback reg now active c failure ready p)) c' g"
proof -
  note reg = registry_get_own [OF assms(1) own]
  show ?thesis
  proof (cases "and_then (read_generation_state c [] (sp_files p c)) rollback_target")
    case (Inl e)
    have "\<exists>e. and_then (read_generation_state c [] (sp_files p c)) (\<lambda>state.
        and_then (rollback_target state) (\<lambda>target. Inr (profile, target))) = Inl e"
      using Inl by (cases "read_generation_state c [] (sp_files p c)") auto
    then show ?thesis using all by (auto simp: begin_rollback_def reg)
  next
    case (Inr target)
    then obtain state where read: "read_generation_state c [] (sp_files p c) = Inr state" "rollback_target state = Inr target"
      by (auto simp: and_then_Inr)
    obtain slot generation where target: "target = (slot, generation)" by fastforce
    have "\<exists>g. routed (snd (start_swap now active Rolling c c slot generation failure ready p)) c' g"
    proof (rule start_swap_routed [OF all idle])
      fix g and s :: pool_service assume "routed p c g" and s: "ps_company s = c" "ps_slot s = slot" "ps_generation s = generation"
      then have "file_shows c (sp_files p c) g" by (simp add: routed_def gen_view_def)
      then obtain state' where "read_generation_state c [] (sp_files p c) = Inr state'" "state_shows c state' g"
        by (rule shown_read)
      then have "rolls_to g s" using rollback_target_shown [OF _ read(2) [unfolded target] s(2,3)] read(1) by simp
      then show "swap_fits g \<lparr>sw_kind = Rolling, sw_company = c, sw_tenant = c, sw_service = s\<rparr>"
        using s(1) by (simp add: swap_fits_def)
    qed
    then show ?thesis by (simp add: begin_rollback_def reg read target)
  qed
qed

lemma installed_services:
  "map_of (sp_services (install_service now c s p)) = (map_of (sp_services p))(c \<mapsto> s)"
  "sp_files (install_service now c s p) = sp_files p" "sp_pending (install_service now c s p) = sp_pending p"
  by (simp_all add: install_service_def retire_def Let_def split: option.splits)

lemma finish_routed:
  assumes all: "\<And>c. \<exists>g. routed p c g" and w: "sp_pending p = Some w"
  shows "\<exists>g. routed (snd (finish_swap now active stamp w p)) c' g"
proof -
  let ?c = "sw_tenant w" and ?s = "sw_service w"
  let ?q = "snd (finish_swap now active stamp w p)"
  obtain r file1 where m: "swap_manifest stamp w (sp_files p ?c) = (r, file1)" by fastforce
  obtain g where g: "routed p ?c g" using all by blast
  have fits: "swap_fits g w" and view: "gen_view ?c (sp_files p ?c) g" using g w by (auto simp: routed_def)
  have company: "sw_company w = ?c" "ps_company ?s = ?c" using fits by (simp_all add: swap_fits_def)
  have files: "sp_files ?q = (sp_files p)(?c := file1)" "sp_pending ?q = None"
    using m by (simp_all add: finish_swap_def Let_def installed_services split: sum.splits)
  have services: "map_of (sp_services ?q) = (case r of Inl e \<Rightarrow> map_of (sp_services p)
      | Inr state \<Rightarrow> (map_of (sp_services p))(?c \<mapsto> ?s))"
    using m company by (simp add: finish_swap_def Let_def installed_services split: sum.splits)
  show ?thesis
  proof (cases "c' = ?c")
    case False
    obtain g' where "routed p c' g'" using all by blast
    then have "routed ?q c' g'"
      by (rule routed_keeps) (use False in \<open>auto simp: files services split: sum.splits\<close>)
    then show ?thesis by blast
  next
    case True
    show ?thesis
    proof (cases r)
      case (Inl e)
      have "gen_view ?c file1 g"
      proof (cases "sw_kind w")
        case Reload
        then show ?thesis using m Inl by (simp add: swap_manifest_def)
      next
        case Activate
        from m have "promote_candidate ?c stamp (ps_slot ?s) (ps_generation ?s) (sp_files p ?c) = (r, file1)"
          by (simp add: swap_manifest_def Activate)
        from gen_view_promote [OF view this] Inl show ?thesis by simp
      next
        case Rolling
        from m have restored: "restore_active_slot ?c stamp (ps_slot ?s) (sp_files p ?c) = (r, file1)"
          by (simp add: swap_manifest_def Rolling)
        have "rolls_to g ?s" using fits Rolling by (simp add: swap_fits_def)
        then have "\<exists>state. r = Inr state" using gen_view_restore [OF view _ _ _ restored] unfolding rolls_to_def by blast
        then show ?thesis using Inl by simp
      qed
      then have "routed ?q ?c g" using g by (simp add: routed_def files services Inl)
      then show ?thesis using True by blast
    next
      case (Inr state)
      have "\<exists>g1. gen_view ?c file1 g1 \<and> serves g1 ?s"
      proof (cases "sw_kind w")
        case Reload
        then show ?thesis using m Inr view fits by (auto simp: swap_manifest_def swap_fits_def)
      next
        case Activate
        from m have "promote_candidate ?c stamp (ps_slot ?s) (ps_generation ?s) (sp_files p ?c) = (r, file1)"
          by (simp add: swap_manifest_def Activate)
        from gen_view_promote [OF view this] have promoted: "gen_view ?c file1 (switch_to (ps_slot ?s) ''standby'' g)"
          "ps_slot ?s \<in> set SLOTS" "gs_generation (g_slot (ps_slot ?s) g) = Some (ps_generation ?s)" by (simp_all add: Inr)
        then have "serves (switch_to (ps_slot ?s) ''standby'' g) ?s"
          using switched_generation [OF promoted(2) gen_view_active [OF view]] by (simp add: serves_def)
        then show ?thesis using promoted(1) by blast
      next
        case Rolling
        from m have "restore_active_slot ?c stamp (ps_slot ?s) (sp_files p ?c) = (r, file1)"
          by (simp add: swap_manifest_def Rolling)
        moreover have rolls: "ps_slot ?s \<in> set SLOTS" "ps_slot ?s \<noteq> g_active g"
          "gs_generation (g_slot (ps_slot ?s) g) = Some (ps_generation ?s)"
          using fits Rolling by (simp_all add: swap_fits_def rolls_to_def)
        ultimately have "gen_view ?c file1 (switch_to (ps_slot ?s) ''ready'' g)"
          using gen_view_restore [OF view rolls] by blast
        moreover have "serves (switch_to (ps_slot ?s) ''ready'' g) ?s"
          using rolls switched_generation [OF rolls(1) gen_view_active [OF view]] by (simp add: serves_def)
        ultimately show ?thesis by blast
      qed
      then obtain g1 where "gen_view ?c file1 g1" "serves g1 ?s" by blast
      then have "routed ?q ?c g1" using company by (simp add: routed_def files services Inr)
      then show ?thesis using True by blast
    qed
  qed
qed

lemma record_routed:
  assumes all: "\<And>c. \<exists>g. routed p c g" and gen: "generation \<noteq> []"
    and free: "\<And>w. sp_pending p = Some w \<Longrightarrow> sw_kind w = Rolling \<Longrightarrow> sw_tenant w \<noteq> tenant"
  shows "\<exists>g. routed (p\<lparr>sp_files := (sp_files p)(tenant :=
       snd (record_candidate_ready tenant stamp (slot_name slot) generation validation (sp_files p tenant)))\<rparr>) c' g"
proof -
  let ?q = "p\<lparr>sp_files := (sp_files p)(tenant :=
       snd (record_candidate_ready tenant stamp (slot_name slot) generation validation (sp_files p tenant)))\<rparr>"
  obtain g where g: "routed p c' g" using all by blast
  show ?thesis
  proof (cases "c' = tenant")
    case False
    have "routed ?q c' g" by (rule routed_keeps [OF g]) (use False in auto)
    then show ?thesis by blast
  next
    case True
    let ?g1 = "spec_gen (RecordReady slot generation validation) g"
    have view: "gen_view tenant (sp_files p tenant) g" using g True by (simp add: routed_def)
    have same: "serves ?g1 s = serves g s" for s
      using gen_view_active [OF view] by (cases slot) (auto simp: serves_def put_slot_def g_slot_def slot_name_def SLOTS_def)
    have "routed ?q tenant ?g1"
      using g True gen_view_record [OF view gen] free unfolding routed_def same swap_fits_def by auto
    then show ?thesis using True by blast
  qed
qed

lemma strict_run_routed:
  assumes "pool_run True reg cap now p" and "0 < cap" and ok: "profiles_ok (rg_profiles reg)"
  shows "\<exists>g. routed p c g"
  using assms(1)
proof (induction arbitrary: c rule: pool_run.induct)
  case (pool_start now)
  have "routed new_pool c no_gens" using gen_view_start by (simp add: routed_def new_pool_def)
  then show ?case by blast
next
  case (pool_next clock p now ev active)
  note all = pool_next.IH
  have keys: "keys_distinct p" using pool_run_inv [OF pool_next.hyps(1) assms(2)] by blast
  have allowed: "event_ok reg p ev" using pool_next.hyps by blast
  show ?case
  proof (cases ev)
    case (GetService company failure)
    then obtain profile where "map_of (rg_profiles reg) company = Some profile" using allowed by auto
    from get_routed [OF ok this keys all] GetService show ?thesis by (metis pool_step.simps(1) prod.collapse)
  next
    case (BeginReload company failure ready)
    then obtain profile where "map_of (rg_profiles reg) company = Some profile" using allowed by auto
    from begin_reload_routed [OF ok this all] all BeginReload show ?thesis by (simp add: unless_pending_def)
  next
    case (BeginActivate company slot generation failure ready)
    then obtain profile where "map_of (rg_profiles reg) company = Some profile" using allowed by auto
    from begin_activate_routed [OF ok this all] all BeginActivate show ?thesis by (simp add: unless_pending_def)
  next
    case (BeginRollback company failure ready)
    then obtain profile where "map_of (rg_profiles reg) company = Some profile" using allowed by auto
    from begin_rollback_routed [OF ok this all] all BeginRollback show ?thesis by (simp add: unless_pending_def)
  next
    case (FinishSwap stamp)
    then show ?thesis using all finish_routed [OF all] by (cases "sp_pending p") simp_all
  next
    case (RecordCandidate tenant stamp slot generation validation)
    then show ?thesis using record_routed [OF all] allowed by simp
  next
    case ClosePool
    obtain g where "routed p c g" using all by blast
    then have "routed (close_pool now active p) c g"
      by (rule routed_keeps) (auto simp: close_pool_def)
    then show ?thesis using ClosePool by auto
  qed
qed

lemma run_keys: "pool_run strict reg cap now p \<Longrightarrow> 0 < cap \<Longrightarrow> keys_distinct p"
  using pool_run_inv by blast

text \<open>The service that \<open>get\<close> hands out is the one that it routes to afterwards.\<close>

lemma got_service_routed:
  assumes keys: "keys_distinct p" and cap: "0 < cap" and got: "pool_get reg cap now active c failure p = (Inr s, q)"
  shows "map_of (sp_services q) c = Some s"
  using got
proof (cases rule: pool_get_cases)
  case (hit s')
  then show ?thesis by (simp add: lend_def touch_service_def)
next
  case (built s' profile g)
  let ?all = "sp_services p @ [(c, s')]"
  have distinct: "distinct (map fst ?all)" using keys built(1) by (simp add: keys_distinct_def map_of_eq_None_iff)
  have "sp_services q = drop (length ?all - cap) ?all"
    using built(1) by (simp add: built(6) lend_def add_service_eq Let_def)
  moreover have "length ?all - cap \<le> length (sp_services p)" using cap by simp
  ultimately have "(c, s') \<in> set (sp_services q)" "distinct (map fst (sp_services q))"
    using distinct by (simp, simp only: drop_map [symmetric] distinct_drop)
  then show ?thesis using built(2) by simp
qed simp

subsection \<open>The gate of the API\<close>

text \<open>\<open>resolve_company_profile\<close> and \<open>resolve_service\<close> in tenant mode; a refusal is its HTTP status.\<close>

definition resolve_company_profile ::
  "(string \<Rightarrow> string) \<Rightarrow> tenant_registry \<Rightarrow> string option \<Rightarrow> string option \<Rightarrow> nat + tenant_profile" where
  "resolve_company_profile sha reg api_key endpoint =
     (case api_key of None \<Rightarrow> Inl 401 | Some key \<Rightarrow>
        if key = [] then Inl 401
        else (case resolve_api_key sha reg key of
          None \<Rightarrow> Inl 401
        | Some profile \<Rightarrow> (case endpoint of
              None \<Rightarrow> Inr profile
            | Some slug \<Rightarrow> (case resolve_endpoint reg slug of
                None \<Rightarrow> Inl 404
              | Some other \<Rightarrow> if tp_company other \<noteq> tp_company profile then Inl 403 else Inr profile))))"

text \<open>\<open>allowed\<close> is the answer of the rate limiter; what \<open>get\<close> raises but a RuntimeError is a 500.\<close>

definition resolve_service ::
  "(string \<Rightarrow> string) \<Rightarrow> tenant_registry \<Rightarrow> nat \<Rightarrow> bool \<Rightarrow> int \<Rightarrow> (nat \<Rightarrow> nat) \<Rightarrow> string option \<Rightarrow> string option
     \<Rightarrow> py_error option \<Rightarrow> service_pool \<Rightarrow> (nat + pool_service) \<times> service_pool" where
  "resolve_service sha reg max_services allowed now active api_key endpoint failure pool =
     (case resolve_company_profile sha reg api_key endpoint of
        Inl status \<Rightarrow> (Inl status, pool)
      | Inr profile \<Rightarrow>
          if \<not> allowed then (Inl 429, pool)
          else (case pool_get reg max_services now active (tp_company profile) failure pool of
              (Inr s, p1) \<Rightarrow> (Inr s, p1)
            | (Inl (RuntimeError m), p1) \<Rightarrow> (Inl 503, p1)
            | (Inl e, p1) \<Rightarrow> (Inl 500, p1)))"

text \<open>
  C12: A request that passes the gate with a key and an endpoint is served by the tenant that
  the key is configured for and whose endpoint it is, on the index generation that the
  manifest of this tenant names as active, after any run of requests, reloads, activations and
  rollbacks (tenants are named by their profile, keys have different digests, and no candidate
  is recorded while a rollback of its tenant is under way).
\<close>

theorem request_served_by_own_tenant:
  assumes "load_tenant_registry sha project resolve env required docs = Inr reg" and "inj sha"
    and "pool_run True reg cap clock pool" and "0 < cap" and "clock \<le> now"
    and "resolve_service sha reg cap True now active (Some key) (Some slug) failure pool = (Inr s, pool')"
  shows "\<exists>p r. map_of (rg_profiles reg) (ps_company s) = Some p
     \<and> key \<in> set (tenant_keys env [] (ps_company s) p) \<and> validate_tenant_id slug = Inr (slug_of p)
     \<and> resolve_generation (ps_company s) stamp None (sp_files pool' (ps_company s)) = Inr r
     \<and> rg_slot r = ps_slot s \<and> rg_generation r = ps_generation s"
proof -
  note L = loaded_registry [OF assms(1)]
  obtain p other where p: "resolve_api_key sha reg key = Some p" and other: "resolve_endpoint reg slug = Some other"
    and same: "tp_company other = tp_company p"
    and got: "pool_get reg cap now active (tp_company p) failure pool = (Inr s, pool')"
    using assms(6) by (auto simp: resolve_service_def resolve_company_profile_def
        split: if_splits option.splits sum.splits prod.splits py_error.splits)
  obtain c where c: "map_of (rg_profiles reg) c = Some p" "key \<in> set (tenant_keys env [] c p)"
    using p unfolding api_key_owner [OF assms(1,2)] by blast
  obtain c1 where c1: "map_of (rg_profiles reg) c1 = Some other" "validate_tenant_id slug = Inr (slug_of other)"
    using other unfolding endpoint_owner [OF assms(1)] by blast
  have companies: "tp_company p = c" "tp_company other = c1"
    using registry_get_own(2) [OF L(1)] c(1) c1(1) by blast+
  have "other = p" using companies same c(1) c1(1) by simp
  obtain g where g: "routed pool c g" using strict_run_routed [OF assms(3,4) L(1)] by blast
  have run: "pool_run True reg cap now pool'"
    using pool_next [OF assms(3,5), of "GetService c failure" active] c(1) got companies by simp
  obtain g1 where g1: "routed pool' c g1" using strict_run_routed [OF run assms(4) L(1)] by blast
  have "ps_company s = c \<and> serves g1 s"
    using g1 got_service_routed [OF run_keys [OF assms(3,4)] assms(4) got [unfolded companies]] unfolding routed_def by blast
  moreover obtain v where "gs_generation (g_slot (g_active g1) g1) = Some v"
    "resolve_generation c stamp None (sp_files pool' c) = Inr \<lparr>rg_slot = g_active g1, rg_generation = v\<rparr>"
    using g1 unfolding routed_def by (elim conjE gen_view_resolve) blast
  ultimately show ?thesis using c c1(2) \<open>other = p\<close> by (auto simp: serves_def)
qed

subsection \<open>Two tenants in a pool of one service\<close>

lemma absent_generation: "resolve_generation c [] None Absent = Inr \<lparr>rg_slot = ''a'', rg_generation = ''legacy-a''\<rparr>"
  by (simp add: resolve_generation_def read_generation_state_def default_generation_state_def active_slot_def
      slots_of_def slot_dict_def dget_def SLOTS_def or_else_def Let_def)

lemma sample_registry:
  obtains r p q where "load_samples = Inr r" "registry_get r ''acme'' = Inr p" "tp_company p = ''acme''"
    "registry_get r ''beta'' = Inr q" "tp_company q = ''beta''" "map_of (rg_profiles r) ''acme'' = Some p"
    "resolve_api_key id r ''key-two'' = Some p" "resolve_endpoint r ''acme'' = Some p"
proof -
  obtain r p q where s: "load_samples = Inr r" "map_of (rg_profiles r) ''acme'' = Some p" "tp_company p = ''acme''"
    "map_of (rg_profiles r) ''beta'' = Some q" "tp_company q = ''beta''" "map_of (rg_keys r) ''key-two'' = Some ''acme''"
    "slug_of p = ''acme''" by (rule samples_found)
  note L = loaded_registry(1) [OF s(1) [unfolded load_samples_def]]
  have acme: "validate_tenant_id ''acme'' = Inr ''acme''" by code_simp
  have "resolve_endpoint r ''acme'' = Some p"
    unfolding endpoint_owner [OF s(1) [unfolded load_samples_def]] acme s(7) using s(2) by blast
  moreover have "resolve_api_key id r ''key-two'' = Some p" using s(2,6) by (simp add: resolve_api_key_def)
  ultimately show thesis
    using that [of r p q] s registry_get_own(1) [OF L s(2)] registry_get_own(1) [OF L s(4)] by blast
qed

definition sample_service :: "nat \<Rightarrow> string \<Rightarrow> pool_service" where
  "sample_service i c = \<lparr>ps_id = i, ps_company = c, ps_slot = ''a'', ps_generation = ''legacy-a''\<rparr>"

lemma sample_get:
  assumes "registry_get r c = Inr p" and "tp_company p = c" and "sp_files pool = (\<lambda>_. Absent)"
    and "map_of (sp_services pool) c = None" and "sp_retired pool = []"
  shows "pool_get r 1 now active c None pool = (Inr (sample_service (sp_next pool) c),
    lend now (sample_service (sp_next pool) c) (add_service 1 now c (sample_service (sp_next pool) c)
      (pool\<lparr>sp_retired := [], sp_next := Suc (sp_next pool)\<rparr>)))"
  using assms by (simp add: pool_get_def collect_retired_def find_generation_def absent_generation build_service_def sample_service_def)

theorem request_served_by_own_tenant_witness:
  "\<exists>reg s pool'. load_samples = Inr reg
     \<and> resolve_service id reg 1 True 0 (\<lambda>_. 0) (Some ''key-two'') (Some ''acme'') None new_pool = (Inr s, pool')
     \<and> (\<exists>p g. map_of (rg_profiles reg) (ps_company s) = Some p
         \<and> ''key-two'' \<in> set (tenant_keys sample_env [] (ps_company s) p) \<and> validate_tenant_id ''acme'' = Inr (slug_of p)
         \<and> resolve_generation (ps_company s) [] None (sp_files pool' (ps_company s)) = Inr g
         \<and> rg_slot g = ps_slot s \<and> rg_generation g = ps_generation s)"
proof -
  obtain r p where s: "load_samples = Inr r" "registry_get r ''acme'' = Inr p" "tp_company p = ''acme''"
    "resolve_api_key id r ''key-two'' = Some p" "resolve_endpoint r ''acme'' = Some p"
    by (rule sample_registry)
  have empty: "sp_files new_pool = (\<lambda>_. Absent)" "map_of (sp_services new_pool) ''acme'' = None" "sp_retired new_pool = []"
    by (simp_all add: new_pool_def)
  obtain x pool' where got: "pool_get r 1 0 (\<lambda>_. 0) ''acme'' None new_pool = (Inr x, pool')"
    using sample_get [OF s(2,3) empty] by blast
  then have served: "resolve_service id r 1 True 0 (\<lambda>_. 0) (Some ''key-two'') (Some ''acme'') None new_pool = (Inr x, pool')"
    by (simp add: resolve_service_def resolve_company_profile_def s(3-5))
  from request_served_by_own_tenant [OF s(1) [unfolded load_samples_def] inj_on_id pool_start zero_less_one order_refl served]
  show ?thesis using s(1) served by blast
qed

theorem leased_service_open_witness:
  "\<exists>reg pool. pool_run False reg 1 (1 + SERVICE_RETIRE_GRACE) pool
     \<and> map (\<lambda>ce. (ps_company (ce_service ce), ce_reason ce, ce_time ce)) (sp_closed pool) = [(''acme'', Collected, 1 + SERVICE_RETIRE_GRACE)]
     \<and> (\<forall>ce \<in> set (sp_closed pool). ce_reason ce \<noteq> Shutdown \<longrightarrow> (ce_reason ce = Collected \<longrightarrow> ce_active ce = 0)
          \<and> (\<forall>(t, i) \<in> set (sp_leases pool). i = ps_id (ce_service ce) \<longrightarrow> t + SERVICE_RETIRE_GRACE \<le> ce_time ce))"
proof -
  obtain r p q where s: "registry_get r ''acme'' = Inr p" "tp_company p = ''acme''"
    "registry_get r ''beta'' = Inr q" "tp_company q = ''beta''"
    by (rule sample_registry)
  define idle :: "nat \<Rightarrow> nat" where "idle = (\<lambda>_. 0)"
  define p1 where "p1 = snd (pool_get r 1 0 idle ''acme'' None new_pool)"
  define p2 where "p2 = snd (pool_get r 1 1 idle ''beta'' None p1)"
  define p3 where "p3 = snd (pool_get r 1 (1 + SERVICE_RETIRE_GRACE) idle ''beta'' None p2)"
  have run: "pool_run False r 1 (1 + SERVICE_RETIRE_GRACE) p3"
  proof -
    have "pool_run False r 1 0 p1"
      using pool_next [OF pool_start order_refl, where ev = "GetService ''acme'' None" and active = idle]
      by (simp add: p1_def)
    then have "pool_run False r 1 1 p2"
      using pool_next [of False r 1 0 p1, where now = 1 and ev = "GetService ''beta'' None" and active = idle]
      by (simp add: p2_def)
    then show ?thesis
      using pool_next [of False r 1 1 p2, where now = "1 + SERVICE_RETIRE_GRACE" and ev = "GetService ''beta'' None" and active = idle]
      by (simp add: p3_def SERVICE_RETIRE_GRACE_def)
  qed
  have e1: "p1 = new_pool\<lparr>sp_services := [(''acme'', sample_service 0 ''acme'')], sp_next := 1, sp_leases := [(0, 0)]\<rparr>"
    unfolding p1_def using sample_get [OF s(1,2), of new_pool 0 idle]
    by (simp add: new_pool_def lend_def add_service_def sample_service_def)
  have e2: "p2 = new_pool\<lparr>sp_services := [(''beta'', sample_service 1 ''beta'')],
      sp_retired := [(1 + SERVICE_RETIRE_GRACE, sample_service 0 ''acme'')], sp_next := 2, sp_leases := [(0, 0), (1, 1)]\<rparr>"
    unfolding p2_def using sample_get [OF s(3,4), of p1 1 idle]
    by (simp add: e1 new_pool_def lend_def add_service_def sample_service_def)
  have "sp_closed p3 = [\<lparr>ce_time = 1 + SERVICE_RETIRE_GRACE, ce_service = sample_service 0 ''acme'', ce_reason = Collected, ce_active = 0\<rparr>]"
    by (simp add: p3_def e2 pool_get_def collect_retired_def is_ready_def new_pool_def lend_def close_service_def touch_service_def idle_def)
  then have "map (\<lambda>ce. (ps_company (ce_service ce), ce_reason ce, ce_time ce)) (sp_closed p3) = [(''acme'', Collected, 1 + SERVICE_RETIRE_GRACE)]"
    by (simp add: sample_service_def)
  with run show ?thesis using conjunct2 [OF leased_service_open [OF run zero_less_one]] by (intro exI conjI)
qed

end
