(* ===== verification/Spec2Isabelle.thy ===== *)
theory Spec2Isabelle
  imports Request_Limit Reranker Bm25 Retrieval Text_Matching Planner Planner_Examples Ranking Engine_Cache Redis_Cache
    Index_Generations Search_Service Request_Slots Auth_Logins Analytics_Access Analytics_Spool Gainr_Support Query_Models Tenant_Pool
begin

text \<open>
  Verification of the multi-tenant semantic product search under \<^verbatim>\<open>src/src\<close>. A request names
  a tenant by its API key and endpoint, gets the service of that tenant from a pool, is planned (by
  rules or by a hosted model), retrieved from a vector and a lexical index, ranked, reranked and paged;
  around this lie budgets, caches, cursors, index generations, a legacy API of one tenant, and the
  analytics with their sign-in. This theory imports the library and holds no definition of its own.

  \<^bold>\<open>Foundations.\<close> \<^verbatim>\<open>Prelude\<close>: numbers, ordered dictionaries, stable sorts, errors
  (\<^verbatim>\<open>py_error\<close>, sequenced by \<^verbatim>\<open>and_then\<close>). \<^verbatim>\<open>Py_Text\<close>, \<^verbatim>\<open>Py_Value\<close>,
  \<^verbatim>\<open>Py_Regex\<close>: Python's texts, JSON values and the patterns the source uses.

  \<^bold>\<open>Tenants.\<close>
  \<^item> \<^verbatim>\<open>Tenant_Config\<close> is \<^verbatim>\<open>load_tenant_profile\<close> of \<^verbatim>\<open>core/tenant_config.py\<close>, one
    definition per section of the document, with the checks of the configuration classes; a profile
    that loads is well formed.
  \<^item> \<^verbatim>\<open>Tenant_Registry\<close> is discovery, \<^verbatim>\<open>validate_tenant_isolation\<close> and
    \<^verbatim>\<open>TenantRegistry\<close>: tenants share no endpoint, table or index file, and keys and endpoints name
    one tenant each.
  \<^item> \<^verbatim>\<open>Index_Generations\<close> is \<^verbatim>\<open>storage/index_generations.py\<close>: the manifest refines a
    two-slot machine and only validated generations are active.
  \<^item> \<^verbatim>\<open>Tenant_Pool\<close> is \<^verbatim>\<open>api/tenants.py\<close> and the gate of \<^verbatim>\<open>api/__init__.py\<close>, over the
    two theories before: an invariant on where each service is, and the composition that a request is
    served by its own tenant on its active generation.

  \<^bold>\<open>Planning.\<close>
  \<^item> \<^verbatim>\<open>Planner_Rules\<close>, \<^verbatim>\<open>Planner_Catalog\<close>, \<^verbatim>\<open>Text_Matching\<close> are the rules, the
    query analysis and the catalogue resolution of \<^verbatim>\<open>search/planner_rules.py\<close> and
    \<^verbatim>\<open>search/planner_catalog.py\<close>: no typo is resolved ambiguously, filters are catalogue values.
  \<^item> \<^verbatim>\<open>Policy\<close> is \<^verbatim>\<open>search/policy.py\<close> and the marketplace policy; \<^verbatim>\<open>Planner\<close> is
    \<^verbatim>\<open>search/planner.py\<close>: what a hosted plan may claim is evidenced in the query.
    \<^verbatim>\<open>Planner_Examples\<close> runs the fast paths.
  \<^item> \<^verbatim>\<open>Query_Provider\<close> and \<^verbatim>\<open>Query_Models\<close> are \<^verbatim>\<open>providers/gemini.py\<close>: the fallback
    chain keeps the budgets of the providers and the planner survives its failures.

  \<^bold>\<open>Searching.\<close>
  \<^item> \<^verbatim>\<open>Bm25\<close> is \<^verbatim>\<open>search/bm25.py\<close>: the store refines a map of documents and its full text
    table mirrors it. \<^verbatim>\<open>Retrieval\<close> is \<^verbatim>\<open>search/retrieval.py\<close>: fusion and exact filters.
    \<^verbatim>\<open>Ranking\<close> and \<^verbatim>\<open>Reranker\<close> are \<^verbatim>\<open>search/ranking.py\<close> and \<^verbatim>\<open>search/reranker.py\<close>.
  \<^item> \<^verbatim>\<open>Engine_Plan\<close>, \<^verbatim>\<open>Engine\<close>, \<^verbatim>\<open>Engine_Facts\<close>, \<^verbatim>\<open>Engine_Cache\<close> are
    \<^verbatim>\<open>search/engine_support.py\<close> and \<^verbatim>\<open>search/engine.py\<close>: a search always answers, degrades on a
    failing path, meets its filters, and its cache is neither partial nor stale.

  \<^bold>\<open>Serving.\<close>
  \<^item> \<^verbatim>\<open>Request_Limit\<close> is \<^verbatim>\<open>core/request_limit.py\<close> and \<^verbatim>\<open>core/rate_limit.py\<close>,
    \<^verbatim>\<open>Redis_Cache\<close> is \<^verbatim>\<open>storage/redis.py\<close>: windows and buckets keep their budgets.
  \<^item> \<^verbatim>\<open>Search_Sessions\<close>, \<^verbatim>\<open>Search_Service\<close>, \<^verbatim>\<open>Request_Slots\<close>, \<^verbatim>\<open>Usage_Store\<close> are
    \<^verbatim>\<open>api/contracts.py\<close>, \<^verbatim>\<open>api/service.py\<close> and \<^verbatim>\<open>storage/usage.py\<close>: cursors walk a
    result once, concurrent requests coalesce and drain, the ledger adds up.
  \<^item> \<^verbatim>\<open>Gainr_Requests\<close>, \<^verbatim>\<open>Gainr_Catalog\<close>, \<^verbatim>\<open>Gainr_Service\<close>, \<^verbatim>\<open>Gainr_Support\<close> are
    \<^verbatim>\<open>tenants/gainr\<close>: the request models, the catalogue repository and the compatibility service;
    the cards of a page meet the request and its total is exact.

  \<^bold>\<open>Analytics.\<close>
  \<^item> \<^verbatim>\<open>Auth_Store\<close>, \<^verbatim>\<open>Auth_Sessions\<close>, \<^verbatim>\<open>Auth_Logins\<close> are \<^verbatim>\<open>analytics_service/auth.py\<close>:
    an accepted session has a login, the tables refine a set of grants, the lockout is exact.
  \<^item> \<^verbatim>\<open>Analytics_Access\<close> is the registry and the guards of \<^verbatim>\<open>analytics_service/config.py\<close> and
    \<^verbatim>\<open>analytics_service/api.py\<close>; \<^verbatim>\<open>Analytics_Events\<close> and \<^verbatim>\<open>Analytics_Spool\<close> are
    \<^verbatim>\<open>storage/search_analytics.py\<close> and its spool: each event is delivered once and delivery drains.

  \<^bold>\<open>Conventions.\<close> State is a record, an operation a function that returns it updated, a failure a
  value of a sum. Code under concurrency is a step relation whose steps are what one lock, transaction
  or Redis script makes atomic; times, random tokens and the answers of services are arguments of the
  step. Interfaces are locales (\<^verbatim>\<open>revisioned_store\<close>, \<^verbatim>\<open>ad_type_policy\<close>,
  \<^verbatim>\<open>refilling_bucket\<close>, \<^verbatim>\<open>scorer\<close>, \<^verbatim>\<open>paged_source\<close>), interpreted on the model.
  All functions are total: every loop is structural or has a measure, so no fuel bounds a result.

  \<^bold>\<open>Abstractions.\<close> A float is an exact finite rational. Texts have code points up to 255. SQL is the
  meaning of the query on rows; the full text rank, \<^verbatim>\<open>LIKE\<close>, \<^verbatim>\<open>JSON_CONTAINS\<close> and the order
  and the equality of MySQL are arguments. So are JSON parsing, hosted exchanges, embeddings,
  pydantic's conversions, YAML parsing and path resolution; SHA-256 is a function without collisions
  where a claim says so, scrypt a function. Instants are numbers of microseconds or ISO text.
  \<^verbatim>\<open>SequenceMatcher\<close> is that of texts below 200 characters, where it has no junk heuristic.

  \<^bold>\<open>Not modelled.\<close> Log lines and measured durations; connection pools, sessions and schema
  migrations; ingestion, pgvector's SQL and the embedding service, which the databases and the network
  drive; the word lists of the gainr policy; the analytics reports, which are aggregations in pandas
  and SQL; process start and stop; operator commands.
\<close>

end
